(* ===== verification/Prelude.thy ===== *)
theory Prelude
  imports Main "HOL-Library.AList"
begin

text \<open>
  The generic part of the development: the collections of rewrite rules the component proofs
  use, and the lemmas on association lists, options and lists that several components share.

  A JavaScript \<open>Map\<close> is an association list in insertion order: \<open>get\<close> is \<^const>\<open>map_of\<close>,
  \<open>set\<close> is \<^const>\<open>AList.update\<close> (it keeps the position of a key that is present and appends a
  new one, as \<open>Map.prototype.set\<close> does), \<open>delete\<close> is \<^const>\<open>AList.delete\<close>, \<open>size\<close> is
  \<^const>\<open>length\<close> and \<open>clear\<close> is the empty list. Iteration goes through the list from its head.
\<close>

named_theorems frame "what an operation leaves unchanged"
named_theorems inv_intro "an operation keeps an invariant"
named_theorems live "an operation returns"

type_synonym ('k, 'v) jsmap = "('k \<times> 'v) list"

abbreviation jsmap_wf :: "('k, 'v) jsmap \<Rightarrow> bool" where
  "jsmap_wf m \<equiv> distinct (map fst m)"

subsection \<open>Association lists\<close>

lemma map_of_update [simp]:
  "map_of (AList.update k v m) = (map_of m)(k \<mapsto> v)"
  by (rule update_conv')

lemma map_of_delete [simp]:
  "map_of (AList.delete k m) = (map_of m)(k := None)"
  by (rule delete_conv')

lemma jsmap_wf_update [simp]:
  "jsmap_wf (AList.update k v m) = jsmap_wf m"
  by (induction m) (auto simp: dom_update image_iff)

lemma jsmap_wf_delete [intro, simp]:
  "jsmap_wf m \<Longrightarrow> jsmap_wf (AList.delete k m)"
  by (rule distinct_delete)

lemma delete_filter: "AList.delete u m = filter (\<lambda>p. fst p \<noteq> u) m"
  by (induction m) auto

lemma length_delete_present:
  "jsmap_wf m \<Longrightarrow> map_of m k = Some v \<Longrightarrow> Suc (length (AList.delete k m)) = length m"
proof (induction m)
  case (Cons p m)
  show ?case
  proof (cases "fst p = k")
    case True
    with Cons.prems have "map_of m k = None"
      by (cases p) (auto simp: map_of_eq_None_iff)
    then have "AList.delete k m = m" by (simp add: delete_id map_of_eq_None_iff)
    with True show ?thesis by (cases p) simp
  next
    case False
    with Cons show ?thesis by (cases p) auto
  qed
qed simp

lemma length_delete_absent:
  "map_of m k = None \<Longrightarrow> AList.delete k m = m"
  by (simp add: delete_id map_of_eq_None_iff)

lemma length_update_absent:
  "map_of m k = None \<Longrightarrow> length (AList.update k v m) = Suc (length m)"
  by (induction m) (auto split: if_splits)

lemma length_update_present:
  "map_of m k = Some w \<Longrightarrow> length (AList.update k v m) = length m"
  by (induction m) (auto split: if_splits)

lemma length_update_le:
  "length (AList.update k v m) \<le> Suc (length m)"
  by (cases "map_of m k") (simp_all add: length_update_absent length_update_present)

lemma length_delete_less_eq [simp]:
  "length (AList.delete k m) \<le> length m"
  by (rule length_delete_le)

lemma set_update_subset:
  "set (AList.update k v m) \<subseteq> insert (k, v) (set m)"
  by (induction m) auto

lemma set_delete_subset:
  "set (AList.delete k m) \<subseteq> set m"
  by (induction m) auto

lemma set_update_wf:
  "jsmap_wf m \<Longrightarrow> set (AList.update k v m) = insert (k, v) {p \<in> set m. fst p \<noteq> k}"
  by (induction m) (force simp: image_iff)+

lemma map_of_filter_wf:
  "jsmap_wf m \<Longrightarrow> map_of (filter P m) k =
     (case map_of m k of None \<Rightarrow> None | Some v \<Rightarrow> if P (k, v) then Some v else None)"
  by (induction m) (auto simp: map_of_eq_None_iff image_iff split: option.splits)

lemma jsmap_wf_filter [intro, simp]:
  "jsmap_wf m \<Longrightarrow> jsmap_wf (filter P m)"
  by (rule distinct_map_filter)

lemma jsmap_wf_in_set:
  "jsmap_wf m \<Longrightarrow> (k, v) \<in> set m \<longleftrightarrow> map_of m k = Some v"
  by (auto simp: map_of_is_SomeI dest: map_of_SomeD)

lemma map_fst_update_present:
  "map_of m k = Some w \<Longrightarrow> map fst (AList.update k v m) = map fst m"
  by (induction m) (auto split: if_splits)

lemma update_same_other [simp]:
  "AList.update k v (AList.update k w m) = AList.update k v m"
  by (induction m) auto

subsection \<open>Lists\<close>

lemma sorted_wrt_snoc:
  "sorted_wrt R (xs @ [x]) \<longleftrightarrow> sorted_wrt R xs \<and> (\<forall>y \<in> set xs. R y x)"
  by (auto simp: sorted_wrt_append)

lemma dropWhile_not_Nil_split:
  "dropWhile P xs = y # ys \<Longrightarrow> \<not> P y \<and> set ys \<subseteq> set xs \<and> y \<in> set xs \<and> length ys < length xs"
proof (induction xs)
  case (Cons x xs)
  then show ?case by (cases "P x") auto
qed simp

end
