(* ===== verification/JsTypes.thy ===== *)
theory JsTypes
  imports Prelude
begin

text \<open>
  The JavaScript values the broker reads off the wire, and the number operations it uses.

  Numbers are the integers that the code's own checks let through (\<open>Number.isInteger\<close>), with
  \<open>Infinity\<close> as the deadline that is never reached. Increment is JavaScript's: exact up to
  \<open>2 ^ 53\<close>, where \<open>n + 1\<close> rounds back to \<open>n\<close>.
\<close>

subsection \<open>Values of unvalidated fields\<close>

datatype jsval =
    Undefined
  | Null
  | Boolean bool
  | Integer int
  | NonInteger          \<comment> \<open>a number that is not an integer: a fraction, \<open>NaN\<close>, \<open>Infinity\<close>\<close>
  | String string
  | Object              \<comment> \<open>an object or an array\<close>

fun is_integer :: "jsval \<Rightarrow> bool" where
  "is_integer (Integer _) = True"
| "is_integer _ = False"

fun int_value :: "jsval \<Rightarrow> int" where
  "int_value (Integer n) = n"
| "int_value _ = 0"

fun nullish :: "jsval \<Rightarrow> bool" where
  "nullish Undefined = True"
| "nullish Null = True"
| "nullish _ = False"

subsection \<open>Hashes made of plain objects\<close>

text \<open>
  \<open>hash[p]\<close> on a plain object is truthy for the properties that were set to \<open>true\<close> and for every
  property the object inherits from \<open>Object.prototype\<close>.
\<close>

definition object_prototype :: "string list" where
  "object_prototype =
     [''constructor'', ''__defineGetter__'', ''__defineSetter__'', ''hasOwnProperty'',
      ''__lookupGetter__'', ''__lookupSetter__'', ''isPrototypeOf'', ''propertyIsEnumerable'',
      ''toString'', ''valueOf'', ''__proto__'', ''toLocaleString'']"

definition hash_has :: "string set \<Rightarrow> string \<Rightarrow> bool" where
  "hash_has S p = (p \<in> S \<or> p \<in> set object_prototype)"

text \<open>
  \<open>hash[p] = v\<close> with a primitive \<open>v\<close> sets a property, except that the setter behind \<open>__proto__\<close> ignores it.
\<close>

definition settable :: "string \<Rightarrow> bool" where
  "settable p \<longleftrightarrow> p \<noteq> ''__proto__''"

definition hash_set :: "string \<Rightarrow> string list \<Rightarrow> string list" where
  "hash_set p ps = (if settable p then List.insert p ps else ps)"

subsection \<open>Numbers\<close>

datatype js_number = Num int | Infinity

text \<open>\<open>a <= b\<close> against a finite time.\<close>

fun num_le :: "js_number \<Rightarrow> int \<Rightarrow> bool" where
  "num_le (Num n) t = (n \<le> t)"
| "num_le Infinity t = False"

definition two53 :: int where
  "two53 = 9007199254740992"

definition max_safe_integer :: int where
  "max_safe_integer = two53 - 1"

definition js_inc :: "int \<Rightarrow> int" where
  "js_inc n = (if n < two53 then n + 1 else n)"

lemma js_inc_less: "n < two53 \<Longrightarrow> n < js_inc n"
  by (simp add: js_inc_def)

lemma js_inc_ge: "n \<le> js_inc n"
  by (simp add: js_inc_def)

lemma js_inc_stuck: "two53 \<le> n \<Longrightarrow> js_inc n = n"
  by (simp add: js_inc_def)

lemma js_inc_safe: "js_inc n \<le> max_safe_integer \<Longrightarrow> n < js_inc n"
  by (simp add: js_inc_def max_safe_integer_def split: if_splits)

text \<open>\<open>String(n)\<close> of a non-negative integer.\<close>

definition digit :: "nat \<Rightarrow> char" where
  "digit n = char_of (48 + n)"

fun decimal_digits :: "nat \<Rightarrow> string" where
  "decimal_digits n = (if n < 10 then [digit n] else decimal_digits (n div 10) @ [digit (n mod 10)])"

declare decimal_digits.simps [simp del]

text \<open>The \<open>ttl\<close> of a request: \<open>number | null\<close>, possibly absent.\<close>

datatype ttl_field = TtlUndefined | TtlNull | TtlInfinity | TtlInt int

text \<open>\<open>ttl || default\<close> for a \<open>ttl\<close> that is not \<open>Infinity\<close>.\<close>

fun ttl_or :: "ttl_field \<Rightarrow> int \<Rightarrow> js_number" where
  "ttl_or (TtlInt n) d = Num (if n = 0 then d else n)"
| "ttl_or TtlInfinity d = Infinity"
| "ttl_or TtlNull d = Num d"
| "ttl_or TtlUndefined d = Num d"

text \<open>A property name made from an argument that may be absent: \<open>obj[undefined]\<close>.\<close>

fun prop_name :: "string option \<Rightarrow> string" where
  "prop_name None = ''undefined''"
| "prop_name (Some s) = s"

text \<open>A string argument that is absent or empty is falsy.\<close>

fun truthy_str :: "string option \<Rightarrow> bool" where
  "truthy_str None = False"
| "truthy_str (Some s) = (s \<noteq> [])"

end
