(* ===== verification/LinkedQueue.thy ===== *)
theory LinkedQueue
  imports JsTypes
begin

text \<open>
  The interface of the package \<open>@oresoftware/linked-queue\<close>, which the brokers use for the
  waiters of a key and whose code is not in the repository. The model takes its operations as a
  record; what the brokers rely on is the locale \<open>linked_queue\<close>: the contents of a queue are a
  list of keyed values, \<open>enqueue\<close> appends, \<open>addToFront\<close> prepends, \<open>dequeue\<close> takes the head,
  \<open>remove\<close> drops a key, \<open>get\<close> looks a key up. Adding is specified for a key that is not in the
  queue, which is the only way the brokers call it.
\<close>

record ('q, 'v) linked_queue_ops =
  lq_new :: 'q
  lq_length :: "'q \<Rightarrow> nat"
  lq_enqueue :: "string \<Rightarrow> 'v \<Rightarrow> 'q \<Rightarrow> 'q"
  lq_addToFront :: "string \<Rightarrow> 'v \<Rightarrow> 'q \<Rightarrow> 'q"
  lq_remove :: "string \<Rightarrow> 'q \<Rightarrow> 'q"
  lq_get :: "string \<Rightarrow> 'q \<Rightarrow> 'v option"
  lq_contains :: "string \<Rightarrow> 'q \<Rightarrow> bool"
  lq_dequeue :: "'q \<Rightarrow> (string \<times> 'v) option \<times> 'q"
  lq_deq :: "nat \<Rightarrow> 'q \<Rightarrow> (string \<times> 'v) option list \<times> 'q"

text \<open>\<open>dequeue\<close> answers \<open>None\<close> where the package answers its \<open>IsVoid\<close> marker.\<close>

locale linked_queue =
  fixes Q :: "('q, 'v, 'z) linked_queue_ops_scheme"
    and contents :: "'q \<Rightarrow> (string \<times> 'v) list"
  assumes contents_new: "contents (lq_new Q) = []"
    and length_contents: "lq_length Q q = length (contents q)"
    and contents_enqueue:
      "k \<notin> fst ` set (contents q) \<Longrightarrow> contents (lq_enqueue Q k v q) = contents q @ [(k, v)]"
    and contents_addToFront:
      "k \<notin> fst ` set (contents q) \<Longrightarrow> contents (lq_addToFront Q k v q) = (k, v) # contents q"
    and contents_remove:
      "contents (lq_remove Q k q) = filter (\<lambda>p. fst p \<noteq> k) (contents q)"
    and get_contents: "lq_get Q k q = map_of (contents q) k"
    and contains_contents: "lq_contains Q k q \<longleftrightarrow> k \<in> fst ` set (contents q)"
    and dequeue_Nil: "contents q = [] \<Longrightarrow> fst (lq_dequeue Q q) = None"
    and contents_dequeue_Nil: "contents q = [] \<Longrightarrow> contents (snd (lq_dequeue Q q)) = []"
    and dequeue_Cons: "contents q = p # ps \<Longrightarrow> fst (lq_dequeue Q q) = Some p"
    and contents_dequeue_Cons: "contents q = p # ps \<Longrightarrow> contents (snd (lq_dequeue Q q)) = ps"
    and deq_contents:
      "List.map_filter id (fst (lq_deq Q n q)) = take n (contents q)"
    and contents_deq: "contents (snd (lq_deq Q n q)) = drop n (contents q)"
begin

lemma get_None_iff: "lq_get Q k q = None \<longleftrightarrow> k \<notin> fst ` set (contents q)"
  by (simp add: get_contents map_of_eq_None_iff)

lemma length_enqueue_absent:
  "lq_get Q k q = None \<Longrightarrow> lq_length Q (lq_enqueue Q k v q) = Suc (lq_length Q q)"
  by (simp add: length_contents contents_enqueue get_None_iff)

lemma removed_absent: "lq_get Q k (lq_remove Q k q) = None"
  by (auto simp: get_None_iff contents_remove)

lemma contents_add_removed:
  "contents (lq_addToFront Q k v (lq_remove Q k q)) =
     (k, v) # filter (\<lambda>p. fst p \<noteq> k) (contents q)"
  by (subst contents_addToFront) (auto simp: contents_remove)

lemma length_dequeue: "lq_length Q (snd (lq_dequeue Q q)) = lq_length Q q - 1"
  by (cases "contents q")
    (simp_all add: length_contents contents_dequeue_Nil contents_dequeue_Cons)

lemmas queue_simps =
  contents_new length_contents contents_remove get_contents contents_deq
  dequeue_Nil contents_dequeue_Nil dequeue_Cons contents_dequeue_Cons

end

subsection \<open>The laws can hold: queues as lists\<close>

definition list_queue :: "((string \<times> 'v) list, 'v) linked_queue_ops" where
  "list_queue = \<lparr>
     lq_new = [],
     lq_length = length,
     lq_enqueue = (\<lambda>k v q. q @ [(k, v)]),
     lq_addToFront = (\<lambda>k v q. (k, v) # q),
     lq_remove = (\<lambda>k q. filter (\<lambda>p. fst p \<noteq> k) q),
     lq_get = (\<lambda>k q. map_of q k),
     lq_contains = (\<lambda>k q. k \<in> fst ` set q),
     lq_dequeue = (\<lambda>q. case q of [] \<Rightarrow> (None, []) | p # ps \<Rightarrow> (Some p, ps)),
     lq_deq = (\<lambda>n q. (map Some (take n q), drop n q))\<rparr>"

lemma map_filter_map_Some: "List.map_filter id (map Some xs) = xs"
  by (induction xs) (auto simp: List.map_filter_def)

interpretation list_lq: linked_queue
    "linked_queue_ops.extend list_queue x" "\<lambda>q :: (string \<times> 'v) list. q" for x
  by unfold_locales
    (auto simp: list_queue_def linked_queue_ops.defs map_filter_map_Some split: list.splits)

end
