(* ===== verification/Protocol.thy ===== *)
theory Protocol
  imports JsTypes
begin

text \<open>
  \<open>src/src/protocol.ts\<close>: the request types of the wire protocol with their \<open>type\<close> strings, the
  membership test of the parser entry point, and the payload each request carries; the reader
  and writer status of \<open>src/src/shared-internal.ts\<close>; the reply frames the broker sends, one
  constructor per shape of frame, with the error texts as values.
\<close>

type_synonym sock = nat

subsection \<open>Request types\<close>

datatype LMXRequestType =
    Lock | Unlock | AcquireMany | ReleaseMany | Ls | Version | VersionMismatchConfirmed
  | SimulateVersionMismatch | EndConnectionFromBrokerForTesting
  | DestroyConnectionFromBrokerForTesting | IncrementReaders | DecrementReaders
  | RegisterWriteFlagCheck | RegisterWriteFlagCheckQueued | RegisterWriteFlagAndReadersCheck
  | SetWriteFlagFalseAndBroadcast | LockReceived | LockClientTimeout | LockClientError
  | LockReceivedRejected | LockInfoRequest | Ping | SystemStatsRequest

fun wire :: "LMXRequestType \<Rightarrow> string" where
  "wire Lock = ''lock''"
| "wire Unlock = ''unlock''"
| "wire AcquireMany = ''acquire-many''"
| "wire ReleaseMany = ''release-many''"
| "wire Ls = ''ls''"
| "wire Version = ''version''"
| "wire VersionMismatchConfirmed = ''version-mismatch-confirmed''"
| "wire SimulateVersionMismatch = ''simulate-version-mismatch''"
| "wire EndConnectionFromBrokerForTesting = ''end-connection-from-broker-for-testing-purposes''"
| "wire DestroyConnectionFromBrokerForTesting =
     ''destroy-connection-from-broker-for-testing-purposes''"
| "wire IncrementReaders = ''increment-readers''"
| "wire DecrementReaders = ''decrement-readers''"
| "wire RegisterWriteFlagCheck = ''register-write-flag-check''"
| "wire RegisterWriteFlagCheckQueued = ''register-write-flag-check-queued''"
| "wire RegisterWriteFlagAndReadersCheck = ''register-write-flag-and-readers-check''"
| "wire SetWriteFlagFalseAndBroadcast = ''set-write-flag-false-and-broadcast''"
| "wire LockReceived = ''lock-received''"
| "wire LockClientTimeout = ''lock-client-timeout''"
| "wire LockClientError = ''lock-client-error''"
| "wire LockReceivedRejected = ''lock-received-rejected''"
| "wire LockInfoRequest = ''lock-info-request''"
| "wire Ping = ''ping''"
| "wire SystemStatsRequest = ''system-stats-request''"

text \<open>\<open>Object.values(LMXRequestType)\<close>, in declaration order.\<close>

definition all_request_types :: "LMXRequestType list" where
  "all_request_types =
     [Lock, Unlock, AcquireMany, ReleaseMany, Ls, Version, VersionMismatchConfirmed,
      SimulateVersionMismatch, EndConnectionFromBrokerForTesting,
      DestroyConnectionFromBrokerForTesting, IncrementReaders, DecrementReaders,
      RegisterWriteFlagCheck, RegisterWriteFlagCheckQueued, RegisterWriteFlagAndReadersCheck,
      SetWriteFlagFalseAndBroadcast, LockReceived, LockClientTimeout, LockClientError,
      LockReceivedRejected, LockInfoRequest, Ping, SystemStatsRequest]"

definition LMXKnownRequestTypes :: "string list" where
  "LMXKnownRequestTypes = map wire all_request_types"

fun isLMXRequestType :: "jsval \<Rightarrow> bool" where
  "isLMXRequestType (String t) = (t \<in> set LMXKnownRequestTypes)"
| "isLMXRequestType _ = False"

text \<open>The \<open>switch\<close> on the \<open>type\<close> string picks the member with that value.\<close>

definition request_type_of :: "string \<Rightarrow> LMXRequestType option" where
  "request_type_of s = find (\<lambda>t. wire t = s) all_request_types"

subsection \<open>Reader and writer status\<close>

datatype RWStatus =
  EndWrite | BeginWrite | EndRead | BeginRead | LockingWriteKey | UnlockingWriteKey

subsection \<open>Request payloads\<close>

record lock_req =
  l_uuid :: string
  l_key :: string
  l_ttl :: ttl_field
  l_max :: jsval
  l_maxRead :: jsval
  l_maxWrite :: jsval
  l_force :: bool
  l_pid :: int
  l_keep :: bool
  l_retryCount :: int
  l_wait :: "bool option"
  l_rwStatus :: "RWStatus option"

record unlock_req =
  u_uuid :: "string option"
  u_key :: string
  u__uuid :: "string option"
  u_force :: bool
  u_keep :: bool

record acquire_many_req =
  a_uuid :: string
  a_keys :: "jsval list option"   \<comment> \<open>\<open>None\<close>: not an array\<close>
  a_ttl :: ttl_field
  a_pid :: int
  a_keep :: bool
  a_wait :: "bool option"

record release_many_req =
  r_uuid :: string
  r_lockUuid :: "string option"

record key_req =
  k_uuid :: string
  k_key :: string

datatype LMXRequest =
    LockReq lock_req
  | UnlockReq unlock_req
  | AcquireManyReq acquire_many_req
  | ReleaseManyReq release_many_req
  | LsReq string
  | VersionReq jsval
  | VersionMismatchConfirmedReq
  | SimulateVersionMismatchReq
  | EndConnectionReq
  | DestroyConnectionReq
  | IncrementReadersReq key_req
  | DecrementReadersReq key_req
  | RegisterWriteFlagCheckReq key_req
  | RegisterWriteFlagCheckQueuedReq key_req
  | RegisterWriteFlagAndReadersCheckReq key_req
  | SetWriteFlagFalseAndBroadcastReq key_req
  | LockReceivedReq key_req
  | LockClientTimeoutReq key_req
  | LockClientErrorReq key_req
  | LockReceivedRejectedReq key_req "string option"   \<comment> \<open>with the extra field \<open>_uuid\<close>\<close>
  | LockInfoRequestReq key_req
  | PingReq string "int option"
  | SystemStatsRequestReq string

fun type_of :: "LMXRequest \<Rightarrow> LMXRequestType" where
  "type_of (LockReq _) = Lock"
| "type_of (UnlockReq _) = Unlock"
| "type_of (AcquireManyReq _) = AcquireMany"
| "type_of (ReleaseManyReq _) = ReleaseMany"
| "type_of (LsReq _) = Ls"
| "type_of (VersionReq _) = Version"
| "type_of VersionMismatchConfirmedReq = VersionMismatchConfirmed"
| "type_of SimulateVersionMismatchReq = SimulateVersionMismatch"
| "type_of EndConnectionReq = EndConnectionFromBrokerForTesting"
| "type_of DestroyConnectionReq = DestroyConnectionFromBrokerForTesting"
| "type_of (IncrementReadersReq _) = IncrementReaders"
| "type_of (DecrementReadersReq _) = DecrementReaders"
| "type_of (RegisterWriteFlagCheckReq _) = RegisterWriteFlagCheck"
| "type_of (RegisterWriteFlagCheckQueuedReq _) = RegisterWriteFlagCheckQueued"
| "type_of (RegisterWriteFlagAndReadersCheckReq _) = RegisterWriteFlagAndReadersCheck"
| "type_of (SetWriteFlagFalseAndBroadcastReq _) = SetWriteFlagFalseAndBroadcast"
| "type_of (LockReceivedReq _) = LockReceived"
| "type_of (LockClientTimeoutReq _) = LockClientTimeout"
| "type_of (LockClientErrorReq _) = LockClientError"
| "type_of (LockReceivedRejectedReq _ _) = LockReceivedRejected"
| "type_of (LockInfoRequestReq _) = LockInfoRequest"
| "type_of (PingReq _ _) = Ping"
| "type_of (SystemStatsRequestReq _) = SystemStatsRequest"

subsection \<open>Reply frames\<close>

datatype reply_error =
    BadMaxField string
  | ForceUnlockNoHolder string string nat
  | WrongUuid
  | KeysNotNonEmptyArray
  | TooManyKeys nat
  | BadKeyEntry
  | UnknownComposite string
  | LockUuidRequired
  | UnknownType jsval
  | MalformedData
  | InspectNotString
  | FencingTokenExhausted
  | FencingTokenPersistenceFailed

text \<open>The broker's own part of a statistics snapshot; memory, uptime and pid are the process's.\<close>

record top_key =
  t_key :: string
  t_holders :: nat
  t_waiters :: nat
  t_max :: nat
  t_fencingToken :: int

record stats =
  st_connectedClients :: nat
  st_totalLocks :: nat
  st_totalHolders :: nat
  st_totalReaders :: nat
  st_pendingRequests :: nat
  st_activeTimeouts :: nat
  st_pendingDeadlines :: nat
  st_ttlEvictionsTotal :: nat
  st_maxConcurrencyCap :: int
  st_concurrencyCapClampsTotal :: nat
  st_compositeLocksHeld :: nat
  st_ttlSweepIntervalMs :: int
  st_topKeys :: "top_key list"

text \<open>The snapshot of the hardened broker has four fields more.\<close>

record hardened_stats = stats +
  st_fencingWatermark :: int
  st_fencingTokenFloor :: int
  st_maxFencingToken :: int
  st_durableFencingMode :: bool

text \<open>The snapshot of the earlier \<open>Broker\<close>.\<close>

record legacy_stats =
  lt_connectedClients :: nat
  lt_totalLocks :: nat
  lt_pendingRequests :: nat
  lt_activeTimeouts :: nat

datatype response =
    LockReply (p_uuid: string) (p_key: string) (p_acquired: bool) (p_count: nat)
      (p_readers: nat) (p_token: "int option") (p_error: "reply_error option")
  | ReelectionNotice string string nat
  | UnlockReply string string nat bool "reply_error option"
  | UnlockNoLock string string      \<comment> \<open>\<open>unlocked: true\<close> with the warning "no lock with key"\<close>
  | AcquireManyRejected string "jsval list" reply_error
  | AcquireManyContended string "string list" string nat
  | AcquireManyGranted string "string list" string "(string \<times> int) list"
  | ReleaseManyFailed string reply_error
  | ReleaseManyDone string string "string list"
  | LsReply string "string list"
  | VersionMismatch jsval string
  | IncrementReadersSuccess string string
  | DecrementReadersSuccess string string
  | WriteFlagAndReadersSuccess string string nat bool
  | WriteFlagSuccess string string nat bool
  | WriteFlagCheckQueued string string nat
  | WriteFlagFalseAndBroadcastSuccess string string
  | BroadcastResult string string
  | BroadcastSuccess string string
  | LockInfoResponse string string "string list" "nat option" bool
  | InspectResult int
  | Pong string int int
  | SystemStatsResponse string stats
  | HardenedStatsResponse string hardened_stats
  | LegacyStatsResponse string legacy_stats
  | ErrorReply reply_error
  | LockAuthorityFailure string string reply_error
  | AcquireManyAuthorityFailure string "jsval list" reply_error

subsection \<open>The request types and their strings\<close>

lemma set_all_request_types: "t \<in> set all_request_types"
  by (cases t) (simp_all add: all_request_types_def)

lemma distinct_wire: "distinct (map wire all_request_types)"
  by (simp add: all_request_types_def)

lemma wire_inj: "wire s = wire t \<longleftrightarrow> s = t"
  using distinct_wire set_all_request_types
  by (auto simp: distinct_map dest: inj_onD)

lemma find_wire: "distinct (map f ts) \<Longrightarrow> t \<in> set ts \<Longrightarrow> find (\<lambda>u. f u = f t) ts = Some t"
  by (induction ts) (auto simp: image_iff)

end
