(* ===== verification/BrokerState.thy ===== *)
theory BrokerState
  imports LinkedQueue Protocol
begin

text \<open>
  The state of \<open>Broker1\<close> (\<open>src/src/broker-1.ts\<close>): the lock object of a key, its holders and
  waiters, the broker's tables, and the primitive operations every handler is built from: sending
  a frame, reading and writing a lock object, minting a fencing token, creating a lock object.

  The parts the source takes from elsewhere are the parameter \<open>E\<close>: the operations of the linked
  queue, the generator of version 4 UUIDs (its \<open>n\<close>-th call) and the debugging switch. The clock is
  the field \<open>now\<close>: a handler runs to completion within one value of \<open>Date.now()\<close>. Whether a
  socket is writable is the environment's choice, in the field \<open>writable\<close>. A lock object has an
  identity \<open>lo_id\<close>, because closures queued by the reader/writer probes keep a reference to the
  object itself, which the broker may since have dropped from its table.

  The field \<open>out\<close> is the sequence of the broker's effects: frames sent, warnings emitted, and, as
  a history the code never reads, every fencing token at the moment it is minted.
\<close>

subsection \<open>Holders, waiters, lock objects\<close>

record holder =
  h_pid :: int
  h_ws :: sock
  h_uuid :: string
  h_fencingToken :: int
  h_compositeLockUuid :: "string option"
  h_expiresAt :: js_number

record notify_obj =
  n_ws :: sock
  n_uuid :: string
  n_pid :: int
  n_ttl :: js_number
  n_keep :: bool
  n_acquireMany :: "(string list \<times> string) option"   \<comment> \<open>\<open>allKeys\<close>, \<open>compositeLockUuid\<close>\<close>

record 'q lock_obj =
  lo_id :: nat
  lo_key :: string
  readers :: nat
  max_holders :: nat                    \<comment> \<open>\<open>max\<close>\<close>
  maxRead :: "nat option"
  maxWrite :: "nat option"
  nextFencingToken :: int
  lockholderTimeouts :: "string set"
  lockholdersAllReleased :: "string set"
  lockholders :: "(string, holder) jsmap"
  notify :: 'q
  keepLocksAfterDeath :: bool
  writerFlag :: bool
  timestampEmptied :: "int option"
  isViaShell :: bool

text \<open>The functions queued by the reader/writer probes, by the variables they close over.\<close>

datatype listener_fn = SetWriterFlag nat | IncReadersAndReply nat

record listener =
  ls_ws :: sock
  ls_key :: string
  ls_uuid :: string
  ls_fn :: listener_fn

record deadline =
  d_key :: string
  d_expiresAt :: int
  d_holderUuid :: string

record composite =
  c_keys :: "string list"
  c_holderUuids :: "(string, string) jsmap"
  c_fencingTokens :: "(string, int) jsmap"

text \<open>A re-election timer, by the variables of its closure.\<close>

record reelection =
  re_ws :: sock
  re_uuid :: string
  re_key :: string

datatype warning =
    NotWritable
  | ProbablyExpired string
  | StrayMismatchConfirmed
  | BadData
  | Reelection string
  | TtlEvicted string string
  | LockInfoInconsistent string
  | NoLockWithKey string
  | MissingWs
  | MissingUuid
  | MissingBoth
  | UncaughtError
  | SweeperThrew
  | AuthorityFailure reply_error

datatype event =
    Sent sock response
  | Warn warning
  | Minted string nat int      \<comment> \<open>key, lock object, token: history only\<close>

subsection \<open>The broker\<close>

record 'q ext = "('q, notify_obj) linked_queue_ops" +
  uuid_v4 :: "nat \<Rightarrow> string"
  weAreDebugging :: bool
  brokerVersion :: string

record 'q broker =
  lockExpiresAfter :: int
  locks :: "(string, 'q lock_obj) jsmap"
  orphans :: "(nat, 'q lock_obj) jsmap"   \<comment> \<open>lock objects dropped from \<open>locks\<close>, by identity\<close>
  rejected :: "string set"
  timeouts :: "(string, reelection) jsmap"
  wsToUUIDs :: "sock \<Rightarrow> string list option"
  wsToKeys :: "sock \<Rightarrow> string list option"
  lockCounts :: nat
  connectedClients :: "sock list"
  registeredListeners :: "string \<Rightarrow> listener list"
  holderDeadlines :: "(string, deadline) jsmap"
  ttlSweeperHandle :: bool
  ttlSweepIntervalMs :: int
  ttlEvictionsTotal :: nat
  maxConcurrencyCap :: int
  concurrencyCapClampsTotal :: nat
  compositeLocks :: "(string, composite) jsmap"
  writable :: "sock \<Rightarrow> bool"
  lmxClosed :: "sock \<Rightarrow> bool"
  destroyTimeout :: "sock \<Rightarrow> bool"
  errorListener :: bool               \<comment> \<open>an \<open>error\<close> handler is attached to the emitter\<close>
  now :: int
  uuid_ctr :: nat
  next_lo_id :: nat
  out :: "event list"

definition init_broker :: "int \<Rightarrow> int \<Rightarrow> 'q broker" where
  "init_broker expires t = \<lparr>
     lockExpiresAfter = expires, locks = [], orphans = [], rejected = {}, timeouts = [],
     wsToUUIDs = (\<lambda>_. None), wsToKeys = (\<lambda>_. None), lockCounts = 0, connectedClients = [],
     registeredListeners = (\<lambda>_. []), holderDeadlines = [],
     ttlSweeperHandle = False, ttlSweepIntervalMs = 25, ttlEvictionsTotal = 0,
     maxConcurrencyCap = 1000, concurrencyCapClampsTotal = 0, compositeLocks = [],
     writable = (\<lambda>_. False), lmxClosed = (\<lambda>_. False), destroyTimeout = (\<lambda>_. False), errorListener = False,
     now = t, uuid_ctr = 0, next_lo_id = 0, out = []\<rparr>"

subsection \<open>Primitive operations\<close>

abbreviation get_lock :: "'q broker \<Rightarrow> string \<Rightarrow> 'q lock_obj option" where
  "get_lock b k \<equiv> map_of (locks b) k"

definition set_lock :: "string \<Rightarrow> 'q lock_obj \<Rightarrow> 'q broker \<Rightarrow> 'q broker" where
  "set_lock k l b = b\<lparr>locks := AList.update k l (locks b)\<rparr>"

definition emit :: "event \<Rightarrow> 'q broker \<Rightarrow> 'q broker" where
  "emit e b = b\<lparr>out := out b @ [e]\<rparr>"

text \<open>\<open>this.send\<close>: a frame to a socket that is not writable is a warning.\<close>

definition send :: "sock \<Rightarrow> response \<Rightarrow> 'q broker \<Rightarrow> 'q broker" where
  "send ws r b = (if writable b ws then emit (Sent ws r) b else emit (Warn NotWritable) b)"

definition fresh_uuid :: "'q ext \<Rightarrow> 'q broker \<Rightarrow> string" where
  "fresh_uuid E b = uuid_v4 E (uuid_ctr b)"

definition next_uuid :: "'q broker \<Rightarrow> 'q broker" where
  "next_uuid b = b\<lparr>uuid_ctr := Suc (uuid_ctr b)\<rparr>"

text \<open>
  \<open>getDefaultLockObject\<close>. \<open>max || 1\<close> is 1 for an absent \<open>max\<close>; the callers give \<open>maxRead\<close> and
  \<open>maxWrite\<close> as a number or not at all.
\<close>

definition getDefaultLockObject ::
  "'q ext \<Rightarrow> 'q broker \<Rightarrow> string \<Rightarrow> bool \<Rightarrow> nat option \<Rightarrow> nat option \<Rightarrow> nat option
    \<Rightarrow> 'q lock_obj" where
  "getDefaultLockObject E b k keep mx mr mw = \<lparr>
     lo_id = next_lo_id b,
     lo_key = k,
     readers = 0,
     max_holders = (case mx of None \<Rightarrow> 1 | Some m \<Rightarrow> if m = 0 then 1 else m),
     maxRead = mr,
     maxWrite = mw,
     nextFencingToken = now b,
     lockholderTimeouts = {},
     lockholdersAllReleased = {},
     lockholders = [],
     notify = lq_new E,
     keepLocksAfterDeath = keep,
     writerFlag = False,
     timestampEmptied = None,
     isViaShell = False\<rparr>"

text \<open>\<open>this.locks.set(key, this.getDefaultLockObject(...))\<close>\<close>

definition create_lock ::
  "'q ext \<Rightarrow> string \<Rightarrow> bool \<Rightarrow> nat option \<Rightarrow> nat option \<Rightarrow> nat option
    \<Rightarrow> 'q broker \<Rightarrow> 'q broker" where
  "create_lock E k keep mx mr mw b =
     set_lock k (getDefaultLockObject E b k keep mx mr mw) (b\<lparr>next_lo_id := Suc (next_lo_id b)\<rparr>)"

text \<open>\<open>if (!this.locks.has(key)) this.locks.set(key, this.getDefaultLockObject(key, keep, 1))\<close>\<close>

definition ensure_lock :: "'q ext \<Rightarrow> string \<Rightarrow> bool \<Rightarrow> 'q broker \<Rightarrow> 'q broker" where
  "ensure_lock E k keep b =
     (case get_lock b k of
        Some _ \<Rightarrow> b
      | None \<Rightarrow> create_lock E k keep (Some 1) None None b)"

text \<open>\<open>const lck = this.locks.get(k); if (!lck) return ...\<close>\<close>

definition with_lock ::
  "string \<Rightarrow> ('q lock_obj \<Rightarrow> 'q broker \<Rightarrow> 'q broker) \<Rightarrow> 'q broker \<Rightarrow> 'q broker" where
  "with_lock k f b = (case get_lock b k of None \<Rightarrow> b | Some l \<Rightarrow> f l b)"

text \<open>
  The three lines every grant goes through: increment the counter of the key, use the new value
  as the token, put the holder under its uuid.
\<close>

definition install_holder ::
  "string \<Rightarrow> string \<Rightarrow> sock \<Rightarrow> int \<Rightarrow> string option \<Rightarrow> js_number \<Rightarrow> 'q lock_obj \<Rightarrow> 'q broker
    \<Rightarrow> int \<times> 'q broker" where
  "install_holder k uuid ws pid cid expires l b =
     (let token = js_inc (nextFencingToken l);
          h = \<lparr>h_pid = pid, h_ws = ws, h_uuid = uuid, h_fencingToken = token,
               h_compositeLockUuid = cid, h_expiresAt = expires\<rparr>;
          l' = l\<lparr>nextFencingToken := token,
                lockholders := AList.update uuid h (lockholders l)\<rparr>
      in (token, emit (Minted k (lo_id l) token) (set_lock k l' b)))"

definition add_ws_key :: "sock \<Rightarrow> string \<Rightarrow> 'q broker \<Rightarrow> 'q broker" where
  "add_ws_key ws k b =
     b\<lparr>wsToKeys := (wsToKeys b)(ws \<mapsto> hash_set k (case wsToKeys b ws of None \<Rightarrow> [] | Some ks \<Rightarrow> ks))\<rparr>"

text \<open>\<open>delete this.wsToKeys.get(ws)[key]\<close> inside \<open>try\<close>\<close>

definition del_ws_key :: "sock \<Rightarrow> string \<Rightarrow> 'q broker \<Rightarrow> 'q broker" where
  "del_ws_key ws k b =
     (case wsToKeys b ws of
        None \<Rightarrow> b
      | Some ks \<Rightarrow> b\<lparr>wsToKeys := (wsToKeys b)(ws \<mapsto> removeAll k ks)\<rparr>)"

definition add_ws_uuid :: "sock \<Rightarrow> string \<Rightarrow> 'q broker \<Rightarrow> 'q broker" where
  "add_ws_uuid ws u b =
     b\<lparr>wsToUUIDs := (wsToUUIDs b)(ws \<mapsto> hash_set u (case wsToUUIDs b ws of None \<Rightarrow> [] | Some us \<Rightarrow> us))\<rparr>"

definition del_ws_uuid :: "sock \<Rightarrow> string \<Rightarrow> 'q broker \<Rightarrow> 'q broker" where
  "del_ws_uuid ws u b =
     (case wsToUUIDs b ws of
        None \<Rightarrow> b
      | Some us \<Rightarrow> b\<lparr>wsToUUIDs := (wsToUUIDs b)(ws \<mapsto> removeAll u us)\<rparr>)"

definition ensure_ws_keys :: "sock \<Rightarrow> 'q broker \<Rightarrow> 'q broker" where
  "ensure_ws_keys ws b =
     (case wsToKeys b ws of None \<Rightarrow> b\<lparr>wsToKeys := (wsToKeys b)(ws \<mapsto> [])\<rparr> | Some _ \<Rightarrow> b)"

definition clear_reelection :: "string \<Rightarrow> 'q broker \<Rightarrow> 'q broker" where
  "clear_reelection k b = b\<lparr>timeouts := AList.delete k (timeouts b)\<rparr>"

definition del_deadline :: "string \<Rightarrow> 'q broker \<Rightarrow> 'q broker" where
  "del_deadline u b = b\<lparr>holderDeadlines := AList.delete u (holderDeadlines b)\<rparr>"

end
