(* ===== verification/BrokerGrant.thy ===== *)
theory BrokerGrant
  imports BrokerState
begin

text \<open>
  Granting a key: \<open>scheduleDeadline\<close>, \<open>grantLock\<close>, the member grant and the rollback of an
  \<open>acquire-many\<close> attempt, \<open>tryGrantAcquireManyFromQueue\<close>, and the drain of a key's waiters in
  \<open>ensureNewLockHolder\<close> with the re-election timer it arms.

  The drain is a loop that need not end, so it is a partial function: \<open>None\<close> is a broker that
  never leaves the handler.
\<close>

subsection \<open>Granting one key\<close>

definition scheduleDeadline ::
  "string \<Rightarrow> string \<Rightarrow> js_number \<Rightarrow> 'q broker \<Rightarrow> js_number \<times> 'q broker" where
  "scheduleDeadline k uuid ttl b =
     (case ttl of
        Infinity \<Rightarrow> (Infinity, b)
      | Num t \<Rightarrow>
          (let e = now b + t
           in (Num e, b\<lparr>holderDeadlines := AList.update uuid
                 \<lparr>d_key = k, d_expiresAt = e, d_holderUuid = uuid\<rparr> (holderDeadlines b)\<rparr>)))"

definition grant_ttl :: "'q ext \<Rightarrow> 'q broker \<Rightarrow> js_number \<Rightarrow> js_number" where
  "grant_ttl E b ttl =
     (case ttl of
        Infinity \<Rightarrow> Infinity
      | Num t \<Rightarrow> Num (if weAreDebugging E then 50000000
                     else if t = 0 then lockExpiresAfter b else t))"

definition grantLock ::
  "'q ext \<Rightarrow> string \<Rightarrow> sock \<Rightarrow> string \<Rightarrow> int \<Rightarrow> js_number \<Rightarrow> 'q lock_obj \<Rightarrow> 'q broker
    \<Rightarrow> int \<times> 'q broker" where
  "grantLock E k ws uuid pid ttl l b =
     (let b1 = add_ws_key ws k b;
          (expires, b2) = scheduleDeadline k uuid (grant_ttl E b ttl) b1
      in install_holder k uuid ws pid None expires l b2)"

subsection \<open>Member grants of a composite\<close>

definition grant_member ::
  "'q ext \<Rightarrow> sock \<Rightarrow> int \<Rightarrow> js_number \<Rightarrow> string \<Rightarrow> string \<Rightarrow> 'q lock_obj \<Rightarrow> 'q broker
    \<Rightarrow> string \<times> int \<times> 'q broker" where
  "grant_member E ws pid ttl cid k l b =
     (let holderUuid = fresh_uuid E b;
          b1 = next_uuid b;
          (expires, b2) = scheduleDeadline k holderUuid ttl b1;
          (token, b3) = install_holder k holderUuid ws pid (Some cid) expires
                          (l\<lparr>timestampEmptied := None\<rparr>) b2
      in (holderUuid, token, add_ws_key ws k b3))"

text \<open>
  Each attempt walks the keys in order and stops at the first contended one: the result is that
  key, if any, with the grants made so far as (key, holder uuid, token).
\<close>

type_synonym grants = "(string \<times> string \<times> int) list"

fun tg_loop ::
  "'q ext \<Rightarrow> sock \<Rightarrow> int \<Rightarrow> js_number \<Rightarrow> bool \<Rightarrow> string \<Rightarrow> string list \<Rightarrow> grants \<Rightarrow> 'q broker
    \<Rightarrow> string option \<times> grants \<times> 'q broker" where
  "tg_loop E ws pid ttl keep cid [] granted b = (None, granted, b)"
| "tg_loop E ws pid ttl keep cid (k # ks) granted b =
     (let b0 = ensure_lock E k keep b
      in case get_lock b0 k of
           None \<Rightarrow> (Some k, granted, b0)
         | Some l \<Rightarrow>
             if max_holders l \<le> length (lockholders l) then (Some k, granted, b0)
             else (let (u, t, b1) = grant_member E ws pid ttl cid k l b0
                   in tg_loop E ws pid ttl keep cid ks (granted @ [(k, u, t)]) b1))"

text \<open>
  The uuids and tokens of the grants of an attempt are kept in the plain objects \<open>holderUuids\<close> and
  \<open>fencingTokens\<close>. Nothing is stored under the key \<open>__proto__\<close>, and \<open>holderUuids[gk]\<close> then reads the
  prototype, under which no hold is filed: a member of that name is neither taken back nor recorded.
\<close>

fun rollback_grants :: "grants \<Rightarrow> 'q broker \<Rightarrow> 'q broker" where
  "rollback_grants [] b = b"
| "rollback_grants ((k, u, t) # gs) b =
     rollback_grants gs
       (if settable k
        then with_lock k (\<lambda>l b. set_lock k (l\<lparr>lockholders := AList.delete u (lockholders l)\<rparr>)
                            (del_deadline u b)) b
        else b)"

definition composite_of :: "string list \<Rightarrow> grants \<Rightarrow> composite" where
  "composite_of ks gs = \<lparr>
     c_keys = ks,
     c_holderUuids = map (\<lambda>(k, u, t). (k, u)) (filter (settable \<circ> fst) gs),
     c_fencingTokens = map (\<lambda>(k, u, t). (k, t)) (filter (settable \<circ> fst) gs)\<rparr>"

definition register_composite ::
  "sock \<Rightarrow> string \<Rightarrow> string \<Rightarrow> string list \<Rightarrow> grants \<Rightarrow> 'q broker \<Rightarrow> 'q broker" where
  "register_composite ws uuid cid ks gs b =
     send ws (AcquireManyGranted uuid ks cid (c_fencingTokens (composite_of ks gs)))
       (b\<lparr>compositeLocks := AList.update cid (composite_of ks gs) (compositeLocks b)\<rparr>)"

definition queue_waiter :: "'q ext \<Rightarrow> string \<Rightarrow> notify_obj \<Rightarrow> 'q lock_obj \<Rightarrow> 'q broker \<Rightarrow> 'q broker" where
  "queue_waiter E k n l b =
     (if lq_get E (n_uuid n) (notify l) \<noteq> None then b
      else set_lock k (l\<lparr>notify := lq_enqueue E (n_uuid n) n (notify l)\<rparr>) b)"

definition tryGrantAcquireManyFromQueue ::
  "'q ext \<Rightarrow> notify_obj \<Rightarrow> 'q broker \<Rightarrow> 'q broker" where
  "tryGrantAcquireManyFromQueue E n b =
     (case n_acquireMany n of
        None \<Rightarrow> b
      | Some (ks, cid) \<Rightarrow>
          (case tg_loop E (n_ws n) (n_pid n) (n_ttl n) (n_keep n) cid ks [] b of
             (Some kc, granted, b1) \<Rightarrow>
               (let b2 = ensure_lock E kc (n_keep n) (rollback_grants granted b1)
                in with_lock kc (queue_waiter E kc n) b2)
           | (None, granted, b1) \<Rightarrow>
               register_composite (n_ws n) (n_uuid n) cid ks granted b1))"

subsection \<open>Draining the waiters of a key\<close>

definition max_capacity :: "'q lock_obj \<Rightarrow> nat" where
  "max_capacity l =
     (let m = (if max_holders l = 0 then 1 else max_holders l)
      in if maxRead l \<noteq> None \<or> maxWrite l \<noteq> None
         then max (case maxRead l of None \<Rightarrow> 0 | Some r \<Rightarrow> r)
                (max (case maxWrite l of None \<Rightarrow> 0 | Some w \<Rightarrow> w) m)
         else m)"

text \<open>
  The inner loop: dequeue until a waiter with a writable socket turns up or the queue is void.
  \<open>n\<close> is not reset in between, as in the source.
\<close>

partial_function (option) next_waiter ::
  "'q ext \<Rightarrow> (sock \<Rightarrow> bool) \<Rightarrow> 'q \<Rightarrow> notify_obj option \<Rightarrow> (notify_obj option \<times> 'q) option" where
  "next_waiter E w q n =
     (case lq_dequeue E q of
        (None, q') \<Rightarrow> Some (n, q')
      | (Some (k, m), q') \<Rightarrow> if w (n_ws m) then Some (Some m, q') else next_waiter E w q' (Some m))"

definition arm_reelection :: "string \<Rightarrow> sock \<Rightarrow> string \<Rightarrow> 'q broker \<Rightarrow> 'q broker" where
  "arm_reelection k ws uuid b =
     (clear_reelection k b)
       \<lparr>timeouts := AList.update k \<lparr>re_ws = ws, re_uuid = uuid, re_key = k\<rparr>
                     (timeouts (clear_reelection k b))\<rparr>"

definition grant_waiter :: "'q ext \<Rightarrow> string \<Rightarrow> notify_obj \<Rightarrow> 'q lock_obj \<Rightarrow> 'q broker \<Rightarrow> 'q broker" where
  "grant_waiter E k n l b =
     (let (token, b1) = grantLock E k (n_ws n) (n_uuid n) (n_pid n) (n_ttl n)
                          (l\<lparr>keepLocksAfterDeath := n_keep n\<rparr>) b;
          b2 = send (n_ws n) (LockReply (n_uuid n) k True (lq_length E (notify l)) (readers l)
                                (Some token) None) b1
      in arm_reelection k (n_ws n) (n_uuid n) b2)"

partial_function (option) drain :: "'q ext \<Rightarrow> string \<Rightarrow> 'q broker \<Rightarrow> 'q broker option" where
  "drain E k b =
     (case get_lock b k of
        None \<Rightarrow> Some b
      | Some l \<Rightarrow>
          if lq_length E (notify l) = 0 \<or> max_capacity l \<le> length (lockholders l) then Some b
          else
            (case next_waiter E (writable b) (notify l) None of
               None \<Rightarrow> None
             | Some (None, q) \<Rightarrow> Some (set_lock k (l\<lparr>notify := q\<rparr>) b)
             | Some (Some n, q) \<Rightarrow>
                 (let l1 = l\<lparr>notify := q\<rparr>; b1 = set_lock k l1 b
                  in if max_capacity l1 \<le> length (lockholders l1)
                     then Some (set_lock k (l1\<lparr>notify := lq_enqueue E (n_uuid n) n q\<rparr>) b1)
                     else if n_acquireMany n \<noteq> None
                     then drain E k (tryGrantAcquireManyFromQueue E n b1)
                     else drain E k (grant_waiter E k n l1 b1))))"

definition remove_holder :: "string \<Rightarrow> 'q lock_obj \<Rightarrow> 'q lock_obj" where
  "remove_holder u l = l\<lparr>lockholders := AList.delete u (lockholders l)\<rparr>"

definition ensureNewLockHolder ::
  "'q ext \<Rightarrow> string \<Rightarrow> string option \<Rightarrow> 'q broker \<Rightarrow> 'q broker option" where
  "ensureNewLockHolder E k uo b =
     (case get_lock b k of
        None \<Rightarrow> Some b
      | Some l0 \<Rightarrow>
          (let (l1, b1) = (if truthy_str uo then (remove_holder (prop_name uo) l0,
                                                 del_deadline (prop_name uo) b)
                           else (l0, b));
               l2 = l1\<lparr>keepLocksAfterDeath := False\<rparr>
           in if lockholders l2 = [] \<and> lq_length E (notify l2) = 0
              then Some (set_lock k (l2\<lparr>timestampEmptied := Some (now b)\<rparr>) b1)
              else drain E k (set_lock k l2 b1)))"

subsection \<open>The re-election timer\<close>

definition send_reelections :: "string \<Rightarrow> nat \<Rightarrow> (string \<times> notify_obj) option list \<Rightarrow> 'q broker \<Rightarrow> 'q broker" where
  "send_reelections k ln es b =
     fold (\<lambda>(u, n) b. send (n_ws n) (ReelectionNotice (n_uuid n) k ln) b) (List.map_filter id es) b"

definition deq5 :: "'q ext \<Rightarrow> string \<Rightarrow> nat \<Rightarrow> 'q broker \<Rightarrow> 'q broker" where
  "deq5 E k ln b =
     with_lock k (\<lambda>l b. case lq_deq E 5 (notify l) of
         (es, q) \<Rightarrow> send_reelections k ln es (set_lock k (l\<lparr>notify := q\<rparr>) b)) b"

definition fire_reelection :: "'q ext \<Rightarrow> string \<Rightarrow> 'q broker \<Rightarrow> 'q broker" where
  "fire_reelection E k b =
     (case map_of (timeouts b) k of
        None \<Rightarrow> b
      | Some r \<Rightarrow>
          (let b1 = emit (Warn (Reelection k)) (clear_reelection k (del_ws_key (re_ws r) k b))
           in with_lock k (\<lambda>l b.
                let hadHolder = (map_of (lockholders l) (re_uuid r) \<noteq> None);
                    ln = lq_length E (notify l);
                    l1 = remove_holder (re_uuid r) l;
                    b2 = set_lock k l1 b;
                    b3 = (if hadHolder \<and> \<not> hash_has (rejected b) (re_uuid r)
                             \<and> map_of (lockholders l1) (re_uuid r) = None
                             \<and> \<not> lq_contains E (re_uuid r) (notify l1)
                          then deq5 E k ln b2 else b2)
                in deq5 E k ln b3) b1))"

end
