(* ===== verification/BrokerMany.thy ===== *)
theory BrokerMany
  imports BrokerGrant "HOL-Library.List_Lexorder" "HOL-Library.Char_ord"
begin

text \<open>
  \<open>acquireMany\<close> and \<open>releaseMany\<close>: all keys or none, in sorted order, with the request queued on
  the first contended key; release of every member by the composite's uuid.
\<close>

subsection \<open>Checking the keys\<close>

fun bad_key_entry :: "jsval \<Rightarrow> bool" where
  "bad_key_entry (String s) = (s = [])"
| "bad_key_entry _ = True"

fun key_string :: "jsval \<Rightarrow> string" where
  "key_string (String s) = s"
| "key_string _ = []"

definition check_keys :: "jsval list option \<Rightarrow> reply_error + string list" where
  "check_keys ks =
     (case ks of
        None \<Rightarrow> Inl KeysNotNonEmptyArray
      | Some raw \<Rightarrow>
          if raw = [] then Inl KeysNotNonEmptyArray
          else if length raw > 64 then Inl (TooManyKeys (length raw))
          else if list_ex bad_key_entry raw then Inl BadKeyEntry
          else Inr (sort (remdups (map key_string raw))))"

subsection \<open>acquireMany\<close>

definition many_ttl :: "'q broker \<Rightarrow> ttl_field \<Rightarrow> js_number" where
  "many_ttl b t =
     (case t of
        TtlNull \<Rightarrow> Infinity
      | TtlInt n \<Rightarrow> Num (if 0 < n then n else lockExpiresAfter b)
      | TtlInfinity \<Rightarrow> Num (lockExpiresAfter b)   \<comment> \<open>\<open>Number.isInteger(Infinity)\<close> is false\<close>
      | TtlUndefined \<Rightarrow> Num (lockExpiresAfter b))"

definition contended :: "'q broker \<Rightarrow> string \<Rightarrow> bool" where
  "contended b k =
     (case get_lock b k of
        None \<Rightarrow> (1::nat) \<le> 0
      | Some l \<Rightarrow> max_holders l \<le> length (lockholders l))"

text \<open>
  \<open>granted\<close> is \<open>grantedKeys\<close> with the uuid and the token of each grant; that the objects \<open>holderUuids\<close> and
  \<open>fencingTokens\<close> store nothing under \<open>__proto__\<close> counts where they are read, in \<open>rollback_attempt\<close> and
  \<open>composite_of\<close>.
\<close>

fun am_loop ::
  "'q ext \<Rightarrow> sock \<Rightarrow> int \<Rightarrow> js_number \<Rightarrow> bool \<Rightarrow> string \<Rightarrow> string list \<Rightarrow> grants \<Rightarrow> 'q broker
    \<Rightarrow> string option \<times> grants \<times> 'q broker" where
  "am_loop E ws pid ttl keep cid [] granted b = (None, granted, b)"
| "am_loop E ws pid ttl keep cid (k # ks) granted b =
     (if contended b k then (Some k, granted, b)
      else
        (let b0 = ensure_lock E k keep b
         in case get_lock b0 k of
              None \<Rightarrow> (Some k, granted, b0)
            | Some l \<Rightarrow>
                (let (u, t, b1) = grant_member E ws pid ttl cid k l b0
                 in am_loop E ws pid ttl keep cid ks (granted @ [(k, u, t)]) b1)))"

fun rollback_attempt :: "grants \<Rightarrow> 'q broker \<Rightarrow> 'q broker" where
  "rollback_attempt [] b = b"
| "rollback_attempt ((k, u, t) # gs) b =
     rollback_attempt gs
       (if settable k
        then with_lock k (\<lambda>l b.
               case map_of (lockholders l) u of
                 None \<Rightarrow> b
               | Some h \<Rightarrow> set_lock k (l\<lparr>lockholders := AList.delete u (lockholders l)\<rparr>)
                             (del_deadline u b)) b
        else b)"

definition acquire_many_contended ::
  "'q ext \<Rightarrow> acquire_many_req \<Rightarrow> sock \<Rightarrow> string list \<Rightarrow> string \<Rightarrow> js_number \<Rightarrow> string \<Rightarrow> 'q broker
    \<Rightarrow> 'q broker" where
  "acquire_many_contended E r ws keys cid ttl k b =
     (if a_wait r = Some False
      then send ws (AcquireManyContended (a_uuid r) keys k
             (case get_lock b k of None \<Rightarrow> 0 | Some l \<Rightarrow> lq_length E (notify l))) b
      else
        (let b1 = ensure_lock E k (a_keep r) b;
             n = \<lparr>n_ws = ws, n_uuid = a_uuid r, n_pid = a_pid r,
                  n_ttl = (case ttl of Infinity \<Rightarrow> Infinity
                           | Num t \<Rightarrow> Num (if t = 0 then lockExpiresAfter b else t)),
                  n_keep = a_keep r, n_acquireMany = Some (keys, cid)\<rparr>;
             b2 = with_lock k (queue_waiter E k n) b1
         in send ws (AcquireManyContended (a_uuid r) keys k
              (case get_lock b2 k of None \<Rightarrow> 0 | Some l \<Rightarrow> lq_length E (notify l))) b2))"

definition acquireMany :: "'q ext \<Rightarrow> acquire_many_req \<Rightarrow> sock \<Rightarrow> 'q broker \<Rightarrow> 'q broker" where
  "acquireMany E r ws b =
     (case check_keys (a_keys r) of
        Inl e \<Rightarrow> send ws (AcquireManyRejected (a_uuid r)
                    (case a_keys r of None \<Rightarrow> [] | Some raw \<Rightarrow> raw) e) b
      | Inr keys \<Rightarrow>
          (let ttl = many_ttl b (a_ttl r);
               cid = fresh_uuid E b
           in case am_loop E ws (a_pid r) ttl (a_keep r) cid keys [] (next_uuid b) of
                (Some k, granted, b1) \<Rightarrow>
                  acquire_many_contended E r ws keys cid ttl k (rollback_attempt granted b1)
              | (None, granted, b1) \<Rightarrow> register_composite ws (a_uuid r) cid keys granted b1))"

subsection \<open>releaseMany\<close>

definition release_member :: "'q ext \<Rightarrow> composite \<Rightarrow> string \<Rightarrow> 'q broker \<Rightarrow> 'q broker option" where
  "release_member E c k b =
     (case map_of (c_holderUuids c) k of
        None \<Rightarrow> Some b
      | Some u \<Rightarrow>
          if u = [] then Some b
          else (case get_lock b k of
                  None \<Rightarrow> Some b
                | Some l \<Rightarrow>
                    (let l1 = remove_holder u l;
                         l2 = (if map_of (lockholders l) u \<noteq> None
                               then l1\<lparr>lockholdersAllReleased := insert u (lockholdersAllReleased l1)\<rparr>
                               else l1)
                     in ensureNewLockHolder E k (Some u) (set_lock k l2 (del_deadline u b)))))"

fun release_members :: "'q ext \<Rightarrow> composite \<Rightarrow> string list \<Rightarrow> 'q broker \<Rightarrow> 'q broker option" where
  "release_members E c [] b = Some b"
| "release_members E c (k # ks) b =
     Option.bind (release_member E c k b) (release_members E c ks)"

definition releaseMany :: "'q ext \<Rightarrow> release_many_req \<Rightarrow> sock \<Rightarrow> 'q broker \<Rightarrow> 'q broker option" where
  "releaseMany E r ws b =
     (case (if truthy_str (r_lockUuid r) then map_of (compositeLocks b) (prop_name (r_lockUuid r))
            else None) of
        None \<Rightarrow> Some (send ws (ReleaseManyFailed (r_uuid r)
                  (if truthy_str (r_lockUuid r) then UnknownComposite (prop_name (r_lockUuid r))
                   else LockUuidRequired)) b)
      | Some c \<Rightarrow>
          Option.bind (release_members E c (c_keys c) b)
            (\<lambda>b1. Some (send ws (ReleaseManyDone (r_uuid r) (prop_name (r_lockUuid r)) (c_keys c))
                     (b1\<lparr>compositeLocks := AList.delete (prop_name (r_lockUuid r)) (compositeLocks b1)\<rparr>))))"

end
