(* ===== verification/BrokerLock.thy ===== *)
theory BrokerLock
  imports BrokerGrant
begin

text \<open>
  \<open>lock\<close>: validation of the limits, collection of idle lock objects, the limit update, the
  decision, and its three outcomes: refused without waiting, queued, granted. The console
  warnings about exceeded limits have no effect on the state and are not modelled.
\<close>

subsection \<open>Validation\<close>

text \<open>\<open>validateMaxField\<close>: the first malformed field, if any.\<close>

definition bad_limit :: "jsval \<Rightarrow> bool" where
  "bad_limit v = (\<not> nullish v \<and> (\<not> is_integer v \<or> int_value v < 1))"

definition validateMaxField :: "lock_req \<Rightarrow> string option" where
  "validateMaxField r =
     map_option fst (find (\<lambda>(f, v). bad_limit v)
       [(''max'', l_max r), (''maxRead'', l_maxRead r), (''maxWrite'', l_maxWrite r)])"

text \<open>\<open>clampMax\<close>\<close>

definition clampMax :: "jsval \<Rightarrow> 'q broker \<Rightarrow> int \<times> 'q broker" where
  "clampMax v b =
     (if \<not> is_integer v \<or> int_value v < 1 then (1, b)
      else if int_value v > maxConcurrencyCap b
      then (maxConcurrencyCap b,
            b\<lparr>concurrencyCapClampsTotal := Suc (concurrencyCapClampsTotal b)\<rparr>)
      else (int_value v, b))"

subsection \<open>Collecting idle lock objects\<close>

definition stale_lock :: "'q ext \<Rightarrow> int \<Rightarrow> 'q lock_obj \<Rightarrow> bool" where
  "stale_lock E t l =
     (case timestampEmptied l of
        None \<Rightarrow> False
      | Some e \<Rightarrow> e \<noteq> 0 \<and> \<not> t - e < 2000 \<and> length (lockholders l) < 1 \<and> lq_length E (notify l) < 1)"

definition cleanUpLocks :: "'q ext \<Rightarrow> 'q broker \<Rightarrow> 'q broker" where
  "cleanUpLocks E b =
     b\<lparr>lockCounts := 0,
       locks := filter (\<lambda>(k, l). \<not> stale_lock E (now b) l) (locks b),
       orphans := map (\<lambda>(k, l). (lo_id l, l)) (filter (\<lambda>(k, l). stale_lock E (now b) l) (locks b))
                    @ orphans b\<rparr>"

definition count_lock_request :: "'q ext \<Rightarrow> 'q broker \<Rightarrow> 'q broker" where
  "count_lock_request E b =
     (let b1 = b\<lparr>lockCounts := Suc (lockCounts b)\<rparr>
      in if lockCounts b1 > 3 then cleanUpLocks E b1 else b1)"

subsection \<open>Limits\<close>

abbreviation limit :: "jsval \<Rightarrow> nat" where
  "limit v \<equiv> nat (int_value v)"

definition beginRead :: "lock_req \<Rightarrow> bool" where
  "beginRead r = (l_rwStatus r = Some BeginRead)"

definition beginWrite :: "lock_req \<Rightarrow> bool" where
  "beginWrite r = (l_rwStatus r = Some BeginWrite)"

definition endRead :: "lock_req \<Rightarrow> bool" where
  "endRead r = (l_rwStatus r = Some EndRead)"

definition set_legacy_max :: "lock_req \<Rightarrow> 'q lock_obj \<Rightarrow> 'q lock_obj" where
  "set_legacy_max r l = (if is_integer (l_max r) then l\<lparr>max_holders := limit (l_max r)\<rparr> else l)"

definition requested_limit :: "jsval \<Rightarrow> jsval \<Rightarrow> nat option" where
  "requested_limit own legacy =
     (if is_integer own then Some (limit own)
      else if is_integer legacy then Some (limit legacy) else None)"

definition update_limits :: "lock_req \<Rightarrow> 'q lock_obj \<Rightarrow> 'q lock_obj" where
  "update_limits r l =
     (if beginRead r then
        set_legacy_max r
          (case requested_limit (l_maxRead r) (l_max r) of
             Some m \<Rightarrow> l\<lparr>maxRead := Some m\<rparr>
           | None \<Rightarrow> if maxRead l = None then l\<lparr>maxRead := Some 10\<rparr> else l)
      else if beginWrite r then
        set_legacy_max r
          (case requested_limit (l_maxWrite r) (l_max r) of
             Some m \<Rightarrow> l\<lparr>maxWrite := Some m\<rparr>
           | None \<Rightarrow> if maxWrite l = None then l\<lparr>maxWrite := Some 1\<rparr> else l)
      else set_legacy_max r l)"

definition effective_count :: "lock_req \<Rightarrow> 'q lock_obj \<Rightarrow> nat" where
  "effective_count r l = (if beginRead r then readers l + 1 else length (lockholders l))"

definition effective_max :: "lock_req \<Rightarrow> 'q lock_obj \<Rightarrow> nat" where
  "effective_max r l =
     (if beginRead r then (case maxRead l of None \<Rightarrow> 10 | Some m \<Rightarrow> m)
      else if beginWrite r then (case maxWrite l of None \<Rightarrow> 1 | Some m \<Rightarrow> m)
      else if is_integer (l_max r) then limit (l_max r) else max_holders l)"

definition lock_ttl :: "'q ext \<Rightarrow> 'q broker \<Rightarrow> lock_req \<Rightarrow> js_number" where
  "lock_ttl E b r =
     (if l_ttl r = TtlInfinity then Infinity
      else if weAreDebugging E then Num 500000000 else ttl_or (l_ttl r) (lockExpiresAfter b))"

subsection \<open>The outcomes\<close>

definition waiter_of :: "lock_req \<Rightarrow> sock \<Rightarrow> js_number \<Rightarrow> notify_obj" where
  "waiter_of r ws ttl =
     \<lparr>n_ws = ws, n_uuid = l_uuid r, n_pid = l_pid r, n_ttl = ttl, n_keep = l_keep r,
      n_acquireMany = None\<rparr>"

text \<open>The queue of a contended key after the request.\<close>

definition enqueue_request :: "'q ext \<Rightarrow> lock_req \<Rightarrow> sock \<Rightarrow> js_number \<Rightarrow> 'q \<Rightarrow> 'q" where
  "enqueue_request E r ws ttl q =
     (let u = l_uuid r; n = waiter_of r ws ttl
      in if l_force r then lq_addToFront E u n (lq_remove E u q)
         else if lq_get E u q \<noteq> None then q
         else if 0 < l_retryCount r then lq_addToFront E u n q
         else lq_enqueue E u n q)"

definition lock_contended ::
  "'q ext \<Rightarrow> lock_req \<Rightarrow> sock \<Rightarrow> js_number \<Rightarrow> 'q lock_obj \<Rightarrow> 'q broker \<Rightarrow> 'q broker" where
  "lock_contended E r ws ttl l b =
     (let reply = LockReply (l_uuid r) (l_key r) False (lq_length E (notify l)) (readers l) None None
      in if l_wait r = Some False then send ws reply b
         else send ws reply
                (set_lock (l_key r) (l\<lparr>notify := enqueue_request E r ws ttl (notify l)\<rparr>) b))"

definition count_reader :: "lock_req \<Rightarrow> 'q lock_obj \<Rightarrow> 'q lock_obj" where
  "count_reader r l =
     (if beginRead r then l\<lparr>readers := readers l + 1\<rparr>
      else if endRead r then l\<lparr>readers := readers l - 1\<rparr> else l)"

definition lock_acquire ::
  "'q ext \<Rightarrow> lock_req \<Rightarrow> sock \<Rightarrow> js_number \<Rightarrow> nat \<Rightarrow> 'q lock_obj \<Rightarrow> 'q broker \<Rightarrow> 'q broker" where
  "lock_acquire E r ws ttl ln l b =
     (let l1 = count_reader r l;
          (token, b1) = grantLock E (l_key r) ws (l_uuid r) (l_pid r) ttl l1 b
      in send ws (LockReply (l_uuid r) (l_key r) True ln (readers l1) (Some token) None) b1)"

definition lock_existing ::
  "'q ext \<Rightarrow> lock_req \<Rightarrow> sock \<Rightarrow> js_number \<Rightarrow> 'q lock_obj \<Rightarrow> 'q broker \<Rightarrow> 'q broker" where
  "lock_existing E r ws ttl l0 b0 =
     (let l = update_limits r l0; b = set_lock (l_key r) l b0
      in if effective_max r l \<le> effective_count r l then lock_contended E r ws ttl l b
         else lock_acquire E r ws ttl (lq_length E (notify l)) l b)"

definition lock_new ::
  "'q ext \<Rightarrow> lock_req \<Rightarrow> sock \<Rightarrow> js_number \<Rightarrow> 'q broker \<Rightarrow> 'q broker" where
  "lock_new E r ws ttl b =
     (let mx = (if is_integer (l_max r) then Some (limit (l_max r)) else None);
          mr = (if beginRead r
                then Some (case requested_limit (l_maxRead r) (l_max r) of None \<Rightarrow> 10 | Some m \<Rightarrow> m)
                else None);
          mw = (if beginWrite r
                then Some (case requested_limit (l_maxWrite r) (l_max r) of None \<Rightarrow> 1 | Some m \<Rightarrow> m)
                else None);
          b1 = create_lock E (l_key r) (l_keep r) mx mr mw (add_ws_key ws (l_key r) b)
      in with_lock (l_key r) (lock_acquire E r ws ttl 0) b1)"

definition lock :: "'q ext \<Rightarrow> lock_req \<Rightarrow> sock \<Rightarrow> 'q broker \<Rightarrow> 'q broker" where
  "lock E r ws b =
     (case validateMaxField r of
        Some f \<Rightarrow> send ws (LockReply (l_uuid r) (l_key r) False 0 0 None (Some (BadMaxField f))) b
      | None \<Rightarrow>
          (let k = l_key r;
               b1 = with_lock k (\<lambda>l b. set_lock k (l\<lparr>timestampEmptied := None\<rparr>) b) b;
               lck = get_lock b1 k;
               b2 = count_lock_request E b1;
               b3 = (if l_uuid r \<noteq> [] then add_ws_uuid ws (l_uuid r) b2 else b2);
               b4 = ensure_ws_keys ws b3;
               ttl = lock_ttl E b r
           in case lck of
                Some l \<Rightarrow> lock_existing E r ws ttl l b4
              | None \<Rightarrow> lock_new E r ws ttl b4))"

end
