(* ===== verification/BrokerUnlock.thy ===== *)
theory BrokerUnlock
  imports BrokerGrant
begin

text \<open>
  \<open>unlock\<close>: targeted release by the holder's uuid, the force dispositions, the late unlock of a
  hold that has already gone, and the replies of every branch.
\<close>

definition reply_unlock ::
  "sock option \<Rightarrow> unlock_req \<Rightarrow> (string \<Rightarrow> response) \<Rightarrow> 'q broker \<Rightarrow> 'q broker" where
  "reply_unlock wo r f b =
     (case wo of
        None \<Rightarrow> b
      | Some ws \<Rightarrow> if truthy_str (u_uuid r) then send ws (f (prop_name (u_uuid r))) b else b)"

definition forget_ownership :: "sock option \<Rightarrow> unlock_req \<Rightarrow> 'q broker \<Rightarrow> 'q broker" where
  "forget_ownership wo r b =
     (case wo of
        None \<Rightarrow> b
      | Some ws \<Rightarrow>
          del_ws_uuid ws (prop_name (u__uuid r)) (if u_keep r then b else del_ws_key ws (u_key r) b))"

text \<open>Phase 1: remove the caller's own hold.\<close>

definition is_holder :: "string option \<Rightarrow> 'q lock_obj \<Rightarrow> bool" where
  "is_holder uo l = (truthy_str uo \<and> map_of (lockholders l) (prop_name uo) \<noteq> None)"

definition release_own :: "string \<Rightarrow> string \<Rightarrow> 'q lock_obj \<Rightarrow> 'q broker \<Rightarrow> 'q broker" where
  "release_own k u l b =
     set_lock k ((remove_holder u l)\<lparr>lockholdersAllReleased := insert u (lockholdersAllReleased l)\<rparr>)
       (del_deadline u b)"

text \<open>Phase 2 (a): force without a uuid releases every holder of the key.\<close>

definition release_all :: "string \<Rightarrow> 'q lock_obj \<Rightarrow> 'q broker \<Rightarrow> 'q broker" where
  "release_all k l b =
     set_lock k (l\<lparr>lockholdersAllReleased := set (map fst (lockholders l)) \<union> lockholdersAllReleased l,
                  lockholders := []\<rparr>)
       (fold (\<lambda>(u, h) b. del_deadline u b) (lockholders l) b)"

definition unlock_matching ::
  "'q ext \<Rightarrow> unlock_req \<Rightarrow> sock option \<Rightarrow> 'q lock_obj \<Rightarrow> 'q broker \<Rightarrow> 'q broker option" where
  "unlock_matching E r wo l b =
     (let k = u_key r; ln = lq_length E (notify l);
          wasHolder = is_holder (u__uuid r) l;
          b1 = (if wasHolder then release_own k (prop_name (u__uuid r)) l b else b);
          done = (\<lambda>b. ensureNewLockHolder E k (u__uuid r)
                        (reply_unlock wo r (\<lambda>u. UnlockReply u k ln True None) b))
      in if u_force r \<and> \<not> truthy_str (u__uuid r) then done (release_all k l b1)
         else if u_force r \<and> \<not> wasHolder
         then Some (reply_unlock wo r (\<lambda>u. UnlockReply u k ln False
                      (Some (ForceUnlockNoHolder (prop_name (u__uuid r)) k (max_holders l)))) b1)
         else done b1)"

definition unlock_mismatch ::
  "'q ext \<Rightarrow> unlock_req \<Rightarrow> sock option \<Rightarrow> 'q lock_obj \<Rightarrow> 'q broker \<Rightarrow> 'q broker option" where
  "unlock_mismatch E r wo l b =
     (let k = u_key r; ln = lq_length E (notify l); p = prop_name (u__uuid r)
      in if hash_has (lockholderTimeouts l) p \<or> hash_has (lockholdersAllReleased l) p
         then
           (let l1 = l\<lparr>lockholderTimeouts := lockholderTimeouts l - {p},
                      lockholdersAllReleased := lockholdersAllReleased l - {p}\<rparr>
            in ensureNewLockHolder E k (u__uuid r)
                 (reply_unlock wo r (\<lambda>u. UnlockReply u k ln True None) (set_lock k l1 b)))
         else Some
           (if truthy_str (u_uuid r) \<and> wo \<noteq> None
            then reply_unlock wo r (\<lambda>u. UnlockReply u k ln False (Some WrongUuid)) b
            else if truthy_str (u_uuid r) then emit (Warn MissingWs) b
            else if wo \<noteq> None then emit (Warn MissingUuid) b
            else emit (Warn MissingBoth) b))"

definition unlock_no_lock :: "unlock_req \<Rightarrow> sock option \<Rightarrow> 'q broker \<Rightarrow> 'q broker" where
  "unlock_no_lock r wo b =
     (let k = u_key r; b1 = emit (Warn (NoLockWithKey k)) b
      in if wo \<noteq> None \<and> truthy_str (u_uuid r)
         then reply_unlock wo r (\<lambda>u. UnlockNoLock u k) (emit (Warn (NoLockWithKey k)) b1)
         else if wo \<noteq> None then emit (Warn MissingUuid) b1
         else emit (Warn MissingBoth) b1)"

definition unlock :: "'q ext \<Rightarrow> unlock_req \<Rightarrow> sock option \<Rightarrow> 'q broker \<Rightarrow> 'q broker option" where
  "unlock E r wo b =
     (let b0 = forget_ownership wo r b
      in case get_lock b (u_key r) of
           None \<Rightarrow> Some (unlock_no_lock r wo b0)
         | Some l \<Rightarrow>
             if is_holder (u__uuid r) l \<or> u_force r then unlock_matching E r wo l b0
             else unlock_mismatch E r wo l b0)"

end
