(* ===== verification/BrokerTtl.thy ===== *)
theory BrokerTtl
  imports BrokerGrant
begin

text \<open>
  The sweeper: one pass over the deadline index evicts every hold whose deadline has passed and
  hands the freed slot to the next waiter.
\<close>

definition evict_one :: "'q ext \<Rightarrow> string \<Rightarrow> string \<Rightarrow> 'q broker \<Rightarrow> 'q broker option" where
  "evict_one E k u b =
     (let b1 = del_deadline u b
      in case get_lock b1 k of
           None \<Rightarrow> Some b1
         | Some l \<Rightarrow>
             (case map_of (lockholders l) u of
                None \<Rightarrow> Some b1
              | Some h \<Rightarrow>
                  (let l1 = (remove_holder u l)
                              \<lparr>lockholderTimeouts := insert u (lockholderTimeouts l)\<rparr>;
                       b2 = (set_lock k l1 b1)\<lparr>ttlEvictionsTotal := Suc (ttlEvictionsTotal b1)\<rparr>
                   in ensureNewLockHolder E k (Some u) (emit (Warn (TtlEvicted u k)) b2))))"

fun evict_all :: "'q ext \<Rightarrow> (string \<times> string) list \<Rightarrow> 'q broker \<Rightarrow> 'q broker option" where
  "evict_all E [] b = Some b"
| "evict_all E ((k, u) # es) b = Option.bind (evict_one E k u b) (evict_all E es)"

definition expired_holds :: "int \<Rightarrow> 'q broker \<Rightarrow> (string \<times> string) list" where
  "expired_holds t b =
     map (\<lambda>(u, d). (d_key d, u)) (filter (\<lambda>(u, d). d_expiresAt d \<le> t) (holderDeadlines b))"

text \<open>The number of expired rows, and the broker after the pass.\<close>

definition tickTtl :: "'q ext \<Rightarrow> int \<Rightarrow> 'q broker \<Rightarrow> (nat \<times> 'q broker) option" where
  "tickTtl E t b =
     map_option (\<lambda>b'. (length (expired_holds t b), b')) (evict_all E (expired_holds t b) b)"

definition startTtlSweeper :: "int option \<Rightarrow> 'q broker \<Rightarrow> 'q broker" where
  "startTtlSweeper io b =
     (if ttlSweeperHandle b then b
      else b\<lparr>ttlSweepIntervalMs := (case io of
                 Some i \<Rightarrow> if 0 < i then i else ttlSweepIntervalMs b
               | None \<Rightarrow> ttlSweepIntervalMs b),
             ttlSweeperHandle := True\<rparr>)"

definition stopTtlSweeper :: "'q broker \<Rightarrow> 'q broker" where
  "stopTtlSweeper b = (if ttlSweeperHandle b then b\<lparr>ttlSweeperHandle := False\<rparr> else b)"

end
