(* ===== verification/BrokerRW.thy ===== *)
theory BrokerRW
  imports BrokerGrant
begin

text \<open>
  The reader/writer protocol of the broker: the reader counter and the writer flag of a key, and
  the listeners that wait for a broadcast. A listener's function closes over a lock object, not
  over the key, so it writes the object with that identity wherever it now is.
\<close>

subsection \<open>Objects by identity\<close>

definition update_object :: "nat \<Rightarrow> ('q lock_obj \<Rightarrow> 'q lock_obj) \<Rightarrow> 'q broker \<Rightarrow> 'q broker" where
  "update_object i f b =
     b\<lparr>locks := map (\<lambda>(k, l). (k, if lo_id l = i then f l else l)) (locks b),
       orphans := map (\<lambda>(j, l). (j, if lo_id l = i then f l else l)) (orphans b)\<rparr>"

definition find_object :: "nat \<Rightarrow> 'q broker \<Rightarrow> 'q lock_obj option" where
  "find_object i b = find (\<lambda>l. lo_id l = i) (map snd (locks b) @ map snd (orphans b))"

subsection \<open>Listeners and broadcast\<close>

definition run_fn :: "listener \<Rightarrow> 'q broker \<Rightarrow> 'q broker" where
  "run_fn p b =
     (case ls_fn p of
        SetWriterFlag i \<Rightarrow> update_object i (\<lambda>l. l\<lparr>writerFlag := True\<rparr>) b
      | IncReadersAndReply i \<Rightarrow>
          (let b1 = update_object i (\<lambda>l. l\<lparr>readers := readers l + 1\<rparr>) b
           in send (ls_ws p) (WriteFlagSuccess (ls_uuid p) (ls_key p)
                (case find_object i b1 of None \<Rightarrow> 0 | Some l \<Rightarrow> readers l) False) b1))"

definition run_listener :: "string \<Rightarrow> listener \<Rightarrow> 'q broker \<Rightarrow> 'q broker" where
  "run_listener k p b = send (ls_ws p) (BroadcastResult (ls_uuid p) k) (run_fn p b)"

text \<open>\<open>while (v.length > 0) v.pop()\<close>: last queued first.\<close>

definition broadcast :: "string \<Rightarrow> string option \<Rightarrow> sock option \<Rightarrow> 'q broker \<Rightarrow> 'q broker" where
  "broadcast k uo wo b =
     (let b1 = fold (run_listener k) (rev (registeredListeners b k)) b;
          b2 = b1\<lparr>registeredListeners := (registeredListeners b1)(k := [])\<rparr>
      in case wo of
           None \<Rightarrow> b2
         | Some ws \<Rightarrow> send ws (BroadcastSuccess (prop_name uo) k) b2)"

definition push_listener :: "listener \<Rightarrow> 'q broker \<Rightarrow> 'q broker" where
  "push_listener p b =
     b\<lparr>registeredListeners := (registeredListeners b)
         (ls_key p := registeredListeners b (ls_key p) @ [p])\<rparr>"

subsection \<open>Requests\<close>

definition incrementReaders :: "'q ext \<Rightarrow> key_req \<Rightarrow> sock \<Rightarrow> 'q broker \<Rightarrow> 'q broker" where
  "incrementReaders E r ws b =
     (let k = k_key r
      in send ws (IncrementReadersSuccess (k_uuid r) k)
           (with_lock k (\<lambda>l b. set_lock k (l\<lparr>readers := readers l + 1\<rparr>) b) (ensure_lock E k False b)))"

definition setWriteFlagToFalseAndBroadcast ::
  "'q ext \<Rightarrow> key_req \<Rightarrow> sock \<Rightarrow> 'q broker \<Rightarrow> 'q broker" where
  "setWriteFlagToFalseAndBroadcast E r ws b =
     (let k = k_key r;
          b1 = with_lock k (\<lambda>l b. set_lock k (l\<lparr>writerFlag := False\<rparr>) b) (ensure_lock E k False b)
      in send ws (WriteFlagFalseAndBroadcastSuccess (k_uuid r) k) (broadcast k None None b1))"

text \<open>\<open>Math.max(0, --lck.readers)\<close> is truncated subtraction.\<close>

definition decrementReaders :: "'q ext \<Rightarrow> key_req \<Rightarrow> sock \<Rightarrow> 'q broker \<Rightarrow> 'q broker" where
  "decrementReaders E r ws b =
     (let k = k_key r
      in send ws (DecrementReadersSuccess (k_uuid r) k)
           (with_lock k (\<lambda>l b.
              let b1 = set_lock k (l\<lparr>readers := readers l - 1\<rparr>) b
              in if readers l - 1 < 1 then broadcast k None None b1 else b1)
            (ensure_lock E k False b)))"

definition registerWriteFlagAndReadersCheck ::
  "'q ext \<Rightarrow> key_req \<Rightarrow> sock \<Rightarrow> 'q broker \<Rightarrow> 'q broker" where
  "registerWriteFlagAndReadersCheck E r ws b =
     (let k = k_key r
      in with_lock k (\<lambda>l b.
           if writerFlag l \<or> readers l > 1
           then push_listener \<lparr>ls_ws = ws, ls_key = k, ls_uuid = k_uuid r,
                               ls_fn = SetWriterFlag (lo_id l)\<rparr> b
           else send ws (WriteFlagAndReadersSuccess (k_uuid r) k (readers l) (writerFlag l))
                  (set_lock k (l\<lparr>writerFlag := True\<rparr>) b))
         (ensure_lock E k False b))"

definition registerWriteFlagCheck :: "'q ext \<Rightarrow> key_req \<Rightarrow> sock \<Rightarrow> 'q broker \<Rightarrow> 'q broker" where
  "registerWriteFlagCheck E r ws b =
     (let k = k_key r
      in with_lock k (\<lambda>l b.
           if writerFlag l
           then send ws (WriteFlagCheckQueued (k_uuid r) k (readers l))
                  (push_listener \<lparr>ls_ws = ws, ls_key = k, ls_uuid = k_uuid r,
                                  ls_fn = IncReadersAndReply (lo_id l)\<rparr> b)
           else send ws (WriteFlagSuccess (k_uuid r) k (readers l) (writerFlag l)) b)
         (ensure_lock E k False b))"

end
