(* ===== verification/Versions.thy ===== *)
theory Versions
  imports JsTypes
begin

text \<open>
  \<open>src/src/compare-versions.ts\<close>: the client is accepted when the major parts are the same string
  and the first characters of the minor parts are not two different digits.
\<close>

datatype version_error =
    ClientVersionNotString
  | BrokerVersionNotString
  | MajorMismatch
  | MinorMissing      \<comment> \<open>\<open>minorA.charAt\<close> of an absent minor part: a \<open>TypeError\<close>\<close>
  | MinorMismatch

text \<open>\<open>s.split('.')\<close>\<close>

fun split_on :: "char \<Rightarrow> string \<Rightarrow> string list" where
  "split_on c [] = [[]]"
| "split_on c (x # xs) =
     (if x = c then [] # split_on c xs
      else (case split_on c xs of [] \<Rightarrow> [[x]] | y # ys \<Rightarrow> (x # y) # ys))"

text \<open>\<open>Number.parseInt(s.charAt(0))\<close>; \<open>None\<close> is \<open>NaN\<close>.\<close>

definition digit_value :: "char \<Rightarrow> int option" where
  "digit_value c =
     (let n = int (of_char c) in if 48 \<le> n \<and> n \<le> 57 then Some (n - 48) else None)"

definition parse_first_digit :: "string \<Rightarrow> int option" where
  "parse_first_digit s = (case s of [] \<Rightarrow> None | c # _ \<Rightarrow> digit_value c)"

text \<open>\<open>Math.abs(a - b) > 0\<close> is false when either is \<open>NaN\<close>.\<close>

definition minors_differ :: "int option \<Rightarrow> int option \<Rightarrow> bool" where
  "minors_differ a b =
     (case (a, b) of (Some x, Some y) \<Rightarrow> \<bar>x - y\<bar> > 0 | _ \<Rightarrow> False)"

definition compareVersions :: "jsval \<Rightarrow> string \<Rightarrow> version_error + unit" where
  "compareVersions clientVersion brokerVersion =
     (case clientVersion of
        String c \<Rightarrow>
          if c = [] then Inl ClientVersionNotString
          else if brokerVersion = [] then Inl BrokerVersionNotString
          else
            (let as = split_on (CHR ''.'') c; bs = split_on (CHR ''.'') brokerVersion
             in if hd as \<noteq> hd bs then Inl MajorMismatch
                else (case (tl as, tl bs) of
                        (ma # _, mb # _) \<Rightarrow>
                          if minors_differ (parse_first_digit ma) (parse_first_digit mb)
                          then Inl MinorMismatch else Inr ()
                      | _ \<Rightarrow> Inl MinorMissing))
      | _ \<Rightarrow> Inl ClientVersionNotString)"

lemma split_on_not_Nil [simp]: "split_on c s \<noteq> []"
  by (induction s) (auto split: list.splits)

lemma split_on_line:
  "c \<notin> set xs \<Longrightarrow> split_on c (xs @ c # ys) = xs # split_on c ys"
  by (induction xs) auto

lemma split_on_plain: "c \<notin> set xs \<Longrightarrow> split_on c xs = [xs]"
  by (induction xs) auto

end
