(* ===== verification/BrokerConn.thy ===== *)
theory BrokerConn
  imports BrokerMany BrokerLock BrokerUnlock BrokerTtl BrokerRW Versions
begin

text \<open>
  Connections and the dispatcher: accepting a socket, \<open>cleanupConnection\<close>, the version handshake,
  introspection, and the typed \<open>switch\<close> over requests behind the checks of \<open>onData\<close>.
\<close>

subsection \<open>Closing a connection\<close>

definition force_unlock_req :: "string \<Rightarrow> string \<Rightarrow> unlock_req" where
  "force_unlock_req k u =
     \<lparr>u_uuid = None, u_key = k, u__uuid = Some u, u_force = True, u_keep = False\<rparr>"

fun force_unlock_each ::
  "'q ext \<Rightarrow> sock \<Rightarrow> string \<Rightarrow> string list \<Rightarrow> 'q broker \<Rightarrow> 'q broker option" where
  "force_unlock_each E ws k [] b = Some b"
| "force_unlock_each E ws k (u # us) b =
     Option.bind (unlock E (force_unlock_req k u) (Some ws) b) (force_unlock_each E ws k us)"

definition own_holds :: "sock \<Rightarrow> 'q lock_obj \<Rightarrow> string list" where
  "own_holds ws l = map fst (filter (\<lambda>(u, h). h_ws h = ws) (lockholders l))"

definition cleanup_key ::
  "'q ext \<Rightarrow> sock \<Rightarrow> string list \<Rightarrow> string \<Rightarrow> 'q broker \<Rightarrow> 'q broker option" where
  "cleanup_key E ws uuids k b =
     (case get_lock b k of
        None \<Rightarrow> Some b
      | Some l \<Rightarrow>
          (let b1 = set_lock k (l\<lparr>notify := fold (lq_remove E) uuids (notify l)\<rparr>) b;
               mine = own_holds ws l;
               b2 = fold del_deadline mine b1
           in if mine = [] then Some b2
              else if isViaShell l \<and> keepLocksAfterDeath l then Some b2
              else force_unlock_each E ws k mine b2))"

text \<open>
  \<open>for (const [k, lockObj] of this.locks)\<close> is a live iteration: lock objects that a released
  composite waiter creates on the way are visited too. No entry is removed meanwhile, so a
  cursor into the list is the iterator.
\<close>

partial_function (option) cleanup_locks ::
  "'q ext \<Rightarrow> sock \<Rightarrow> string list \<Rightarrow> nat \<Rightarrow> 'q broker \<Rightarrow> 'q broker option" where
  "cleanup_locks E ws uuids i b =
     (if length (locks b) \<le> i then Some b
      else Option.bind (cleanup_key E ws uuids (fst (locks b ! i)) b)
             (\<lambda>b1. cleanup_locks E ws uuids (Suc i) b1))"

definition cleanupConnection :: "'q ext \<Rightarrow> sock \<Rightarrow> 'q broker \<Rightarrow> 'q broker option" where
  "cleanupConnection E ws b =
     (if lmxClosed b ws then Some b
      else
        (let ks = (case wsToKeys b ws of None \<Rightarrow> [] | Some ks \<Rightarrow> ks);
             us = (case wsToUUIDs b ws of None \<Rightarrow> [] | Some us \<Rightarrow> us);
             b1 = b\<lparr>lmxClosed := (lmxClosed b)(ws := True),
                    connectedClients := removeAll ws (connectedClients b),
                    wsToKeys := (wsToKeys b)(ws := None),
                    wsToUUIDs := (wsToUUIDs b)(ws := None)\<rparr>
         in cleanup_locks E ws us 0 (fold clear_reelection ks b1)))"

definition destroy_socket :: "sock \<Rightarrow> 'q broker \<Rightarrow> 'q broker" where
  "destroy_socket ws b = b\<lparr>writable := (writable b)(ws := False)\<rparr>"

text \<open>The \<open>disconnect\<close>, \<open>end\<close> and \<open>error\<close> listeners of an accepted socket.\<close>

definition on_socket_end :: "'q ext \<Rightarrow> sock \<Rightarrow> 'q broker \<Rightarrow> 'q broker option" where
  "on_socket_end E ws b = map_option (destroy_socket ws) (cleanupConnection E ws b)"

definition accept_connection :: "sock \<Rightarrow> 'q broker \<Rightarrow> 'q broker" where
  "accept_connection ws b =
     ensure_ws_keys ws (b\<lparr>connectedClients := List.insert ws (connectedClients b)\<rparr>)"

definition abruptlyDestroyConnection :: "sock \<Rightarrow> 'q broker \<Rightarrow> 'q broker" where
  "abruptlyDestroyConnection ws b = destroy_socket ws b"

definition abruptlyEndConnection :: "sock \<Rightarrow> 'q broker \<Rightarrow> 'q broker" where
  "abruptlyEndConnection ws b = b\<lparr>writable := (writable b)(ws := False)\<rparr>"

text \<open>
  \<open>this.emitter.emit('error', ...)\<close> throws when nobody listens for \<open>error\<close>: the handler then
  ends there, before the reply and the destroy timer.
\<close>

definition onVersion :: "'q ext \<Rightarrow> jsval \<Rightarrow> sock \<Rightarrow> 'q broker \<Rightarrow> 'q broker option" where
  "onVersion E v ws b =
     (case compareVersions v (brokerVersion E) of
        Inr _ \<Rightarrow> Some b
      | Inl _ \<Rightarrow>
          map_option (\<lambda>b1.
            if errorListener b1
            then (let b2 = send ws (VersionMismatch v (brokerVersion E)) b1
                  in b2\<lparr>destroyTimeout := (destroyTimeout b2)(ws := True)\<rparr>)
            else emit (Warn UncaughtError) b1)
          (cleanupConnection E ws b))"

definition onError :: "'q broker \<Rightarrow> 'q broker" where
  "onError b = b\<lparr>errorListener := True\<rparr>"

subsection \<open>Introspection\<close>

text \<open>\<open>Object.keys(this.locks)\<close>: a \<open>Map\<close> has no own enumerable properties.\<close>

definition ls :: "string \<Rightarrow> sock \<Rightarrow> 'q broker \<Rightarrow> 'q broker" where
  "ls u ws b = send ws (LsReply u []) b"

text \<open>\<open>Object.keys(lck || {})\<close>: the property names of the lock object.\<close>

definition lock_object_fields :: "string list" where
  "lock_object_fields =
     [''readers'', ''max'', ''maxRead'', ''maxWrite'', ''nextFencingToken'', ''lockholders'',
      ''lockholdersAllReleased'', ''keepLocksAfterDeath'', ''lockholderTimeouts'', ''key'',
      ''notify'', ''writerFlag'', ''timestampEmptied'']"

definition retrieveLockInfo :: "'q ext \<Rightarrow> key_req \<Rightarrow> sock \<Rightarrow> 'q broker \<Rightarrow> 'q broker" where
  "retrieveLockInfo E r ws b =
     (let k = k_key r;
          us = (case get_lock b k of None \<Rightarrow> [] | Some l \<Rightarrow> lock_object_fields);
          cnt = map_option (\<lambda>l. lq_length E (notify l)) (get_lock b k);
          isLocked = (length us > 0);
          b1 = (if isLocked \<and> (case cnt of None \<Rightarrow> False | Some n \<Rightarrow> n > 0)
                then emit (Warn (LockInfoInconsistent k)) b else b)
      in send ws (LockInfoResponse (k_uuid r) k us cnt isLocked) b1)"

definition inspect :: "jsval \<Rightarrow> sock \<Rightarrow> 'q broker \<Rightarrow> 'q broker" where
  "inspect c ws b =
     (case c of
        String s \<Rightarrow>
          if s \<in> {''lockcount'', ''lock-count'', ''lock_count''} then send ws (InspectResult 5) b
          else if s \<in> {''clientcount'', ''client-count'', ''client_count''}
          then send ws (InspectResult 17) b
          else send ws (InspectResult 25) b
      | _ \<Rightarrow> send ws (ErrorReply InspectNotString) b)"

definition ping :: "string \<Rightarrow> int option \<Rightarrow> sock \<Rightarrow> 'q broker \<Rightarrow> 'q broker" where
  "ping u ts ws b =
     send ws (Pong u (case ts of None \<Rightarrow> now b | Some t \<Rightarrow> if t = 0 then now b else t) (now b)) b"

definition contention :: "top_key \<Rightarrow> nat" where
  "contention t = t_holders t + t_waiters t"

definition key_stats :: "'q ext \<Rightarrow> string \<times> 'q lock_obj \<Rightarrow> top_key" where
  "key_stats E p =
     \<lparr>t_key = fst p, t_holders = length (lockholders (snd p)),
      t_waiters = lq_length E (notify (snd p)), t_max = max_holders (snd p),
      t_fencingToken = nextFencingToken (snd p)\<rparr>"

definition buildStatsSnapshot :: "'q ext \<Rightarrow> 'q broker \<Rightarrow> stats" where
  "buildStatsSnapshot E b =
     (let rows = map (key_stats E) (locks b);
          busy = filter (\<lambda>t. t_holders t > 0 \<or> t_waiters t > 0) rows
      in \<lparr>st_connectedClients = length (connectedClients b),
          st_totalLocks = length (locks b),
          st_totalHolders = sum_list (map t_holders rows),
          st_totalReaders = sum_list (map (\<lambda>p. readers (snd p)) (locks b)),
          st_pendingRequests = sum_list (map t_waiters rows),
          st_activeTimeouts = length (timeouts b),
          st_pendingDeadlines = length (holderDeadlines b),
          st_ttlEvictionsTotal = ttlEvictionsTotal b,
          st_maxConcurrencyCap = maxConcurrencyCap b,
          st_concurrencyCapClampsTotal = concurrencyCapClampsTotal b,
          st_compositeLocksHeld = length (compositeLocks b),
          st_ttlSweepIntervalMs = ttlSweepIntervalMs b,
          st_topKeys = take 10 (sort_key (\<lambda>t. - int (contention t)) busy)\<rparr>)"

definition getSystemStats :: "'q ext \<Rightarrow> string \<Rightarrow> sock \<Rightarrow> 'q broker \<Rightarrow> 'q broker" where
  "getSystemStats E u ws b = send ws (SystemStatsResponse u (buildStatsSnapshot E b)) b"

subsection \<open>Client notices\<close>

definition lockReceived :: "key_req \<Rightarrow> 'q broker \<Rightarrow> 'q broker" where
  "lockReceived r b = clear_reelection (k_key r) b"

definition lockGivenUp :: "'q ext \<Rightarrow> key_req \<Rightarrow> 'q broker \<Rightarrow> 'q broker" where
  "lockGivenUp E r b =
     (case get_lock b (k_key r) of
        None \<Rightarrow> emit (Warn (ProbablyExpired (k_key r))) b
      | Some l \<Rightarrow> set_lock (k_key r) (l\<lparr>notify := lq_remove E (k_uuid r) (notify l)\<rparr>) b)"

definition lockRejected :: "'q ext \<Rightarrow> key_req \<Rightarrow> string option \<Rightarrow> 'q broker \<Rightarrow> 'q broker option" where
  "lockRejected E r uo b =
     (case get_lock b (k_key r) of
        None \<Rightarrow> Some (emit (Warn (ProbablyExpired (k_key r))) b)
      | Some l \<Rightarrow> ensureNewLockHolder E (k_key r) uo
                   (b\<lparr>rejected := insert (k_uuid r) (rejected b)\<rparr>))"

subsection \<open>Dispatch\<close>

definition simulated_version :: jsval where
  "simulated_version = String ''0.0.1''"

fun dispatchRequest :: "'q ext \<Rightarrow> LMXRequest \<Rightarrow> sock \<Rightarrow> 'q broker \<Rightarrow> 'q broker option" where
  "dispatchRequest E (VersionReq v) ws b = onVersion E v ws b"
| "dispatchRequest E SimulateVersionMismatchReq ws b = onVersion E simulated_version ws b"
| "dispatchRequest E EndConnectionReq ws b = Some (abruptlyEndConnection ws b)"
| "dispatchRequest E DestroyConnectionReq ws b = Some (abruptlyDestroyConnection ws b)"
| "dispatchRequest E VersionMismatchConfirmedReq ws b = Some (emit (Warn StrayMismatchConfirmed) b)"
| "dispatchRequest E (LsReq u) ws b = Some (ls u ws b)"
| "dispatchRequest E (UnlockReq r) ws b = unlock E r (Some ws) b"
| "dispatchRequest E (LockReq r) ws b = Some (lock E r ws b)"
| "dispatchRequest E (AcquireManyReq r) ws b = Some (acquireMany E r ws b)"
| "dispatchRequest E (ReleaseManyReq r) ws b = releaseMany E r ws b"
| "dispatchRequest E (IncrementReadersReq r) ws b = Some (incrementReaders E r ws b)"
| "dispatchRequest E (DecrementReadersReq r) ws b = Some (decrementReaders E r ws b)"
| "dispatchRequest E (RegisterWriteFlagCheckReq r) ws b = Some (registerWriteFlagCheck E r ws b)"
| "dispatchRequest E (RegisterWriteFlagCheckQueuedReq r) ws b = Some (registerWriteFlagCheck E r ws b)"
| "dispatchRequest E (RegisterWriteFlagAndReadersCheckReq r) ws b =
     Some (registerWriteFlagAndReadersCheck E r ws b)"
| "dispatchRequest E (SetWriteFlagFalseAndBroadcastReq r) ws b =
     Some (setWriteFlagToFalseAndBroadcast E r ws b)"
| "dispatchRequest E (LockReceivedReq r) ws b = Some (lockReceived r b)"
| "dispatchRequest E (LockClientTimeoutReq r) ws b = Some (lockGivenUp E r b)"
| "dispatchRequest E (LockClientErrorReq r) ws b = Some (lockGivenUp E r b)"
| "dispatchRequest E (LockReceivedRejectedReq r uo) ws b = lockRejected E r uo b"
| "dispatchRequest E (LockInfoRequestReq r) ws b = Some (retrieveLockInfo E r ws b)"
| "dispatchRequest E (PingReq u ts) ws b = Some (ping u ts ws b)"
| "dispatchRequest E (SystemStatsRequestReq u) ws b = Some (getSystemStats E u ws b)"

text \<open>A parsed frame: a request, an \<open>inspectCommand\<close>, or anything else by its \<open>type\<close> field.\<close>

datatype frame = Request LMXRequest | InspectCommand jsval | OtherFrame jsval

definition normalise_ttl :: "ttl_field \<Rightarrow> ttl_field" where
  "normalise_ttl t = (if t = TtlNull then TtlInfinity else t)"

fun normalise_request :: "LMXRequest \<Rightarrow> LMXRequest" where
  "normalise_request (LockReq r) = LockReq (r\<lparr>l_ttl := normalise_ttl (l_ttl r)\<rparr>)"
| "normalise_request (AcquireManyReq r) = AcquireManyReq (r\<lparr>a_ttl := normalise_ttl (a_ttl r)\<rparr>)"
| "normalise_request r = r"

definition onData :: "'q ext \<Rightarrow> frame \<Rightarrow> sock \<Rightarrow> 'q broker \<Rightarrow> 'q broker option" where
  "onData E f ws b =
     (if f = Request VersionMismatchConfirmedReq
      then Some (destroy_socket ws (b\<lparr>destroyTimeout := (destroyTimeout b)(ws := False)\<rparr>))
      else if lmxClosed b ws then Some b
      else (case f of
              InspectCommand c \<Rightarrow> Some (inspect c ws b)
            | OtherFrame t \<Rightarrow>
                Some (send ws (ErrorReply (UnknownType t)) (emit (Warn BadData) b))
            | Request r \<Rightarrow> dispatchRequest E (normalise_request r) ws b))"

subsection \<open>Shutdown\<close>

definition close :: "'q broker \<Rightarrow> 'q broker" where
  "close b =
     (let b1 = stopTtlSweeper (b\<lparr>timeouts := []\<rparr>);
          b2 = fold destroy_socket (connectedClients b1) (b1\<lparr>holderDeadlines := []\<rparr>)
      in b2\<lparr>connectedClients := [], locks := [], wsToKeys := (\<lambda>_. None), wsToUUIDs := (\<lambda>_. None),
            compositeLocks := [], rejected := {}, registeredListeners := (\<lambda>_. [])\<rparr>)"

end
