(* ===== verification/BrokerStep.thy ===== *)
theory BrokerStep
  imports BrokerConn
begin

text \<open>
  The broker as a state machine: one external event at a time, each handled to completion, as
  the event loop does. The events are what the network, the timers and the process environment
  do; a handler that never returns is a step that does not exist.
\<close>

datatype bevent =
    Accept sock
  | Frame frame sock
  | SocketEnd sock                \<comment> \<open>\<open>disconnect\<close>, \<open>end\<close> or \<open>error\<close>\<close>
  | SweepTick
  | ReelectionTimer string
  | DestroyTimer sock
  | ClockSet int
  | WritableSet sock bool
  | AttachErrorListener
  | StartSweeper "int option"
  | StopSweeper
  | Close

fun handle :: "'q ext \<Rightarrow> bevent \<Rightarrow> 'q broker \<Rightarrow> 'q broker option" where
  "handle E (Accept ws) b = Some (accept_connection ws b)"
| "handle E (Frame f ws) b = onData E f ws b"
| "handle E (SocketEnd ws) b = on_socket_end E ws b"
| "handle E SweepTick b = map_option snd (tickTtl E (now b) b)"
| "handle E (ReelectionTimer k) b = Some (fire_reelection E k b)"
| "handle E (DestroyTimer ws) b =
     Some (if destroyTimeout b ws
           then destroy_socket ws (b\<lparr>destroyTimeout := (destroyTimeout b)(ws := False)\<rparr>) else b)"
| "handle E (ClockSet t) b = Some (b\<lparr>now := t\<rparr>)"
| "handle E (WritableSet ws w) b = Some (b\<lparr>writable := (writable b)(ws := w)\<rparr>)"
| "handle E AttachErrorListener b = Some (onError b)"
| "handle E (StartSweeper io) b = Some (startTtlSweeper io b)"
| "handle E StopSweeper b = Some (stopTtlSweeper b)"
| "handle E Close b = Some (close b)"

text \<open>Reachability under a discipline \<open>A\<close> on the events.\<close>

inductive reachable :: "'q ext \<Rightarrow> (bevent \<Rightarrow> bool) \<Rightarrow> 'q broker \<Rightarrow> 'q broker \<Rightarrow> bool"
  for E A b0 where
  start: "reachable E A b0 b0"
| step: "reachable E A b0 b \<Longrightarrow> A ev \<Longrightarrow> handle E ev b = Some b' \<Longrightarrow> reachable E A b0 b'"

inductive_cases reachableE: "reachable E A b0 b"

fun run :: "'q ext \<Rightarrow> bevent list \<Rightarrow> 'q broker \<Rightarrow> 'q broker option" where
  "run E [] b = Some b"
| "run E (ev # evs) b = Option.bind (handle E ev b) (run E evs)"

lemma run_append: "run E (xs @ ys) b = Option.bind (run E xs b) (run E ys)"
  by (induction xs arbitrary: b) (auto split: Option.bind_splits)

lemma run_reachable_from:
  assumes "reachable E A b0 b" and "list_all A evs" and "run E evs b = Some b'"
  shows "reachable E A b0 b'"
  using assms
proof (induction evs arbitrary: b)
  case (Cons ev evs)
  from Cons.prems(3) obtain b1 where "handle E ev b = Some b1" "run E evs b1 = Some b'"
    by (auto split: Option.bind_splits)
  with Cons show ?case by (auto intro: reachable.step)
qed simp

lemma run_reachable:
  "list_all A evs \<Longrightarrow> run E evs b0 = Some b \<Longrightarrow> reachable E A b0 b"
  by (rule run_reachable_from [OF reachable.start])

end
