(* ===== verification/BrokerInv.thy ===== *)
theory BrokerInv
  imports BrokerStep
begin

text \<open>
  One proof for every safety property of the broker. The locale \<open>broker_invariant\<close> says what a
  property must survive: the few ways a handler touches the lock objects (holders removed or
  other fields rewritten, an object created, limits updated by a request, a holder installed,
  idle objects collected). Inside it every handler, and so every reachable state, keeps the
  property. The invariants of the later theories are interpretations.
\<close>

subsection \<open>What a handler leaves alone\<close>

text \<open>The history of grants: tokens minted, and answers that say a lock was acquired.\<close>

fun is_grant :: "response \<Rightarrow> bool" where
  "is_grant (LockReply u k acquired n rd t e) = acquired"
| "is_grant _ = False"

fun is_mint :: "event \<Rightarrow> bool" where
  "is_mint (Minted _ _ _) = True"
| "is_mint (Sent ws r) = is_grant r"
| "is_mint (Warn _) = False"

definition mints :: "'q broker \<Rightarrow> event list" where
  "mints b = filter is_mint (out b)"

definition same_grants :: "'q broker \<Rightarrow> 'q broker \<Rightarrow> bool" where
  "same_grants b b' \<longleftrightarrow> locks b' = locks b \<and> next_lo_id b' = next_lo_id b \<and> mints b' = mints b"

definition weaker :: "'q lock_obj \<Rightarrow> 'q lock_obj \<Rightarrow> bool" where
  "weaker l l' \<longleftrightarrow>
     lo_id l' = lo_id l \<and> lo_key l' = lo_key l \<and> nextFencingToken l' = nextFencingToken l \<and>
     max_holders l' = max_holders l \<and> maxRead l' = maxRead l \<and> maxWrite l' = maxWrite l \<and>
     (jsmap_wf (lockholders l) \<longrightarrow> jsmap_wf (lockholders l')) \<and>
     set (lockholders l') \<subseteq> set (lockholders l) \<and> length (lockholders l') \<le> length (lockholders l)"

lemma weaker_refl [simp]: "weaker l l"
  by (simp add: weaker_def)

lemma weaker_trans: "weaker l l' \<Longrightarrow> weaker l' l'' \<Longrightarrow> weaker l l''"
  by (auto simp: weaker_def)

lemma weaker_simps [simp]:
  "weaker l (l'\<lparr>notify := q\<rparr>) = weaker l l'"
  "weaker l (l'\<lparr>readers := n\<rparr>) = weaker l l'"
  "weaker l (l'\<lparr>keepLocksAfterDeath := c\<rparr>) = weaker l l'"
  "weaker l (l'\<lparr>writerFlag := c\<rparr>) = weaker l l'"
  "weaker l (l'\<lparr>timestampEmptied := t\<rparr>) = weaker l l'"
  "weaker l (l'\<lparr>lockholderTimeouts := S\<rparr>) = weaker l l'"
  "weaker l (l'\<lparr>lockholdersAllReleased := S\<rparr>) = weaker l l'"
  by (simp_all add: weaker_def)

lemma weaker_delete [simp]: "weaker l (l\<lparr>lockholders := AList.delete u (lockholders l)\<rparr>)"
  using set_delete_subset [of u "lockholders l"] by (auto simp: weaker_def)

lemma weaker_clear [simp]: "weaker l (l\<lparr>lockholders := []\<rparr>)"
  by (simp add: weaker_def)

lemma weaker_remove_holder [simp]: "weaker l (remove_holder u l)"
  by (simp add: remove_holder_def)

lemma remove_holder_simps [simp]:
  "lo_id (remove_holder u l) = lo_id l" "notify (remove_holder u l) = notify l"
  "readers (remove_holder u l) = readers l" "max_holders (remove_holder u l) = max_holders l"
  "maxRead (remove_holder u l) = maxRead l" "maxWrite (remove_holder u l) = maxWrite l"
  "nextFencingToken (remove_holder u l) = nextFencingToken l"
  "lockholders (remove_holder u l) = AList.delete u (lockholders l)"
  "lockholderTimeouts (remove_holder u l) = lockholderTimeouts l"
  "lockholdersAllReleased (remove_holder u l) = lockholdersAllReleased l"
  by (simp_all add: remove_holder_def)

lemma max_capacity_weaker: "weaker l l' \<Longrightarrow> max_capacity l' = max_capacity l"
  by (simp add: weaker_def max_capacity_def)

lemma max_capacity_simps [simp]:
  "max_capacity (l\<lparr>notify := q\<rparr>) = max_capacity l"
  "max_capacity (l\<lparr>keepLocksAfterDeath := c\<rparr>) = max_capacity l"
  "max_capacity (l\<lparr>lockholdersAllReleased := S\<rparr>) = max_capacity l"
  "max_capacity (l\<lparr>lockholderTimeouts := S\<rparr>) = max_capacity l"
  "max_capacity (l\<lparr>lockholders := hs\<rparr>) = max_capacity l"
  "max_capacity (remove_holder u l) = max_capacity l"
  by (simp_all add: max_capacity_def remove_holder_def)

lemma mints_emit [simp]: "mints (emit e b) = mints b @ (if is_mint e then [e] else [])"
  by (simp add: mints_def emit_def)

lemma locks_emit [simp]: "locks (emit e b) = locks b"
  by (simp add: emit_def)

lemma next_lo_id_emit [simp]: "next_lo_id (emit e b) = next_lo_id b"
  by (simp add: emit_def)

lemma mints_frame [simp]:
  "mints (b\<lparr>locks := x1\<rparr>) = mints b" "mints (b\<lparr>orphans := x2\<rparr>) = mints b"
  "mints (b\<lparr>rejected := x3\<rparr>) = mints b" "mints (b\<lparr>timeouts := x4\<rparr>) = mints b"
  "mints (b\<lparr>wsToUUIDs := x5\<rparr>) = mints b" "mints (b\<lparr>wsToKeys := x6\<rparr>) = mints b"
  "mints (b\<lparr>lockCounts := x7\<rparr>) = mints b" "mints (b\<lparr>connectedClients := x8\<rparr>) = mints b"
  "mints (b\<lparr>registeredListeners := x9\<rparr>) = mints b" "mints (b\<lparr>holderDeadlines := y1\<rparr>) = mints b"
  "mints (b\<lparr>ttlSweeperHandle := y2\<rparr>) = mints b" "mints (b\<lparr>ttlSweepIntervalMs := y3\<rparr>) = mints b"
  "mints (b\<lparr>ttlEvictionsTotal := y4\<rparr>) = mints b"
  "mints (b\<lparr>concurrencyCapClampsTotal := y5\<rparr>) = mints b"
  "mints (b\<lparr>compositeLocks := y6\<rparr>) = mints b" "mints (b\<lparr>writable := y7\<rparr>) = mints b"
  "mints (b\<lparr>lmxClosed := y8\<rparr>) = mints b" "mints (b\<lparr>destroyTimeout := y9\<rparr>) = mints b"
  "mints (b\<lparr>errorListener := z1\<rparr>) = mints b" "mints (b\<lparr>now := z2\<rparr>) = mints b"
  "mints (b\<lparr>uuid_ctr := z3\<rparr>) = mints b" "mints (b\<lparr>next_lo_id := z4\<rparr>) = mints b"
  by (simp_all add: mints_def)

lemma same_grantsI:
  "locks b' = locks b \<Longrightarrow> next_lo_id b' = next_lo_id b \<Longrightarrow> mints b' = mints b \<Longrightarrow> same_grants b b'"
  by (simp add: same_grants_def)

lemma same_grants_refl [simp]: "same_grants b b"
  by (simp add: same_grants_def)

lemma same_grants_trans: "same_grants a b \<Longrightarrow> same_grants b c \<Longrightarrow> same_grants a c"
  by (simp add: same_grants_def)

lemma locks_same: "same_grants b b' \<Longrightarrow> locks b' = locks b"
  by (simp add: same_grants_def)

lemma locks_send [simp]: "locks (send ws r b) = locks b"
  by (simp add: send_def)

lemma same_send [frame]: "\<not> is_grant r \<Longrightarrow> same_grants b (send ws r b)"
  by (rule same_grantsI) (simp_all add: send_def)

lemma same_emit [frame]: "\<not> is_mint e \<Longrightarrow> same_grants b (emit e b)"
  by (rule same_grantsI) simp_all

lemma same_next_uuid [frame]: "same_grants b (next_uuid b)"
  by (rule same_grantsI) (simp_all add: next_uuid_def)

lemma same_add_ws_key [frame]: "same_grants b (add_ws_key ws k b)"
  by (rule same_grantsI) (simp_all add: add_ws_key_def)

lemma same_del_ws_key [frame]: "same_grants b (del_ws_key ws k b)"
  by (rule same_grantsI) (simp_all add: del_ws_key_def split: option.splits)

lemma same_add_ws_uuid [frame]: "same_grants b (add_ws_uuid ws k b)"
  by (rule same_grantsI) (simp_all add: add_ws_uuid_def)

lemma same_del_ws_uuid [frame]: "same_grants b (del_ws_uuid ws k b)"
  by (rule same_grantsI) (simp_all add: del_ws_uuid_def split: option.splits)

lemma same_ensure_ws_keys [frame]: "same_grants b (ensure_ws_keys ws b)"
  by (rule same_grantsI) (simp_all add: ensure_ws_keys_def split: option.splits)

lemma same_clear_reelection [frame]: "same_grants b (clear_reelection k b)"
  by (rule same_grantsI) (simp_all add: clear_reelection_def)

lemma same_arm_reelection [frame]: "same_grants b (arm_reelection k ws u b)"
  by (rule same_grantsI) (simp_all add: arm_reelection_def clear_reelection_def)

lemma same_del_deadline [frame]: "same_grants b (del_deadline u b)"
  by (rule same_grantsI) (simp_all add: del_deadline_def)

lemma same_scheduleDeadline [frame]: "same_grants b (snd (scheduleDeadline k u t b))"
  by (rule same_grantsI)
    (simp_all add: scheduleDeadline_def Let_def split: js_number.splits)

lemma same_fold:
  "(\<And>x b. same_grants b (f x b)) \<Longrightarrow> same_grants b (fold f xs b)"
  by (induction xs arbitrary: b) (auto intro: same_grants_trans)

lemma same_send_reelections [frame]: "same_grants b (send_reelections k ln es b)"
  unfolding send_reelections_def by (rule same_fold) (auto simp: same_send)

lemma same_register_composite [frame]: "same_grants b (register_composite ws u cid ks gs b)"
  unfolding register_composite_def
  by (rule same_grants_trans [OF _ same_send]) (simp_all add: same_grants_def)

lemma locks_reply_unlock [simp]: "locks (reply_unlock wo r f b) = locks b"
  by (auto simp: reply_unlock_def split: option.splits)

lemma same_reply_unlock [frame]: "(\<And>u. \<not> is_grant (f u)) \<Longrightarrow> same_grants b (reply_unlock wo r f b)"
  by (auto simp: reply_unlock_def same_send split: option.splits)

lemma same_forget_ownership [frame]: "same_grants b (forget_ownership wo r b)"
  by (auto simp: forget_ownership_def frame split: option.splits
      intro: same_grants_trans [OF same_del_ws_key same_del_ws_uuid])

lemma same_unlock_no_lock [frame]: "same_grants b (unlock_no_lock r wo b)"
  by (auto simp: unlock_no_lock_def Let_def
      intro: same_emit same_reply_unlock same_grants_trans
        [OF same_grants_trans [OF same_emit same_emit] same_reply_unlock]
        same_grants_trans [OF same_emit same_emit])

lemma same_push_listener [frame]: "same_grants b (push_listener p b)"
  by (rule same_grantsI) (simp_all add: push_listener_def)

lemma same_destroy_socket [frame]: "same_grants b (destroy_socket ws b)"
  by (rule same_grantsI) (simp_all add: destroy_socket_def)

lemma same_accept_connection [frame]: "same_grants b (accept_connection ws b)"
  unfolding accept_connection_def
  by (rule same_grants_trans [OF _ same_ensure_ws_keys]) (simp add: same_grants_def)

subsection \<open>The drain as a loop\<close>

lemma get_lock_set_lock [simp]: "get_lock (set_lock k l b) k' = (if k' = k then Some l else get_lock b k')"
  by (simp add: set_lock_def)

lemma set_lock_set_lock [simp]: "set_lock k l (set_lock k l' b) = set_lock k l b"
  by (simp add: set_lock_def)

lemma next_lo_id_set_lock [simp]: "next_lo_id (set_lock k l b) = next_lo_id b"
  by (simp add: set_lock_def)

lemma mints_set_lock [simp]: "mints (set_lock k l b) = mints b"
  by (simp add: set_lock_def)

text \<open>
  Partial correctness of the drain: what holds before it and is kept by a change of the queue, by
  a composite attempt, and by a grant below capacity holds when it returns.
\<close>

lemma drain_rule:
  assumes ret: "drain E k b = Some b'" and P: "P b"
    and queue: "\<And>b l q. P b \<Longrightarrow> get_lock b k = Some l \<Longrightarrow> P (set_lock k (l\<lparr>notify := q\<rparr>) b)"
    and composite: "\<And>b n. P b \<Longrightarrow> P (tryGrantAcquireManyFromQueue E n b)"
    and grant: "\<And>b l n. P b \<Longrightarrow> get_lock b k = Some l \<Longrightarrow>
        length (lockholders l) < max_capacity l \<Longrightarrow> P (grant_waiter E k n l b)"
  shows "P b'"
proof -
  have "E0 = E \<longrightarrow> k0 = k \<longrightarrow> P b0 \<longrightarrow> P r" if "drain E0 k0 b0 = Some r" for E0 k0 b0 r
  proof (rule drain.raw_induct [where P = "\<lambda>E0 k0 b0 r. E0 = E \<longrightarrow> k0 = k \<longrightarrow> P b0 \<longrightarrow> P r", OF _ that],
      intro impI)
    fix f E0 k0 b0 r
    assume IH: "\<And>E0 k0 b0 r. f E0 k0 b0 = Some r \<Longrightarrow> E0 = E \<longrightarrow> k0 = k \<longrightarrow> P b0 \<longrightarrow> P r"
      and eq: "(case get_lock b0 k0 of None \<Rightarrow> Some b0
        | Some l \<Rightarrow>
            if lq_length E0 (notify l) = 0 \<or> max_capacity l \<le> length (lockholders l) then Some b0
            else (case next_waiter E0 (writable b0) (notify l) None of None \<Rightarrow> None
              | Some (None, q) \<Rightarrow> Some (set_lock k0 (l\<lparr>notify := q\<rparr>) b0)
              | Some (Some n, q) \<Rightarrow>
                  let l1 = l\<lparr>notify := q\<rparr>; b1 = set_lock k0 l1 b0
                  in if max_capacity l1 \<le> length (lockholders l1)
                     then Some (set_lock k0 (l1\<lparr>notify := lq_enqueue E0 (n_uuid n) n q\<rparr>) b1)
                     else if n_acquireMany n \<noteq> None
                     then f E0 k0 (tryGrantAcquireManyFromQueue E0 n b1)
                     else f E0 k0 (grant_waiter E0 k0 n l1 b1))) = Some r"
      and E0: "E0 = E" and k0: "k0 = k" and Pb0: "P b0"
    show "P r"
    proof (cases "get_lock b0 k")
      case None
      with eq Pb0 k0 show ?thesis by simp
    next
      case (Some l)
      show ?thesis
      proof (cases "lq_length E (notify l) = 0 \<or> max_capacity l \<le> length (lockholders l)")
        case True
        with eq Pb0 Some E0 k0 show ?thesis by simp
      next
        case room: False
        with eq Some E0 k0 obtain no q where nw: "next_waiter E (writable b0) (notify l) None = Some (no, q)"
          by (auto split: option.splits)
        let ?l1 = "l\<lparr>notify := q\<rparr>" and ?b1 = "set_lock k (l\<lparr>notify := q\<rparr>) b0"
        have b1: "P ?b1" using queue [OF Pb0 Some] .
        have cap: "\<not> max_capacity ?l1 \<le> length (lockholders ?l1)"
          using room by simp
        show ?thesis
        proof (cases no)
          case None
          with eq Some E0 k0 room nw b1 show ?thesis by simp
        next
          case n: (Some n)
          have step: "(if n_acquireMany n \<noteq> None then f E k (tryGrantAcquireManyFromQueue E n ?b1)
              else f E k (grant_waiter E k n ?l1 ?b1)) = Some r"
            using eq Some E0 k0 room nw n cap by (simp add: Let_def split: if_splits)
          have "P (tryGrantAcquireManyFromQueue E n ?b1)" by (rule composite [OF b1])
          moreover have "P (grant_waiter E k n ?l1 ?b1)"
            by (rule grant [OF b1]) (use cap in simp_all)
          ultimately show ?thesis using step IH E0 k0 by (metis (full_types))
        qed
      qed
    qed
  qed
  then show ?thesis using ret P by blast
qed

subsection \<open>Collection and limits\<close>

lemma get_lock_cleanUpLocks:
  "get_lock b k = Some l \<Longrightarrow> timestampEmptied l = None \<Longrightarrow> get_lock (cleanUpLocks E b) k = Some l"
proof -
  assume l: "get_lock b k = Some l" "timestampEmptied l = None"
  have "map_of m k = Some l \<Longrightarrow> map_of (filter (\<lambda>(k, l). \<not> stale_lock E t l) m) k = Some l" for t m
    using l(2) by (induction m) (auto simp: stale_lock_def split: if_splits)
  then show ?thesis using l(1) by (simp add: cleanUpLocks_def)
qed

lemma get_lock_cleanUpLocks_None:
  "get_lock b k = None \<Longrightarrow> get_lock (cleanUpLocks E b) k = None"
  by (auto simp: cleanUpLocks_def map_of_eq_None_iff)

lemma get_lock_count_lock_request:
  "get_lock b k = None \<or> (\<exists>l. get_lock b k = Some l \<and> timestampEmptied l = None) \<Longrightarrow>
   get_lock (count_lock_request E b) k = get_lock b k"
  by (auto simp: count_lock_request_def Let_def get_lock_cleanUpLocks get_lock_cleanUpLocks_None)

lemma weaker_count_reader [simp]: "weaker l (count_reader r l)"
  by (simp add: count_reader_def)

lemma update_limits_simps [simp]:
  "lo_id (update_limits r l) = lo_id l" "lo_key (update_limits r l) = lo_key l"
  "readers (update_limits r l) = readers l" "writerFlag (update_limits r l) = writerFlag l"
  "nextFencingToken (update_limits r l) = nextFencingToken l"
  "lockholders (update_limits r l) = lockholders l" "notify (update_limits r l) = notify l"
  "max_holders (update_limits r l) = (if is_integer (l_max r) then limit (l_max r) else max_holders l)"
  by (simp_all add: update_limits_def set_legacy_max_def split: option.split)

lemma max_holders_le_capacity: "max_holders l \<le> max_capacity l"
  by (simp add: max_capacity_def Let_def le_max_iff_disj)

lemma maxWrite_le_capacity: "maxWrite l = Some w \<Longrightarrow> w \<le> max_capacity l"
  by (simp add: max_capacity_def Let_def le_max_iff_disj)

lemma update_limits_write:
  "beginWrite r \<Longrightarrow> \<exists>w. maxWrite (update_limits r l) = Some w"
  by (auto simp: update_limits_def set_legacy_max_def beginRead_def beginWrite_def split: option.splits)

lemma update_limits_plain:
  "\<not> beginRead r \<Longrightarrow> \<not> beginWrite r \<Longrightarrow> effective_max r (update_limits r l) = max_holders (update_limits r l)"
  by (simp add: effective_max_def update_limits_def set_legacy_max_def)

text \<open>After the limit update, a request below its limit is below the capacity of the object.\<close>

lemma effective_capacity:
  assumes "\<not> beginRead r" "effective_count r l < effective_max r l" "l = update_limits r l0"
  shows "length (lockholders l) < max_capacity l"
proof (cases "beginWrite r")
  case True
  then obtain w where "maxWrite l = Some w" using update_limits_write assms(3) by blast
  then show ?thesis
    using maxWrite_le_capacity assms(1,2) True by (fastforce simp: effective_count_def effective_max_def)
next
  case False
  then show ?thesis
    using update_limits_plain [OF assms(1), of l0] max_holders_le_capacity [of l] assms
    by (simp add: effective_count_def)
qed

subsection \<open>The locales\<close>

text \<open>What a property survives that does not speak of grants: the part of a handler that makes no lock
  object and mints no token. Both brokers share these laws.\<close>

locale broker_frame =
  fixes E :: "'q ext"
    and P :: "'q broker \<Rightarrow> bool"
    and ok :: "lock_req \<Rightarrow> bool"
    and closing :: bool   \<comment> \<open>whether the broker may be shut down\<close>
  assumes same: "P b \<Longrightarrow> same_grants b b' \<Longrightarrow> P b'"
    and weaken: "P b \<Longrightarrow> get_lock b k = Some l \<Longrightarrow> weaker l l' \<Longrightarrow> P (set_lock k l' b)"
    and limits:
      "P b \<Longrightarrow> ok r \<Longrightarrow> validateMaxField r = None \<Longrightarrow> get_lock b (l_key r) = Some l \<Longrightarrow>
       P (set_lock (l_key r) (update_limits r l) b)"
    and answer:
      "P b \<Longrightarrow> Minted k i tok \<in> set (out b) \<Longrightarrow> P (emit (Sent ws (LockReply u k True n rd (Some tok) err)) b)"
    and collect: "P b \<Longrightarrow> P (cleanUpLocks E b)"
    and objects: "P b \<Longrightarrow> (\<And>l. weaker l (f l)) \<Longrightarrow> P (update_object i f b)"
    and closed: "closing \<Longrightarrow> P b \<Longrightarrow> P (close b)"
    and ok_ttl: "ok r \<Longrightarrow> ok (r\<lparr>l_ttl := t\<rparr>)"
begin

lemma P_with_lock:
  "P b \<Longrightarrow> (\<And>l. get_lock b k = Some l \<Longrightarrow> P (f l b)) \<Longrightarrow> P (with_lock k f b)"
  by (simp add: with_lock_def split: option.splits)

lemma P_send: "P b \<Longrightarrow> \<not> is_grant r \<Longrightarrow> P (send ws r b)"
  by (rule same [OF _ same_send])

lemma P_emit: "P b \<Longrightarrow> \<not> is_mint e \<Longrightarrow> P (emit e b)"
  by (rule same [OF _ same_emit])

lemma P_rollback_grants: "P b \<Longrightarrow> P (rollback_grants gs b)"
proof (induction gs arbitrary: b)
  case (Cons g gs)
  obtain k u t where g: "g = (k, u, t)" by (cases g)
  have "P (with_lock k (\<lambda>l b. set_lock k (l\<lparr>lockholders := AList.delete u (lockholders l)\<rparr>)
                 (del_deadline u b)) b)"
    using Cons.prems
    by (intro P_with_lock weaken [OF same [OF _ same_del_deadline]])
      (auto simp: locks_same [OF same_del_deadline])
  then show ?case using Cons g by simp
qed simp

lemma P_rollback_attempt: "P b \<Longrightarrow> P (rollback_attempt gs b)"
proof (induction gs arbitrary: b)
  case (Cons g gs)
  obtain k u t where g: "g = (k, u, t)" by (cases g)
  have "P (with_lock k (\<lambda>l b. case map_of (lockholders l) u of None \<Rightarrow> b
          | Some h \<Rightarrow> set_lock k (l\<lparr>lockholders := AList.delete u (lockholders l)\<rparr>)
                        (del_deadline u b)) b)"
    using Cons.prems
    by (intro P_with_lock) (auto split: option.splits simp: locks_same [OF same_del_deadline]
        intro!: weaken [OF same [OF _ same_del_deadline]])
  then show ?case using Cons g by simp
qed simp

lemma P_queue_waiter: "P b \<Longrightarrow> get_lock b k = Some l \<Longrightarrow> P (queue_waiter E k n l b)"
  by (auto simp: queue_waiter_def intro: weaken)

lemma P_lock_contended:
  "P b \<Longrightarrow> get_lock b (l_key r) = Some l \<Longrightarrow> P (lock_contended E r ws ttl l b)"
  by (auto simp: lock_contended_def Let_def intro!: P_send weaken)

lemma P_count_lock_request: "P b \<Longrightarrow> P (count_lock_request E b)"
  by (auto simp: count_lock_request_def Let_def intro!: collect intro: same [OF _ same_grantsI])

lemma P_bind:
  "Option.bind m f = Some b' \<Longrightarrow> (\<And>b. m = Some b \<Longrightarrow> P b) \<Longrightarrow>
   (\<And>b. m = Some b \<Longrightarrow> P b \<Longrightarrow> f b = Some b' \<Longrightarrow> P b') \<Longrightarrow> P b'"
  by (cases m) auto

end

text \<open>The laws for grants: new lock objects, and holders installed under a guard.\<close>

locale broker_invariant = broker_frame E P ok closing
  for E :: "'q ext" and P ok closing +
  fixes guarded :: "string \<Rightarrow> 'q lock_obj \<Rightarrow> bool"
  assumes create: "P b \<Longrightarrow> get_lock b k = None \<Longrightarrow> P (create_lock E k keep (Some 1) None None b)"
    and create_req:
      "P b \<Longrightarrow> ok r \<Longrightarrow> validateMaxField r = None \<Longrightarrow> get_lock b (l_key r) = None \<Longrightarrow>
       P (create_lock E (l_key r) (l_keep r)
            (if is_integer (l_max r) then Some (limit (l_max r)) else None)
            (if beginRead r then Some (case requested_limit (l_maxRead r) (l_max r) of
               None \<Rightarrow> 10 | Some m \<Rightarrow> m) else None)
            (if beginWrite r then Some (case requested_limit (l_maxWrite r) (l_max r) of
               None \<Rightarrow> 1 | Some m \<Rightarrow> m) else None) b)"
    and install:
      "P b \<Longrightarrow> get_lock b k = Some l0 \<Longrightarrow> weaker l0 l \<Longrightarrow> guarded k l0 \<Longrightarrow>
       P (snd (install_holder k u ws pid cid e l b))"
    and guard_room: "length (lockholders l) < max_capacity l \<Longrightarrow> guarded k l"
    and guard_read: "ok r \<Longrightarrow> beginRead r \<Longrightarrow> guarded (l_key r) l"
begin

lemma P_ensure_lock: "P b \<Longrightarrow> P (ensure_lock E k keep b)"
  by (cases "get_lock b k") (simp_all add: ensure_lock_def create [simplified])

lemma P_install:
  assumes "P b" "get_lock b k = Some l0" "weaker l0 l" "guarded k l0" "same_grants b b'"
  shows "P (snd (install_holder k u ws pid cid e l b'))"
  by (rule install [of b' k l0])
    (use assms same locks_same [OF assms(5)] in auto)

lemma P_grantLock:
  assumes "P b" "get_lock b k = Some l0" "weaker l0 l" "guarded k l0"
  shows "P (snd (grantLock E k ws u pid ttl l b))"
  unfolding grantLock_def Let_def case_prod_beta
  by (rule P_install [OF assms]) (rule same_grants_trans [OF same_add_ws_key same_scheduleDeadline])

text \<open>The answer to a grant carries the token that was just minted.\<close>

lemma P_send_grant:
  assumes "P b" "get_lock b k = Some l0" "weaker l0 l" "guarded k l0"
  shows "P (send ws (LockReply u k True n rd (Some (fst (grantLock E k ws u pid ttl l b))) None)
    (snd (grantLock E k ws u pid ttl l b)))"
proof -
  have "Minted k (lo_id l) (fst (grantLock E k ws u pid ttl l b)) \<in> set (out (snd (grantLock E k ws u pid ttl l b)))"
    by (simp add: grantLock_def Let_def case_prod_beta install_holder_def emit_def)
  then show ?thesis
    using P_grantLock [OF assms(1-4), of ws u pid ttl] P_emit answer by (simp add: send_def)
qed

lemma P_grant_member:
  assumes "P b" "get_lock b k = Some l" "guarded k l"
  shows "P (snd (snd (grant_member E ws pid ttl cid k l b)))"
  unfolding grant_member_def Let_def case_prod_beta snd_conv
  by (rule same [OF _ same_add_ws_key], rule P_install [OF assms(1,2) _ assms(3)])
    (auto intro: same_grants_trans [OF same_next_uuid same_scheduleDeadline])

lemma room_capacity: "length (lockholders l) < max_holders l \<Longrightarrow> guarded k l"
  by (rule guard_room) (auto simp: max_capacity_def Let_def)

lemma P_tg_loop:
  "P b \<Longrightarrow> P (snd (snd (tg_loop E ws pid ttl keep cid ks gs b)))"
proof (induction ks arbitrary: gs b)
  case (Cons k ks)
  let ?b0 = "ensure_lock E k keep b"
  have P0: "P ?b0" using Cons.prems by (rule P_ensure_lock)
  show ?case
  proof (cases "get_lock ?b0 k")
    case (Some l)
    obtain u t b1 where gm: "grant_member E ws pid ttl cid k l ?b0 = (u, t, b1)"
      by (rule prod_cases3)
    have "P b1" if "length (lockholders l) < max_holders l"
      using P_grant_member [OF P0 Some room_capacity [OF that], of ws pid ttl cid] gm by simp
    with P0 Some gm Cons.IH show ?thesis
      by (cases "max_holders l \<le> length (lockholders l)") (simp_all add: Let_def not_le)
  qed (use P0 in simp)
qed simp

lemma P_tryGrant: "P b \<Longrightarrow> P (tryGrantAcquireManyFromQueue E n b)"
  using P_tg_loop [of b]
  by (auto simp: tryGrantAcquireManyFromQueue_def Let_def split: option.splits prod.splits
      intro!: P_with_lock P_queue_waiter P_ensure_lock P_rollback_grants
        same [OF _ same_register_composite])
    (metis snd_conv)+

lemma P_grant_waiter:
  assumes "P b" "get_lock b k = Some l" "length (lockholders l) < max_capacity l"
  shows "P (grant_waiter E k n l b)"
  unfolding grant_waiter_def Let_def case_prod_beta
  by (rule same [OF P_send_grant same_arm_reelection], rule assms(1), rule assms(2))
    (auto intro: guard_room assms(3))

lemma P_drain: "drain E k b = Some b' \<Longrightarrow> P b \<Longrightarrow> P b'"
  by (rule drain_rule [where P = P]) (auto intro: weaken P_tryGrant P_grant_waiter)

lemma P_ensureNewLockHolder:
  assumes "ensureNewLockHolder E k uo b = Some b'" and P: "P b"
  shows "P b'"
proof (cases "get_lock b k")
  case (Some l)
  define b1 where "b1 = (if truthy_str uo then del_deadline (prop_name uo) b else b)"
  define l1 where "l1 = (if truthy_str uo then remove_holder (prop_name uo) l else l)"
  have b1: "P b1" "get_lock b1 k = Some l"
    using P Some by (auto simp: b1_def locks_same [OF same_del_deadline] intro: same [OF _ same_del_deadline])
  have w: "weaker l l1" by (simp add: l1_def)
  have "P (set_lock k (l1\<lparr>keepLocksAfterDeath := False, timestampEmptied := Some (now b)\<rparr>) b1)"
    "P (set_lock k (l1\<lparr>keepLocksAfterDeath := False\<rparr>) b1)"
    using w by (auto intro: weaken [OF b1])
  then show ?thesis
    using assms(1) Some
    by (auto simp: ensureNewLockHolder_def Let_def b1_def l1_def split: if_splits dest: P_drain)
qed (use assms in \<open>simp add: ensureNewLockHolder_def\<close>)

subsection \<open>Requests keep the property\<close>

lemma P_am_loop:
  "P b \<Longrightarrow> P (snd (snd (am_loop E ws pid ttl keep cid ks gs b)))"
proof (induction ks arbitrary: gs b)
  case (Cons k ks)
  let ?b0 = "ensure_lock E k keep b"
  have P0: "P ?b0" using Cons.prems by (rule P_ensure_lock)
  show ?case
  proof (cases "contended b k")
    case free: False
    show ?thesis
    proof (cases "get_lock ?b0 k")
      case (Some l)
      have room: "length (lockholders l) < max_holders l"
        using free Some
        by (cases "get_lock b k")
          (auto simp: contended_def ensure_lock_def create_lock_def getDefaultLockObject_def)
      obtain u t b1 where gm: "grant_member E ws pid ttl cid k l ?b0 = (u, t, b1)"
        by (rule prod_cases3)
      have "P b1" 
        using P_grant_member [OF P0 Some room_capacity [OF room], of ws pid ttl cid] gm by simp
      with free Some gm Cons.IH show ?thesis by (simp add: Let_def)
    qed (use P0 free in simp)
  qed (use Cons.prems in simp)
qed simp

lemma P_acquire_many_contended: "P b \<Longrightarrow> P (acquire_many_contended E r ws keys cid ttl k b)"
  by (auto simp: acquire_many_contended_def Let_def
      intro!: P_send P_with_lock P_queue_waiter P_ensure_lock)

lemma P_acquireMany: "P b \<Longrightarrow> P (acquireMany E r ws b)"
proof (cases "check_keys (a_keys r)")
  case (Inr keys)
  assume "P b"
  obtain ko gs b1 where am: "am_loop E ws (a_pid r) (many_ttl b (a_ttl r)) (a_keep r)
      (fresh_uuid E b) keys [] (next_uuid b) = (ko, gs, b1)"
    by (rule prod_cases3)
  have "P b1"
    using P_am_loop [OF same [OF \<open>P b\<close> same_next_uuid], of ws "a_pid r" "many_ttl b (a_ttl r)"
        "a_keep r" "fresh_uuid E b" keys "[]"] am by simp
  with Inr am show ?thesis
    by (auto simp: acquireMany_def Let_def split: option.splits
        intro: P_acquire_many_contended P_rollback_attempt same [OF _ same_register_composite])
qed (simp add: acquireMany_def P_send)

lemma P_release_member: "release_member E c k b = Some b' \<Longrightarrow> P b \<Longrightarrow> P b'"
  by (auto simp: release_member_def Let_def locks_same [OF same_del_deadline] split: option.splits if_splits
      elim!: P_ensureNewLockHolder intro!: weaken [OF same [OF _ same_del_deadline]])

lemma P_release_members: "release_members E c ks b = Some b' \<Longrightarrow> P b \<Longrightarrow> P b'"
  by (induction ks arbitrary: b) (auto elim!: P_bind dest: P_release_member)

lemma P_releaseMany: "releaseMany E r ws b = Some b' \<Longrightarrow> P b \<Longrightarrow> P b'"
  by (auto simp: releaseMany_def split: option.splits if_splits elim!: P_bind dest!: P_release_members
      intro!: P_send intro: same [OF _ same_grantsI])

lemma P_lock_acquire:
  "P b \<Longrightarrow> get_lock b (l_key r) = Some l \<Longrightarrow> guarded (l_key r) l \<Longrightarrow> P (lock_acquire E r ws ttl ln l b)"
  unfolding lock_acquire_def Let_def case_prod_beta
  by (rule P_send_grant) simp_all

lemma effective_guard:
  assumes "ok r" "effective_count r l < effective_max r l" "l = update_limits r l0"
  shows "guarded (l_key r) l"
  using assms effective_capacity guard_read guard_room by (cases "beginRead r") blast+

lemma P_lock_existing:
  assumes "P b" "ok r" "validateMaxField r = None" "get_lock b (l_key r) = Some l"
  shows "P (lock_existing E r ws ttl l b)"
proof -
  have "P (set_lock (l_key r) (update_limits r l) b)" by (rule limits [OF assms])
  then show ?thesis
    using effective_guard [OF assms(2) _ refl, of l]
    by (auto simp: lock_existing_def Let_def not_le intro!: P_lock_contended P_lock_acquire)
qed

lemma P_lock_new:
  assumes "P b" "ok r" "validateMaxField r = None" "get_lock b (l_key r) = None"
  shows "P (lock_new E r ws ttl b)"
proof -
  let ?b = "add_ws_key ws (l_key r) b"
  have "P ?b" by (rule same [OF assms(1) same_add_ws_key])
  moreover have "get_lock ?b (l_key r) = None"
    using assms(4) by (simp add: locks_same [OF same_add_ws_key])
  ultimately have "P (create_lock E (l_key r) (l_keep r)
      (if is_integer (l_max r) then Some (limit (l_max r)) else None)
      (if beginRead r then Some (case requested_limit (l_maxRead r) (l_max r) of
         None \<Rightarrow> 10 | Some m \<Rightarrow> m) else None)
      (if beginWrite r then Some (case requested_limit (l_maxWrite r) (l_max r) of
         None \<Rightarrow> 1 | Some m \<Rightarrow> m) else None) ?b)"
    using assms(2,3) by (intro create_req)
  then show ?thesis
    unfolding lock_new_def Let_def
    by (rule P_with_lock, intro P_lock_acquire guard_room)
      (auto simp: create_lock_def getDefaultLockObject_def max_capacity_def Let_def split: option.splits)
qed

lemma P_lock:
  assumes P: "P b" and ok: "ok r"
  shows "P (lock E r ws b)"
proof (cases "validateMaxField r")
  case valid: None
  define k where "k = l_key r"
  define b1 where "b1 = with_lock k (\<lambda>l b. set_lock k (l\<lparr>timestampEmptied := None\<rparr>) b) b"
  define b2 where "b2 = count_lock_request E b1"
  define b4 where "b4 = ensure_ws_keys ws (if l_uuid r \<noteq> [] then add_ws_uuid ws (l_uuid r) b2 else b2)"
  have s4: "same_grants b2 b4"
    by (auto simp: b4_def same_ensure_ws_keys intro: same_grants_trans [OF same_add_ws_uuid same_ensure_ws_keys])
  have "P b1" unfolding b1_def by (rule P_with_lock [OF P]) (auto intro: weaken [OF P])
  then have P4: "P b4" unfolding b2_def using same [OF P_count_lock_request s4 [unfolded b2_def]] by blast
  have "get_lock b1 k = None \<or> (\<exists>l. get_lock b1 k = Some l \<and> timestampEmptied l = None)"
    by (cases "get_lock b k") (auto simp: b1_def with_lock_def)
  then have l4: "get_lock b4 k = get_lock b1 k"
    using get_lock_count_lock_request locks_same [OF s4] b2_def by simp
  show ?thesis
    using valid P_lock_existing [OF P4 ok valid] P_lock_new [OF P4 ok valid] l4
    by (auto simp: lock_def Let_def k_def b1_def b2_def b4_def split: option.splits)
qed (simp add: lock_def P_send P)

end

end
