(* ===== verification/BrokerReach.thy ===== *)
theory BrokerReach
  imports BrokerInv
begin

text \<open>
  The second half of the safety proof: unlocking, the sweeper, the reader/writer operations,
  connections, the dispatcher and the step relation keep what a \<open>broker_invariant\<close> keeps.
\<close>

context broker_frame
begin

lemma P_reply_unlock: "P b \<Longrightarrow> (\<And>u. \<not> is_grant (f u)) \<Longrightarrow> P (reply_unlock wo r f b)"
  by (rule same [OF _ same_reply_unlock])

lemma P_release_own:
  "P b \<Longrightarrow> get_lock b k = Some l \<Longrightarrow> P (release_own k u l b)"
  unfolding release_own_def
  by (rule weaken [where l = l, OF same [OF _ same_del_deadline]])
    (simp_all add: locks_same [OF same_del_deadline])

lemma same_fold_del_deadline:
  "same_grants b (fold (\<lambda>(u, h) b. del_deadline u b) hs b)"
  by (rule same_fold) (auto simp: same_del_deadline)

lemma weaker_release_all:
  "weaker l0 l \<Longrightarrow> weaker l0 (l\<lparr>lockholdersAllReleased := S, lockholders := []\<rparr>)"
  by (simp add: weaker_def)

lemma P_release_all:
  "P b \<Longrightarrow> get_lock b k = Some l0 \<Longrightarrow> weaker l0 l \<Longrightarrow> P (release_all k l b)"
  unfolding release_all_def
  by (rule weaken [where l = l0, OF same [OF _ same_fold_del_deadline]])
    (simp_all add: locks_same [OF same_fold_del_deadline] weaker_release_all)

lemma P_deq5: "P b \<Longrightarrow> P (deq5 E k n b)"
  unfolding deq5_def
  by (rule P_with_lock) (auto split: prod.splits intro: same [OF weaken same_send_reelections])

lemma P_fire_reelection:
  assumes "P b"
  shows "P (fire_reelection E k b)"
proof -
  have "same_grants b (emit (Warn (Reelection k)) (clear_reelection k (del_ws_key ws k b)))" for ws
    by (rule same_grants_trans [OF same_grants_trans [OF same_del_ws_key same_clear_reelection] same_emit])
      simp
  from same [OF assms this] have start: "P (emit (Warn (Reelection k)) (clear_reelection k (del_ws_key ws k b)))" for ws .
  have body: "P (let hadHolder = map_of (lockholders l) u \<noteq> None; ln = lq_length E (notify l);
        l1 = remove_holder u l; b2 = set_lock k l1 b;
        b3 = (if hadHolder \<and> \<not> hash_has (rejected b) u \<and> map_of (lockholders l1) u = None
              \<and> \<not> lq_contains E u (notify l1) then deq5 E k ln b2 else b2)
      in deq5 E k ln b3)" if "P b" "get_lock b k = Some l" for b l u
  proof -
    have "P (set_lock k (remove_holder u l) b)" using that by (rule weaken) simp
    then show ?thesis by (simp add: Let_def P_deq5)
  qed
  show ?thesis
  proof (cases "map_of (timeouts b) k")
    case (Some r)
    show ?thesis
      unfolding fire_reelection_def Some option.case Let_def
      by (rule P_with_lock [OF start], rule body [unfolded Let_def, OF start])
  qed (use assms in \<open>simp add: fire_reelection_def\<close>)
qed

lemma P_run_listener: "P b \<Longrightarrow> P (run_listener k p b)"
  by (auto simp: run_listener_def run_fn_def Let_def split: listener_fn.splits
      intro!: P_send objects)

lemma P_fold: "P b \<Longrightarrow> (\<And>x b. P b \<Longrightarrow> P (f x b)) \<Longrightarrow> P (fold f xs b)"
  by (induction xs arbitrary: b) auto

lemma P_broadcast: "P b \<Longrightarrow> P (broadcast k uo wo b)"
proof -
  assume "P b"
  then have "P (fold (run_listener k) (rev (registeredListeners b k)) b)"
    by (rule P_fold) (rule P_run_listener)
  then show ?thesis
    by (auto simp: broadcast_def Let_def split: option.splits
        intro!: P_send intro: same [OF _ same_grantsI])
qed

lemma P_warn: "P b \<Longrightarrow> P (emit (Warn w) b)"
  by (simp add: P_emit)

lemma P_fields:
  "P b \<Longrightarrow> P (b\<lparr>destroyTimeout := d\<rparr>)" "P b \<Longrightarrow> P (b\<lparr>destroyTimeout := d, writable := w\<rparr>)"
  "P b \<Longrightarrow> P (b\<lparr>writable := w\<rparr>)"
  "P b \<Longrightarrow> P (b\<lparr>rejected := R\<rparr>)" "P b \<Longrightarrow> P (b\<lparr>now := t\<rparr>)"
  "P b \<Longrightarrow> P (b\<lparr>errorListener := e\<rparr>)" "P b \<Longrightarrow> P (b\<lparr>ttlSweeperHandle := h\<rparr>)"
  "P b \<Longrightarrow> P (b\<lparr>ttlSweepIntervalMs := i, ttlSweeperHandle := h\<rparr>)"
  by (erule same; simp add: same_grants_def)+

lemma P_retrieveLockInfo: "P b \<Longrightarrow> P (retrieveLockInfo E r ws b)"
  unfolding retrieveLockInfo_def Let_def by (rule P_send) (simp_all add: P_warn)

lemma P_inspect: "P b \<Longrightarrow> P (inspect c ws b)"
  by (cases c) (simp_all add: inspect_def P_send)

lemma P_lockGivenUp: "P b \<Longrightarrow> P (lockGivenUp E r b)"
  by (auto simp: lockGivenUp_def intro: P_emit weaken split: option.splits)

end

context broker_invariant
begin

subsection \<open>Unlocking and eviction\<close>

lemma P_unlock_matching:
  assumes "unlock_matching E r wo l b = Some b'" and P: "P b" and l: "get_lock b (u_key r) = Some l"
  shows "P b'"
proof -
  define b1 where "b1 = (if is_holder (u__uuid r) l
    then release_own (u_key r) (prop_name (u__uuid r)) l b else b)"
  obtain l1 where l1: "get_lock b1 (u_key r) = Some l1" "weaker l1 l"
    if "\<not> truthy_str (u__uuid r)" using l by (auto simp: b1_def is_holder_def)
  have P1: "P b1" using P P_release_own [OF P l] by (simp add: b1_def)
  have all: "P (release_all (u_key r) l b1)" if "\<not> truthy_str (u__uuid r)"
    using P_release_all [OF P1 l1] that by blast
  note ends = P_ensureNewLockHolder [OF _ P_reply_unlock]
  consider
      (everyone) "u_force r" "\<not> truthy_str (u__uuid r)"
    | (nobody) "u_force r" "truthy_str (u__uuid r)" "\<not> is_holder (u__uuid r) l"
    | (own) "\<not> u_force r \<or> truthy_str (u__uuid r) \<and> is_holder (u__uuid r) l"
    by blast
  then show ?thesis
  proof cases
    case everyone
    with assms(1) show ?thesis
      by (intro ends [OF _ all]) (simp add: unlock_matching_def Let_def b1_def, simp_all)
  next
    case nobody
    with assms(1) P show ?thesis
      by (auto simp: unlock_matching_def Let_def intro: P_reply_unlock)
  next
    case own
    then have "\<not> (u_force r \<and> \<not> truthy_str (u__uuid r))" "\<not> (u_force r \<and> \<not> is_holder (u__uuid r) l)"
      by (auto simp: is_holder_def)
    with assms(1) have "ensureNewLockHolder E (u_key r) (u__uuid r)
        (reply_unlock wo r (\<lambda>u. UnlockReply u (u_key r) (lq_length E (notify l)) True None) b1) = Some b'"
      unfolding unlock_matching_def Let_def b1_def by (simp only: if_False)
    then show ?thesis by (rule ends [OF _ P1]) simp
  qed
qed

lemma P_unlock_mismatch:
  assumes "unlock_mismatch E r wo l b = Some b'" and "P b" and "get_lock b (u_key r) = Some l"
  shows "P b'"
  using assms
  by (auto simp: unlock_mismatch_def Let_def split: if_splits dest!: P_ensureNewLockHolder
      intro!: P_reply_unlock P_emit weaken)

lemma P_unlock: "unlock E r wo b = Some b' \<Longrightarrow> P b \<Longrightarrow> P b'"
  using P_unlock_matching [of r wo _ "forget_ownership wo r b" b']
    P_unlock_mismatch [of r wo _ "forget_ownership wo r b" b']
    same [OF _ same_forget_ownership, of b wo r]
    same [OF same [OF _ same_forget_ownership] same_unlock_no_lock, of b r wo wo r]
  by (auto simp: unlock_def Let_def locks_same [OF same_forget_ownership] split: option.splits if_splits)

lemma P_evict_one: "evict_one E k u b = Some b' \<Longrightarrow> P b \<Longrightarrow> P b'"
proof -
  assume ev: "evict_one E k u b = Some b'" and "P b"
  then have P1: "P (del_deadline u b)" by (blast intro: same same_del_deadline)
  show "P b'"
  proof (cases "get_lock b k")
    case (Some l)
    then have "P (set_lock k ((remove_holder u l)\<lparr>lockholderTimeouts := S\<rparr>) (del_deadline u b))" for S
      by (intro weaken [where l = l, OF P1]) (simp_all add: locks_same [OF same_del_deadline])
    then have "P (emit (Warn w) ((set_lock k ((remove_holder u l)\<lparr>lockholderTimeouts := S\<rparr>)
        (del_deadline u b))\<lparr>ttlEvictionsTotal := n\<rparr>))" for S n w
      by (rule P_emit [OF same]) (simp_all add: same_grants_def)
    with ev Some P1 show ?thesis
      by (auto simp: evict_one_def Let_def locks_same [OF same_del_deadline] split: option.splits
          dest: P_ensureNewLockHolder)
  qed (use ev P1 in \<open>auto simp: evict_one_def locks_same [OF same_del_deadline]\<close>)
qed

lemma P_evict_all: "evict_all E es b = Some b' \<Longrightarrow> P b \<Longrightarrow> P b'"
proof (induction es arbitrary: b)
  case (Cons e es)
  then show ?case by (cases e) (auto dest: P_evict_one split: Option.bind_splits)
qed simp

lemma P_tickTtl: "tickTtl E t b = Some (n, b') \<Longrightarrow> P b \<Longrightarrow> P b'"
  by (auto simp: tickTtl_def dest: P_evict_all)

subsection \<open>Readers and writers\<close>

lemma P_incrementReaders: "P b \<Longrightarrow> P (incrementReaders E r ws b)"
  unfolding incrementReaders_def Let_def
  by (intro P_send P_with_lock P_ensure_lock) (auto intro!: weaken P_ensure_lock)

lemma P_setWriteFlagToFalseAndBroadcast: "P b \<Longrightarrow> P (setWriteFlagToFalseAndBroadcast E r ws b)"
  unfolding setWriteFlagToFalseAndBroadcast_def Let_def
  by (intro P_send P_broadcast P_with_lock P_ensure_lock) (auto intro!: weaken P_ensure_lock)

lemma P_decrementReaders: "P b \<Longrightarrow> P (decrementReaders E r ws b)"
  unfolding decrementReaders_def Let_def
  by (intro P_send P_with_lock P_ensure_lock) (auto intro!: P_broadcast weaken P_ensure_lock)

lemma P_registerWriteFlagAndReadersCheck:
  "P b \<Longrightarrow> P (registerWriteFlagAndReadersCheck E r ws b)"
  unfolding registerWriteFlagAndReadersCheck_def Let_def
  by (intro P_with_lock P_ensure_lock)
    (auto intro!: P_send weaken same [OF _ same_push_listener] P_ensure_lock)

lemma P_registerWriteFlagCheck: "P b \<Longrightarrow> P (registerWriteFlagCheck E r ws b)"
  unfolding registerWriteFlagCheck_def Let_def
  by (intro P_with_lock P_ensure_lock)
    (auto intro!: P_send same [OF _ same_push_listener] P_ensure_lock)

subsection \<open>Connections\<close>

lemma P_force_unlock_each: "force_unlock_each E ws k us b = Some b' \<Longrightarrow> P b \<Longrightarrow> P b'"
  by (induction us arbitrary: b) (auto dest: P_unlock split: Option.bind_splits)

lemma P_cleanup_key:
  assumes "cleanup_key E ws uuids k b = Some b'" and "P b"
  shows "P b'"
proof (cases "get_lock b k")
  case (Some l)
  have "P (set_lock k (l\<lparr>notify := q\<rparr>) b)" for q by (rule weaken [OF assms(2) Some]) simp
  then have "P (fold del_deadline us (set_lock k (l\<lparr>notify := q\<rparr>) b))" for us q
    by (rule P_fold) (rule same [OF _ same_del_deadline])
  from this [of "[]"] this assms(1) Some show ?thesis
    by (auto simp: cleanup_key_def Let_def split: if_splits dest: P_force_unlock_each)
qed (use assms in \<open>simp add: cleanup_key_def\<close>)

lemma P_cleanup_locks: "cleanup_locks E ws uuids i b = Some b' \<Longrightarrow> P b \<Longrightarrow> P b'"
proof -
  have "E0 = E \<longrightarrow> P b0 \<longrightarrow> P r" if "cleanup_locks E0 ws0 us i b0 = Some r" for E0 ws0 us i b0 r
    by (rule cleanup_locks.raw_induct [where P = "\<lambda>E0 ws us i b0 r. E0 = E \<longrightarrow> P b0 \<longrightarrow> P r", OF _ that])
      (auto split: if_splits Option.bind_splits dest: P_cleanup_key)
  then show "cleanup_locks E ws uuids i b = Some b' \<Longrightarrow> P b \<Longrightarrow> P b'" by blast
qed

lemma P_cleanupConnection:
  assumes "cleanupConnection E ws b = Some b'" and "P b"
  shows "P b'"
proof (cases "lmxClosed b ws")
  case False
  have "P (fold clear_reelection ks b1)" if "same_grants b b1" for ks b1
    by (rule P_fold [OF same [OF assms(2) that]]) (rule same [OF _ same_clear_reelection])
  then have "P (fold clear_reelection ks (b\<lparr>lmxClosed := x, connectedClients := c, wsToKeys := wk,
      wsToUUIDs := wu\<rparr>))" for ks x c wk wu
    by (simp add: same_grants_def)
  then show ?thesis
    using assms(1) False P_cleanup_locks by (simp add: cleanupConnection_def Let_def)
qed (use assms in \<open>simp add: cleanupConnection_def\<close>)

lemma P_on_socket_end: "on_socket_end E ws b = Some b' \<Longrightarrow> P b \<Longrightarrow> P b'"
  by (auto simp: on_socket_end_def intro: same [OF _ same_destroy_socket] dest: P_cleanupConnection)

lemma P_onVersion:
  assumes "onVersion E v ws b = Some b'" and "P b"
  shows "P b'"
proof (cases "compareVersions v (brokerVersion E)")
  case (Inl e)
  with assms(1) obtain b1 where b1: "cleanupConnection E ws b = Some b1"
    and b': "b' = (if errorListener b1
      then (let b2 = send ws (VersionMismatch v (brokerVersion E)) b1
            in b2\<lparr>destroyTimeout := (destroyTimeout b2)(ws := True)\<rparr>)
      else emit (Warn UncaughtError) b1)"
    by (auto simp: onVersion_def)
  from P_cleanupConnection [OF b1 assms(2)] show ?thesis
    by (simp add: b' Let_def P_emit P_send P_fields)
qed (use assms in \<open>simp add: onVersion_def\<close>)

lemma P_lockRejected:
  "lockRejected E r uo b = Some b' \<Longrightarrow> P b \<Longrightarrow> P b'"
  by (auto simp: lockRejected_def split: option.splits intro: P_emit P_fields dest!: P_ensureNewLockHolder)

subsection \<open>The step relation\<close>

fun request_ok :: "LMXRequest \<Rightarrow> bool" where
  "request_ok (LockReq r) = ok r"
| "request_ok _ = True"

lemma P_dispatchRequest:
  "dispatchRequest E r ws b = Some b' \<Longrightarrow> request_ok r \<Longrightarrow> P b \<Longrightarrow> P b'"
by (cases r)
  (auto simp: ls_def ping_def getSystemStats_def lockReceived_def abruptlyEndConnection_def
        abruptlyDestroyConnection_def destroy_socket_def
      intro: P_send P_emit P_lock P_acquireMany P_incrementReaders P_decrementReaders P_registerWriteFlagCheck
        P_registerWriteFlagAndReadersCheck P_setWriteFlagToFalseAndBroadcast P_lockGivenUp
        P_retrieveLockInfo P_fields same [OF _ same_clear_reelection]
      dest: P_onVersion P_unlock P_releaseMany P_lockRejected)

lemma request_ok_normalise: "request_ok r \<Longrightarrow> request_ok (normalise_request r)"
  by (cases r) (simp_all add: ok_ttl)

lemma P_onData:
  "onData E f ws b = Some b' \<Longrightarrow> (\<And>r. f = Request r \<Longrightarrow> request_ok r) \<Longrightarrow> P b \<Longrightarrow> P b'"
  by (auto simp: onData_def destroy_socket_def split: if_splits frame.splits
      intro: P_fields P_inspect P_send P_warn P_dispatchRequest request_ok_normalise)

lemma P_handle:
  assumes "handle E ev b = Some b'" and "\<And>r ws. ev = Frame (Request r) ws \<Longrightarrow> request_ok r" and "P b"
    and "ev = Close \<Longrightarrow> closing"
  shows "P b'"
proof (cases ev)
  case (Accept ws)
  with assms show ?thesis by (auto intro: same [OF _ same_accept_connection])
qed (use assms in \<open>auto simp: destroy_socket_def onError_def startTtlSweeper_def stopTtlSweeper_def
      intro: P_fields P_fire_reelection closed dest: P_onData P_on_socket_end P_tickTtl\<close>)

end

text \<open>The discipline on the events: every lock request satisfies \<open>ok\<close>.\<close>

fun disciplined :: "(lock_req \<Rightarrow> bool) \<Rightarrow> bevent \<Rightarrow> bool" where
  "disciplined ok (Frame (Request (LockReq r)) ws) = ok r"
| "disciplined ok _ = True"

context broker_invariant
begin

lemma request_ok_disciplined: "disciplined ok (Frame (Request r) ws) \<Longrightarrow> request_ok r"
  by (cases r) simp_all

lemma P_step: "handle E ev b = Some b' \<Longrightarrow> disciplined ok ev \<Longrightarrow> P b \<Longrightarrow> (ev = Close \<Longrightarrow> closing) \<Longrightarrow> P b'"
  by (rule P_handle) (auto dest: request_ok_disciplined)

lemma P_reachable: "reachable E (disciplined ok) b0 b \<Longrightarrow> P b0 \<Longrightarrow> closing \<Longrightarrow> P b"
  by (induction rule: reachable.induct) (auto intro: P_step)

end

end
