(* ===== verification/BrokerFence.thy ===== *)
theory BrokerFence
  imports BrokerReach
begin

text \<open>
  Fencing tokens. Every reachable state of the broker has well-formed lock objects, and the tokens
  minted for one lock object form a sequence that increases strictly for as long as the counter is
  below \<open>2 ^ 53\<close>, the point where JavaScript's increment stops.
\<close>

subsection \<open>The tokens of a lock object\<close>

fun tokens_of :: "nat \<Rightarrow> event list \<Rightarrow> int list" where
  "tokens_of i [] = []"
| "tokens_of i (Minted k j t # es) = (if j = i then t # tokens_of i es else tokens_of i es)"
| "tokens_of i (e # es) = tokens_of i es"

definition fence_less :: "int \<Rightarrow> int \<Rightarrow> bool" where
  "fence_less s t \<longleftrightarrow> s < t \<or> two53 \<le> t"

lemma tokens_of_append [simp]: "tokens_of i (xs @ ys) = tokens_of i xs @ tokens_of i ys"
  by (induction i xs rule: tokens_of.induct) auto

lemma tokens_of_mints [simp]: "tokens_of i (mints b) = tokens_of i (out b)"
proof -
  have "tokens_of i (filter is_mint es) = tokens_of i es" for es
    by (induction i es rule: tokens_of.induct) auto
  then show ?thesis by (simp add: mints_def)
qed

lemma fence_less_inc: "s \<le> n \<Longrightarrow> fence_less s (js_inc n)"
  by (auto simp: fence_less_def js_inc_def)

subsection \<open>The invariant\<close>

definition lock_ok :: "event list \<Rightarrow> nat \<Rightarrow> string \<Rightarrow> 'q lock_obj \<Rightarrow> bool" where
  "lock_ok es i k l \<longleftrightarrow>
     lo_key l = k \<and> lo_id l < i \<and> 1 \<le> max_holders l \<and> jsmap_wf (lockholders l) \<and>
     (\<forall>t \<in> set (tokens_of (lo_id l) es). t \<le> nextFencingToken l) \<and>
     (\<forall>(u, h) \<in> set (lockholders l). h_uuid h = u \<and> h_fencingToken h \<in> set (tokens_of (lo_id l) es)) \<and>
     (\<forall>(u, h) \<in> set (lockholders l). \<forall>(u', h') \<in> set (lockholders l).
        u = u' \<or> h_fencingToken h \<noteq> h_fencingToken h' \<or> two53 \<le> h_fencingToken h)"

definition fence_inv :: "'q broker \<Rightarrow> bool" where
  "fence_inv b \<longleftrightarrow>
     jsmap_wf (locks b) \<and>
     (\<forall>(k, l) \<in> set (locks b). lock_ok (mints b) (next_lo_id b) k l) \<and>
     (\<forall>(k, l) \<in> set (locks b). \<forall>(k', l') \<in> set (locks b). lo_id l = lo_id l' \<longrightarrow> k = k') \<and>
     (\<forall>i. sorted_wrt fence_less (tokens_of i (mints b))) \<and>
     (\<forall>i. next_lo_id b \<le> i \<longrightarrow> tokens_of i (mints b) = [])"

lemma fenceI:
  assumes "jsmap_wf (locks b)"
    and "\<And>k l. (k, l) \<in> set (locks b) \<Longrightarrow> lock_ok (mints b) (next_lo_id b) k l"
    and "\<And>k l k' l'. (k, l) \<in> set (locks b) \<Longrightarrow> (k', l') \<in> set (locks b) \<Longrightarrow>
        lo_id l = lo_id l' \<Longrightarrow> k = k'"
    and "\<And>i. sorted_wrt fence_less (tokens_of i (mints b))"
    and "\<And>i. next_lo_id b \<le> i \<Longrightarrow> tokens_of i (mints b) = []"
  shows "fence_inv b"
  using assms unfolding fence_inv_def by blast

lemma fenceD:
  assumes "fence_inv b"
  shows "jsmap_wf (locks b)"
    and "(k, l) \<in> set (locks b) \<Longrightarrow> lock_ok (mints b) (next_lo_id b) k l"
    and "(k, l) \<in> set (locks b) \<Longrightarrow> (k', l') \<in> set (locks b) \<Longrightarrow> lo_id l = lo_id l' \<Longrightarrow> k = k'"
    and "sorted_wrt fence_less (tokens_of i (mints b))"
    and "next_lo_id b \<le> i \<Longrightarrow> tokens_of i (mints b) = []"
  using assms unfolding fence_inv_def by blast+

lemma fence_lock_ok: "fence_inv b \<Longrightarrow> get_lock b k = Some l \<Longrightarrow> lock_ok (mints b) (next_lo_id b) k l"
  by (auto simp: fence_inv_def dest: map_of_SomeD)

lemma lock_ok_weaker: "lock_ok es i k l \<Longrightarrow> weaker l l' \<Longrightarrow> lock_ok es i k l'"
  unfolding lock_ok_def weaker_def by (auto 4 3)

lemma fence_same: "fence_inv b \<Longrightarrow> same_grants b b' \<Longrightarrow> fence_inv b'"
  by (simp add: fence_inv_def same_grants_def del: tokens_of_mints)

lemma fence_set_lock:
  assumes "fence_inv b" "get_lock b k = Some l" "lo_id l' = lo_id l"
    "lock_ok (mints b) (next_lo_id b) k l'"
  shows "fence_inv (set_lock k l' b)"
proof -
  have "(k, l) \<in> set (locks b)" using assms(2) by (rule map_of_SomeD)
  then show ?thesis
    using assms(1,3,4) unfolding fence_inv_def
    by (auto simp: set_lock_def set_update_wf)
qed

lemma fence_install:
  assumes inv: "fence_inv b" and l0: "get_lock b k = Some l0" and w: "weaker l0 l"
  shows "fence_inv (snd (install_holder k u ws pid cid e l b))"
proof -
  define t where "t = js_inc (nextFencingToken l)"
  define h where "h = \<lparr>h_pid = pid, h_ws = ws, h_uuid = u, h_fencingToken = t,
      h_compositeLockUuid = cid, h_expiresAt = e\<rparr>"
  define l' where "l' = l\<lparr>nextFencingToken := t, lockholders := AList.update u h (lockholders l)\<rparr>"
  define b' where "b' = emit (Minted k (lo_id l) t) (set_lock k l' b)"
  have res: "snd (install_holder k u ws pid cid e l b) = b'"
    by (simp add: install_holder_def Let_def t_def h_def l'_def b'_def)
  have ok: "lock_ok (mints b) (next_lo_id b) k l"
    using lock_ok_weaker [OF fence_lock_ok [OF inv l0] w] .
  have id: "lo_id l' = lo_id l0" "lo_id l = lo_id l0" using w by (simp_all add: l'_def weaker_def)
  have toks: "tokens_of i (mints b') = tokens_of i (mints b) @ (if i = lo_id l then [t] else [])" for i
    by (simp add: b'_def emit_def set_lock_def)
  have old: "s \<le> nextFencingToken l" if "s \<in> set (tokens_of (lo_id l) (mints b))" for s
    using ok that by (simp add: lock_ok_def)
  have mem: "(k, l0) \<in> set (locks b)" using l0 by (rule map_of_SomeD)
  have locks': "set (locks b') = insert (k, l') {p \<in> set (locks b). fst p \<noteq> k}"
    using inv by (simp add: b'_def emit_def set_lock_def set_update_wf fence_inv_def)
  have new: "lock_ok (mints b') (next_lo_id b') k l'"
  proof -
    have wf: "jsmap_wf (lockholders l)" using ok by (simp add: lock_ok_def)
    have fresh: "h_fencingToken g \<noteq> t \<or> two53 \<le> t" if "(v, g) \<in> set (lockholders l)" for v g
      using ok old that js_inc_less [of "nextFencingToken l"] js_inc_stuck [of "nextFencingToken l"]
      by (fastforce simp: lock_ok_def t_def not_le)
    have le: "nextFencingToken l \<le> t" by (simp add: t_def js_inc_ge)
    from ok fresh le show ?thesis
      unfolding lock_ok_def toks
      by (auto simp: l'_def h_def b'_def emit_def set_lock_def set_update_wf [OF wf]
          dest: old)
  qed
  have other: "lock_ok (mints b') (next_lo_id b') k' m" if "(k', m) \<in> set (locks b)" "k' \<noteq> k" for k' m
  proof -
    have "lo_id m \<noteq> lo_id l" using inv mem that id unfolding fence_inv_def by fastforce
    moreover have "lock_ok (mints b) (next_lo_id b) k' m" using inv that by (auto simp: fence_inv_def)
    ultimately show ?thesis
      unfolding lock_ok_def toks by (simp add: b'_def emit_def set_lock_def)
  qed
  have "fence_inv b'"
  proof (rule fenceI)
    show "jsmap_wf (locks b')" using fenceD(1) [OF inv] by (simp add: b'_def emit_def set_lock_def)
    show "lock_ok (mints b') (next_lo_id b') k' m" if "(k', m) \<in> set (locks b')" for k' m
      using that new other by (auto simp: locks')
    show "k1 = k2" if "(k1, l1) \<in> set (locks b')" "(k2, l2) \<in> set (locks b')" "lo_id l1 = lo_id l2"
      for k1 l1 k2 l2
      using that fenceD(3) [OF inv] fenceD(3) [OF inv mem] id unfolding locks' by auto
    show "sorted_wrt fence_less (tokens_of i (mints b'))" for i
    proof (cases "i = lo_id l")
      case True
      have "fence_less s t" if "s \<in> set (tokens_of (lo_id l) (mints b))" for s
        unfolding t_def using old [OF that] by (rule fence_less_inc)
      then show ?thesis using fenceD(4) [OF inv, of i] True toks [of i]
        by (simp add: sorted_wrt_snoc del: tokens_of_mints)
    qed (use fenceD(4) [OF inv, of i] toks [of i] in \<open>simp del: tokens_of_mints\<close>)
    show "tokens_of i (mints b') = []" if "next_lo_id b' \<le> i" for i
    proof -
      have n: "next_lo_id b' = next_lo_id b" by (simp add: b'_def)
      have "lo_id l < next_lo_id b" using ok by (simp add: lock_ok_def)
      with n that show ?thesis
        using toks [of i] fenceD(5) [OF inv, of i] by (simp del: tokens_of_mints)
    qed
  qed
  then show ?thesis by (simp only: res)
qed

lemma fence_create:
  assumes inv: "fence_inv b" and none: "get_lock b k = None"
  shows "fence_inv (create_lock E k keep mx mr mw b)"
proof -
  define l where "l = getDefaultLockObject E b k keep mx mr mw"
  define b' where "b' = create_lock E k keep mx mr mw b"
  have same: "mints b' = mints b" "next_lo_id b' = Suc (next_lo_id b)"
    by (simp_all add: b'_def create_lock_def)
  have absent: "k \<notin> fst ` set (locks b)" using none by (simp add: map_of_eq_None_iff)
  have locks': "set (locks b') = insert (k, l) (set (locks b))"
    using inv absent by (auto simp: b'_def create_lock_def set_lock_def l_def set_update_wf fence_inv_def)
  have "lock_ok (mints b') (next_lo_id b') k l"
    using inv by (simp add: lock_ok_def l_def getDefaultLockObject_def same fence_inv_def split: option.split)
  moreover have "lo_id l = next_lo_id b" by (simp add: l_def getDefaultLockObject_def)
  moreover have "jsmap_wf (locks b')"
    using inv by (simp add: b'_def create_lock_def set_lock_def fence_inv_def)
  moreover have "lock_ok (mints b') (next_lo_id b') k' m" "lo_id m \<noteq> next_lo_id b"
    if "(k', m) \<in> set (locks b)" for k' m
    using fenceD(2) [OF inv that] by (auto simp: lock_ok_def same simp del: tokens_of_mints)
  ultimately have "fence_inv b'"
    using fenceD(3-5) [OF inv] by (intro fenceI) (auto simp: locks' same simp del: tokens_of_mints dest: sym)
  then show ?thesis by (simp only: b'_def)
qed

lemma fence_map_locks:
  assumes inv: "fence_inv b" and w: "\<And>l. weaker l (g l)"
    and locks: "locks b' = map (\<lambda>(k, l). (k, g l)) (locks b)"
    and same: "mints b' = mints b" "next_lo_id b' = next_lo_id b"
  shows "fence_inv b'"
proof -
  have ids: "lo_id (g l) = lo_id l" for l using w [of l] by (simp add: weaker_def)
  have "map fst (locks b') = map fst (locks b)" by (simp add: locks case_prod_unfold comp_def)
  then have "jsmap_wf (locks b')" using fenceD(1) [OF inv] by simp
  then show ?thesis
    by (rule fenceI)
      (auto simp: same locks ids simp del: tokens_of_mints
        intro: lock_ok_weaker [OF _ w] fenceD [OF inv])
qed

lemma fence_filter_locks:
  assumes "fence_inv b" "locks b' = filter Q (locks b)" "mints b' = mints b" "next_lo_id b' = next_lo_id b"
  shows "fence_inv b'"
  using assms by (auto simp: fence_inv_def distinct_map_filter simp del: tokens_of_mints)

lemma mints_update_object [simp]: "mints (update_object i f b) = mints b"
  by (simp add: update_object_def)

lemma mints_fold_destroy [simp]: "mints (fold destroy_socket ws b) = mints b"
  by (induction ws arbitrary: b) (simp_all add: destroy_socket_def)

lemma next_lo_id_fold_destroy [simp]: "next_lo_id (fold destroy_socket ws b) = next_lo_id b"
  by (induction ws arbitrary: b) (simp_all add: destroy_socket_def)

lemma mints_close [simp]: "mints (close b) = mints b" "next_lo_id (close b) = next_lo_id b"
  by (simp_all add: close_def stopTtlSweeper_def Let_def)

lemma locks_close [simp]: "locks (close b) = []"
  by (simp add: close_def Let_def)

lemma fence_limits:
  "fence_inv b \<Longrightarrow> validateMaxField r = None \<Longrightarrow> get_lock b (l_key r) = Some l \<Longrightarrow>
   fence_inv (set_lock (l_key r) (update_limits r l) b)"
proof (rule fence_set_lock [where l = l])
  assume *: "fence_inv b" "validateMaxField r = None" "get_lock b (l_key r) = Some l"
  from *(2) have "\<not> bad_limit (l_max r)" by (simp add: validateMaxField_def split: if_splits)
  then have "is_integer (l_max r) \<longrightarrow> 1 \<le> limit (l_max r)"
    by (cases "l_max r") (simp_all add: bad_limit_def)
  with fence_lock_ok [OF *(1,3)]
  show "lock_ok (mints b) (next_lo_id b) (l_key r) (update_limits r l)"
    by (simp add: lock_ok_def)
qed simp_all

text \<open>Every handler, under no discipline on the requests, keeps the invariant.\<close>

interpretation fence: broker_invariant E fence_inv "\<lambda>r. True" True "\<lambda>k l. True" for E
proof unfold_locales
  show "fence_inv (set_lock k l' b)"
    if "fence_inv b" "get_lock b k = Some l" "weaker l l'" for b k l l'
    using that(1,2) _ lock_ok_weaker [OF fence_lock_ok [OF that(1,2)] that(3)]
    by (rule fence_set_lock) (use that(3) in \<open>simp add: weaker_def\<close>)
  show "fence_inv (emit (Sent ws rep) b)" if "fence_inv b" for b ws rep
    using that by (simp add: fence_inv_def lock_ok_def)
  show "fence_inv (cleanUpLocks E b)" if "fence_inv b" for b
    using that by (rule fence_filter_locks) (simp_all add: cleanUpLocks_def)
  show "fence_inv (update_object i f b)" if "fence_inv b" "\<And>l. weaker l (f l)" for b i f
    using that(1) by (rule fence_map_locks [where g = "\<lambda>l. if lo_id l = i then f l else l"])
      (use that in \<open>simp_all add: update_object_def\<close>)
  show "fence_inv (close b)" if "fence_inv b" for b
    using that by (rule fence_filter_locks [where Q = "\<lambda>p. False"]) simp_all
qed (auto intro: fence_same fence_create fence_install fence_limits)

lemma fence_init: "fence_inv (init_broker x t)"
  by (simp add: fence_inv_def init_broker_def mints_def)

lemma disciplined_True: "disciplined (\<lambda>r. True) = (\<lambda>ev. True)"
proof
  show "disciplined (\<lambda>r. True) ev = True" for ev
    by (induction "\<lambda>r :: lock_req. True" ev rule: disciplined.induct) simp_all
qed

lemma reachable_fence_inv: "reachable E (\<lambda>ev. True) (init_broker x t) b \<Longrightarrow> fence_inv b"
  using fence.P_reachable fence_init disciplined_True by metis

end
