(* ===== verification/BrokerCapacity.thy ===== *)
theory BrokerCapacity
  imports BrokerReach
begin

text \<open>
  Mutual exclusion: as long as the requests for a key ask for at most \<open>m\<close> concurrent holders and
  none of them is a \<open>BeginRead\<close> (whose limit the broker counts on the reader counter, not on the
  holders), the key never has more than \<open>m\<close> holders, whatever the order of grants, unlocks,
  composite attempts, evictions, re-elections and disconnections.
\<close>

definition within :: "string \<Rightarrow> nat \<Rightarrow> lock_req \<Rightarrow> bool" where
  "within k m r \<longleftrightarrow> (l_key r = k \<longrightarrow>
     \<not> beginRead r \<and> (is_integer (l_max r) \<longrightarrow> limit (l_max r) \<le> m) \<and>
     (is_integer (l_maxWrite r) \<longrightarrow> limit (l_maxWrite r) \<le> m))"

definition lock_within :: "nat \<Rightarrow> 'q lock_obj \<Rightarrow> bool" where
  "lock_within m l \<longleftrightarrow>
     maxRead l = None \<and> (\<forall>w. maxWrite l = Some w \<longrightarrow> w \<le> m) \<and> max_holders l \<le> m \<and>
     length (lockholders l) \<le> m"

definition cap_inv :: "string \<Rightarrow> nat \<Rightarrow> 'q broker \<Rightarrow> bool" where
  "cap_inv k m b \<longleftrightarrow> 1 \<le> m \<and> (\<forall>l. (k, l) \<in> set (locks b) \<longrightarrow> lock_within m l)"

lemma cap_set_lock:
  "cap_inv k m b \<Longrightarrow> (k' = k \<Longrightarrow> lock_within m l) \<Longrightarrow> cap_inv k m (set_lock k' l b)"
  using set_update_subset [of k' l "locks b"] by (auto simp: cap_inv_def set_lock_def)

lemma cap_get: "cap_inv k m b \<Longrightarrow> get_lock b k = Some l \<Longrightarrow> lock_within m l"
  by (auto simp: cap_inv_def dest: map_of_SomeD)

lemma cap_subset:
  "cap_inv k m b \<Longrightarrow> set (locks b') \<subseteq> set (locks b) \<Longrightarrow> cap_inv k m b'"
  by (auto simp: cap_inv_def)

lemma lock_within_weaker: "lock_within m l \<Longrightarrow> weaker l l' \<Longrightarrow> lock_within m l'"
  by (auto simp: lock_within_def weaker_def)

lemma max_capacity_within: "lock_within m l \<Longrightarrow> 1 \<le> m \<Longrightarrow> max_capacity l \<le> m"
  by (cases "maxWrite l") (auto simp: lock_within_def max_capacity_def Let_def)

lemma lock_within_limits:
  "lock_within m l \<Longrightarrow> within k m r \<Longrightarrow> l_key r = k \<Longrightarrow> 1 \<le> m \<Longrightarrow> lock_within m (update_limits r l)"
  by (auto simp: lock_within_def within_def update_limits_def set_legacy_max_def requested_limit_def
      split: if_splits)

lemma cap_install:
  assumes "cap_inv k m b" "get_lock b k' = Some l0" "weaker l0 l"
    "k' = k \<longrightarrow> length (lockholders l0) < max_capacity l0"
  shows "cap_inv k m (snd (install_holder k' u ws pid cid e l b))"
proof -
  have "lock_within m (l\<lparr>nextFencingToken := t, lockholders := AList.update u h (lockholders l)\<rparr>)"
    if "k' = k" for t h
  proof -
    have l0: "lock_within m l0" using cap_get assms(1,2) that by blast
    then have "max_capacity l0 \<le> m" using assms(1) max_capacity_within by (auto simp: cap_inv_def)
    then have "length (lockholders l) < m" using assms(3,4) that by (auto simp: weaker_def)
    then show ?thesis
      using lock_within_weaker [OF l0 assms(3)] length_update_le [of u h "lockholders l"]
      by (auto simp: lock_within_def)
  qed
  from cap_set_lock [OF assms(1) this] show ?thesis
    by (simp add: install_holder_def Let_def cap_inv_def)
qed

lemma cap_create:
  assumes "cap_inv k m b"
    and "k' = k \<Longrightarrow> mr = None \<and> (\<forall>w. mw = Some w \<longrightarrow> w \<le> m) \<and> (\<forall>x. mx = Some x \<longrightarrow> x \<le> m)"
  shows "cap_inv k m (create_lock E k' keep mx mr mw b)"
proof -
  have "cap_inv k m (b\<lparr>next_lo_id := n\<rparr>)" for n using assms(1) by (simp add: cap_inv_def)
  then show ?thesis
    unfolding create_lock_def
    by (rule cap_set_lock) (use assms in \<open>auto simp: lock_within_def getDefaultLockObject_def cap_inv_def
        split: option.split\<close>)
qed

interpretation capacity: broker_invariant E "cap_inv k m"
    "within k m" True "\<lambda>k' l. k' = k \<longrightarrow> length (lockholders l) < max_capacity l" for E k m
proof unfold_locales
  show "cap_inv k m b'" if "cap_inv k m b" "same_grants b b'" for b b'
    using that by (simp add: cap_inv_def same_grants_def)
  show "cap_inv k m (set_lock k' l' b)"
    if "cap_inv k m b" "get_lock b k' = Some l" "weaker l l'" for b k' l l'
    by (rule cap_set_lock) (use that cap_get lock_within_weaker in blast)+
  show "cap_inv k m (set_lock (l_key r) (update_limits r l) b)"
    if "cap_inv k m b" "within k m r" "validateMaxField r = None" "get_lock b (l_key r) = Some l" for b r l
  proof (rule cap_set_lock [OF that(1)])
    have "1 \<le> m" using that(1) by (simp add: cap_inv_def)
    then show "lock_within m (update_limits r l)" if "l_key r = k"
      using \<open>cap_inv k m b\<close> \<open>within k m r\<close> \<open>get_lock b (l_key r) = Some l\<close> that
      by (intro lock_within_limits) (auto intro: cap_get)
  qed
  show "cap_inv k m (cleanUpLocks E b)" if "cap_inv k m b" for b
    by (rule cap_subset [OF that]) (auto simp: cleanUpLocks_def)
  show "cap_inv k m (emit e b)" if "cap_inv k m b" for b e
    using that by (simp add: cap_inv_def)
  show "cap_inv k m (close b)" if "cap_inv k m b" for b
    using that by (simp add: cap_inv_def close_def Let_def)
  show "cap_inv k m (update_object i f b)" if "cap_inv k m b" "\<And>l. weaker l (f l)" for b i f
    using that lock_within_weaker by (fastforce simp: cap_inv_def update_object_def)
  show "cap_inv k m (create_lock E (l_key r) (l_keep r)
            (if is_integer (l_max r) then Some (limit (l_max r)) else None)
            (if beginRead r then Some (case requested_limit (l_maxRead r) (l_max r) of
               None \<Rightarrow> 10 | Some m \<Rightarrow> m) else None)
            (if beginWrite r then Some (case requested_limit (l_maxWrite r) (l_max r) of
               None \<Rightarrow> 1 | Some m \<Rightarrow> m) else None) b)"
    if "cap_inv k m b" "within k m r" for b r
    using that(1) by (rule cap_create)
      (use that in \<open>auto simp: within_def cap_inv_def requested_limit_def\<close>)
  show "cap_inv k m (create_lock E k' keep (Some 1) None None b)" if "cap_inv k m b" for b k' keep
    using that by (rule cap_create) (use that in \<open>auto simp: cap_inv_def\<close>)
  show "cap_inv k m (snd (install_holder k' u ws pid cid e l b))"
    if "cap_inv k m b" "get_lock b k' = Some l0" "weaker l0 l"
      "k' = k \<longrightarrow> length (lockholders l0) < max_capacity l0" for b k' l0 l u ws pid cid e
    using that by (rule cap_install)
qed (auto simp: within_def beginRead_def beginWrite_def)

lemma reachable_cap_inv:
  "reachable E (disciplined (within k m)) (init_broker x t) b \<Longrightarrow> 1 \<le> m \<Longrightarrow> cap_inv k m b"
  by (erule capacity.P_reachable) (simp_all add: cap_inv_def init_broker_def)

end
