(* ===== verification/BrokerDrain.thy ===== *)
theory BrokerDrain
  imports BrokerInv
begin

text \<open>
  The drain of a key's waiters: which waiter the inner loop picks, when the outer loop ends and in
  what state, and when it does not end at all.
\<close>

subsection \<open>Lock objects under grants and rollbacks\<close>

text \<open>What granting and rolling back leave of a lock object: its queue and its limits.\<close>

definition same_shape :: "'q lock_obj \<Rightarrow> 'q lock_obj \<Rightarrow> bool" where
  "same_shape l l' \<longleftrightarrow> notify l' = notify l \<and> max_holders l' = max_holders l \<and>
     maxRead l' = maxRead l \<and> maxWrite l' = maxWrite l"

definition keeps_shape :: "string \<Rightarrow> 'q broker \<Rightarrow> 'q broker \<Rightarrow> bool" where
  "keeps_shape k b b' \<longleftrightarrow> (\<forall>l. get_lock b k = Some l \<longrightarrow>
     (\<exists>l'. get_lock b' k = Some l' \<and> same_shape l l'))"

lemma same_shape_refl [simp]: "same_shape l l"
  by (simp add: same_shape_def)

lemma keeps_shape_refl [simp]: "keeps_shape k b b"
  by (simp add: keeps_shape_def)

lemma max_capacity_same_shape: "same_shape l l' \<Longrightarrow> max_capacity l' = max_capacity l"
  by (simp only: same_shape_def max_capacity_def)

lemma keeps_shape_trans: "keeps_shape k a b \<Longrightarrow> keeps_shape k b c \<Longrightarrow> keeps_shape k a c"
  unfolding keeps_shape_def same_shape_def by metis

lemma keeps_shape_locks: "locks b' = locks b \<Longrightarrow> keeps_shape k b b'"
  by (simp add: keeps_shape_def)

lemma keeps_shape_set_lock:
  "get_lock b k' = Some l \<Longrightarrow> locks b' = locks b \<Longrightarrow> same_shape l l' \<Longrightarrow> keeps_shape k b (set_lock k' l' b')"
  by (auto simp: keeps_shape_def set_lock_def)

lemma get_lock_install_holder [simp]:
  "get_lock (snd (install_holder k u ws pid cid e l b)) k' =
     (if k' = k then Some (l\<lparr>nextFencingToken := js_inc (nextFencingToken l),
        lockholders := AList.update u \<lparr>h_pid = pid, h_ws = ws, h_uuid = u,
          h_fencingToken = js_inc (nextFencingToken l), h_compositeLockUuid = cid, h_expiresAt = e\<rparr>
          (lockholders l)\<rparr>)
      else get_lock b k')"
  by (simp add: install_holder_def Let_def)

lemma keeps_shape_grant_member:
  "get_lock b k' = Some l \<Longrightarrow> keeps_shape k b (snd (snd (grant_member E ws pid ttl cid k' l b)))"
  by (auto simp: grant_member_def Let_def case_prod_beta keeps_shape_def same_shape_def
      locks_same [OF same_add_ws_key] locks_same [OF same_scheduleDeadline] locks_same [OF same_next_uuid])

lemma get_lock_grant_member:
  "k \<noteq> k' \<Longrightarrow> get_lock (snd (snd (grant_member E ws pid ttl cid k' l b))) k = get_lock b k"
  by (auto simp: grant_member_def Let_def case_prod_beta
      locks_same [OF same_add_ws_key] locks_same [OF same_scheduleDeadline] locks_same [OF same_next_uuid])

lemma keeps_shape_ensure_lock [simp]: "keeps_shape k b (ensure_lock E k' keep b)"
  by (auto simp: keeps_shape_def ensure_lock_def create_lock_def split: option.split)

lemma get_lock_ensure_lock:
  "get_lock b k = Some l \<Longrightarrow> get_lock (ensure_lock E k' keep b) k = Some l"
  by (auto simp: ensure_lock_def create_lock_def split: option.split)

lemma ensure_lock_exists: "\<exists>l. get_lock (ensure_lock E k keep b) k = Some l"
  by (auto simp: ensure_lock_def create_lock_def split: option.split)

lemma keeps_shape_rollback_grants: "keeps_shape k b (rollback_grants gs b)"
proof (induction gs arbitrary: b)
  case (Cons g gs)
  obtain k' u t where g: "g = (k', u, t)" by (cases g)
  have "keeps_shape k b (with_lock k' (\<lambda>l b. set_lock k' (l\<lparr>lockholders := AList.delete u (lockholders l)\<rparr>)
                 (del_deadline u b)) b)"
    by (auto simp: with_lock_def same_shape_def locks_same [OF same_del_deadline]
        intro: keeps_shape_set_lock split: option.split)
  from keeps_shape_trans [OF this Cons.IH] Cons.IH show ?case by (simp add: g)
qed simp

lemma keeps_shape_tg_loop:
  "keeps_shape k b (snd (snd (tg_loop E ws pid ttl keep cid ks gs b)))"
proof (induction ks arbitrary: gs b)
  case (Cons k' ks)
  let ?b0 = "ensure_lock E k' keep b"
  obtain l where l: "get_lock ?b0 k' = Some l" using ensure_lock_exists by blast
  obtain u t b1 where gm: "grant_member E ws pid ttl cid k' l ?b0 = (u, t, b1)" by (rule prod_cases3)
  have "keeps_shape k ?b0 b1" using keeps_shape_grant_member [OF l, of k E ws pid ttl cid] gm by simp
  then have "keeps_shape k b b1" by (rule keeps_shape_trans [OF keeps_shape_ensure_lock])
  with Cons.IH show ?case
    by (cases "max_holders l \<le> length (lockholders l)")
      (auto simp: l gm Let_def intro: keeps_shape_trans)
qed simp

text \<open>A key that has room is not the contended one, as long as it is listed once.\<close>

lemma tg_loop_contended:
  assumes "tg_loop E ws pid ttl keep cid ks gs b = (Some kc, gs', b')" "distinct ks"
    and "get_lock b k = Some l" "length (lockholders l) < max_holders l"
  shows "kc \<noteq> k"
  using assms
proof (induction ks arbitrary: gs b)
  case (Cons k' ks)
  let ?b0 = "ensure_lock E k' keep b"
  obtain l' where l': "get_lock ?b0 k' = Some l'" using ensure_lock_exists by blast
  obtain u t b1 where gm: "grant_member E ws pid ttl cid k' l' ?b0 = (u, t, b1)" by (rule prod_cases3)
  have lk: "get_lock ?b0 k = Some l" using Cons.prems(3) by (rule get_lock_ensure_lock)
  show ?case
  proof (cases "k' = k")
    case True
    with lk l' have "l' = l" by simp
    moreover have "kc \<noteq> k" if "tg_loop E ws pid ttl keep cid ks gs1 b1 = (Some kc, gs', b')" for gs1
    proof -
      have "kc \<in> set xs" if "tg_loop E ws pid ttl keep cid xs gs1 b1 = (Some kc, gs', b')" for xs gs1 b1
        using that by (induction xs arbitrary: gs1 b1)
          (auto simp: Let_def split: option.splits if_splits prod.splits)
      with that Cons.prems(2) True show ?thesis by auto
    qed
    ultimately show ?thesis
      using Cons.prems(1,4) l' gm by (auto simp: Let_def)
  next
    case False
    then have "get_lock b1 k = Some l"
      using get_lock_grant_member [of k k' E ws pid ttl cid l' ?b0] gm lk by simp
    with Cons.IH [of _ b1] Cons.prems l' gm False show ?thesis
      by (auto simp: Let_def split: if_splits)
  qed
qed simp

lemma tryGrant_shape:
  assumes "get_lock b k = Some l" "length (lockholders l) < max_holders l"
    and "\<And>ks cid. n_acquireMany n = Some (ks, cid) \<Longrightarrow> distinct ks"
  shows "keeps_shape k b (tryGrantAcquireManyFromQueue E n b)"
proof (cases "n_acquireMany n")
  case (Some m)
  then obtain ks cid where m: "n_acquireMany n = Some (ks, cid)" by (cases m) auto
  obtain ko gs b1 where tg: "tg_loop E (n_ws n) (n_pid n) (n_ttl n) (n_keep n) cid ks [] b = (ko, gs, b1)"
    by (rule prod_cases3)
  have b1: "keeps_shape k b b1" using keeps_shape_tg_loop [of k b] tg by (metis snd_conv)
  show ?thesis
  proof (cases ko)
    case None
    then show ?thesis using m tg b1
      by (simp add: tryGrantAcquireManyFromQueue_def keeps_shape_def locks_same [OF same_register_composite])
  next
    case kc: (Some kc)
    have ne: "kc \<noteq> k" using tg_loop_contended [OF tg [unfolded kc] assms(3) [OF m] assms(1,2)] .
    have "keeps_shape k c (with_lock kc (queue_waiter E kc n) c)" for c
      using ne by (auto simp: with_lock_def queue_waiter_def keeps_shape_def split: option.split)
    then have "keeps_shape k b (with_lock kc (queue_waiter E kc n)
        (ensure_lock E kc (n_keep n) (rollback_grants gs b1)))"
      by (rule keeps_shape_trans [OF b1 keeps_shape_trans [OF keeps_shape_rollback_grants
          keeps_shape_trans [OF keeps_shape_ensure_lock]]])
    then show ?thesis using m tg kc by (simp add: tryGrantAcquireManyFromQueue_def Let_def)
  qed
qed (simp add: tryGrantAcquireManyFromQueue_def)

lemma keeps_shape_grant_waiter:
  "get_lock b k = Some l \<Longrightarrow> keeps_shape k b (grant_waiter E k n l b)"
  by (auto simp: grant_waiter_def grantLock_def Let_def case_prod_beta keeps_shape_def same_shape_def
      locks_same [OF same_arm_reelection] locks_send locks_same [OF same_add_ws_key]
      locks_same [OF same_scheduleDeadline])

subsection \<open>The waiter the inner loop picks\<close>

definition reachable_waiters :: "(sock \<Rightarrow> bool) \<Rightarrow> (string \<times> notify_obj) list \<Rightarrow> (string \<times> notify_obj) list" where
  "reachable_waiters w ps = dropWhile (\<lambda>p. \<not> w (n_ws (snd p))) ps"

text \<open>With no writable waiter left, the loop ends with the last one it dequeued.\<close>

definition picked :: "(sock \<Rightarrow> bool) \<Rightarrow> (string \<times> notify_obj) list \<Rightarrow> notify_obj option \<Rightarrow> notify_obj option" where
  "picked w ps n = (case reachable_waiters w ps of
     p # _ \<Rightarrow> Some (snd p)
   | [] \<Rightarrow> if ps = [] then n else Some (snd (last ps)))"

text \<open>Every composite request in the queue of a key lists its keys once.\<close>

definition sound_waiters :: "('q \<Rightarrow> (string \<times> notify_obj) list) \<Rightarrow> 'q lock_obj \<Rightarrow> bool" where
  "sound_waiters contents l \<longleftrightarrow>
     (\<forall>(u, n) \<in> set (contents (notify l)). \<forall>ks cid. n_acquireMany n = Some (ks, cid) \<longrightarrow> distinct ks)"

text \<open>
  A composite waiter alone in the queue of its own first key, when that key holds at least \<open>max\<close>
  but fewer than its reader or writer limit.
\<close>

definition spinning ::
  "('q \<Rightarrow> (string \<times> notify_obj) list) \<Rightarrow> string \<Rightarrow> notify_obj \<Rightarrow> 'q broker \<Rightarrow> bool" where
  "spinning contents k n b =
     (case get_lock b k of
        None \<Rightarrow> False
      | Some l \<Rightarrow> contents (notify l) = [(n_uuid n, n)] \<and> writable b (n_ws n) \<and>
          max_holders l \<le> length (lockholders l) \<and> length (lockholders l) < max_capacity l)"

locale waiter_queue = linked_queue E contents
  for E :: "'q ext" and contents :: "'q \<Rightarrow> (string \<times> notify_obj) list"
begin

lemma next_waiter_spec:
  "\<exists>q'. next_waiter E w q n = Some (picked w (contents q) n, q') \<and>
        contents q' = tl (reachable_waiters w (contents q))"
proof (induction "contents q" arbitrary: q n)
  case Nil
  obtain q' where "lq_dequeue E q = (None, q')" "contents q' = []"
    using dequeue_Nil [of q] contents_dequeue_Nil [of q] Nil by (cases "lq_dequeue E q") auto
  then show ?case
    using Nil by (subst next_waiter.simps) (simp add: picked_def reachable_waiters_def)
next
  case (Cons p ps)
  obtain po q1 where "lq_dequeue E q = (po, q1)" by (cases "lq_dequeue E q")
  then have q1: "lq_dequeue E q = (Some p, q1)" "contents q1 = ps"
    using dequeue_Cons [OF Cons(2) [symmetric]] contents_dequeue_Cons [OF Cons(2) [symmetric]] by simp_all
  obtain k m where p: "p = (k, m)" by (cases p)
  show ?case
  proof (cases "w (n_ws m)")
    case True
    then show ?thesis
      using q1 Cons(2) [symmetric] p
      by (subst next_waiter.simps) (simp add: picked_def reachable_waiters_def)
  next
    case False
    have "next_waiter E w q n = next_waiter E w q1 (Some m)"
      using q1 p False by (subst next_waiter.simps) simp
    with Cons(1) [of q1 "Some m"] q1(2) Cons(2) [symmetric] p False show ?thesis
      by (cases "ps = []"; cases "dropWhile (\<lambda>p. \<not> w (n_ws (snd p))) ps")
        (simp_all add: picked_def reachable_waiters_def del: dropWhile_eq_Nil_conv)
  qed
qed

lemma picked_waiter:
  assumes "picked w ps None = Some n"
  shows "\<exists>u. (u, n) \<in> set ps" and "length (tl (reachable_waiters w ps)) < length ps"
    and "set (tl (reachable_waiters w ps)) \<subseteq> set ps"
proof -
  have ps: "ps \<noteq> []" using assms by (auto simp: picked_def reachable_waiters_def)
  show "\<exists>u. (u, n) \<in> set ps"
  proof (cases "reachable_waiters w ps")
    case Nil
    with assms ps have "n = snd (last ps)" by (simp add: picked_def)
    with ps show ?thesis by (metis last_in_set prod.collapse)
  next
    case (Cons p rs)
    with assms have "n = snd p" by (simp add: picked_def)
    moreover have "p \<in> set ps"
      using Cons dropWhile_not_Nil_split unfolding reachable_waiters_def by fast
    ultimately show ?thesis by (metis prod.collapse)
  qed
  have "length (reachable_waiters w ps) \<le> length ps"
    unfolding reachable_waiters_def by (rule length_dropWhile_le)
  with ps show "length (tl (reachable_waiters w ps)) < length ps"
    by (cases ps) auto
  show "set (tl (reachable_waiters w ps)) \<subseteq> set ps"
  proof (cases "reachable_waiters w ps")
    case (Cons p rs)
    with dropWhile_not_Nil_split [OF this [unfolded reachable_waiters_def]] show ?thesis by simp
  qed simp
qed

subsection \<open>Termination\<close>

lemma sound_waiters_simps [simp]:
  "sound_waiters c (l\<lparr>lockholders := hs\<rparr>) = sound_waiters c l"
  "sound_waiters c (l\<lparr>lockholdersAllReleased := S\<rparr>) = sound_waiters c l"
  "sound_waiters c (l\<lparr>lockholderTimeouts := S\<rparr>) = sound_waiters c l"
  "sound_waiters c (remove_holder u l) = sound_waiters c l"
  by (simp_all add: sound_waiters_def)

lemma sound_waiters_mono:
  "sound_waiters contents l \<Longrightarrow> set (contents (notify l')) \<subseteq> set (contents (notify l)) \<Longrightarrow> sound_waiters contents l'"
  unfolding sound_waiters_def by blast

text \<open>
  The drain ends when the capacity it compares with is the limit the composite attempts compare
  with: every round then takes one waiter off the queue for good.
\<close>

lemma drain_terminates:
  assumes "get_lock b k = Some l" "max_capacity l \<le> max_holders l" "sound_waiters contents l"
  shows "\<exists>b'. drain E k b = Some b'"
  using assms
proof (induction "length (contents (notify l))" arbitrary: b l rule: less_induct)
  case less
  note lk = less.prems(1) and cap = less.prems(2) and sound = less.prems(3)
  obtain q where nw: "next_waiter E (writable b) (notify l) None =
      Some (picked (writable b) (contents (notify l)) None, q)"
    and q: "contents q = tl (reachable_waiters (writable b) (contents (notify l)))"
    using next_waiter_spec by blast
  let ?l1 = "l\<lparr>notify := q\<rparr>" and ?b1 = "set_lock k (l\<lparr>notify := q\<rparr>) b"
  show ?case
  proof (cases "lq_length E (notify l) = 0 \<or> max_capacity l \<le> length (lockholders l)")
    case True
    then show ?thesis by (subst drain.simps) (simp add: lk)
  next
    case room: False
    show ?thesis
    proof (cases "picked (writable b) (contents (notify l)) None")
      case None
      with nw room show ?thesis by (subst drain.simps) (simp add: lk)
    next
      case (Some n)
      note n = picked_waiter [OF Some]
      have again: "\<exists>b'. drain E k b2 = Some b'" if "keeps_shape k ?b1 b2" for b2
      proof -
        have "\<exists>l2. get_lock b2 k = Some l2 \<and> same_shape ?l1 l2"
          using that by (simp add: keeps_shape_def)
        then obtain l2 where l2: "get_lock b2 k = Some l2" "same_shape ?l1 l2" by blast
        show ?thesis
        proof (rule less.hyps [OF _ l2(1)])
          show "length (contents (notify l2)) < length (contents (notify l))"
            using l2(2) n(2) q by (simp add: same_shape_def)
          show "max_capacity l2 \<le> max_holders l2"
            using l2(2) cap max_capacity_same_shape [OF l2(2)] by (simp add: same_shape_def)
          show "sound_waiters contents l2"
            by (rule sound_waiters_mono [OF sound]) (use l2(2) n(3) q in \<open>simp add: same_shape_def\<close>)
        qed
      qed
      have distinct: "distinct ks" if "n_acquireMany n = Some (ks, cid)" for ks cid
        using sound n(1) that unfolding sound_waiters_def by blast
      have "keeps_shape k ?b1 (tryGrantAcquireManyFromQueue E n ?b1)"
        by (rule tryGrant_shape [where l = ?l1]) (use room cap distinct in auto)
      moreover have "keeps_shape k ?b1 (grant_waiter E k n ?l1 ?b1)"
        by (rule keeps_shape_grant_waiter) simp
      ultimately show ?thesis
        using nw Some room again by (subst drain.simps) (simp add: lk Let_def)
    qed
  qed
qed

text \<open>When it returns, nobody is left waiting for a slot that is free.\<close>

lemma drain_saturates:
  assumes "drain E k b = Some b'" "get_lock b' k = Some l"
  shows "contents (notify l) = [] \<or> max_capacity l \<le> length (lockholders l)"
proof -
  let ?post = "\<lambda>r. \<forall>l. get_lock r k = Some l \<longrightarrow>
      contents (notify l) = [] \<or> max_capacity l \<le> length (lockholders l)"
  have "E0 = E \<longrightarrow> k0 = k \<longrightarrow> ?post r" if "drain E0 k0 b0 = Some r" for E0 k0 b0 r
  proof (rule drain.raw_induct [where P = "\<lambda>E0 k0 b0 r. E0 = E \<longrightarrow> k0 = k \<longrightarrow> ?post r", OF _ that],
      intro impI)
    fix f E0 k0 b0 r
    assume IH: "\<And>E0 k0 b0 r. f E0 k0 b0 = Some r \<Longrightarrow> E0 = E \<longrightarrow> k0 = k \<longrightarrow> ?post r"
      and eq: "(case get_lock b0 k0 of None \<Rightarrow> Some b0
        | Some l \<Rightarrow>
            if lq_length E0 (notify l) = 0 \<or> max_capacity l \<le> length (lockholders l) then Some b0
            else (case next_waiter E0 (writable b0) (notify l) None of None \<Rightarrow> None
              | Some (None, q) \<Rightarrow> Some (set_lock k0 (l\<lparr>notify := q\<rparr>) b0)
              | Some (Some n, q) \<Rightarrow>
                  let l1 = l\<lparr>notify := q\<rparr>; b1 = set_lock k0 l1 b0
                  in if max_capacity l1 \<le> length (lockholders l1)
                     then Some (set_lock k0 (l1\<lparr>notify := lq_enqueue E0 (n_uuid n) n q\<rparr>) b1)
                     else if n_acquireMany n \<noteq> None
                     then f E0 k0 (tryGrantAcquireManyFromQueue E0 n b1)
                     else f E0 k0 (grant_waiter E0 k0 n l1 b1))) = Some r"
      and E0: "E0 = E" and k0: "k0 = k"
    show "?post r"
    proof (cases "get_lock b0 k")
      case (Some l)
      show ?thesis
      proof (cases "lq_length E (notify l) = 0 \<or> max_capacity l \<le> length (lockholders l)")
        case True
        with eq Some E0 k0 show ?thesis by (auto simp: length_contents)
      next
        case room: False
        obtain no q where nw: "next_waiter E (writable b0) (notify l) None = Some (no, q)"
          and q: "contents q = tl (reachable_waiters (writable b0) (contents (notify l)))"
          and no: "no = picked (writable b0) (contents (notify l)) None"
          using next_waiter_spec by blast
        show ?thesis
        proof (cases no)
          case None
          with no have "contents (notify l) = []"
            by (auto simp: picked_def split: list.splits if_splits)
          with room show ?thesis by (simp add: length_contents)
        next
          case n: (Some n)
          let ?b1 = "set_lock k (l\<lparr>notify := q\<rparr>) b0"
          have "(if n_acquireMany n \<noteq> None then f E k (tryGrantAcquireManyFromQueue E n ?b1)
              else f E k (grant_waiter E k n (l\<lparr>notify := q\<rparr>) ?b1)) = Some r"
            using eq Some E0 k0 room nw n by (simp add: Let_def split: if_splits)
          then show ?thesis using IH E0 k0 by (metis (full_types))
        qed
      qed
    qed (use eq E0 k0 in simp)
  qed
  with assms show ?thesis by blast
qed

subsection \<open>Divergence\<close>

text \<open>
  The attempt finds the key contended and queues the request where it was, and the loop starts
  over.
\<close>

lemma spinning_step:
  assumes "spinning contents k n b" and m: "n_acquireMany n = Some (k # ks, cid)"
  shows "\<exists>l q. get_lock b k = Some l \<and> lq_length E (notify l) \<noteq> 0 \<and>
    length (lockholders l) < max_capacity l \<and>
    next_waiter E (writable b) (notify l) None = Some (Some n, q) \<and>
    spinning contents k n (tryGrantAcquireManyFromQueue E n (set_lock k (l\<lparr>notify := q\<rparr>) b))"
proof -
  from assms(1) obtain l where l: "get_lock b k = Some l" "contents (notify l) = [(n_uuid n, n)]"
    "writable b (n_ws n)" "max_holders l \<le> length (lockholders l)" "length (lockholders l) < max_capacity l"
    by (auto simp: spinning_def split: option.splits)
  obtain q where nw: "next_waiter E (writable b) (notify l) None = Some (Some n, q)" and q: "contents q = []"
    using next_waiter_spec [of "writable b" "notify l" None] l(2,3)
    by (auto simp: picked_def reachable_waiters_def)
  have none: "lq_get E (n_uuid n) q = None" using q by (simp add: get_None_iff)
  then have "contents (lq_enqueue E (n_uuid n) n q) = [(n_uuid n, n)]"
    using q by (simp add: contents_enqueue)
  then have "spinning contents k n (tryGrantAcquireManyFromQueue E n (set_lock k (l\<lparr>notify := q\<rparr>) b))"
    using l m none
    by (simp add: tryGrantAcquireManyFromQueue_def ensure_lock_def Let_def with_lock_def queue_waiter_def
        spinning_def) (simp add: set_lock_def)
  with l nw show ?thesis by (simp add: length_contents)
qed

lemma drain_spins:
  assumes "spinning contents k n b" and m: "n_acquireMany n = Some (k # ks, cid)"
  shows "drain E k b = None"
proof -
  have "E0 = E \<longrightarrow> k0 = k \<longrightarrow> \<not> spinning contents k n b0" if "drain E0 k0 b0 = Some r" for E0 k0 b0 r
  proof (rule drain.raw_induct [where P = "\<lambda>E0 k0 b0 r. E0 = E \<longrightarrow> k0 = k \<longrightarrow> \<not> spinning contents k n b0", OF _ that],
      intro impI notI)
    fix f E0 k0 b0 r
    assume IH: "\<And>E0 k0 b0 r. f E0 k0 b0 = Some r \<Longrightarrow> E0 = E \<longrightarrow> k0 = k \<longrightarrow> \<not> spinning contents k n b0"
      and eq: "(case get_lock b0 k0 of None \<Rightarrow> Some b0
        | Some l \<Rightarrow>
            if lq_length E0 (notify l) = 0 \<or> max_capacity l \<le> length (lockholders l) then Some b0
            else (case next_waiter E0 (writable b0) (notify l) None of None \<Rightarrow> None
              | Some (None, q) \<Rightarrow> Some (set_lock k0 (l\<lparr>notify := q\<rparr>) b0)
              | Some (Some n, q) \<Rightarrow>
                  let l1 = l\<lparr>notify := q\<rparr>; b1 = set_lock k0 l1 b0
                  in if max_capacity l1 \<le> length (lockholders l1)
                     then Some (set_lock k0 (l1\<lparr>notify := lq_enqueue E0 (n_uuid n) n q\<rparr>) b1)
                     else if n_acquireMany n \<noteq> None
                     then f E0 k0 (tryGrantAcquireManyFromQueue E0 n b1)
                     else f E0 k0 (grant_waiter E0 k0 n l1 b1))) = Some r"
      and E0: "E0 = E" and k0: "k0 = k" and sp: "spinning contents k n b0"
    from spinning_step [OF sp m] obtain l q where *: "get_lock b0 k = Some l" "lq_length E (notify l) \<noteq> 0"
      "length (lockholders l) < max_capacity l"
      "next_waiter E (writable b0) (notify l) None = Some (Some n, q)"
      "spinning contents k n (tryGrantAcquireManyFromQueue E n (set_lock k (l\<lparr>notify := q\<rparr>) b0))"
      by blast
    from eq have "f E k (tryGrantAcquireManyFromQueue E n (set_lock k (l\<lparr>notify := q\<rparr>) b0)) = Some r"
      using * E0 k0 m by (simp add: Let_def)
    with IH *(5) show False by blast
  qed
  with assms(1) show ?thesis by (cases "drain E k b") blast+
qed

subsection \<open>\<open>ensureNewLockHolder\<close>\<close>

lemma ensureNewLockHolder_terminates:
  assumes "get_lock b k = Some l" "max_capacity l \<le> max_holders l" "sound_waiters contents l"
  shows "\<exists>b'. ensureNewLockHolder E k uo b = Some b'"
proof -
  have go: "\<exists>b'. drain E k (set_lock k (l1\<lparr>keepLocksAfterDeath := False\<rparr>) b1) = Some b'"
    if "notify l1 = notify l" "max_holders l1 = max_holders l" "max_capacity l1 = max_capacity l" for l1 b1
    by (rule drain_terminates [where l = "l1\<lparr>keepLocksAfterDeath := False\<rparr>"])
      (use that assms(2,3) in \<open>simp_all add: sound_waiters_def\<close>)
  from go [of l] go [of "remove_holder (prop_name uo) l"] show ?thesis
    using assms(1) by (simp add: ensureNewLockHolder_def Let_def)
qed

lemma ensureNewLockHolder_saturates:
  assumes "ensureNewLockHolder E k uo b = Some b'" "get_lock b' k = Some l"
  shows "contents (notify l) = [] \<or> max_capacity l \<le> length (lockholders l)"
  using assms drain_saturates
  by (auto simp: ensureNewLockHolder_def Let_def length_contents split: option.splits if_splits)

end

text \<open>Queues as lists satisfy the laws, so the facts above hold for a broker over them.\<close>

interpretation list_waiters: waiter_queue "linked_queue_ops.extend list_queue x" "\<lambda>q. q" for x
  by unfold_locales

end
