(* ===== verification/Demo.thy ===== *)
theory Demo
  imports BrokerStep
begin

text \<open>
  Concrete inputs for the witnesses: a broker over the list queue, with UUIDs that count up, and
  the requests of a small workload.
\<close>

declare next_waiter.simps [code] drain.simps [code] cleanup_locks.simps [code]

type_synonym demo_queue = "(string \<times> notify_obj) list"

definition demo :: "demo_queue ext" where
  "demo = linked_queue_ops.extend list_queue
     \<lparr>uuid_v4 = (\<lambda>n. CHR ''v'' # replicate n (CHR ''4'')), weAreDebugging = False,
      brokerVersion = ''1.2.3''\<rparr>"

lemma demo_uuid: "uuid_v4 demo n = CHR ''v'' # replicate n (CHR ''4'')"
  by (simp add: demo_def linked_queue_ops.defs)

definition demo_start :: "demo_queue broker" where
  "demo_start = init_broker 4000 1000"

definition ask :: "string \<Rightarrow> string \<Rightarrow> jsval \<Rightarrow> lock_req" where
  "ask u k m = \<lparr>l_uuid = u, l_key = k, l_ttl = TtlUndefined, l_max = m,
     l_maxRead = Undefined, l_maxWrite = Undefined, l_force = False, l_pid = 1, l_keep = False,
     l_retryCount = 0, l_wait = None, l_rwStatus = None\<rparr>"

definition ask_many :: "string \<Rightarrow> string list \<Rightarrow> acquire_many_req" where
  "ask_many u ks = \<lparr>a_uuid = u, a_keys = Some (map String ks), a_ttl = TtlUndefined, a_pid = 1,
     a_keep = False, a_wait = None\<rparr>"

definition give :: "string \<Rightarrow> string \<Rightarrow> unlock_req" where
  "give u k = \<lparr>u_uuid = Some (CHR ''x'' # u), u_key = k, u__uuid = Some u, u_force = False, u_keep = False\<rparr>"

definition recv :: "sock \<Rightarrow> LMXRequest \<Rightarrow> bevent" where
  "recv ws r = Frame (Request r) ws"

definition join :: "sock \<Rightarrow> bevent list" where
  "join ws = [Accept ws, WritableSet ws True]"

definition two_grants :: "bevent list" where
  "two_grants = join 1 @ join 2 @
     [recv 1 (LockReq (ask ''a'' ''k'' Undefined)), recv 2 (LockReq (ask ''b'' ''k'' Undefined)),
      recv 1 (UnlockReq (give ''a'' ''k''))]"

definition shared :: "bevent list" where
  "shared = join 1 @ join 2 @
     [recv 1 (LockReq (ask ''a'' ''k'' (Integer 2))), recv 2 (LockReq (ask ''b'' ''k'' (Integer 2)))]"

definition queued :: "bevent list" where
  "queued = join 1 @ join 2 @
     [recv 1 (LockReq (ask ''a'' ''k'' Undefined)), recv 2 (LockReq (ask ''b'' ''k'' Undefined))]"

definition one_held :: "bevent list" where
  "one_held = join 1 @ [recv 1 (LockReq (ask ''a'' ''k'' Undefined))]"

definition after :: "bevent list \<Rightarrow> demo_queue broker" where
  "after evs = the (run demo evs demo_start)"

lemma after_run: "run demo evs demo_start \<noteq> None \<Longrightarrow> run demo evs demo_start = Some (after evs)"
  by (auto simp: after_def)

lemma after_reachable:
  "run demo evs demo_start \<noteq> None \<Longrightarrow> list_all A evs \<Longrightarrow> reachable demo A (init_broker 4000 1000) (after evs)"
  using run_reachable [OF _ after_run] by (simp add: demo_start_def)

end
