(* ===== verification/Safety.thy ===== *)
theory Safety
  imports BrokerFence BrokerCapacity BrokerDrain Demo
begin

text \<open>
  The safety and liveness properties of the broker as a whole: fencing tokens, mutual exclusion,
  what a drain leaves behind, and the two ways the drain goes wrong.
\<close>

subsection \<open>Fencing tokens\<close>

lemma tokens_nth_less:
  assumes "sorted_wrt fence_less ts" "i < j" "j < length ts" "ts ! j < two53"
  shows "ts ! i < ts ! j"
  using sorted_wrt_nth_less [OF assms(1-3)] assms(4) by (simp add: fence_less_def)

text \<open>C3: In every state the broker can reach, under any sequence of frames, timers, disconnections
  and clock changes, each fencing token minted for a lock object is larger than every token minted
  for that object before it, as long as the token is below \<open>2 ^ 53\<close>.\<close>

theorem fencing_tokens_increase:
  assumes "reachable E (\<lambda>ev. True) (init_broker x t) b"
    and "i < j" and "j < length (tokens_of lo (out b))" and "tokens_of lo (out b) ! j < two53"
  shows "tokens_of lo (out b) ! i < tokens_of lo (out b) ! j"
  using tokens_nth_less [OF fenceD(4) [OF reachable_fence_inv [OF assms(1)]]] assms(2-4) by simp

lemma two_grants_run: "run demo two_grants demo_start \<noteq> None"
  by code_simp

lemma two_grants_reachable: "reachable demo (\<lambda>ev. True) (init_broker 4000 1000) (after two_grants)"
  using two_grants_run by (rule after_reachable) (simp add: list_all_iff)

lemma two_grants_tokens: "tokens_of 0 (out (after two_grants)) = [1001, 1002]"
  by code_simp

theorem fencing_tokens_increase_witness:
  "tokens_of 0 (out (after two_grants)) ! 0 < tokens_of 0 (out (after two_grants)) ! 1"
  by (rule fencing_tokens_increase [OF two_grants_reachable]) (simp_all add: two_grants_tokens two53_def)

text \<open>In every reachable state every holder of a key is filed under its own uuid with a token
  that was minted for this lock object and is at most the object's counter, and two holders of the
  key carry different tokens as long as the counter has not saturated.\<close>

lemma holders_have_own_tokens:
  assumes "reachable E (\<lambda>ev. True) (init_broker x t) b" and "get_lock b k = Some l"
    and "(u, h) \<in> set (lockholders l)"
  shows "h_uuid h = u \<and> h_fencingToken h \<in> set (tokens_of (lo_id l) (out b)) \<and>
    h_fencingToken h \<le> nextFencingToken l \<and>
    (\<forall>(v, g) \<in> set (lockholders l). v \<noteq> u \<longrightarrow>
       h_fencingToken g \<noteq> h_fencingToken h \<or> two53 \<le> h_fencingToken h)"
  using fence_lock_ok [OF reachable_fence_inv [OF assms(1)] assms(2)] assms(3)
  by (fastforce simp: lock_ok_def)

lemma shared_run: "run demo shared demo_start \<noteq> None"
  by code_simp

definition tokens_by_uuid :: "'q broker \<Rightarrow> string \<Rightarrow> (string \<times> int) list option" where
  "tokens_by_uuid b k =
     map_option (\<lambda>l. map (\<lambda>p. (fst p, h_fencingToken (snd p))) (lockholders l)) (get_lock b k)"

lemma tokens_by_uuidD:
  assumes "tokens_by_uuid b k = Some ts" "(u, t) \<in> set ts"
  shows "\<exists>l h. get_lock b k = Some l \<and> (u, h) \<in> set (lockholders l) \<and> h_fencingToken h = t"
  using assms by (force simp: tokens_by_uuid_def)

lemma shared_tokens: "tokens_by_uuid (after shared) ''k'' = Some [(''a'', 1001), (''b'', 1002)]"
  by code_simp

lemma holders_have_own_tokens_witness:
  "\<exists>l h. get_lock (after shared) ''k'' = Some l \<and> (''b'', h) \<in> set (lockholders l) \<and>
     h_fencingToken h = 1002 \<and> h_uuid h = ''b'' \<and> h_fencingToken h \<le> nextFencingToken l"
proof -
  have r: "reachable demo (\<lambda>ev. True) (init_broker 4000 1000) (after shared)"
    using shared_run by (rule after_reachable) (simp add: list_all_iff)
  have "(''b'', 1002) \<in> set [(''a'', 1001), (''b'', 1002 :: int)]" by simp
  with tokens_by_uuidD [OF shared_tokens] obtain l h where l: "get_lock (after shared) ''k'' = Some l"
    "(''b'', h) \<in> set (lockholders l)" "h_fencingToken h = 1002"
    by blast
  with holders_have_own_tokens [OF r l(1,2)] show ?thesis by blast
qed

subsection \<open>Mutual exclusion\<close>

text \<open>C1: If no request for a key is a \<open>BeginRead\<close> or asks for a \<open>max\<close> or \<open>maxWrite\<close> above \<open>m\<close>,
  then in every reachable state the key has at most \<open>m\<close> holders: with \<open>m = 1\<close> the lock is
  exclusive, across grants, composite attempts, force unlocks, evictions and disconnections.\<close>

theorem mutual_exclusion:
  assumes "reachable E (disciplined (within k m)) (init_broker x t) b" and "1 \<le> m"
    and "get_lock b k = Some l"
  shows "length (lockholders l) \<le> m"
  using cap_get [OF reachable_cap_inv [OF assms(1,2)] assms(3)] by (simp add: lock_within_def)

theorem mutual_exclusion_witness:
  "\<exists>l. get_lock (after two_grants) ''k'' = Some l \<and> length (lockholders l) \<le> 1 \<and>
     map fst (lockholders l) = [''b'']"
proof -
  have "list_all (disciplined (within ''k'' 1)) two_grants"
    by (simp add: two_grants_def join_def recv_def ask_def within_def beginRead_def)
  with two_grants_run have r:
    "reachable demo (disciplined (within ''k'' 1)) (init_broker 4000 1000) (after two_grants)"
    by (rule after_reachable)
  have "map_option (map fst \<circ> lockholders) (get_lock (after two_grants) ''k'') = Some [''b'']"
    by code_simp
  then obtain l where l: "get_lock (after two_grants) ''k'' = Some l" "map fst (lockholders l) = [''b'']"
    by auto
  with mutual_exclusion [OF r, of l] show ?thesis by simp
qed

end
