(* ===== verification/Liveness.thy ===== *)
theory Liveness
  imports BrokerDrain Demo
begin

text \<open>
  What a release does for the waiters of a key: it returns, and it leaves nobody waiting for a free
  slot; and the two cases in which the drain misbehaves: a loop without end, and a grant to a
  waiter whose socket is gone.
\<close>

lemma waiter_queueI: "linked_queue E contents \<Longrightarrow> waiter_queue E contents"
  by (rule waiter_queue.intro)

lemma demo_queue: "linked_queue demo (\<lambda>q. q)"
  unfolding demo_def by (rule list_lq.linked_queue_axioms)

subsection \<open>Releasing a hold\<close>

lemma unlock_own:
  assumes "get_lock b (u_key r) = Some l" "is_holder (u__uuid r) l"
  shows "unlock E r wo b = ensureNewLockHolder E (u_key r) (u__uuid r)
    (reply_unlock wo r (\<lambda>u. UnlockReply u (u_key r) (lq_length E (notify l)) True None)
      (release_own (u_key r) (prop_name (u__uuid r)) l (forget_ownership wo r b)))"
  using assms by (simp add: unlock_def unlock_matching_def Let_def is_holder_def)

lemma get_lock_release_own:
  "get_lock (release_own k u l b) k = Some ((remove_holder u l)
     \<lparr>lockholdersAllReleased := insert u (lockholdersAllReleased l)\<rparr>)"
  by (simp add: release_own_def)

text \<open>C10: A holder's \<open>unlock\<close> returns and, on return, the key has waiters left only if it is at
  its capacity again: no slot stays free while somebody waits for it. This holds for a key whose
  reader and writer limits do not exceed its \<open>max\<close>.\<close>

theorem unlock_hands_over:
  assumes "linked_queue E contents"
    and "get_lock b (u_key r) = Some l" and "is_holder (u__uuid r) l"
    and "max_capacity l \<le> max_holders l" and "sound_waiters contents l"
  shows "\<exists>b'. unlock E r wo b = Some b' \<and>
    (\<forall>l'. get_lock b' (u_key r) = Some l' \<longrightarrow>
       contents (notify l') = [] \<or> max_capacity l' \<le> length (lockholders l'))"
proof -
  note W = waiter_queueI [OF assms(1)]
  let ?l = "(remove_holder (prop_name (u__uuid r)) l)
     \<lparr>lockholdersAllReleased := insert (prop_name (u__uuid r)) (lockholdersAllReleased l)\<rparr>"
  let ?b = "reply_unlock wo r (\<lambda>u. UnlockReply u (u_key r) (lq_length E (notify l)) True None)
      (release_own (u_key r) (prop_name (u__uuid r)) l (forget_ownership wo r b))"
  have "get_lock ?b (u_key r) = Some ?l"
    by (simp add: locks_reply_unlock get_lock_release_own)
  then obtain b' where b': "ensureNewLockHolder E (u_key r) (u__uuid r) ?b = Some b'"
    using waiter_queue.ensureNewLockHolder_terminates [OF W, of ?b "u_key r" ?l "u__uuid r"] assms(4,5)
    by auto
  then show ?thesis
    using unlock_own [OF assms(2,3)] waiter_queue.ensureNewLockHolder_saturates [OF W b'] by auto
qed

definition key_ready :: "demo_queue broker \<Rightarrow> string \<Rightarrow> string \<Rightarrow> bool" where
  "key_ready b k u = (case get_lock b k of
       None \<Rightarrow> False
     | Some l \<Rightarrow> map_of (lockholders l) u \<noteq> None \<and> max_capacity l \<le> max_holders l \<and>
         notify l \<noteq> [] \<and> list_all (\<lambda>p. n_acquireMany (snd p) = None) (notify l))"

lemma key_readyD:
  "key_ready b k u \<Longrightarrow> \<exists>l. get_lock b k = Some l \<and> map_of (lockholders l) u \<noteq> None \<and>
     max_capacity l \<le> max_holders l \<and> notify l \<noteq> [] \<and> sound_waiters (\<lambda>q. q) l"
  by (auto simp: key_ready_def sound_waiters_def list_all_iff split: option.splits)

theorem unlock_hands_over_witness:
  "\<exists>l b'. get_lock (after queued) ''k'' = Some l \<and> notify l \<noteq> [] \<and>
     unlock demo (give ''a'' ''k'') (Some 1) (after queued) = Some b' \<and>
     (\<forall>l'. get_lock b' ''k'' = Some l' \<longrightarrow> notify l' = [] \<or> max_capacity l' \<le> length (lockholders l'))"
proof -
  have "key_ready (after queued) ''k'' ''a''" by code_simp
  then obtain l where l: "get_lock (after queued) ''k'' = Some l" "map_of (lockholders l) ''a'' \<noteq> None"
    "max_capacity l \<le> max_holders l" "notify l \<noteq> []" "sound_waiters (\<lambda>q. q) l"
    using key_readyD by blast
  have r: "u_key (give ''a'' ''k'') = ''k''" "u__uuid (give ''a'' ''k'') = Some ''a''"
    by (simp_all add: give_def)
  have "is_holder (u__uuid (give ''a'' ''k'')) l" using l(2) by (simp add: r is_holder_def)
  with unlock_hands_over [OF demo_queue, of "after queued" "give ''a'' ''k''" l "Some 1"] l
  show ?thesis by (auto simp: r)
qed

subsection \<open>A drain without end\<close>

lemma writable_frame [simp]:
  "writable (send ws r b) = writable b" "writable (emit ev b) = writable b"
  "writable (set_lock k l b) = writable b" "writable (del_deadline u b) = writable b"
  "writable (del_ws_key ws k b) = writable b" "writable (del_ws_uuid ws u b) = writable b"
  by (simp_all add: send_def emit_def set_lock_def del_deadline_def del_ws_key_def del_ws_uuid_def
      split: option.split)

lemma writable_unlock_frame [simp]:
  "writable (forget_ownership wo r b) = writable b" "writable (reply_unlock wo r f b) = writable b"
  "writable (release_own k u l b) = writable b"
  by (simp_all add: forget_ownership_def reply_unlock_def release_own_def split: option.split)

text \<open>C20: A holder's \<open>unlock\<close> never returns when, after it, the only waiter of the key is an
  \<open>acquire-many\<close> whose first key it is, and the key still holds at least \<open>max\<close> but fewer than its
  reader or writer limit: the drain loop compares with the larger limit, the attempt with \<open>max\<close>,
  and the request is queued again each time. The broker never leaves the handler.\<close>

theorem unlock_never_ends:
  assumes "linked_queue E contents"
    and "get_lock b (u_key r) = Some l" and "is_holder (u__uuid r) l"
    and "contents (notify l) = [(n_uuid n, n)]" and "n_acquireMany n = Some (u_key r # ks, cid)"
    and "writable b (n_ws n)"
    and "max_holders l \<le> length (AList.delete (prop_name (u__uuid r)) (lockholders l))"
    and "length (AList.delete (prop_name (u__uuid r)) (lockholders l)) < max_capacity l"
  shows "unlock E r wo b = None"
proof -
  let ?u = "prop_name (u__uuid r)"
  let ?l = "(remove_holder ?u l)\<lparr>lockholdersAllReleased := insert ?u (lockholdersAllReleased l)\<rparr>"
  let ?b = "reply_unlock wo r (\<lambda>u. UnlockReply u (u_key r) (lq_length E (notify l)) True None)
      (release_own (u_key r) ?u l (forget_ownership wo r b))"
  let ?c = "set_lock (u_key r) ((remove_holder ?u ?l)\<lparr>keepLocksAfterDeath := False\<rparr>) (del_deadline ?u ?b)"
  have "get_lock ?b (u_key r) = Some ?l"
    by (simp add: locks_reply_unlock get_lock_release_own)
  moreover have "lq_length E (notify l) \<noteq> 0"
    using linked_queue.length_contents [OF assms(1)] assms(4) by simp
  ultimately have "unlock E r wo b = drain E (u_key r) ?c"
    using unlock_own [OF assms(2,3), of E wo] assms(3)
    by (simp add: ensureNewLockHolder_def is_holder_def)
  moreover have "spinning contents (u_key r) n ?c"
    using assms(4,6-8) by (simp add: spinning_def delete_idem)
  ultimately show ?thesis
    using waiter_queue.drain_spins [OF waiter_queueI [OF assms(1)] _ assms(5)] by simp
qed

definition ask_read :: "string \<Rightarrow> string \<Rightarrow> lock_req" where
  "ask_read u k = (ask u k Undefined)\<lparr>l_rwStatus := Some BeginRead\<rparr>"

text \<open>Two readers and, between them, a composite request for their key; then one reader leaves.\<close>

definition readers_and_composite :: "bevent list" where
  "readers_and_composite = join 1 @ join 2 @ join 3 @
     [recv 1 (LockReq (ask_read ''a'' ''k'')), recv 3 (AcquireManyReq (ask_many ''m'' [''k''])),
      recv 2 (LockReq (ask_read ''b'' ''k''))]"

definition composite_waiter :: notify_obj where
  "composite_waiter = \<lparr>n_ws = 3, n_uuid = ''m'', n_pid = 1, n_ttl = Num 4000, n_keep = False,
     n_acquireMany = Some ([''k''], ''v'')\<rparr>"

definition hangs_on :: "demo_queue broker \<Rightarrow> string \<Rightarrow> string \<Rightarrow> notify_obj \<Rightarrow> bool" where
  "hangs_on b k u n = (case get_lock b k of
       None \<Rightarrow> False
     | Some l \<Rightarrow> map_of (lockholders l) u \<noteq> None \<and> notify l = [(n_uuid n, n)] \<and> writable b (n_ws n) \<and>
         max_holders l \<le> length (AList.delete u (lockholders l)) \<and>
         length (AList.delete u (lockholders l)) < max_capacity l)"

theorem unlock_never_ends_witness:
  "reachable demo (\<lambda>ev. True) (init_broker 4000 1000) (after readers_and_composite) \<and>
   handle demo (recv 1 (UnlockReq (give ''a'' ''k''))) (after readers_and_composite) = None"
proof
  have "run demo readers_and_composite demo_start \<noteq> None" by code_simp
  then show "reachable demo (\<lambda>ev. True) (init_broker 4000 1000) (after readers_and_composite)"
    by (rule after_reachable) (simp add: list_all_iff)
  have r: "u_key (give ''a'' ''k'') = ''k''" "u__uuid (give ''a'' ''k'') = Some ''a''"
    by (simp_all add: give_def)
  have "hangs_on (after readers_and_composite) ''k'' ''a'' composite_waiter" by code_simp
  then obtain l where l: "get_lock (after readers_and_composite) ''k'' = Some l"
    "map_of (lockholders l) ''a'' \<noteq> None" "notify l = [(n_uuid composite_waiter, composite_waiter)]"
    "writable (after readers_and_composite) (n_ws composite_waiter)"
    "max_holders l \<le> length (AList.delete ''a'' (lockholders l))"
    "length (AList.delete ''a'' (lockholders l)) < max_capacity l"
    unfolding hangs_on_def by (cases "get_lock (after readers_and_composite) ''k''") (simp_all add: option.case_eq_if)
  have "unlock demo (give ''a'' ''k'') (Some 1) (after readers_and_composite) = None"
    by (rule unlock_never_ends [OF demo_queue, where l = l and n = composite_waiter and ks = "[]" and cid = "''v''"])
      (use l in \<open>simp_all only: r prop_name.simps is_holder_def truthy_str.simps, simp_all add: composite_waiter_def\<close>)
  moreover have "\<not> lmxClosed (after readers_and_composite) 1" by code_simp
  ultimately show "handle demo (recv 1 (UnlockReq (give ''a'' ''k''))) (after readers_and_composite) = None"
    by (simp add: recv_def onData_def)
qed

subsection \<open>A grant to a socket that is gone\<close>

text \<open>When the only waiter of a free key has a socket that is not writable, the drain still
  gives it the lock: the inner loop ends with the last waiter it looked at, writable or not. The key
  is then held for a client that cannot be told, until the hold's deadline.\<close>

lemma dead_waiter_granted:
  assumes "linked_queue E contents"
    and "get_lock b k = Some l" and "lockholders l = []"
    and "contents (notify l) = [(u, n)]" and "\<not> writable b (n_ws n)" and "n_acquireMany n = None"
  shows "\<exists>b' l'. drain E k b = Some b' \<and> get_lock b' k = Some l' \<and> contents (notify l') = [] \<and>
    map fst (lockholders l') = [n_uuid n] \<and> \<not> writable b' (n_ws n)"
proof -
  obtain q where nw: "next_waiter E (writable b) (notify l) None = Some (Some n, q)" and q: "contents q = []"
    using waiter_queue.next_waiter_spec [OF waiter_queueI [OF assms(1)], of "writable b" "notify l" None]
      assms(4,5) by (auto simp: picked_def reachable_waiters_def)
  let ?l1 = "l\<lparr>notify := q\<rparr>" and ?b1 = "set_lock k (l\<lparr>notify := q\<rparr>) b"
  let ?b' = "grant_waiter E k n ?l1 ?b1"
  have len: "lq_length E (notify l) \<noteq> 0" "lq_length E q = 0"
    using linked_queue.length_contents [OF assms(1)] assms(4) q by simp_all
  have cap: "0 < max_capacity l" by (simp add: max_capacity_def Let_def less_max_iff_disj)
  obtain l' where l': "get_lock ?b' k = Some l'" "notify l' = q" "map fst (lockholders l') = [n_uuid n]"
    using assms(3)
    by (auto simp: grant_waiter_def grantLock_def Let_def case_prod_beta locks_same [OF same_arm_reelection]
        locks_send)
  have "drain E k ?b' = Some ?b'"
    using l' len by (subst drain.simps) simp
  then have "drain E k b = Some ?b'"
    using assms(2,3,6) len cap nw by (subst drain.simps) (simp add: Let_def)
  moreover have "writable ?b' = writable b"
    by (simp add: grant_waiter_def grantLock_def Let_def case_prod_beta arm_reelection_def clear_reelection_def
        install_holder_def scheduleDeadline_def add_ws_key_def split: js_number.split)
  ultimately show ?thesis using l' q assms(5) by auto
qed

definition gone :: "bevent list" where
  "gone = queued @ [WritableSet 2 False]"

definition holder_gone :: "demo_queue broker" where
  "holder_gone = (let b = after gone in case get_lock b ''k'' of
       None \<Rightarrow> b | Some l \<Rightarrow> set_lock ''k'' (remove_holder ''a'' l) b)"

definition waits_dead :: "demo_queue broker \<Rightarrow> string \<Rightarrow> notify_obj \<Rightarrow> bool" where
  "waits_dead b k n = (case get_lock b k of
       None \<Rightarrow> False
     | Some l \<Rightarrow> lockholders l = [] \<and> notify l = [(n_uuid n, n)] \<and> \<not> writable b (n_ws n))"

lemma dead_waiter_granted_witness:
  "\<exists>b' l'. drain demo ''k'' holder_gone = Some b' \<and> get_lock b' ''k'' = Some l' \<and>
     notify l' = [] \<and> map fst (lockholders l') = [''b''] \<and> \<not> writable b' 2"
proof -
  let ?n = "waiter_of (ask ''b'' ''k'' Undefined) 2 (Num 4000)"
  have n: "n_acquireMany ?n = None" "n_uuid ?n = ''b''" "n_ws ?n = 2"
    by (simp_all add: waiter_of_def ask_def)
  have "waits_dead holder_gone ''k'' ?n" by code_simp
  then obtain l where l: "get_lock holder_gone ''k'' = Some l" "lockholders l = []"
    "notify l = [(n_uuid ?n, ?n)]" "\<not> writable holder_gone (n_ws ?n)"
    unfolding waits_dead_def by (cases "get_lock holder_gone ''k''") (simp_all add: option.case_eq_if)
  show ?thesis by (rule dead_waiter_granted [OF demo_queue l n(1), unfolded n])
qed

end
