(* ===== verification/Composite.thy ===== *)
theory Composite
  imports BrokerDrain Demo
begin

text \<open>
  Composite locks: the keys a request may name, the all-or-nothing grant with its rollback, and
  the release of every member.
\<close>

subsection \<open>The keys of a request\<close>

text \<open>An \<open>acquire-many\<close> request is accepted only for 1 to 64 entries, each a non-empty string;
  its keys are then taken in ascending order, each once, and they are exactly the entries. Every
  broker walks the keys in this one order.\<close>

lemma check_keys_accepts:
  assumes "check_keys (Some raw) = Inr keys"
  shows "sorted keys \<and> distinct keys \<and> String ` set keys = set raw \<and> [] \<notin> set keys \<and>
    keys \<noteq> [] \<and> length raw \<le> 64"
proof -
  have ok: "raw \<noteq> []" "length raw \<le> 64" "\<not> list_ex bad_key_entry raw"
    and keys: "keys = sort (remdups (map key_string raw))"
    using assms by (auto simp: check_keys_def split: if_splits)
  have entry: "\<exists>s. v = String s \<and> s \<noteq> []" if "v \<in> set raw" for v
    using ok(3) that by (cases v) (auto simp: list_ex_iff)
  then have "String ` key_string ` set raw = set raw" "[] \<notin> key_string ` set raw"
    by (force simp: image_iff)+
  moreover have set: "set keys = key_string ` set raw" using keys by simp
  moreover have "keys \<noteq> []" using set ok(1) by auto
  moreover have "sorted keys" "distinct keys" using keys by simp_all
  ultimately show ?thesis using ok(2) by simp
qed

lemma check_keys_accepts_witness:
  "sorted [''a'', ''b''] \<and> String ` set [''a'', ''b''] = set [String ''b'', String ''a'', String ''b'']"
  using check_keys_accepts [of "[String ''b'', String ''a'', String ''b'']" "[''a'', ''b'']"]
  by (simp add: check_keys_def)

subsection \<open>Holders of a key\<close>

definition holders :: "'q broker \<Rightarrow> string \<Rightarrow> (string, holder) jsmap" where
  "holders b k = (case get_lock b k of None \<Rightarrow> [] | Some l \<Rightarrow> lockholders l)"

lemma holders_same: "locks b' = locks b \<Longrightarrow> holders b' k = holders b k"
  by (simp add: holders_def)

lemma holders_ensure_lock [simp]: "holders (ensure_lock E k' keep b) k = holders b k"
  by (auto simp: holders_def ensure_lock_def create_lock_def getDefaultLockObject_def split: option.split)

lemma contended_ensure_lock [simp]: "contended (ensure_lock E k' keep b) k = contended b k"
  by (auto simp: contended_def ensure_lock_def create_lock_def getDefaultLockObject_def split: option.split)

lemma holders_set_lock: "holders (set_lock k' l b) k = (if k = k' then lockholders l else holders b k)"
  by (simp add: holders_def set_lock_def)

lemma compositeLocks_frame [simp]:
  "compositeLocks (ensure_lock E k keep b) = compositeLocks b"
  "compositeLocks (set_lock k l b) = compositeLocks b"
  "compositeLocks (send ws r b) = compositeLocks b"
  "compositeLocks (del_deadline u b) = compositeLocks b"
  "compositeLocks (snd (snd (grant_member E ws pid ttl cid k l b))) = compositeLocks b"
  by (simp_all add: ensure_lock_def create_lock_def set_lock_def send_def emit_def del_deadline_def
      grant_member_def install_holder_def add_ws_key_def scheduleDeadline_def next_uuid_def Let_def
      case_prod_beta split: option.split js_number.split)

lemma uuid_ctr_grant [simp]:
  "uuid_ctr (ensure_lock E k keep b) = uuid_ctr b"
  "uuid_ctr (snd (snd (grant_member E ws pid ttl cid k l b))) = Suc (uuid_ctr b)"
  by (simp_all add: ensure_lock_def create_lock_def set_lock_def emit_def
      grant_member_def install_holder_def add_ws_key_def scheduleDeadline_def next_uuid_def Let_def
      case_prod_beta split: option.split js_number.split)

lemma update_fresh: "u \<notin> fst ` set m \<Longrightarrow> AList.update u h m = m @ [(u, h)]"
  by (induction m) auto

lemma delete_fresh: "u \<notin> fst ` set m \<Longrightarrow> AList.delete u (m @ [(u, h)]) = m"
  by (induction m) (auto simp: delete_id)

subsection \<open>The grant loop\<close>

text \<open>One member of the composite, as it shows in the holders of its key.\<close>

definition member_granted ::
  "sock \<Rightarrow> string \<Rightarrow> 'q broker \<Rightarrow> 'q broker \<Rightarrow> string \<times> string \<times> int \<Rightarrow> bool" where
  "member_granted ws cid b b' g = (case g of (k, u, t) \<Rightarrow>
     \<exists>h. holders b' k = holders b k @ [(u, h)] \<and> u \<notin> fst ` set (holders b k) \<and> h_uuid h = u \<and>
       h_fencingToken h = t \<and> h_ws h = ws \<and> h_compositeLockUuid h = Some cid)"

lemma grant_member_holders:
  assumes "grant_member E ws pid ttl cid k l (ensure_lock E k keep b) = (u, t, b1)"
    and "get_lock (ensure_lock E k keep b) k = Some l"
    and "uuid_v4 E (uuid_ctr b) \<notin> fst ` set (holders b k)"
  shows "member_granted ws cid b b1 (k, u, t)" and "k' \<noteq> k \<Longrightarrow> holders b1 k' = holders b k'"
    and "k' \<noteq> k \<Longrightarrow> contended b1 k' = contended b k'"
proof -
  let ?b0 = "ensure_lock E k keep b"
  have hl: "holders b k = lockholders l"
    using assms(2) holders_ensure_lock [of E k keep b k] by (simp add: holders_def)
  have u: "u = uuid_v4 E (uuid_ctr b)" and t: "t = js_inc (nextFencingToken l)"
    and b1: "b1 = snd (snd (grant_member E ws pid ttl cid k l ?b0))"
    using assms(1) by (auto simp: grant_member_def Let_def case_prod_beta install_holder_def fresh_uuid_def)
  define c where "c = scheduleDeadline k u ttl (next_uuid ?b0)"
  have b1': "b1 = add_ws_key ws k (snd (install_holder k u ws pid (Some cid) (fst c)
      (l\<lparr>timestampEmptied := None\<rparr>) (snd c)))"
    unfolding b1 c_def u by (simp add: grant_member_def Let_def case_prod_beta fresh_uuid_def)
  have "u \<notin> fst ` set (lockholders l)" using assms(3) hl u by simp
  then have new: "\<exists>l'. get_lock b1 k = Some l' \<and> (\<exists>h. lockholders l' = lockholders l @ [(u, h)] \<and> h_uuid h = u \<and>
      h_fencingToken h = t \<and> h_ws h = ws \<and> h_compositeLockUuid h = Some cid)"
    unfolding b1' t locks_same [OF same_add_ws_key] get_lock_install_holder by (simp add: update_fresh)
  then obtain l' h where l': "get_lock b1 k = Some l'" "lockholders l' = lockholders l @ [(u, h)]"
    "h_uuid h = u" "h_fencingToken h = t" "h_ws h = ws" "h_compositeLockUuid h = Some cid" by blast
  have "holders b1 k = holders b k @ [(u, h)]" unfolding hl using l'(1,2) by (simp add: holders_def)
  then show "member_granted ws cid b b1 (k, u, t)"
    using l'(3-6) assms(3) u by (auto simp: member_granted_def)
  have other: "get_lock b1 k' = get_lock ?b0 k'" if "k' \<noteq> k" for k'
    unfolding b1 using that by (rule get_lock_grant_member)
  show "holders b1 k' = holders b k'" if "k' \<noteq> k"
    using other [OF that] holders_ensure_lock [of E k keep b k'] by (simp add: holders_def)
  show "contended b1 k' = contended b k'" if "k' \<noteq> k"
    using other [OF that] contended_ensure_lock [of E k keep b k'] by (simp add: contended_def)
qed

lemma am_loop_prefix:
  assumes "distinct ks" and "\<And>k n. k \<in> set ks \<Longrightarrow> uuid_ctr b \<le> n \<Longrightarrow> uuid_v4 E n \<notin> fst ` set (holders b k)"
  shows "\<exists>new b'. am_loop E ws pid ttl keep cid ks gs b =
      (case dropWhile (\<lambda>k. \<not> contended b k) ks of [] \<Rightarrow> None | k # _ \<Rightarrow> Some k, gs @ new, b') \<and>
    map fst new = takeWhile (\<lambda>k. \<not> contended b k) ks \<and>
    (\<forall>g \<in> set new. member_granted ws cid b b' g) \<and>
    (\<forall>k. k \<notin> fst ` set new \<longrightarrow> holders b' k = holders b k) \<and>
    compositeLocks b' = compositeLocks b"
  using assms
proof (induction ks arbitrary: gs b)
  case (Cons k ks)
  show ?case
  proof (cases "contended b k")
    case free: False
    let ?b0 = "ensure_lock E k keep b"
    obtain l where l: "get_lock ?b0 k = Some l" using ensure_lock_exists by blast
    obtain u t b1 where gm: "grant_member E ws pid ttl cid k l ?b0 = (u, t, b1)" by (rule prod_cases3)
    have fresh: "uuid_v4 E (uuid_ctr b) \<notin> fst ` set (holders b k)" using Cons.prems(2) by simp
    note g = grant_member_holders [OF gm l fresh]
    have "b1 = snd (snd (grant_member E ws pid ttl cid k l ?b0))" using gm by simp
    then have ctr: "uuid_ctr b1 = Suc (uuid_ctr b)" "compositeLocks b1 = compositeLocks b"
      by (simp_all only: uuid_ctr_grant compositeLocks_frame)
    have ks: "k \<notin> set ks" "distinct ks" using Cons.prems(1) by simp_all
    have "uuid_v4 E n \<notin> fst ` set (holders b1 k')" if "k' \<in> set ks" "uuid_ctr b1 \<le> n" for k' n
    proof -
      have "k' \<noteq> k" using that(1) ks(1) by blast
      then show ?thesis using Cons.prems(2) [of k' n] that g(2) [of k'] ctr by simp
    qed
    from Cons.IH [OF ks(2) this, of "gs @ [(k, u, t)]"] obtain new b' where
      IH: "am_loop E ws pid ttl keep cid ks (gs @ [(k, u, t)]) b1 =
          (case dropWhile (\<lambda>k. \<not> contended b1 k) ks of [] \<Rightarrow> None | k # _ \<Rightarrow> Some k,
           (gs @ [(k, u, t)]) @ new, b')"
        "map fst new = takeWhile (\<lambda>k. \<not> contended b1 k) ks"
        "\<forall>g \<in> set new. member_granted ws cid b1 b' g"
        "\<forall>k. k \<notin> fst ` set new \<longrightarrow> holders b' k = holders b1 k" "compositeLocks b' = compositeLocks b1"
      by blast
    have tw: "takeWhile (\<lambda>k. \<not> contended b1 k) ks = takeWhile (\<lambda>k. \<not> contended b k) ks"
      "dropWhile (\<lambda>k. \<not> contended b1 k) ks = dropWhile (\<lambda>k. \<not> contended b k) ks"
    proof -
      have "contended b1 x = contended b x" if "x \<in> set ks" for x
        by (rule g(3)) (use that ks(1) in blast)
      then show "takeWhile (\<lambda>k. \<not> contended b1 k) ks = takeWhile (\<lambda>k. \<not> contended b k) ks"
        "dropWhile (\<lambda>k. \<not> contended b1 k) ks = dropWhile (\<lambda>k. \<not> contended b k) ks"
        by (simp_all cong: takeWhile_cong dropWhile_cong)
    qed
    have sub: "fst ` set new \<subseteq> set ks"
      using IH(2) set_takeWhileD by (metis image_set subsetI)
    have "k \<notin> fst ` set new" using sub ks(1) by blast
    then have "member_granted ws cid b b' (k, u, t)"
      using g(1) IH(4) by (simp add: member_granted_def)
    moreover have "member_granted ws cid b b' g" if "g \<in> set new" for g
    proof -
      have "fst g \<noteq> k" using that sub ks(1) by force
      then show ?thesis using IH(3) that g(2) [of "fst g"] by (cases g) (auto simp: member_granted_def)
    qed
    moreover have "holders b' k' = holders b k'" if "k' \<noteq> k" "k' \<notin> fst ` set new" for k'
      using IH(4) g(2) [of k'] that by simp
    ultimately show ?thesis
      using IH(1,2,5) free l gm tw ctr
      by (intro exI [of _ "(k, u, t) # new"] exI [of _ b']) (simp add: Let_def)
  qed simp
qed simp

subsection \<open>Rollback\<close>

lemma rollback_attempt_holders:
  assumes "distinct (map fst gs)" and "\<forall>k \<in> fst ` set gs. settable k"
    and "\<And>k u t. (k, u, t) \<in> set gs \<Longrightarrow> \<exists>h. holders b k = hs k @ [(u, h)] \<and> u \<notin> fst ` set (hs k)"
    and "\<And>k. k \<notin> fst ` set gs \<Longrightarrow> holders b k = hs k"
  shows "holders (rollback_attempt gs b) k = hs k \<and>
    compositeLocks (rollback_attempt gs b) = compositeLocks b"
  using assms
proof (induction gs arbitrary: b)
  case (Cons g gs)
  obtain k' u t where g: "g = (k', u, t)" by (cases g)
  obtain h where h: "holders b k' = hs k' @ [(u, h)]" "u \<notin> fst ` set (hs k')"
    using Cons.prems(3) [of k' u t] g by auto
  then obtain l where l: "get_lock b k' = Some l" "lockholders l = hs k' @ [(u, h)]"
    by (cases "get_lock b k'") (auto simp: holders_def)
  let ?b1 = "set_lock k' (l\<lparr>lockholders := hs k'\<rparr>) (del_deadline u b)"
  have "map_of (hs k') u = None" using h(2) by (simp add: map_of_eq_None_iff)
  then have step: "rollback_attempt (g # gs) b = rollback_attempt gs ?b1"
    using l h(2) Cons.prems(2) by (simp add: g with_lock_def map_add_def delete_fresh)
  have h1: "holders ?b1 x = (if x = k' then hs k' else holders b x)" for x
    by (simp add: holders_set_lock holders_same [OF locks_same [OF same_del_deadline]])
  have k': "k' \<notin> fst ` set gs" "distinct (map fst gs)" using Cons.prems(1) g by auto
  have "holders (rollback_attempt gs ?b1) k = hs k \<and>
      compositeLocks (rollback_attempt gs ?b1) = compositeLocks ?b1"
  proof (rule Cons.IH [OF k'(2)])
    show "\<forall>k \<in> fst ` set gs. settable k" using Cons.prems(2) by simp
    show "\<exists>h. holders ?b1 x = hs x @ [(v, h)] \<and> v \<notin> fst ` set (hs x)" if "(x, v, s) \<in> set gs" for x v s
    proof -
      have "x \<noteq> k'" using that k'(1) by force
      then show ?thesis using Cons.prems(3) [of x v s] that h1 by simp
    qed
    show "holders ?b1 x = hs x" if "x \<notin> fst ` set gs" for x
      using Cons.prems(4) [of x] that h1 g by simp
  qed
  then show ?case unfolding step by simp
qed simp

lemma acquire_many_contended_holders:
  "holders (acquire_many_contended E r ws keys cid ttl kc b) k = holders b k"
  "compositeLocks (acquire_many_contended E r ws keys cid ttl kc b) = compositeLocks b"
proof -
  have q: "holders (with_lock kc (queue_waiter E kc n) b) k = holders b k"
    "compositeLocks (with_lock kc (queue_waiter E kc n) b) = compositeLocks b" for n b
    by (auto simp: with_lock_def queue_waiter_def holders_set_lock split: option.split)
      (simp add: holders_def)
  show "holders (acquire_many_contended E r ws keys cid ttl kc b) k = holders b k"
    "compositeLocks (acquire_many_contended E r ws keys cid ttl kc b) = compositeLocks b"
    by (simp_all add: acquire_many_contended_def Let_def holders_same [OF locks_send] q)
qed

subsection \<open>All or nothing\<close>

text \<open>C6: An accepted \<open>acquire-many\<close> is all or nothing. If any of its keys is at its \<open>max\<close>, then
  afterwards every key of the broker has exactly the holders it had, and no composite is recorded.
  Otherwise every key of the request has one new holder, of this composite and this socket, under
  a fresh uuid and with a token of its own, every other key is as before, and the composite is
  recorded with those uuids and tokens. The UUIDs the broker generates are assumed not to be in use,
  and no key may be \<open>__proto__\<close>, the one name a plain object does not store.\<close>

theorem acquire_many_all_or_nothing:
  assumes "check_keys (a_keys r) = Inr keys"
    and "\<And>k n. k \<in> set keys \<Longrightarrow> uuid_ctr b < n \<Longrightarrow> uuid_v4 E n \<notin> fst ` set (holders b k)"
    and "''__proto__'' \<notin> set keys"
  shows "if \<exists>k \<in> set keys. contended b k
    then compositeLocks (acquireMany E r ws b) = compositeLocks b \<and>
      (\<forall>k. holders (acquireMany E r ws b) k = holders b k)
    else \<exists>gs. map fst gs = keys \<and>
      compositeLocks (acquireMany E r ws b) =
        AList.update (fresh_uuid E b) (composite_of keys gs) (compositeLocks b) \<and>
      (\<forall>g \<in> set gs. member_granted ws (fresh_uuid E b) b (acquireMany E r ws b) g) \<and>
      (\<forall>k. k \<notin> set keys \<longrightarrow> holders (acquireMany E r ws b) k = holders b k)"
proof -
  let ?b = "next_uuid b" and ?cid = "fresh_uuid E b" and ?ttl = "many_ttl b (a_ttl r)"
  have h: "holders ?b k = holders b k" "contended ?b k = contended b k" "compositeLocks ?b = compositeLocks b" for k
    by (simp_all add: holders_def contended_def next_uuid_def)
  have mg: "member_granted ws c ?b b' g = member_granted ws c b b' g" for c b' g
    by (simp add: member_granted_def h)
  have "raw \<noteq> [] \<Longrightarrow> distinct (sort (remdups (map key_string raw)))" for raw by simp
  then have dist: "distinct keys"
    using assms(1) by (auto simp: check_keys_def split: option.splits if_splits)
  have fresh: "uuid_v4 E n \<notin> fst ` set (holders ?b k)" if "k \<in> set keys" "uuid_ctr ?b \<le> n" for k n
  proof -
    have "uuid_ctr b < n" using that(2) by (simp add: next_uuid_def)
    from assms(2) [OF that(1) this] show ?thesis unfolding h(1) .
  qed
  from am_loop_prefix [OF dist fresh, of ws "a_pid r" ?ttl "a_keep r" ?cid "[]"] obtain gs b1 where
    am: "am_loop E ws (a_pid r) ?ttl (a_keep r) ?cid keys [] ?b =
      (case dropWhile (\<lambda>k. \<not> contended b k) keys of [] \<Rightarrow> None | k # _ \<Rightarrow> Some k, gs, b1)"
    and gs: "map fst gs = takeWhile (\<lambda>k. \<not> contended b k) keys"
    and new: "\<forall>g \<in> set gs. member_granted ws ?cid b b1 g"
    and old: "\<forall>k. k \<notin> fst ` set gs \<longrightarrow> holders b1 k = holders b k"
    and comp: "compositeLocks b1 = compositeLocks b"
    unfolding mg h by auto
  show ?thesis
  proof (cases "\<exists>k \<in> set keys. contended b k")
    case True
    then obtain kc ks where drop: "dropWhile (\<lambda>k. \<not> contended b k) keys = kc # ks"
      by (cases "dropWhile (\<lambda>k. \<not> contended b k) keys") auto
    have res: "acquireMany E r ws b = acquire_many_contended E r ws keys ?cid ?ttl kc (rollback_attempt gs b1)"
      using assms(1) am drop by (simp add: acquireMany_def Let_def)
    have "distinct (map fst gs)" unfolding gs using dist by simp
    moreover have "set (map fst gs) \<subseteq> set keys" unfolding gs by (auto dest: set_takeWhileD)
    then have "\<forall>k \<in> fst ` set gs. settable k" using assms(3) by (auto simp: settable_def)
    ultimately have "holders (rollback_attempt gs b1) k = holders b k \<and>
        compositeLocks (rollback_attempt gs b1) = compositeLocks b1" for k
      by (rule rollback_attempt_holders) (use new old in \<open>auto simp: member_granted_def\<close>)
    then show ?thesis using True comp by (simp add: res acquire_many_contended_holders)
  next
    case False
    then have all: "takeWhile (\<lambda>k. \<not> contended b k) keys = keys" "dropWhile (\<lambda>k. \<not> contended b k) keys = []"
      by (simp_all add: takeWhile_eq_all_conv)
    have res: "acquireMany E r ws b = register_composite ws (a_uuid r) ?cid keys gs b1"
      using assms(1) am all by (simp add: acquireMany_def Let_def)
    have "holders (acquireMany E r ws b) k = holders b1 k" for k
      unfolding res by (rule holders_same) (rule locks_same [OF same_register_composite])
    moreover have "compositeLocks (acquireMany E r ws b) =
        AList.update ?cid (composite_of keys gs) (compositeLocks b)"
      unfolding res register_composite_def by (simp add: comp)
    moreover have "set keys = fst ` set gs" using gs all(1) by (metis list.set_map)
    ultimately show ?thesis
      using False gs all new old by (auto simp: member_granted_def intro!: exI [of _ gs])
  qed
qed

theorem acquire_many_all_or_nothing_witness:
  "map fst (holders (after one_held) ''k'') = [''a''] \<and>
   holders (acquireMany demo (ask_many ''m'' [''k'', ''j'']) 1 (after one_held)) ''j'' =
     holders (after one_held) ''j''"
proof
  show k: "map fst (holders (after one_held) ''k'') = [''a'']" by code_simp
  have keys: "check_keys (a_keys (ask_many ''m'' [''k'', ''j''])) = Inr [''j'', ''k'']" by code_simp
  have j: "holders (after one_held) ''j'' = []" by code_simp
  have k': "fst ` set (holders (after one_held) ''k'') = {''a''}" using k by (metis list.set(1,2) list.set_map)
  have fresh: "uuid_v4 demo n \<notin> fst ` set (holders (after one_held) k)"
    if "k \<in> set [''j'', ''k'']" for k n
  proof -
    from that consider "k = ''j''" | "k = ''k''" by (simp only: list.set insert_iff empty_iff) blast
    then show ?thesis by cases (simp_all only: j k' demo_uuid list.set image_empty, simp_all)
  qed
  have "contended (after one_held) ''k''" by code_simp
  then show "holders (acquireMany demo (ask_many ''m'' [''k'', ''j'']) 1 (after one_held)) ''j'' =
     holders (after one_held) ''j''"
    using acquire_many_all_or_nothing [where b = "after one_held" and ws = 1 and E = demo, OF keys] fresh
    by simp
qed

text \<open>
  A member of the name \<open>__proto__\<close> is not rolled back: after a request for it and for a held key it has
  a holder that no composite records.
\<close>

lemma proto_member_kept:
  "map fst (holders (acquireMany demo (ask_many ''m'' [''k'', ''__proto__'']) 1 (after one_held)) ''__proto__'')
     = [''v4''] \<and>
   compositeLocks (acquireMany demo (ask_many ''m'' [''k'', ''__proto__'']) 1 (after one_held)) = [] \<and>
   holders (after one_held) ''__proto__'' = []"
  by code_simp

subsection \<open>Releasing a composite\<close>

text \<open>A key without waiters: the drain has nothing to do.\<close>

definition no_waiters :: "'q ext \<Rightarrow> 'q broker \<Rightarrow> string \<Rightarrow> bool" where
  "no_waiters E b k = (case get_lock b k of None \<Rightarrow> True | Some l \<Rightarrow> lq_length E (notify l) = 0)"

lemma ensure_no_waiters:
  assumes "get_lock b k = Some l" "lq_length E (notify l) = 0" "u \<noteq> []"
  shows "\<exists>b'. ensureNewLockHolder E k (Some u) b = Some b' \<and>
    holders b' k = AList.delete u (lockholders l) \<and> no_waiters E b' k \<and>
    (\<forall>k'. k' \<noteq> k \<longrightarrow> get_lock b' k' = get_lock b k') \<and> compositeLocks b' = compositeLocks b \<and>
    map fst (locks b') = map fst (locks b) \<and> out b' = out b \<and>
    (\<exists>l'. get_lock b' k = Some l' \<and> lockholderTimeouts l' = lockholderTimeouts l \<and>
       lockholdersAllReleased l' = lockholdersAllReleased l \<and> notify l' = notify l) \<and>
    holderDeadlines b' = AList.delete u (holderDeadlines b)"
proof -
  let ?l = "(remove_holder u l)\<lparr>keepLocksAfterDeath := False\<rparr>"
  have d: "drain E k (set_lock k ?l (del_deadline u b)) = Some (set_lock k ?l (del_deadline u b))"
    by (subst drain.simps) (simp add: assms(2))
  have "get_lock (del_deadline u b) k' = get_lock b k'" for k'
    by (simp add: locks_same [OF same_del_deadline])
  moreover have "map fst (locks (set_lock k l' (del_deadline u b))) = map fst (locks b)" for l'
    using assms(1) by (simp add: set_lock_def locks_same [OF same_del_deadline] map_fst_update_present)
  moreover have "out (set_lock k l' (del_deadline u b)) = out b"
    "holderDeadlines (set_lock k l' (del_deadline u b)) = AList.delete u (holderDeadlines b)" for l'
    by (simp_all add: set_lock_def del_deadline_def)
  ultimately show ?thesis
    using d assms by (auto simp: ensureNewLockHolder_def Let_def holders_set_lock no_waiters_def)
qed

lemma release_member_releases:
  assumes "no_waiters E b k" "map_of (c_holderUuids c) k = Some u" "u \<noteq> []"
  shows "\<exists>b'. release_member E c k b = Some b' \<and> holders b' k = AList.delete u (holders b k) \<and>
    no_waiters E b' k \<and> (\<forall>k'. k' \<noteq> k \<longrightarrow> get_lock b' k' = get_lock b k') \<and>
    compositeLocks b' = compositeLocks b"
proof (cases "get_lock b k")
  case None
  then show ?thesis using assms by (simp add: release_member_def holders_def)
next
  case (Some l)
  define l2 where "l2 = (if map_of (lockholders l) u \<noteq> None
     then (remove_holder u l)\<lparr>lockholdersAllReleased := insert u (lockholdersAllReleased l)\<rparr>
     else remove_holder u l)"
  let ?b = "set_lock k l2 (del_deadline u b)"
  have l2: "lockholders l2 = AList.delete u (lockholders l)" "notify l2 = notify l"
    by (simp_all add: l2_def)
  have "get_lock ?b k = Some l2" "lq_length E (notify l2) = 0"
    using assms(1) Some l2 by (simp_all add: no_waiters_def)
  from ensure_no_waiters [OF this assms(3)] obtain b' where
    "ensureNewLockHolder E k (Some u) ?b = Some b'" "holders b' k = AList.delete u (lockholders l2)"
    "no_waiters E b' k" "\<forall>k'. k' \<noteq> k \<longrightarrow> get_lock b' k' = get_lock ?b k'" "compositeLocks b' = compositeLocks ?b"
    by blast
  moreover have "release_member E c k b = ensureNewLockHolder E k (Some u) ?b"
    using Some assms(2,3) by (simp add: release_member_def Let_def l2_def)
  ultimately show ?thesis
    using Some l2 by (simp add: holders_def delete_idem locks_same [OF same_del_deadline])
qed

lemma release_members_releases:
  assumes "distinct ks" "\<And>k. k \<in> set ks \<Longrightarrow> no_waiters E b k"
    and "\<And>k. k \<in> set ks \<Longrightarrow> \<exists>u. map_of (c_holderUuids c) k = Some u \<and> u \<noteq> []"
  shows "\<exists>b'. release_members E c ks b = Some b' \<and> compositeLocks b' = compositeLocks b \<and>
    (\<forall>k. holders b' k = (if k \<in> set ks then AList.delete (the (map_of (c_holderUuids c) k)) (holders b k)
       else holders b k))"
  using assms
proof (induction ks arbitrary: b)
  case (Cons k ks)
  obtain u where u: "map_of (c_holderUuids c) k = Some u" "u \<noteq> []" using Cons.prems(3) by auto
  from release_member_releases [OF _ u, of E b] Cons.prems(2) obtain b1 where
    b1: "release_member E c k b = Some b1" "holders b1 k = AList.delete u (holders b k)"
      "\<forall>k'. k' \<noteq> k \<longrightarrow> get_lock b1 k' = get_lock b k'" "compositeLocks b1 = compositeLocks b"
    by auto
  have h: "holders b1 k' = holders b k'" if "k' \<noteq> k" for k' using b1(3) that by (simp add: holders_def)
  have "no_waiters E b1 k'" if "k' \<in> set ks" for k'
  proof -
    have "k' \<noteq> k" using that Cons.prems(1) by auto
    then show ?thesis using Cons.prems(2) [of k'] that b1(3) by (simp add: no_waiters_def)
  qed
  then obtain b' where b': "release_members E c ks b1 = Some b'" "compositeLocks b' = compositeLocks b1"
    "\<forall>k. holders b' k = (if k \<in> set ks then AList.delete (the (map_of (c_holderUuids c) k)) (holders b1 k)
       else holders b1 k)"
    using Cons.IH [of b1] Cons.prems(1,3) by auto
  then show ?case
  proof (intro exI [of _ b'] conjI allI)
    show "holders b' k' = (if k' \<in> set (k # ks)
        then AList.delete (the (map_of (c_holderUuids c) k')) (holders b k') else holders b k')" for k'
      using b1(2) h u Cons.prems(1) b'(3) by (cases "k' = k") auto
  qed (use b1 b' in simp_all)
qed simp

text \<open>C15: Releasing a recorded composite that has a member hold recorded for each of its keys, and
  whose keys have no waiters, returns, forgets the composite,
  and removes from each of its keys exactly the member hold recorded for it: every other hold of
  every key stays.\<close>

theorem release_many_releases:
  assumes "map_of (compositeLocks b) cid = Some c" and "r_lockUuid r = Some cid" and "cid \<noteq> []"
    and "distinct (c_keys c)" and "\<And>k. k \<in> set (c_keys c) \<Longrightarrow> no_waiters E b k"
    and "\<And>k. k \<in> set (c_keys c) \<Longrightarrow> \<exists>u. map_of (c_holderUuids c) k = Some u \<and> u \<noteq> []"
  shows "\<exists>b'. releaseMany E r ws b = Some b' \<and> map_of (compositeLocks b') cid = None \<and>
    (\<forall>k. holders b' k = (if k \<in> set (c_keys c)
       then AList.delete (the (map_of (c_holderUuids c) k)) (holders b k) else holders b k))"
proof -
  obtain b1 where b1: "release_members E c (c_keys c) b = Some b1"
    "\<forall>k. holders b1 k = (if k \<in> set (c_keys c) then AList.delete (the (map_of (c_holderUuids c) k)) (holders b k)
       else holders b k)"
    using release_members_releases [OF assms(4-6)] by blast
  let ?b2 = "b1\<lparr>compositeLocks := AList.delete cid (compositeLocks b1)\<rparr>"
  have "holders (send ws x ?b2) k = holders b1 k" for x k
    by (rule holders_same) (simp add: locks_send)
  then show ?thesis
    using assms(1-3) b1 by (auto simp: releaseMany_def)
qed

definition two_keys :: "bevent list" where
  "two_keys = join 1 @ [recv 1 (LockReq (ask ''a'' ''k'' (Integer 2))),
     recv 1 (AcquireManyReq (ask_many ''m'' [''k'', ''j'']))]"

definition release_it :: release_many_req where
  "release_it = \<lparr>r_uuid = ''x'', r_lockUuid = Some ''v''\<rparr>"

theorem release_many_releases_witness:
  "map fst (holders (after two_keys) ''k'') = [''a'', ''v44''] \<and>
   (\<exists>b'. releaseMany demo release_it 1 (after two_keys) = Some b' \<and>
     map fst (holders b' ''k'') = [''a''])"
proof
  show k: "map fst (holders (after two_keys) ''k'') = [''a'', ''v44'']" by code_simp
  define c where "c = the (map_of (compositeLocks (after two_keys)) ''v'')"
  have some: "map_of (compositeLocks (after two_keys)) ''v'' \<noteq> None" by code_simp
  then have c: "map_of (compositeLocks (after two_keys)) ''v'' = Some c" by (simp add: c_def)
  have keys: "c_keys c = [''j'', ''k'']" unfolding c_def by code_simp
  have uuids: "c_holderUuids c = [(''j'', ''v4''), (''k'', ''v44'')]" unfolding c_def by code_simp
  have free: "no_waiters demo (after two_keys) ''j''" "no_waiters demo (after two_keys) ''k''"
    by code_simp+
  have set: "set (c_keys c) = {''j'', ''k''}" "distinct (c_keys c)" unfolding keys by simp_all
  have free': "no_waiters demo (after two_keys) k" if "k \<in> set (c_keys c)" for k
    using that free unfolding set by blast
  have "\<exists>u. map_of (c_holderUuids c) k = Some u \<and> u \<noteq> []" if "k \<in> set (c_keys c)" for k
    using that unfolding set uuids by auto
  with release_many_releases [where r = release_it and E = demo and ws = 1, OF c _ _ set(2) free']
  obtain b' where b': "releaseMany demo release_it 1 (after two_keys) = Some b'"
    "\<forall>k. holders b' k = (if k \<in> set (c_keys c)
       then AList.delete (the (map_of (c_holderUuids c) k)) (holders (after two_keys) k)
       else holders (after two_keys) k)"
    by (auto simp: release_it_def)
  have "the (map_of (c_holderUuids c) ''k'') = ''v44''" unfolding uuids by simp
  with b'(2) [rule_format, of "''k''"] set(1)
  have k': "holders b' ''k'' = AList.delete ''v44'' (holders (after two_keys) ''k'')" by simp
  have "map fst (AList.delete u m) = [''a'']" if "map fst m = [''a'', u]" "u \<noteq> ''a''"
    for u and m :: "(string, holder) jsmap"
    using that by (auto simp: map_eq_Cons_conv)
  from this [OF k] b'(1) k' show "\<exists>b'. releaseMany demo release_it 1 (after two_keys) = Some b' \<and>
     map fst (holders b' ''k'') = [''a'']" by simp
qed

end
