(* ===== verification/Requests.thy ===== *)
theory Requests
  imports Composite Liveness
begin

text \<open>
  What one \<open>lock\<close> or \<open>unlock\<close> request does to the holders and to the queue of its key, branch by
  branch, errors included.
\<close>

subsection \<open>The state a lock request decides on\<close>

lemma holders_cleanUpLocks:
  "jsmap_wf (locks b) \<Longrightarrow> holders (cleanUpLocks E b) k = holders b k"
  by (auto simp: holders_def cleanUpLocks_def map_of_filter_wf stale_lock_def split: option.splits)

lemma holders_count_lock_request:
  "jsmap_wf (locks b) \<Longrightarrow> holders (count_lock_request E b) k = holders b k"
  using holders_cleanUpLocks [of "b\<lparr>lockCounts := Suc (lockCounts b)\<rparr>" E k]
  by (simp add: count_lock_request_def Let_def) (simp add: holders_def)

text \<open>The bookkeeping in front of the decision: its effect on the key and on the other keys.\<close>

definition lock_prelude :: "'q ext \<Rightarrow> lock_req \<Rightarrow> sock \<Rightarrow> 'q broker \<Rightarrow> 'q broker" where
  "lock_prelude E r ws b =
     (let b2 = count_lock_request E
            (with_lock (l_key r) (\<lambda>l b. set_lock (l_key r) (l\<lparr>timestampEmptied := None\<rparr>) b) b)
      in ensure_ws_keys ws (if l_uuid r \<noteq> [] then add_ws_uuid ws (l_uuid r) b2 else b2))"

lemma lock_prelude:
  assumes "validateMaxField r = None"
  shows "lock E r ws b =
    (case get_lock b (l_key r) of
       Some l \<Rightarrow> lock_existing E r ws (lock_ttl E b r) (l\<lparr>timestampEmptied := None\<rparr>) (lock_prelude E r ws b)
     | None \<Rightarrow> lock_new E r ws (lock_ttl E b r) (lock_prelude E r ws b))"
  using assms
  by (auto simp: lock_def lock_prelude_def Let_def with_lock_def split: option.split)

lemma locks_lock_prelude:
  "locks (lock_prelude E r ws b) = locks (count_lock_request E
     (with_lock (l_key r) (\<lambda>l b. set_lock (l_key r) (l\<lparr>timestampEmptied := None\<rparr>) b) b))"
  by (simp add: lock_prelude_def Let_def locks_same [OF same_ensure_ws_keys] locks_same [OF same_add_ws_uuid])

lemma get_lock_prelude:
  "get_lock (lock_prelude E r ws b) (l_key r) =
     map_option (\<lambda>l. l\<lparr>timestampEmptied := None\<rparr>) (get_lock b (l_key r))"
  unfolding locks_lock_prelude
  by (subst get_lock_count_lock_request) (auto simp: with_lock_def split: option.split)

lemma holders_prelude:
  assumes "jsmap_wf (locks b)"
  shows "holders (lock_prelude E r ws b) k = holders b k"
proof -
  let ?b = "with_lock (l_key r) (\<lambda>l b. set_lock (l_key r) (l\<lparr>timestampEmptied := None\<rparr>) b) b"
  have "jsmap_wf (locks ?b)" "holders ?b k = holders b k"
    using assms by (cases "get_lock b (l_key r)"; simp add: with_lock_def set_lock_def holders_def)+
  then show ?thesis
    using holders_count_lock_request [of ?b E k] locks_lock_prelude [of E r ws b]
    by (simp add: holders_def)
qed

lemma writable_frame2 [simp]:
  "writable (add_ws_key ws k b) = writable b" "writable (add_ws_uuid ws u b) = writable b"
  "writable (ensure_ws_keys ws b) = writable b" "writable (snd (scheduleDeadline k u t b)) = writable b"
  "writable (snd (install_holder k u ws pid cid e l b)) = writable b"
  "writable (create_lock E k keep mx mr mw b) = writable b"
  "writable (count_lock_request E b) = writable b"
  by (simp_all add: add_ws_key_def add_ws_uuid_def ensure_ws_keys_def scheduleDeadline_def install_holder_def
      create_lock_def count_lock_request_def cleanUpLocks_def Let_def split: option.split js_number.split)

lemma now_frame [simp]:
  "now (add_ws_key ws k b) = now b" "now (add_ws_uuid ws u b) = now b" "now (ensure_ws_keys ws b) = now b"
  "now (count_lock_request E b) = now b" "now (set_lock k l b) = now b"
  by (simp_all add: add_ws_key_def add_ws_uuid_def ensure_ws_keys_def count_lock_request_def cleanUpLocks_def
      Let_def set_lock_def split: option.split)

lemma writable_prelude [simp]: "writable (lock_prelude E r ws b) = writable b"
  by (simp add: lock_prelude_def Let_def with_lock_def split: option.split)

lemma now_prelude [simp]: "now (lock_prelude E r ws b) = now b"
  by (simp add: lock_prelude_def Let_def with_lock_def split: option.split)

lemma out_send: "writable b ws \<Longrightarrow> out (send ws r b) = out b @ [Sent ws r]"
  by (simp add: send_def emit_def)

subsection \<open>A grant\<close>

definition granted_to ::
  "lock_req \<Rightarrow> sock \<Rightarrow> int \<Rightarrow> 'q broker \<Rightarrow> bool" where
  "granted_to r ws t b \<longleftrightarrow> (\<exists>h. map_of (holders b (l_key r)) (l_uuid r) = Some h \<and> h_uuid h = l_uuid r \<and>
     h_ws h = ws \<and> h_fencingToken h = t \<and> h_compositeLockUuid h = None)"

lemma lock_acquire_grants:
  assumes "get_lock b (l_key r) = Some l"
  shows "granted_to r ws (js_inc (nextFencingToken l)) (lock_acquire E r ws ttl ln l b)"
    and "k \<noteq> l_key r \<Longrightarrow> holders (lock_acquire E r ws ttl ln l b) k = holders b k"
    and "u \<noteq> l_uuid r \<Longrightarrow> map_of (holders (lock_acquire E r ws ttl ln l b) (l_key r)) u = map_of (lockholders l) u"
    and "writable b ws \<Longrightarrow> last (out (lock_acquire E r ws ttl ln l b)) =
      Sent ws (LockReply (l_uuid r) (l_key r) True ln (readers (count_reader r l))
        (Some (js_inc (nextFencingToken l))) None)"
proof -
  define c where "c = scheduleDeadline (l_key r) (l_uuid r) (grant_ttl E b ttl) (add_ws_key ws (l_key r) b)"
  let ?b1 = "snd (install_holder (l_key r) (l_uuid r) ws (l_pid r) None (fst c) (count_reader r l) (snd c))"
  have n: "nextFencingToken (count_reader r l) = nextFencingToken l" "lockholders (count_reader r l) = lockholders l"
    by (simp_all add: count_reader_def)
  have eq: "lock_acquire E r ws ttl ln l b = send ws (LockReply (l_uuid r) (l_key r) True ln
      (readers (count_reader r l)) (Some (js_inc (nextFencingToken l))) None) ?b1"
    unfolding lock_acquire_def grantLock_def c_def [symmetric] Let_def case_prod_beta
    by (simp add: install_holder_def n Let_def)
  have h: "holders (lock_acquire E r ws ttl ln l b) k = holders ?b1 k" for k
    unfolding eq by (rule holders_same) (rule locks_send)
  have k: "get_lock (snd c) k = get_lock b k" for k
    by (simp add: c_def locks_same [OF same_scheduleDeadline] locks_same [OF same_add_ws_key])
  show "granted_to r ws (js_inc (nextFencingToken l)) (lock_acquire E r ws ttl ln l b)"
    unfolding granted_to_def h by (simp add: holders_def n)
  show "holders (lock_acquire E r ws ttl ln l b) k = holders b k" if "k \<noteq> l_key r"
    unfolding h using that by (simp add: holders_def k)
  show "map_of (holders (lock_acquire E r ws ttl ln l b) (l_key r)) u = map_of (lockholders l) u"
    if "u \<noteq> l_uuid r"
    unfolding h using that by (simp add: holders_def n)
  show "last (out (lock_acquire E r ws ttl ln l b)) = Sent ws (LockReply (l_uuid r) (l_key r) True ln
      (readers (count_reader r l)) (Some (js_inc (nextFencingToken l))) None)" if "writable b ws"
    unfolding eq using that by (simp add: out_send c_def)
qed

lemma lock_contended_keeps:
  assumes "get_lock b (l_key r) = Some l"
  shows "holders (lock_contended E r ws ttl l b) k = holders b k"
    and "writable b ws \<Longrightarrow> last (out (lock_contended E r ws ttl l b)) =
      Sent ws (LockReply (l_uuid r) (l_key r) False (lq_length E (notify l)) (readers l) None None)"
proof -
  have h: "holders (send ws x c) k = holders c k" for x and c :: "'a broker"
    by (rule holders_same) (rule locks_send)
  have "holders b (l_key r) = lockholders l" using assms by (simp add: holders_def)
  then show "holders (lock_contended E r ws ttl l b) k = holders b k"
    by (simp add: lock_contended_def Let_def h holders_set_lock)
  show "last (out (lock_contended E r ws ttl l b)) =
      Sent ws (LockReply (l_uuid r) (l_key r) False (lq_length E (notify l)) (readers l) None None)"
    if "writable b ws"
    using that by (simp add: lock_contended_def Let_def out_send)
qed

subsection \<open>The decision\<close>

lemma new_key_granted:
  assumes "validateMaxField r = None" and "get_lock b (l_key r) = None" and "jsmap_wf (locks b)"
    and "writable b ws"
  shows "granted_to r ws (js_inc (now b)) (lock E r ws b) \<and>
    (\<exists>rd. last (out (lock E r ws b)) =
       Sent ws (LockReply (l_uuid r) (l_key r) True 0 rd (Some (js_inc (now b))) None)) \<and>
    (\<forall>k. k \<noteq> l_key r \<longrightarrow> holders (lock E r ws b) k = holders b k)"
proof -
  let ?k = "l_key r" and ?b = "lock_prelude E r ws b"
  define b1 where "b1 = create_lock E ?k (l_keep r)
      (if is_integer (l_max r) then Some (limit (l_max r)) else None)
      (if beginRead r then Some (case requested_limit (l_maxRead r) (l_max r) of None \<Rightarrow> 10 | Some m \<Rightarrow> m) else None)
      (if beginWrite r then Some (case requested_limit (l_maxWrite r) (l_max r) of None \<Rightarrow> 1 | Some m \<Rightarrow> m) else None)
      (add_ws_key ws ?k ?b)"
  obtain l where l: "get_lock b1 ?k = Some l" "nextFencingToken l = now b"
    by (auto simp: b1_def create_lock_def getDefaultLockObject_def locks_same [OF same_add_ws_key])
  have res: "lock E r ws b = lock_acquire E r ws (lock_ttl E b r) 0 l b1"
    using lock_prelude [OF assms(1), of E ws b] assms(2) l(1)
    by (simp add: lock_new_def Let_def b1_def [symmetric] with_lock_def)
  have w: "writable b1 ws" using assms(4) by (simp add: b1_def)
  have "holders b1 k = holders b k" if "k \<noteq> ?k" for k
    using that holders_prelude [OF assms(3), of E r ws k]
    by (simp add: b1_def create_lock_def holders_set_lock) (simp add: holders_def locks_same [OF same_add_ws_key])
  then show ?thesis
    unfolding res using lock_acquire_grants [OF l(1), where ws = ws and E = E and ttl = "lock_ttl E b r" and ln = 0] w l(2)
    by auto
qed

text \<open>A valid \<open>lock\<close> request for a key without a lock object is granted at once: the caller holds
  the key with the token after the current time, is told so, and no other key changes its holders.\<close>

lemma lock_new_key_granted:
  assumes "validateMaxField r = None" and "get_lock b (l_key r) = None" and "jsmap_wf (locks b)"
    and "writable b ws"
  shows "granted_to r ws (js_inc (now b)) (lock E r ws b) \<and>
    (\<exists>rd. last (out (lock E r ws b)) =
       Sent ws (LockReply (l_uuid r) (l_key r) True 0 rd (Some (js_inc (now b))) None)) \<and>
    (\<forall>k. k \<noteq> l_key r \<longrightarrow> holders (lock E r ws b) k = holders b k)"
  by (rule new_key_granted [OF assms])

lemma lock_new_key_granted_witness:
  "granted_to (ask ''b'' ''j'' Undefined) 1 (js_inc (now (after one_held)))
     (lock demo (ask ''b'' ''j'' Undefined) 1 (after one_held)) \<and> now (after one_held) = 1000"
proof -
  have "get_lock (after one_held) (l_key (ask ''b'' ''j'' Undefined)) = None" by code_simp
  moreover have "jsmap_wf (locks (after one_held))" "writable (after one_held) 1" by code_simp+
  moreover have "validateMaxField (ask ''b'' ''j'' Undefined) = None" by code_simp
  moreover have "now (after one_held) = 1000" by code_simp
  ultimately show ?thesis using lock_new_key_granted by blast
qed

text \<open>C8: A valid \<open>lock\<close> request for a key that has a lock object is granted exactly when the count it
  looks at (readers plus one for a \<open>BeginRead\<close>, holders otherwise) is below the limit in force after
  the request's own limits are applied. A grant adds the caller under the next token and leaves the
  other holders of the key alone; a refusal changes no holder at all. Either way no other key
  changes its holders.\<close>

theorem lock_decides:
  assumes "validateMaxField r = None" and "get_lock b (l_key r) = Some l" and "jsmap_wf (locks b)"
  shows "(if effective_count r (update_limits r l) < effective_max r (update_limits r l)
     then granted_to r ws (js_inc (nextFencingToken l)) (lock E r ws b) \<and>
       (\<forall>u. u \<noteq> l_uuid r \<longrightarrow>
          map_of (holders (lock E r ws b) (l_key r)) u = map_of (lockholders l) u)
     else holders (lock E r ws b) (l_key r) = lockholders l) \<and>
    (\<forall>k. k \<noteq> l_key r \<longrightarrow> holders (lock E r ws b) k = holders b k)"
proof -
  let ?k = "l_key r" and ?b = "lock_prelude E r ws b" and ?t = "lock_ttl E b r"
  define l1 where "l1 = update_limits r (l\<lparr>timestampEmptied := None\<rparr>)"
  define b1 where "b1 = set_lock ?k l1 ?b"
  have l1: "lockholders l1 = lockholders l" "nextFencingToken l1 = nextFencingToken l"
    "effective_count r l1 = effective_count r (update_limits r l)"
    "effective_max r l1 = effective_max r (update_limits r l)"
    by (simp_all add: l1_def effective_count_def effective_max_def update_limits_def set_legacy_max_def
        split: option.split)
  have res: "lock E r ws b = (if effective_max r l1 \<le> effective_count r l1
      then lock_contended E r ws ?t l1 b1 else lock_acquire E r ws ?t (lq_length E (notify l1)) l1 b1)"
    using lock_prelude [OF assms(1), of E ws b] assms(2)
    by (simp add: lock_existing_def Let_def b1_def l1_def)
  have b1: "get_lock b1 ?k = Some l1" by (simp add: b1_def)
  have h1: "holders b1 k = holders b k" for k
    using holders_prelude [OF assms(3), of E r ws k] assms(2) l1(1)
    by (simp add: b1_def holders_set_lock) (simp add: holders_def)
  show ?thesis
  proof (cases "effective_max r l1 \<le> effective_count r l1")
    case True
    then have "holders (lock E r ws b) k = holders b k" for k
      unfolding res using lock_contended_keeps(1) [OF b1] h1 by simp
    then show ?thesis using True l1 assms(2) by (simp add: holders_def)
  next
    case False
    then show ?thesis
      unfolding res using lock_acquire_grants(1-3) [OF b1, where ws = ws and E = E and ttl = ?t and ln = "lq_length E (notify l1)"] h1 l1
      by simp
  qed
qed

theorem lock_decides_witness:
  "map fst (holders (lock demo (ask ''b'' ''k'' (Integer 2)) 1 (after one_held)) ''j'') = [] \<and>
   granted_to (ask ''b'' ''k'' (Integer 2)) 1 1002
     (lock demo (ask ''b'' ''k'' (Integer 2)) 1 (after one_held))"
proof -
  let ?r = "ask ''b'' ''k'' (Integer 2)" and ?b = "after one_held"
  define l where "l = the (get_lock ?b ''k'')"
  have "get_lock ?b ''k'' \<noteq> None" by code_simp
  then have l: "get_lock ?b (l_key ?r) = Some l" by (simp add: l_def ask_def)
  have "effective_count ?r (update_limits ?r l) < effective_max ?r (update_limits ?r l)"
    unfolding l_def by code_simp
  moreover have "js_inc (nextFencingToken l) = 1002" unfolding l_def by code_simp
  moreover have "validateMaxField ?r = None" "jsmap_wf (locks ?b)" by code_simp+
  moreover have "l_key ?r = ''k''" "holders ?b ''j'' = []" by code_simp+
  ultimately show ?thesis using lock_decides [OF _ l, where E = demo and ws = 1] by simp
qed

text \<open>On a key that already has a lock object, a \<open>BeginRead\<close> with \<open>maxRead = 1\<close> is never granted,
  not even when nobody holds the key: the broker adds the new reader to the count before it
  compares with the limit, so a limit of \<open>n\<close> admits \<open>n - 1\<close> readers.\<close>

lemma single_reader_never_granted:
  assumes "validateMaxField r = None" and "get_lock b (l_key r) = Some l" and "jsmap_wf (locks b)"
    and "l_rwStatus r = Some BeginRead" and "l_maxRead r = Integer 1"
  shows "holders (lock E r ws b) (l_key r) = lockholders l"
proof -
  have "effective_max r (update_limits r l) \<le> effective_count r (update_limits r l)"
    using assms(4,5)
    by (simp add: effective_max_def effective_count_def update_limits_def beginRead_def requested_limit_def
        set_legacy_max_def)
  then have "\<not> effective_count r (update_limits r l) < effective_max r (update_limits r l)" by simp
  then show ?thesis using lock_decides [OF assms(1-3), of ws E] by simp
qed

definition ask_single :: lock_req where
  "ask_single = (ask_read ''b'' ''k'')\<lparr>l_maxRead := Integer 1\<rparr>"

definition idle_key :: "bevent list" where
  "idle_key = one_held @ [recv 1 (UnlockReq (give ''a'' ''k''))]"

lemma single_reader_never_granted_witness:
  "holders (after idle_key) ''k'' = [] \<and> get_lock (after idle_key) ''k'' \<noteq> None \<and>
   holders (lock demo ask_single 1 (after idle_key)) ''k'' = []"
proof -
  define l where "l = the (get_lock (after idle_key) ''k'')"
  have some: "get_lock (after idle_key) ''k'' \<noteq> None" by code_simp
  then have l: "get_lock (after idle_key) (l_key ask_single) = Some l"
    by (simp add: l_def ask_single_def ask_read_def ask_def)
  have none: "lockholders l = []" unfolding l_def by code_simp
  have "validateMaxField ask_single = None" "jsmap_wf (locks (after idle_key))" by code_simp+
  with single_reader_never_granted [OF _ l, where E = demo and ws = 1] none
  have "holders (lock demo ask_single 1 (after idle_key)) (l_key ask_single) = []"
    by (simp add: ask_single_def ask_read_def)
  moreover have "l_key ask_single = ''k''" by (simp add: ask_single_def ask_read_def ask_def)
  moreover have "holders (after idle_key) ''k'' = []" by code_simp
  ultimately show ?thesis using some by simp
qed

text \<open>A \<open>lock\<close> request whose \<open>max\<close>, \<open>maxRead\<close> or \<open>maxWrite\<close> is present and is not a positive
  integer is refused with an error naming the field, and nothing but the reply changes.\<close>

lemma lock_bad_limit_refused:
  assumes "validateMaxField r = Some f"
  shows "lock E r ws b = send ws (LockReply (l_uuid r) (l_key r) False 0 0 None (Some (BadMaxField f))) b \<and>
    (\<exists>v. (f, v) \<in> {(''max'', l_max r), (''maxRead'', l_maxRead r), (''maxWrite'', l_maxWrite r)} \<and>
       v \<noteq> Undefined \<and> v \<noteq> Null \<and> \<not> (\<exists>n \<ge> 1. v = Integer n))"
proof -
  obtain v where v: "find (\<lambda>(f, v). bad_limit v)
      [(''max'', l_max r), (''maxRead'', l_maxRead r), (''maxWrite'', l_maxWrite r)] = Some (f, v)"
    using assms by (auto simp: validateMaxField_def simp del: find.simps)
  then have "bad_limit v" and "(f, v) \<in> set [(''max'', l_max r), (''maxRead'', l_maxRead r), (''maxWrite'', l_maxWrite r)]"
    unfolding find_Some_iff by (auto simp del: list.set simp: in_set_conv_nth)
  moreover from this(1) have "v \<noteq> Undefined \<and> v \<noteq> Null \<and> \<not> (\<exists>n \<ge> 1. v = Integer n)"
    by (auto simp: bad_limit_def)
  ultimately have "\<exists>v. (f, v) \<in> {(''max'', l_max r), (''maxRead'', l_maxRead r), (''maxWrite'', l_maxWrite r)} \<and>
       v \<noteq> Undefined \<and> v \<noteq> Null \<and> \<not> (\<exists>n \<ge> 1. v = Integer n)"
    by (intro exI [of _ v]) simp
  then show ?thesis using assms by (simp add: lock_def)
qed

lemma lock_bad_limit_refused_witness:
  "lock demo (ask ''a'' ''k'' (Integer 0)) 1 demo_start =
     send 1 (LockReply ''a'' ''k'' False 0 0 None (Some (BadMaxField ''max''))) demo_start"
proof -
  have "validateMaxField (ask ''a'' ''k'' (Integer 0)) = Some ''max''" by code_simp
  from lock_bad_limit_refused [OF this, where E = demo and ws = 1 and b = demo_start] show ?thesis by (simp add: ask_def)
qed

subsection \<open>The queue of a contended key\<close>

text \<open>A waiting request enters the queue of its key at most once. A forced one moves to the front
  and drops its older entry; one that is queued already keeps its place; otherwise a retried one
  goes to the front and a first one to the back. The order of the others never changes.\<close>

lemma waiter_position:
  assumes "linked_queue E contents" and "distinct (map fst (contents q))"
  shows "contents (enqueue_request E r ws ttl q) =
      (let n = (l_uuid r, waiter_of r ws ttl); others = filter (\<lambda>p. fst p \<noteq> l_uuid r) (contents q)
       in if l_force r then n # others
          else if l_uuid r \<in> fst ` set (contents q) then contents q
          else if 0 < l_retryCount r then n # others else others @ [n]) \<and>
    distinct (map fst (contents (enqueue_request E r ws ttl q)))"
proof -
  note L = assms(1)
  have absent: "filter (\<lambda>p. fst p \<noteq> l_uuid r) (contents q) = contents q" if "l_uuid r \<notin> fst ` set (contents q)"
    using that by (auto simp: filter_id_conv image_iff)
  have dist: "distinct (map fst (filter (\<lambda>p. fst p \<noteq> l_uuid r) (contents q)))"
    using assms(2) by (rule distinct_map_filter)
  have eq: "contents (enqueue_request E r ws ttl q) =
      (let n = (l_uuid r, waiter_of r ws ttl); others = filter (\<lambda>p. fst p \<noteq> l_uuid r) (contents q)
       in if l_force r then n # others
          else if l_uuid r \<in> fst ` set (contents q) then contents q
          else if 0 < l_retryCount r then n # others else others @ [n])"
    using linked_queue.get_None_iff [OF L, of "l_uuid r" q]
    by (auto simp: enqueue_request_def Let_def linked_queue.contents_add_removed [OF L] absent
        linked_queue.contents_addToFront [OF L] linked_queue.contents_enqueue [OF L])
  then show ?thesis
    using assms(2) dist by (auto simp: Let_def)
qed

lemma waiter_position_witness:
  "map fst (enqueue_request demo ((ask ''c'' ''k'' Undefined)\<lparr>l_force := True\<rparr>) 3 Infinity
     [(''b'', waiter_of (ask ''b'' ''k'' Undefined) 2 Infinity)]) = [''c'', ''b'']"
proof -
  have "distinct (map fst [(''b'', waiter_of (ask ''b'' ''k'' Undefined) 2 Infinity)])" by simp
  from waiter_position [OF demo_queue this, of "(ask ''c'' ''k'' Undefined)\<lparr>l_force := True\<rparr>" 3 Infinity]
  show ?thesis by (simp add: ask_def)
qed

end
