(* ===== verification/Releases.thy ===== *)
theory Releases
  imports Requests
begin

text \<open>
  Every way a hold ends: the holder's own \<open>unlock\<close>, a force \<open>unlock\<close>, the deadline, the end of the
  connection; and the requests that must not end one.
\<close>

subsection \<open>Unlock requests that change nothing\<close>

lemma holders_frame [simp]:
  "holders (send ws x b) k = holders b k" "holders (emit ev b) k = holders b k"
  "holders (del_deadline u b) k = holders b k" "holders (forget_ownership wo r b) k = holders b k"
  "holders (reply_unlock wo r f b) k = holders b k"
  by (simp_all add: holders_def locks_send locks_same [OF same_del_deadline]
      locks_same [OF same_forget_ownership] locks_reply_unlock)

text \<open>C19: An \<open>unlock\<close> of a key that has a lock object, not forced, in a request with a uuid of its own, whose
  \<open>_uuid\<close> is neither a holder of the key nor that of a hold that has expired or been released (nor the
  name of a property every object inherits), leaves every lock object as it was, and the caller is told
  that nothing was unlocked. For a key without a lock object, and for such a name, the broker answers
  that it has unlocked.\<close>

theorem stranger_cannot_unlock:
  assumes "get_lock b (u_key r) = Some l" and "\<not> is_holder (u__uuid r) l" and "\<not> u_force r"
    and "\<not> hash_has (lockholderTimeouts l \<union> lockholdersAllReleased l) (prop_name (u__uuid r))"
    and "u_uuid r = Some v" and "v \<noteq> []" and "writable b ws"
  shows "\<exists>b'. unlock E r (Some ws) b = Some b' \<and> locks b' = locks b \<and>
    last (out b') = Sent ws (UnlockReply v (u_key r) (lq_length E (notify l)) False (Some WrongUuid))"
proof -
  let ?b = "forget_ownership (Some ws) r b"
  have "unlock E r (Some ws) b = Some (send ws
      (UnlockReply v (u_key r) (lq_length E (notify l)) False (Some WrongUuid)) ?b)"
    using assms by (simp add: unlock_def unlock_mismatch_def Let_def reply_unlock_def hash_has_def)
  then show ?thesis
    using assms(7) by (simp add: locks_send locks_same [OF same_forget_ownership] out_send)
qed

text \<open>A forced \<open>unlock\<close> that names a uuid which does not hold the key leaves every lock object
  as it was: force does not release somebody else's hold.\<close>

lemma force_spares_others:
  assumes "get_lock b (u_key r) = Some l" and "\<not> is_holder (u__uuid r) l" and "u_force r"
    and "truthy_str (u__uuid r)"
  shows "\<exists>b'. unlock E r wo b = Some b' \<and> locks b' = locks b"
  using assms
  by (simp add: unlock_def unlock_matching_def Let_def locks_reply_unlock
      locks_same [OF same_forget_ownership])

definition stranger :: unlock_req where
  "stranger = give ''z'' ''k''"

theorem stranger_cannot_unlock_witness:
  "\<exists>b'. unlock demo stranger (Some 1) (after one_held) = Some b' \<and> locks b' = locks (after one_held)"
proof -
  define l where "l = the (get_lock (after one_held) ''k'')"
  have "get_lock (after one_held) ''k'' \<noteq> None" by code_simp
  then have l: "get_lock (after one_held) (u_key stranger) = Some l"
    by (simp add: l_def stranger_def give_def)
  have "\<not> is_holder (u__uuid stranger) l" unfolding l_def by code_simp
  moreover have "\<not> hash_has (lockholderTimeouts l \<union> lockholdersAllReleased l) (prop_name (u__uuid stranger))"
    unfolding l_def by code_simp
  moreover have "\<not> u_force stranger" "u_uuid stranger = Some ''xz''" "writable (after one_held) 1"
    by code_simp+
  ultimately show ?thesis
    using stranger_cannot_unlock [OF l, of "''xz''" 1 demo] by auto
qed

definition forced_stranger :: unlock_req where
  "forced_stranger = (give ''z'' ''k'')\<lparr>u_force := True\<rparr>"

lemma force_spares_others_witness:
  "map fst (holders (after one_held) ''k'') = [''a''] \<and>
   (\<exists>b'. unlock demo forced_stranger (Some 1) (after one_held) = Some b' \<and>
     locks b' = locks (after one_held))"
proof -
  define l where "l = the (get_lock (after one_held) ''k'')"
  have "get_lock (after one_held) ''k'' \<noteq> None" by code_simp
  then have l: "get_lock (after one_held) (u_key forced_stranger) = Some l"
    by (simp add: l_def forced_stranger_def give_def)
  have "\<not> is_holder (u__uuid forced_stranger) l" unfolding l_def by code_simp
  moreover have "u_force forced_stranger" "truthy_str (u__uuid forced_stranger)" by code_simp+
  moreover have "map fst (holders (after one_held) ''k'') = [''a'']" by code_simp
  ultimately show ?thesis using force_spares_others [OF l] by blast
qed

subsection \<open>The end of a hold\<close>

lemma get_lock_frame [simp]:
  "get_lock (reply_unlock wo r f b) k = get_lock b k" "get_lock (forget_ownership wo r b) k = get_lock b k"
  "get_lock (del_deadline u b) k = get_lock b k"
  by (simp_all add: locks_reply_unlock locks_same [OF same_forget_ownership]
      locks_same [OF same_del_deadline])

lemma unlock_releases:
  assumes "get_lock b (u_key r) = Some l" and "u__uuid r = Some u" and "is_holder (Some u) l"
    and "lq_length E (notify l) = 0"
  shows "\<exists>b'. unlock E r wo b = Some b' \<and>
    holders b' (u_key r) = AList.delete u (lockholders l) \<and> no_waiters E b' (u_key r) \<and>
    (\<forall>k'. k' \<noteq> u_key r \<longrightarrow> get_lock b' k' = get_lock b k') \<and>
    map fst (locks b') = map fst (locks b)"
proof -
  let ?k = "u_key r"
  let ?l = "(remove_holder u l)\<lparr>lockholdersAllReleased := insert u (lockholdersAllReleased l)\<rparr>"
  let ?b = "reply_unlock wo r (\<lambda>x. UnlockReply x ?k (lq_length E (notify l)) True None)
      (release_own ?k u l (forget_ownership wo r b))"
  have "get_lock ?b ?k = Some ?l" "lq_length E (notify ?l) = 0" "u \<noteq> []"
    using assms(3,4) by (simp_all add: get_lock_release_own is_holder_def)
  from ensure_no_waiters [OF this] obtain b' where
    "ensureNewLockHolder E ?k (Some u) ?b = Some b'" "holders b' ?k = AList.delete u (lockholders ?l)"
    "no_waiters E b' ?k" "\<forall>k'. k' \<noteq> ?k \<longrightarrow> get_lock b' k' = get_lock ?b k'"
    "map fst (locks b') = map fst (locks ?b)"
    by blast
  moreover have "map fst (locks ?b) = map fst (locks b)"
    using assms(1) by (simp add: release_own_def set_lock_def locks_reply_unlock
        locks_same [OF same_del_deadline] locks_same [OF same_forget_ownership] map_fst_update_present)
  ultimately show ?thesis
    using unlock_own [OF assms(1), of E wo] assms(2,3)
    by (simp add: release_own_def delete_idem)
qed

text \<open>C11: The \<open>unlock\<close> of a holder, forced or not, on a key nobody waits for returns and removes that
  one hold: every other hold of the key and every other key stay as they were.\<close>

theorem unlock_removes_own_hold:
  assumes "get_lock b (u_key r) = Some l" and "u__uuid r = Some u" and "is_holder (Some u) l"
    and "lq_length E (notify l) = 0"
  shows "\<exists>b'. unlock E r wo b = Some b' \<and> holders b' (u_key r) = AList.delete u (lockholders l) \<and>
    (\<forall>k. k \<noteq> u_key r \<longrightarrow> holders b' k = holders b k)"
  using unlock_releases [OF assms, of wo] by (auto simp: holders_def)

theorem unlock_removes_own_hold_witness:
  "map fst (holders (after shared) ''k'') = [''a'', ''b''] \<and>
   (\<exists>b'. unlock demo (give ''a'' ''k'') (Some 1) (after shared) = Some b' \<and>
     map fst (holders b' ''k'') = [''b''])"
proof -
  define l where "l = the (get_lock (after shared) ''k'')"
  have "get_lock (after shared) ''k'' \<noteq> None" by code_simp
  then have l: "get_lock (after shared) (u_key (give ''a'' ''k'')) = Some l"
    by (simp add: l_def give_def)
  have "is_holder (Some ''a'') l" "lq_length demo (notify l) = 0" unfolding l_def by code_simp+
  moreover have "map fst (lockholders l) = [''a'', ''b'']" unfolding l_def by code_simp
  moreover have "map fst (AList.delete u m) = [v]" if "map fst m = [u, v]" "u \<noteq> v"
    for u v and m :: "(string, holder) jsmap"
    using that by (auto simp: map_eq_Cons_conv)
  ultimately show ?thesis
    using unlock_removes_own_hold [OF l, of "''a''" demo "Some 1"] l
    by (auto simp: give_def holders_def)
qed

text \<open>The \<open>unlock\<close> of a hold whose deadline has already passed, or that was released by a forced
  \<open>unlock\<close>, is answered as a success, takes the uuid off the key's records of such holds, and on a
  key without waiters changes no holder of any key.\<close>

lemma late_unlock_succeeds:
  assumes "get_lock b (u_key r) = Some l" and "u__uuid r = Some u" and "\<not> is_holder (Some u) l"
    and "u \<noteq> []" and "\<not> u_force r" and "u \<in> lockholderTimeouts l \<union> lockholdersAllReleased l"
    and "lq_length E (notify l) = 0" and "u_uuid r = Some v" and "v \<noteq> []" and "writable b ws"
  shows "\<exists>b' l'. unlock E r (Some ws) b = Some b' \<and> (\<forall>k. holders b' k = holders b k) \<and>
    last (out b') = Sent ws (UnlockReply v (u_key r) (lq_length E (notify l)) True None) \<and>
    get_lock b' (u_key r) = Some l' \<and> lockholderTimeouts l' = lockholderTimeouts l - {u} \<and>
    lockholdersAllReleased l' = lockholdersAllReleased l - {u}"
proof -
  let ?k = "u_key r"
  let ?l = "l\<lparr>lockholderTimeouts := lockholderTimeouts l - {u},
      lockholdersAllReleased := lockholdersAllReleased l - {u}\<rparr>"
  let ?c = "set_lock ?k ?l (forget_ownership (Some ws) r b)"
  let ?b = "send ws (UnlockReply v ?k (lq_length E (notify l)) True None) ?c"
  have "get_lock ?b ?k = Some ?l" "lq_length E (notify ?l) = 0"
    using assms(7) by (simp_all add: locks_send)
  from ensure_no_waiters [OF this assms(4)] obtain b' l' where
    b': "ensureNewLockHolder E ?k (Some u) ?b = Some b'" "holders b' ?k = AList.delete u (lockholders ?l)"
    "\<forall>k'. k' \<noteq> ?k \<longrightarrow> get_lock b' k' = get_lock ?b k'" "out b' = out ?b"
    "get_lock b' ?k = Some l'" "lockholderTimeouts l' = lockholderTimeouts ?l"
    "lockholdersAllReleased l' = lockholdersAllReleased ?l"
    by blast
  have "map_of (lockholders l) u = None" using assms(3,4) by (simp add: is_holder_def)
  then have "holders b' ?k = holders b ?k"
    using b'(2) assms(1) by (simp add: length_delete_absent holders_def)
  moreover have "holders b' k = holders b k" if "k \<noteq> ?k" for k
    using b'(3) that by (simp add: holders_def locks_send)
  ultimately have h: "\<forall>k. holders b' k = holders b k" by metis
  have "unlock E r (Some ws) b = ensureNewLockHolder E ?k (Some u) ?b"
    using assms(1-3,5,6,8,9) by (auto simp: unlock_def unlock_mismatch_def Let_def reply_unlock_def hash_has_def)
  moreover have "last (out b') = Sent ws (UnlockReply v ?k (lq_length E (notify l)) True None)"
    unfolding b'(4) using assms(10) by (subst out_send) simp_all
  ultimately show ?thesis using b'(1,5-7) h by simp
qed

definition expired :: "bevent list" where
  "expired = one_held @ [ClockSet 9000, SweepTick]"

lemma late_unlock_succeeds_witness:
  "holders (after expired) ''k'' = [] \<and>
   (\<exists>b'. unlock demo (give ''a'' ''k'') (Some 1) (after expired) = Some b' \<and>
     last (out b') = Sent 1 (UnlockReply ''xa'' ''k'' 0 True None))"
proof -
  define l where "l = the (get_lock (after expired) ''k'')"
  have "get_lock (after expired) ''k'' \<noteq> None" by code_simp
  then have l: "get_lock (after expired) (u_key (give ''a'' ''k'')) = Some l"
    by (simp add: l_def give_def)
  have "\<not> is_holder (Some ''a'') l" "''a'' \<in> lockholderTimeouts l \<union> lockholdersAllReleased l"
    "lq_length demo (notify l) = 0" "writable (after expired) 1"
    unfolding l_def by code_simp+
  moreover have "holders (after expired) ''k'' = []" by code_simp
  moreover have "u__uuid (give ''a'' ''k'') = Some ''a''" "u_uuid (give ''a'' ''k'') = Some ''xa''"
    "\<not> u_force (give ''a'' ''k'')" "u_key (give ''a'' ''k'') = ''k''"
    by code_simp+
  ultimately show ?thesis
    using late_unlock_succeeds [OF l, of "''a''" demo "''xa''" 1] by auto
qed

end
