(* ===== verification/Departures.thy ===== *)
theory Departures
  imports Releases
begin

text \<open>
  Holds that end without an \<open>unlock\<close>: the sweeper's pass over the deadline index, and the end of a
  connection.
\<close>

subsection \<open>The sweeper\<close>

lemma evict_one_evicts:
  assumes "no_waiters E b k" and "u \<noteq> []"
  shows "\<exists>b'. evict_one E k u b = Some b' \<and> holders b' k = AList.delete u (holders b k) \<and>
    no_waiters E b' k \<and> (\<forall>k'. k' \<noteq> k \<longrightarrow> get_lock b' k' = get_lock b k') \<and>
    holderDeadlines b' = AList.delete u (holderDeadlines b)"
proof (cases "get_lock b k")
  case None
  then show ?thesis using assms(1)
    by (simp add: evict_one_def holders_def) (simp add: no_waiters_def del_deadline_def)
next
  case (Some l)
  show ?thesis
  proof (cases "map_of (lockholders l) u")
    case None
    then show ?thesis using Some assms(1)
      by (simp add: evict_one_def holders_def length_delete_absent) (simp add: no_waiters_def del_deadline_def)
  next
    case held: (Some h)
    let ?l = "(remove_holder u l)\<lparr>lockholderTimeouts := insert u (lockholderTimeouts l)\<rparr>"
    define b2 where "b2 = (set_lock k ?l (del_deadline u b))
      \<lparr>ttlEvictionsTotal := Suc (ttlEvictionsTotal (del_deadline u b))\<rparr>"
    let ?b = "emit (Warn (TtlEvicted u k)) b2"
    have "get_lock ?b k = Some ?l" "lq_length E (notify ?l) = 0"
      using assms(1) Some by (simp_all add: b2_def no_waiters_def)
    from ensure_no_waiters [OF this assms(2)] obtain b' where
      "ensureNewLockHolder E k (Some u) ?b = Some b'" "holders b' k = AList.delete u (lockholders ?l)"
      "no_waiters E b' k" "\<forall>k'. k' \<noteq> k \<longrightarrow> get_lock b' k' = get_lock ?b k'"
      "holderDeadlines b' = AList.delete u (holderDeadlines ?b)"
      by blast
    moreover have "evict_one E k u b = ensureNewLockHolder E k (Some u) ?b"
      using Some held by (simp add: evict_one_def Let_def b2_def)
    moreover have "holderDeadlines ?b = AList.delete u (holderDeadlines b)"
      by (simp add: b2_def emit_def set_lock_def del_deadline_def)
    ultimately show ?thesis
      using Some by (simp add: holders_def delete_idem b2_def)
  qed
qed

lemma evict_all_evicts:
  assumes "\<And>k. no_waiters E b k" and "\<And>k u. (k, u) \<in> set es \<Longrightarrow> u \<noteq> []"
  shows "\<exists>b'. evict_all E es b = Some b' \<and>
    (\<forall>k. holders b' k = filter (\<lambda>p. (k, fst p) \<notin> set es) (holders b k)) \<and>
    holderDeadlines b' = filter (\<lambda>p. fst p \<notin> snd ` set es) (holderDeadlines b)"
  using assms
proof (induction es arbitrary: b)
  case (Cons e es)
  obtain k u where e: "e = (k, u)" by (cases e)
  obtain b1 where b1: "evict_one E k u b = Some b1" "holders b1 k = AList.delete u (holders b k)"
    "no_waiters E b1 k" "\<forall>k'. k' \<noteq> k \<longrightarrow> get_lock b1 k' = get_lock b k'"
    "holderDeadlines b1 = AList.delete u (holderDeadlines b)"
    using evict_one_evicts [OF Cons.prems(1), of u k] Cons.prems(2) [of k u] e by auto
  have nw: "no_waiters E b1 k'" for k'
    using b1(3,4) Cons.prems(1) [of k'] by (cases "k' = k") (simp_all add: no_waiters_def)
  have h1: "holders b1 k' = filter (\<lambda>p. (k', fst p) \<noteq> (k, u)) (holders b k')" for k'
    using b1(2,4) by (cases "k' = k") (auto simp: holders_def delete_filter intro!: filter_cong)
  from Cons.IH [OF nw] Cons.prems(2) obtain b' where
    "evict_all E es b1 = Some b'"
    "\<forall>k. holders b' k = filter (\<lambda>p. (k, fst p) \<notin> set es) (holders b1 k)"
    "holderDeadlines b' = filter (\<lambda>p. fst p \<notin> snd ` set es) (holderDeadlines b1)"
    by auto
  with b1(1,5) h1 show ?case
    by (auto simp: e delete_filter intro!: filter_cong)
qed simp

text \<open>C13: A pass of the sweeper at time \<open>t\<close> over a broker in which nobody waits returns the number
  of deadlines that have passed, releases exactly the holds with those deadlines, in every key, and
  leaves exactly the deadlines that lie ahead.\<close>

theorem sweep_evicts_expired:
  assumes "\<And>k. no_waiters E b k" and "jsmap_wf (holderDeadlines b)" and "[] \<notin> fst ` set (holderDeadlines b)"
  shows "\<exists>b'. tickTtl E t b = Some (length (filter (\<lambda>p. d_expiresAt (snd p) \<le> t) (holderDeadlines b)), b') \<and>
    (\<forall>k. holders b' k = filter (\<lambda>p. case map_of (holderDeadlines b) (fst p) of
        None \<Rightarrow> True | Some d \<Rightarrow> \<not> (d_key d = k \<and> d_expiresAt d \<le> t)) (holders b k)) \<and>
    holderDeadlines b' = filter (\<lambda>p. \<not> d_expiresAt (snd p) \<le> t) (holderDeadlines b)"
proof -
  let ?es = "expired_holds t b"
  have mem: "(k, u) \<in> set ?es \<longleftrightarrow> (\<exists>d. map_of (holderDeadlines b) u = Some d \<and> d_key d = k \<and> d_expiresAt d \<le> t)"
    for k u
    using jsmap_wf_in_set [OF assms(2)] by (force simp: expired_holds_def image_iff)
  have ne: "u \<noteq> []" if "(k, u) \<in> set (expired_holds t b)" for k u
    using that assms(3) by (force simp: expired_holds_def image_iff)
  obtain b' where
    b': "evict_all E ?es b = Some b'"
      "\<forall>k. holders b' k = filter (\<lambda>p. (k, fst p) \<notin> set ?es) (holders b k)"
      "holderDeadlines b' = filter (\<lambda>p. fst p \<notin> snd ` set ?es) (holderDeadlines b)"
    using evict_all_evicts [of E b ?es] assms(1) ne by blast
  have "length ?es = length (filter (\<lambda>p. d_expiresAt (snd p) \<le> t) (holderDeadlines b))"
    by (simp add: expired_holds_def case_prod_unfold)
  moreover have "holders b' k = filter (\<lambda>p. case map_of (holderDeadlines b) (fst p) of
        None \<Rightarrow> True | Some d \<Rightarrow> \<not> (d_key d = k \<and> d_expiresAt d \<le> t)) (holders b k)" for k
    using b'(2) mem by (auto intro!: filter_cong split: option.splits)
  moreover have "fst p \<notin> snd ` set ?es \<longleftrightarrow> \<not> d_expiresAt (snd p) \<le> t" if "p \<in> set (holderDeadlines b)" for p
  proof -
    have "map_of (holderDeadlines b) (fst p) = Some (snd p)"
      using that jsmap_wf_in_set [OF assms(2), of "fst p" "snd p"] by simp
    then show ?thesis using mem by (force simp: image_iff)
  qed
  then have "holderDeadlines b' = filter (\<lambda>p. \<not> d_expiresAt (snd p) \<le> t) (holderDeadlines b)"
    unfolding b'(3) by (rule filter_cong [OF refl])
  ultimately show ?thesis using b'(1) by (auto simp: tickTtl_def)
qed

definition two_deadlines :: "bevent list" where
  "two_deadlines = one_held @ [ClockSet 3000, recv 1 (LockReq (ask ''b'' ''j'' Undefined)), ClockSet 5500]"

lemma no_waiters_all:
  "list_all (\<lambda>p. lq_length E (notify (snd p)) = 0) (locks b) \<Longrightarrow> no_waiters E b k"
  by (force simp: no_waiters_def list_all_iff split: option.splits dest: map_of_SomeD)

theorem sweep_evicts_expired_witness:
  "map fst (holders (after two_deadlines) ''k'') = [''a''] \<and>
   (\<exists>n b'. tickTtl demo 5500 (after two_deadlines) = Some (n, b') \<and> n = 1 \<and>
      map fst (holderDeadlines b') = [''b''])"
proof
  show "map fst (holders (after two_deadlines) ''k'') = [''a'']" by code_simp
  have "list_all (\<lambda>p. lq_length demo (notify (snd p)) = 0) (locks (after two_deadlines))" by code_simp
  then have nw: "no_waiters demo (after two_deadlines) k" for k by (rule no_waiters_all)
  have wf: "jsmap_wf (holderDeadlines (after two_deadlines))"
    "[] \<notin> fst ` set (holderDeadlines (after two_deadlines))"
    by code_simp+
  have "length (filter (\<lambda>p. d_expiresAt (snd p) \<le> 5500) (holderDeadlines (after two_deadlines))) = 1"
    "map fst (filter (\<lambda>p. \<not> d_expiresAt (snd p) \<le> 5500) (holderDeadlines (after two_deadlines))) = [''b'']"
    by code_simp+
  with sweep_evicts_expired [OF nw wf, of 5500]
  show "\<exists>n b'. tickTtl demo 5500 (after two_deadlines) = Some (n, b') \<and> n = 1 \<and>
      map fst (holderDeadlines b') = [''b'']" by auto
qed

subsection \<open>The end of a connection\<close>

text \<open>A lock object nobody waits for, which a closing connection may clean.\<close>

definition quiet :: "'q ext \<Rightarrow> 'q lock_obj \<Rightarrow> bool" where
  "quiet E l \<longleftrightarrow> lq_length E (notify l) = 0 \<and> jsmap_wf (lockholders l) \<and> \<not> isViaShell l"

lemma force_unlock_each_releases:
  assumes "get_lock b k = Some l" and "lq_length E (notify l) = 0" and "distinct us"
    and "set us \<subseteq> fst ` set (lockholders l)" and "[] \<notin> set us"
  shows "\<exists>b'. force_unlock_each E ws k us b = Some b' \<and>
    holders b' k = filter (\<lambda>p. fst p \<notin> set us) (lockholders l) \<and>
    (\<forall>k'. k' \<noteq> k \<longrightarrow> get_lock b' k' = get_lock b k') \<and> map fst (locks b') = map fst (locks b)"
  using assms
proof (induction us arbitrary: b l)
  case (Cons u us)
  let ?r = "force_unlock_req k u"
  have r: "u_key ?r = k" "u__uuid ?r = Some u" by (simp_all add: force_unlock_req_def)
  have "is_holder (Some u) l"
    using Cons.prems(4,5) by (auto simp: is_holder_def weak_map_of_SomeI map_of_eq_None_iff)
  then obtain b1 where b1: "unlock E ?r (Some ws) b = Some b1" "holders b1 k = AList.delete u (lockholders l)"
    "no_waiters E b1 k" "\<forall>k'. k' \<noteq> k \<longrightarrow> get_lock b1 k' = get_lock b k'" "map fst (locks b1) = map fst (locks b)"
    using unlock_releases [of b ?r l u E "Some ws"] Cons.prems(1,2) r by auto
  have "k \<in> set (map fst (locks b1))"
    using Cons.prems(1) b1(5) by (metis map_of_eq_None_iff option.distinct(1) list.set_map)
  then obtain l1 where l1: "get_lock b1 k = Some l1" by (auto dest: weak_map_of_SomeI)
  then have h1: "lockholders l1 = AList.delete u (lockholders l)" "lq_length E (notify l1) = 0"
    using b1(2,3) by (simp_all add: holders_def no_waiters_def)
  have "set us \<subseteq> fst ` set (lockholders l1)"
  proof
    fix v assume v: "v \<in> set us"
    then obtain p where "p \<in> set (lockholders l)" "v = fst p" using Cons.prems(4) by auto
    moreover have "v \<noteq> u" using v Cons.prems(3) by auto
    ultimately show "v \<in> fst ` set (lockholders l1)" by (auto simp: h1 delete_filter)
  qed
  with Cons.IH [OF l1 h1(2)] Cons.prems(3,5) obtain b' where
    "force_unlock_each E ws k us b1 = Some b'"
    "holders b' k = filter (\<lambda>p. fst p \<notin> set us) (lockholders l1)"
    "\<forall>k'. k' \<noteq> k \<longrightarrow> get_lock b' k' = get_lock b1 k'" "map fst (locks b') = map fst (locks b1)"
    by auto
  with b1 show ?case
    by (intro exI [of _ b']) (auto simp: h1 delete_filter intro!: filter_cong)
qed (auto simp: holders_def)

lemma cleanup_key_releases:
  assumes "linked_queue E contents" and "get_lock b k = Some l" and "quiet E l"
    and "[] \<notin> fst ` set (lockholders l)"
  shows "\<exists>b'. cleanup_key E ws uuids k b = Some b' \<and>
    holders b' k = filter (\<lambda>p. h_ws (snd p) \<noteq> ws) (lockholders l) \<and>
    (\<forall>k'. k' \<noteq> k \<longrightarrow> get_lock b' k' = get_lock b k') \<and> map fst (locks b') = map fst (locks b)"
proof -
  define q where "q = fold (lq_remove E) uuids (notify l)"
  define mine where "mine = own_holds ws l"
  define b2 where "b2 = fold del_deadline mine (set_lock k (l\<lparr>notify := q\<rparr>) b)"
  have "contents (fold (lq_remove E) us x) = []" if "contents x = []" for us x
    using that by (induction us arbitrary: x) (simp_all add: linked_queue.contents_remove [OF assms(1)])
  then have q: "lq_length E q = 0"
    using assms(3) by (simp add: q_def quiet_def linked_queue.length_contents [OF assms(1)])
  have locks2: "locks b2 = locks (set_lock k (l\<lparr>notify := q\<rparr>) b)"
    unfolding b2_def by (rule locks_same) (rule same_fold, rule same_del_deadline)
  then have l2: "get_lock b2 k = Some (l\<lparr>notify := q\<rparr>)" by simp
  have keys: "map fst (locks b2) = map fst (locks b)"
    using assms(2) by (simp add: locks2 set_lock_def map_fst_update_present)
  have mine: "distinct mine" "set mine \<subseteq> fst ` set (lockholders l)" "[] \<notin> set mine"
    using assms(3,4) by (auto simp: mine_def own_holds_def quiet_def distinct_map_filter)
  have in_mine: "fst p \<in> set mine \<longleftrightarrow> h_ws (snd p) = ws" if "p \<in> set (lockholders l)" for p
  proof -
    have wf: "jsmap_wf (lockholders l)" using assms(3) by (simp add: quiet_def)
    have "h = snd p" if "(fst p, h) \<in> set (lockholders l)" for h
      using eq_key_imp_eq_value [OF wf that, of "snd p"] \<open>p \<in> set (lockholders l)\<close> by simp
    then show ?thesis using that by (force simp: mine_def own_holds_def image_iff)
  qed
  have rest: "filter (\<lambda>p. fst p \<notin> set mine) (lockholders l) = filter (\<lambda>p. h_ws (snd p) \<noteq> ws) (lockholders l)"
    using in_mine by (intro filter_cong) auto
  have step: "cleanup_key E ws uuids k b = (if mine = [] then Some b2 else force_unlock_each E ws k mine b2)"
    using assms(2,3) by (simp add: cleanup_key_def q_def mine_def b2_def quiet_def Let_def)
  have "\<exists>b'. force_unlock_each E ws k mine b2 = Some b' \<and>
      holders b' k = filter (\<lambda>p. fst p \<notin> set mine) (lockholders l) \<and>
      (\<forall>k'. k' \<noteq> k \<longrightarrow> get_lock b' k' = get_lock b2 k') \<and> map fst (locks b') = map fst (locks b2)"
    using force_unlock_each_releases [OF l2, of E mine ws] q mine by simp
  then obtain b' where b': "force_unlock_each E ws k mine b2 = Some b'"
      "holders b' k = filter (\<lambda>p. fst p \<notin> set mine) (lockholders l)"
      "\<forall>k'. k' \<noteq> k \<longrightarrow> get_lock b' k' = get_lock b2 k'" "map fst (locks b') = map fst (locks b2)"
    by blast
  have "cleanup_key E ws uuids k b = Some b'"
    using step b'(1) by (cases "mine = []") simp_all
  then show ?thesis
    using b'(2-4) rest keys locks2 by (intro exI [of _ b']) simp
qed

lemma cleanup_locks_releases:
  assumes "linked_queue E contents" and "jsmap_wf (locks b)"
    and "\<And>k l. get_lock b k = Some l \<Longrightarrow> k \<in> set (drop i (map fst (locks b))) \<Longrightarrow>
        quiet E l \<and> [] \<notin> fst ` set (lockholders l)"
  shows "\<exists>b'. cleanup_locks E ws uuids i b = Some b' \<and>
    (\<forall>k. holders b' k = (if k \<in> set (drop i (map fst (locks b)))
       then filter (\<lambda>p. h_ws (snd p) \<noteq> ws) (holders b k) else holders b k))"
  using assms(2,3)
proof (induction "length (locks b) - i" arbitrary: b i)
  case 0
  then show ?case by (subst cleanup_locks.simps) simp
next
  case (Suc n)
  let ?ks = "map fst (locks b)"
  define k where "k = fst (locks b ! i)"
  have i: "i < length (locks b)" using Suc.hyps(2) by simp
  then have drop: "drop i ?ks = k # drop (Suc i) ?ks"
    by (simp add: k_def drop_map Cons_nth_drop_Suc [symmetric])
  have k: "k \<notin> set (drop (Suc i) ?ks)" "distinct ?ks"
    using Suc.prems(1) drop distinct_drop [OF Suc.prems(1), of i] by simp_all
  have "k \<in> fst ` set (locks b)" using i by (auto simp: k_def)
  then obtain l where l: "get_lock b k = Some l" by (auto dest: weak_map_of_SomeI)
  with Suc.prems(2) drop have q: "quiet E l" "[] \<notin> fst ` set (lockholders l)" by auto
  from cleanup_key_releases [OF assms(1) l q, of ws uuids] obtain b1 where
    b1: "cleanup_key E ws uuids k b = Some b1" "holders b1 k = filter (\<lambda>p. h_ws (snd p) \<noteq> ws) (lockholders l)"
      "\<forall>k'. k' \<noteq> k \<longrightarrow> get_lock b1 k' = get_lock b k'" "map fst (locks b1) = ?ks"
    by blast
  have len: "length (locks b1) = length (locks b)" using b1(4) by (metis length_map)
  have "\<exists>b'. cleanup_locks E ws uuids (Suc i) b1 = Some b' \<and>
    (\<forall>k. holders b' k = (if k \<in> set (drop (Suc i) (map fst (locks b1)))
       then filter (\<lambda>p. h_ws (snd p) \<noteq> ws) (holders b1 k) else holders b1 k))"
  proof (rule Suc.hyps(1))
    show "n = length (locks b1) - Suc i" using Suc.hyps(2) len by simp
    show "jsmap_wf (locks b1)" using Suc.prems(1) b1(4) by simp
    show "quiet E m \<and> [] \<notin> fst ` set (lockholders m)"
      if "get_lock b1 k' = Some m" "k' \<in> set (drop (Suc i) (map fst (locks b1)))" for k' m
    proof -
      have "k' \<noteq> k" using that(2) k(1) b1(4) by auto
      then show ?thesis using that b1(3,4) Suc.prems(2) [of k' m] drop by simp
    qed
  qed
  then obtain b' where b': "cleanup_locks E ws uuids (Suc i) b1 = Some b'"
    "\<And>x. holders b' x = (if x \<in> set (drop (Suc i) ?ks)
       then filter (\<lambda>p. h_ws (snd p) \<noteq> ws) (holders b1 x) else holders b1 x)"
    using b1(4) by auto
  have "cleanup_locks E ws uuids i b = Some b'"
    using i b1(1) b'(1) by (subst cleanup_locks.simps) (simp add: k_def)
  moreover have "holders b' x = (if x \<in> set (drop i ?ks)
       then filter (\<lambda>p. h_ws (snd p) \<noteq> ws) (holders b x) else holders b x)" for x
    using b'(2) [of x] b1(2,3) l k(1) drop by (cases "x = k") (simp_all add: holders_def)
  ultimately show ?case by blast
qed

lemma cleanup_connection_releases:
  assumes "linked_queue E contents" and "jsmap_wf (locks b)" and "\<not> lmxClosed b ws"
    and "\<And>k l. get_lock b k = Some l \<Longrightarrow> quiet E l \<and> [] \<notin> fst ` set (lockholders l)"
  shows "\<exists>b'. cleanupConnection E ws b = Some b' \<and>
    (\<forall>k. holders b' k = filter (\<lambda>p. h_ws (snd p) \<noteq> ws) (holders b k))"
proof -
  define b1 where "b1 = fold clear_reelection (case wsToKeys b ws of None \<Rightarrow> [] | Some ks \<Rightarrow> ks)
    (b\<lparr>lmxClosed := (lmxClosed b)(ws := True), connectedClients := removeAll ws (connectedClients b),
       wsToKeys := (wsToKeys b)(ws := None), wsToUUIDs := (wsToUUIDs b)(ws := None)\<rparr>)"
  have "locks (fold clear_reelection ks c) = locks c" for ks and c :: "'a broker"
    by (rule locks_same) (rule same_fold, rule same_clear_reelection)
  then have locks: "locks b1 = locks b" by (simp add: b1_def)
  have step: "cleanupConnection E ws b = cleanup_locks E ws
      (case wsToUUIDs b ws of None \<Rightarrow> [] | Some us \<Rightarrow> us) 0 b1"
    using assms(3) by (simp add: cleanupConnection_def Let_def b1_def)
  obtain b' where b': "cleanup_locks E ws (case wsToUUIDs b ws of None \<Rightarrow> [] | Some us \<Rightarrow> us) 0 b1 = Some b'"
    "\<And>k. holders b' k = (if k \<in> set (map fst (locks b1))
       then filter (\<lambda>p. h_ws (snd p) \<noteq> ws) (holders b1 k) else holders b1 k)"
    using cleanup_locks_releases [OF assms(1), of b1 0 ws] assms(2,4) locks by fastforce
  have "holders b' k = filter (\<lambda>p. h_ws (snd p) \<noteq> ws) (holders b k)" for k
  proof (cases "k \<in> set (map fst (locks b))")
    case False
    then have "holders b k = []" by (simp add: holders_def map_of_eq_None_iff [symmetric] del: map_of_eq_None_iff)
    with b'(2) [of k] False locks show ?thesis by (simp add: holders_def)
  qed (use b'(2) [of k] locks in \<open>simp add: holders_def\<close>)
  with step b'(1) show ?thesis by auto
qed

text \<open>C12: When a connection ends in a broker in which nobody waits and no hold is filed under the empty
  uuid, the broker releases every hold of that connection, in every key, and no hold of any other
  connection. What becomes of the others next to a hold under the empty uuid is shown below.\<close>

theorem disconnect_releases_own_holds:
  assumes "linked_queue E contents" and "jsmap_wf (locks b)" and "\<not> lmxClosed b ws"
    and "\<And>k l. get_lock b k = Some l \<Longrightarrow> quiet E l \<and> [] \<notin> fst ` set (lockholders l)"
  shows "\<exists>b'. cleanupConnection E ws b = Some b' \<and>
    (\<forall>k. holders b' k = filter (\<lambda>p. h_ws (snd p) \<noteq> ws) (holders b k))"
  using cleanup_connection_releases [OF assms] .

definition two_clients :: "bevent list" where
  "two_clients = join 1 @ join 2 @
     [recv 1 (LockReq (ask ''a'' ''k'' (Integer 2))), recv 2 (LockReq (ask ''b'' ''k'' (Integer 2))),
      recv 1 (LockReq (ask ''c'' ''j'' Undefined))]"

definition quiet_holders :: "'q ext \<Rightarrow> 'q broker \<Rightarrow> bool" where
  "quiet_holders E b = list_all (\<lambda>p. quiet E (snd p) \<and> [] \<notin> fst ` set (lockholders (snd p))) (locks b)"

lemma quiet_holdersD:
  "quiet_holders E b \<Longrightarrow> get_lock b k = Some l \<Longrightarrow> quiet E l \<and> [] \<notin> fst ` set (lockholders l)"
  by (drule map_of_SomeD) (simp add: quiet_holders_def list_all_iff, metis snd_conv)

theorem disconnect_releases_own_holds_witness:
  "map fst (holders (after two_clients) ''k'') = [''a'', ''b''] \<and>
   (\<exists>b'. cleanupConnection demo 1 (after two_clients) = Some b' \<and>
     map fst (holders b' ''k'') = [''b''] \<and> holders b' ''j'' = [])"
proof
  show "map fst (holders (after two_clients) ''k'') = [''a'', ''b'']" by code_simp
  have wf: "jsmap_wf (locks (after two_clients))" "\<not> lmxClosed (after two_clients) 1" by code_simp+
  have "quiet_holders demo (after two_clients)" by code_simp
  note q = quiet_holdersD [OF this]
  have "map fst (filter (\<lambda>p. h_ws (snd p) \<noteq> 1) (holders (after two_clients) ''k'')) = [''b'']"
    "filter (\<lambda>p. h_ws (snd p) \<noteq> 1) (holders (after two_clients) ''j'') = []"
    by code_simp+
  moreover obtain b' where "cleanupConnection demo 1 (after two_clients) = Some b'"
    "\<forall>k. holders b' k = filter (\<lambda>p. h_ws (snd p) \<noteq> 1) (holders (after two_clients) k)"
    using disconnect_releases_own_holds [OF demo_queue wf] q by blast
  ultimately show "\<exists>b'. cleanupConnection demo 1 (after two_clients) = Some b' \<and>
     map fst (holders b' ''k'') = [''b''] \<and> holders b' ''j'' = []" by auto
qed

text \<open>
  A request with an empty uuid is granted like any other. When its connection ends, the forced \<open>unlock\<close>
  with \<open>_uuid: ''\<close> is taken for one without a \<open>_uuid\<close> and wipes every holder of the key.
\<close>

definition nameless_client :: "bevent list" where
  "nameless_client = join 1 @ join 2 @
     [recv 1 (LockReq (ask ''a'' ''k'' (Integer 2))), recv 2 (LockReq (ask [] ''k'' (Integer 2)))]"

lemma empty_uuid_wipes_all:
  "map (\<lambda>p. (fst p, h_ws (snd p))) (holders (after nameless_client) ''k'') = [(''a'', 1), ([], 2)] \<and>
   map_option (\<lambda>b. holders b ''k'') (cleanupConnection demo 2 (after nameless_client)) = Some []"
  by code_simp

end
