(* ===== verification/JsonParser.thy ===== *)
theory JsonParser
  imports Versions
begin

text \<open>
  Framing (\<open>src/src/json-parser.ts\<close>): the byte stream of a socket is decoded, cut at the delimiter
  and handed over line by line. \<open>handleJSON\<close> is the base class's; the model records the lines it is
  given, in order.

  Text is represented by its UTF-8 bytes, so the model covers streams of valid UTF-8: Node's
  \<open>StringDecoder\<close> then emits the bytes of the complete characters and keeps the beginning of an
  incomplete one. The delimiter is one character, as in every use in the repository.
\<close>

subsection \<open>The decoder\<close>

definition byte :: "char \<Rightarrow> nat" where
  "byte c = of_char c"

definition utf8_length :: "char \<Rightarrow> nat" where
  "utf8_length c =
     (if byte c < 192 then 1 else if byte c < 224 then 2 else if byte c < 240 then 3
      else if byte c < 248 then 4 else 1)"

definition continuation :: "char \<Rightarrow> bool" where
  "continuation c = (128 \<le> byte c \<and> byte c < 192)"

text \<open>How many of the last bytes belong to a character that is not complete yet.\<close>

fun incomplete :: "nat \<Rightarrow> string \<Rightarrow> nat" where
  "incomplete i [] = 0"
| "incomplete i (c # cs) =
     (if 3 < i then 0
      else if continuation c then incomplete (Suc i) cs
      else if i < utf8_length c then i else 0)"

definition decoder_write :: "string \<Rightarrow> string \<Rightarrow> string \<times> string" where
  "decoder_write pending chunk =
     (let s = pending @ chunk; n = length s - incomplete 1 (rev s) in (take n s, drop n s))"

subsection \<open>The parser\<close>

datatype chunk = Buffer string | Text string | NullChunk

record parser =
  p_delimiter :: char
  p_pending :: string          \<comment> \<open>inside the decoder\<close>
  p_lastLineData :: string
  p_delay :: bool
  p_delayEvery :: nat
  p_count :: nat
  p_yields :: nat              \<comment> \<open>how often the loop went through \<open>setImmediate\<close>\<close>
  p_trackBytes :: bool
  p_bytesRead :: nat
  p_handled :: "string list"   \<comment> \<open>the arguments of \<open>handleJSON\<close>\<close>

definition getJSONParseDelayEvery :: "string option \<Rightarrow> jsval \<Rightarrow> int" where
  "getJSONParseDelayEvery raw parsed =
     (if truthy_str raw \<and> is_integer parsed \<and> int_value parsed > 1 then int_value parsed else 1024)"

text \<open>A new parser; the initial values of \<open>delay\<close> and \<open>count\<close> are the base class's.\<close>

definition createParser :: "char \<Rightarrow> bool \<Rightarrow> nat \<Rightarrow> nat \<Rightarrow> bool \<Rightarrow> parser" where
  "createParser d delay every count track =
     \<lparr>p_delimiter = d, p_pending = [], p_lastLineData = [], p_delay = delay, p_delayEvery = every,
      p_count = count, p_yields = 0, p_trackBytes = track, p_bytesRead = 0, p_handled = []\<rparr>"

fun getChunkByteLength :: "chunk \<Rightarrow> nat" where
  "getChunkByteLength (Buffer s) = length s"
| "getChunkByteLength (Text s) = length s"
| "getChunkByteLength NullChunk = 0"

fun decodeChunk :: "chunk \<Rightarrow> parser \<Rightarrow> string \<times> parser" where
  "decodeChunk (Buffer s) p =
     (let (t, r) = decoder_write (p_pending p) s in (t, p\<lparr>p_pending := r\<rparr>))"
| "decodeChunk (Text s) p = (s, p)"
| "decodeChunk NullChunk p = ([], p)"

fun processLines :: "string list \<Rightarrow> parser \<Rightarrow> parser" where
  "processLines [] p = p"
| "processLines (l # ls) p =
     (if l = [] then processLines ls p
      else
        (let p1 = p\<lparr>p_handled := p_handled p @ [l]\<rparr>
         in if \<not> p_delay p1 then processLines ls p1
            else if p_count p1 mod p_delayEvery p1 = 0
            then processLines ls (p1\<lparr>p_count := 1, p_yields := Suc (p_yields p1)\<rparr>)
            else processLines ls (p1\<lparr>p_count := Suc (p_count p1)\<rparr>)))"

definition transform :: "chunk \<Rightarrow> parser \<Rightarrow> parser" where
  "transform c p =
     (let p1 = (if p_trackBytes p then p\<lparr>p_bytesRead := p_bytesRead p + getChunkByteLength c\<rparr> else p);
          (data, p2) = decodeChunk c p1;
          lines = split_on (p_delimiter p2) (p_lastLineData p2 @ data)
      in processLines (butlast lines) (p2\<lparr>p_lastLineData := last lines\<rparr>))"

definition flush :: "parser \<Rightarrow> parser" where
  "flush p =
     (let p1 = p\<lparr>p_lastLineData := p_lastLineData p @ p_pending p, p_pending := []\<rparr>
      in if p_lastLineData p1 = [] then p1
         else processLines (split_on (p_delimiter p1) (p_lastLineData p1)) (p1\<lparr>p_lastLineData := []\<rparr>))"

subsection \<open>Cutting at the delimiter\<close>

lemma split_on_chunks:
  "split_on d (a @ b) = butlast (split_on d a) @ split_on d (last (split_on d a) @ b)"
proof (induction a)
  case (Cons x a)
  obtain y ys where ys: "split_on d a = y # ys" by (cases "split_on d a") auto
  show ?case
  proof (cases "ys = []")
    case True
    then show ?thesis using Cons ys by (cases "split_on d (y @ b)") auto
  next
    case False
    then show ?thesis using Cons ys by (auto split: list.splits)
  qed
qed simp

lemma split_on_frames:
  "\<forall>l \<in> set ls. d \<notin> set l \<Longrightarrow> split_on d (concat (map (\<lambda>l. l @ [d]) ls)) = ls @ [[]]"
  by (induction ls) (auto simp: split_on_line)

lemma processLines_result:
  "p_handled (processLines ls p) = p_handled p @ filter (\<lambda>l. l \<noteq> []) ls"
  "p_lastLineData (processLines ls p) = p_lastLineData p"
  "p_pending (processLines ls p) = p_pending p"
  "p_delimiter (processLines ls p) = p_delimiter p"
  by (induction ls p rule: processLines.induct) (auto simp: Let_def)

lemma decoder_write_bytes:
  assumes "decoder_write r c = (t, r')"
  shows "t @ r' = r @ c" and "r' \<noteq> [] \<Longrightarrow> 128 \<le> byte (last r')"
proof -
  define n where "n = length (r @ c) - incomplete 1 (rev (r @ c))"
  have tr: "t = take n (r @ c)" "r' = drop n (r @ c)"
    using assms by (simp_all only: decoder_write_def Let_def n_def prod.inject)
  then show "t @ r' = r @ c" by (simp only: append_take_drop_id)
  show "128 \<le> byte (last r')" if "r' \<noteq> []"
  proof (rule ccontr)
    assume ascii: "\<not> 128 \<le> byte (last r')"
    have "n < length (r @ c)" using that unfolding tr(2) by (metis drop_eq_Nil not_le)
    then have "last r' = last (r @ c)" "r @ c \<noteq> []"
      unfolding tr(2) using last_drop [of n "r @ c"] by (auto simp del: last_append)
    then obtain xs x where x: "rev (r @ c) = x # xs" "x = last r'"
      by (metis hd_rev list.exhaust list.sel(1) rev_is_Nil_conv)
    have "incomplete 1 (rev (r @ c)) = 0"
      unfolding x(1) using ascii x(2) by (simp add: continuation_def utf8_length_def)
    then have "r' = []" by (simp add: tr n_def)
    with that show False by simp
  qed
qed

subsection \<open>Chunks do not matter\<close>

text \<open>What a parser knows after the bytes \<open>s\<close>.\<close>

definition after_bytes :: "string \<Rightarrow> parser \<Rightarrow> bool" where
  "after_bytes s p \<longleftrightarrow> (p_pending p \<noteq> [] \<longrightarrow> 128 \<le> byte (last (p_pending p))) \<and> (\<exists>t. t @ p_pending p = s \<and>
     p_handled p = filter (\<lambda>l. l \<noteq> []) (butlast (split_on (p_delimiter p) t)) \<and>
     p_lastLineData p = last (split_on (p_delimiter p) t))"

lemma transform_after:
  assumes "after_bytes s p"
  shows "after_bytes (s @ c) (transform (Buffer c) p) \<and> p_delimiter (transform (Buffer c) p) = p_delimiter p"
proof -
  let ?d = "p_delimiter p"
  obtain t where t: "t @ p_pending p = s" "p_handled p = filter (\<lambda>l. l \<noteq> []) (butlast (split_on ?d t))"
    "p_lastLineData p = last (split_on ?d t)"
    using assms by (auto simp: after_bytes_def)
  obtain u r where w: "decoder_write (p_pending p) c = (u, r)" by (cases "decoder_write (p_pending p) c")
  let ?ls = "split_on ?d (last (split_on ?d t) @ u)"
  have split: "split_on ?d (t @ u) = butlast (split_on ?d t) @ ?ls" by (rule split_on_chunks)
  have "(t @ u) @ r = s @ c" using decoder_write_bytes(1) [OF w] t(1) by (metis append.assoc)
  moreover have "p_handled (transform (Buffer c) p) = filter (\<lambda>l. l \<noteq> []) (butlast (split_on ?d (t @ u)))"
    "p_lastLineData (transform (Buffer c) p) = last (split_on ?d (t @ u))"
    "p_pending (transform (Buffer c) p) = r" "p_delimiter (transform (Buffer c) p) = ?d"
    using t w by (simp_all add: transform_def Let_def processLines_result split butlast_append)
  ultimately show ?thesis
    unfolding after_bytes_def using decoder_write_bytes(2) [OF w] by (metis (no_types, lifting))
qed

lemma transforms_after:
  "after_bytes s p \<Longrightarrow> after_bytes (s @ concat cs) (fold transform (map Buffer cs) p) \<and>
     p_delimiter (fold transform (map Buffer cs) p) = p_delimiter p"
proof (induction cs arbitrary: s p)
  case (Cons c cs)
  from transform_after [OF Cons.prems, of c] Cons.IH [of "s @ c" "transform (Buffer c) p"] show ?case by simp
qed simp

lemma after_bytes_create: "after_bytes [] (createParser d delay every count track)"
  by (simp add: after_bytes_def createParser_def)

text \<open>C14: However the bytes of a stream are cut into chunks, in the middle of a frame or of a character,
  the parser hands over exactly the non-empty lines of the whole stream, in order, once it ends.\<close>

theorem framing_ignores_chunks:
  "p_handled (flush (fold transform (map Buffer cs) (createParser d delay every count track))) =
     filter (\<lambda>l. l \<noteq> []) (split_on d (concat cs))"
proof -
  define p where "p = fold transform (map Buffer cs) (createParser d delay every count track)"
  have "p_delimiter (createParser d delay every count track) = d" by (simp add: createParser_def)
  then have p: "after_bytes (concat cs) p" "p_delimiter p = d"
    using transforms_after [OF after_bytes_create, of cs d delay every count track] by (simp_all add: p_def)
  then obtain t where t: "t @ p_pending p = concat cs"
    "p_handled p = filter (\<lambda>l. l \<noteq> []) (butlast (split_on d t))" "p_lastLineData p = last (split_on d t)"
    by (auto simp: after_bytes_def)
  have "split_on d (concat cs) = butlast (split_on d t) @ split_on d (last (split_on d t) @ p_pending p)"
    using split_on_chunks [of d t "p_pending p"] t(1) by simp
  then show ?thesis
    unfolding p_def [symmetric] using t(2,3) p(2)
    by (simp add: flush_def Let_def processLines_result)
qed

text \<open>The frames a peer sends, each a non-empty line followed by the delimiter, arrive as those
  lines, in order, as soon as their bytes have arrived, however the stream is cut into chunks.\<close>

lemma frames_arrive:
  assumes "concat cs = concat (map (\<lambda>l. l @ [d]) ls)" and "\<forall>l \<in> set ls. l \<noteq> [] \<and> d \<notin> set l"
    and "byte d < 128"
  shows "p_handled (fold transform (map Buffer cs) (createParser d delay every count track)) = ls"
proof -
  define p where "p = fold transform (map Buffer cs) (createParser d delay every count track)"
  have "p_delimiter (createParser d delay every count track) = d" by (simp add: createParser_def)
  then have p: "after_bytes (concat cs) p" "p_delimiter p = d"
    using transforms_after [OF after_bytes_create, of cs d delay every count track] by (simp_all add: p_def)
  then obtain t where t: "t @ p_pending p = concat cs"
    "p_handled p = filter (\<lambda>l. l \<noteq> []) (butlast (split_on d t))" 
    and ascii: "p_pending p \<noteq> [] \<Longrightarrow> 128 \<le> byte (last (p_pending p))"
    by (auto simp: after_bytes_def)
  have "p_pending p = []"
  proof (rule ccontr)
    assume ne: "p_pending p \<noteq> []"
    then have "last (p_pending p) = last (concat cs)" using t(1) by (metis last_appendR)
    moreover have "concat cs \<noteq> []" using ne t(1) by (metis Nil_is_append_conv)
    then have "ls \<noteq> []" using assms(1) by auto
    then have "concat (map (\<lambda>l. l @ [d]) ls) = concat (map (\<lambda>l. l @ [d]) (butlast ls)) @ last ls @ [d]"
      by (induction ls) auto
    then have "last (concat cs) = d" using assms(1) by simp
    ultimately show False using ascii [OF ne] assms(3) by simp
  qed
  with t assms(1) have "p_handled p = filter (\<lambda>l. l \<noteq> []) (butlast (split_on d (concat (map (\<lambda>l. l @ [d]) ls))))"
    by simp
  also have "\<dots> = ls"
    using split_on_frames [of ls d] assms(2) by (simp add: filter_id_conv)
  finally show ?thesis by (simp only: p_def)
qed

lemma frames_arrive_witness:
  "p_handled (fold transform (map Buffer [''[1]'' @ [CHR 10, CHR 0xC3], CHR 0xA9 # ''x'', [CHR 10]])
     (createParser (CHR 10) False 1024 1 False)) = [''[1]'', [CHR 0xC3, CHR 0xA9] @ ''x'']"
  by (rule frames_arrive) (simp_all add: byte_def)

end
