(* ===== verification/Authority.thy ===== *)
theory Authority
  imports BrokerState
begin

text \<open>
  The fencing authority of the hardened broker (\<open>src/src/broker-1-hardened.ts\<close>): the watermark, its
  text form, the file it is kept in, the seed of a new lock object and the set trap of the proxy
  around it.

  A write of the file is a sequence of system calls, any of which may fail; \<open>fail_at\<close> says which
  one does. The file itself changes with \<open>rename\<close> only.
\<close>

datatype authority_error =
    Exhausted
  | PersistenceFailed
  | FileSystemError      \<comment> \<open>the error of \<open>mkdirSync\<close>, which stands before the \<open>try\<close>\<close>

subsection \<open>The watermark as text\<close>

definition max_fencing_token :: int where
  "max_fencing_token = max_safe_integer"

definition is_digit :: "char \<Rightarrow> bool" where
  "is_digit c = (48 \<le> (of_char c :: nat) \<and> (of_char c :: nat) \<le> 57)"

fun decimal_value :: "string \<Rightarrow> int \<Rightarrow> int" where
  "decimal_value [] acc = acc"
| "decimal_value (c # cs) acc = decimal_value cs (acc * 10 + (of_char c - 48))"

text \<open>\<open>/^(0|[1-9][0-9]*)$/\<close>\<close>

definition canonical_decimal :: "string \<Rightarrow> bool" where
  "canonical_decimal s = (s = ''0'' \<or> (s \<noteq> [] \<and> list_all is_digit s \<and> hd s \<noteq> CHR ''0''))"

text \<open>\<open>Number(raw)\<close> is exact up to the largest safe integer, and above it is not a safe integer.\<close>

fun parseWatermarkText :: "jsval \<Rightarrow> authority_error + int" where
  "parseWatermarkText (String s) =
     (if \<not> canonical_decimal s then Inl PersistenceFailed
      else if max_fencing_token < decimal_value s 0 then Inl PersistenceFailed
      else Inr (decimal_value s 0))"
| "parseWatermarkText _ = Inl PersistenceFailed"

subsection \<open>The state file\<close>

datatype state_file =
    NoFile
  | NotJson                   \<comment> \<open>unreadable, or not JSON\<close>
  | JsonFile jsval jsval      \<comment> \<open>the fields \<open>schema\<close> and \<open>watermark\<close>\<close>

definition fencing_state_schema :: string where
  "fencing_state_schema = ''live-mutex.fencing-watermark/v1''"

text \<open>\<open>path\<close> is whether a state path is configured.\<close>

definition readPersistedWatermark :: "bool \<Rightarrow> state_file \<Rightarrow> authority_error + int" where
  "readPersistedWatermark path f =
     (if \<not> path then Inr 0
      else (case f of
              NoFile \<Rightarrow> Inr 0
            | NotJson \<Rightarrow> Inl PersistenceFailed
            | JsonFile schema w \<Rightarrow>
                if schema \<noteq> String fencing_state_schema then Inl PersistenceFailed
                else parseWatermarkText w))"

text \<open>The system calls of \<open>persistWatermarkAtomically\<close>, in order.\<close>

datatype disk_call = MkDir | OpenTemp | WriteTemp | FsyncTemp | CloseTemp | RenameTemp | FsyncDir

definition disk_calls :: "disk_call list" where
  "disk_calls = [MkDir, OpenTemp, WriteTemp, FsyncTemp, CloseTemp, RenameTemp, FsyncDir]"

record disk =
  main_file :: state_file
  temp_file :: state_file

definition payload :: "int \<Rightarrow> state_file" where
  "payload w = JsonFile (String fencing_state_schema) (String (decimal_digits (nat w)))"

fun disk_effect :: "int \<Rightarrow> disk_call \<Rightarrow> disk \<Rightarrow> disk" where
  "disk_effect w OpenTemp d = d\<lparr>temp_file := NotJson\<rparr>"
| "disk_effect w WriteTemp d = d\<lparr>temp_file := payload w\<rparr>"
| "disk_effect w RenameTemp d = d\<lparr>main_file := temp_file d, temp_file := NoFile\<rparr>"
| "disk_effect w _ d = d"

text \<open>
  The calls run until one fails. A failure inside the \<open>try\<close> removes the temporary file and is
  reported as a persistence failure.
\<close>

fun run_calls :: "int \<Rightarrow> disk_call option \<Rightarrow> disk_call list \<Rightarrow> disk \<Rightarrow> authority_error option \<times> disk" where
  "run_calls w fail [] d = (None, d)"
| "run_calls w fail (c # cs) d =
     (if fail = Some c
      then (if c = MkDir then (Some FileSystemError, d) else (Some PersistenceFailed, d\<lparr>temp_file := NoFile\<rparr>))
      else run_calls w fail cs (disk_effect w c d))"

definition persistWatermarkAtomically ::
  "disk_call option \<Rightarrow> int \<Rightarrow> disk \<Rightarrow> authority_error option \<times> disk" where
  "persistWatermarkAtomically fail w d = run_calls w fail disk_calls d"

text \<open>What a crash in front of the call number \<open>n\<close> leaves on the disk.\<close>

definition crash_during :: "nat \<Rightarrow> int \<Rightarrow> disk \<Rightarrow> disk" where
  "crash_during n w d = fold (disk_effect w) (take n disk_calls) d"

subsection \<open>The authority\<close>

record authority =
  fencingTokenFloor :: int
  fencingStatePath :: bool
  fencingWatermark :: int
  a_disk :: disk
  fail_at :: "disk_call option"

text \<open>\<open>configuredFloor\<close> and the field initialisers of the hardened \<open>Broker1\<close>.\<close>

definition configuredFloor :: "string option \<Rightarrow> authority_error + int" where
  "configuredFloor raw = (if truthy_str raw then parseWatermarkText (String (prop_name raw)) else Inr 0)"

definition open_authority :: "string option \<Rightarrow> bool \<Rightarrow> disk \<Rightarrow> authority_error + authority" where
  "open_authority floor_text path d =
     (case configuredFloor floor_text of
        Inl e \<Rightarrow> Inl e
      | Inr fl \<Rightarrow>
          (case readPersistedWatermark path (main_file d) of
             Inl e \<Rightarrow> Inl e
           | Inr w \<Rightarrow> Inr \<lparr>fencingTokenFloor = fl, fencingStatePath = path,
                           fencingWatermark = max fl w, a_disk = d, fail_at = None\<rparr>))"

definition persistFencingWatermark :: "int \<Rightarrow> authority \<Rightarrow> authority_error option \<times> authority" where
  "persistFencingWatermark w a =
     (if \<not> fencingStatePath a then (None, a)
      else (let (e, d) = persistWatermarkAtomically (fail_at a) w (a_disk a) in (e, a\<lparr>a_disk := d\<rparr>)))"

definition hasHeadroom :: "nat \<Rightarrow> authority \<Rightarrow> bool" where
  "hasHeadroom n a = (n \<le> 64 \<and> fencingWatermark a \<le> max_fencing_token - int n)"

definition raise_watermark :: "int \<Rightarrow> authority \<Rightarrow> authority_error option \<times> authority" where
  "raise_watermark w a =
     (if w > fencingWatermark a
      then (case persistFencingWatermark w a of
              (Some e, a') \<Rightarrow> (Some e, a')
            | (None, a') \<Rightarrow> (None, a'\<lparr>fencingWatermark := w\<rparr>))
      else (None, a))"

text \<open>The counter a new lock object starts from, given the clock's proposal.\<close>

definition seed_token :: "int \<Rightarrow> authority \<Rightarrow> (authority_error + int) \<times> authority" where
  "seed_token clock a =
     (let seed = max clock (max (fencingTokenFloor a) (fencingWatermark a))
      in if seed < 0 \<or> max_fencing_token < seed then (Inl Exhausted, a)
         else (case raise_watermark seed a of
                 (Some e, a') \<Rightarrow> (Inl e, a')
               | (None, a') \<Rightarrow> (Inr seed, a')))"

text \<open>The set trap: \<open>nextFencingToken = value\<close> on an object whose counter is \<open>current\<close>.\<close>

definition set_token :: "int \<Rightarrow> int \<Rightarrow> authority \<Rightarrow> authority_error option \<times> authority" where
  "set_token current value a =
     (if value \<le> current \<or> max_fencing_token < value then (Some Exhausted, a)
      else raise_watermark value a)"

subsection \<open>Printing and parsing\<close>

lemma of_char_digit: "n < 10 \<Longrightarrow> (of_char (digit n) :: nat) = 48 + n"
  by (simp add: digit_def)

lemma of_char_digit_int: "n < 10 \<Longrightarrow> (of_char (digit n) :: int) = 48 + int n"
  using of_char_digit [of n] by (metis of_nat_add of_nat_numeral of_nat_of_char)

lemma is_digit_digit: "n < 10 \<Longrightarrow> is_digit (digit n)"
  by (simp add: is_digit_def of_char_digit)

lemma digit_of: "is_digit c \<Longrightarrow> digit (of_char c - 48) = c"
  by (simp add: is_digit_def digit_def)

lemma digit_zero: "digit 0 = CHR ''0''"
  by code_simp

lemma decimal_value_append: "decimal_value (a @ b) acc = decimal_value b (decimal_value a acc)"
  by (induction a arbitrary: acc) simp_all

lemma decimal_value_digits: "decimal_value (decimal_digits n) 0 = int n"
proof (induction n rule: decimal_digits.induct)
  case (1 n)
  have "int (n div 10) * 10 + int (n mod 10) = int n"
    by (metis div_mult_mod_eq of_nat_add of_nat_mult of_nat_numeral)
  with 1 show ?case
    by (subst decimal_digits.simps) (simp add: decimal_value_append of_char_digit_int)
qed

lemma decimal_digits_canonical: "canonical_decimal (decimal_digits n)"
proof -
  have "decimal_digits n \<noteq> [] \<and> list_all is_digit (decimal_digits n) \<and> (0 < n \<longrightarrow> hd (decimal_digits n) \<noteq> CHR ''0'')"
  proof (induction n rule: decimal_digits.induct)
    case (1 n)
    show ?case
    proof (cases "n < 10")
      case True
      have "digit n = CHR ''0'' \<Longrightarrow> n = 0" using of_char_digit [OF True] by simp
      then show ?thesis using True by (subst (1 2 3) decimal_digits.simps) (auto simp: is_digit_digit)
    next
      case False
      then show ?thesis using 1 by (subst (1 2 3) decimal_digits.simps) (simp add: is_digit_digit)
    qed
  qed
  moreover have "decimal_digits 0 = ''0''" by (simp add: decimal_digits.simps digit_zero)
  ultimately show ?thesis by (cases "n = 0") (auto simp: canonical_decimal_def)
qed

lemma decimal_value_pos:
  "list_all is_digit s \<Longrightarrow> 0 \<le> acc \<Longrightarrow> acc \<le> decimal_value s acc"
proof (induction s arbitrary: acc)
  case (Cons c s)
  have "0 \<le> (of_char c :: int) - 48" using Cons.prems(1)
    by (simp add: is_digit_def) (metis of_nat_le_iff of_nat_numeral of_nat_of_char)
  with Cons.IH [of "acc * 10 + (of_char c - 48)"] Cons.prems show ?case by simp
qed simp

lemma digits_decimal_value:
  assumes "s \<noteq> []" "list_all is_digit s" "hd s \<noteq> CHR ''0''"
  shows "decimal_digits (nat (decimal_value s 0)) = s \<and> 1 \<le> decimal_value s 0"
  using assms
proof (induction s rule: rev_induct)
  case (snoc c s)
  define d where "d = (of_char c :: nat) - 48"
  have c: "is_digit c" using snoc.prems(2) by simp
  then have range: "48 \<le> (of_char c :: nat)" "(of_char c :: nat) \<le> 57" by (simp_all only: is_digit_def)
  have int: "int (of_char c :: nat) = of_char c" by (rule of_nat_of_char)
  have "digit d = c" unfolding d_def using c by (rule digit_of)
  moreover have "d < 10" "(of_char c :: int) - 48 = int d"
    using range unfolding int [symmetric] d_def by linarith+
  ultimately have d: "digit d = c" "d < 10" "(of_char c :: int) - 48 = int d" by blast+
  show ?case
  proof (cases "s = []")
    case True
    with snoc.prems(3) d(1) have "digit d \<noteq> digit 0" by (simp add: digit_zero)
    then have "d \<noteq> 0" by metis
    then show ?thesis using True d by (simp add: decimal_digits.simps)
  next
    case False
    with snoc have IH: "decimal_digits (nat (decimal_value s 0)) = s" "1 \<le> decimal_value s 0" by simp_all
    define m where "m = nat (decimal_value s 0)"
    have val: "decimal_value (s @ [c]) 0 = int (m * 10 + d)"
      using IH(2) d(3) by (simp add: decimal_value_append m_def)
    have "1 \<le> m" using IH(2) by (simp add: m_def)
    then have "decimal_digits (m * 10 + d) = decimal_digits m @ [digit d]"
      using d(2) by (subst decimal_digits.simps) simp
    moreover have "decimal_digits m = s" using IH(1) by (simp add: m_def)
    ultimately show ?thesis unfolding val nat_int using d(1) \<open>1 \<le> m\<close> by simp
  qed
qed simp

text \<open>The watermark survives the trip through the state file: the text written for a watermark in
  range is read back as that watermark, and conversely every text the broker accepts is the one it
  would write for the value it reads.\<close>

lemma watermark_round_trip:
  "(0 \<le> w \<and> w \<le> max_fencing_token \<longrightarrow> parseWatermarkText (String (decimal_digits (nat w))) = Inr w) \<and>
   (parseWatermarkText v = Inr w \<longrightarrow>
      v = String (decimal_digits (nat w)) \<and> 0 \<le> w \<and> w \<le> max_fencing_token)"
proof (intro conjI impI)
  show "parseWatermarkText (String (decimal_digits (nat w))) = Inr w" if "0 \<le> w \<and> w \<le> max_fencing_token"
    using that by (simp add: decimal_digits_canonical decimal_value_digits)
next
  assume "parseWatermarkText v = Inr w"
  then obtain s where s: "v = String s" "canonical_decimal s" "w = decimal_value s 0" "w \<le> max_fencing_token"
    by (cases v) (auto split: if_splits)
  have "decimal_digits (nat w) = s \<and> 0 \<le> w"
  proof (cases "s = ''0''")
    case True
    then show ?thesis using s(3) by (simp add: decimal_digits.simps digit_zero)
  next
    case False
    then show ?thesis using digits_decimal_value [of s] s(2,3) by (auto simp: canonical_decimal_def)
  qed
  then show "v = String (decimal_digits (nat w))" "0 \<le> w" "w \<le> max_fencing_token" using s by simp_all
qed

lemma watermark_round_trip_witness:
  "parseWatermarkText (String (decimal_digits 1207)) = Inr 1207"
  using watermark_round_trip [of 1207 Null] by (simp add: max_fencing_token_def max_safe_integer_def two53_def)

subsection \<open>Durability\<close>

text \<open>The watermark a restart would read.\<close>

definition durable_watermark :: "authority \<Rightarrow> int option" where
  "durable_watermark a = (case readPersistedWatermark True (main_file (a_disk a)) of Inr w \<Rightarrow> Some w | Inl _ \<Rightarrow> None)"

definition authority_ok :: "authority \<Rightarrow> bool" where
  "authority_ok a \<longleftrightarrow>
     0 \<le> fencingTokenFloor a \<and> fencingTokenFloor a \<le> fencingWatermark a \<and>
     fencingWatermark a \<le> max_fencing_token \<and>
     (fencingStatePath a \<longrightarrow>
        (\<exists>w. durable_watermark a = Some w \<and> fencingWatermark a \<le> max (fencingTokenFloor a) w))"

lemma read_payload: "0 \<le> w \<Longrightarrow> w \<le> max_fencing_token \<Longrightarrow> readPersistedWatermark True (payload w) = Inr w"
  by (simp add: readPersistedWatermark_def payload_def decimal_digits_canonical decimal_value_digits)

text \<open>Whichever call fails, the file holds the old content or the complete new one; when none is
  reported, the new one.\<close>

lemma persist_file:
  "persistWatermarkAtomically fail w d = (e, d') \<Longrightarrow>
   (e = None \<longrightarrow> main_file d' = payload w) \<and> (main_file d' = main_file d \<or> main_file d' = payload w)"
  by (cases fail) (auto simp: persistWatermarkAtomically_def disk_calls_def split: if_splits)

lemma crash_file: "main_file (crash_during n w d) = main_file d \<or> main_file (crash_during n w d) = payload w"
proof -
  consider "n = 0" | "n = 1" | "n = 2" | "n = 3" | "n = 4" | "n = 5" | "n = 6" | "7 \<le> n" by linarith
  then show ?thesis by cases (simp_all add: crash_during_def disk_calls_def take_Cons')
qed

lemma raise_watermark_keeps:
  assumes ok: "authority_ok a" and w: "0 \<le> w" "w \<le> max_fencing_token" and r: "raise_watermark w a = (e, a')"
  shows "authority_ok a' \<and> fencingWatermark a \<le> fencingWatermark a' \<and>
    fencingTokenFloor a' = fencingTokenFloor a \<and> fencingStatePath a' = fencingStatePath a \<and>
    (e = None \<longrightarrow> w \<le> fencingWatermark a') \<and> (e \<noteq> None \<longrightarrow> fencingWatermark a' = fencingWatermark a)"
proof (cases "fencingWatermark a < w")
  case above: True
  show ?thesis
  proof (cases "fencingStatePath a")
    case True
    obtain e1 d where p: "persistWatermarkAtomically (fail_at a) w (a_disk a) = (e1, d)" by (rule prod.exhaust)
    have kept: "e1 = None \<longrightarrow> main_file d = payload w" "main_file d = main_file (a_disk a) \<or> main_file d = payload w"
      using persist_file [OF p] by simp_all
    have a': "e = e1" "a' = (if e1 = None then a\<lparr>a_disk := d, fencingWatermark := w\<rparr> else a\<lparr>a_disk := d\<rparr>)"
      using r above True p
      by (auto simp: raise_watermark_def persistFencingWatermark_def split: option.splits)
    show ?thesis
      using ok above w kept a' True read_payload [OF w]
      by (auto simp: authority_ok_def durable_watermark_def)
  next
    case False
    then show ?thesis using r above ok w
      by (auto simp: raise_watermark_def persistFencingWatermark_def authority_ok_def)
  qed
next
  case False
  then show ?thesis using r ok by (auto simp: raise_watermark_def)
qed

lemma seed_token_keeps:
  assumes "authority_ok a" and "seed_token clock a = (r, a')"
  shows "authority_ok a' \<and> fencingWatermark a \<le> fencingWatermark a' \<and>
    fencingTokenFloor a' = fencingTokenFloor a \<and> fencingStatePath a' = fencingStatePath a \<and>
    (\<forall>s. r = Inr s \<longrightarrow> fencingWatermark a \<le> s \<and> s \<le> fencingWatermark a')"
proof (cases "max clock (max (fencingTokenFloor a) (fencingWatermark a)) < 0 \<or>
    max_fencing_token < max clock (max (fencingTokenFloor a) (fencingWatermark a))")
  case True
  then show ?thesis using assms by (auto simp: seed_token_def Let_def)
next
  case False
  let ?s = "max clock (max (fencingTokenFloor a) (fencingWatermark a))"
  obtain e a1 where rw: "raise_watermark ?s a = (e, a1)" by (rule prod.exhaust)
  have "(r, a') = (case e of None \<Rightarrow> Inr ?s | Some x \<Rightarrow> Inl x, a1)"
    using assms(2) False rw by (auto simp: seed_token_def Let_def split: option.splits)
  moreover have "0 \<le> ?s" "?s \<le> max_fencing_token" using False by (simp_all only: de_Morgan_disj not_less)
  note K = raise_watermark_keeps [OF assms(1) this rw]
  have "fencingWatermark a \<le> ?s" by simp
  ultimately show ?thesis using K by (cases e) simp_all
qed

lemma set_token_keeps:
  assumes "authority_ok a" and "0 \<le> current" and "set_token current v a = (e, a')"
  shows "authority_ok a' \<and> fencingWatermark a \<le> fencingWatermark a' \<and>
    fencingTokenFloor a' = fencingTokenFloor a \<and> fencingStatePath a' = fencingStatePath a \<and>
    (e = None \<longrightarrow> current < v \<and> v \<le> fencingWatermark a') \<and>
    (e \<noteq> None \<longrightarrow> fencingWatermark a' = fencingWatermark a)"
proof (cases "v \<le> current \<or> max_fencing_token < v")
  case False
  then have "raise_watermark v a = (e, a')" using assms(3) by (simp add: set_token_def)
  from raise_watermark_keeps [OF assms(1) _ _ this] False assms(2) show ?thesis by auto
qed (use assms in \<open>auto simp: set_token_def\<close>)

lemma open_authority_ok:
  assumes "open_authority fl path d = Inr a"
  shows "authority_ok a \<and> fencingStatePath a = path \<and> a_disk a = d \<and>
    configuredFloor fl = Inr (fencingTokenFloor a)"
proof -
  have nonneg: "0 \<le> w \<and> w \<le> max_fencing_token" if "parseWatermarkText v = Inr w" for v w
  proof (cases v)
    case (String s)
    with that have "canonical_decimal s" "w = decimal_value s 0" "w \<le> max_fencing_token"
      by (auto split: if_splits)
    moreover have "0 \<le> decimal_value s 0"
      using \<open>canonical_decimal s\<close> decimal_value_pos [of s 0] digits_decimal_value [of s]
      by (auto simp: canonical_decimal_def)
    ultimately show ?thesis by simp
  qed (use that in simp_all)
  have zero: "0 \<le> max_fencing_token" by (simp add: max_fencing_token_def max_safe_integer_def two53_def)
  have fl: "0 \<le> f \<and> f \<le> max_fencing_token" if "configuredFloor fl = Inr f" for f
    using that nonneg zero by (auto simp: configuredFloor_def simp del: parseWatermarkText.simps split: if_splits)
  have rd: "0 \<le> w \<and> w \<le> max_fencing_token" if "readPersistedWatermark path (main_file d) = Inr w" for w
    using that nonneg zero
    by (auto simp: readPersistedWatermark_def simp del: parseWatermarkText.simps split: if_splits state_file.splits)
  show ?thesis
    using assms fl rd by (auto simp: open_authority_def authority_ok_def durable_watermark_def split: sum.splits)
qed

text \<open>The authority a restart on the disk of \<open>a\<close> opens, also after a crash in the middle of writing a
  larger watermark, starts at or above the watermark \<open>a\<close> had reached.\<close>

lemma reopen_not_below:
  assumes ok: "authority_ok a" "fencingStatePath a" and fl: "configuredFloor fl = Inr (fencingTokenFloor a)"
    and v: "fencingWatermark a \<le> v" "v \<le> max_fencing_token"
  shows "\<exists>a'. open_authority fl True (crash_during n v (a_disk a)) = Inr a' \<and>
    fencingWatermark a \<le> fencingWatermark a'"
proof -
  let ?d = "crash_during n v (a_disk a)"
  obtain w where w: "readPersistedWatermark True (main_file (a_disk a)) = Inr w"
    "fencingWatermark a \<le> max (fencingTokenFloor a) w"
    using ok by (auto simp: authority_ok_def durable_watermark_def split: sum.splits)
  have "0 \<le> v" using ok(1) v(1) by (simp add: authority_ok_def)
  then obtain w' where "readPersistedWatermark True (main_file ?d) = Inr w'"
    "fencingWatermark a \<le> max (fencingTokenFloor a) w'"
    using crash_file [of n v "a_disk a"] w read_payload [OF _ v(2)] v(1) by auto
  then show ?thesis using fl by (simp add: open_authority_def)
qed

subsection \<open>Lifetimes, collection and restarts\<close>

text \<open>
  The authority under everything that can happen to it: objects come (seeded by the clock) and go,
  counters are incremented through the proxy, system calls fail, and the process crashes, possibly
  while it is writing a watermark \<open>v\<close>, and starts again on what is on the disk. \<open>granted\<close> is the
  history of tokens that were installed, by key.
\<close>

record authority_run =
  au :: authority
  counters :: "string \<Rightarrow> int option"
  granted :: "(string \<times> int) list"

datatype authority_event =
    NewObject string int
  | Increment string
  | DropObject string
  | NextFailure "disk_call option"
  | Restart nat int

fun authority_step :: "string option \<Rightarrow> authority_event \<Rightarrow> authority_run \<Rightarrow> authority_run" where
  "authority_step fl (NewObject k clock) s =
     (if counters s k \<noteq> None then s
      else (case seed_token clock (au s) of
              (Inl e, a) \<Rightarrow> s\<lparr>au := a\<rparr>
            | (Inr t, a) \<Rightarrow> s\<lparr>au := a, counters := (counters s)(k \<mapsto> t)\<rparr>))"
| "authority_step fl (Increment k) s =
     (case counters s k of
        None \<Rightarrow> s
      | Some c \<Rightarrow>
          (case set_token c (c + 1) (au s) of
             (Some e, a) \<Rightarrow> s\<lparr>au := a\<rparr>
           | (None, a) \<Rightarrow> s\<lparr>au := a, counters := (counters s)(k \<mapsto> c + 1), granted := granted s @ [(k, c + 1)]\<rparr>))"
| "authority_step fl (DropObject k) s = s\<lparr>counters := (counters s)(k := None)\<rparr>"
| "authority_step fl (NextFailure f) s = s\<lparr>au := (au s)\<lparr>fail_at := f\<rparr>\<rparr>"
| "authority_step fl (Restart n v) s =
     (if v < fencingWatermark (au s) \<or> max_fencing_token < v then s
      else (case open_authority fl (fencingStatePath (au s)) (crash_during n v (a_disk (au s))) of
              Inl e \<Rightarrow> s\<lparr>counters := (\<lambda>_. None)\<rparr>
            | Inr a \<Rightarrow> s\<lparr>au := a, counters := (\<lambda>_. None)\<rparr>))"

definition run_authority :: "string option \<Rightarrow> authority_event list \<Rightarrow> authority_run \<Rightarrow> authority_run" where
  "run_authority fl es s = fold (authority_step fl) es s"

definition start_authority :: "authority \<Rightarrow> authority_run" where
  "start_authority a = \<lparr>au = a, counters = (\<lambda>_. None), granted = []\<rparr>"

fun tokens_for :: "string \<Rightarrow> (string \<times> int) list \<Rightarrow> int list" where
  "tokens_for k [] = []"
| "tokens_for k ((k', t) # gs) = (if k' = k then t # tokens_for k gs else tokens_for k gs)"

definition run_ok :: "string option \<Rightarrow> authority_run \<Rightarrow> bool" where
  "run_ok fl s \<longleftrightarrow> authority_ok (au s) \<and> fencingStatePath (au s) \<and>
     configuredFloor fl = Inr (fencingTokenFloor (au s)) \<and>
     (\<forall>(k, t) \<in> set (granted s). t \<le> fencingWatermark (au s)) \<and>
     (\<forall>k c. counters s k = Some c \<longrightarrow> 0 \<le> c \<and> (\<forall>t \<in> set (tokens_for k (granted s)). t \<le> c)) \<and>
     (\<forall>k. sorted_wrt (<) (tokens_for k (granted s)))"

lemma tokens_for_append: "tokens_for k (xs @ ys) = tokens_for k xs @ tokens_for k ys"
  by (induction k xs rule: tokens_for.induct) auto

lemma set_tokens_for: "t \<in> set (tokens_for k gs) \<longleftrightarrow> (k, t) \<in> set gs"
  by (induction k gs rule: tokens_for.induct) auto

lemma run_ok_step: "run_ok fl s \<Longrightarrow> run_ok fl (authority_step fl e s)"
proof (induction fl e s rule: authority_step.induct)
  case (1 fl k clock s)
  obtain r a where st: "seed_token clock (au s) = (r, a)" by (rule prod.exhaust)
  have "authority_ok (au s)" using 1 by (simp add: run_ok_def)
  from seed_token_keeps [OF this st] 1 st show ?case
    by (cases r) (fastforce simp: run_ok_def set_tokens_for authority_ok_def)+
next
  case (2 fl k s)
  show ?case
  proof (cases "counters s k")
    case (Some c)
    obtain e a where st: "set_token c (c + 1) (au s) = (e, a)" by (rule prod.exhaust)
    have "authority_ok (au s)" "0 \<le> c" using 2 Some by (auto simp: run_ok_def)
    note K = set_token_keeps [OF this st]
    show ?thesis
    proof (cases e)
      case None
      then have step: "authority_step fl (Increment k) s =
          s\<lparr>au := a, counters := (counters s)(k \<mapsto> c + 1), granted := granted s @ [(k, c + 1)]\<rparr>"
        using st Some by simp
      have seen: "\<forall>t \<in> set (tokens_for k (granted s)). t \<le> c" using 2 Some by (simp add: run_ok_def)
      then have seen': "\<forall>t \<in> set (tokens_for k (granted s)). t < c + 1" "\<forall>t \<in> set (tokens_for k (granted s)). t \<le> c + 1"
        by fastforce+
      have "\<forall>(k, t) \<in> set (granted s). t \<le> fencingWatermark a"
        using 2 K by (fastforce simp: run_ok_def)
      then show ?thesis unfolding step using 2 K None seen' \<open>0 \<le> c\<close>
        by (simp add: run_ok_def tokens_for_append sorted_wrt_append)
    next
      case (Some x)
      then have "authority_step fl (Increment k) s = s\<lparr>au := a\<rparr>"
        using st \<open>counters s k = Some c\<close> by simp
      then show ?thesis using 2 K Some by (simp add: run_ok_def)
    qed
  qed (use 2 in simp)
next
  case (3 fl k s)
  then show ?case by (auto simp: run_ok_def)
next
  case (4 fl f s)
  then show ?case by (auto simp: run_ok_def authority_ok_def durable_watermark_def)
next
  case (5 fl n v s)
  show ?case
  proof (cases "v < fencingWatermark (au s) \<or> max_fencing_token < v")
    case False
    have ok: "authority_ok (au s)" "fencingStatePath (au s)"
      "configuredFloor fl = Inr (fencingTokenFloor (au s))" using 5 by (simp_all add: run_ok_def)
    from reopen_not_below [OF ok, of v n] False obtain a' where
      a': "open_authority fl True (crash_during n v (a_disk (au s))) = Inr a'"
        "fencingWatermark (au s) \<le> fencingWatermark a'" by auto
    then have step: "authority_step fl (Restart n v) s = s\<lparr>au := a', counters := (\<lambda>_. None)\<rparr>"
      using False ok(2) by simp
    have "\<forall>(k, t) \<in> set (granted s). t \<le> fencingWatermark a'"
      using 5 a'(2) by (fastforce simp: run_ok_def)
    then show ?thesis unfolding step using open_authority_ok [OF a'(1)] 5 by (simp add: run_ok_def)
  qed (use 5 in simp)
qed

text \<open>With a state path configured, the tokens granted for a key increase strictly for ever: across
  collection and re-creation of its lock object, a clock that runs backwards, failing disk calls,
  and restarts of the broker, also after a crash in the middle of writing the state file.\<close>

lemma durable_tokens_increase:
  assumes "open_authority fl True d = Inr a"
  shows "sorted_wrt (<) (tokens_for k (granted (run_authority fl es (start_authority a))))"
proof -
  have "run_ok fl (start_authority a)"
    using open_authority_ok [OF assms] by (simp add: run_ok_def start_authority_def)
  then have "run_ok fl (run_authority fl es (start_authority a))"
    unfolding run_authority_def by (induction es rule: rev_induct) (simp_all add: run_ok_step)
  then show ?thesis by (simp add: run_ok_def)
qed

definition empty_disk :: disk where
  "empty_disk = \<lparr>main_file = NoFile, temp_file = NoFile\<rparr>"

definition crash_story :: "authority_event list" where
  "crash_story = [NewObject ''k'' 1000, Increment ''k'', Restart 3 2000, NewObject ''k'' 500, Increment ''k'',
     DropObject ''k'', NewObject ''k'' 7, Increment ''k'']"

lemma durable_tokens_increase_witness:
  "\<exists>a. open_authority None True empty_disk = Inr a \<and>
     tokens_for ''k'' (granted (run_authority None crash_story (start_authority a))) = [1001, 1002, 1003] \<and>
     sorted_wrt (<) (tokens_for ''k'' (granted (run_authority None crash_story (start_authority a))))"
proof -
  define a where "a = \<lparr>fencingTokenFloor = 0, fencingStatePath = True, fencingWatermark = 0,
    a_disk = empty_disk, fail_at = None\<rparr>"
  have a: "open_authority None True empty_disk = Inr a" unfolding a_def by code_simp
  have "tokens_for ''k'' (granted (run_authority None crash_story (start_authority a))) = [1001, 1002, 1003]"
    unfolding a_def by code_simp
  with a durable_tokens_increase [OF a] show ?thesis by blast
qed

end
