(* ===== verification/ClientState.thy ===== *)
theory ClientState
  imports Protocol
begin

text \<open>
  The client (\<open>src/src/client.ts\<close>): its state, the frames it writes, and the registration and
  removal of what waits for a reply.

  A callback is the number of the API call it was passed to; calling it is the event \<open>Called\<close>. The
  closures the client keeps are values that name the variables they close over: a resolution for a
  uuid, and a timer. \<open>timers\<close> maps a uuid to the timer it started last, and \<open>armed\<close> are the
  timers that will fire, so that overwriting an entry does not stop the older timer. The variable
  \<open>timedOut\<close> of an attempt is its membership in \<open>timed_out\<close>.

  Code of the user's callbacks and event listeners is outside the model; whether an \<open>error\<close>
  listener is attached is a field, because emitting \<open>error\<close> without one throws.
\<close>

subsection \<open>Errors\<close>

datatype lock_error =
    ConnectionRecovering | GenericLockError | MaxRetries | RequestTimeoutError | BadArgumentsError
  | LockInternalError | LockUnknownException | WaitOptionSetToFalse | CannotContinue | ConnectionClosed

datatype unlock_error =
    BadOrMismatchedId | UnlockUnknownException | UnlockInternalError | GeneralUnlockError

text \<open>What an assertion on the arguments complains about.\<close>

datatype usage_error =
    BadMax | BadSemaphore | BadForce | BadRetry | BadRetries | RetriesMismatch | BadTtl
  | BadRequestTimeout | NoUuidOnRetry | NoCallback

text \<open>\<open>LMXClientLockException\<close> and \<open>LMXClientUnlockException\<close> without their message.\<close>

record lock_exception =
  le_key :: string
  le_id :: "string option"
  le_code :: lock_error

record unlock_exception =
  ue_key :: string
  ue_id :: string
  ue_code :: unlock_error

subsection \<open>Requests and results\<close>

text \<open>The options of a lock request once they are checked.\<close>

record lock_job =
  j_uuid :: "string option"            \<comment> \<open>\<open>_uuid\<close>\<close>
  j_max :: jsval
  j_ttl :: ttl_field
  j_lockRequestTimeout :: "int option"
  j_maxRetries :: int
  j_retryCount :: int
  j_wait :: "bool option"
  j_rwStatus :: "RWStatus option"
  j_forceUnlock :: bool
  j_keep :: bool
  j_promise :: bool

text \<open>The function handed to a successful \<open>lock\<close>: \<open>unlock\<close> bound to its key and id.\<close>

record bound_unlock =
  bu_key :: string
  bu_uuid :: string
  bu_rwStatus :: "RWStatus option"
  bu_force :: bool
  bu_readersCount :: "int option"
  bu_fencingToken :: "int option"

datatype client_result =
    Locked bound_unlock
  | LockFailed lock_exception
  | Unlocked string string                 \<comment> \<open>\<open>id\<close>, \<open>key\<close>\<close>
  | UnlockFailed unlock_exception
  | UsageError usage_error
  | LockInfo string
  | LockInfoFailed string
  | LsResult
  | PongResult
  | PingFailed
  | StatsResult
  | StatsFailed
  | ProbeAnswered bool                     \<comment> \<open>whether with an error\<close>

subsection \<open>Closures\<close>

text \<open>The requests of the write-preferring client about the readers and the writer flag of a key.\<close>

datatype probe = IncReaders | DecReaders | WriteFlagCheck | WriteFlagAndReadersCheck | WriteFlagFalse

datatype resolution =
    LockResolution nat string string lock_job nat   \<comment> \<open>attempt, uuid, key, options, callback\<close>
  | UnlockResolution nat string string "nat option"
  | LockInfoResolution string string nat
  | LsResolution nat
  | PingResolution string nat
  | StatsResolution string nat
  | ProbeResolution string probe nat

datatype client_timer =
    LockTimer nat string string lock_job nat
  | UnlockTimer nat string string "nat option"

subsection \<open>Frames\<close>

text \<open>A frame from the broker, by the fields the client reads.\<close>

record client_frame =
  cf_type :: string
  cf_uuid :: "string option"
  cf__uuid :: "string option"
  cf_key :: string
  cf_error :: bool
  cf_warning :: bool
  cf_acquired :: "bool option"
  cf_reelection :: bool
  cf_unlocked :: "bool option"
  cf_retry :: bool
  cf_lockInfo :: bool
  cf_readersCount :: jsval
  cf_fencingToken :: jsval

datatype client_warning =
    CallbackError | Retrying int | NoUuid | RequestTimedOut | NoResolution | Rejecting string
  | BrokerWarning | StreamClosed

datatype client_event =
    Wrote LMXRequest
  | Called nat bool client_result          \<comment> \<open>callback, whether on the next tick, arguments\<close>
  | CWarn client_warning
  | CError                                 \<comment> \<open>\<open>error\<close> emitted to a listener\<close>
  | Thrown
  | Reconnect                              \<comment> \<open>\<open>ensure()\<close> starts a new connection\<close>
  | TimerSet nat int                       \<comment> \<open>timer, milliseconds\<close>
  | Asked nat                              \<comment> \<open>a \<open>lock\<close> or \<open>unlock\<close> took this callback: history only\<close>

subsection \<open>The client\<close>

datatype socket_state = NoSocket | Usable | Unusable

record client =
  c_ttl :: js_number
  c_lockRequestTimeout :: int
  c_unlockRequestTimeout :: int
  c_lockRetryMax :: int
  c_keepLocksAfterDeath :: bool
  c_pid :: int
  c_version :: string
  c_noRecover :: bool
  c_cannotContinue :: bool
  c_isOpen :: bool
  c_recovering :: bool
  c_socket :: socket_state
  c_recoverCalled :: bool                  \<comment> \<open>\<open>called\<close> of the current connection\<close>
  c_errorListener :: bool
  c_timeouts :: "string set"
  c_resolutions :: "(string, resolution) jsmap"
  c_giveups :: "string set"
  c_timers :: "(string, nat) jsmap"
  c_armed :: "(nat, client_timer) jsmap"
  c_timed_out :: "nat set"
  c_attempts :: nat                        \<comment> \<open>attempts made: numbers timers and resolutions\<close>
  c_uuids :: nat
  c_calls :: nat
  c_deferred :: "LMXRequest list"          \<comment> \<open>writes waiting for \<open>ensure\<close>\<close>
  c_out :: "client_event list"

definition log_event :: "client_event \<Rightarrow> client \<Rightarrow> client" where
  "log_event e c = c\<lparr>c_out := c_out c @ [e]\<rparr>"

text \<open>\<open>UUID.v4()\<close>: the generator is the parameter \<open>v4\<close>, its \<open>n\<close>-th call \<open>v4 n\<close>.\<close>

definition fresh_uuid_of :: "(nat \<Rightarrow> string) \<Rightarrow> client \<Rightarrow> string \<times> client" where
  "fresh_uuid_of v4 c = (v4 (c_uuids c), c\<lparr>c_uuids := Suc (c_uuids c)\<rparr>)"

subsection \<open>Writing\<close>

text \<open>What \<open>write\<close> does to the fields of a frame: \<open>max || null\<close>, an infinite \<open>ttl\<close> becomes \<open>null\<close>, the
  pid and, where the caller gave none, \<open>keepLocksAfterDeath\<close> are filled in.\<close>

fun fill_frame :: "client \<Rightarrow> LMXRequest \<Rightarrow> LMXRequest" where
  "fill_frame c (LockReq r) = LockReq (r\<lparr>
     l_max := (if l_max r = Undefined \<or> l_max r = Integer 0 then Null else l_max r),
     l_ttl := (if l_ttl r = TtlInfinity then TtlNull else l_ttl r), l_pid := c_pid c\<rparr>)"
| "fill_frame c (UnlockReq r) = UnlockReq (r\<lparr>u_keep := c_keepLocksAfterDeath c\<rparr>)"
| "fill_frame c r = r"

text \<open>\<open>ensure()\<close> on a socket that is no longer usable: a new connection, which takes writes at once (they
  are buffered until it is established).\<close>

definition start_connection :: "client \<Rightarrow> client" where
  "start_connection c =
     log_event Reconnect (c\<lparr>c_recovering := False, c_socket := Usable, c_recoverCalled := False\<rparr>)"

definition write_frame :: "LMXRequest \<Rightarrow> client \<Rightarrow> client" where
  "write_frame r c =
     (case c_socket c of
        NoSocket \<Rightarrow> log_event Thrown c
      | Unusable \<Rightarrow> start_connection (c\<lparr>c_deferred := c_deferred c @ [r]\<rparr>)
      | Usable \<Rightarrow> log_event (Wrote (fill_frame c r)) c)"

subsection \<open>Resolutions and timers\<close>

definition clear_timer :: "string \<Rightarrow> client \<Rightarrow> client" where
  "clear_timer u c =
     (case map_of (c_timers c) u of None \<Rightarrow> c | Some t \<Rightarrow> c\<lparr>c_armed := AList.delete t (c_armed c)\<rparr>)"

definition del_timer :: "string \<Rightarrow> client \<Rightarrow> client" where
  "del_timer u c = c\<lparr>c_timers := AList.delete u (c_timers c)\<rparr>"

definition del_resolution :: "string \<Rightarrow> client \<Rightarrow> client" where
  "del_resolution u c = c\<lparr>c_resolutions := AList.delete u (c_resolutions c)\<rparr>"

definition del_timeout :: "string \<Rightarrow> client \<Rightarrow> client" where
  "del_timeout u c = c\<lparr>c_timeouts := c_timeouts c - {u}\<rparr>"

definition cleanUp :: "string option \<Rightarrow> client \<Rightarrow> client" where
  "cleanUp uo c =
     (let forget = (\<lambda>u c. del_timeout u (del_timer u (clear_timer u c)))
      in case uo of
           None \<Rightarrow> forget ''null'' c
         | Some u \<Rightarrow> del_resolution u (forget u c))"

definition start_timer :: "string \<Rightarrow> client_timer \<Rightarrow> int \<Rightarrow> client \<Rightarrow> client" where
  "start_timer u t ms c =
     log_event (TimerSet (c_attempts c) ms)
       (c\<lparr>c_timers := AList.update u (c_attempts c) (c_timers c),
          c_armed := AList.update (c_attempts c) t (c_armed c)\<rparr>)"

definition set_resolution :: "string \<Rightarrow> resolution \<Rightarrow> client \<Rightarrow> client" where
  "set_resolution u r c = c\<lparr>c_resolutions := AList.update u r (c_resolutions c)\<rparr>"

definition fireLockCallbackWithError :: "nat \<Rightarrow> bool \<Rightarrow> lock_exception \<Rightarrow> client \<Rightarrow> client" where
  "fireLockCallbackWithError cb isNextTick err c =
     log_event (Called cb isNextTick (LockFailed err)) (log_event (CWarn CallbackError) (cleanUp (le_id err) c))"

text \<open>Without a callback \<open>unlock\<close> uses \<open>noop\<close>, whose calls are not recorded.\<close>

definition call_unlock :: "nat option \<Rightarrow> bool \<Rightarrow> client_result \<Rightarrow> client \<Rightarrow> client" where
  "call_unlock cb isNextTick r c =
     (case cb of None \<Rightarrow> c | Some f \<Rightarrow> log_event (Called f isNextTick r) c)"

definition fireUnlockCallbackWithError ::
  "nat option \<Rightarrow> bool \<Rightarrow> unlock_exception \<Rightarrow> client \<Rightarrow> client" where
  "fireUnlockCallbackWithError cb isNextTick err c =
     call_unlock cb isNextTick (UnlockFailed err)
       (log_event (CWarn CallbackError) (cleanUp (Some (ue_id err)) c))"

end
