(* ===== verification/ClientLock.thy ===== *)
theory ClientLock
  imports ClientState
begin

text \<open>
  The lock and unlock requests of the client: the arguments, the checks, the attempt with its timer
  and its resolution, and the frames of the broker in \<open>onData\<close>.
\<close>

subsection \<open>Arguments\<close>

text \<open>The options object of \<open>lock\<close>; \<open>None\<close> is a property that is not there (\<open>'max' in opts\<close>).\<close>

record lock_opts =
  o_max :: "jsval option"
  o_semaphore :: "jsval option"
  o_force :: "jsval option"
  o_retry :: "jsval option"
  o_maxRetries :: "jsval option"
  o_maxRetry :: "jsval option"
  o_retryMax :: "jsval option"
  o_internalRetries :: "int option"        \<comment> \<open>\<open>__maxRetries\<close>\<close>
  o_ttl :: jsval
  o_lockRequestTimeout :: jsval
  o_uuid :: "string option"
  o_retryCount :: int
  o_wait :: "bool option"
  o_rwStatus :: "RWStatus option"
  o_forceUnlock :: bool
  o_keep :: bool
  o_promise :: bool

definition no_opts :: lock_opts where
  "no_opts = \<lparr>o_max = None, o_semaphore = None, o_force = None, o_retry = None, o_maxRetries = None,
     o_maxRetry = None, o_retryMax = None, o_internalRetries = None, o_ttl = Undefined,
     o_lockRequestTimeout = Undefined, o_uuid = None, o_retryCount = 0, o_wait = None,
     o_rwStatus = None, o_forceUnlock = False, o_keep = False, o_promise = False\<rparr>"

text \<open>The second argument of \<open>lock\<close>.\<close>

datatype lock_arg =
    ArgCallback nat
  | ArgBoolean bool
  | ArgNumber jsval
  | ArgOptions lock_opts
  | ArgNothing

fun opts_of :: "lock_arg \<Rightarrow> lock_opts" where
  "opts_of (ArgBoolean f) = no_opts\<lparr>o_force := Some (Boolean f)\<rparr>"
| "opts_of (ArgNumber t) = no_opts\<lparr>o_ttl := t\<rparr>"
| "opts_of (ArgOptions o') = o'"
| "opts_of _ = no_opts"

definition preParseLockOptsForPromises :: "lock_arg \<Rightarrow> lock_opts" where
  "preParseLockOptsForPromises a = (opts_of a)\<lparr>o_promise := True\<rparr>"

text \<open>The callback is \<open>None\<close> when the third argument is not a function.\<close>

definition parseLockOpts :: "lock_arg \<Rightarrow> nat option \<Rightarrow> usage_error + lock_opts \<times> nat" where
  "parseLockOpts a cb =
     (case (case a of ArgCallback f \<Rightarrow> Some f | _ \<Rightarrow> cb) of
        None \<Rightarrow> Inl NoCallback
      | Some f \<Rightarrow> Inr (opts_of a, f))"

subsection \<open>Checks\<close>

text \<open>A number that is not an integer counts as true; \<open>NaN\<close> is not modelled.\<close>

fun truthy :: "jsval \<Rightarrow> bool" where
  "truthy Undefined = False"
| "truthy Null = False"
| "truthy (Boolean x) = x"
| "truthy (Integer n) = (n \<noteq> 0)"
| "truthy (String s) = (s \<noteq> [])"
| "truthy NonInteger = True"
| "truthy Object = True"

definition in_range :: "int \<Rightarrow> int \<Rightarrow> jsval \<Rightarrow> bool" where
  "in_range lo hi v = (is_integer v \<and> lo \<le> int_value v \<and> int_value v \<le> hi)"

fun is_boolean :: "jsval \<Rightarrow> bool" where
  "is_boolean (Boolean _) = True"
| "is_boolean _ = False"

definition bad_option :: "(jsval \<Rightarrow> bool) \<Rightarrow> jsval option \<Rightarrow> bool" where
  "bad_option ok v = (case v of None \<Rightarrow> False | Some x \<Rightarrow> \<not> ok x)"

definition positive :: "jsval \<Rightarrow> bool" where
  "positive v = (is_integer v \<and> 0 < int_value v)"

text \<open>One of the three spellings of the number of retries, after \<open>cur\<close> was read from another.\<close>

definition take_retries :: "jsval option \<Rightarrow> int option \<Rightarrow> usage_error + int option" where
  "take_retries v cur =
     (case v of
        None \<Rightarrow> Inr cur
      | Some x \<Rightarrow>
          if \<not> in_range 0 20 x then Inl BadRetries
          else if cur \<noteq> None \<and> cur \<noteq> Some (int_value x) then Inl RetriesMismatch
          else Inr (Some (int_value x)))"

definition max_retries :: "int \<Rightarrow> lock_opts \<Rightarrow> usage_error + int" where
  "max_retries dflt o' =
     (case take_retries (o_maxRetries o') (if o_retry o' \<noteq> None then Some 0 else o_internalRetries o') of
        Inl e \<Rightarrow> Inl e
      | Inr r1 \<Rightarrow>
          (case take_retries (o_maxRetry o') r1 of
             Inl e \<Rightarrow> Inl e
           | Inr r2 \<Rightarrow>
               (case take_retries (o_retryMax o') r2 of
                  Inl e \<Rightarrow> Inl e
                | Inr r3 \<Rightarrow> Inr (case r3 of None \<Rightarrow> dflt | Some n \<Rightarrow> n))))"

definition ttl_of :: "jsval \<Rightarrow> ttl_field" where
  "ttl_of v = (if v = Null then TtlInfinity else if truthy v then TtlInt (int_value v) else TtlUndefined)"

definition check_lock_opts :: "int \<Rightarrow> lock_opts \<Rightarrow> usage_error + lock_job" where
  "check_lock_opts dflt o' =
     (if bad_option positive (o_max o') then Inl BadMax
      else if bad_option positive (o_semaphore o') then Inl BadSemaphore
      else if bad_option is_boolean (o_force o') then Inl BadForce
      else if bad_option is_boolean (o_retry o') then Inl BadRetry
      else (case max_retries dflt o' of
              Inl e \<Rightarrow> Inl e
            | Inr n \<Rightarrow>
                if truthy (o_ttl o') \<and> \<not> in_range 3 800000 (o_ttl o') then Inl BadTtl
                else if truthy (o_lockRequestTimeout o') \<and> \<not> in_range 20 800000 (o_lockRequestTimeout o')
                then Inl BadRequestTimeout
                else if 0 < o_retryCount o' \<and> \<not> truthy_str (o_uuid o') then Inl NoUuidOnRetry
                else Inr \<lparr>j_uuid = o_uuid o',
                          j_max = (case o_max o' of None \<Rightarrow> Undefined | Some v \<Rightarrow> v),
                          j_ttl = ttl_of (o_ttl o'),
                          j_lockRequestTimeout =
                            (if truthy (o_lockRequestTimeout o') then Some (int_value (o_lockRequestTimeout o'))
                             else None),
                          j_maxRetries = n,
                          j_retryCount = o_retryCount o',
                          j_wait = o_wait o',
                          j_rwStatus = o_rwStatus o',
                          j_forceUnlock = o_forceUnlock o',
                          j_keep = o_keep o',
                          j_promise = o_promise o'\<rparr>))"

subsection \<open>An attempt\<close>

text \<open>The generator of version 4 UUIDs is the parameter \<open>v4\<close>.\<close>

definition job_ttl :: "client \<Rightarrow> lock_job \<Rightarrow> ttl_field" where
  "job_ttl c j =
     (if j_ttl j = TtlUndefined \<or> j_ttl j = TtlInt 0
      then (case c_ttl c of Infinity \<Rightarrow> TtlInfinity | Num n \<Rightarrow> TtlInt n) else j_ttl j)"

definition lock_frame :: "client \<Rightarrow> string \<Rightarrow> string \<Rightarrow> lock_job \<Rightarrow> lock_req" where
  "lock_frame c key u j =
     \<lparr>l_uuid = u, l_key = key, l_ttl = job_ttl c j, l_max = j_max j, l_maxRead = Undefined,
      l_maxWrite = Undefined, l_force = False, l_pid = 0, l_keep = j_keep j,
      l_retryCount = j_retryCount j, l_wait = None, l_rwStatus = j_rwStatus j\<rparr>"

text \<open>\<open>opts.lockRequestTimeout || this.lockRequestTimeout\<close>\<close>

definition lock_timeout :: "client \<Rightarrow> lock_job \<Rightarrow> int" where
  "lock_timeout c j =
     (case j_lockRequestTimeout j of None \<Rightarrow> c_lockRequestTimeout c | Some n \<Rightarrow> n)"

text \<open>The gates in front of an attempt, in order.\<close>

definition lock_gate :: "client \<Rightarrow> string \<Rightarrow> string \<Rightarrow> lock_job \<Rightarrow> lock_exception option" where
  "lock_gate c key u j =
     (if \<not> c_isOpen c then Some \<lparr>le_key = key, le_id = Some u, le_code = ConnectionClosed\<rparr>
      else if c_recovering c then Some \<lparr>le_key = key, le_id = None, le_code = ConnectionRecovering\<rparr>
      else if c_cannotContinue c then Some \<lparr>le_key = key, le_id = None, le_code = CannotContinue\<rparr>
      else if j_maxRetries j \<le> j_retryCount j
      then Some \<lparr>le_key = key, le_id = Some u, le_code = MaxRetries\<rparr>
      else None)"

definition attempt :: "string \<Rightarrow> string \<Rightarrow> lock_job \<Rightarrow> nat \<Rightarrow> client \<Rightarrow> client" where
  "attempt key u j cb c =
     (case lock_gate c key u j of
        Some err \<Rightarrow> fireLockCallbackWithError cb (\<not> j_promise j \<and> j_retryCount j < 1) err c
      | None \<Rightarrow>
          (let a = c_attempts c;
               c1 = start_timer u (LockTimer a u key j cb) (lock_timeout c j) c;
               c2 = set_resolution u (LockResolution a u key j cb) c1
           in write_frame (LockReq (lock_frame c key u j)) (c2\<lparr>c_attempts := Suc a\<rparr>)))"

definition lockInternal :: "(nat \<Rightarrow> string) \<Rightarrow> string \<Rightarrow> lock_job \<Rightarrow> nat \<Rightarrow> client \<Rightarrow> client" where
  "lockInternal v4 key j cb c =
     (if truthy_str (j_uuid j) then attempt key (prop_name (j_uuid j)) j cb c
      else (let (u, c1) = fresh_uuid_of v4 c in attempt key u (j\<lparr>j_uuid := Some u\<rparr>) cb c1))"

text \<open>
  \<open>lock\<close> itself. The argument checks answer on the next tick; without a callback they throw. A call
  with a callback takes the next number.
\<close>

definition client_lock :: "(nat \<Rightarrow> string) \<Rightarrow> string \<Rightarrow> lock_arg \<Rightarrow> nat option \<Rightarrow> client \<Rightarrow> client" where
  "client_lock v4 key a cb c =
     (case parseLockOpts a cb of
        Inl _ \<Rightarrow> log_event Thrown c
      | Inr (o', f) \<Rightarrow>
          (case check_lock_opts (c_lockRetryMax c) o' of
             Inl e \<Rightarrow> log_event (Called f True (UsageError e)) (log_event (Asked f) c)
           | Inr j \<Rightarrow> lockInternal v4 key j f (log_event (Asked f) c)))"

subsection \<open>The timer of an attempt\<close>

definition lock_timed_out ::
  "(nat \<Rightarrow> string) \<Rightarrow> nat \<Rightarrow> string \<Rightarrow> string \<Rightarrow> lock_job \<Rightarrow> nat \<Rightarrow> client \<Rightarrow> client" where
  "lock_timed_out v4 a u key j cb c =
     (let c1 = del_resolution u (del_timer u (c\<lparr>c_timed_out := insert a (c_timed_out c)\<rparr>));
          j1 = j\<lparr>j_retryCount := j_retryCount j + 1\<rparr>
      in if \<not> c_isOpen c1
         then fireLockCallbackWithError cb False \<lparr>le_key = key, le_id = Some u, le_code = ConnectionClosed\<rparr>
                (write_frame (LockClientErrorReq \<lparr>k_uuid = u, k_key = key\<rparr>)
                  (c1\<lparr>c_timeouts := insert u (c_timeouts c1)\<rparr>))
         else if j_maxRetries j1 \<le> j_retryCount j1
         then fireLockCallbackWithError cb False \<lparr>le_key = key, le_id = Some u, le_code = RequestTimeoutError\<rparr>
                (write_frame (LockClientTimeoutReq \<lparr>k_uuid = u, k_key = key\<rparr>)
                  (c1\<lparr>c_timeouts := insert u (c_timeouts c1)\<rparr>))
         else lockInternal v4 key j1 cb (log_event (CWarn (Retrying (j_retryCount j1))) c1))"

subsection \<open>The resolution of an attempt\<close>

definition int_field :: "jsval \<Rightarrow> int option" where
  "int_field v = (if is_integer v then Some (int_value v) else None)"

definition lock_err :: "string \<Rightarrow> string \<Rightarrow> lock_error \<Rightarrow> lock_exception" where
  "lock_err key u code = \<lparr>le_key = key, le_id = Some u, le_code = code\<rparr>"

text \<open>\<open>err\<close> is whether the first argument is set; \<open>d\<close> is the second, \<open>None\<close> for \<open>undefined\<close>.\<close>

definition lock_resolved ::
  "(nat \<Rightarrow> string) \<Rightarrow> nat \<Rightarrow> string \<Rightarrow> string \<Rightarrow> lock_job \<Rightarrow> nat \<Rightarrow> bool \<Rightarrow> client_frame option
    \<Rightarrow> client \<Rightarrow> client" where
  "lock_resolved v4 a u key j cb err d c =
     (let fail = (\<lambda>code c. fireLockCallbackWithError cb False (lock_err key u code) c)
      in if a \<in> c_timed_out c then c
         else if err then fail LockUnknownException c
         else (case d of
                 None \<Rightarrow> fail LockInternalError c
               | Some f \<Rightarrow>
                   if cf_uuid f \<noteq> Some u then fail LockInternalError c
                   else if cf_key f \<noteq> key then fail LockInternalError c
                   else if cf_error f then fail GenericLockError c
                   else if cf_acquired f = Some True
                   then log_event (Called cb False (Locked
                          \<lparr>bu_key = key, bu_uuid = u, bu_rwStatus = j_rwStatus j, bu_force = j_forceUnlock j,
                           bu_readersCount = int_field (cf_readersCount f),
                           bu_fencingToken = int_field (cf_fencingToken f)\<rparr>))
                          (write_frame (LockReceivedReq \<lparr>k_uuid = u, k_key = key\<rparr>) (cleanUp (Some u) c))
                   else if cf_reelection f then lockInternal v4 key j cb (cleanUp (Some u) c)
                   else if cf_acquired f = Some False
                   then (if j_wait j = Some False
                         then fail WaitOptionSetToFalse (c\<lparr>c_giveups := insert u (c_giveups c)\<rparr>)
                         else c)
                   else fail LockInternalError c))"

subsection \<open>Unlock\<close>

record unlock_opts =
  uo_force :: jsval
  uo_uuid :: "string option"
  uo_retryCount :: int
  uo_id :: "string option"
  uo_rwStatus :: "RWStatus option"
  uo_unlockRequestTimeout :: jsval
  uo_promise :: bool

definition no_unlock_opts :: unlock_opts where
  "no_unlock_opts = \<lparr>uo_force = Undefined, uo_uuid = None, uo_retryCount = 0, uo_id = None,
     uo_rwStatus = None, uo_unlockRequestTimeout = Undefined, uo_promise = False\<rparr>"

datatype unlock_arg =
    UArgCallback nat | UArgBoolean bool | UArgString string | UArgOptions unlock_opts | UArgNothing

fun unlock_opts_of :: "unlock_arg \<Rightarrow> unlock_opts" where
  "unlock_opts_of (UArgBoolean f) = no_unlock_opts\<lparr>uo_force := Boolean f\<rparr>"
| "unlock_opts_of (UArgString s) = no_unlock_opts\<lparr>uo_uuid := Some s\<rparr>"
| "unlock_opts_of (UArgOptions o') = o'"
| "unlock_opts_of _ = no_unlock_opts"

definition preParseUnlockOptsForPromise :: "unlock_arg \<Rightarrow> unlock_opts" where
  "preParseUnlockOptsForPromise a = (unlock_opts_of a)\<lparr>uo_promise := True\<rparr>"

text \<open>Without a callback \<open>noop\<close> is used.\<close>

definition parseUnlockOpts :: "unlock_arg \<Rightarrow> nat option \<Rightarrow> unlock_opts \<times> nat option" where
  "parseUnlockOpts a cb =
     (unlock_opts_of a, case a of UArgCallback f \<Rightarrow> Some f | _ \<Rightarrow> cb)"

definition check_unlock_opts :: "unlock_opts \<Rightarrow> usage_error option" where
  "check_unlock_opts o' =
     (if truthy (uo_force o') \<and> \<not> is_boolean (uo_force o') then Some BadForce
      else if truthy (uo_unlockRequestTimeout o') \<and> \<not> in_range 20 800000 (uo_unlockRequestTimeout o')
      then Some BadRequestTimeout
      else None)"

definition unlock_frame :: "string \<Rightarrow> string \<Rightarrow> unlock_opts \<Rightarrow> unlock_req" where
  "unlock_frame key u o' =
     \<lparr>u_uuid = Some u, u_key = key, u__uuid = uo_uuid o',
      u_force = (0 < uo_retryCount o' \<or> truthy (uo_force o')), u_keep = False\<rparr>"

text \<open>\<open>if (opts.id) opts._uuid = opts.id\<close>\<close>

definition take_id :: "unlock_opts \<Rightarrow> unlock_opts" where
  "take_id o' = (if truthy_str (uo_id o') then o'\<lparr>uo_uuid := uo_id o'\<rparr> else o')"

definition unlock_timeout :: "client \<Rightarrow> unlock_opts \<Rightarrow> int" where
  "unlock_timeout c o' =
     (if truthy (uo_unlockRequestTimeout o') then int_value (uo_unlockRequestTimeout o')
      else c_unlockRequestTimeout c)"

definition ask_unlock :: "nat option \<Rightarrow> client \<Rightarrow> client" where
  "ask_unlock cb c = (case cb of None \<Rightarrow> c | Some f \<Rightarrow> log_event (Asked f) c)"

definition client_unlock :: "(nat \<Rightarrow> string) \<Rightarrow> string \<Rightarrow> unlock_arg \<Rightarrow> nat option \<Rightarrow> client \<Rightarrow> client" where
  "client_unlock v4 key ua cb0 c0 =
     (let (o0, cb) = parseUnlockOpts ua cb0; o' = take_id o0; c = ask_unlock cb c0
      in case check_unlock_opts o' of
           Some e \<Rightarrow> call_unlock cb True (UsageError e) c
         | None \<Rightarrow>
             (let (u, c1) = fresh_uuid_of v4 c; a = c_attempts c1;
                  c2 = start_timer u (UnlockTimer a u key cb) (unlock_timeout c o') c1;
                  c3 = set_resolution u (UnlockResolution a u key cb) c2
              in write_frame (UnlockReq (unlock_frame key u o')) (c3\<lparr>c_attempts := Suc a\<rparr>)))"

definition unlock_err :: "string \<Rightarrow> string \<Rightarrow> unlock_error \<Rightarrow> unlock_exception" where
  "unlock_err key u code = \<lparr>ue_key = key, ue_id = u, ue_code = code\<rparr>"

definition unlock_timed_out :: "nat \<Rightarrow> string \<Rightarrow> string \<Rightarrow> nat option \<Rightarrow> client \<Rightarrow> client" where
  "unlock_timed_out a u key cb c =
     fireUnlockCallbackWithError cb False (unlock_err key u BadOrMismatchedId)
       (c\<lparr>c_timed_out := insert a (c_timed_out c), c_timeouts := insert u (c_timeouts c)\<rparr>)"

definition unlock_resolved ::
  "nat \<Rightarrow> string \<Rightarrow> string \<Rightarrow> nat option \<Rightarrow> bool \<Rightarrow> client_frame option \<Rightarrow> client \<Rightarrow> client" where
  "unlock_resolved a u key cb err d c0 =
     (let c = clear_timer u (del_timeout u c0);
          fail = (\<lambda>code. fireUnlockCallbackWithError cb False (unlock_err key u code) c)
      in if a \<in> c_timed_out c then c
         else if err then fail UnlockInternalError
         else (case d of
                 None \<Rightarrow> fail UnlockInternalError
               | Some f \<Rightarrow>
                   if cf_key f \<noteq> key then fail UnlockInternalError
                   else if cf_error f then fail GeneralUnlockError
                   else if cf_unlocked f = Some True
                   then call_unlock cb False (Unlocked u key) (cleanUp (Some u) c)
                   else fail GeneralUnlockError))"

end
