(* ===== verification/ClientRun.thy ===== *)
theory ClientRun
  imports ClientLock
begin

text \<open>
  The rest of the client as a state machine: the other requests, the frames of the broker
  (\<open>onData\<close>), timers, and the life of the connection. One event is handled to completion at a time.
\<close>

subsection \<open>Promises and other requests\<close>

text \<open>\<open>acquire\<close> and \<open>release\<close>: the callback settles the promise.\<close>

definition client_acquire :: "(nat \<Rightarrow> string) \<Rightarrow> string \<Rightarrow> lock_arg \<Rightarrow> nat \<Rightarrow> client \<Rightarrow> client" where
  "client_acquire v4 key a cb c =
     client_lock v4 key (ArgOptions (preParseLockOptsForPromises a)) (Some cb) c"

definition client_release :: "(nat \<Rightarrow> string) \<Rightarrow> string \<Rightarrow> unlock_arg \<Rightarrow> nat \<Rightarrow> client \<Rightarrow> client" where
  "client_release v4 key a cb c =
     client_unlock v4 key (UArgOptions (preParseUnlockOptsForPromise a)) (Some cb) c"

definition client_ls :: "(nat \<Rightarrow> string) \<Rightarrow> nat \<Rightarrow> client \<Rightarrow> client" where
  "client_ls v4 cb c =
     (let (u, c1) = fresh_uuid_of v4 c in write_frame (LsReq u) (set_resolution u (LsResolution cb) c1))"

definition requestLockInfo :: "(nat \<Rightarrow> string) \<Rightarrow> string \<Rightarrow> nat \<Rightarrow> client \<Rightarrow> client" where
  "requestLockInfo v4 key cb c =
     (let (u, c1) = fresh_uuid_of v4 c
      in write_frame (LockInfoRequestReq \<lparr>k_uuid = u, k_key = key\<rparr>)
           (set_resolution u (LockInfoResolution u key cb) c1))"

definition client_ping :: "(nat \<Rightarrow> string) \<Rightarrow> int \<Rightarrow> nat \<Rightarrow> client \<Rightarrow> client" where
  "client_ping v4 t cb c =
     (if \<not> c_isOpen c then log_event (Called cb True PingFailed) c
      else (let (u, c1) = fresh_uuid_of v4 c
            in write_frame (PingReq u (Some t)) (set_resolution u (PingResolution u cb) c1)))"

definition client_getSystemStats :: "(nat \<Rightarrow> string) \<Rightarrow> nat \<Rightarrow> client \<Rightarrow> client" where
  "client_getSystemStats v4 cb c =
     (if \<not> c_isOpen c then log_event (Called cb True StatsFailed) c
      else (let (u, c1) = fresh_uuid_of v4 c
            in write_frame (SystemStatsRequestReq u) (set_resolution u (StatsResolution u cb) c1)))"

text \<open>The probes of \<open>RWLockWritePrefClient\<close>, which registers them in the same table.\<close>

fun probe_request :: "probe \<Rightarrow> key_req \<Rightarrow> LMXRequest" where
  "probe_request IncReaders r = IncrementReadersReq r"
| "probe_request DecReaders r = DecrementReadersReq r"
| "probe_request WriteFlagCheck r = RegisterWriteFlagCheckReq r"
| "probe_request WriteFlagAndReadersCheck r = RegisterWriteFlagAndReadersCheckReq r"
| "probe_request WriteFlagFalse r = SetWriteFlagFalseAndBroadcastReq r"

definition client_probe :: "(nat \<Rightarrow> string) \<Rightarrow> probe \<Rightarrow> string \<Rightarrow> nat \<Rightarrow> client \<Rightarrow> client" where
  "client_probe v4 p key cb c =
     (let (u, c1) = fresh_uuid_of v4 c
      in write_frame (probe_request p \<lparr>k_uuid = u, k_key = key\<rparr>) (set_resolution u (ProbeResolution u p cb) c1))"

subsection \<open>Resolutions\<close>

definition info_resolved :: "string \<Rightarrow> string \<Rightarrow> nat \<Rightarrow> bool \<Rightarrow> client_frame option \<Rightarrow> client \<Rightarrow> client" where
  "info_resolved u key cb err d c0 =
     (let c = del_timeout u (clear_timer u c0)
      in if err then log_event (Called cb False (LockInfoFailed key)) (log_event (CWarn CallbackError) (cleanUp None c))
         else (case d of
                 None \<Rightarrow> log_event Thrown c
               | Some f \<Rightarrow>
                   if cf_key f \<noteq> key then log_event Thrown (del_resolution u c)
                   else (let c1 = (if cf_error f then log_event (CWarn BrokerWarning) c else c)
                         in if cf_acquired f = Some True \<and> cf_retry f then log_event Thrown c1
                            else if cf_lockInfo f then log_event (Called cb False (LockInfo key)) (del_resolution u c1)
                            else c1)))"

definition reply_resolved ::
  "string \<Rightarrow> string \<Rightarrow> client_result \<Rightarrow> client_result \<Rightarrow> nat \<Rightarrow> bool \<Rightarrow> client_frame option \<Rightarrow> client
    \<Rightarrow> client" where
  "reply_resolved u t ok failed cb err d c =
     (let c1 = del_resolution u c
      in case d of
           Some f \<Rightarrow> log_event (Called cb True (if \<not> err \<and> cf_type f = t then ok else failed)) c1
         | None \<Rightarrow> log_event (Called cb True failed) c1)"

text \<open>
  \<open>registerWriteFlagCheck\<close> waits for the frame of its own type, the others take any. \<open>None\<close> is an object
  without a type, as \<open>recover\<close> and \<open>_fireCallbacksPrematurely\<close> pass it: it is ignored like any other type,
  although an error comes with it.
\<close>

definition still_waiting :: "probe \<Rightarrow> client_frame option \<Rightarrow> bool" where
  "still_waiting p d =
     (p = WriteFlagCheck \<and> (case d of None \<Rightarrow> True | Some f \<Rightarrow> cf_type f \<noteq> ''register-write-flag-success''))"

definition probe_resolved ::
  "string \<Rightarrow> probe \<Rightarrow> nat \<Rightarrow> bool \<Rightarrow> client_frame option \<Rightarrow> client \<Rightarrow> client" where
  "probe_resolved u p cb err d c =
     (if still_waiting p d then c else log_event (Called cb False (ProbeAnswered err)) (del_resolution u c))"

fun run_resolution ::
  "(nat \<Rightarrow> string) \<Rightarrow> resolution \<Rightarrow> bool \<Rightarrow> client_frame option \<Rightarrow> client \<Rightarrow> client" where
  "run_resolution v4 (LockResolution a u key j cb) err d c = lock_resolved v4 a u key j cb err d c"
| "run_resolution v4 (UnlockResolution a u key cb) err d c = unlock_resolved a u key cb err d c"
| "run_resolution v4 (LockInfoResolution u key cb) err d c = info_resolved u key cb err d c"
| "run_resolution v4 (LsResolution cb) err d c = log_event (Called cb False LsResult) c"
| "run_resolution v4 (PingResolution u cb) err d c = reply_resolved u ''pong'' PongResult PingFailed cb err d c"
| "run_resolution v4 (StatsResolution u cb) err d c =
     reply_resolved u ''system-stats-response'' StatsResult StatsFailed cb err d c"
| "run_resolution v4 (ProbeResolution u p cb) err d c = probe_resolved u p cb err d c"

fun run_timer :: "(nat \<Rightarrow> string) \<Rightarrow> client_timer \<Rightarrow> client \<Rightarrow> client" where
  "run_timer v4 (LockTimer a u key j cb) c = lock_timed_out v4 a u key j cb c"
| "run_timer v4 (UnlockTimer a u key cb) c = unlock_timed_out a u key cb c"

text \<open>A timer that fires is no longer armed.\<close>

definition fire_timer :: "(nat \<Rightarrow> string) \<Rightarrow> nat \<Rightarrow> client \<Rightarrow> client" where
  "fire_timer v4 t c =
     (case map_of (c_armed c) t of
        None \<Rightarrow> c
      | Some tm \<Rightarrow> run_timer v4 tm (c\<lparr>c_armed := AList.delete t (c_armed c)\<rparr>))"

subsection \<open>Ending everything at once\<close>

text \<open>
  Every resolution is called with an error and an object without the fields of a frame. The loops are
  split into what comes before them, one step for each resolution, and what comes after them, because
  the callbacks of the reader/writer clients run inside the steps.
\<close>

definition stop_timers :: "client \<Rightarrow> client" where
  "stop_timers c = c\<lparr>c_armed := filter (\<lambda>(t, tm). t \<notin> snd ` set (c_timers c)) (c_armed c), c_timers := []\<rparr>"

definition fire_premature :: "(nat \<Rightarrow> string) \<Rightarrow> string \<times> resolution \<Rightarrow> client \<Rightarrow> client" where
  "fire_premature v4 p c = run_resolution v4 (snd p) True None (del_resolution (fst p) c)"

definition fireCallbacksPrematurely :: "(nat \<Rightarrow> string) \<Rightarrow> client \<Rightarrow> client" where
  "fireCallbacksPrematurely v4 c =
     fold (fire_premature v4) (c_resolutions c) (stop_timers c)"

definition disable_socket :: "client \<Rightarrow> client" where
  "disable_socket c = (if c_socket c = NoSocket then c else c\<lparr>c_socket := Unusable\<rparr>)"

definition recover_one :: "(nat \<Rightarrow> string) \<Rightarrow> string \<times> resolution \<Rightarrow> client \<Rightarrow> client" where
  "recover_one v4 p c =
     (let u = fst p
      in run_resolution v4 (snd p) True None
           (del_resolution u (clear_timer u (c\<lparr>c_giveups := insert u (c_giveups c)\<rparr>))))"

text \<open>\<open>ensure()\<close> at the end finds a connection when a callback has written in the meantime.\<close>

definition begin_recovery :: "client \<Rightarrow> client" where
  "begin_recovery c = disable_socket (c\<lparr>c_recovering := True\<rparr>)"

definition end_recovery :: "client \<Rightarrow> client" where
  "end_recovery c = (if \<not> c_recovering c \<and> c_socket c = Usable then c else start_connection c)"

definition recover :: "(nat \<Rightarrow> string) \<Rightarrow> client \<Rightarrow> client" where
  "recover v4 c =
     (if c_recoverCalled c then c
      else (let c1 = c\<lparr>c_recoverCalled := True\<rparr>
            in if c_noRecover c1 then c1
               else end_recovery (fold (recover_one v4) (c_resolutions c1) (begin_recovery c1))))"

definition hang_up :: "client \<Rightarrow> client" where
  "hang_up c = disable_socket (c\<lparr>c_isOpen := False\<rparr>)"

definition endCurrentConnection :: "(nat \<Rightarrow> string) \<Rightarrow> client \<Rightarrow> client" where
  "endCurrentConnection v4 c = hang_up (fireCallbacksPrematurely v4 c)"

definition forget_all :: "client \<Rightarrow> client" where
  "forget_all c =
     disable_socket ((stop_timers c)
       \<lparr>c_timeouts := {}, c_resolutions := [], c_giveups := {}, c_errorListener := False\<rparr>)"

definition client_close :: "(nat \<Rightarrow> string) \<Rightarrow> client \<Rightarrow> client" where
  "client_close v4 c = forget_all (fireCallbacksPrematurely v4 (c\<lparr>c_noRecover := True\<rparr>))"

subsection \<open>Frames from the broker\<close>

definition emit_error :: "client \<Rightarrow> client" where
  "emit_error c = (if c_errorListener c then log_event CError c else log_event Thrown c)"

definition reject_frame :: "string option \<Rightarrow> client_frame \<Rightarrow> client \<Rightarrow> client" where
  "reject_frame sent f c =
     write_frame (LockReceivedRejectedReq \<lparr>k_uuid = prop_name (cf_uuid f), k_key = cf_key f\<rparr> sent) c"

definition granted_late :: "client_frame \<Rightarrow> bool" where
  "granted_late f = (cf_acquired f = Some True \<and> cf_type f = ''lock'')"

text \<open>The part of \<open>onData\<close> after the checks, for a frame with the uuid \<open>u\<close>.\<close>

definition deliver :: "(nat \<Rightarrow> string) \<Rightarrow> string \<Rightarrow> client_frame \<Rightarrow> client \<Rightarrow> client" where
  "deliver v4 u f c0 =
     (let fn = map_of (c_resolutions c0) u;
          late = (u \<in> c_timeouts c0);
          c = del_timeout u c0
      in if u \<in> c_giveups c
         then del_resolution u ((clear_timer u c)\<lparr>c_giveups := c_giveups c - {u}\<rparr>)
         else if fn \<noteq> None \<and> late \<and> \<not> c_errorListener c then log_event Thrown c
         else
           (let c1 = (if fn \<noteq> None \<and> late then log_event CError c else c)
            in if late
               then (let c2 = log_event (CWarn RequestTimedOut) c1
                     in if granted_late f then reject_frame (cf__uuid f) f c2 else c2)
               else (case fn of
                       Some r \<Rightarrow> run_resolution v4 r (cf_error f) (Some f) c1
                     | None \<Rightarrow>
                         (let c2 = log_event (CWarn NoResolution) c1
                          in if granted_late f
                             then reject_frame None f (log_event (CWarn (Rejecting (cf_key f))) c2) else c2))))"

definition refuse_version :: "client \<Rightarrow> client" where
  "refuse_version c = write_frame VersionMismatchConfirmedReq ((log_event CError c)\<lparr>c_cannotContinue := True\<rparr>)"

definition announce :: "client_frame \<Rightarrow> client \<Rightarrow> client" where
  "announce f c =
     (let c1 = (if cf_error f then log_event CError c else c)
      in if cf_warning f then log_event (CWarn BrokerWarning) c1 else c1)"

definition client_onData :: "(nat \<Rightarrow> string) \<Rightarrow> client_frame \<Rightarrow> client \<Rightarrow> client" where
  "client_onData v4 f c =
     (if cf_error f \<and> \<not> c_errorListener c then log_event Thrown c
      else
        (let c2 = announce f c
         in if cf_type f = ''version-mismatch''
            then (if \<not> c_errorListener c2 then log_event Thrown c2
                  else fireCallbacksPrematurely v4 (refuse_version c2))
            else if \<not> truthy_str (cf_uuid f) then log_event (CWarn NoUuid) c2
            else deliver v4 (prop_name (cf_uuid f)) f c2))"

subsection \<open>Events\<close>

text \<open>\<open>ApiLock\<close> and \<open>ApiUnlock\<close> carry whether a callback is the last argument.\<close>

datatype client_step =
    ApiLock string lock_arg bool
  | ApiUnlock string unlock_arg bool
  | ApiAcquire string lock_arg
  | ApiRelease string unlock_arg
  | ApiLockInfo string
  | ApiLs
  | ApiPing int
  | ApiStats
  | ApiProbe probe string
  | FrameArrived client_frame
  | TimerFired nat
  | Connected
  | ConnectFailed
  | StreamEnded
  | SocketBroken
  | ApiEndConnection
  | ApiClose
  | ApiSetNoRecover
  | ApiOnError

definition client_connect :: "client \<Rightarrow> client" where
  "client_connect c =
     (let c1 = write_frame (VersionReq (String (c_version c))) (c\<lparr>c_isOpen := True, c_socket := Usable\<rparr>)
      in fold write_frame (c_deferred c1) (c1\<lparr>c_deferred := []\<rparr>))"

definition connect_failed :: "client \<Rightarrow> client" where
  "connect_failed c =
     (let c1 = disable_socket (c\<lparr>c_noRecover := True, c_deferred := []\<rparr>)
      in if c_deferred c = [] then c1 else log_event Thrown c1)"

definition new_call :: "client \<Rightarrow> client" where
  "new_call c = c\<lparr>c_calls := Suc (c_calls c)\<rparr>"

fun client_handle :: "(nat \<Rightarrow> string) \<Rightarrow> client_step \<Rightarrow> client \<Rightarrow> client" where
  "client_handle v4 (ApiLock key a has) c =
     client_lock v4 key (case a of ArgCallback f \<Rightarrow> ArgCallback (c_calls c) | _ \<Rightarrow> a)
       (if has then Some (c_calls c) else None) (new_call c)"
| "client_handle v4 (ApiUnlock key a has) c =
     client_unlock v4 key (case a of UArgCallback f \<Rightarrow> UArgCallback (c_calls c) | _ \<Rightarrow> a)
       (if has then Some (c_calls c) else None) (new_call c)"
| "client_handle v4 (ApiAcquire key a) c = client_acquire v4 key a (c_calls c) (new_call c)"
| "client_handle v4 (ApiRelease key a) c = client_release v4 key a (c_calls c) (new_call c)"
| "client_handle v4 (ApiLockInfo key) c = requestLockInfo v4 key (c_calls c) (new_call c)"
| "client_handle v4 ApiLs c = client_ls v4 (c_calls c) (new_call c)"
| "client_handle v4 (ApiPing t) c = client_ping v4 t (c_calls c) (new_call c)"
| "client_handle v4 ApiStats c = client_getSystemStats v4 (c_calls c) (new_call c)"
| "client_handle v4 (ApiProbe p key) c = client_probe v4 p key (c_calls c) (new_call c)"
| "client_handle v4 (FrameArrived f) c = client_onData v4 f c"
| "client_handle v4 (TimerFired t) c = fire_timer v4 t c"
| "client_handle v4 Connected c = client_connect c"
| "client_handle v4 ConnectFailed c = connect_failed c"
| "client_handle v4 StreamEnded c = recover v4 c"
| "client_handle v4 SocketBroken c = disable_socket c"
| "client_handle v4 ApiEndConnection c = endCurrentConnection v4 c"
| "client_handle v4 ApiClose c = client_close v4 c"
| "client_handle v4 ApiSetNoRecover c = c\<lparr>c_noRecover := True\<rparr>"
| "client_handle v4 ApiOnError c = c\<lparr>c_errorListener := True\<rparr>"

inductive client_reachable ::
  "(nat \<Rightarrow> string) \<Rightarrow> (client_step \<Rightarrow> bool) \<Rightarrow> client \<Rightarrow> client \<Rightarrow> bool"
  for v4 A c0 where
  client_start: "client_reachable v4 A c0 c0"
| client_step: "client_reachable v4 A c0 c \<Longrightarrow> A e \<Longrightarrow> client_reachable v4 A c0 (client_handle v4 e c)"

inductive_cases client_reachableE: "client_reachable v4 A c0 c"

definition client_run :: "(nat \<Rightarrow> string) \<Rightarrow> client_step list \<Rightarrow> client \<Rightarrow> client" where
  "client_run v4 es c = fold (client_handle v4) es c"

lemma client_run_reachable: "list_all A es \<Longrightarrow> client_reachable v4 A c (client_run v4 es c)"
proof (induction es rule: rev_induct)
  case (snoc e es)
  then show ?case by (simp add: client_run_def client_step)
qed (simp add: client_run_def client_start)

definition new_client :: "js_number \<Rightarrow> int \<Rightarrow> int \<Rightarrow> int \<Rightarrow> bool \<Rightarrow> int \<Rightarrow> string \<Rightarrow> client" where
  "new_client ttl lrt urt retries keep pid version =
     \<lparr>c_ttl = ttl, c_lockRequestTimeout = lrt, c_unlockRequestTimeout = urt, c_lockRetryMax = retries,
      c_keepLocksAfterDeath = keep, c_pid = pid, c_version = version, c_noRecover = False,
      c_cannotContinue = False, c_isOpen = False, c_recovering = False, c_socket = NoSocket,
      c_recoverCalled = False, c_errorListener = False, c_timeouts = {}, c_resolutions = [],
      c_giveups = {}, c_timers = [], c_armed = [], c_timed_out = {}, c_attempts = 0, c_uuids = 0,
      c_calls = 0, c_deferred = [], c_out = []\<rparr>"

end
