(* ===== verification/ClientInv.thy ===== *)
theory ClientInv
  imports ClientRun "HOL-Library.Multiset"
begin

text \<open>
  The bookkeeping of the client: every callback given to \<open>lock\<close> or \<open>unlock\<close> is either called or
  kept by exactly one resolution, whose timer is armed. The account is a multiset equation, with
  \<open>D\<close> the callbacks an operation has in hand.
\<close>

subsection \<open>The account\<close>

fun lock_cb :: "resolution \<Rightarrow> nat option" where
  "lock_cb (LockResolution a u key j cb) = Some cb"
| "lock_cb (UnlockResolution a u key cb) = cb"
| "lock_cb _ = None"

definition cb_mset :: "nat option \<Rightarrow> nat multiset" where
  "cb_mset cb = (case cb of None \<Rightarrow> {#} | Some n \<Rightarrow> {#n#})"

lemma cb_mset_simps [simp]: "cb_mset None = {#}" "cb_mset (Some n) = {#n#}"
  by (simp_all add: cb_mset_def)

definition waiting_in :: "(string, resolution) jsmap \<Rightarrow> nat multiset" where
  "waiting_in m = sum_list (map (\<lambda>p. cb_mset (lock_cb (snd p))) m)"

fun is_answer :: "client_result \<Rightarrow> bool" where
  "is_answer (Locked _) = True"
| "is_answer (LockFailed _) = True"
| "is_answer (Unlocked _ _) = True"
| "is_answer (UnlockFailed _) = True"
| "is_answer (UsageError _) = True"
| "is_answer _ = False"

fun answer_of :: "client_event \<Rightarrow> nat multiset" where
  "answer_of (Called n b r) = (if is_answer r then {#n#} else {#})"
| "answer_of _ = {#}"

fun asked_of :: "client_event \<Rightarrow> nat multiset" where
  "asked_of (Asked n) = {#n#}"
| "asked_of _ = {#}"

definition answered_in :: "client_event list \<Rightarrow> nat multiset" where
  "answered_in es = sum_list (map answer_of es)"

definition asked_in :: "client_event list \<Rightarrow> nat multiset" where
  "asked_in es = sum_list (map asked_of es)"

lemma answered_in_simps [simp]:
  "answered_in [] = {#}" "answered_in (e # es) = answer_of e + answered_in es"
  "answered_in (es @ fs) = answered_in es + answered_in fs"
  by (simp_all add: answered_in_def)

lemma asked_in_simps [simp]:
  "asked_in [] = {#}" "asked_in (e # es) = asked_of e + asked_in es"
  "asked_in (es @ fs) = asked_in es + asked_in fs"
  by (simp_all add: asked_in_def)

lemma waiting_in_simps [simp]:
  "waiting_in [] = {#}" "waiting_in (p # m) = cb_mset (lock_cb (snd p)) + waiting_in m"
  by (simp_all add: waiting_in_def)

lemma waiting_in_delete:
  "jsmap_wf m \<Longrightarrow> map_of m u = Some r \<Longrightarrow>
   waiting_in (AList.delete u m) + cb_mset (lock_cb r) = waiting_in m"
proof (induction m)
  case (Cons p m)
  show ?case
  proof (cases "fst p = u")
    case True
    with Cons.prems(1) have "map_of m u = None" by (auto simp: map_of_eq_None_iff)
    then have "AList.delete u m = m" by (rule length_delete_absent)
    moreover have "snd p = r" using Cons.prems(2) True by (cases p) simp
    ultimately show ?thesis using True by (cases p) (simp add: union_commute)
  next
    case False
    then have "waiting_in (AList.delete u m) + cb_mset (lock_cb r) = waiting_in m"
      using Cons by (cases p) simp
    then show ?thesis using False by (cases p) (simp add: union_assoc)
  qed
qed simp

lemma waiting_in_update:
  "map_of m u = None \<Longrightarrow> waiting_in (AList.update u r m) = waiting_in m + cb_mset (lock_cb r)"
  by (induction m) (auto split: if_splits simp: ac_simps)

subsection \<open>What an operation leaves alone\<close>

lemma log_event_fields [simp]:
  "c_resolutions (log_event e c) = c_resolutions c" "c_timers (log_event e c) = c_timers c"
  "c_armed (log_event e c) = c_armed c" "c_timed_out (log_event e c) = c_timed_out c"
  "c_timeouts (log_event e c) = c_timeouts c" "c_giveups (log_event e c) = c_giveups c"
  "c_attempts (log_event e c) = c_attempts c" "c_uuids (log_event e c) = c_uuids c"
  "c_calls (log_event e c) = c_calls c" "c_recovering (log_event e c) = c_recovering c"
  "c_isOpen (log_event e c) = c_isOpen c" "c_cannotContinue (log_event e c) = c_cannotContinue c"
  "c_socket (log_event e c) = c_socket c" "c_errorListener (log_event e c) = c_errorListener c"
  "c_out (log_event e c) = c_out c @ [e]"
  by (simp_all add: log_event_def)

lemma write_frame_fields [simp]:
  "c_resolutions (write_frame r c) = c_resolutions c" "c_timers (write_frame r c) = c_timers c"
  "c_armed (write_frame r c) = c_armed c" "c_timed_out (write_frame r c) = c_timed_out c"
  "c_timeouts (write_frame r c) = c_timeouts c" "c_giveups (write_frame r c) = c_giveups c"
  "c_attempts (write_frame r c) = c_attempts c" "c_uuids (write_frame r c) = c_uuids c"
  "c_calls (write_frame r c) = c_calls c" "c_isOpen (write_frame r c) = c_isOpen c"
  "c_cannotContinue (write_frame r c) = c_cannotContinue c"
  "c_errorListener (write_frame r c) = c_errorListener c"
  "\<not> c_recovering c \<Longrightarrow> \<not> c_recovering (write_frame r c)"
  by (simp_all add: write_frame_def start_connection_def split: socket_state.splits)

lemma write_frame_account [simp]:
  "answered_in (c_out (write_frame r c)) = answered_in (c_out c)"
  "asked_in (c_out (write_frame r c)) = asked_in (c_out c)"
  by (simp_all add: write_frame_def start_connection_def split: socket_state.splits)

subsection \<open>The invariant\<close>

text \<open>What the code relies on of the UUID package: the ids never repeat, and none is empty or reads
  \<open>null\<close>.\<close>

definition good_v4 :: "(nat \<Rightarrow> string) \<Rightarrow> bool" where
  "good_v4 v4 = (inj v4 \<and> (\<forall>i. v4 i \<noteq> [] \<and> v4 i \<noteq> ''null''))"

text \<open>A resolution that belongs to a timer: attempt, uuid, and the timer.\<close>

fun timer_of :: "resolution \<Rightarrow> (nat \<times> string \<times> client_timer) option" where
  "timer_of (LockResolution a u key j cb) = Some (a, u, LockTimer a u key j cb)"
| "timer_of (UnlockResolution a u key cb) = Some (a, u, UnlockTimer a u key cb)"
| "timer_of _ = None"

fun own_id :: "string \<Rightarrow> resolution \<Rightarrow> bool" where
  "own_id u (LockResolution a u' key j cb) = (u' = u \<and> j_uuid j = Some u)"
| "own_id u (UnlockResolution a u' key cb) = (u' = u)"
| "own_id u (LockInfoResolution u' key cb) = (u' = u)"
| "own_id u (LsResolution cb) = True"
| "own_id u (PingResolution u' cb) = (u' = u)"
| "own_id u (StatsResolution u' cb) = (u' = u)"
| "own_id u (ProbeResolution u' p cb) = (u' = u)"

definition armed_for :: "client \<Rightarrow> string \<Rightarrow> resolution \<Rightarrow> bool" where
  "armed_for c u r =
     (case timer_of r of
        None \<Rightarrow> map_of (c_timers c) u = None
      | Some (a, u', tm) \<Rightarrow>
          map_of (c_timers c) u = Some a \<and> map_of (c_armed c) a = Some tm \<and> a \<notin> c_timed_out c)"

definition owed :: "client \<Rightarrow> nat \<Rightarrow> client_timer \<Rightarrow> bool" where
  "owed c t tm \<longleftrightarrow> (\<exists>u r. map_of (c_resolutions c) u = Some r \<and> timer_of r = Some (t, u, tm))"

definition tables_ok :: "(nat \<Rightarrow> string) \<Rightarrow> client \<Rightarrow> bool" where
  "tables_ok v4 c \<longleftrightarrow>
     jsmap_wf (c_resolutions c) \<and> jsmap_wf (c_armed c) \<and> jsmap_wf (c_timers c) \<and>
     distinct (map snd (c_timers c)) \<and>
     (\<forall>u r. map_of (c_resolutions c) u = Some r \<longrightarrow> own_id u r \<and> armed_for c u r) \<and>
     (\<forall>t tm. map_of (c_armed c) t = Some tm \<longrightarrow> owed c t tm) \<and>
     c_timed_out c \<union> set (map snd (c_timers c)) \<union> fst ` set (c_armed c) \<subseteq> {..<c_attempts c} \<and>
     fst ` set (c_resolutions c) \<union> fst ` set (c_timers c) \<subseteq> v4 ` {..<c_uuids c} \<and>
     c_giveups c \<inter> fst ` set (c_resolutions c) = {} \<and> c_giveups c \<subseteq> v4 ` {..<c_uuids c} \<and>
     c_timeouts c = {}"

definition account_ok :: "nat multiset \<Rightarrow> client \<Rightarrow> bool" where
  "account_ok D c \<longleftrightarrow>
     waiting_in (c_resolutions c) + answered_in (c_out c) + D = asked_in (c_out c) \<and>
     (\<forall>n. count (asked_in (c_out c)) n \<le> 1) \<and>
     (\<forall>n. n \<in># asked_in (c_out c) \<longrightarrow> n < c_calls c)"

definition client_ok :: "(nat \<Rightarrow> string) \<Rightarrow> nat multiset \<Rightarrow> client \<Rightarrow> bool" where
  "client_ok v4 D c \<longleftrightarrow> tables_ok v4 c \<and> account_ok D c"

lemma client_ok_cong:
  assumes "client_ok v4 D c"
    and "c_resolutions c' = c_resolutions c" "c_timers c' = c_timers c" "c_armed c' = c_armed c"
      "c_timed_out c' = c_timed_out c" "c_timeouts c' = c_timeouts c" "c_giveups c' = c_giveups c"
      "c_attempts c' = c_attempts c" "c_uuids c' = c_uuids c" "c_calls c \<le> c_calls c'"
      "answered_in (c_out c') = answered_in (c_out c)" "asked_in (c_out c') = asked_in (c_out c)"
  shows "client_ok v4 D c'"
  using assms(1,10) unfolding client_ok_def tables_ok_def account_ok_def armed_for_def owed_def assms(2-9,11,12)
  by (metis (no_types, lifting) order_less_le_trans)

lemma tables_okD:
  assumes "tables_ok v4 c"
  shows "jsmap_wf (c_resolutions c)" "jsmap_wf (c_armed c)" "jsmap_wf (c_timers c)"
    "distinct (map snd (c_timers c))" "c_timeouts c = {}"
    "map_of (c_resolutions c) u = Some r \<Longrightarrow> own_id u r"
    "map_of (c_resolutions c) u = Some r \<Longrightarrow> armed_for c u r"
    "map_of (c_armed c) t = Some tm \<Longrightarrow> owed c t tm"
    "c_timed_out c \<subseteq> {..<c_attempts c}" "snd ` set (c_timers c) \<subseteq> {..<c_attempts c}"
    "fst ` set (c_armed c) \<subseteq> {..<c_attempts c}"
    "fst ` set (c_resolutions c) \<subseteq> v4 ` {..<c_uuids c}" "fst ` set (c_timers c) \<subseteq> v4 ` {..<c_uuids c}"
    "c_giveups c \<inter> fst ` set (c_resolutions c) = {}" "c_giveups c \<subseteq> v4 ` {..<c_uuids c}"
  using assms by (simp_all add: tables_ok_def)

lemma client_okD:
  assumes "client_ok v4 D c"
  shows "tables_ok v4 c" "account_ok D c" "jsmap_wf (c_resolutions c)" "c_timeouts c = {}"
  using assms by (auto simp: client_ok_def dest: tables_okD)

lemma armed_for_timer:
  "armed_for c u r \<Longrightarrow> timer_of r = Some (a, u', tm) \<Longrightarrow>
   map_of (c_timers c) u = Some a \<and> map_of (c_armed c) a = Some tm \<and> a \<notin> c_timed_out c"
  by (simp add: armed_for_def)

lemma armed_for_none: "armed_for c u r \<Longrightarrow> timer_of r = None \<Longrightarrow> map_of (c_timers c) u = None"
  by (simp add: armed_for_def)

text \<open>An armed timer is the one its uuid points to.\<close>

lemma armed_timer:
  assumes "tables_ok v4 c" and "map_of (c_armed c) t = Some tm"
  obtains u r where "map_of (c_resolutions c) u = Some r" "timer_of r = Some (t, u, tm)"
    "map_of (c_timers c) u = Some t"
proof -
  obtain u r where "map_of (c_resolutions c) u = Some r" "timer_of r = Some (t, u, tm)"
    using tables_okD(8) [OF assms] by (auto simp: owed_def)
  with armed_for_timer [OF tables_okD(7) [OF assms(1)]] that show ?thesis by blast
qed

subsection \<open>Forgetting a uuid\<close>

definition owed_cb :: "client \<Rightarrow> string \<Rightarrow> nat multiset" where
  "owed_cb c u = (case map_of (c_resolutions c) u of None \<Rightarrow> {#} | Some r \<Rightarrow> cb_mset (lock_cb r))"

definition forgets :: "string \<Rightarrow> client \<Rightarrow> client \<Rightarrow> bool" where
  "forgets u c c' \<longleftrightarrow>
     c_resolutions c' = AList.delete u (c_resolutions c) \<and>
     c_armed c' = (case map_of (c_timers c) u of None \<Rightarrow> c_armed c | Some t \<Rightarrow> AList.delete t (c_armed c)) \<and>
     (c_timers c' = c_timers c \<or> c_timers c' = AList.delete u (c_timers c)) \<and>
     c_timed_out c \<subseteq> c_timed_out c' \<and>
     (\<forall>a \<in> c_timed_out c'. a \<in> c_timed_out c \<or> map_of (c_timers c) u = Some a) \<and>
     c_giveups c' \<subseteq> c_giveups c \<union> ({u} \<inter> fst ` set (c_resolutions c)) \<and> c_timeouts c' = {} \<and>
     c_attempts c' = c_attempts c \<and> c_uuids c' = c_uuids c \<and> c_calls c' = c_calls c \<and>
     answered_in (c_out c') = answered_in (c_out c) \<and> asked_in (c_out c') = asked_in (c_out c)"

lemma timers_inj:
  "distinct (map snd m) \<Longrightarrow> map_of m u = Some t \<Longrightarrow> map_of m v = Some t \<Longrightarrow> u = v"
proof (induction m)
  case (Cons p m)
  have absent: "map_of m w \<noteq> Some (snd p)" for w
  proof
    assume "map_of m w = Some (snd p)"
    from map_of_SomeD [OF this] Cons.prems(1) show False by (force simp: image_iff)
  qed
  show ?case using Cons absent by (cases p) (auto split: if_splits)
qed simp

lemma set_delete_fst: "fst ` set (AList.delete u m) \<subseteq> fst ` set m - {u}"
  by (induction m) auto

lemma forgetsD:
  assumes "forgets u c c'"
  shows "c_resolutions c' = AList.delete u (c_resolutions c)"
    "c_armed c' = (case map_of (c_timers c) u of None \<Rightarrow> c_armed c | Some t \<Rightarrow> AList.delete t (c_armed c))"
    "c_timers c' = c_timers c \<or> c_timers c' = AList.delete u (c_timers c)"
    "a \<in> c_timed_out c' \<Longrightarrow> a \<in> c_timed_out c \<or> map_of (c_timers c) u = Some a"
    "c_giveups c' \<subseteq> c_giveups c \<union> ({u} \<inter> fst ` set (c_resolutions c))" "c_timeouts c' = {}"
    "c_attempts c' = c_attempts c" "c_uuids c' = c_uuids c" "c_calls c' = c_calls c"
    "answered_in (c_out c') = answered_in (c_out c)" "asked_in (c_out c') = asked_in (c_out c)"
  using assms by (simp_all add: forgets_def)

lemma forgets_sets:
  "G' \<subseteq> G \<union> ({u} \<inter> R) \<Longrightarrow> R' \<subseteq> R - {u} \<Longrightarrow> G \<inter> R = {} \<Longrightarrow> G \<subseteq> V \<Longrightarrow> R \<subseteq> V \<Longrightarrow>
   G' \<inter> R' = {} \<and> G' \<subseteq> V \<and> R' \<subseteq> V"
  by blast

lemma forgets_tables:
  assumes ok: "tables_ok v4 c" and f: "forgets u c c'"
  shows "tables_ok v4 c'"
proof -
  note F = forgetsD [OF f]
  have timers: "map_of (c_timers c') v = map_of (c_timers c) v" if "v \<noteq> u" for v using F(3) that by auto
  have armed: "map_of (c_armed c') t = (if map_of (c_timers c) u = Some t then None else map_of (c_armed c) t)" for t
    by (auto simp: F(2) split: option.splits)
  have res: "map_of (c_resolutions c') v = (if v = u then None else map_of (c_resolutions c) v)" for v
    by (auto simp: F(1))
  have entry: "own_id v r \<and> armed_for c' v r" if "map_of (c_resolutions c') v = Some r" for v r
  proof -
    have v: "v \<noteq> u" "map_of (c_resolutions c) v = Some r" using that res by (auto split: if_splits)
    have a: "armed_for c v r" by (rule tables_okD(7) [OF ok v(2)])
    have "armed_for c' v r"
    proof (cases "timer_of r")
      case None
      then show ?thesis using armed_for_none [OF a] timers [OF v(1)] by (simp add: armed_for_def)
    next
      case (Some p)
      obtain t w tm where p: "p = (t, w, tm)" by (cases p)
      note T = armed_for_timer [OF a Some [unfolded p]]
      then have "map_of (c_timers c) u \<noteq> Some t"
        using timers_inj [OF tables_okD(4) [OF ok], of v t u] v(1) by blast
      with T F(4) [of t] show ?thesis
        using timers [OF v(1)] by (auto simp: armed_for_def Some p armed)
    qed
    then show ?thesis using tables_okD(6) [OF ok v(2)] by simp
  qed
  have own: "owed c' t tm" if "map_of (c_armed c') t = Some tm" for t tm
  proof -
    have a: "map_of (c_timers c) u \<noteq> Some t" "map_of (c_armed c) t = Some tm"
      using that armed by (auto split: if_splits)
    from armed_timer [OF ok a(2)] obtain v r where
      v: "map_of (c_resolutions c) v = Some r" "timer_of r = Some (t, v, tm)" "map_of (c_timers c) v = Some t" .
    then have "v \<noteq> u" using a(1) by auto
    then show ?thesis using v res unfolding owed_def by auto
  qed
  have snds: "distinct (map snd (c_timers c')) \<and> snd ` set (c_timers c') \<subseteq> {..<c_attempts c} \<and>
      fst ` set (c_timers c') \<subseteq> v4 ` {..<c_uuids c} \<and> jsmap_wf (c_timers c')"
    using F(3)
  proof
    assume "c_timers c' = AList.delete u (c_timers c)"
    then have "c_timers c' = filter (\<lambda>(k, v). u \<noteq> k) (c_timers c)" by (simp add: AList.delete_eq)
    then show ?thesis using tables_okD(3,4,10,13) [OF ok] by (auto simp: distinct_map_filter)
  qed (use tables_okD(3,4,10,13) [OF ok] in simp)
  have bounds: "c_timed_out c' \<subseteq> {..<c_attempts c}"
  proof
    fix a assume "a \<in> c_timed_out c'"
    then have "a \<in> c_timed_out c \<or> a \<in> snd ` set (c_timers c)"
      using F(4) by (force dest: map_of_SomeD)
    then show "a \<in> {..<c_attempts c}" using tables_okD(9,10) [OF ok] by blast
  qed
  have armed_dom: "fst ` set (c_armed c') \<subseteq> {..<c_attempts c} \<and> jsmap_wf (c_armed c')"
  proof (cases "map_of (c_timers c) u")
    case (Some t)
    have "fst ` set (AList.delete t (c_armed c)) \<subseteq> {..<c_attempts c}"
      using tables_okD(11) [OF ok] set_delete_fst [of t "c_armed c"] by blast
    then show ?thesis using Some tables_okD(2) [OF ok] by (simp add: F(2))
  qed (use tables_okD(2,11) [OF ok] in \<open>simp add: F(2)\<close>)
  have give: "c_giveups c' \<inter> fst ` set (c_resolutions c') = {} \<and> c_giveups c' \<subseteq> v4 ` {..<c_uuids c} \<and>
      fst ` set (c_resolutions c') \<subseteq> v4 ` {..<c_uuids c}"
    unfolding F(1) by (rule forgets_sets [OF F(5) set_delete_fst tables_okD(14,15,12) [OF ok]])
  show ?thesis
    unfolding tables_ok_def F(6-8)
    using entry own snds bounds armed_dom give tables_okD(1) [OF ok] by (simp add: F(1))
qed

lemma forgets_ok:
  assumes ok: "client_ok v4 D c" and f: "forgets u c c'"
  shows "client_ok v4 (D + owed_cb c u) c'"
proof -
  have "waiting_in (c_resolutions c') + owed_cb c u = waiting_in (c_resolutions c)"
    using f client_okD(3) [OF ok] waiting_in_delete [of "c_resolutions c" u]
    by (auto simp: forgets_def owed_cb_def length_delete_absent split: option.splits)
  then show ?thesis
    using ok f forgets_tables [OF _ f] unfolding client_ok_def account_ok_def forgets_def
    by (metis (no_types, lifting) add.assoc add.commute)
qed

subsection \<open>The steps of the bookkeeping\<close>

lemma log_other:
  "client_ok v4 D c \<Longrightarrow> answer_of e = {#} \<Longrightarrow> asked_of e = {#} \<Longrightarrow> client_ok v4 D (log_event e c)"
  by (rule client_ok_cong [where c = c]) simp_all

lemma write_frame_ok [inv_intro]: "client_ok v4 D c \<Longrightarrow> client_ok v4 D (write_frame r c)"
  by (rule client_ok_cong [where c = c]) simp_all

lemma tables_log_event [simp]:
  "armed_for (log_event e c) = armed_for c" "owed (log_event e c) = owed c"
  "tables_ok v4 (log_event e c) = tables_ok v4 c"
proof -
  show "armed_for (log_event e c) = armed_for c" "owed (log_event e c) = owed c"
    by (simp_all add: armed_for_def owed_def fun_eq_iff split: option.splits)
  then show "tables_ok v4 (log_event e c) = tables_ok v4 c" by (simp add: tables_ok_def)
qed

lemma answer_ok:
  assumes "client_ok v4 (D + {#n#}) c" and "is_answer r"
  shows "client_ok v4 D (log_event (Called n b r) c)"
  using assms by (simp add: client_ok_def account_ok_def)

lemma cleanUp_fields [simp]:
  "c_out (cleanUp uo c) = c_out c" "c_isOpen (cleanUp uo c) = c_isOpen c"
  "c_recovering (cleanUp uo c) = c_recovering c" "c_cannotContinue (cleanUp uo c) = c_cannotContinue c"
  "c_uuids (cleanUp uo c) = c_uuids c" "c_giveups (cleanUp uo c) = c_giveups c"
  "c_resolutions (cleanUp (Some u) c) = AList.delete u (c_resolutions c)"
  by (simp_all add: cleanUp_def Let_def clear_timer_def del_timer_def del_timeout_def del_resolution_def
      split: option.splits)

lemma cleanUp_forgets: "client_ok v4 D c \<Longrightarrow> forgets u c (cleanUp (Some u) c)"
  using client_okD(4) [of v4 D c]
  by (auto simp: forgets_def cleanUp_def Let_def clear_timer_def del_timer_def del_timeout_def del_resolution_def
      split: option.splits)

lemma cleanUp_ok: "client_ok v4 D c \<Longrightarrow> client_ok v4 (D + owed_cb c u) (cleanUp (Some u) c)"
  by (rule forgets_ok [OF _ cleanUp_forgets])

lemma cleanUp_null_ok:
  assumes "client_ok v4 D c" and "good_v4 v4"
  shows "client_ok v4 D (cleanUp None c)"
proof -
  have "''null'' \<notin> v4 ` {..<c_uuids c}"
    using assms(2) by (force simp: good_v4_def)
  then have "map_of (c_timers c) ''null'' = None"
    using tables_okD(13) [OF client_okD(1) [OF assms(1)]] by (auto simp: map_of_eq_None_iff)
  then show ?thesis using client_okD(4) [OF assms(1)]
    by (intro client_ok_cong [OF assms(1)])
      (simp_all add: cleanUp_def Let_def clear_timer_def del_timer_def del_timeout_def length_delete_absent)
qed

definition in_hand :: "client \<Rightarrow> string option \<Rightarrow> nat multiset" where
  "in_hand c uo = (case uo of None \<Rightarrow> {#} | Some u \<Rightarrow> owed_cb c u)"

lemma in_hand_simps [simp]: "in_hand c None = {#}" "in_hand c (Some u) = owed_cb c u"
  by (simp_all add: in_hand_def)

lemma fireLock_ok:
  assumes "client_ok v4 D c" and "good_v4 v4" and "D + in_hand c (le_id err) = {#cb#}"
  shows "client_ok v4 {#} (fireLockCallbackWithError cb b err c)"
proof -
  have "client_ok v4 {#cb#} (cleanUp (le_id err) c)"
  proof (cases "le_id err")
    case None
    then show ?thesis using cleanUp_null_ok [OF assms(1,2)] assms(3) by simp
  next
    case (Some u)
    then show ?thesis using cleanUp_ok [OF assms(1), of u] assms(3) by simp
  qed
  then have "client_ok v4 ({#} + {#cb#}) (log_event (CWarn CallbackError) (cleanUp (le_id err) c))"
    by (intro log_other) simp_all
  then show ?thesis unfolding fireLockCallbackWithError_def by (rule answer_ok) simp
qed

lemma call_unlock_ok:
  assumes "client_ok v4 (D + cb_mset cb) c" and "is_answer r"
  shows "client_ok v4 D (call_unlock cb b r c)"
  using assms by (cases cb) (auto simp: call_unlock_def intro: answer_ok)

lemma fireUnlock_ok:
  assumes "client_ok v4 D c" and "D + owed_cb c (ue_id err) = cb_mset cb"
  shows "client_ok v4 {#} (fireUnlockCallbackWithError cb b err c)"
proof -
  have "client_ok v4 ({#} + cb_mset cb) (log_event (CWarn CallbackError) (cleanUp (Some (ue_id err)) c))"
    using cleanUp_ok [OF assms(1), where u = "ue_id err"] assms by (intro log_other) (simp_all add: add.commute)
  then show ?thesis unfolding fireUnlockCallbackWithError_def by (rule call_unlock_ok) simp
qed

text \<open>Registering a resolution under a new uuid, or under one that was just forgotten.\<close>

lemma distinct_snd_update:
  "distinct (map snd m) \<Longrightarrow> (\<And>v. map_of m v \<noteq> Some a) \<Longrightarrow> jsmap_wf m \<Longrightarrow>
   distinct (map snd (AList.update u a m))"
proof -
  assume m: "distinct (map snd m)" "jsmap_wf m" and a: "\<And>v. map_of m v \<noteq> Some a"
  have "a \<notin> snd ` set m" using a jsmap_wf_in_set [OF m(2)] by (metis imageE prod.collapse)
  with m(1) show ?thesis
  proof (induction m)
    case (Cons p m)
    have "snd ` set (AList.update u a m) \<subseteq> insert a (snd ` set m)" using set_update_subset [of u a m] by force
    then show ?case using Cons by (cases p) auto
  qed simp
qed

lemma register_ok:
  assumes ok: "client_ok v4 (D + cb_mset (lock_cb r)) c"
    and tm: "timer_of r = Some (c_attempts c, u, tm)" "own_id u r"
    and u: "u \<in> v4 ` {..<c_uuids c}" "map_of (c_resolutions c) u = None" "u \<notin> c_giveups c"
  shows "client_ok v4 D ((set_resolution u r (start_timer u tm ms c))\<lparr>c_attempts := Suc (c_attempts c)\<rparr>)"
proof -
  let ?c = "(set_resolution u r (start_timer u tm ms c))\<lparr>c_attempts := Suc (c_attempts c)\<rparr>"
  note T = tables_okD [OF client_okD(1) [OF ok]]
  have F: "c_resolutions ?c = AList.update u r (c_resolutions c)"
    "c_timers ?c = AList.update u (c_attempts c) (c_timers c)"
    "c_armed ?c = AList.update (c_attempts c) tm (c_armed c)"
    "c_timed_out ?c = c_timed_out c" "c_timeouts ?c = c_timeouts c" "c_giveups ?c = c_giveups c"
    "c_attempts ?c = Suc (c_attempts c)" "c_uuids ?c = c_uuids c"
    by (simp_all add: set_resolution_def start_timer_def)
  have new: "map_of (c_armed c) (c_attempts c) = None" "c_attempts c \<notin> c_timed_out c"
    "\<And>v. map_of (c_timers c) v \<noteq> Some (c_attempts c)"
    using T(9-11) by (force simp: map_of_eq_None_iff dest: map_of_SomeD)+
  have entry: "own_id v s \<and> armed_for ?c v s" if "map_of (c_resolutions ?c) v = Some s" for v s
  proof (cases "v = u")
    case True
    then show ?thesis using that tm new unfolding armed_for_def F by auto
  next
    case False
    then have s: "map_of (c_resolutions c) v = Some s" using that unfolding F by simp
    have "armed_for ?c v s"
    proof (cases "timer_of s")
      case None
      then show ?thesis using armed_for_none [OF T(7) [OF s]] False unfolding armed_for_def F by simp
    next
      case (Some p)
      obtain a w q where p: "p = (a, w, q)" by (cases p)
      show ?thesis using armed_for_timer [OF T(7) [OF s] Some [unfolded p]] new(1) False
        unfolding armed_for_def F by (auto simp: Some p)
    qed
    then show ?thesis using T(6) [OF s] by simp
  qed
  have own: "owed ?c t q" if "map_of (c_armed ?c) t = Some q" for t q
  proof (cases "t = c_attempts c")
    case True
    then show ?thesis using that tm(1) unfolding owed_def F by auto
  next
    case False
    then have "owed c t q" using that T(8) unfolding F by simp
    then show ?thesis using u(2) unfolding owed_def F by (metis fun_upd_apply map_of_update option.distinct(1))
  qed
  have timers: "distinct (map snd (c_timers ?c))"
    unfolding F using T(4) new(3) T(3) by (intro distinct_snd_update)
  have bounds: "c_timed_out ?c \<subseteq> {..<c_attempts ?c}" "snd ` set (c_timers ?c) \<subseteq> {..<c_attempts ?c}"
    "fst ` set (c_armed ?c) \<subseteq> {..<c_attempts ?c}"
    unfolding F using T(9-11) set_update_subset by (fastforce)+
  have ids: "fst ` set (c_resolutions ?c) \<subseteq> v4 ` {..<c_uuids ?c}" "fst ` set (c_timers ?c) \<subseteq> v4 ` {..<c_uuids ?c}"
    "c_giveups ?c \<inter> fst ` set (c_resolutions ?c) = {}" "c_giveups ?c \<subseteq> v4 ` {..<c_uuids ?c}"
    unfolding F using T(12-15) u(1,3) by (auto simp: dom_update)
  have "tables_ok v4 ?c"
    unfolding tables_ok_def using T(1-3,5) entry own timers bounds ids by (simp add: F)
  moreover have out: "answered_in (c_out ?c) = answered_in (c_out c)" "asked_in (c_out ?c) = asked_in (c_out c)"
    "c_calls ?c = c_calls c"
    by (simp_all add: set_resolution_def start_timer_def)
  have "waiting_in (c_resolutions ?c) + answered_in (c_out c) + D =
      waiting_in (c_resolutions c) + answered_in (c_out c) + (D + cb_mset (lock_cb r))"
    unfolding F(1) waiting_in_update [OF u(2)] by simp
  then have "account_ok D ?c"
    using client_okD(2) [OF ok] unfolding account_ok_def out by simp
  ultimately show ?thesis by (simp add: client_ok_def)
qed

text \<open>A resolution without a timer, under a new uuid.\<close>

lemma note_resolution_ok:
  assumes ok: "client_ok v4 D c" and tm: "timer_of r = None" "own_id u r" "lock_cb r = None"
    and u: "u \<in> v4 ` {..<c_uuids c}" "map_of (c_resolutions c) u = None" "u \<notin> c_giveups c"
      "map_of (c_timers c) u = None"
  shows "client_ok v4 D (set_resolution u r c)"
proof -
  note T = tables_okD [OF client_okD(1) [OF ok]]
  have F: "c_resolutions (set_resolution u r c) = AList.update u r (c_resolutions c)"
    by (simp add: set_resolution_def)
  have G: "armed_for (set_resolution u r c) = armed_for c"
    by (simp add: armed_for_def fun_eq_iff set_resolution_def split: option.splits)
  have own: "owed (set_resolution u r c) t q" if "owed c t q" for t q
    using that u(2) unfolding owed_def F by (metis fun_upd_apply map_of_update option.distinct(1))
  have entry: "own_id v s \<and> armed_for c v s" if "map_of (AList.update u r (c_resolutions c)) v = Some s" for v s
    using that tm u(4) T(6,7) by (auto simp: armed_for_def split: if_splits)
  have ids: "fst ` set (AList.update u r (c_resolutions c)) \<subseteq> v4 ` {..<c_uuids c}"
    "c_giveups c \<inter> fst ` set (AList.update u r (c_resolutions c)) = {}"
    using T(12,14) u(1,3) by (auto simp: dom_update)
  have "tables_ok v4 (set_resolution u r c)"
    unfolding tables_ok_def F G using T entry own ids by (simp add: set_resolution_def)
  then show ?thesis
    using ok u(2) tm(3) by (simp add: client_ok_def account_ok_def F waiting_in_update)
      (simp add: set_resolution_def)
qed

lemma fresh_ok:
  assumes "client_ok v4 D c" and "good_v4 v4"
  defines "u \<equiv> v4 (c_uuids c)" and "c' \<equiv> c\<lparr>c_uuids := Suc (c_uuids c)\<rparr>"
  shows "client_ok v4 D c'" "u \<in> v4 ` {..<c_uuids c'}" "map_of (c_resolutions c') u = None"
    "u \<notin> c_giveups c'" "map_of (c_timers c') u = None" "u \<noteq> []"
proof -
  note T = tables_okD [OF client_okD(1) [OF assms(1)]]
  have u: "u \<notin> v4 ` {..<c_uuids c}"
    using assms(2) by (auto simp: u_def good_v4_def inj_def)
  then show "map_of (c_resolutions c') u = None" "u \<notin> c_giveups c'" "map_of (c_timers c') u = None"
    using T(12,13,15) by (auto simp: c'_def map_of_eq_None_iff)
  show "u \<in> v4 ` {..<c_uuids c'}" by (simp add: u_def c'_def)
  show "u \<noteq> []" using assms(2) by (simp add: good_v4_def u_def)
  have "v4 ` {..<c_uuids c} \<subseteq> v4 ` {..<Suc (c_uuids c)}" by auto
  with T(12,13,15) have "fst ` set (c_resolutions c) \<subseteq> v4 ` {..<Suc (c_uuids c)}"
    "fst ` set (c_timers c) \<subseteq> v4 ` {..<Suc (c_uuids c)}" "c_giveups c \<subseteq> v4 ` {..<Suc (c_uuids c)}" by auto
  moreover have "armed_for c' = armed_for c" "owed c' = owed c"
    by (simp_all add: armed_for_def owed_def fun_eq_iff c'_def split: option.splits)
  ultimately have "tables_ok v4 c'"
    using T unfolding tables_ok_def by (simp add: c'_def)
  then show "client_ok v4 D c'" using assms(1) by (simp add: client_ok_def account_ok_def c'_def)
qed

end
