(* ===== verification/ClientSteps.thy ===== *)
theory ClientSteps
  imports ClientInv
begin

text \<open>
  Every operation of the client keeps the bookkeeping invariant, and so does every event. Users'
  calls are assumed not to reuse the uuid of another request.
\<close>

subsection \<open>Attempts\<close>

lemma attempt_ok:
  assumes ok: "client_ok v4 {#cb#} c" and v: "good_v4 v4" and j: "j_uuid j = Some u"
    and u: "u \<in> v4 ` {..<c_uuids c}" "map_of (c_resolutions c) u = None" "u \<notin> c_giveups c"
  shows "client_ok v4 {#} (attempt key u j cb c)"
proof (cases "lock_gate c key u j")
  case None
  let ?r = "LockResolution (c_attempts c) u key j cb"
  have "client_ok v4 {#} ((set_resolution u ?r
      (start_timer u (LockTimer (c_attempts c) u key j cb) (lock_timeout c j) c))\<lparr>c_attempts := Suc (c_attempts c)\<rparr>)"
    by (rule register_ok) (use ok j u in simp_all)
  then show ?thesis using None by (simp add: attempt_def Let_def write_frame_ok)
next
  case (Some err)
  then have "le_id err = None \<or> le_id err = Some u"
    by (auto simp: lock_gate_def split: if_splits)
  then have "{#cb#} + in_hand c (le_id err) = {#cb#}" using u(2) by (auto simp: owed_cb_def)
  from fireLock_ok [OF ok v this] Some show ?thesis by (simp add: attempt_def)
qed

lemma lockInternal_new:
  assumes "client_ok v4 {#cb#} c" and v: "good_v4 v4" and "\<not> truthy_str (j_uuid j)"
  shows "client_ok v4 {#} (lockInternal v4 key j cb c)"
  using attempt_ok [OF fresh_ok(1) [OF assms(1,2)] v _ fresh_ok(2-4) [OF assms(1,2)]] assms(3)
  by (simp add: lockInternal_def fresh_uuid_of_def)

lemma lockInternal_again:
  assumes "client_ok v4 {#cb#} c" and "good_v4 v4" and j: "j_uuid j = Some u"
    and u: "u \<in> v4 ` {..<c_uuids c}" "map_of (c_resolutions c) u = None" "u \<notin> c_giveups c"
  shows "client_ok v4 {#} (lockInternal v4 key j cb c)"
proof -
  have "u \<noteq> []" using u(1) assms(2) by (auto simp: good_v4_def)
  then show ?thesis using attempt_ok [OF assms] j by (simp add: lockInternal_def)
qed

lemma asked_ok:
  assumes ok: "client_ok v4 {#} c" and n: "n < c_calls c" "n \<notin># asked_in (c_out c)"
  shows "client_ok v4 {#n#} (log_event (Asked n) c)"
  using assms by (auto simp: client_ok_def account_ok_def not_in_iff)

lemma client_lock_ok:
  assumes ok: "client_ok v4 {#} c" and v: "good_v4 v4" and own: "\<not> truthy_str (o_uuid (opts_of a))"
    and n: "\<And>f o'. parseLockOpts a cb = Inr (o', f) \<Longrightarrow> f < c_calls c \<and> f \<notin># asked_in (c_out c)"
  shows "client_ok v4 {#} (client_lock v4 key a cb c)"
proof (cases "parseLockOpts a cb")
  case (Inl e)
  then show ?thesis using ok by (simp add: client_lock_def log_other)
next
  case (Inr p)
  obtain o' f where p: "p = (o', f)" by (cases p)
  have asked: "client_ok v4 {#f#} (log_event (Asked f) c)" using asked_ok [OF ok] n Inr p by blast
  have o': "o' = opts_of a" using Inr p by (auto simp: parseLockOpts_def split: option.splits)
  show ?thesis
  proof (cases "check_lock_opts (c_lockRetryMax c) o'")
    case (Inl e)
    have "client_ok v4 {#} (log_event (Called f True (UsageError e)) (log_event (Asked f) c))"
      by (rule answer_ok) (use asked in simp_all)
    then show ?thesis using \<open>parseLockOpts a cb = Inr p\<close> p Inl by (simp add: client_lock_def)
  next
    case (Inr j)
    then have "j_uuid j = o_uuid o'"
      by (auto simp: check_lock_opts_def split: if_splits sum.splits)
    with lockInternal_new [OF asked v] own o' show ?thesis
      using \<open>parseLockOpts a cb = Inr p\<close> p Inr by (simp add: client_lock_def)
  qed
qed

lemma client_unlock_ok:
  assumes ok: "client_ok v4 {#} c" and v: "good_v4 v4"
    and n: "\<And>f o'. parseUnlockOpts a cb = (o', Some f) \<Longrightarrow> f < c_calls c \<and> f \<notin># asked_in (c_out c)"
  shows "client_ok v4 {#} (client_unlock v4 key a cb c)"
proof -
  obtain o0 cb' where p: "parseUnlockOpts a cb = (o0, cb')" by (rule prod.exhaust)
  have asked: "client_ok v4 (cb_mset cb') (ask_unlock cb' c)"
    using asked_ok [OF ok] n p ok by (cases cb') (simp_all add: ask_unlock_def)
  show ?thesis
  proof (cases "check_unlock_opts (take_id o0)")
    case (Some e)
    have "client_ok v4 {#} (call_unlock cb' True (UsageError e) (ask_unlock cb' c))"
      by (rule call_unlock_ok) (use asked in simp_all)
    then show ?thesis using p Some by (simp add: client_unlock_def Let_def)
  next
    case None
    define c1 where "c1 = (ask_unlock cb' c)\<lparr>c_uuids := Suc (c_uuids (ask_unlock cb' c))\<rparr>"
    define u where "u = v4 (c_uuids (ask_unlock cb' c))"
    note F = fresh_ok [OF asked v, folded c1_def u_def]
    let ?r = "UnlockResolution (c_attempts c1) u key cb'"
    have "client_ok v4 {#} ((set_resolution u ?r (start_timer u (UnlockTimer (c_attempts c1) u key cb')
        (unlock_timeout (ask_unlock cb' c) (take_id o0)) c1))\<lparr>c_attempts := Suc (c_attempts c1)\<rparr>)"
      by (rule register_ok) (use F in simp_all)
    then show ?thesis
      using p None by (simp add: client_unlock_def Let_def fresh_uuid_of_def write_frame_ok c1_def u_def)
  qed
qed

subsection \<open>Timers\<close>

lemma lock_timed_out_ok:
  assumes ok: "client_ok v4 {#} c" and v: "good_v4 v4"
    and t: "map_of (c_armed c) a = Some (LockTimer a' u key j cb)"
  shows "client_ok v4 {#} (lock_timed_out v4 a' u key j cb (c\<lparr>c_armed := AList.delete a (c_armed c)\<rparr>))"
proof -
  note T = client_okD(1) [OF ok]
  from armed_timer [OF T t] obtain w r where r: "map_of (c_resolutions c) w = Some r"
    "timer_of r = Some (a, w, LockTimer a' u key j cb)" "map_of (c_timers c) w = Some a" .
  then have r': "r = LockResolution a u key j cb" "a' = a" "w = u" by (cases r; simp)+
  have ju: "j_uuid j = Some u" using tables_okD(6) [OF T r(1)] r' by simp
  let ?c = "c\<lparr>c_armed := AList.delete a (c_armed c)\<rparr>"
  define c1 where "c1 = del_resolution u (del_timer u (?c\<lparr>c_timed_out := insert a (c_timed_out ?c)\<rparr>))"
  have "forgets u c c1"
    using r r' client_okD(4) [OF ok]
    by (auto simp: forgets_def c1_def del_resolution_def del_timer_def)
  from forgets_ok [OF ok this] have ok1: "client_ok v4 {#cb#} c1" using r(1) r' by (simp add: owed_cb_def)
  have u: "u \<in> v4 ` {..<c_uuids c1}" "map_of (c_resolutions c1) u = None" "u \<notin> c_giveups c1"
    using tables_okD(12,14) [OF T] r(1) r'
    by (force simp: c1_def del_resolution_def del_timer_def dest: map_of_SomeD)+
  have tm: "map_of (c_timers c1) u = None" by (simp add: c1_def del_resolution_def del_timer_def)
  have give_up: "client_ok v4 {#} (fireLockCallbackWithError cb False \<lparr>le_key = key, le_id = Some u, le_code = code\<rparr>
      (write_frame q (c1\<lparr>c_timeouts := insert u (c_timeouts c1)\<rparr>)))" for code q
  proof -
    let ?d = "write_frame q (c1\<lparr>c_timeouts := insert u (c_timeouts c1)\<rparr>)"
    have "client_ok v4 {#cb#} (cleanUp (Some u) ?d)"
      by (rule client_ok_cong [OF ok1])
        (use client_okD(4) [OF ok1] u(2) tm in \<open>simp_all add: cleanUp_def Let_def clear_timer_def
           del_timer_def del_timeout_def del_resolution_def length_delete_absent\<close>)
    then have "client_ok v4 ({#} + {#cb#}) (log_event (CWarn CallbackError) (cleanUp (Some u) ?d))"
      by (intro log_other) simp_all
    then show ?thesis
      unfolding fireLockCallbackWithError_def lock_exception.select_convs by (rule answer_ok) simp
  qed
  have retry: "client_ok v4 {#} (lockInternal v4 key (j\<lparr>j_retryCount := m\<rparr>) cb (log_event (CWarn w) c1))" for m w
    by (rule lockInternal_again [where u = u]) (use v ju u ok1 in \<open>simp_all add: log_other\<close>)
  show ?thesis
    unfolding lock_timed_out_def Let_def r'(2) c1_def [symmetric] using give_up retry by simp
qed

lemma unlock_timed_out_ok:
  assumes ok: "client_ok v4 {#} c" and t: "map_of (c_armed c) a = Some (UnlockTimer a' u key cb)"
  shows "client_ok v4 {#} (unlock_timed_out a' u key cb (c\<lparr>c_armed := AList.delete a (c_armed c)\<rparr>))"
proof -
  note T = client_okD(1) [OF ok]
  from armed_timer [OF T t] obtain w r where r: "map_of (c_resolutions c) w = Some r"
    "timer_of r = Some (a, w, UnlockTimer a' u key cb)" "map_of (c_timers c) w = Some a" .
  then have r': "r = UnlockResolution a u key cb" "a' = a" "w = u" by (cases r; simp)+
  let ?d = "c\<lparr>c_armed := AList.delete a (c_armed c), c_timed_out := insert a (c_timed_out c),
      c_timeouts := insert u (c_timeouts c)\<rparr>"
  have "forgets u c (cleanUp (Some u) ?d)"
    using r r' client_okD(4) [OF ok]
    by (auto simp: forgets_def cleanUp_def Let_def clear_timer_def del_timer_def del_timeout_def del_resolution_def
        length_delete_absent)
  from forgets_ok [OF ok this] have "client_ok v4 (cb_mset cb) (cleanUp (Some u) ?d)"
    using r(1) r' by (simp add: owed_cb_def)
  then have "client_ok v4 ({#} + cb_mset cb) (log_event (CWarn CallbackError) (cleanUp (Some u) ?d))"
    by (intro log_other) simp_all
  then show ?thesis
    unfolding unlock_timed_out_def fireUnlockCallbackWithError_def unlock_err_def r'(2)
    by (intro call_unlock_ok) simp_all
qed

lemma fire_timer_ok: "client_ok v4 {#} c \<Longrightarrow> good_v4 v4 \<Longrightarrow> client_ok v4 {#} (fire_timer v4 t c)"
  by (cases "map_of (c_armed c) t"; cases "the (map_of (c_armed c) t)")
    (auto simp: fire_timer_def lock_timed_out_ok unlock_timed_out_ok)

subsection \<open>Resolutions\<close>

lemma lock_resolved_ok:
  assumes ok: "client_ok v4 {#} c" and v: "good_v4 v4"
    and r: "map_of (c_resolutions c) u = Some (LockResolution a u key j cb)"
  shows "client_ok v4 {#} (lock_resolved v4 a u key j cb err d c)"
proof -
  note T = client_okD(1) [OF ok]
  have a: "a \<notin> c_timed_out c" using armed_for_timer [OF tables_okD(7) [OF T r]] by simp
  have ju: "j_uuid j = Some u" using tables_okD(6) [OF T r] by simp
  have held: "owed_cb c u = {#cb#}" using r by (simp add: owed_cb_def)
  have fail: "client_ok v4 {#} (fireLockCallbackWithError cb False (lock_err key u code) c)" for code
    by (rule fireLock_ok [OF ok v]) (simp add: lock_err_def held)
  have hand: "client_ok v4 {#cb#} (cleanUp (Some u) c)" using cleanUp_ok [OF ok, of u] held by simp
  have give_up: "client_ok v4 {#} (fireLockCallbackWithError cb False (lock_err key u code)
      (c\<lparr>c_giveups := insert u (c_giveups c)\<rparr>))" for code
  proof -
    let ?d = "c\<lparr>c_giveups := insert u (c_giveups c)\<rparr>"
    have "forgets u c (cleanUp (Some u) ?d)"
      using client_okD(4) [OF ok] r
      by (auto simp: forgets_def cleanUp_def Let_def clear_timer_def del_timer_def del_timeout_def del_resolution_def
          split: option.splits dest: map_of_SomeD intro!: image_eqI [of _ fst "(u, r)" for r])
    from forgets_ok [OF ok this] have "client_ok v4 ({#} + {#cb#}) (log_event (CWarn CallbackError) (cleanUp (Some u) ?d))"
      by (intro log_other) (simp_all add: held)
    then show ?thesis unfolding fireLockCallbackWithError_def lock_err_def lock_exception.select_convs
      by (rule answer_ok) simp
  qed
  have again: "client_ok v4 {#} (lockInternal v4 key j cb (cleanUp (Some u) c))"
    by (rule lockInternal_again [OF hand v ju])
      (use r tables_okD(12,14) [OF T] in \<open>force dest: map_of_SomeD\<close>)+
  have granted: "client_ok v4 {#} (log_event (Called cb False (Locked x)) (write_frame q (cleanUp (Some u) c)))" for x q
    by (rule answer_ok) (use hand in \<open>simp_all add: write_frame_ok\<close>)
  show ?thesis
    unfolding lock_resolved_def Let_def using ok a fail give_up again granted by (simp split: option.split)
qed

lemma unlock_resolved_ok:
  assumes ok: "client_ok v4 {#} c" and r: "map_of (c_resolutions c) u = Some (UnlockResolution a u key cb)"
  shows "client_ok v4 {#} (unlock_resolved a u key cb err d c)"
proof -
  note T = client_okD(1) [OF ok]
  have a: "a \<notin> c_timed_out c" using armed_for_timer [OF tables_okD(7) [OF T r]] by simp
  let ?c = "clear_timer u (del_timeout u c)"
  have "forgets u c (cleanUp (Some u) ?c)"
    using client_okD(4) [OF ok]
    by (auto simp: forgets_def cleanUp_def Let_def clear_timer_def del_timer_def del_timeout_def del_resolution_def
        delete_idem split: option.splits)
  from forgets_ok [OF ok this] have hand: "client_ok v4 (cb_mset cb) (cleanUp (Some u) ?c)"
    using r by (simp add: owed_cb_def)
  have fail: "client_ok v4 {#} (fireUnlockCallbackWithError cb False (unlock_err key u code) ?c)" for code
    unfolding fireUnlockCallbackWithError_def unlock_err_def unlock_exception.select_convs
    by (intro call_unlock_ok log_other) (use hand in simp_all)
  have done_ok: "client_ok v4 {#} (call_unlock cb False (Unlocked u key) (cleanUp (Some u) ?c))"
    by (rule call_unlock_ok) (use hand in simp_all)
  have "a \<notin> c_timed_out ?c" using a by (simp add: clear_timer_def del_timeout_def split: option.splits)
  then show ?thesis
    unfolding unlock_resolved_def Let_def using fail done_ok by (simp split: option.split)
qed

lemma clear_timer_none [simp]: "map_of (c_timers c) u = None \<Longrightarrow> clear_timer u c = c"
  by (simp add: clear_timer_def)

lemma del_timeout_none [simp]: "c_timeouts c = {} \<Longrightarrow> del_timeout u c = c"
  by (simp add: del_timeout_def)

text \<open>A resolution that is no lock or unlock keeps no callback of the account.\<close>

lemma forget_note_ok:
  assumes ok: "client_ok v4 {#} c" and r: "map_of (c_resolutions c) u = Some r" "timer_of r = None" "lock_cb r = None"
  shows "client_ok v4 {#} (del_resolution u c)"
proof -
  have "map_of (c_timers c) u = None"
    using armed_for_none [OF tables_okD(7) [OF client_okD(1) [OF ok] r(1)] r(2)] .
  then have "forgets u c (del_resolution u c)"
    using client_okD(4) [OF ok] by (auto simp: forgets_def del_resolution_def)
  from forgets_ok [OF ok this] r show ?thesis by (simp add: owed_cb_def)
qed

lemma info_resolved_ok:
  assumes ok: "client_ok v4 {#} c" and v: "good_v4 v4"
    and r: "map_of (c_resolutions c) u = Some (LockInfoResolution u key cb)"
  shows "client_ok v4 {#} (info_resolved u key cb err d c)"
proof -
  have "map_of (c_timers c) u = None"
    using armed_for_none [OF tables_okD(7) [OF client_okD(1) [OF ok] r]] by simp
  then have c: "del_timeout u (clear_timer u c) = c" using client_okD(4) [OF ok] by simp
  have warn: "client_ok v4 {#} (if x then log_event (CWarn BrokerWarning) c else c)" for x
    using ok by (simp add: log_other)
  have del: "client_ok v4 {#} (del_resolution u (if x then log_event (CWarn BrokerWarning) c else c))" for x
    by (rule forget_note_ok [OF warn, where r = "LockInfoResolution u key cb"]) (use r in simp_all)
  have dels: "client_ok v4 {#} (del_resolution u c)" by (rule forget_note_ok [OF ok r]) simp_all
  show ?thesis
    unfolding info_resolved_def Let_def c
    using ok dels del [of True] del [of False] cleanUp_null_ok [OF ok v] by (simp add: log_other split: option.split)
qed

lemma reply_resolved_ok:
  assumes ok: "client_ok v4 {#} c" and r: "map_of (c_resolutions c) u = Some r" "timer_of r = None" "lock_cb r = None"
    and s: "\<not> is_answer x" "\<not> is_answer y"
  shows "client_ok v4 {#} (reply_resolved u t x y cb err d c)"
  using forget_note_ok [OF ok r] s by (simp add: reply_resolved_def Let_def log_other split: option.split)

lemma probe_resolved_ok:
  assumes ok: "client_ok v4 {#} c" and r: "map_of (c_resolutions c) u = Some (ProbeResolution u p cb)"
  shows "client_ok v4 {#} (probe_resolved u p cb err d c)"
  using forget_note_ok [OF ok r] ok by (simp add: probe_resolved_def log_other)

lemma run_resolution_ok:
  assumes ok: "client_ok v4 {#} c" and v: "good_v4 v4" and r: "map_of (c_resolutions c) u = Some r"
  shows "client_ok v4 {#} (run_resolution v4 r err d c)"
proof -
  have "own_id u r" by (rule tables_okD(6) [OF client_okD(1) [OF ok] r])
  then show ?thesis using r ok v
    by (cases r) (auto simp: lock_resolved_ok unlock_resolved_ok info_resolved_ok probe_resolved_ok log_other intro: reply_resolved_ok)
qed

subsection \<open>Frames\<close>

lemma deliver_ok:
  assumes ok: "client_ok v4 {#} c" and v: "good_v4 v4"
  shows "client_ok v4 {#} (deliver v4 u f c)"
proof -
  have t: "c_timeouts c = {}" by (rule client_okD(4) [OF ok])
  let ?d = "del_resolution u ((clear_timer u c)\<lparr>c_giveups := c_giveups c - {u}\<rparr>)"
  have given_up: "client_ok v4 {#} ?d" if "u \<in> c_giveups c"
  proof -
    have "map_of (c_resolutions c) u = None"
      using that tables_okD(14) [OF client_okD(1) [OF ok]] by (auto simp: map_of_eq_None_iff)
    moreover have "forgets u c ?d"
      using t by (auto simp: forgets_def del_resolution_def clear_timer_def split: option.splits)
    ultimately show ?thesis using forgets_ok [OF ok, of u ?d] by (simp add: owed_cb_def)
  qed
  have silent: "client_ok v4 {#} (reject_frame x f (log_event e1 (log_event e2 c)))" if
    "answer_of e1 = {#}" "asked_of e1 = {#}" "answer_of e2 = {#}" "asked_of e2 = {#}" for x e1 e2
    unfolding reject_frame_def by (intro write_frame_ok log_other ok that)
  show ?thesis
    unfolding deliver_def Let_def del_timeout_none [OF t]
    using given_up ok t silent run_resolution_ok [OF ok v]
    by (simp add: log_other split: option.split)
qed

subsection \<open>Ending everything at once\<close>

text \<open>While the callbacks are fired prematurely no timer is armed; what is left is \<open>m\<close>.\<close>

definition draining :: "(nat \<Rightarrow> string) \<Rightarrow> (string, resolution) jsmap \<Rightarrow> client \<Rightarrow> bool" where
  "draining v4 m c \<longleftrightarrow>
     c_resolutions c = m \<and> c_armed c = [] \<and> c_timers c = [] \<and> c_timeouts c = {} \<and> jsmap_wf m \<and>
     (\<forall>(u, r) \<in> set m. own_id u r \<and> (\<forall>a u' tm. timer_of r = Some (a, u', tm) \<longrightarrow> a \<notin> c_timed_out c)) \<and>
     c_timed_out c \<subseteq> {..<c_attempts c} \<and> fst ` set m \<subseteq> v4 ` {..<c_uuids c} \<and>
     c_giveups c \<inter> fst ` set m = {} \<and> c_giveups c \<subseteq> v4 ` {..<c_uuids c} \<and> account_ok {#} c"

lemma draining_start:
  assumes ok: "client_ok v4 {#} c"
  shows "draining v4 (c_resolutions c)
    (c\<lparr>c_armed := filter (\<lambda>(t, tm). t \<notin> snd ` set (c_timers c)) (c_armed c), c_timers := []\<rparr>)"
proof -
  note T = tables_okD [OF client_okD(1) [OF ok]]
  have "filter (\<lambda>(t, tm). t \<notin> snd ` set (c_timers c)) (c_armed c) = []"
  proof -
    have "t \<in> snd ` set (c_timers c)" if "(t, tm) \<in> set (c_armed c)" for t tm
    proof -
      have "map_of (c_armed c) t = Some tm" using that T(2) by simp
      then obtain u where "map_of (c_timers c) u = Some t" by (rule armed_timer [OF client_okD(1) [OF ok]])
      then show ?thesis by (force dest: map_of_SomeD)
    qed
    then show ?thesis by (auto simp: filter_empty_conv)
  qed
  moreover have "own_id u r \<and> (\<forall>a u' tm. timer_of r = Some (a, u', tm) \<longrightarrow> a \<notin> c_timed_out c)"
    if "(u, r) \<in> set (c_resolutions c)" for u r
  proof -
    have "map_of (c_resolutions c) u = Some r" using that T(1) by simp
    from T(6,7) [OF this] show ?thesis by (auto dest: armed_for_timer)
  qed
  ultimately show ?thesis
    using T(1,5,9,12,14,15) client_okD(2) [OF ok] by (auto simp: draining_def account_ok_def)
qed

lemma draining_step:
  assumes d: "draining v4 ((u, r) # m) c" and v: "good_v4 v4"
  shows "draining v4 m (fire_premature v4 (u, r) c)"
proof -
  have c: "c_resolutions c = (u, r) # m" "c_armed c = []" "c_timers c = []" "c_timeouts c = {}" "jsmap_wf ((u, r) # m)"
    "own_id u r" "\<And>a u' tm. timer_of r = Some (a, u', tm) \<Longrightarrow> a \<notin> c_timed_out c" "account_ok {#} c"
    using d by (auto simp: draining_def)
  have m: "AList.delete u m = m" using c(5) by (auto intro: length_delete_absent simp: map_of_eq_None_iff)
  define c1 where "c1 = del_resolution u c"
  have c1: "c_resolutions c1 = m" "c_armed c1 = []" "c_timers c1 = []" "c_timeouts c1 = {}"
    "c_timed_out c1 = c_timed_out c" "c_out c1 = c_out c" "c_giveups c1 = c_giveups c"
    using c m by (simp_all add: c1_def del_resolution_def)
  let ?e = "run_resolution v4 r True None c1"
  have acct: "account_ok (cb_mset (lock_cb r)) c1"
    using c(1,8) m by (simp add: account_ok_def c1_def del_resolution_def ac_simps)
  have e: "c_resolutions ?e = m \<and> c_armed ?e = [] \<and> c_timers ?e = [] \<and> c_timeouts ?e = {} \<and>
      c_timed_out ?e = c_timed_out c1 \<and> c_attempts ?e = c_attempts c1 \<and> c_uuids ?e = c_uuids c1 \<and>
      c_giveups ?e = c_giveups c1 \<and> account_ok {#} ?e"
  proof (cases r)
    case (LockResolution a u' key j cb)
    then have "a \<notin> c_timed_out c1" "u' = u" using c(6,7) c1(5) by simp_all
    then show ?thesis using c1 m acct LockResolution
      by (simp add: lock_resolved_def Let_def fireLockCallbackWithError_def lock_err_def cleanUp_def clear_timer_def
          del_timer_def del_timeout_def del_resolution_def account_ok_def)
  next
    case (UnlockResolution a u' key cb)
    then have "a \<notin> c_timed_out c1" "u' = u" using c(6,7) c1(5) by simp_all
    then show ?thesis using c1 m acct UnlockResolution
      by (cases cb) (simp_all add: unlock_resolved_def Let_def fireUnlockCallbackWithError_def unlock_err_def cleanUp_def
          clear_timer_def del_timer_def del_timeout_def del_resolution_def call_unlock_def account_ok_def)
  next
    case (LockInfoResolution u' key cb)
    then show ?thesis using c1 acct
      by (simp add: info_resolved_def Let_def cleanUp_def clear_timer_def del_timer_def del_timeout_def account_ok_def)
  next
    case (PingResolution u' cb)
    then have "u' = u" using c(6) by simp
    then show ?thesis using c1 m acct PingResolution
      by (simp add: reply_resolved_def Let_def del_resolution_def account_ok_def)
  next
    case (StatsResolution u' cb)
    then have "u' = u" using c(6) by simp
    then show ?thesis using c1 m acct StatsResolution
      by (simp add: reply_resolved_def Let_def del_resolution_def account_ok_def)
  next
    case (ProbeResolution u' p cb)
    then have "u' = u" using c(6) by simp
    then show ?thesis using c1 m acct ProbeResolution
      by (simp add: probe_resolved_def still_waiting_def del_resolution_def account_ok_def)
  qed (use c1 acct in \<open>simp add: account_ok_def\<close>)
  moreover have "fire_premature v4 (u, r) c = ?e" by (simp add: fire_premature_def c1_def)
  moreover have "c_attempts c1 = c_attempts c" "c_uuids c1 = c_uuids c"
    by (simp_all add: c1_def del_resolution_def)
  ultimately show ?thesis using d c1 unfolding draining_def by (auto simp: c1_def del_resolution_def)
qed

lemma draining_end:
  assumes "draining v4 [] c"
  shows "client_ok v4 {#} c \<and> c_resolutions c = []"
  using assms by (simp add: draining_def client_ok_def tables_ok_def)

lemma drain_all: "good_v4 v4 \<Longrightarrow> draining v4 m c \<Longrightarrow> draining v4 [] (fold (fire_premature v4) m c)"
  by (induction m arbitrary: c) (auto intro: draining_step)

lemma fire_premature_ok:
  assumes "client_ok v4 {#} c" and "good_v4 v4"
  shows "client_ok v4 {#} (fireCallbacksPrematurely v4 c) \<and> c_resolutions (fireCallbacksPrematurely v4 c) = []"
  unfolding fireCallbacksPrematurely_def stop_timers_def
  by (rule draining_end [OF drain_all [OF assms(2) draining_start [OF assms(1)]]])

lemma resolutions_kept [simp]:
  "c_resolutions (clear_timer u c) = c_resolutions c" "c_resolutions (del_timeout u c) = c_resolutions c"
  "c_resolutions (del_timer u c) = c_resolutions c" "c_resolutions (call_unlock cb b x c) = c_resolutions c"
  "c_resolutions (del_resolution u c) = AList.delete u (c_resolutions c)"
  "c_resolutions (cleanUp None c) = c_resolutions c"
  by (simp_all add: clear_timer_def del_timeout_def del_timer_def call_unlock_def del_resolution_def cleanUp_def
      Let_def split: option.split)

text \<open>With an error, a resolution whose uuid is forgotten already answers what is in hand.\<close>

lemma run_forgotten:
  assumes ok: "client_ok v4 (cb_mset (lock_cb r)) c" and v: "good_v4 v4" and own: "own_id u r"
    and a: "\<And>a u' tm. timer_of r = Some (a, u', tm) \<Longrightarrow> a \<notin> c_timed_out c"
    and u: "map_of (c_resolutions c) u = None" and t: "timer_of r = None \<Longrightarrow> map_of (c_timers c) u = None"
  shows "client_ok v4 {#} (run_resolution v4 r True None c) \<and>
    c_resolutions (run_resolution v4 r True None c) = c_resolutions c"
proof -
  have del: "AList.delete u (c_resolutions c) = c_resolutions c" by (rule length_delete_absent [OF u])
  have del_ok: "client_ok v4 D (del_resolution u c)" if "client_ok v4 D c" for D
    by (rule client_ok_cong [OF that]) (simp_all add: del_resolution_def del)
  have none: "owed_cb c u = {#}" using u by (simp add: owed_cb_def)
  show ?thesis
  proof (cases r)
    case (LockResolution n u' key j cb)
    then have r: "n \<notin> c_timed_out c" "u' = u" using a own by simp_all
    have "client_ok v4 {#} (fireLockCallbackWithError cb False (lock_err key u LockUnknownException) c)"
      by (rule fireLock_ok [OF ok v]) (simp add: LockResolution lock_err_def none)
    then show ?thesis using r del
      by (simp add: LockResolution lock_resolved_def Let_def fireLockCallbackWithError_def lock_err_def)
  next
    case (UnlockResolution n u' key cb)
    then have r: "n \<notin> c_timed_out c" "u' = u" using a own by simp_all
    let ?c = "clear_timer u c"
    have "forgets u c ?c" using client_okD(4) [OF ok] del
      by (auto simp: forgets_def clear_timer_def split: option.split)
    from forgets_ok [OF ok this] have "client_ok v4 (cb_mset cb) ?c" by (simp add: UnlockResolution none)
    then have "client_ok v4 {#} (fireUnlockCallbackWithError cb False (unlock_err key u UnlockInternalError) ?c)"
      by (rule fireUnlock_ok) (use u in \<open>simp add: unlock_err_def owed_cb_def\<close>)
    moreover have "n \<notin> c_timed_out ?c" using r by (simp add: clear_timer_def split: option.split)
    ultimately show ?thesis using r(2) del client_okD(4) [OF ok]
      by (simp add: UnlockResolution unlock_resolved_def Let_def fireUnlockCallbackWithError_def unlock_err_def)
  next
    case (LockInfoResolution u' key cb)
    then have "map_of (c_timers c) u = None" "u' = u" using t own by simp_all
    then show ?thesis using ok client_okD(4) [OF ok] cleanUp_null_ok [OF ok v]
      by (simp add: LockInfoResolution info_resolved_def Let_def log_other)
  next
    case (PingResolution u' cb)
    then have "u' = u" using own by simp
    then show ?thesis using del_ok ok del by (simp add: PingResolution reply_resolved_def Let_def log_other)
  next
    case (StatsResolution u' cb)
    then have "u' = u" using own by simp
    then show ?thesis using del_ok ok del by (simp add: StatsResolution reply_resolved_def Let_def log_other)
  next
    case (ProbeResolution u' p cb)
    then have "u' = u" using own by simp
    then show ?thesis using del_ok ok del by (simp add: ProbeResolution probe_resolved_def still_waiting_def log_other)
  qed (use ok in \<open>simp add: log_other\<close>)
qed

lemma recover_one_ok:
  assumes ok: "client_ok v4 {#} c" and v: "good_v4 v4" and c: "c_resolutions c = (u, r) # m"
  shows "client_ok v4 {#} (recover_one v4 (u, r) c) \<and> c_resolutions (recover_one v4 (u, r) c) = m"
proof -
  note T = client_okD(1) [OF ok]
  have r: "map_of (c_resolutions c) u = Some r" using c by simp
  have m: "AList.delete u m = m" "u \<notin> fst ` set m"
    using c client_okD(3) [OF ok] by (auto intro: length_delete_absent simp: map_of_eq_None_iff)
  let ?c = "del_resolution u (clear_timer u (c\<lparr>c_giveups := insert u (c_giveups c)\<rparr>))"
  have "forgets u c ?c"
    using client_okD(4) [OF ok] c by (auto simp: forgets_def clear_timer_def del_resolution_def split: option.split)
  from forgets_ok [OF ok this] have hand: "client_ok v4 (cb_mset (lock_cb r)) ?c" using r by (simp add: owed_cb_def)
  have fields: "c_timed_out ?c = c_timed_out c" "c_timers ?c = c_timers c"
    by (simp_all add: clear_timer_def del_resolution_def split: option.split)
  have res: "c_resolutions ?c = m" "map_of m u = None"
    using c m by (simp_all add: map_of_eq_None_iff)
  have armed: "armed_for c u r" by (rule tables_okD(7) [OF T r])
  have "client_ok v4 {#} (run_resolution v4 r True None ?c) \<and>
      c_resolutions (run_resolution v4 r True None ?c) = c_resolutions ?c"
    by (rule run_forgotten [OF hand v tables_okD(6) [OF T r]])
      (use armed_for_timer [OF armed] armed_for_none [OF armed] fields res in auto)
  then show ?thesis using res(1) by (simp add: recover_one_def Let_def)
qed

lemma recover_all:
  "good_v4 v4 \<Longrightarrow> client_ok v4 {#} c \<Longrightarrow> c_resolutions c = m \<Longrightarrow> client_ok v4 {#} (fold (recover_one v4) m c)"
proof (induction m arbitrary: c)
  case (Cons p m)
  obtain u r where p: "p = (u, r)" by (cases p)
  have "client_ok v4 {#} (recover_one v4 p c) \<and> c_resolutions (recover_one v4 p c) = m"
    unfolding p by (rule recover_one_ok) (use Cons.prems p in simp_all)
  then show ?case using Cons.IH [OF Cons.prems(1)] by simp
qed simp

lemma start_connection_ok: "client_ok v4 D c \<Longrightarrow> client_ok v4 D (start_connection c)"
  by (rule client_ok_cong [where c = c]) (simp_all add: start_connection_def)

lemma disable_socket_ok: "client_ok v4 D c \<Longrightarrow> client_ok v4 D (disable_socket c)"
  by (rule client_ok_cong [where c = c]) (simp_all add: disable_socket_def)

lemma recover_ok:
  assumes "client_ok v4 {#} c" and "good_v4 v4"
  shows "client_ok v4 {#} (recover v4 c)"
proof -
  have c: "client_ok v4 {#} (c\<lparr>c_recoverCalled := True\<rparr>)" "client_ok v4 {#} (begin_recovery (c\<lparr>c_recoverCalled := True\<rparr>))"
    by (rule client_ok_cong [OF assms(1)]; simp add: begin_recovery_def disable_socket_def)+
  have "client_ok v4 {#} (fold (recover_one v4) (c_resolutions c) (begin_recovery (c\<lparr>c_recoverCalled := True\<rparr>)))"
    by (rule recover_all [OF assms(2) c(2)]) (simp add: begin_recovery_def disable_socket_def)
  then show ?thesis using c(1) assms(1) by (simp add: recover_def end_recovery_def Let_def start_connection_ok)
qed

lemma close_ok:
  assumes "client_ok v4 {#} c" and v: "good_v4 v4"
  shows "client_ok v4 {#} (client_close v4 c)"
proof -
  have "client_ok v4 {#} (c\<lparr>c_noRecover := True\<rparr>)" by (rule client_ok_cong [OF assms(1)]) simp_all
  note F = fire_premature_ok [OF this v]
  define c1 where "c1 = fireCallbacksPrematurely v4 (c\<lparr>c_noRecover := True\<rparr>)"
  have c1: "client_ok v4 {#} c1" "c_resolutions c1 = []" using F by (simp_all add: c1_def)
  have "c_armed c1 = []"
  proof (cases "c_armed c1")
    case (Cons p ps)
    then have "map_of (c_armed c1) (fst p) = Some (snd p)" by (cases p) simp
    from tables_okD(8) [OF client_okD(1) [OF c1(1)] this] c1(2) show ?thesis by (simp add: owed_def)
  qed
  then have "client_ok v4 {#} (c1\<lparr>c_armed := filter (\<lambda>(t, tm). t \<notin> snd ` set (c_timers c1)) (c_armed c1),
      c_timers := [], c_timeouts := {}, c_resolutions := [], c_giveups := {}, c_errorListener := False\<rparr>)"
    using c1 by (simp add: client_ok_def tables_ok_def account_ok_def)
  then show ?thesis by (simp add: client_close_def forget_all_def stop_timers_def c1_def disable_socket_ok)
qed

lemma onData_ok:
  assumes ok: "client_ok v4 {#} c" and v: "good_v4 v4"
  shows "client_ok v4 {#} (client_onData v4 f c)"
proof -
  define c2 where "c2 = announce f c"
  have c2: "client_ok v4 {#} c2" using ok by (simp add: c2_def announce_def log_other)
  have "client_ok v4 {#} ((log_event CError c2)\<lparr>c_cannotContinue := True\<rparr>)"
    by (rule client_ok_cong [OF c2]) simp_all
  from fire_premature_ok [OF write_frame_ok [OF this] v] show ?thesis
    unfolding client_onData_def refuse_version_def Let_def c2_def [symmetric]
    using ok c2 deliver_ok [OF c2 v] by (simp add: log_other)
qed

subsection \<open>Events\<close>

text \<open>The discipline: no call names the uuid of its request.\<close>

fun own_uuids :: "client_step \<Rightarrow> bool" where
  "own_uuids (ApiLock key a has) = (\<not> truthy_str (o_uuid (opts_of a)))"
| "own_uuids (ApiAcquire key a) = (\<not> truthy_str (o_uuid (opts_of a)))"
| "own_uuids _ = True"

lemma new_call_ok:
  assumes "client_ok v4 {#} c"
  shows "client_ok v4 {#} (new_call c)" "c_calls c < c_calls (new_call c)"
    "c_calls c \<notin># asked_in (c_out (new_call c))"
proof -
  show "client_ok v4 {#} (new_call c)" by (rule client_ok_cong [OF assms]) (simp_all add: new_call_def)
  show "c_calls c < c_calls (new_call c)" by (simp add: new_call_def)
  show "c_calls c \<notin># asked_in (c_out (new_call c))"
    using client_okD(2) [OF assms] by (auto simp: account_ok_def new_call_def)
qed

lemma fold_write_ok: "client_ok v4 D c \<Longrightarrow> client_ok v4 D (fold write_frame rs c)"
  by (induction rs arbitrary: c) (simp_all add: write_frame_ok)

lemma connect_ok: "client_ok v4 D c \<Longrightarrow> client_ok v4 D (client_connect c)"
proof -
  assume ok: "client_ok v4 D c"
  let ?c = "write_frame (VersionReq (String (c_version c))) (c\<lparr>c_isOpen := True, c_socket := Usable\<rparr>)"
  have "client_ok v4 D (c\<lparr>c_isOpen := True, c_socket := Usable\<rparr>)" by (rule client_ok_cong [OF ok]) simp_all
  from write_frame_ok [OF this] have "client_ok v4 D (?c\<lparr>c_deferred := []\<rparr>)"
    by (rule client_ok_cong) simp_all
  then show ?thesis unfolding client_connect_def Let_def by (rule fold_write_ok)
qed

lemma note_ok:
  assumes ok: "client_ok v4 {#} c" and v: "good_v4 v4"
    and r: "\<And>u. own_id u (r u) \<and> timer_of (r u) = None \<and> lock_cb (r u) = None"
  shows "client_ok v4 {#} (case fresh_uuid_of v4 c of (u, c1) \<Rightarrow> write_frame (q u) (set_resolution u (r u) c1))"
  using note_resolution_ok [OF fresh_ok(1) [OF ok v] _ _ _ fresh_ok(2-5) [OF ok v], of "r (v4 (c_uuids c))"] r
  by (simp add: fresh_uuid_of_def write_frame_ok)

lemma client_handle_ok:
  assumes ok: "client_ok v4 {#} c" and v: "good_v4 v4" and own: "own_uuids e"
  shows "client_ok v4 {#} (client_handle v4 e c)"
proof -
  note N = new_call_ok [OF ok]
  have lock: "client_ok v4 {#} (client_lock v4 key (case a of ArgCallback f \<Rightarrow> ArgCallback (c_calls c) | _ \<Rightarrow> a)
      (if has then Some (c_calls c) else None) (new_call c))" if "\<not> truthy_str (o_uuid (opts_of a))" for key a has
    by (rule client_lock_ok [OF N(1) v])
      (use that N(2,3) in \<open>auto simp: parseLockOpts_def split: lock_arg.splits option.splits if_splits\<close>)
  have unlock: "client_ok v4 {#} (client_unlock v4 key (case a of UArgCallback f \<Rightarrow> UArgCallback (c_calls c) | _ \<Rightarrow> a)
      (if has then Some (c_calls c) else None) (new_call c))" for key a has
    by (rule client_unlock_ok [OF N(1) v])
      (use N(2,3) in \<open>auto simp: parseUnlockOpts_def split: unlock_arg.splits if_splits\<close>)
  have acquire: "client_ok v4 {#} (client_acquire v4 key a (c_calls c) (new_call c))"
    if "\<not> truthy_str (o_uuid (opts_of a))" for key a
    unfolding client_acquire_def
    by (rule client_lock_ok [OF N(1) v])
      (use that N(2,3) in \<open>auto simp: parseLockOpts_def preParseLockOptsForPromises_def\<close>)
  have release: "client_ok v4 {#} (client_release v4 key a (c_calls c) (new_call c))" for key a
    unfolding client_release_def
    by (rule client_unlock_ok [OF N(1) v]) (use N(2,3) in \<open>auto simp: parseUnlockOpts_def\<close>)
  have same: "client_ok v4 {#} (c\<lparr>c_noRecover := True\<rparr>)" "client_ok v4 {#} (c\<lparr>c_errorListener := True\<rparr>)"
    "client_ok v4 {#} (c\<lparr>c_noRecover := True, c_deferred := []\<rparr>)"
    by (rule client_ok_cong [OF ok]; simp)+
  have closed: "client_ok v4 {#} ((fireCallbacksPrematurely v4 c)\<lparr>c_isOpen := False\<rparr>)"
    by (rule client_ok_cong [OF conjunct1 [OF fire_premature_ok [OF ok v]]]) simp_all
  show ?thesis
    using own
    by (cases e)
      (use ok v N lock unlock acquire release same closed in \<open>simp_all add: fire_timer_ok onData_ok connect_ok
         recover_ok disable_socket_ok close_ok log_other connect_failed_def Let_def endCurrentConnection_def hang_up_def
         requestLockInfo_def client_ls_def client_ping_def client_getSystemStats_def client_probe_def note_ok
         note_ok [OF N(1) v, where r = "\<lambda>u. LsResolution (c_calls c)", simplified]
         note_ok [OF N(1) v, where r = "\<lambda>u. PingResolution u (c_calls c)", simplified]
         note_ok [OF N(1) v, where r = "\<lambda>u. StatsResolution u (c_calls c)", simplified]\<close>)
qed

end
