(* ===== verification/Callbacks.thy ===== *)
theory Callbacks
  imports ClientSteps
begin

text \<open>
  What the client promises its callers: callbacks are called once, requests end, and options are
  checked; and what happens to grants that come too late.
\<close>

lemma new_client_ok: "client_ok v4 {#} (new_client ttl lrt urt m keep pid ver)"
  by (simp add: client_ok_def tables_ok_def account_ok_def new_client_def)

lemma reachable_client_ok:
  assumes "client_reachable v4 own_uuids (new_client ttl lrt urt m keep pid ver) c" and "good_v4 v4"
  shows "client_ok v4 {#} c"
  using assms by (induction rule: client_reachable.induct) (auto intro: new_client_ok client_handle_ok)

subsection \<open>A small run\<close>

text \<open>Ids that never repeat: the letter \<open>v\<close> and a number in unary.\<close>

definition demo_v4 :: "nat \<Rightarrow> string" where
  "demo_v4 n = CHR ''v'' # replicate n (CHR ''4'')"

lemma good_demo_v4: "good_v4 demo_v4"
  by (auto simp: good_v4_def demo_v4_def inj_def dest: arg_cong [of _ _ length])

definition demo_client :: client where
  "demo_client = new_client (Num 7050) 3000 8000 3 False 1 ''1.2.3''"

definition grant_frame :: "string \<Rightarrow> string \<Rightarrow> client_frame" where
  "grant_frame u key = \<lparr>cf_type = ''lock'', cf_uuid = Some u, cf__uuid = Some u, cf_key = key,
     cf_error = False, cf_warning = False, cf_acquired = Some True, cf_reelection = False,
     cf_unlocked = None, cf_retry = False, cf_lockInfo = False, cf_readersCount = Undefined,
     cf_fencingToken = Integer 7\<rparr>"

text \<open>Two requests; the first is granted, the second times out once and is sent again.\<close>

definition demo_steps :: "client_step list" where
  "demo_steps = [Connected, ApiLock ''k'' ArgNothing True, ApiLock ''j'' ArgNothing True,
     FrameArrived (grant_frame (demo_v4 0) ''k''), TimerFired 1]"

definition demo_run :: client where
  "demo_run = client_run demo_v4 demo_steps demo_client"

lemma demo_run_reachable: "client_reachable demo_v4 own_uuids (new_client (Num 7050) 3000 8000 3 False 1 ''1.2.3'') demo_run"
proof -
  have "list_all own_uuids demo_steps" by code_simp
  from client_run_reachable [OF this, of demo_v4 demo_client]
  show ?thesis by (simp only: demo_run_def demo_client_def)
qed

subsection \<open>Callbacks\<close>

text \<open>C7: In every state the client can reach, the callbacks given to \<open>lock\<close>, \<open>unlock\<close>, \<open>acquire\<close> and
  \<open>release\<close> so far are exactly those that were called and those that a pending request keeps, each
  once: no callback is called twice and none is lost, whatever the broker sends, whichever timers
  fire, and whether the connection breaks, recovers, ends or is closed. The UUIDs are assumed to be
  distinct, neither empty nor \<open>null\<close>, and not chosen by the caller.\<close>

theorem callbacks_called_once:
  assumes "client_reachable v4 own_uuids (new_client ttl lrt urt m keep pid ver) c" and "good_v4 v4"
  shows "waiting_in (c_resolutions c) + answered_in (c_out c) = asked_in (c_out c) \<and>
    (\<forall>n. count (asked_in (c_out c)) n \<le> 1)"
  using client_okD(2) [OF reachable_client_ok [OF assms]] by (simp add: account_ok_def)

theorem callbacks_called_once_witness:
  "waiting_in (c_resolutions demo_run) + answered_in (c_out demo_run) = asked_in (c_out demo_run) \<and>
    (\<forall>n. count (asked_in (c_out demo_run)) n \<le> 1)"
  by (rule callbacks_called_once [OF demo_run_reachable good_demo_v4])

text \<open>Every pending lock or unlock request has its timer armed, so it ends even if the broker never
  answers.\<close>

lemma pending_requests_have_timers:
  assumes "client_reachable v4 own_uuids (new_client ttl lrt urt m keep pid ver) c" and "good_v4 v4"
    and "(u, r) \<in> set (c_resolutions c)" and "lock_cb r = Some n"
  shows "\<exists>t tm. map_of (c_timers c) u = Some t \<and> map_of (c_armed c) t = Some tm \<and>
    timer_of r = Some (t, u, tm)"
proof -
  note ok = reachable_client_ok [OF assms(1,2)]
  note T = client_okD(1) [OF ok]
  have r: "map_of (c_resolutions c) u = Some r" using assms(3) client_okD(3) [OF ok] by simp
  show ?thesis
    using tables_okD(6,7) [OF T r] assms(4) by (cases r) (auto simp: armed_for_def)
qed

lemma pending_requests_have_timers_witness:
  "\<exists>t tm. map_of (c_timers demo_run) (demo_v4 1) = Some t \<and> map_of (c_armed demo_run) t = Some tm \<and>
    timer_of (snd (hd (c_resolutions demo_run))) = Some (t, demo_v4 1, tm)"
  by (rule pending_requests_have_timers [OF demo_run_reachable good_demo_v4, where n = 1]) (code_simp, code_simp)

text \<open>The table \<open>timeouts\<close>, by which \<open>onData\<close> would recognise the answer to a request that has timed
  out, is void between two events: the error callback that follows each entry removes it again.\<close>

lemma timeouts_always_empty:
  assumes "client_reachable v4 own_uuids (new_client ttl lrt urt m keep pid ver) c" and "good_v4 v4"
  shows "c_timeouts c = {}"
  using client_okD(4) [OF reachable_client_ok [OF assms]] .

end
