(* ===== verification/ClientRules.thy ===== *)
theory ClientRules
  imports ClientRun
begin

text \<open>
  One proof for the properties of what the client keeps and writes. The locale \<open>client_property\<close>
  lists the ways a handler touches the state of a client: it forgets things, logs an event, writes
  a frame or puts it off, and registers a resolution or a timer. What survives these survives every
  event.
\<close>

definition same_config :: "client \<Rightarrow> client \<Rightarrow> bool" where
  "same_config c c' \<longleftrightarrow>
     c_ttl c' = c_ttl c \<and> c_lockRequestTimeout c' = c_lockRequestTimeout c \<and>
     c_unlockRequestTimeout c' = c_unlockRequestTimeout c \<and> c_lockRetryMax c' = c_lockRetryMax c \<and>
     c_keepLocksAfterDeath c' = c_keepLocksAfterDeath c \<and> c_pid c' = c_pid c"

text \<open>Nothing is added, nothing is written; flags, counters and the tables of booleans may change.\<close>

definition shrinks :: "client \<Rightarrow> client \<Rightarrow> bool" where
  "shrinks c c' \<longleftrightarrow>
     same_config c c' \<and> c_out c' = c_out c \<and> set (c_resolutions c') \<subseteq> set (c_resolutions c) \<and>
     set (c_armed c') \<subseteq> set (c_armed c) \<and> set (c_deferred c') \<subseteq> set (c_deferred c)"

lemma shrinks_refl [simp]: "shrinks c c"
  by (simp add: shrinks_def same_config_def)

lemma shrinks_trans: "shrinks a b \<Longrightarrow> shrinks b c \<Longrightarrow> shrinks a c"
  by (auto simp: shrinks_def same_config_def)

named_theorems shrinking

lemma shrinks_fields [shrinking]:
  "shrinks c (c\<lparr>c_timed_out := S1\<rparr>)" "shrinks c (c\<lparr>c_timeouts := S2\<rparr>)" "shrinks c (c\<lparr>c_giveups := S3\<rparr>)"
  "shrinks c (c\<lparr>c_isOpen := b1\<rparr>)" "shrinks c (c\<lparr>c_recovering := b2\<rparr>)" "shrinks c (c\<lparr>c_socket := s\<rparr>)"
  "shrinks c (c\<lparr>c_cannotContinue := b3\<rparr>)" "shrinks c (c\<lparr>c_noRecover := b4\<rparr>)"
  "shrinks c (c\<lparr>c_recoverCalled := b5\<rparr>)" "shrinks c (c\<lparr>c_errorListener := b6\<rparr>)"
  "shrinks c (c\<lparr>c_attempts := n1\<rparr>)" "shrinks c (c\<lparr>c_uuids := n2\<rparr>)" "shrinks c (c\<lparr>c_calls := n3\<rparr>)"
  "shrinks c (c\<lparr>c_timers := ts\<rparr>)" "shrinks c (c\<lparr>c_deferred := []\<rparr>)" "shrinks c (c\<lparr>c_resolutions := []\<rparr>)"
  by (simp_all add: shrinks_def same_config_def)

lemma shrinks_deletes [shrinking]:
  "shrinks c (c\<lparr>c_armed := AList.delete t (c_armed c)\<rparr>)"
  "shrinks c (c\<lparr>c_armed := filter Q (c_armed c)\<rparr>)"
  "shrinks c (del_resolution u c)" "shrinks c (del_timer u c)" "shrinks c (del_timeout u c)"
  by (auto simp: shrinks_def same_config_def del_resolution_def del_timer_def del_timeout_def AList.delete_eq)

lemma shrinks_clear_timer [shrinking]: "shrinks c (clear_timer u c)"
  by (simp add: clear_timer_def shrinking split: option.split)

lemma shrinks_cleanUp [shrinking]: "shrinks c (cleanUp uo c)"
proof -
  have "shrinks c (del_timeout u (del_timer u (clear_timer u c)))" for u
    by (rule shrinks_trans [OF shrinks_trans]) (rule shrinking)+
  then show ?thesis
    by (auto simp: cleanUp_def Let_def intro: shrinks_trans [OF _ shrinks_deletes(3)] split: option.split)
qed

lemma shrinks_disable [shrinking]: "shrinks c (disable_socket c)"
  by (simp add: disable_socket_def shrinking)

subsection \<open>The interface\<close>

fun resolution_job :: "(lock_job \<Rightarrow> bool) \<Rightarrow> resolution \<Rightarrow> bool" where
  "resolution_job Q (LockResolution a u key j cb) = Q j"
| "resolution_job Q _ = True"

fun timer_job :: "(lock_job \<Rightarrow> bool) \<Rightarrow> client_timer \<Rightarrow> bool" where
  "timer_job Q (LockTimer a u key j cb) = Q j"
| "timer_job Q _ = True"

locale client_property =
  fixes P :: "client \<Rightarrow> bool"
    and ok_job :: "lock_job \<Rightarrow> bool"
    and ok_frame :: "LMXRequest \<Rightarrow> bool"
    and ok_ms :: "int \<Rightarrow> bool"
  assumes shrink: "P c \<Longrightarrow> shrinks c c' \<Longrightarrow> P c'"
    and quiet: "P c \<Longrightarrow> (\<And>r. e \<noteq> Wrote r) \<Longrightarrow> (\<And>t ms. e \<noteq> TimerSet t ms) \<Longrightarrow> P (log_event e c)"
    and wrote: "P c \<Longrightarrow> ok_frame r \<Longrightarrow> P (log_event (Wrote (fill_frame c r)) c)"
    and put_off: "P c \<Longrightarrow> ok_frame r \<Longrightarrow> P (c\<lparr>c_deferred := c_deferred c @ [r]\<rparr>)"
    and deferred: "P c \<Longrightarrow> r \<in> set (c_deferred c) \<Longrightarrow> ok_frame r"
    and resolve: "P c \<Longrightarrow> resolution_job ok_job v \<Longrightarrow> P (set_resolution u v c)"
    and arm: "P c \<Longrightarrow> timer_job ok_job t \<Longrightarrow> ok_ms ms \<Longrightarrow> P (start_timer u t ms c)"
    and job_ms: "P c \<Longrightarrow> ok_job j \<Longrightarrow> ok_ms (lock_timeout c j)"
    and unlock_ms: "P c \<Longrightarrow> check_unlock_opts uopts = None \<Longrightarrow> ok_ms (unlock_timeout c uopts)"
    and resolved: "P c \<Longrightarrow> (u, v) \<in> set (c_resolutions c) \<Longrightarrow> resolution_job ok_job v"
    and armed: "P c \<Longrightarrow> (n, t) \<in> set (c_armed c) \<Longrightarrow> timer_job ok_job t"
    and job_retry: "ok_job j \<Longrightarrow> ok_job (j\<lparr>j_retryCount := i\<rparr>)"
    and job_uuid: "ok_job j \<Longrightarrow> ok_job (j\<lparr>j_uuid := uo\<rparr>)"
    and job_checked: "check_lock_opts d o' = Inr j \<Longrightarrow> ok_job j"
    and job_frame: "P c \<Longrightarrow> ok_job j \<Longrightarrow> ok_frame (LockReq (lock_frame c key u j))"
    and other_frame: "(\<And>r'. r \<noteq> LockReq r') \<Longrightarrow> ok_frame r"
begin

lemma P_log:
  "P c \<Longrightarrow> P (log_event (Called n b r) c)" "P c \<Longrightarrow> P (log_event (CWarn w) c)"
  "P c \<Longrightarrow> P (log_event CError c)" "P c \<Longrightarrow> P (log_event Thrown c)"
  "P c \<Longrightarrow> P (log_event Reconnect c)" "P c \<Longrightarrow> P (log_event (Asked n) c)"
  by (auto intro: quiet)

lemma P_start_connection: "P c \<Longrightarrow> P (start_connection c)"
  unfolding start_connection_def
  by (rule P_log, erule shrink) (simp add: shrinks_def same_config_def)

lemma P_write: "P c \<Longrightarrow> ok_frame r \<Longrightarrow> P (write_frame r c)"
  by (auto simp: write_frame_def intro: P_log P_start_connection wrote put_off split: socket_state.split)

lemma P_fresh: "P c \<Longrightarrow> P (snd (fresh_uuid_of v4 c))"
  unfolding fresh_uuid_of_def snd_conv by (erule shrink) (rule shrinking)

lemma P_shrink:
  "P c \<Longrightarrow> P (cleanUp uo c)" "P c \<Longrightarrow> P (del_resolution u c)" "P c \<Longrightarrow> P (del_timer u c)"
  "P c \<Longrightarrow> P (del_timeout u c)" "P c \<Longrightarrow> P (clear_timer u c)" "P c \<Longrightarrow> P (disable_socket c)"
  "P c \<Longrightarrow> P (c\<lparr>c_timed_out := S1\<rparr>)" "P c \<Longrightarrow> P (c\<lparr>c_timeouts := S2\<rparr>)" "P c \<Longrightarrow> P (c\<lparr>c_giveups := S3\<rparr>)"
  "P c \<Longrightarrow> P (c\<lparr>c_attempts := n1\<rparr>)" "P c \<Longrightarrow> P (c\<lparr>c_armed := AList.delete t (c_armed c)\<rparr>)"
  "P c \<Longrightarrow> P (c\<lparr>c_cannotContinue := b3\<rparr>)"
  by (erule shrink, rule shrinking)+

lemma P_fireLock: "P c \<Longrightarrow> P (fireLockCallbackWithError cb b err c)"
  unfolding fireLockCallbackWithError_def by (intro P_log P_shrink)

lemma P_call_unlock: "P c \<Longrightarrow> P (call_unlock cb b r c)"
  by (auto simp: call_unlock_def intro: P_log split: option.split)

lemma P_fireUnlock: "P c \<Longrightarrow> P (fireUnlockCallbackWithError cb b err c)"
  unfolding fireUnlockCallbackWithError_def by (intro P_call_unlock P_log P_shrink)

lemma P_attempt: "P c \<Longrightarrow> ok_job j \<Longrightarrow> P (attempt key u j cb c)"
  by (auto simp: attempt_def Let_def intro!: P_fireLock P_write P_shrink resolve arm job_frame job_ms split: option.split)

lemma P_lockInternal: "P c \<Longrightarrow> ok_job j \<Longrightarrow> P (lockInternal v4 key j cb c)"
  using P_fresh [of c v4]
  by (auto simp: lockInternal_def fresh_uuid_of_def Let_def intro!: P_attempt job_uuid)

lemma P_client_lock: "P c \<Longrightarrow> P (client_lock v4 key a cb c)"
  by (auto simp: client_lock_def intro!: P_log P_lockInternal dest: job_checked split: sum.split)

lemma P_lock_timed_out: "P c \<Longrightarrow> ok_job j \<Longrightarrow> P (lock_timed_out v4 a u key j cb c)"
  by (auto simp: lock_timed_out_def Let_def
      intro!: P_fireLock P_write P_lockInternal P_log P_shrink job_retry other_frame)

lemma P_lock_resolved: "P c \<Longrightarrow> ok_job j \<Longrightarrow> P (lock_resolved v4 a u key j cb err d c)"
  by (auto simp: lock_resolved_def Let_def
      intro!: P_fireLock P_write P_lockInternal P_log P_shrink other_frame split: option.split)

lemma P_client_unlock: "P c \<Longrightarrow> P (client_unlock v4 key ua cb c)"
proof -
  assume "P c"
  then have "P (ask_unlock cb' c)" for cb' by (auto simp: ask_unlock_def intro: P_log split: option.split)
  then show ?thesis
    using P_fresh
    by (auto simp: client_unlock_def Let_def split_def fresh_uuid_of_def
        intro!: P_call_unlock P_write P_shrink resolve arm other_frame unlock_ms [simplified] split: option.split)
qed

lemma P_unlock_timed_out: "P c \<Longrightarrow> P (unlock_timed_out a u key cb c)"
  unfolding unlock_timed_out_def
  by (rule P_fireUnlock, erule shrink) (simp add: shrinks_def same_config_def)

lemma P_unlock_resolved: "P c \<Longrightarrow> P (unlock_resolved a u key cb err d c)"
  by (auto simp: unlock_resolved_def Let_def intro!: P_fireUnlock P_call_unlock P_shrink split: option.split)

lemma P_info_resolved: "P c \<Longrightarrow> P (info_resolved u key cb err d c)"
  by (auto simp: info_resolved_def Let_def intro!: P_log P_shrink split: option.split)

lemma P_reply_resolved: "P c \<Longrightarrow> P (reply_resolved u t ok failed cb err d c)"
  by (auto simp: reply_resolved_def Let_def intro!: P_log P_shrink split: option.split)

lemma P_probe_resolved: "P c \<Longrightarrow> P (probe_resolved u p cb err d c)"
  by (auto simp: probe_resolved_def intro!: P_log P_shrink)

lemma P_run_resolution: "P c \<Longrightarrow> resolution_job ok_job r \<Longrightarrow> P (run_resolution v4 r err d c)"
  by (cases r) (auto intro: P_lock_resolved P_unlock_resolved P_info_resolved P_reply_resolved P_probe_resolved P_log)

lemma P_run_timer: "P c \<Longrightarrow> timer_job ok_job t \<Longrightarrow> P (run_timer v4 t c)"
  by (cases t) (auto intro: P_lock_timed_out P_unlock_timed_out)

lemma P_fire_timer: "P c \<Longrightarrow> P (fire_timer v4 t c)"
  by (auto simp: fire_timer_def intro!: P_run_timer P_shrink dest: map_of_SomeD armed split: option.split)

lemma P_fold: "P c \<Longrightarrow> (\<And>c x. P c \<Longrightarrow> x \<in> set xs \<Longrightarrow> P (f x c)) \<Longrightarrow> P (fold f xs c)"
  by (induction xs arbitrary: c) auto

lemma P_fireCallbacksPrematurely:
  assumes "P c"
  shows "P (fireCallbacksPrematurely v4 c)"
proof -
  have "P (stop_timers c)"
    unfolding stop_timers_def by (rule shrink [OF assms]) (auto simp: shrinks_def same_config_def)
  then show ?thesis
    unfolding fireCallbacksPrematurely_def
    by (rule P_fold) (use assms in \<open>auto simp: fire_premature_def intro!: P_run_resolution P_shrink dest: resolved\<close>)
qed

lemma P_recover:
  assumes "P c"
  shows "P (recover v4 c)"
proof -
  have "P (c\<lparr>c_recoverCalled := True\<rparr>)" "P (c\<lparr>c_recoverCalled := True, c_recovering := True\<rparr>)"
    using assms by (auto elim!: shrink simp: shrinks_def same_config_def)
  then show ?thesis
    unfolding recover_def end_recovery_def begin_recovery_def Let_def using assms
    by (auto intro!: P_start_connection P_fold P_run_resolution P_shrink
        simp: recover_one_def Let_def dest: resolved)
qed

lemma P_client_close:
  assumes "P c"
  shows "P (client_close v4 c)"
proof -
  have "P (c\<lparr>c_noRecover := True\<rparr>)" using assms by (rule shrink) (rule shrinking)
  from P_fireCallbacksPrematurely [OF this, of v4] show ?thesis
    unfolding client_close_def forget_all_def stop_timers_def
    by (intro P_shrink(6)) (erule shrink, auto simp: shrinks_def same_config_def)
qed

lemma P_endCurrentConnection: "P c \<Longrightarrow> P (endCurrentConnection v4 c)"
  unfolding endCurrentConnection_def hang_up_def
  by (rule P_shrink(6), rule shrink [OF P_fireCallbacksPrematurely]) (assumption, rule shrinking)

lemma P_reject: "P c \<Longrightarrow> P (reject_frame s f c)"
  by (auto simp: reject_frame_def intro!: P_write other_frame)

lemma P_deliver: "P c \<Longrightarrow> P (deliver v4 u f c)"
  by (auto simp: deliver_def Let_def intro!: P_shrink P_log P_reject P_run_resolution
      dest: map_of_SomeD resolved split: option.split)

lemma P_client_onData: "P c \<Longrightarrow> P (client_onData v4 f c)"
  by (auto simp: client_onData_def announce_def refuse_version_def Let_def
      intro!: P_deliver P_log P_fireCallbacksPrematurely P_write P_shrink other_frame)

lemma P_client_connect:
  assumes "P c"
  shows "P (client_connect c)"
proof -
  have "P (c\<lparr>c_isOpen := True, c_socket := Usable\<rparr>)"
    using assms by (rule shrink) (simp add: shrinks_def same_config_def)
  from P_write [OF this other_frame] have "P (write_frame (VersionReq (String (c_version c)))
      (c\<lparr>c_isOpen := True, c_socket := Usable\<rparr>))" (is "P ?c1") by simp
  moreover have "P (?c1\<lparr>c_deferred := []\<rparr>)"
    using calculation by (rule shrink) (rule shrinking)
  ultimately show ?thesis
    unfolding client_connect_def Let_def by (intro P_fold P_write) (auto dest: deferred)
qed

lemma P_connect_failed:
  assumes "P c"
  shows "P (connect_failed c)"
proof -
  have "P (c\<lparr>c_noRecover := True, c_deferred := []\<rparr>)"
    using assms by (rule shrink) (simp add: shrinks_def same_config_def)
  then show ?thesis by (auto simp: connect_failed_def Let_def intro!: P_log P_shrink)
qed

lemma P_new_call: "P c \<Longrightarrow> P (new_call c)"
  unfolding new_call_def by (erule shrink) (rule shrinking)

lemma other_probe: "ok_frame (probe_request p r)"
  by (cases p) (auto intro: other_frame)

lemma P_other_requests:
  "P c \<Longrightarrow> P (requestLockInfo v4 key cb c)" "P c \<Longrightarrow> P (client_ls v4 cb c)"
  "P c \<Longrightarrow> P (client_ping v4 t cb c)" "P c \<Longrightarrow> P (client_getSystemStats v4 cb c)"
  "P c \<Longrightarrow> P (client_probe v4 p key cb c)"
  using P_fresh [of c v4]
  by (auto simp: requestLockInfo_def client_ls_def client_ping_def client_getSystemStats_def client_probe_def
      fresh_uuid_of_def intro!: P_write P_log resolve other_frame other_probe)

lemma P_handle: "P c \<Longrightarrow> P (client_handle v4 e c)"
  by (cases e)
    (auto simp: client_acquire_def client_release_def
      intro: P_new_call P_client_lock P_client_unlock P_other_requests P_client_onData P_fire_timer
        P_client_connect P_connect_failed P_recover P_shrink P_endCurrentConnection P_client_close
        shrink [OF _ shrinks_fields(8)] shrink [OF _ shrinks_fields(10)])

lemma P_reachable: "client_reachable v4 A c0 c \<Longrightarrow> P c0 \<Longrightarrow> P c"
  by (induction rule: client_reachable.induct) (auto intro: P_handle)

end

subsection \<open>Configuration\<close>

text \<open>No event changes the configuration of a client.\<close>

interpretation config: client_property "same_config c0" "\<lambda>j. True" "\<lambda>r. True" "\<lambda>ms. True" for c0
proof unfold_locales
  show "resolution_job (\<lambda>j. True) v" for v by (cases v) simp_all
  show "timer_job (\<lambda>j. True) t" for t by (cases t) simp_all
qed (auto simp: same_config_def shrinks_def log_event_def set_resolution_def start_timer_def)

lemma same_config_reachable: "client_reachable v4 A c0 c \<Longrightarrow> same_config c0 c"
  by (erule config.P_reachable) (simp add: same_config_def)

end
