(* ===== verification/ClientConfig.thy ===== *)
theory ClientConfig
  imports ClientRules BrokerLock
begin

text \<open>
  The constructor of the client (\<open>src/src/client.ts\<close>): which options it accepts and what it makes of
  them, the bounds of every timer it sets later, and the form of every lock request it writes.
\<close>

subsection \<open>Options\<close>

datatype opt_value = OptFunction | OptValue jsval

type_synonym client_opts = "(string \<times> opt_value) list"

definition opt :: "client_opts \<Rightarrow> string \<Rightarrow> opt_value" where
  "opt os k = (case map_of os k of None \<Rightarrow> OptValue Undefined | Some v \<Rightarrow> v)"

definition validConstructorOptions :: "string list" where
  "validConstructorOptions =
     [''key'', ''listener'', ''connectTimeout'', ''host'', ''port'', ''ttl'', ''unlockRequestTimeout'',
      ''lockRequestTimeout'', ''lockRetryMax'', ''keepLocksAfterDeath'', ''keepLocksOnExit'',
      ''noDelay'', ''udsPath'']"

datatype option_error =
    UnknownOption string
  | BadOption string

definition given :: "client_opts \<Rightarrow> string \<Rightarrow> bool" where
  "given os k = (opt os k \<noteq> OptValue Undefined)"

fun truthy_opt :: "opt_value \<Rightarrow> bool" where
  "truthy_opt OptFunction = True"
| "truthy_opt (OptValue v) = truthy v"

fun opt_in_range :: "int \<Rightarrow> int \<Rightarrow> opt_value \<Rightarrow> bool" where
  "opt_in_range lo hi (OptValue v) = in_range lo hi v"
| "opt_in_range lo hi OptFunction = False"

fun opt_boolean :: "opt_value \<Rightarrow> bool" where
  "opt_boolean (OptValue v) = is_boolean v"
| "opt_boolean OptFunction = False"

fun opt_string :: "opt_value \<Rightarrow> string option" where
  "opt_string (OptValue (String s)) = Some s"
| "opt_string _ = None"

definition isAbsolute :: "string \<Rightarrow> bool" where
  "isAbsolute p = (p \<noteq> [] \<and> hd p = CHR ''/'')"

text \<open>The checks in their order: the option, whether it is looked at, and whether it passes.\<close>

definition option_checks :: "client_opts \<Rightarrow> (string \<times> bool \<times> bool) list" where
  "option_checks os =
     [(''host'', given os ''host'', opt_string (opt os ''host'') \<noteq> None),
      (''port'', given os ''port'', opt_in_range 80 49151 (opt os ''port'')),
      (''listener'', given os ''listener'',
         opt os ''listener'' = OptFunction \<and> opt_string (opt os ''key'') \<noteq> None),
      (''connectTimeout'', given os ''connectTimeout'', opt_in_range 11 19999 (opt os ''connectTimeout'')),
      (''lockRetryMax'', given os ''lockRetryMax'', opt_in_range 0 100 (opt os ''lockRetryMax'')),
      (''retryMax'', truthy_opt (opt os ''retryMax''), opt_in_range 0 100 (opt os ''retryMax'')),
      (''unlockRequestTimeout'', truthy_opt (opt os ''unlockRequestTimeout''),
         opt_in_range 20 800000 (opt os ''unlockRequestTimeout'')),
      (''lockRequestTimeout'', truthy_opt (opt os ''lockRequestTimeout''),
         opt_in_range 20 800000 (opt os ''lockRequestTimeout'')),
      (''ttl'', truthy_opt (opt os ''ttl''), opt_in_range 3 800000 (opt os ''ttl'')),
      (''keepLocksAfterDeath'', map_of os ''keepLocksAfterDeath'' \<noteq> None,
         opt_boolean (opt os ''keepLocksAfterDeath'')),
      (''keepLocksOnExit'', map_of os ''keepLocksOnExit'' \<noteq> None, opt_boolean (opt os ''keepLocksOnExit'')),
      (''noDelay'', given os ''noDelay'', opt_boolean (opt os ''noDelay'')),
      (''udsPath'', given os ''udsPath'',
         (case opt_string (opt os ''udsPath'') of None \<Rightarrow> False | Some p \<Rightarrow> isAbsolute p))]"

definition check_client_opts :: "client_opts \<Rightarrow> option_error option" where
  "check_client_opts os =
     (case find (\<lambda>k. \<not> hash_has (set validConstructorOptions) k) (map fst os) of
        Some k \<Rightarrow> Some (UnknownOption k)
      | None \<Rightarrow> map_option (\<lambda>p. BadOption (fst p)) (find (\<lambda>(k, seen, ok). seen \<and> \<not> ok) (option_checks os)))"

subsection \<open>The settings\<close>

text \<open>Where the client connects to; \<open>resolve\<close> is \<open>path.resolve\<close>.\<close>

record client_settings =
  cs_host :: string
  cs_port :: int
  cs_connectTimeout :: int
  cs_noDelay :: bool
  cs_socketFile :: string

fun opt_int :: "opt_value \<Rightarrow> int" where
  "opt_int (OptValue v) = int_value v"
| "opt_int OptFunction = 0"

text \<open>\<open>opts.k || dflt\<close> for a number.\<close>

definition int_or :: "opt_value \<Rightarrow> int \<Rightarrow> int" where
  "int_or v dflt = (if truthy_opt v then opt_int v else dflt)"

definition settings_of :: "(string \<Rightarrow> string) \<Rightarrow> client_opts \<Rightarrow> client_settings" where
  "settings_of resolve os =
     \<lparr>cs_host = (case opt_string (opt os ''host'') of None \<Rightarrow> ''localhost'' | Some h \<Rightarrow> h),
      cs_port = (if given os ''port'' then opt_int (opt os ''port'') else 6970),
      cs_connectTimeout = (if given os ''connectTimeout'' then opt_int (opt os ''connectTimeout'') else 3000),
      cs_noDelay = (if given os ''noDelay'' then truthy_opt (opt os ''noDelay'') else True),
      cs_socketFile = (case opt_string (opt os ''udsPath'') of None \<Rightarrow> [] | Some p \<Rightarrow> resolve p)\<rparr>"

text \<open>\<open>ttl\<close> of \<open>null\<close> has become \<open>Infinity\<close>.\<close>

definition client_ttl :: "client_opts \<Rightarrow> js_number" where
  "client_ttl os = (if opt os ''ttl'' = OptValue Null then Infinity else Num (int_or (opt os ''ttl'') 7050))"

definition construct ::
  "bool \<Rightarrow> (string \<Rightarrow> string) \<Rightarrow> int \<Rightarrow> string \<Rightarrow> client_opts \<Rightarrow> option_error + client_settings \<times> client" where
  "construct debugging resolve pid version os =
     (case check_client_opts os of
        Some e \<Rightarrow> Inl e
      | None \<Rightarrow> Inr (settings_of resolve os,
          new_client (if debugging then Num 5000000 else client_ttl os)
            (if debugging then 5000000 else int_or (opt os ''lockRequestTimeout'') 3000)
            (if debugging then 5000000 else int_or (opt os ''unlockRequestTimeout'') 8000)
            (int_or (opt os ''lockRetryMax'') (int_or (opt os ''maxRetries'') (int_or (opt os ''retryMax'') 3)))
            (truthy_opt (opt os ''keepLocksAfterDeath'') \<or> truthy_opt (opt os ''keepLocksOnExit''))
            pid version))"

subsection \<open>What an accepted configuration guarantees\<close>

lemma find_bad_check:
  "find (\<lambda>(k, seen, ok). seen \<and> \<not> ok) cs = None \<Longrightarrow> (k, seen, ok) \<in> set cs \<Longrightarrow> seen \<Longrightarrow> ok"
  by (auto simp: find_None_iff)

lemma accepted_option:
  assumes "check_client_opts os = None" and "(k, seen, ok) \<in> set (option_checks os)" and "seen"
  shows "ok"
  using assms by (auto simp: check_client_opts_def dest: find_bad_check split: option.splits)

lemma checked_options:
  assumes "check_client_opts os = None"
  shows "given os ''port'' \<Longrightarrow> opt_in_range 80 49151 (opt os ''port'')"
    "given os ''lockRetryMax'' \<Longrightarrow> opt_in_range 0 100 (opt os ''lockRetryMax'')"
    "truthy_opt (opt os ''unlockRequestTimeout'') \<Longrightarrow> opt_in_range 20 800000 (opt os ''unlockRequestTimeout'')"
    "truthy_opt (opt os ''lockRequestTimeout'') \<Longrightarrow> opt_in_range 20 800000 (opt os ''lockRequestTimeout'')"
    "truthy_opt (opt os ''ttl'') \<Longrightarrow> opt_in_range 3 800000 (opt os ''ttl'')"
  using accepted_option [OF assms, of "''port''"] accepted_option [OF assms, of "''lockRetryMax''"]
    accepted_option [OF assms, of "''unlockRequestTimeout''"] accepted_option [OF assms, of "''lockRequestTimeout''"]
    accepted_option [OF assms, of "''ttl''"]
  by (simp_all add: option_checks_def)

lemma unknown_absent:
  assumes "check_client_opts os = None" and "\<not> hash_has (set validConstructorOptions) k"
  shows "opt os k = OptValue Undefined"
proof -
  have "k \<notin> fst ` set os" using assms by (auto simp: check_client_opts_def find_None_iff split: option.splits)
  then show ?thesis by (simp add: opt_def map_of_eq_None_iff [THEN iffD2])
qed

lemma opt_in_range_int: "opt_in_range lo hi v \<Longrightarrow> lo \<le> opt_int v \<and> opt_int v \<le> hi"
  by (cases v) (auto simp: in_range_def)

lemma int_or_range:
  assumes "truthy_opt v \<Longrightarrow> opt_in_range lo hi v" and "lo \<le> d" and "d \<le> hi"
  shows "lo \<le> int_or v d \<and> int_or v d \<le> hi"
  using assms by (auto simp: int_or_def dest: opt_in_range_int)

lemma constructed:
  assumes "construct debugging resolve pid ver os = Inr (st, c)"
  shows "check_client_opts os = None" "st = settings_of resolve os"
    "c = new_client (if debugging then Num 5000000 else client_ttl os)
       (if debugging then 5000000 else int_or (opt os ''lockRequestTimeout'') 3000)
       (if debugging then 5000000 else int_or (opt os ''unlockRequestTimeout'') 8000)
       (int_or (opt os ''lockRetryMax'') (int_or (opt os ''maxRetries'') (int_or (opt os ''retryMax'') 3)))
       (truthy_opt (opt os ''keepLocksAfterDeath'') \<or> truthy_opt (opt os ''keepLocksOnExit'')) pid ver"
  using assms by (auto simp: construct_def split: option.splits)

lemma construct_timeouts:
  assumes "check_client_opts os = None"
  shows "20 \<le> int_or (opt os ''lockRequestTimeout'') 3000 \<and> int_or (opt os ''lockRequestTimeout'') 3000 \<le> 800000"
    "20 \<le> int_or (opt os ''unlockRequestTimeout'') 8000 \<and> int_or (opt os ''unlockRequestTimeout'') 8000 \<le> 800000"
    "3 \<le> int_or (opt os ''ttl'') 7050 \<and> int_or (opt os ''ttl'') 7050 \<le> 800000"
  by (rule int_or_range, erule checked_options [OF assms], simp, simp)+

lemma construct_retries:
  assumes "check_client_opts os = None"
  shows "1 \<le> int_or (opt os ''lockRetryMax'') (int_or (opt os ''maxRetries'') (int_or (opt os ''retryMax'') 3)) \<and>
    int_or (opt os ''lockRetryMax'') (int_or (opt os ''maxRetries'') (int_or (opt os ''retryMax'') 3)) \<le> 100"
proof -
  have "opt os ''maxRetries'' = OptValue Undefined" "opt os ''retryMax'' = OptValue Undefined"
    by (rule unknown_absent [OF assms], simp add: validConstructorOptions_def hash_has_def object_prototype_def)+
  moreover have "1 \<le> opt_int v \<and> opt_int v \<le> 100" if "truthy_opt v" "opt_in_range 0 100 v" for v
  proof (cases v)
    case (OptValue x)
    then show ?thesis using that by (cases x) (auto simp: in_range_def)
  qed (use that in simp)
  moreover have "given os ''lockRetryMax''" if "truthy_opt (opt os ''lockRetryMax'')"
    using that by (auto simp: given_def)
  ultimately show ?thesis
    using checked_options(2) [OF assms]
    by (cases "truthy_opt (opt os ''lockRetryMax'')") (simp_all add: int_or_def)
qed

text \<open>A configuration the constructor accepts has every default in range: timeouts of lock and unlock
  requests between 20 and 800000 ms, 1 to 100 attempts, a port between 80 and 49151, and a time to
  live that is unbounded or between 3 and 800000 ms.\<close>

lemma construct_in_range:
  assumes "construct False resolve pid ver os = Inr (st, c)"
  shows "20 \<le> c_lockRequestTimeout c \<and> c_lockRequestTimeout c \<le> 800000 \<and>
    20 \<le> c_unlockRequestTimeout c \<and> c_unlockRequestTimeout c \<le> 800000 \<and>
    1 \<le> c_lockRetryMax c \<and> c_lockRetryMax c \<le> 100 \<and>
    80 \<le> cs_port st \<and> cs_port st < 49152 \<and>
    (case c_ttl c of Infinity \<Rightarrow> True | Num n \<Rightarrow> 3 \<le> n \<and> n \<le> 800000)"
proof -
  note ok = constructed(1) [OF assms]
  have "80 \<le> cs_port (settings_of resolve os) \<and> cs_port (settings_of resolve os) < 49152"
    using checked_options(1) [OF ok] opt_in_range_int [of 80 49151 "opt os ''port''"]
    by (auto simp: settings_of_def)
  then show ?thesis
    using constructed(2,3) [OF assms] construct_timeouts [OF ok] construct_retries [OF ok]
    by (simp add: new_client_def client_ttl_def)
qed

definition demo_opts :: client_opts where
  "demo_opts = [(''port'', OptValue (Integer 6971)), (''ttl'', OptValue Null),
     (''lockRetryMax'', OptValue (Integer 0)), (''lockRequestTimeout'', OptValue (Integer 20))]"

lemma construct_in_range_witness:
  "\<exists>st c. construct False (\<lambda>p. p) 1 ''1.2.3'' demo_opts = Inr (st, c) \<and> c_ttl c = Infinity \<and>
     cs_port st = 6971 \<and> 20 \<le> c_lockRequestTimeout c \<and> c_lockRequestTimeout c \<le> 800000"
proof -
  obtain st c where *: "construct False (\<lambda>p. p) 1 ''1.2.3'' demo_opts = Inr (st, c)"
    "c_ttl c = Infinity" "cs_port st = 6971"
  proof (rule that)
    show "construct False (\<lambda>p. p) 1 ''1.2.3'' demo_opts = Inr (settings_of (\<lambda>p. p) demo_opts,
        new_client Infinity 20 8000 3 False 1 ''1.2.3'')" by code_simp
    show "c_ttl (new_client Infinity 20 8000 3 False 1 ''1.2.3'') = Infinity" by code_simp
    show "cs_port (settings_of (\<lambda>p. p) demo_opts) = 6971" by code_simp
  qed
  with construct_in_range [OF *(1)] show ?thesis by blast
qed

end
