(* ===== verification/ClientFrames.thy ===== *)
theory ClientFrames
  imports ClientConfig Callbacks Demo
begin

text \<open>
  What a client writes and how long it waits: every lock request on the wire passes the broker's
  validation, and every timer is within the documented range, from the options of the constructor
  to the last retry.
\<close>

subsection \<open>Checked jobs and frames\<close>

text \<open>\<open>dbg\<close>: the process was started for debugging, which sets every default to 5000000.\<close>

fun good_ttl :: "bool \<Rightarrow> ttl_field \<Rightarrow> bool" where
  "good_ttl dbg (TtlInt n) = (3 \<le> n \<and> n \<le> 800000 \<or> dbg \<and> n = 5000000)"
| "good_ttl dbg TtlUndefined = False"
| "good_ttl dbg _ = True"

definition good_ms :: "bool \<Rightarrow> int \<Rightarrow> bool" where
  "good_ms dbg n = (20 \<le> n \<and> n \<le> 800000 \<or> dbg \<and> n = 5000000)"

definition checked_job :: "bool \<Rightarrow> lock_job \<Rightarrow> bool" where
  "checked_job dbg j \<longleftrightarrow>
     (j_max j = Undefined \<or> positive (j_max j)) \<and> (j_ttl j = TtlUndefined \<or> good_ttl dbg (j_ttl j)) \<and>
     (case j_lockRequestTimeout j of None \<Rightarrow> True | Some n \<Rightarrow> good_ms dbg n)"

fun checked_frame :: "bool \<Rightarrow> LMXRequest \<Rightarrow> bool" where
  "checked_frame dbg (LockReq r) = ((l_max r = Undefined \<or> positive (l_max r)) \<and>
     l_maxRead r = Undefined \<and> l_maxWrite r = Undefined \<and> good_ttl dbg (l_ttl r))"
| "checked_frame dbg _ = True"

fun checked_event :: "bool \<Rightarrow> int \<Rightarrow> client_event \<Rightarrow> bool" where
  "checked_event dbg p (Wrote (LockReq r)) =
     ((l_max r = Null \<or> positive (l_max r)) \<and> l_maxRead r = Undefined \<and> l_maxWrite r = Undefined \<and>
      l_pid r = p \<and> l_ttl r \<noteq> TtlInfinity \<and> good_ttl dbg (l_ttl r))"
| "checked_event dbg p (TimerSet t ms) = good_ms dbg ms"
| "checked_event dbg p _ = True"

definition checked_client :: "bool \<Rightarrow> int \<Rightarrow> client \<Rightarrow> bool" where
  "checked_client dbg p c \<longleftrightarrow>
     good_ms dbg (c_lockRequestTimeout c) \<and> good_ms dbg (c_unlockRequestTimeout c) \<and> c_pid c = p \<and>
     good_ttl dbg (case c_ttl c of Infinity \<Rightarrow> TtlInfinity | Num n \<Rightarrow> TtlInt n) \<and>
     (\<forall>r \<in> snd ` set (c_resolutions c). resolution_job (checked_job dbg) r) \<and>
     (\<forall>t \<in> snd ` set (c_armed c). timer_job (checked_job dbg) t) \<and>
     (\<forall>r \<in> set (c_deferred c). checked_frame dbg r) \<and> (\<forall>e \<in> set (c_out c). checked_event dbg p e)"

lemma checked_event_fill: "checked_frame dbg r \<Longrightarrow> c_pid c = p \<Longrightarrow> checked_event dbg p (Wrote (fill_frame c r))"
  by (cases r) (auto simp: positive_def)

text \<open>An accepted set of options, field by field.\<close>

lemma accepted_lock_opts:
  assumes "check_lock_opts d o' = Inr j"
  shows "\<not> bad_option positive (o_max o')"
    "truthy (o_ttl o') \<Longrightarrow> in_range 3 800000 (o_ttl o')"
    "truthy (o_lockRequestTimeout o') \<Longrightarrow> in_range 20 800000 (o_lockRequestTimeout o')"
    "max_retries d o' = Inr (j_maxRetries j)"
    "j_max j = (case o_max o' of None \<Rightarrow> Undefined | Some v \<Rightarrow> v)"
    "j_ttl j = ttl_of (o_ttl o')"
    "j_lockRequestTimeout j =
       (if truthy (o_lockRequestTimeout o') then Some (int_value (o_lockRequestTimeout o')) else None)"
  using assms by (auto simp: check_lock_opts_def split: if_splits sum.splits)

lemma ttl_of_good: "(truthy v \<Longrightarrow> in_range 3 800000 v) \<Longrightarrow> ttl_of v = TtlUndefined \<or> good_ttl dbg (ttl_of v)"
  by (simp add: ttl_of_def in_range_def)

lemma job_is_checked: "check_lock_opts d o' = Inr j \<Longrightarrow> checked_job dbg j"
  using accepted_lock_opts [of d o' j] ttl_of_good [of "o_ttl o'"]
  by (simp add: checked_job_def bad_option_def in_range_def good_ms_def split: option.splits)

lemma unlock_opts_checked:
  "check_unlock_opts o' = None \<Longrightarrow> good_ms dbg (c_unlockRequestTimeout c) \<Longrightarrow> good_ms dbg (unlock_timeout c o')"
  by (auto simp: check_unlock_opts_def unlock_timeout_def in_range_def good_ms_def split: if_splits)

lemma job_frame_checked: "checked_client dbg p c \<Longrightarrow> checked_job dbg j \<Longrightarrow> checked_frame dbg (LockReq (lock_frame c key u j))"
  by (auto simp: checked_client_def checked_job_def lock_frame_def job_ttl_def split: js_number.splits)

lemma in_image_subset: "set xs \<subseteq> set ys \<Longrightarrow> \<forall>x \<in> snd ` set ys. Q x \<Longrightarrow> \<forall>x \<in> snd ` set xs. Q x"
  by auto

interpretation checked: client_property "checked_client dbg p" "checked_job dbg" "checked_frame dbg" "good_ms dbg" for dbg p
proof unfold_locales
  show "checked_client dbg p c'" if "checked_client dbg p c" "shrinks c c'" for c c'
    using that by (auto simp: checked_client_def shrinks_def same_config_def)
  show "checked_client dbg p (log_event e c)" if "checked_client dbg p c" "\<And>r. e \<noteq> Wrote r" "\<And>t ms. e \<noteq> TimerSet t ms" for c e
    using that by (cases e) (auto simp: checked_client_def log_event_def)
  show "checked_client dbg p (log_event (Wrote (fill_frame c r)) c)" if "checked_client dbg p c" "checked_frame dbg r" for c r
    using that checked_event_fill [of dbg r c p] by (auto simp: checked_client_def log_event_def)
  show "checked_client dbg p (set_resolution u v c)" if "checked_client dbg p c" "resolution_job (checked_job dbg) v" for c u v
    using that set_update_subset [of u v "c_resolutions c"]
    by (auto simp: checked_client_def set_resolution_def)
  show "checked_client dbg p (start_timer u t ms c)"
    if "checked_client dbg p c" "timer_job (checked_job dbg) t" "good_ms dbg ms" for c u t ms
    using that set_update_subset [of "c_attempts c" t "c_armed c"]
    by (auto simp: checked_client_def start_timer_def log_event_def)
  show "good_ms dbg (lock_timeout c j)" if "checked_client dbg p c" "checked_job dbg j" for c j
    using that by (auto simp: checked_client_def checked_job_def lock_timeout_def split: option.splits)
  show "checked_frame dbg r" if other: "\<And>r'. r \<noteq> LockReq r'" for r
  proof (cases r)
    case (LockReq x)
    then show ?thesis using other by blast
  qed simp_all
  show "checked_client dbg p (c\<lparr>c_deferred := c_deferred c @ [r]\<rparr>)" if "checked_client dbg p c" "checked_frame dbg r" for c r
    using that by (auto simp: checked_client_def)
  show "good_ms dbg (unlock_timeout c uopts)" if "checked_client dbg p c" "check_unlock_opts uopts = None" for c uopts
    using that by (intro unlock_opts_checked) (simp_all add: checked_client_def)
  show "checked_job dbg (j\<lparr>j_retryCount := i\<rparr>)" "checked_job dbg (j\<lparr>j_uuid := uo\<rparr>)" if "checked_job dbg j" for j i uo
    using that by (simp_all add: checked_job_def)
  show "checked_frame dbg r" if "checked_client dbg p c" "r \<in> set (c_deferred c)" for c r
    using that by (auto simp: checked_client_def)
  show "resolution_job (checked_job dbg) v" if "checked_client dbg p c" "(u, v) \<in> set (c_resolutions c)" for c u v
    using that by (force simp: checked_client_def)
  show "timer_job (checked_job dbg) t" if "checked_client dbg p c" "(n, t) \<in> set (c_armed c)" for c n t
    using that by (force simp: checked_client_def)
qed (rule job_is_checked job_frame_checked; assumption)+

lemma constructed_checked:
  assumes "construct dbg resolve pid ver os = Inr (st, c)"
  shows "checked_client dbg pid c"
  using constructed(1,3) [OF assms] construct_timeouts
  by (auto simp: checked_client_def new_client_def good_ms_def client_ttl_def)

lemma checked_eventD: "checked_client dbg p c \<Longrightarrow> e \<in> set (c_out c) \<Longrightarrow> checked_event dbg p e"
  unfolding checked_client_def by blast

lemma reachable_checked:
  assumes "construct dbg resolve pid ver os = Inr (st, c0)" and "client_reachable v4 A c0 c"
  shows "checked_client dbg pid c"
  using checked.P_reachable [OF assms(2)] constructed_checked [OF assms(1)] by simp

text \<open>A client with the options \<open>demo_opts\<close> that asks for a lock and lets the request time out once.\<close>

definition demo_constructed :: client where
  "demo_constructed = new_client Infinity 20 8000 3 False 1 ''1.2.3''"

lemma construct_demo:
  "construct False (\<lambda>p. p) 1 ''1.2.3'' demo_opts = Inr (settings_of (\<lambda>p. p) demo_opts, demo_constructed)"
  by code_simp

definition demo_lock_run :: client where
  "demo_lock_run = client_run demo_v4
     [Connected, ApiLock ''k'' (ArgNumber (Integer 400)) True, TimerFired 0] demo_constructed"

lemma demo_lock_run_reachable: "client_reachable demo_v4 (\<lambda>e. True) demo_constructed demo_lock_run"
  unfolding demo_lock_run_def by (rule client_run_reachable) (simp add: list_all_iff)

subsection \<open>Properties\<close>

text \<open>C18: Every lock request that a client with an accepted configuration ever writes passes the broker's
  \<open>validateMaxField\<close>: \<open>max\<close> is \<open>null\<close> or a positive integer, \<open>maxRead\<close> and \<open>maxWrite\<close> are absent, \<open>ttl\<close> is
  \<open>null\<close> or between 3 and 800000 ms (or 5000000, if the process was started for debugging), and the pid is the client's own. This holds for first attempts,
  retries, re-elections and frames put off while the connection was down.\<close>

theorem lock_requests_well_typed:
  assumes "construct dbg resolve pid ver os = Inr (st, c0)" and "client_reachable v4 A c0 c"
    and "Wrote (LockReq r) \<in> set (c_out c)"
  shows "validateMaxField r = None \<and> (l_max r = Null \<or> positive (l_max r)) \<and> l_pid r = pid \<and>
    (l_ttl r = TtlNull \<or> (\<exists>n. l_ttl r = TtlInt n \<and> (3 \<le> n \<and> n \<le> 800000 \<or> dbg \<and> n = 5000000)))"
proof -
  have "checked_event dbg pid (Wrote (LockReq r))"
    by (rule checked_eventD [OF reachable_checked [OF assms(1,2)] assms(3)])
  then show ?thesis
    by (cases "l_max r"; cases "l_ttl r") (auto simp: validateMaxField_def bad_limit_def positive_def)
qed

theorem lock_requests_well_typed_witness:
  "\<exists>r. Wrote (LockReq r) \<in> set (c_out demo_lock_run) \<and> l_retryCount r = 1 \<and> l_ttl r = TtlInt 400 \<and>
     validateMaxField r = None"
proof -
  define r where "r = (ask (demo_v4 0) ''k'' Null)\<lparr>l_ttl := TtlInt 400, l_retryCount := 1\<rparr>"
  have "Wrote (LockReq r) \<in> set (c_out demo_lock_run)" unfolding r_def by code_simp
  moreover from this have "validateMaxField r = None"
    using lock_requests_well_typed [OF construct_demo demo_lock_run_reachable] by blast
  ultimately show ?thesis by (intro exI [of _ r]) (simp add: r_def)
qed

text \<open>Every timer a client with an accepted configuration ever sets, for a lock or an unlock request,
  runs between 20 and 800000 ms, or 5000000 ms in a process started for debugging.\<close>

lemma timers_in_range:
  assumes "construct dbg resolve pid ver os = Inr (st, c0)" and "client_reachable v4 A c0 c"
    and "TimerSet t ms \<in> set (c_out c)"
  shows "20 \<le> ms \<and> ms \<le> 800000 \<or> dbg \<and> ms = 5000000"
  using checked_eventD [OF reachable_checked [OF assms(1,2)] assms(3)] by (simp add: good_ms_def)

lemma timers_in_range_witness:
  "TimerSet 1 20 \<in> set (c_out demo_lock_run) \<and> (20 :: int) \<le> 20 \<and> (20 :: int) \<le> 800000"
proof -
  have "TimerSet 1 20 \<in> set (c_out demo_lock_run)" by code_simp
  with timers_in_range [OF construct_demo demo_lock_run_reachable this] show ?thesis by blast
qed

end
