(* ===== verification/Outcomes.thy ===== *)
theory Outcomes
  imports ClientFrames Requests
begin

text \<open>
  How a lock request of the client ends: granted, given up after its last timeout, refused before it
  is sent, or dropped; and what then stands in the broker's tables.
\<close>

subsection \<open>Timing out\<close>

text \<open>The timer of a pending request fires.\<close>

definition time_out :: "(nat \<Rightarrow> string) \<Rightarrow> string \<Rightarrow> client \<Rightarrow> client" where
  "time_out v4 u c = (case map_of (c_timers c) u of None \<Rightarrow> c | Some t \<Rightarrow> fire_timer v4 t c)"

lemma time_out_ok: "client_ok v4 {#} c \<Longrightarrow> good_v4 v4 \<Longrightarrow> client_ok v4 {#} (time_out v4 u c)"
  by (simp add: time_out_def fire_timer_ok split: option.split)

lemma time_out_pending:
  assumes "client_ok v4 {#} c" and r: "map_of (c_resolutions c) u = Some (LockResolution a u' key j cb)"
  shows "time_out v4 u c = lock_timed_out v4 a u key j cb (c\<lparr>c_armed := AList.delete a (c_armed c)\<rparr>)"
    "j_uuid j = Some u"
proof -
  note T = client_okD(1) [OF assms(1)]
  have "u' = u" "j_uuid j = Some u" using tables_okD(6) [OF T r] by simp_all
  moreover have "armed_for c u (LockResolution a u' key j cb)" using tables_okD(7) [OF T r] .
  ultimately show "time_out v4 u c = lock_timed_out v4 a u key j cb (c\<lparr>c_armed := AList.delete a (c_armed c)\<rparr>)"
    "j_uuid j = Some u"
    by (simp_all add: armed_for_def time_out_def fire_timer_def)
qed

definition timeout_error :: "string \<Rightarrow> string \<Rightarrow> lock_exception" where
  "timeout_error key u = \<lparr>le_key = key, le_id = Some u, le_code = RequestTimeoutError\<rparr>"

lemma last_timeout:
  assumes "client_ok v4 {#} c" and "map_of (c_resolutions c) u = Some (LockResolution a u' key j cb)"
    and "c_isOpen c" and "j_maxRetries j \<le> j_retryCount j + 1"
  shows "Called cb False (LockFailed (timeout_error key u)) \<in> set (c_out (time_out v4 u c))"
  using time_out_pending [OF assms(1,2)] assms(3,4)
  by (simp add: lock_timed_out_def Let_def del_resolution_def del_timer_def fireLockCallbackWithError_def
      timeout_error_def log_event_def)

lemma next_timeout:
  assumes ok: "client_ok v4 {#} c" and r: "map_of (c_resolutions c) u = Some (LockResolution a u' key j cb)"
    and c: "c_isOpen c" "\<not> c_recovering c" "\<not> c_cannotContinue c"
    and more: "j_retryCount j + 1 < j_maxRetries j" and v: "good_v4 v4"
  shows "map_of (c_resolutions (time_out v4 u c)) u =
      Some (LockResolution (c_attempts c) u key (j\<lparr>j_retryCount := j_retryCount j + 1\<rparr>) cb)"
    "c_isOpen (time_out v4 u c)" "\<not> c_recovering (time_out v4 u c)" "\<not> c_cannotContinue (time_out v4 u c)"
proof -
  have "u \<in> fst ` set (c_resolutions c)" using r by (force dest: map_of_SomeD)
  then obtain i where "u = v4 i" using tables_okD(12) [OF client_okD(1) [OF ok]] by blast
  then have "u \<noteq> []" using v by (simp add: good_v4_def)
  then show "map_of (c_resolutions (time_out v4 u c)) u =
      Some (LockResolution (c_attempts c) u key (j\<lparr>j_retryCount := j_retryCount j + 1\<rparr>) cb)"
    "c_isOpen (time_out v4 u c)" "\<not> c_recovering (time_out v4 u c)" "\<not> c_cannotContinue (time_out v4 u c)"
    using time_out_pending [OF ok r] c more
    by (simp_all add: lock_timed_out_def Let_def del_resolution_def del_timer_def lockInternal_def
        attempt_def lock_gate_def start_timer_def set_resolution_def log_event_def)
qed

lemma timeouts_exhausted:
  assumes "client_ok v4 {#} c" and "map_of (c_resolutions c) u = Some (LockResolution a u' key j cb)"
    and "c_isOpen c" "\<not> c_recovering c" "\<not> c_cannotContinue c" and "good_v4 v4"
  shows "Called cb False (LockFailed (timeout_error key u)) \<in>
    set (c_out ((time_out v4 u ^^ nat (max 1 (j_maxRetries j - j_retryCount j))) c))"
  using assms
proof (induction "nat (j_maxRetries j - j_retryCount j)" arbitrary: c a u' j)
  case 0
  then show ?case using last_timeout [of v4 c u a u' key j cb] by (simp add: max_def)
next
  case (Suc n)
  show ?case
  proof (cases "j_maxRetries j \<le> j_retryCount j + 1")
    case True
    then have "nat (max 1 (j_maxRetries j - j_retryCount j)) = 1" by simp
    then show ?thesis using last_timeout [OF Suc.prems(1-3) True] by simp
  next
    case False
    then have more: "j_retryCount j + 1 < j_maxRetries j" by simp
    note N = next_timeout [OF Suc.prems(1-5) more Suc.prems(6)]
    let ?j = "j\<lparr>j_retryCount := j_retryCount j + 1\<rparr>"
    have m: "nat (max 1 (j_maxRetries j - j_retryCount j)) =
        Suc (nat (max 1 (j_maxRetries ?j - j_retryCount ?j)))" using more by (simp add: max_def)
    have "n = nat (j_maxRetries ?j - j_retryCount ?j)" using Suc.hyps(2) by simp
    from Suc.hyps(1) [OF this time_out_ok [OF Suc.prems(1,6)] N Suc.prems(6)] show ?thesis
      unfolding m by (simp add: funpow_swap1)
  qed
qed

text \<open>C16: A pending lock request of a connected client ends: if nothing arrives and only its own timer
  fires, then after as many firings as it has attempts left its callback has been called with
  \<open>request_timeout\<close>.\<close>

theorem lock_gives_up:
  assumes "client_reachable v4 own_uuids (new_client ttl lrt urt m keep pid ver) c" and "good_v4 v4"
    and "map_of (c_resolutions c) u = Some (LockResolution a u' key j cb)"
    and "c_isOpen c" and "\<not> c_recovering c" and "\<not> c_cannotContinue c"
  shows "Called cb False (LockFailed (timeout_error key u)) \<in>
    set (c_out ((time_out v4 u ^^ nat (max 1 (j_maxRetries j - j_retryCount j))) c))"
  using timeouts_exhausted [OF reachable_client_ok [OF assms(1,2)] assms(3-6,2)] .

theorem lock_gives_up_witness:
  "Called 1 False (LockFailed (timeout_error ''j'' (demo_v4 1))) \<in>
     set (c_out ((time_out demo_v4 (demo_v4 1) ^^ 2) demo_run))"
proof -
  obtain a u' j where r: "map_of (c_resolutions demo_run) (demo_v4 1) = Some (LockResolution a u' ''j'' j 1)"
    "j_maxRetries j = 3" "j_retryCount j = 1"
  proof (rule that)
    show "map_of (c_resolutions demo_run) (demo_v4 1) = Some (LockResolution 2 (demo_v4 1) ''j''
      \<lparr>j_uuid = Some (demo_v4 1), j_max = Undefined, j_ttl = TtlUndefined, j_lockRequestTimeout = None,
       j_maxRetries = 3, j_retryCount = 1, j_wait = None, j_rwStatus = None, j_forceUnlock = False,
       j_keep = False, j_promise = False\<rparr> 1)" by code_simp
  qed simp_all
  have "c_isOpen demo_run" "\<not> c_recovering demo_run" "\<not> c_cannotContinue demo_run" by code_simp+
  with lock_gives_up [OF demo_run_reachable good_demo_v4 r(1)] r(2,3) show ?thesis by simp
qed

end
