(* ===== verification/Dialogue.thy ===== *)
theory Dialogue
  imports Outcomes Releases
begin

text \<open>
  A client and the broker together: a request the client writes, what the broker does with it, the
  frame it answers, and what the client makes of that frame.
\<close>

subsection \<open>Replies as the client reads them\<close>

text \<open>The JSON objects the broker sends for locks and unlocks, by the fields the client looks at.\<close>

definition plain_frame :: "string \<Rightarrow> string \<Rightarrow> client_frame" where
  "plain_frame u key = \<lparr>cf_type = ''lock'', cf_uuid = Some u, cf__uuid = None, cf_key = key,
     cf_error = False, cf_warning = False, cf_acquired = None, cf_reelection = False,
     cf_unlocked = None, cf_retry = False, cf_lockInfo = False, cf_readersCount = Undefined,
     cf_fencingToken = Undefined\<rparr>"

fun frame_of :: "response \<Rightarrow> client_frame option" where
  "frame_of (LockReply u key acq n rd t e) = Some ((plain_frame u key)
     \<lparr>cf_acquired := Some acq, cf_readersCount := Integer (int rd), cf_error := (e \<noteq> None),
      cf_fencingToken := (case t of None \<Rightarrow> Undefined | Some n \<Rightarrow> Integer n)\<rparr>)"
| "frame_of (ReelectionNotice u key n) = Some ((plain_frame u key)\<lparr>cf_reelection := True\<rparr>)"
| "frame_of (UnlockReply u key n ok e) = Some ((plain_frame u key)
     \<lparr>cf_type := ''unlock'', cf_unlocked := Some ok, cf_error := (e \<noteq> None)\<rparr>)"
| "frame_of (UnlockNoLock u key) = Some ((plain_frame u key)
     \<lparr>cf_type := ''unlock'', cf_unlocked := Some True, cf_warning := True\<rparr>)"
| "frame_of _ = None"

subsection \<open>A client that can ask\<close>

definition can_ask :: "client \<Rightarrow> bool" where
  "can_ask c \<longleftrightarrow> c_isOpen c \<and> \<not> c_recovering c \<and> \<not> c_cannotContinue c \<and> c_socket c = Usable"

text \<open>The first attempt of an accepted request: what is registered, and the frame.\<close>

lemma first_attempt:
  fixes key :: string and c :: client
  assumes "can_ask c" and v: "good_v4 v4" and j: "check_lock_opts (c_lockRetryMax c) (opts_of a) = Inr j"
    and own: "\<not> truthy_str (o_uuid (opts_of a))" and more: "j_retryCount j < j_maxRetries j"
  defines "u \<equiv> v4 (c_uuids c)" and "c1 \<equiv> client_handle v4 (ApiLock key a True) c"
    and "r \<equiv> lock_frame c key (v4 (c_uuids c)) (j\<lparr>j_uuid := Some (v4 (c_uuids c))\<rparr>)"
  shows "map_of (c_resolutions c1) u =
      Some (LockResolution (c_attempts c) u key (j\<lparr>j_uuid := Some u\<rparr>) (c_calls c))"
    "last (c_out c1) = Wrote (fill_frame c (LockReq r))" "c_timed_out c1 = c_timed_out c"
    "c_socket c1 = Usable" "c_timeouts c1 = c_timeouts c" "c_giveups c1 = c_giveups c"
    "set (c_out c1) \<supseteq> set (c_out c)"
proof -
  have "j_uuid j = o_uuid (opts_of a)"
    using j by (auto simp: check_lock_opts_def split: if_splits sum.splits)
  then have fresh: "\<not> truthy_str (j_uuid j)" using own by simp
  have cb: "parseLockOpts (case a of ArgCallback f \<Rightarrow> ArgCallback (c_calls c) | _ \<Rightarrow> a) (Some (c_calls c)) =
      Inr (opts_of a, c_calls c)" by (cases a) (simp_all add: parseLockOpts_def)
  have eq: "c1 = attempt key u (j\<lparr>j_uuid := Some u\<rparr>) (c_calls c)
      ((log_event (Asked (c_calls c)) (new_call c))\<lparr>c_uuids := Suc (c_uuids c)\<rparr>)"
    using cb j fresh
    by (simp add: c1_def client_lock_def new_call_def lockInternal_def fresh_uuid_of_def u_def log_event_def)
  show "map_of (c_resolutions c1) u =
      Some (LockResolution (c_attempts c) u key (j\<lparr>j_uuid := Some u\<rparr>) (c_calls c))"
    "last (c_out c1) = Wrote (fill_frame c (LockReq r))" "c_timed_out c1 = c_timed_out c"
    "c_socket c1 = Usable" "c_timeouts c1 = c_timeouts c" "c_giveups c1 = c_giveups c"
    "set (c_out c1) \<supseteq> set (c_out c)"
    using assms(1) more
    by (auto simp: eq can_ask_def attempt_def lock_gate_def Let_def start_timer_def set_resolution_def
        write_frame_def log_event_def new_call_def r_def u_def lock_frame_def job_ttl_def)
qed

text \<open>A grant for a pending request.\<close>

lemma grant_delivered:
  assumes r: "map_of (c_resolutions c) u = Some (LockResolution a u key j n)" and a: "a \<notin> c_timed_out c"
    and c: "u \<notin> c_giveups c" "c_timeouts c = {}" "c_socket c = Usable" and u: "u \<noteq> []"
    and f: "cf_type f = ''lock''" "cf_uuid f = Some u" "cf_key f = key" "\<not> cf_error f" "\<not> cf_warning f"
      "cf_acquired f = Some True"
  shows "c_out (client_onData v4 f c) = c_out c @
    [Wrote (LockReceivedReq \<lparr>k_uuid = u, k_key = key\<rparr>),
     Called n False (Locked \<lparr>bu_key = key, bu_uuid = u, bu_rwStatus = j_rwStatus j, bu_force = j_forceUnlock j,
       bu_readersCount = int_field (cf_readersCount f), bu_fencingToken = int_field (cf_fencingToken f)\<rparr>)]"
proof -
  have "c_out (cleanUp uo d) = c_out d" "c_socket (cleanUp uo d) = c_socket d" for uo d
    by (simp_all add: cleanUp_def Let_def clear_timer_def del_timer_def del_timeout_def del_resolution_def
        split: option.split)
  then show ?thesis
    using assms
    by (simp add: client_onData_def announce_def Let_def deliver_def lock_resolved_def write_frame_def log_event_def
        del_timeout_def)
qed

lemma normalised_lock_granted:
  assumes "checked_frame dbg (LockReq r)" and "get_lock b (l_key r) = None" and "jsmap_wf (locks b)"
    and "writable b ws" and "\<not> lmxClosed b ws"
  obtains b' t rd where
    "onData E (Request (fill_frame c (LockReq r))) ws b = Some b'"
    "last (out b') = Sent ws (LockReply (l_uuid r) (l_key r) True 0 rd (Some t) None)"
    "\<exists>l h. get_lock b' (l_key r) = Some l \<and> map_of (lockholders l) (l_uuid r) = Some h \<and>
       h_fencingToken h = t \<and> h_ws h = ws"
proof -
  define q where "q = r\<lparr>l_max := (if l_max r = Undefined \<or> l_max r = Integer 0 then Null else l_max r),
      l_ttl := (if l_ttl r = TtlInfinity then TtlNull else l_ttl r), l_pid := c_pid c\<rparr>"
  define r' where "r' = q\<lparr>l_ttl := normalise_ttl (l_ttl q)\<rparr>"
  have "fill_frame c (LockReq r) = LockReq q" by (simp add: q_def)
  then have res: "onData E (Request (fill_frame c (LockReq r))) ws b = Some (lock E r' ws b)"
    using assms(5) by (simp add: onData_def r'_def)
  have "l_max r' = Null \<or> positive (l_max r')" "l_maxRead r' = Undefined" "l_maxWrite r' = Undefined"
    using assms(1) by (auto simp: r'_def q_def)
  then have "validateMaxField r' = None"
    by (cases "l_max r'") (auto simp: validateMaxField_def bad_limit_def positive_def)
  moreover have "l_key r' = l_key r" "l_uuid r' = l_uuid r" by (simp_all add: r'_def q_def)
  moreover have "get_lock b (l_key r') = None" using assms(2) by (simp add: r'_def q_def)
  ultimately have g: "granted_to r' ws (js_inc (now b)) (lock E r' ws b)"
    "\<exists>rd. last (out (lock E r' ws b)) = Sent ws (LockReply (l_uuid r) (l_key r) True 0 rd (Some (js_inc (now b))) None)"
    using new_key_granted [of r' b ws E] assms(3,4) by auto
  then show ?thesis
    using that [OF res] by (auto simp: granted_to_def holders_def r'_def q_def split: option.splits)
qed

text \<open>C9: From \<open>lock\<close> to the callback: the frame an accepted request puts on the wire is granted by a
  broker that has no lock object for the key, and the broker's answer calls the caller's callback
  with an unlock function for that key, the uuid the hold is filed under, and the fencing token the
  broker recorded in the hold.\<close>

theorem lock_round_trip:
  assumes "client_reachable v4 own_uuids (new_client ttl lrt urt m keep pid ver) c" and "good_v4 v4"
    and "can_ask c" and "checked_client dbg pid c"
    and "check_lock_opts (c_lockRetryMax c) (opts_of a) = Inr j" and "\<not> truthy_str (o_uuid (opts_of a))"
    and "j_retryCount j < j_maxRetries j"
    and "get_lock b key = None" and "jsmap_wf (locks b)" and "writable b ws" and "\<not> lmxClosed b ws"
  shows "\<exists>q b' rep f l lk h. last (c_out (client_handle v4 (ApiLock key a True) c)) = Wrote q \<and>
    onData E (Request q) ws b = Some b' \<and> last (out b') = Sent ws rep \<and> frame_of rep = Some f \<and>
    last (c_out (client_onData v4 f (client_handle v4 (ApiLock key a True) c))) =
      Called (c_calls c) False (Locked l) \<and>
    get_lock b' key = Some lk \<and> map_of (lockholders lk) (bu_uuid l) = Some h \<and> h_ws h = ws \<and>
    bu_key l = key \<and> bu_fencingToken l = Some (h_fencingToken h)"
proof -
  note ok = reachable_client_ok [OF assms(1,2)]
  note T = tables_okD [OF client_okD(1) [OF ok]]
  define c1 where "c1 = client_handle v4 (ApiLock key a True) c"
  define u where "u = v4 (c_uuids c)"
  define j' where "j' = j\<lparr>j_uuid := Some u\<rparr>"
  define r where "r = lock_frame c key u j'"
  note F = first_attempt [OF assms(3,2,5-7), of key, folded u_def, folded c1_def j'_def, folded r_def]
  have "checked_job dbg j'" using job_is_checked [OF assms(5)] by (simp add: checked_job_def j'_def)
  then have "checked_frame dbg (LockReq r)" using job_frame_checked [OF assms(4)] by (simp add: r_def)
  moreover have key: "l_key r = key" "l_uuid r = u" by (simp_all add: r_def lock_frame_def)
  ultimately obtain b' t rd lk h where B: "onData E (Request (fill_frame c (LockReq r))) ws b = Some b'"
    "last (out b') = Sent ws (LockReply u key True 0 rd (Some t) None)"
    "get_lock b' key = Some lk" "map_of (lockholders lk) u = Some h" "h_fencingToken h = t" "h_ws h = ws"
    using normalised_lock_granted [of dbg r b ws E c] assms(8-11) by metis
  obtain f where f: "frame_of (LockReply u key True 0 rd (Some t) None) = Some f" by simp
  have "c_attempts c \<notin> c_timed_out c1" "u \<notin> c_giveups c1" "c_timeouts c1 = {}" "u \<noteq> []"
    using T(9) F(3,5,6) client_okD(4) [OF ok] fresh_ok(4,6) [OF ok assms(2)] by (auto simp: u_def)
  note D = grant_delivered [OF F(1) this(1-3) F(4) this(4), of f v4]
  obtain l where l: "last (c_out (client_onData v4 f c1)) = Called (c_calls c) False (Locked l)"
    "bu_key l = key" "bu_uuid l = u" "bu_fencingToken l = int_field (cf_fencingToken f)"
    using D f by (auto simp: plain_frame_def)
  have hold: "map_of (lockholders lk) (bu_uuid l) = Some h" "bu_fencingToken l = Some (h_fencingToken h)"
    using l(3,4) f B(4,5) by (auto simp: int_field_def)
  show ?thesis
    unfolding c1_def [symmetric]
    by (rule exI [of _ "fill_frame c (LockReq r)"], rule exI [of _ b'],
        rule exI [of _ "LockReply u key True 0 rd (Some t) None"], rule exI [of _ f], rule exI [of _ l],
        rule exI [of _ lk], rule exI [of _ h]) (intro conjI F(2) B(1-3,6) f l(1,2) hold)
qed

text \<open>A connected client, and a broker with one key held.\<close>

definition connected_client :: client where
  "connected_client = client_run demo_v4 [Connected] demo_constructed"

lemma connected_client_reachable: "client_reachable demo_v4 own_uuids demo_constructed connected_client"
  unfolding connected_client_def by (rule client_run_reachable) simp

lemma connected_client_checked: "checked_client False 1 connected_client"
  by (rule reachable_checked [OF construct_demo connected_client_reachable])

theorem lock_round_trip_witness:
  "\<exists>q b' rep f l lk h.
     last (c_out (client_handle demo_v4 (ApiLock ''j'' ArgNothing True) connected_client)) = Wrote q \<and>
     onData demo (Request q) 1 (after one_held) = Some b' \<and> last (out b') = Sent 1 rep \<and>
     frame_of rep = Some f \<and>
     last (c_out (client_onData demo_v4 f (client_handle demo_v4 (ApiLock ''j'' ArgNothing True) connected_client))) =
       Called (c_calls connected_client) False (Locked l) \<and>
     get_lock b' ''j'' = Some lk \<and> map_of (lockholders lk) (bu_uuid l) = Some h \<and> h_ws h = 1 \<and>
     bu_key l = ''j'' \<and> bu_fencingToken l = Some (h_fencingToken h)"
proof -
  obtain j where j: "check_lock_opts (c_lockRetryMax connected_client) (opts_of ArgNothing) = Inr j"
    "j_retryCount j < j_maxRetries j"
  proof (rule that)
    show "check_lock_opts (c_lockRetryMax connected_client) (opts_of ArgNothing) =
      Inr \<lparr>j_uuid = None, j_max = Undefined, j_ttl = TtlUndefined, j_lockRequestTimeout = None,
        j_maxRetries = 3, j_retryCount = 0, j_wait = None, j_rwStatus = None, j_forceUnlock = False,
        j_keep = False, j_promise = False\<rparr>" by code_simp
  qed simp
  have "can_ask connected_client" "\<not> truthy_str (o_uuid (opts_of ArgNothing))"
    "get_lock (after one_held) ''j'' = None" "jsmap_wf (locks (after one_held))" "writable (after one_held) 1"
    "\<not> lmxClosed (after one_held) 1" by code_simp+
  then show ?thesis
    by (intro lock_round_trip [OF connected_client_reachable [unfolded demo_constructed_def] good_demo_v4
      _ connected_client_checked j(1) _ j(2)])
qed

subsection \<open>Unlocking\<close>

lemma unlock_answered:
  assumes "get_lock b (u_key r) = Some l" and "u__uuid r = Some u" and "is_holder (Some u) l"
    and "lq_length E (notify l) = 0" and "u_uuid r = Some v" and "v \<noteq> []" and "writable b ws"
  shows "\<exists>b'. unlock E r (Some ws) b = Some b' \<and> holders b' (u_key r) = AList.delete u (lockholders l) \<and>
    last (out b') = Sent ws (UnlockReply v (u_key r) 0 True None)"
proof -
  let ?k = "u_key r"
  let ?l = "(remove_holder u l)\<lparr>lockholdersAllReleased := insert u (lockholdersAllReleased l)\<rparr>"
  let ?b = "reply_unlock (Some ws) r (\<lambda>x. UnlockReply x ?k (lq_length E (notify l)) True None)
      (release_own ?k u l (forget_ownership (Some ws) r b))"
  have "get_lock ?b ?k = Some ?l" "lq_length E (notify ?l) = 0" "u \<noteq> []"
    using assms(3,4) by (simp_all add: get_lock_release_own is_holder_def)
  from ensure_no_waiters [OF this] obtain b' where
    b': "ensureNewLockHolder E ?k (Some u) ?b = Some b'" "holders b' ?k = AList.delete u (lockholders ?l)"
    "out b' = out ?b" by blast
  have "writable (release_own ?k u l (forget_ownership (Some ws) r b)) ws"
    using assms(7) by (simp add: release_own_def)
  then have "last (out b') = Sent ws (UnlockReply v ?k 0 True None)"
    using assms(4-6) unfolding b'(3) by (simp add: reply_unlock_def out_send)
  then show ?thesis
    using unlock_own [OF assms(1), of E "Some ws"] assms(2,3) b'(1,2) by (simp add: delete_idem)
qed

text \<open>The request of \<open>unlock\<close>.\<close>

lemma unlock_request:
  fixes key :: string and c :: client and v4 :: "nat \<Rightarrow> string"
  assumes "c_socket c = Usable" and "check_unlock_opts (take_id (unlock_opts_of a)) = None"
  defines "v \<equiv> v4 (c_uuids c)" and "c1 \<equiv> client_handle v4 (ApiUnlock key a True) c"
  shows "map_of (c_resolutions c1) v = Some (UnlockResolution (c_attempts c) v key (Some (c_calls c)))"
    "last (c_out c1) = Wrote (UnlockReq ((unlock_frame key v (take_id (unlock_opts_of a)))\<lparr>u_keep := c_keepLocksAfterDeath c\<rparr>))"
    "c_timed_out c1 = c_timed_out c" "c_timeouts c1 = c_timeouts c" "c_giveups c1 = c_giveups c"
proof -
  have cb: "parseUnlockOpts (case a of UArgCallback f \<Rightarrow> UArgCallback (c_calls c) | _ \<Rightarrow> a) (Some (c_calls c)) =
      (unlock_opts_of a, Some (c_calls c))" by (cases a) (simp_all add: parseUnlockOpts_def)
  show "map_of (c_resolutions c1) v = Some (UnlockResolution (c_attempts c) v key (Some (c_calls c)))"
    "last (c_out c1) = Wrote (UnlockReq ((unlock_frame key v (take_id (unlock_opts_of a)))\<lparr>u_keep := c_keepLocksAfterDeath c\<rparr>))"
    "c_timed_out c1 = c_timed_out c" "c_timeouts c1 = c_timeouts c" "c_giveups c1 = c_giveups c"
    using assms(1,2)
    by (simp_all add: c1_def v_def client_unlock_def Let_def cb new_call_def ask_unlock_def fresh_uuid_of_def
        start_timer_def set_resolution_def write_frame_def log_event_def)
qed

lemma unlock_delivered:
  assumes r: "map_of (c_resolutions c) v = Some (UnlockResolution a v key (Some n))" and a: "a \<notin> c_timed_out c"
    and c: "v \<notin> c_giveups c" "c_timeouts c = {}" and v: "v \<noteq> []"
    and f: "cf_type f = ''unlock''" "cf_uuid f = Some v" "cf_key f = key" "\<not> cf_error f" "\<not> cf_warning f"
      "cf_unlocked f = Some True"
  shows "last (c_out (client_onData v4 f c)) = Called n False (Unlocked v key)"
  using assms
  by (simp add: client_onData_def announce_def Let_def deliver_def unlock_resolved_def log_event_def del_timeout_def
      clear_timer_def call_unlock_def split: option.split)

text \<open>C17: From \<open>unlock\<close> to its callback: when the caller names the uuid of a hold (by itself, by \<open>id\<close> or
  through the function a lock was answered with) on a key nobody waits for, the frame the client
  writes makes the broker remove exactly that hold, and the broker's answer calls the callback with
  success.\<close>

theorem unlock_round_trip:
  assumes "client_reachable v4 own_uuids (new_client ttl lrt urt m keep pid ver) c" and "good_v4 v4"
    and "c_socket c = Usable" and "check_unlock_opts (take_id (unlock_opts_of a)) = None"
    and "uo_uuid (take_id (unlock_opts_of a)) = Some u"
    and "get_lock b key = Some l" and "is_holder (Some u) l" and "lq_length E (notify l) = 0"
    and "writable b ws" and "\<not> lmxClosed b ws"
  shows "\<exists>q b' rep f. last (c_out (client_handle v4 (ApiUnlock key a True) c)) = Wrote q \<and>
    onData E (Request q) ws b = Some b' \<and> holders b' key = AList.delete u (lockholders l) \<and>
    last (out b') = Sent ws rep \<and> frame_of rep = Some f \<and>
    last (c_out (client_onData v4 f (client_handle v4 (ApiUnlock key a True) c))) =
      Called (c_calls c) False (Unlocked (v4 (c_uuids c)) key)"
proof -
  note ok = reachable_client_ok [OF assms(1,2)]
  define c1 where "c1 = client_handle v4 (ApiUnlock key a True) c"
  define v where "v = v4 (c_uuids c)"
  define r where "r = (unlock_frame key v (take_id (unlock_opts_of a)))\<lparr>u_keep := c_keepLocksAfterDeath c\<rparr>"
  note U = unlock_request [OF assms(3,4), of v4 key, folded v_def, folded c1_def, folded r_def]
  have v: "v \<noteq> []" "v \<notin> c_giveups c" using fresh_ok(4,6) [OF ok assms(2)] by (simp_all add: v_def)
  have r: "u_key r = key" "u__uuid r = Some u" "u_uuid r = Some v"
    using assms(5) by (simp_all add: r_def unlock_frame_def)
  have onD: "onData E (Request (UnlockReq r)) ws b = unlock E r (Some ws) b"
    using assms(10) by (simp add: onData_def)
  from unlock_answered [of b r l u E v ws] r assms(6-9) v obtain b' where
    b': "unlock E r (Some ws) b = Some b'" "holders b' key = AList.delete u (lockholders l)"
    "last (out b') = Sent ws (UnlockReply v key 0 True None)" by auto
  obtain f where f: "frame_of (UnlockReply v key 0 True None) = Some f" by simp
  have "c_attempts c \<notin> c_timed_out c1" "v \<notin> c_giveups c1" "c_timeouts c1 = {}"
    using tables_okD(9) [OF client_okD(1) [OF ok]] U(3-5) client_okD(4) [OF ok] v by auto
  from unlock_delivered [OF U(1) this v(1), of f v4] f
  have "last (c_out (client_onData v4 f c1)) = Called (c_calls c) False (Unlocked v key)"
    by (auto simp: plain_frame_def)
  then show ?thesis
    unfolding c1_def [symmetric] v_def [symmetric]
    using U(2) onD b' f by metis
qed

theorem unlock_round_trip_witness:
  "\<exists>q b' rep f. last (c_out (client_handle demo_v4 (ApiUnlock ''k'' (UArgString ''a'') True) connected_client)) = Wrote q \<and>
     onData demo (Request q) 1 (after one_held) = Some b' \<and>
     holders b' ''k'' = AList.delete ''a'' (lockholders (the (get_lock (after one_held) ''k''))) \<and>
     last (out b') = Sent 1 rep \<and> frame_of rep = Some f \<and>
     last (c_out (client_onData demo_v4 f (client_handle demo_v4 (ApiUnlock ''k'' (UArgString ''a'') True) connected_client))) =
       Called (c_calls connected_client) False (Unlocked (demo_v4 (c_uuids connected_client)) ''k'')"
proof -
  define l where "l = the (get_lock (after one_held) ''k'')"
  have "get_lock (after one_held) ''k'' \<noteq> None" by code_simp
  then have l: "get_lock (after one_held) ''k'' = Some l" by (simp add: l_def)
  have "c_socket connected_client = Usable"
    "check_unlock_opts (take_id (unlock_opts_of (UArgString ''a''))) = None"
    "uo_uuid (take_id (unlock_opts_of (UArgString ''a''))) = Some ''a''"
    "writable (after one_held) 1" "\<not> lmxClosed (after one_held) 1" by code_simp+
  moreover have "is_holder (Some ''a'') l" "lq_length demo (notify l) = 0" unfolding l_def by code_simp+
  ultimately show ?thesis
    unfolding l_def [symmetric]
    by (intro unlock_round_trip [OF connected_client_reachable [unfolded demo_constructed_def] good_demo_v4 _ _ _ l])
qed

subsection \<open>Grants that come too late\<close>

lemma late_grant_refused:
  assumes "c_timeouts c = {}" and "map_of (c_resolutions c) u = None" and "u \<notin> c_giveups c"
    and "granted_late f" and "cf_uuid f = Some u" and "u \<noteq> []" and "\<not> cf_error f" and "\<not> cf_warning f"
    and "c_socket c = Usable"
  shows "last (c_out (client_onData v4 f c)) =
    Wrote (LockReceivedRejectedReq \<lparr>k_uuid = u, k_key = cf_key f\<rparr> None)"
  using assms
  by (simp add: client_onData_def announce_def Let_def deliver_def granted_late_def reject_frame_def write_frame_def
      log_event_def del_timeout_def)

lemma rejection_keeps_holders:
  assumes "get_lock b k = Some l" and "lq_length E (notify l) = 0" and "lockholders l \<noteq> []"
  shows "\<exists>b'. lockRejected E \<lparr>k_uuid = u, k_key = k\<rparr> None b = Some b' \<and> holders b' k = lockholders l"
proof -
  let ?b = "set_lock k (l\<lparr>keepLocksAfterDeath := False\<rparr>) (b\<lparr>rejected := insert u (rejected b)\<rparr>)"
  have "lockRejected E \<lparr>k_uuid = u, k_key = k\<rparr> None b = drain E k ?b"
    using assms by (simp add: lockRejected_def ensureNewLockHolder_def Let_def)
  also have "\<dots> = Some ?b" using assms(2) by (subst drain.simps) simp
  finally show ?thesis by (simp add: holders_def)
qed

text \<open>A grant that arrives after the client has stopped waiting for it is refused, but the refusal does
  not name the hold: the client's table of timed-out requests is void in every reachable state, so
  the frame goes out without \<open>_uuid\<close>, and the broker keeps the very holders it had. On a key nobody
  waits for the hold stays until its deadline.\<close>

lemma late_grant_stays_held:
  assumes "client_reachable v4 own_uuids (new_client ttl lrt urt m keep pid ver) c" and "good_v4 v4"
    and "map_of (c_resolutions c) u = None" and "u \<notin> c_giveups c" and "granted_late f"
    and "cf_uuid f = Some u" and "u \<noteq> []" and "\<not> cf_error f" and "\<not> cf_warning f" and "c_socket c = Usable"
    and "get_lock b (cf_key f) = Some l" and "lq_length E (notify l) = 0" and "lockholders l \<noteq> []"
    and "\<not> lmxClosed b ws"
  shows "\<exists>q b'. last (c_out (client_onData v4 f c)) = Wrote q \<and> onData E (Request q) ws b = Some b' \<and>
    holders b' (cf_key f) = lockholders l"
  using late_grant_refused [OF timeouts_always_empty [OF assms(1,2)] assms(3-10), of v4]
    rejection_keeps_holders [OF assms(11-13), of u] assms(14)
  by (auto simp: onData_def)

text \<open>The request of \<open>demo_run\<close> that was granted is granted again, by a broker that holds it.\<close>

definition late_held :: "bevent list" where
  "late_held = join 1 @ [recv 1 (LockReq (ask (demo_v4 0) ''k'' Undefined))]"

lemma late_grant_stays_held_witness:
  "\<exists>q b'. last (c_out (client_onData demo_v4 (grant_frame (demo_v4 0) ''k'') demo_run)) = Wrote q \<and>
     onData demo (Request q) 1 (after late_held) = Some b' \<and>
     holders b' (cf_key (grant_frame (demo_v4 0) ''k'')) = lockholders (the (get_lock (after late_held) ''k''))"
proof -
  define l where "l = the (get_lock (after late_held) ''k'')"
  have "get_lock (after late_held) ''k'' \<noteq> None" by code_simp
  then have l: "get_lock (after late_held) (cf_key (grant_frame (demo_v4 0) ''k'')) = Some l"
    by (simp add: l_def grant_frame_def)
  have "map_of (c_resolutions demo_run) (demo_v4 0) = None" "demo_v4 0 \<notin> c_giveups demo_run"
    "granted_late (grant_frame (demo_v4 0) ''k'')" "cf_uuid (grant_frame (demo_v4 0) ''k'') = Some (demo_v4 0)"
    "demo_v4 0 \<noteq> []" "\<not> cf_error (grant_frame (demo_v4 0) ''k'')" "\<not> cf_warning (grant_frame (demo_v4 0) ''k'')"
    "c_socket demo_run = Usable" "\<not> lmxClosed (after late_held) 1" by code_simp+
  moreover have "lq_length demo (notify l) = 0" "lockholders l \<noteq> []" unfolding l_def by code_simp+
  ultimately show ?thesis
    unfolding l_def [symmetric]
    by (intro late_grant_stays_held [OF demo_run_reachable good_demo_v4 _ _ _ _ _ _ _ _ l])
qed

lemma given_up_frame:
  assumes "u \<in> c_giveups c" and "cf_type f = ''lock''" "cf_uuid f = Some u" "u \<noteq> []" "\<not> cf_error f" "\<not> cf_warning f"
  shows "c_out (client_onData v4 f c) = c_out c"
  using assms
  by (simp add: client_onData_def announce_def Let_def deliver_def del_timeout_def del_resolution_def clear_timer_def
      split: option.split)

lemma cleanUp_frame:
  "c_giveups (cleanUp uo c) = c_giveups c" "c_out (cleanUp uo c) = c_out c"
  by (simp_all add: cleanUp_def Let_def clear_timer_def del_timer_def del_timeout_def del_resolution_def
      split: option.split)

text \<open>A request with \<open>wait: false\<close> that is answered \<open>acquired: false\<close> calls its callback at once, and
  the grant the broker makes for it later is dropped without a word: the client writes neither a
  receipt nor a refusal, so the broker goes on counting the caller as a holder.\<close>

lemma given_up_grant_dropped:
  assumes "client_reachable v4 own_uuids (new_client ttl lrt urt m keep pid ver) c" and "good_v4 v4"
    and "map_of (c_resolutions c) u = Some (LockResolution a u' key j n)" and "j_wait j = Some False"
    and "frame_of (LockReply u key False q rd None None) = Some f"
    and "frame_of (LockReply u key True q' rd' (Some t) None) = Some g"
  shows "Called n False (LockFailed \<lparr>le_key = key, le_id = Some u, le_code = WaitOptionSetToFalse\<rparr>)
      \<in> set (c_out (client_onData v4 f c)) \<and>
    c_out (client_onData v4 g (client_onData v4 f c)) = c_out (client_onData v4 f c)"
proof -
  note ok = reachable_client_ok [OF assms(1,2)]
  note T = tables_okD [OF client_okD(1) [OF ok]]
  have u: "u' = u" using T(6) [OF assms(3)] by simp
  have a: "a \<notin> c_timed_out c" using T(7) [OF assms(3)] by (simp add: armed_for_def u)
  have "u \<in> fst ` set (c_resolutions c)" using assms(3) by (force dest: map_of_SomeD)
  then have "u \<notin> c_giveups c" "u \<in> v4 ` {..<c_uuids c}" using T(12,14) by blast+
  then have g: "u \<notin> c_giveups c" "u \<noteq> []" using assms(2) by (auto simp: good_v4_def)
  have eq: "client_onData v4 f c = fireLockCallbackWithError n False (lock_err key u WaitOptionSetToFalse)
      (c\<lparr>c_giveups := insert u (c_giveups c)\<rparr>)"
    using assms(3-5) g a u T(5)
    by (auto simp: client_onData_def announce_def Let_def deliver_def lock_resolved_def plain_frame_def del_timeout_def)
  have "u \<in> c_giveups (client_onData v4 f c)"
    by (simp add: eq fireLockCallbackWithError_def log_event_def cleanUp_frame)
  from given_up_frame [OF this, of g v4] assms(6) g
  have "c_out (client_onData v4 g (client_onData v4 f c)) = c_out (client_onData v4 f c)"
    by (auto simp: plain_frame_def)
  then show ?thesis
    by (simp add: eq fireLockCallbackWithError_def lock_err_def log_event_def)
qed

definition impatient :: client where
  "impatient = client_run demo_v4
     [Connected, ApiLock ''k'' (ArgOptions (no_opts\<lparr>o_wait := Some False\<rparr>)) True] demo_client"

lemma impatient_reachable:
  "client_reachable demo_v4 own_uuids (new_client (Num 7050) 3000 8000 3 False 1 ''1.2.3'') impatient"
proof -
  have "list_all own_uuids [Connected, ApiLock ''k'' (ArgOptions (no_opts\<lparr>o_wait := Some False\<rparr>)) True]"
    by code_simp
  from client_run_reachable [OF this, of demo_v4 demo_client] show ?thesis
    by (simp only: impatient_def demo_client_def)
qed

lemma given_up_grant_dropped_witness:
  "\<exists>f g. frame_of (LockReply (demo_v4 0) ''k'' False 0 0 None None) = Some f \<and>
     frame_of (LockReply (demo_v4 0) ''k'' True 0 0 (Some 8) None) = Some g \<and>
     Called 0 False (LockFailed \<lparr>le_key = ''k'', le_id = Some (demo_v4 0), le_code = WaitOptionSetToFalse\<rparr>)
       \<in> set (c_out (client_onData demo_v4 f impatient)) \<and>
     c_out (client_onData demo_v4 g (client_onData demo_v4 f impatient)) = c_out (client_onData demo_v4 f impatient)"
proof -
  obtain a u' j where r: "map_of (c_resolutions impatient) (demo_v4 0) = Some (LockResolution a u' ''k'' j 0)"
    "j_wait j = Some False"
  proof (rule that)
    show "map_of (c_resolutions impatient) (demo_v4 0) = Some (LockResolution 0 (demo_v4 0) ''k''
      \<lparr>j_uuid = Some (demo_v4 0), j_max = Undefined, j_ttl = TtlUndefined, j_lockRequestTimeout = None,
       j_maxRetries = 3, j_retryCount = 0, j_wait = Some False, j_rwStatus = None, j_forceUnlock = False,
       j_keep = False, j_promise = False\<rparr> 0)" by code_simp
  qed simp
  obtain f where f: "frame_of (LockReply (demo_v4 0) ''k'' False 0 0 None None) = Some f" by simp
  obtain g where g: "frame_of (LockReply (demo_v4 0) ''k'' True 0 0 (Some 8) None) = Some g" by simp
  show ?thesis
    using given_up_grant_dropped [OF impatient_reachable good_demo_v4 r f g] f g by blast
qed

subsection \<open>Requests that never leave\<close>

lemma retry_option_none_left: "max_retries d o' = Inr n \<Longrightarrow> o_retry o' \<noteq> None \<Longrightarrow> n = 0"
  by (auto simp: max_retries_def take_retries_def split: sum.splits option.splits if_splits)

text \<open>With the option \<open>retry\<close>, whatever its value, a lock request is never sent: the option sets the
  number of attempts to 0, and the caller is told that the maximum of retries has been reached.\<close>

lemma retry_option_never_sends:
  assumes "can_ask c" and "o_retry (opts_of a) = Some v" and "0 \<le> o_retryCount (opts_of a)"
    and "check_lock_opts (c_lockRetryMax c) (opts_of a) = Inr j"
  shows "\<exists>u next. c_out (client_handle v4 (ApiLock key a True) c) = c_out c @
    [Asked (c_calls c), CWarn CallbackError,
     Called (c_calls c) next (LockFailed \<lparr>le_key = key, le_id = Some u, le_code = MaxRetries\<rparr>)]"
proof -
  have "j_maxRetries j = 0"
    using retry_option_none_left [OF accepted_lock_opts(4) [OF assms(4)]] assms(2) by simp
  moreover have "j_retryCount j = o_retryCount (opts_of a)"
    using assms(4) by (auto simp: check_lock_opts_def split: if_splits sum.splits)
  ultimately have none: "j_maxRetries j \<le> j_retryCount j" using assms(3) by simp
  have cb: "parseLockOpts (case a of ArgCallback f \<Rightarrow> ArgCallback (c_calls c) | _ \<Rightarrow> a) (Some (c_calls c)) =
      Inr (opts_of a, c_calls c)" by (cases a) (simp_all add: parseLockOpts_def)
  show ?thesis
    using assms(1,4) none cb
    by (auto simp: client_lock_def new_call_def lockInternal_def fresh_uuid_of_def log_event_def can_ask_def
        attempt_def lock_gate_def fireLockCallbackWithError_def cleanUp_frame)
qed

lemma retry_option_never_sends_witness:
  "\<exists>u next. c_out (client_handle demo_v4 (ApiLock ''k'' (ArgOptions (no_opts\<lparr>o_retry := Some (Boolean True)\<rparr>)) True)
     connected_client) = c_out connected_client @ [Asked (c_calls connected_client), CWarn CallbackError,
     Called (c_calls connected_client) next (LockFailed \<lparr>le_key = ''k'', le_id = Some u, le_code = MaxRetries\<rparr>)]"
proof (rule retry_option_never_sends)
  show "can_ask connected_client" by code_simp
  show "check_lock_opts (c_lockRetryMax connected_client)
      (opts_of (ArgOptions (no_opts\<lparr>o_retry := Some (Boolean True)\<rparr>))) =
    Inr \<lparr>j_uuid = None, j_max = Undefined, j_ttl = TtlUndefined, j_lockRequestTimeout = None,
      j_maxRetries = 0, j_retryCount = 0, j_wait = None, j_rwStatus = None, j_forceUnlock = False,
      j_keep = False, j_promise = False\<rparr>" by code_simp
qed (simp_all add: no_opts_def)

end
