(* ===== verification/Semaphore.thy ===== *)
theory Semaphore
  imports Safety
begin

text \<open>
  What one key of the broker is for its clients: a semaphore of \<open>m\<close> permits whose grants are
  numbered. The specification has four moves; every event the broker handles, its shutdown apart, is
  a sequence of them.
\<close>

subsection \<open>The specification\<close>

datatype semaphore = Absent | Present "(string \<times> int) set" int

inductive sem_step :: "nat \<Rightarrow> semaphore \<Rightarrow> semaphore \<Rightarrow> bool" for m where
  sem_open: "sem_step m Absent (Present {} t)"
| sem_grant: "card H < m \<Longrightarrow>
    sem_step m (Present H t) (Present (insert (u, js_inc t) {p \<in> H. fst p \<noteq> u}) (js_inc t))"
| sem_release: "H' \<subseteq> H \<Longrightarrow> sem_step m (Present H t) (Present H' t)"
| sem_collect: "sem_step m (Present {} t) Absent"

inductive_cases sem_step_PresentE: "sem_step m (Present H t) s"

text \<open>The semaphore of a key: who holds it under which token, and the counter.\<close>

definition permits :: "'q lock_obj \<Rightarrow> (string \<times> int) set" where
  "permits l = (\<lambda>(u, h). (u, h_fencingToken h)) ` set (lockholders l)"

definition semaphore_of :: "string \<Rightarrow> 'q broker \<Rightarrow> semaphore" where
  "semaphore_of k b =
     (case get_lock b k of None \<Rightarrow> Absent | Some l \<Rightarrow> Present (permits l) (nextFencingToken l))"

lemma semaphore_same: "locks b' = locks b \<Longrightarrow> semaphore_of k b' = semaphore_of k b"
  by (simp add: semaphore_of_def)

lemma permits_weaker: "weaker l l' \<Longrightarrow> permits l' \<subseteq> permits l \<and> nextFencingToken l' = nextFencingToken l"
  by (auto simp: permits_def weaker_def)

lemma card_permits: "card (permits l) \<le> length (lockholders l)"
  unfolding permits_def by (rule le_trans [OF card_image_le card_length]) simp

subsection \<open>The simulation\<close>

definition sem_inv :: "semaphore \<Rightarrow> string \<Rightarrow> nat \<Rightarrow> 'q broker \<Rightarrow> bool" where
  "sem_inv s k m b \<longleftrightarrow> (sem_step m)\<^sup>*\<^sup>* s (semaphore_of k b) \<and> cap_inv k m b \<and> fence_inv b"

lemma sem_invI:
  "sem_inv s k m b \<Longrightarrow> (sem_step m)\<^sup>*\<^sup>* (semaphore_of k b) (semaphore_of k b') \<Longrightarrow> cap_inv k m b' \<Longrightarrow>
   fence_inv b' \<Longrightarrow> sem_inv s k m b'"
  by (auto simp: sem_inv_def)

lemma sem_weaken:
  assumes "get_lock b k' = Some l" "weaker l l'"
  shows "(sem_step m)\<^sup>*\<^sup>* (semaphore_of k b) (semaphore_of k (set_lock k' l' b))"
proof (cases "k' = k")
  case True
  have "sem_step m (Present (permits l) (nextFencingToken l)) (Present (permits l') (nextFencingToken l))"
    using permits_weaker [OF assms(2)] by (intro sem_release) simp
  then show ?thesis using True assms permits_weaker [OF assms(2)] by (auto simp: semaphore_of_def)
qed (simp add: semaphore_of_def)

lemma sem_install:
  assumes inv: "cap_inv k m b" "fence_inv b" and l0: "get_lock b k' = Some l0" and w: "weaker l0 l"
    and room: "k' = k \<longrightarrow> length (lockholders l0) < max_capacity l0"
  shows "(sem_step m)\<^sup>*\<^sup>* (semaphore_of k b) (semaphore_of k (snd (install_holder k' u ws pid cid e l b)))"
proof (cases "k' = k")
  case True
  let ?t = "js_inc (nextFencingToken l)"
  have l0': "lock_within m l0" using cap_get inv(1) l0 True by blast
  have "1 \<le> m" using inv(1) by (simp add: cap_inv_def)
  have "card (permits l) \<le> length (lockholders l)" by (rule card_permits)
  also have "\<dots> \<le> length (lockholders l0)" using w by (simp add: weaker_def)
  also have "\<dots> < max_capacity l0" using room True by simp
  also have "\<dots> \<le> m" using max_capacity_within [OF l0' \<open>1 \<le> m\<close>] .
  finally have step: "sem_step m (Present (permits l) (nextFencingToken l))
      (Present (insert (u, ?t) {p \<in> permits l. fst p \<noteq> u}) ?t)" by (rule sem_grant)
  have wf: "jsmap_wf (lockholders l)"
    using lock_ok_weaker [OF fence_lock_ok [OF inv(2) l0] w] by (simp add: lock_ok_def)
  have new: "permits (l\<lparr>nextFencingToken := t, lockholders := AList.update u h (lockholders l)\<rparr>) =
      insert (u, h_fencingToken h) {p \<in> permits l. fst p \<noteq> u}" for t h
    by (auto simp: permits_def set_update_wf [OF wf])
  have "sem_step m (semaphore_of k b) (Present (permits l) (nextFencingToken l))"
    using permits_weaker [OF w] l0 True by (auto simp: semaphore_of_def intro!: sem_release)
  moreover have "semaphore_of k (snd (install_holder k' u ws pid cid e l b)) =
      Present (insert (u, ?t) {p \<in> permits l. fst p \<noteq> u}) ?t"
    using True by (simp add: install_holder_def Let_def semaphore_of_def new)
  ultimately show ?thesis using step by (simp add: converse_rtranclp_into_rtranclp)
qed (simp add: install_holder_def Let_def semaphore_of_def)

lemma sem_create:
  assumes "get_lock b k' = None"
  shows "(sem_step m)\<^sup>*\<^sup>* (semaphore_of k b) (semaphore_of k (create_lock E k' keep mx mr mw b))"
  using assms by (auto simp: semaphore_of_def create_lock_def permits_def getDefaultLockObject_def intro: sem_open)

lemma sem_limits:
  assumes "get_lock b k' = Some l"
  shows "semaphore_of k (set_lock k' (update_limits r l) b) = semaphore_of k b"
  using assms by (simp add: semaphore_of_def permits_def)

lemma sem_collecting:
  assumes "cap_inv k m b" "fence_inv b"
  shows "(sem_step m)\<^sup>*\<^sup>* (semaphore_of k b) (semaphore_of k (cleanUpLocks E b))"
proof (cases "get_lock b k")
  case None
  then have "get_lock (cleanUpLocks E b) k = None"
    by (auto simp: cleanUpLocks_def map_of_eq_None_iff)
  then show ?thesis using None by (simp add: semaphore_of_def)
next
  case (Some l)
  have "get_lock (cleanUpLocks E b) k = (if stale_lock E (now b) l then None else Some l)"
    using Some fenceD(1) [OF assms(2)] by (simp add: cleanUpLocks_def map_of_filter_wf)
  moreover have "lockholders l = []" if "stale_lock E (now b) l"
    using that by (simp add: stale_lock_def split: option.splits)
  ultimately show ?thesis
    using Some by (auto simp: semaphore_of_def permits_def intro: sem_collect)
qed

lemma sem_objects:
  assumes "\<And>l. weaker l (f l)"
  shows "(sem_step m)\<^sup>*\<^sup>* (semaphore_of k b) (semaphore_of k (update_object i f b))"
proof -
  have "get_lock (update_object i f b) k = map_option (\<lambda>l. if lo_id l = i then f l else l) (get_lock b k)"
    by (simp add: update_object_def map_of_map)
  then show ?thesis
    using permits_weaker [OF assms] by (cases "get_lock b k") (auto simp: semaphore_of_def intro!: sem_release)
qed

text \<open>Every handler other than the shutdown is a sequence of moves of the specification.\<close>

interpretation semaphore: broker_invariant E "sem_inv s k m"
    "within k m" False "\<lambda>k' l. k' = k \<longrightarrow> length (lockholders l) < max_capacity l" for E s k m
proof unfold_locales
  show "sem_inv s k m b'" if "sem_inv s k m b" "same_grants b b'" for b b'
    using that capacity.same fence.same by (auto simp: sem_inv_def semaphore_same [OF locks_same])
  show "sem_inv s k m (set_lock k' l' b)"
    if "sem_inv s k m b" "get_lock b k' = Some l" "weaker l l'" for b k' l l'
    by (rule sem_invI [OF that(1) sem_weaken [OF that(2,3)]])
      (use that capacity.weaken fence.weaken in \<open>auto simp: sem_inv_def\<close>)
  show "sem_inv s k m (create_lock E k' keep (Some 1) None None b)"
    if "sem_inv s k m b" "get_lock b k' = None" for b k' keep
    by (rule sem_invI [OF that(1) sem_create [OF that(2)]])
      (use that capacity.create fence.create in \<open>auto simp: sem_inv_def\<close>)
  show "sem_inv s k m (create_lock E (l_key r) (l_keep r)
            (if is_integer (l_max r) then Some (limit (l_max r)) else None)
            (if beginRead r then Some (case requested_limit (l_maxRead r) (l_max r) of
               None \<Rightarrow> 10 | Some m \<Rightarrow> m) else None)
            (if beginWrite r then Some (case requested_limit (l_maxWrite r) (l_max r) of
               None \<Rightarrow> 1 | Some m \<Rightarrow> m) else None) b)"
    if "sem_inv s k m b" "within k m r" "validateMaxField r = None" "get_lock b (l_key r) = None" for b r
    by (rule sem_invI [OF that(1) sem_create [OF that(4)]];
        rule capacity.create_req fence.create_req; use that in \<open>simp add: sem_inv_def\<close>)
  show "sem_inv s k m (set_lock (l_key r) (update_limits r l) b)"
    if "sem_inv s k m b" "within k m r" "validateMaxField r = None" "get_lock b (l_key r) = Some l" for b r l
    by (rule sem_invI [OF that(1)])
      (use that capacity.limits fence.limits sem_limits [OF that(4)] in \<open>auto simp: sem_inv_def\<close>)
  show "sem_inv s k m (snd (install_holder k' u ws pid cid e l b))"
    if "sem_inv s k m b" "get_lock b k' = Some l0" "weaker l0 l"
      "k' = k \<longrightarrow> length (lockholders l0) < max_capacity l0" for b k' l0 l u ws pid cid e
  proof (rule sem_invI [OF that(1) sem_install [OF _ _ that(2-4)]])
    have "cap_inv k m b" "fence_inv b" using that(1) by (simp_all add: sem_inv_def)
    with capacity.install [OF _ that(2-4)] fence.install [OF _ that(2,3)]
    show "cap_inv k m b" "fence_inv b" "cap_inv k m (snd (install_holder k' u ws pid cid e l b))"
      "fence_inv (snd (install_holder k' u ws pid cid e l b))" by simp_all
  qed
  show "sem_inv s k m (emit (Sent ws (LockReply u k' True n rd (Some tok) err)) b)"
    if "sem_inv s k m b" "Minted k' i tok \<in> set (out b)" for b ws u k' n rd tok err i
  proof -
    have "cap_inv k m b" "fence_inv b" using that(1) by (simp_all add: sem_inv_def)
    from capacity.answer [OF this(1) that(2)] fence.answer [OF this(2) that(2)] that(1) show ?thesis
      by (simp add: sem_inv_def semaphore_same [OF locks_emit])
  qed
  show "sem_inv s k m (cleanUpLocks E b)" if "sem_inv s k m b" for b
    by (rule sem_invI [OF that sem_collecting])
      (use that capacity.collect fence.collect in \<open>auto simp: sem_inv_def\<close>)
  show "sem_inv s k m (update_object i f b)" if "sem_inv s k m b" "\<And>l. weaker l (f l)" for b i f
    by (rule sem_invI [OF that(1) sem_objects [OF that(2)]];
        rule capacity.objects fence.objects; use that in \<open>simp add: sem_inv_def\<close>)
qed (auto simp: capacity.guard_read capacity.ok_ttl)

text \<open>C2: The broker implements, for each key, a semaphore with numbered grants: as long as the requests for
  the key are not \<open>BeginRead\<close>s and ask for at most \<open>m\<close> concurrent holders, every event it handles, its
  shutdown apart, changes the holders and the counter of the key by a sequence of moves of the
  specification: create it, grant one permit below \<open>m\<close> under the next number, release permits, or
  forget the idle semaphore.\<close>

theorem broker_refines_semaphore:
  assumes "reachable E (disciplined (within k m)) (init_broker x t) b" and "1 \<le> m"
    and "handle E ev b = Some b'" and "disciplined (within k m) ev" and "ev \<noteq> Close"
  shows "(sem_step m)\<^sup>*\<^sup>* (semaphore_of k b) (semaphore_of k b')"
proof -
  have "reachable E (\<lambda>ev. True) (init_broker x t) b"
    using assms(1) by (induction rule: reachable.induct) (auto intro: reachable.intros)
  then have "sem_inv (semaphore_of k b) k m b"
    using reachable_cap_inv [OF assms(1,2)] by (simp add: sem_inv_def reachable_fence_inv)
  from semaphore.P_step [OF assms(3,4) this] assms(5) show ?thesis by (simp add: sem_inv_def)
qed

theorem broker_refines_semaphore_witness:
  "\<exists>b'. handle demo (recv 2 (UnlockReq (give ''b'' ''k''))) (after two_grants) = Some b' \<and>
     (sem_step 1)\<^sup>*\<^sup>* (semaphore_of ''k'' (after two_grants)) (semaphore_of ''k'' b') \<and>
     semaphore_of ''k'' (after two_grants) = Present {(''b'', 1002)} 1002"
proof -
  have "list_all (disciplined (within ''k'' 1)) two_grants"
    by (simp add: two_grants_def join_def recv_def ask_def within_def beginRead_def)
  with two_grants_run have r:
    "reachable demo (disciplined (within ''k'' 1)) (init_broker 4000 1000) (after two_grants)"
    by (rule after_reachable)
  have "handle demo (recv 2 (UnlockReq (give ''b'' ''k''))) (after two_grants) \<noteq> None" by code_simp
  then obtain b' where b': "handle demo (recv 2 (UnlockReq (give ''b'' ''k''))) (after two_grants) = Some b'" by blast
  have "semaphore_of ''k'' (after two_grants) = Present {(''b'', 1002)} 1002" by code_simp
  moreover have "(sem_step 1)\<^sup>*\<^sup>* (semaphore_of ''k'' (after two_grants)) (semaphore_of ''k'' b')"
    by (rule broker_refines_semaphore [OF r _ b']) (simp_all add: recv_def)
  ultimately show ?thesis using b' by blast
qed

end
