(* ===== verification/VirtualSocket.thy ===== *)
theory VirtualSocket
  imports Versions "HOL-Library.Sublist"
begin

text \<open>
  The virtual socket of the in-process bridge (\<open>src/src/in-process-bridge.ts\<close>): a stand-in for
  \<open>net.Socket\<close> whose callbacks all run on a later tick. The queue of \<open>process.nextTick\<close> is part of the
  state; \<open>vs_next\<close> runs its first entry. Text is the list of its UTF-8 bytes, \<open>parse\<close> is \<open>JSON.parse\<close> on a
  line, and callbacks are numbers. Addresses, \<open>bytesRead\<close> and the tuning methods that do nothing are left out.
\<close>

subsection \<open>State\<close>

datatype socket_data = Text string | Octets string | OtherData

datatype write_error = StreamDestroyed | UnsupportedData

datatype 'f tick =
    DeliverFrame 'f
  | CallWriteCb nat "write_error option"
  | CallEndCb nat
  | Finalize "nat option"
  | FinalizeSoon "nat option"              \<comment> \<open>the write callback that schedules \<open>finalize\<close>\<close>
  | FinishClose "nat option"
  | DestroyTick bool

datatype 'f socket_event =
    FrameOut 'f
  | WriteCb nat "write_error option"
  | EndCb nat
  | EmitFinish
  | EmitEnd
  | EmitClose bool
  | EmitError

record 'f vsocket =
  vs_writable :: bool
  vs_readable :: bool
  vs_destroyed :: bool
  vs_lmxClosed :: bool
  vs_finishEmitted :: bool
  vs_endEmitted :: bool
  vs_closeEmitted :: bool
  vs_bytesWritten :: nat
  vs_timeout :: int
  vs_ticks :: "'f tick list"
  vs_log :: "'f socket_event list"

definition new_vsocket :: "'f vsocket" where
  "new_vsocket = \<lparr>vs_writable = True, vs_readable = True, vs_destroyed = False, vs_lmxClosed = False,
     vs_finishEmitted = False, vs_endEmitted = False, vs_closeEmitted = False, vs_bytesWritten = 0,
     vs_timeout = 0, vs_ticks = [], vs_log = []\<rparr>"

datatype ready_state = Open | ReadOnly | WriteOnly | Closed

definition readyState :: "'f vsocket \<Rightarrow> ready_state" where
  "readyState s =
     (if vs_destroyed s then Closed
      else if vs_writable s \<and> vs_readable s then Open
      else if vs_writable s then WriteOnly
      else if vs_readable s then ReadOnly
      else Closed)"

definition next_tick :: "'f tick list \<Rightarrow> 'f vsocket \<Rightarrow> 'f vsocket" where
  "next_tick ts s = s\<lparr>vs_ticks := vs_ticks s @ ts\<rparr>"

definition vs_emit :: "'f socket_event list \<Rightarrow> 'f vsocket \<Rightarrow> 'f vsocket" where
  "vs_emit es s = s\<lparr>vs_log := vs_log s @ es\<rparr>"

subsection \<open>Operations\<close>

definition chunk_frames :: "(string \<Rightarrow> 'f option) \<Rightarrow> string \<Rightarrow> 'f list" where
  "chunk_frames parse text = List.map_filter parse (filter (\<lambda>l. l \<noteq> []) (split_on (CHR 0x0A) text))"

text \<open>\<open>write\<close>: what is called back on a later tick is \<open>on_done\<close> of the outcome.\<close>

definition vs_write ::
  "(string \<Rightarrow> 'f option) \<Rightarrow> socket_data \<Rightarrow> (write_error option \<Rightarrow> 'f tick list) \<Rightarrow> 'f vsocket \<Rightarrow> bool \<times> 'f vsocket" where
  "vs_write parse d on_done s =
     (let accept = (\<lambda>text. (True, next_tick (map DeliverFrame (chunk_frames parse text) @ on_done None)
                               (s\<lparr>vs_bytesWritten := vs_bytesWritten s + length text\<rparr>)))
      in if vs_destroyed s \<or> \<not> vs_writable s then (False, next_tick (on_done (Some StreamDestroyed)) s)
         else (case d of
                 Text t \<Rightarrow> accept t
               | Octets t \<Rightarrow> accept t
               | OtherData \<Rightarrow> (False, next_tick (on_done (Some UnsupportedData)) s)))"

definition write_callback :: "nat option \<Rightarrow> write_error option \<Rightarrow> 'f tick list" where
  "write_callback cb e = (case cb of None \<Rightarrow> [] | Some n \<Rightarrow> [CallWriteCb n e])"

text \<open>\<open>end\<close>: the trailing payload goes through \<open>write\<close>.\<close>

definition vs_end :: "(string \<Rightarrow> 'f option) \<Rightarrow> socket_data option \<Rightarrow> nat option \<Rightarrow> 'f vsocket \<Rightarrow> 'f vsocket" where
  "vs_end parse payload cb s =
     (if vs_destroyed s then next_tick (case cb of None \<Rightarrow> [] | Some n \<Rightarrow> [CallEndCb n]) s
      else (case payload of
              None \<Rightarrow> next_tick [Finalize cb] s
            | Some d \<Rightarrow> snd (vs_write parse d (\<lambda>_. [FinalizeSoon cb]) s)))"

definition finalize :: "nat option \<Rightarrow> 'f vsocket \<Rightarrow> 'f vsocket" where
  "finalize cb s =
     (if \<not> vs_writable s then s
      else next_tick [FinishClose cb]
             (vs_emit ((if vs_finishEmitted s then [] else [EmitFinish]) @ (if vs_endEmitted s then [] else [EmitEnd]))
               (s\<lparr>vs_writable := False, vs_finishEmitted := True, vs_endEmitted := True\<rparr>)))"

definition emit_close :: "bool \<Rightarrow> 'f vsocket \<Rightarrow> 'f vsocket" where
  "emit_close hadError s =
     (if vs_closeEmitted s then s else vs_emit [EmitClose hadError] (s\<lparr>vs_closeEmitted := True\<rparr>))"

definition finish_close :: "nat option \<Rightarrow> 'f vsocket \<Rightarrow> 'f vsocket" where
  "finish_close cb s =
     vs_emit (case cb of None \<Rightarrow> [] | Some n \<Rightarrow> [EndCb n])
       (emit_close False (s\<lparr>vs_readable := False, vs_destroyed := True, vs_lmxClosed := True\<rparr>))"

definition vs_destroy :: "bool \<Rightarrow> 'f vsocket \<Rightarrow> 'f vsocket" where
  "vs_destroy err s =
     (if vs_destroyed s then s
      else next_tick [DestroyTick err]
             (s\<lparr>vs_writable := False, vs_readable := False, vs_destroyed := True, vs_lmxClosed := True\<rparr>))"

fun run_tick :: "'f tick \<Rightarrow> 'f vsocket \<Rightarrow> 'f vsocket" where
  "run_tick (DeliverFrame f) s = (if vs_destroyed s then s else vs_emit [FrameOut f] s)"
| "run_tick (CallWriteCb n e) s = vs_emit [WriteCb n e] s"
| "run_tick (CallEndCb n) s = vs_emit [EndCb n] s"
| "run_tick (Finalize cb) s = finalize cb s"
| "run_tick (FinalizeSoon cb) s = next_tick [Finalize cb] s"
| "run_tick (FinishClose cb) s = finish_close cb s"
| "run_tick (DestroyTick err) s = emit_close err (vs_emit (if err then [EmitError] else []) s)"

definition vs_next :: "'f vsocket \<Rightarrow> 'f vsocket" where
  "vs_next s = (case vs_ticks s of [] \<Rightarrow> s | t # ts \<Rightarrow> run_tick t (s\<lparr>vs_ticks := ts\<rparr>))"

definition vs_setTimeout :: "int \<Rightarrow> 'f vsocket \<Rightarrow> 'f vsocket" where
  "vs_setTimeout t s = s\<lparr>vs_timeout := t\<rparr>"

datatype socket_op =
    OpWrite socket_data "nat option" | OpEnd "socket_data option" "nat option" | OpDestroy bool | OpTick | OpTimeout int

fun vs_op :: "(string \<Rightarrow> 'f option) \<Rightarrow> socket_op \<Rightarrow> 'f vsocket \<Rightarrow> 'f vsocket" where
  "vs_op parse (OpWrite d cb) s = snd (vs_write parse d (write_callback cb) s)"
| "vs_op parse (OpEnd d cb) s = vs_end parse d cb s"
| "vs_op parse (OpDestroy err) s = vs_destroy err s"
| "vs_op parse OpTick s = vs_next s"
| "vs_op parse (OpTimeout t) s = vs_setTimeout t s"

definition vs_run :: "(string \<Rightarrow> 'f option) \<Rightarrow> socket_op list \<Rightarrow> 'f vsocket \<Rightarrow> 'f vsocket" where
  "vs_run parse ops s = fold (vs_op parse) ops s"

subsection \<open>The life of a socket\<close>

fun lifecycle :: "'f socket_event \<Rightarrow> bool" where
  "lifecycle EmitFinish = True"
| "lifecycle EmitEnd = True"
| "lifecycle (EmitClose e) = True"
| "lifecycle _ = False"

fun is_close :: "'f socket_event \<Rightarrow> bool" where
  "is_close (EmitClose e) = True"
| "is_close _ = False"

fun frames_out :: "'f socket_event list \<Rightarrow> 'f list" where
  "frames_out [] = []"
| "frames_out (FrameOut f # es) = f # frames_out es"
| "frames_out (e # es) = frames_out es"

fun frames_queued :: "'f tick list \<Rightarrow> 'f list" where
  "frames_queued [] = []"
| "frames_queued (DeliverFrame f # ts) = f # frames_queued ts"
| "frames_queued (t # ts) = frames_queued ts"

lemma frames_append [simp]:
  "frames_out (es @ es') = frames_out es @ frames_out es'"
  "frames_queued (ts @ ts') = frames_queued ts @ frames_queued ts'"
  by (induction es rule: frames_out.induct; simp) (induction ts rule: frames_queued.induct; simp)

lemma frames_queued_deliver [simp]: "frames_queued (map DeliverFrame fs) = fs"
  by (induction fs) simp_all

text \<open>The frames of the writes the socket accepted, in order.\<close>

fun data_frames :: "(string \<Rightarrow> 'f option) \<Rightarrow> socket_data \<Rightarrow> 'f list" where
  "data_frames parse (Text t) = chunk_frames parse t"
| "data_frames parse (Octets t) = chunk_frames parse t"
| "data_frames parse OtherData = []"

definition op_frames :: "(string \<Rightarrow> 'f option) \<Rightarrow> socket_op \<Rightarrow> 'f vsocket \<Rightarrow> 'f list" where
  "op_frames parse p s =
     (if vs_destroyed s \<or> \<not> vs_writable s then []
      else (case p of
              OpWrite d cb \<Rightarrow> data_frames parse d
            | OpEnd (Some d) cb \<Rightarrow> data_frames parse d
            | _ \<Rightarrow> []))"

fun accepted :: "(string \<Rightarrow> 'f option) \<Rightarrow> socket_op list \<Rightarrow> 'f vsocket \<Rightarrow> 'f list" where
  "accepted parse [] s = []"
| "accepted parse (p # ps) s = op_frames parse p s @ accepted parse ps (vs_op parse p s)"

text \<open>\<open>finish\<close> and \<open>end\<close> together and first, then \<open>close\<close>, each at most once.\<close>

definition staged :: "bool \<Rightarrow> bool \<Rightarrow> 'f socket_event list \<Rightarrow> bool" where
  "staged fin clo es \<longleftrightarrow>
     (\<exists>e. filter lifecycle es = (if fin then [EmitFinish, EmitEnd] else []) @ (if clo then [EmitClose e] else []))"

lemma staged_append: "filter lifecycle es' = [] \<Longrightarrow> staged fin clo (es @ es') = staged fin clo es"
  by (simp add: staged_def)

lemma staged_finish: "staged False False es \<Longrightarrow> staged True False (es @ [EmitFinish, EmitEnd])"
  by (simp add: staged_def)

lemma staged_close: "staged fin False es \<Longrightarrow> staged fin True (es @ [EmitClose e])"
  by (auto simp: staged_def)

lemma staged_open:
  assumes "staged fin False es"
  shows "\<forall>e \<in> set es. \<not> is_close e"
proof
  fix e assume "e \<in> set es"
  then have "lifecycle e \<Longrightarrow> e \<in> {EmitFinish, EmitEnd}"
    using assms by (force simp: staged_def split: if_splits dest: arg_cong [of _ _ set])
  then show "\<not> is_close e" by (cases e) auto
qed

definition socket_ok :: "'f list \<Rightarrow> 'f vsocket \<Rightarrow> bool" where
  "socket_ok fs s \<longleftrightarrow>
     vs_endEmitted s = vs_finishEmitted s \<and> (vs_finishEmitted s \<longrightarrow> \<not> vs_writable s) \<and>
     (vs_destroyed s \<longrightarrow> \<not> vs_writable s) \<and> (vs_closeEmitted s \<longrightarrow> vs_destroyed s) \<and>
     staged (vs_finishEmitted s) (vs_closeEmitted s) (vs_log s) \<and>
     frames_out (dropWhile (\<lambda>e. \<not> is_close e) (vs_log s)) = [] \<and>
     (if vs_destroyed s then prefix (frames_out (vs_log s)) fs
      else frames_out (vs_log s) @ frames_queued (vs_ticks s) = fs)"

lemma after_close_append:
  assumes "frames_out (dropWhile P es) = []" and "frames_out es' = []"
  shows "frames_out (dropWhile P (es @ es')) = []"
proof (cases "\<exists>x \<in> set es. \<not> P x")
  case True
  then show ?thesis using assms by (auto simp: dropWhile_append1)
next
  case False
  then have "dropWhile P (es @ es') = dropWhile P es'" by (simp add: dropWhile_append2)
  moreover have "frames_out (dropWhile P xs) = []" if "frames_out xs = []" for xs :: "'a socket_event list"
    using that by (induction xs rule: frames_out.induct) simp_all
  ultimately show ?thesis using assms(2) by simp
qed

lemma ticks_ok: "socket_ok fs s \<Longrightarrow> frames_queued ts = [] \<Longrightarrow> socket_ok fs (next_tick ts s)"
  by (simp add: socket_ok_def next_tick_def)

lemma frames_delivered_ok:
  "socket_ok fs s \<Longrightarrow> \<not> vs_destroyed s \<Longrightarrow> frames_queued ts = [] \<Longrightarrow>
   socket_ok (fs @ gs) (next_tick (map DeliverFrame gs @ ts) s)"
  by (auto simp: socket_ok_def next_tick_def)

lemma emit_ok:
  assumes "socket_ok fs s" and "filter lifecycle es = []" and "frames_out es = []"
  shows "socket_ok fs (vs_emit es s)"
  using assms after_close_append [of "\<lambda>e. \<not> is_close e" "vs_log s" es]
  by (simp add: socket_ok_def vs_emit_def staged_append split: if_splits)

lemma counters_ok:
  "socket_ok fs s \<Longrightarrow> socket_ok fs (s\<lparr>vs_bytesWritten := n\<rparr>)" "socket_ok fs s \<Longrightarrow> socket_ok fs (s\<lparr>vs_timeout := t\<rparr>)"
  by (simp_all add: socket_ok_def)

lemma tick_taken_ok:
  "socket_ok fs s \<Longrightarrow> vs_ticks s = t # ts \<Longrightarrow> frames_queued [t] = [] \<Longrightarrow> socket_ok fs (s\<lparr>vs_ticks := ts\<rparr>)"
  by (cases t) (auto simp: socket_ok_def split: if_splits)

lemma destroyed_ok:
  assumes "socket_ok fs s"
  shows "socket_ok fs (s\<lparr>vs_writable := False, vs_readable := False, vs_destroyed := True, vs_lmxClosed := True\<rparr>)"
    "\<not> vs_writable s \<Longrightarrow> socket_ok fs (s\<lparr>vs_readable := False, vs_destroyed := True, vs_lmxClosed := True\<rparr>)"
proof -
  have "prefix (frames_out (vs_log s)) fs" using assms by (auto simp: socket_ok_def split: if_splits)
  then show "socket_ok fs (s\<lparr>vs_writable := False, vs_readable := False, vs_destroyed := True, vs_lmxClosed := True\<rparr>)"
    "\<not> vs_writable s \<Longrightarrow> socket_ok fs (s\<lparr>vs_readable := False, vs_destroyed := True, vs_lmxClosed := True\<rparr>)"
    using assms by (simp_all add: socket_ok_def)
qed

lemma emit_close_ok:
  assumes "socket_ok fs s" and "vs_destroyed s"
  shows "socket_ok fs (emit_close e s)"
proof (cases "vs_closeEmitted s")
  case False
  then have st: "staged (vs_finishEmitted s) False (vs_log s)" using assms by (simp add: socket_ok_def)
  from staged_open [OF this] staged_close [OF st, of e] show ?thesis
    using assms False by (simp add: socket_ok_def emit_close_def vs_emit_def dropWhile_append2)
qed (use assms in \<open>simp add: emit_close_def\<close>)

lemma finalize_ok:
  assumes "socket_ok fs s"
  shows "socket_ok fs (finalize cb s)"
proof (cases "vs_writable s")
  case True
  then have f: "\<not> vs_finishEmitted s" "\<not> vs_endEmitted s" "\<not> vs_destroyed s" "\<not> vs_closeEmitted s"
    using assms by (auto simp: socket_ok_def)
  then show ?thesis
    using assms True after_close_append [of "\<lambda>e. \<not> is_close e" "vs_log s" "[EmitFinish, EmitEnd]"]
      staged_finish [of "vs_log s"]
    by (simp add: socket_ok_def finalize_def next_tick_def vs_emit_def)
qed (use assms in \<open>simp add: finalize_def\<close>)

text \<open>A close tick is queued only once the socket is no longer writable, a destroy tick once it is destroyed.\<close>

definition ticks_due :: "'f vsocket \<Rightarrow> bool" where
  "ticks_due s \<longleftrightarrow>
     (\<forall>cb. FinishClose cb \<in> set (vs_ticks s) \<longrightarrow> \<not> vs_writable s) \<and>
     (\<forall>e. DestroyTick e \<in> set (vs_ticks s) \<longrightarrow> vs_destroyed s)"

lemma finish_close_ok: "socket_ok fs s \<Longrightarrow> \<not> vs_writable s \<Longrightarrow> socket_ok fs (finish_close cb s)"
  unfolding finish_close_def
  by (rule emit_ok [OF emit_close_ok [OF destroyed_ok(2)]]) (simp_all split: option.split)

lemma run_tick_ok:
  assumes ok: "socket_ok fs s" and due: "ticks_due s" and t: "vs_ticks s = t # ts"
  shows "socket_ok fs (run_tick t (s\<lparr>vs_ticks := ts\<rparr>))"
proof (cases t)
  case (DeliverFrame f)
  show ?thesis
  proof (cases "vs_destroyed s")
    case False
    then have "staged (vs_finishEmitted s) False (vs_log s)" using ok by (auto simp: socket_ok_def)
    from staged_open [OF this] show ?thesis
      using ok False t DeliverFrame by (auto simp: socket_ok_def vs_emit_def staged_append dropWhile_append2)
  qed (use ok t DeliverFrame in \<open>simp add: socket_ok_def\<close>)
next
  case (FinishClose cb)
  have "socket_ok fs (s\<lparr>vs_ticks := ts\<rparr>)" by (rule tick_taken_ok [OF ok t]) (simp add: FinishClose)
  moreover have "\<not> vs_writable s" using due t FinishClose by (auto simp: ticks_due_def)
  ultimately show ?thesis using FinishClose by (simp add: finish_close_ok)
next
  case (DestroyTick e)
  have "socket_ok fs (s\<lparr>vs_ticks := ts\<rparr>)" by (rule tick_taken_ok [OF ok t]) (simp add: DestroyTick)
  from emit_ok [OF this, of "if e then [EmitError] else []"]
  have "socket_ok fs (vs_emit (if e then [EmitError] else []) (s\<lparr>vs_ticks := ts\<rparr>))" by simp
  moreover have "vs_destroyed s" using due t DestroyTick by (auto simp: ticks_due_def)
  ultimately show ?thesis using DestroyTick by (simp add: emit_close_ok vs_emit_def)
next
  case (Finalize cb)
  have "socket_ok fs (s\<lparr>vs_ticks := ts\<rparr>)" by (rule tick_taken_ok [OF ok t]) (simp add: Finalize)
  then show ?thesis using Finalize by (simp add: finalize_ok)
next
  case (FinalizeSoon cb)
  have "socket_ok fs (s\<lparr>vs_ticks := ts\<rparr>)" by (rule tick_taken_ok [OF ok t]) (simp add: FinalizeSoon)
  then show ?thesis using FinalizeSoon by (simp add: ticks_ok)
next
  case (CallWriteCb n e)
  have "socket_ok fs (s\<lparr>vs_ticks := ts\<rparr>)" by (rule tick_taken_ok [OF ok t]) (simp add: CallWriteCb)
  then show ?thesis using CallWriteCb by (simp add: emit_ok)
next
  case (CallEndCb n)
  have "socket_ok fs (s\<lparr>vs_ticks := ts\<rparr>)" by (rule tick_taken_ok [OF ok t]) (simp add: CallEndCb)
  then show ?thesis using CallEndCb by (simp add: emit_ok)
qed

lemma write_ok:
  assumes "socket_ok fs s" and "\<And>e. frames_queued (act e) = []"
  shows "socket_ok (fs @ (if vs_destroyed s \<or> \<not> vs_writable s then [] else data_frames parse d))
    (snd (vs_write parse d act s))"
  using assms counters_ok(1) [OF assms(1)]
  by (cases d) (auto simp: vs_write_def Let_def intro: ticks_ok frames_delivered_ok)

lemma op_ok:
  assumes ok: "socket_ok fs s" and due: "ticks_due s"
  shows "socket_ok (fs @ op_frames parse p s) (vs_op parse p s)"
proof (cases p)
  case (OpWrite d cb)
  have "frames_queued (write_callback cb e) = []" for e by (simp add: write_callback_def split: option.split)
  from write_ok [where act = "write_callback cb" and d = d and parse = parse, OF ok this] OpWrite show ?thesis
    by (auto simp: op_frames_def split: if_splits)
next
  case (OpEnd d cb)
  have "socket_ok fs (next_tick (case cb of None \<Rightarrow> [] | Some n \<Rightarrow> [CallEndCb n]) s)"
    "socket_ok fs (next_tick [Finalize cb] s)"
    using ok by (auto intro!: ticks_ok split: option.split)
  moreover have "socket_ok (fs @ (if vs_destroyed s \<or> \<not> vs_writable s then [] else data_frames parse c))
      (snd (vs_write parse c (\<lambda>_. [FinalizeSoon cb]) s))" for c
    by (rule write_ok [OF ok]) simp
  ultimately show ?thesis
    using OpEnd by (cases d) (auto simp: op_frames_def vs_end_def split: if_splits)
next
  case (OpDestroy e)
  then show ?thesis using ok destroyed_ok(1) [OF ok] by (auto simp: op_frames_def vs_destroy_def intro!: ticks_ok)
next
  case OpTick
  then show ?thesis using ok run_tick_ok [OF ok due] by (simp add: op_frames_def vs_next_def split: list.split)
next
  case (OpTimeout t)
  then show ?thesis using counters_ok(2) [OF ok] by (simp add: op_frames_def vs_setTimeout_def)
qed

lemma run_tick_due:
  "ticks_due s \<Longrightarrow> vs_ticks s = t # ts \<Longrightarrow> ticks_due (run_tick t (s\<lparr>vs_ticks := ts\<rparr>))"
  by (cases t) (auto simp: ticks_due_def finalize_def finish_close_def emit_close_def next_tick_def vs_emit_def)

lemma op_due: "ticks_due s \<Longrightarrow> ticks_due (vs_op parse p s)"
proof (induction p)
  case OpTick
  then show ?case using run_tick_due by (auto simp: vs_next_def split: list.split)
qed (auto simp: ticks_due_def vs_write_def Let_def vs_end_def vs_destroy_def vs_setTimeout_def next_tick_def
    write_callback_def split: socket_data.split option.split)

lemma run_ok:
  "socket_ok fs s \<Longrightarrow> ticks_due s \<Longrightarrow> socket_ok (fs @ accepted parse ps s) (vs_run parse ps s)"
proof (induction ps arbitrary: fs s)
  case (Cons p ps)
  from Cons.IH [OF op_ok [OF Cons.prems] op_due [OF Cons.prems(2)]] show ?case
    by (simp add: vs_run_def)
qed (simp add: vs_run_def)

text \<open>Whatever is written, ended, destroyed and ticked, in any order, the virtual socket emits \<open>finish\<close> and
  \<open>end\<close> together and before \<open>close\<close>, each at most once; it delivers the frames of the writes it accepted in
  their order, all of them as long as it is not destroyed, and none after \<open>close\<close>.\<close>

lemma virtual_socket_lifecycle:
  "\<exists>fin clo e. filter lifecycle (vs_log (vs_run parse ps new_vsocket)) =
       (if fin then [EmitFinish, EmitEnd] else []) @ (if clo then [EmitClose e] else []) \<and>
     frames_out (dropWhile (\<lambda>e. \<not> is_close e) (vs_log (vs_run parse ps new_vsocket))) = [] \<and>
     (if vs_destroyed (vs_run parse ps new_vsocket)
      then prefix (frames_out (vs_log (vs_run parse ps new_vsocket))) (accepted parse ps new_vsocket)
      else frames_out (vs_log (vs_run parse ps new_vsocket)) @ frames_queued (vs_ticks (vs_run parse ps new_vsocket)) =
        accepted parse ps new_vsocket)"
proof -
  have "socket_ok [] new_vsocket" "ticks_due new_vsocket"
    by (simp_all add: socket_ok_def new_vsocket_def staged_def ticks_due_def)
  from run_ok [OF this, of parse ps] have ok: "socket_ok (accepted parse ps new_vsocket) (vs_run parse ps new_vsocket)"
    by simp
  then obtain e where "filter lifecycle (vs_log (vs_run parse ps new_vsocket)) =
      (if vs_finishEmitted (vs_run parse ps new_vsocket) then [EmitFinish, EmitEnd] else []) @
      (if vs_closeEmitted (vs_run parse ps new_vsocket) then [EmitClose e] else [])"
    by (auto simp only: socket_ok_def staged_def)
  then show ?thesis
    using ok unfolding socket_ok_def
    by (intro exI [of _ "vs_finishEmitted (vs_run parse ps new_vsocket)"]
        exI [of _ "vs_closeEmitted (vs_run parse ps new_vsocket)"] exI [of _ e] conjI) simp_all
qed

end
