(* ===== verification/Bridge.thy ===== *)
theory Bridge
  imports VirtualSocket Departures
begin

text \<open>
  The in-process bridge (\<open>InProcessBridge\<close> of \<open>src/src/in-process-bridge.ts\<close>): promises over the
  broker's own methods, answered by the frames the broker writes to the bridge's virtual socket.

  The broker, the socket and the bridge are one state. The number of a call names its promise and is
  the index of the UUID it draws. \<open>text\<close> is \<open>JSON.stringify\<close> of a reply and \<open>parse\<close> is
  \<open>JSON.parse\<close>. The socket the broker knows by the number \<open>br_id\<close> is the virtual socket.
\<close>

subsection \<open>State\<close>

datatype promise_result =
    Resolved response "string option"      \<comment> \<open>the reply, and \<open>lock\<close>'s \<open>_bridgeRequestUuid\<close>\<close>
  | RejectedClosed
  | RejectedShutdown
  | RejectedTimeout
  | RejectedThrown

record pending =
  pe_call :: nat
  pe_tag :: "string option"                \<comment> \<open>what the awaiting \<open>lock\<close> adds to the reply\<close>

record 'q bridge =
  br_broker :: "'q broker"
  br_id :: sock
  br_socket :: "response vsocket"
  br_inflight :: "(string, pending) jsmap"
  br_timers :: "nat list"                  \<comment> \<open>the calls whose timer is armed\<close>
  br_closed :: bool
  br_calls :: nat
  br_settled :: "(nat \<times> promise_result) list"

text \<open>The \<open>uuid\<close> field of a reply.\<close>

fun reply_uuid :: "response \<Rightarrow> string option" where
  "reply_uuid (LockReply u _ _ _ _ _ _) = Some u"
| "reply_uuid (ReelectionNotice u _ _) = Some u"
| "reply_uuid (UnlockReply u _ _ _ _) = Some u"
| "reply_uuid (UnlockNoLock u _) = Some u"
| "reply_uuid (AcquireManyRejected u _ _) = Some u"
| "reply_uuid (AcquireManyContended u _ _ _) = Some u"
| "reply_uuid (AcquireManyGranted u _ _ _) = Some u"
| "reply_uuid (ReleaseManyFailed u _) = Some u"
| "reply_uuid (ReleaseManyDone u _ _) = Some u"
| "reply_uuid (LockAuthorityFailure u _ _) = Some u"
| "reply_uuid (AcquireManyAuthorityFailure u _ _) = Some u"
| "reply_uuid _ = None"

subsection \<open>What the broker writes\<close>

text \<open>\<open>send\<close> writes one line per frame; a destroyed socket is no longer writable.\<close>

definition frames_to :: "sock \<Rightarrow> event list \<Rightarrow> response list" where
  "frames_to ws es = List.map_filter (\<lambda>e. case e of Sent s r \<Rightarrow> if s = ws then Some r else None | _ \<Rightarrow> None) es"

definition write_reply ::
  "(response \<Rightarrow> string) \<Rightarrow> (string \<Rightarrow> response option) \<Rightarrow> response \<Rightarrow> response vsocket \<Rightarrow> response vsocket" where
  "write_reply text parse r s = snd (vs_write parse (Text (text r @ [CHR 0x0A])) (\<lambda>_. []) s)"

text \<open>The broker after a call: what it wrote to the virtual socket, and whether it destroyed it.\<close>

definition broker_done ::
  "(response \<Rightarrow> string) \<Rightarrow> (string \<Rightarrow> response option) \<Rightarrow> 'q broker \<Rightarrow> 'q bridge \<Rightarrow> 'q bridge" where
  "broker_done text parse b d =
     (let s = fold (write_reply text parse) (frames_to (br_id d) (drop (length (out (br_broker d))) (out b)))
                (br_socket d)
      in d\<lparr>br_broker := b, br_socket := (if writable b (br_id d) then s else vs_destroy False s)\<rparr>)"

subsection \<open>Construction\<close>

definition new_bridge :: "sock \<Rightarrow> 'q broker \<Rightarrow> 'q bridge" where
  "new_bridge ws b = \<lparr>
     br_broker = b\<lparr>connectedClients := List.insert ws (connectedClients b),
                   wsToKeys := (wsToKeys b)(ws \<mapsto> []), wsToUUIDs := (wsToUUIDs b)(ws \<mapsto> []),
                   writable := (writable b)(ws := True), lmxClosed := (lmxClosed b)(ws := False)\<rparr>,
     br_id = ws, br_socket = new_vsocket, br_inflight = [], br_timers = [], br_closed = False,
     br_calls = 0, br_settled = []\<rparr>"

subsection \<open>Promises\<close>

definition settle :: "nat \<Rightarrow> promise_result \<Rightarrow> 'q bridge \<Rightarrow> 'q bridge" where
  "settle n r d = d\<lparr>br_settled := br_settled d @ [(n, r)]\<rparr>"

definition clear_promise_timer :: "nat \<Rightarrow> 'q bridge \<Rightarrow> 'q bridge" where
  "clear_promise_timer n d = d\<lparr>br_timers := removeAll n (br_timers d)\<rparr>"

text \<open>\<open>inflight.delete(uuid)\<close> and its result.\<close>

definition take_pending :: "string \<Rightarrow> 'q bridge \<Rightarrow> pending option \<times> 'q bridge" where
  "take_pending u d = (map_of (br_inflight d) u, d\<lparr>br_inflight := AList.delete u (br_inflight d)\<rparr>)"

text \<open>What a broker method does: it returns, or it throws part-way.\<close>

datatype 'q called = Returned "'q broker" | Threw "'q broker"

definition dispatch ::
  "(response \<Rightarrow> string) \<Rightarrow> (string \<Rightarrow> response option) \<Rightarrow> nat \<Rightarrow> string \<Rightarrow> string option
    \<Rightarrow> ('q broker \<Rightarrow> 'q called option) \<Rightarrow> 'q bridge \<Rightarrow> 'q bridge option" where
  "dispatch text parse n uuid tag send_request d =
     (if br_closed d then Some (settle n RejectedClosed d)
      else
        (let d1 = d\<lparr>br_timers := br_timers d @ [n],
                    br_inflight := AList.update uuid \<lparr>pe_call = n, pe_tag = tag\<rparr> (br_inflight d)\<rparr>
         in case send_request (br_broker d1) of
              None \<Rightarrow> None
            | Some (Returned b) \<Rightarrow> Some (broker_done text parse b d1)
            | Some (Threw b) \<Rightarrow>
                Some (settle n RejectedThrown
                       (clear_promise_timer n (snd (take_pending uuid (broker_done text parse b d1)))))))"

definition onBrokerFrame :: "response \<Rightarrow> 'q bridge \<Rightarrow> 'q bridge" where
  "onBrokerFrame r d =
     (case reply_uuid r of
        None \<Rightarrow> d
      | Some u \<Rightarrow>
          (case take_pending u d of
             (None, _) \<Rightarrow> d
           | (Some p, d1) \<Rightarrow> settle (pe_call p) (Resolved r (pe_tag p)) (clear_promise_timer (pe_call p) d1)))"

text \<open>The timer of a call.\<close>

definition promise_timeout :: "(nat \<Rightarrow> string) \<Rightarrow> nat \<Rightarrow> 'q bridge \<Rightarrow> 'q bridge" where
  "promise_timeout v4 n d =
     (if n \<in> set (br_timers d)
      then (let d0 = clear_promise_timer n d
            in case take_pending (v4 n) d0 of
                 (None, _) \<Rightarrow> d0
               | (Some p, d1) \<Rightarrow> settle n RejectedTimeout d1)
      else d)"

subsection \<open>Requests\<close>

datatype bridge_call =
    CallLock string ttl_field jsval bool bool
  | CallUnlock string "string option" bool
  | CallAcquireMany "jsval list option" ttl_field
  | CallReleaseMany string

text \<open>\<open>ttl ?? null\<close>\<close>

definition ttl_or_null :: "ttl_field \<Rightarrow> ttl_field" where
  "ttl_or_null t = (if t = TtlUndefined then TtlNull else t)"

definition bridge_lock_req :: "string \<Rightarrow> string \<Rightarrow> ttl_field \<Rightarrow> jsval \<Rightarrow> bool \<Rightarrow> bool \<Rightarrow> int \<Rightarrow> lock_req" where
  "bridge_lock_req u k t mx f keep pid =
     \<lparr>l_uuid = u, l_key = k, l_ttl = ttl_or_null t, l_max = mx, l_maxRead = Undefined,
      l_maxWrite = Undefined, l_force = f, l_pid = pid, l_keep = keep, l_retryCount = 0, l_wait = None,
      l_rwStatus = None\<rparr>"

definition bridge_unlock_req :: "string \<Rightarrow> string \<Rightarrow> string option \<Rightarrow> bool \<Rightarrow> unlock_req" where
  "bridge_unlock_req u k lu f =
     \<lparr>u_uuid = Some u, u_key = k, u__uuid = (if truthy_str lu then lu else None), u_force = f,
      u_keep = False\<rparr>"

definition bridge_acquire_req :: "string \<Rightarrow> jsval list option \<Rightarrow> ttl_field \<Rightarrow> int \<Rightarrow> acquire_many_req" where
  "bridge_acquire_req u ks t pid =
     \<lparr>a_uuid = u, a_keys = ks, a_ttl = ttl_or_null t, a_pid = pid, a_keep = False, a_wait = None\<rparr>"

definition bridge_release_req :: "string \<Rightarrow> string \<Rightarrow> release_many_req" where
  "bridge_release_req u lu = \<lparr>r_uuid = u, r_lockUuid = Some lu\<rparr>"

definition call_tag :: "string \<Rightarrow> bridge_call \<Rightarrow> string option" where
  "call_tag u c = (case c of CallLock _ _ _ _ _ \<Rightarrow> Some u | _ \<Rightarrow> None)"

text \<open>The broker method behind each of \<open>lock\<close>, \<open>unlock\<close>, \<open>acquireMany\<close> and \<open>releaseMany\<close>.\<close>

fun bridge_method ::
  "'q ext \<Rightarrow> int \<Rightarrow> sock \<Rightarrow> string \<Rightarrow> bridge_call \<Rightarrow> 'q broker \<Rightarrow> 'q broker option" where
  "bridge_method E pid ws u (CallLock k t mx f keep) b = Some (lock E (bridge_lock_req u k t mx f keep pid) ws b)"
| "bridge_method E pid ws u (CallUnlock k lu f) b = unlock E (bridge_unlock_req u k lu f) (Some ws) b"
| "bridge_method E pid ws u (CallAcquireMany ks t) b = Some (acquireMany E (bridge_acquire_req u ks t pid) ws b)"
| "bridge_method E pid ws u (CallReleaseMany lu) b = releaseMany E (bridge_release_req u lu) ws b"

subsection \<open>Shutdown\<close>

definition shutdown :: "'q ext \<Rightarrow> (response \<Rightarrow> string) \<Rightarrow> (string \<Rightarrow> response option) \<Rightarrow> 'q bridge \<Rightarrow> 'q bridge option" where
  "shutdown E text parse d =
     (if br_closed d then Some d
      else
        (let ps = map snd (br_inflight d);
             d1 = fold (\<lambda>p d. settle (pe_call p) RejectedShutdown (clear_promise_timer (pe_call p) d)) ps
                    (d\<lparr>br_closed := True\<rparr>);
             d2 = d1\<lparr>br_inflight := []\<rparr>
         in map_option (\<lambda>b. let d3 = broker_done text parse b d2
                             in d3\<lparr>br_broker := destroy_socket (br_id d3) (br_broker d3),
                                   br_socket := vs_destroy False (br_socket d3)\<rparr>)
              (cleanupConnection E (br_id d2) (br_broker d2))))"

definition pendingCount :: "'q bridge \<Rightarrow> nat" where
  "pendingCount d = length (br_inflight d)"

subsection \<open>Steps\<close>

text \<open>One turn of the socket's tick queue; a frame it hands over goes to \<open>onBrokerFrame\<close>.\<close>

definition socket_turn :: "'q bridge \<Rightarrow> 'q bridge" where
  "socket_turn d =
     (let s = vs_next (br_socket d)
      in fold onBrokerFrame (frames_out (drop (length (vs_log (br_socket d))) (vs_log s))) (d\<lparr>br_socket := s\<rparr>))"

datatype bridge_event =
    BridgeCall bridge_call
  | BrokerEvent bevent              \<comment> \<open>another connection, a timer of the broker\<close>
  | SocketTurn
  | PromiseTimer nat
  | BridgeShutdown

fun bridge_step ::
  "'q ext \<Rightarrow> (nat \<Rightarrow> string) \<Rightarrow> int \<Rightarrow> (response \<Rightarrow> string) \<Rightarrow> (string \<Rightarrow> response option) \<Rightarrow> bridge_event
    \<Rightarrow> 'q bridge \<Rightarrow> 'q bridge option" where
  "bridge_step E v4 pid text parse (BridgeCall c) d =
     (let n = br_calls d; u = v4 n
      in dispatch text parse n u (call_tag u c)
           (\<lambda>b. map_option Returned (bridge_method E pid (br_id d) u c b)) (d\<lparr>br_calls := Suc n\<rparr>))"
| "bridge_step E v4 pid text parse (BrokerEvent ev) d =
     map_option (\<lambda>b. broker_done text parse b d) (handle E ev (br_broker d))"
| "bridge_step E v4 pid text parse SocketTurn d = Some (socket_turn d)"
| "bridge_step E v4 pid text parse (PromiseTimer n) d = Some (promise_timeout v4 n d)"
| "bridge_step E v4 pid text parse BridgeShutdown d = shutdown E text parse d"

fun bridge_run ::
  "'q ext \<Rightarrow> (nat \<Rightarrow> string) \<Rightarrow> int \<Rightarrow> (response \<Rightarrow> string) \<Rightarrow> (string \<Rightarrow> response option) \<Rightarrow> bridge_event list
    \<Rightarrow> 'q bridge \<Rightarrow> 'q bridge option" where
  "bridge_run E v4 pid text parse [] d = Some d"
| "bridge_run E v4 pid text parse (ev # evs) d =
     Option.bind (bridge_step E v4 pid text parse ev d) (bridge_run E v4 pid text parse evs)"

end
