(* ===== verification/BridgePromises.thy ===== *)
theory BridgePromises
  imports Bridge
begin

text \<open>
  What the promises of the bridge's callers may rely on, and what the broker does for the bridge.
\<close>

subsection \<open>Every call is pending or settled\<close>

lemma length_filter_key: "jsmap_wf m \<Longrightarrow> k \<in> fst ` set m \<Longrightarrow> length (filter (\<lambda>e. fst e = k) m) = 1"
  by (induction m) (auto simp: filter_empty_conv image_iff)

definition pending_calls :: "'q bridge \<Rightarrow> nat set" where
  "pending_calls d = (\<lambda>e. pe_call (snd e)) ` set (br_inflight d)"

definition promises_ok :: "(nat \<Rightarrow> string) \<Rightarrow> 'q bridge \<Rightarrow> bool" where
  "promises_ok v4 d \<longleftrightarrow>
     distinct (map fst (br_inflight d)) \<and> (\<forall>(u, p) \<in> set (br_inflight d). u = v4 (pe_call p)) \<and>
     distinct (map fst (br_settled d)) \<and> set (br_timers d) = pending_calls d \<and>
     fst ` set (br_settled d) \<inter> pending_calls d = {} \<and>
     fst ` set (br_settled d) \<union> pending_calls d = {..< br_calls d} \<and>
     (br_closed d \<longrightarrow> br_inflight d = [])"

text \<open>The fields the invariant reads.\<close>

definition same_promises :: "'q bridge \<Rightarrow> 'q bridge \<Rightarrow> bool" where
  "same_promises d d' \<longleftrightarrow>
     br_inflight d' = br_inflight d \<and> br_timers d' = br_timers d \<and> br_closed d' = br_closed d \<and>
     br_calls d' = br_calls d \<and> br_settled d' = br_settled d"

lemma promises_same: "promises_ok v4 d \<Longrightarrow> same_promises d d' \<Longrightarrow> promises_ok v4 d'"
  by (simp add: promises_ok_def same_promises_def pending_calls_def)

lemma same_broker_done [simp]: "same_promises d (broker_done text parse b d)"
  by (simp add: same_promises_def broker_done_def Let_def)

lemma same_promises_simps [simp]:
  "same_promises d (d\<lparr>br_broker := b\<rparr>)" "same_promises d (d\<lparr>br_socket := s\<rparr>)"
  by (simp_all add: same_promises_def)

text \<open>A pending call ends: it leaves the table, its timer is cleared, its promise is settled.\<close>

lemma settled_ok:
  assumes "promises_ok v4 d" and p: "map_of (br_inflight d) u = Some p" and "inj v4"
  shows "promises_ok v4 (settle (pe_call p) r (clear_promise_timer (pe_call p)
    (d\<lparr>br_inflight := AList.delete u (br_inflight d)\<rparr>)))"
proof -
  have inv: "distinct (map fst (br_inflight d))" "\<And>u p. (u, p) \<in> set (br_inflight d) \<Longrightarrow> u = v4 (pe_call p)"
    using assms(1) by (auto simp: promises_ok_def)
  have up: "(u, p) \<in> set (br_inflight d)" using p by (rule map_of_SomeD)
  then have u: "u = v4 (pe_call p)" by (rule inv(2))
  have other: "pe_call q \<noteq> pe_call p" if "(v, q) \<in> set (br_inflight d)" "v \<noteq> u" for v q
    using that inv(2) u by fastforce
  have same: "v \<noteq> u" if "(v, q) \<in> set (br_inflight d)" "pe_call q \<noteq> pe_call p" for v q
    using that inv(2) [of v q] u \<open>inj v4\<close> by (auto dest: injD)
  have calls: "pending_calls (d\<lparr>br_inflight := AList.delete u (br_inflight d)\<rparr>) = pending_calls d - {pe_call p}"
    using other same by (force simp: pending_calls_def AList.delete_eq)
  have "pe_call p \<in> pending_calls d" using up by (force simp: pending_calls_def)
  moreover have "AList.delete u [] = ([] :: (string, pending) jsmap)" by simp
  moreover have "pe_call p \<notin> fst ` set (br_settled d)"
    using assms(1) \<open>pe_call p \<in> pending_calls d\<close> by (auto simp: promises_ok_def)
  ultimately show ?thesis
    using assms(1) calls
    by (auto simp: promises_ok_def settle_def clear_promise_timer_def distinct_delete pending_calls_def
        AList.delete_eq distinct_map_filter)
qed

lemma frame_ok:
  assumes "promises_ok v4 d" and "inj v4"
  shows "promises_ok v4 (onBrokerFrame r d)"
  using assms(1) settled_ok [OF assms(1) _ assms(2)]
  by (simp add: onBrokerFrame_def take_pending_def split: option.split)

lemma frames_ok: "promises_ok v4 d \<Longrightarrow> inj v4 \<Longrightarrow> promises_ok v4 (fold onBrokerFrame rs d)"
  by (induction rs arbitrary: d) (simp_all add: frame_ok)

lemma socket_turn_ok: "promises_ok v4 d \<Longrightarrow> inj v4 \<Longrightarrow> promises_ok v4 (socket_turn d)"
  unfolding socket_turn_def Let_def by (intro frames_ok) (erule promises_same, simp)

lemma pending_lookup:
  assumes "promises_ok v4 d" and "n \<in> pending_calls d"
  obtains p where "map_of (br_inflight d) (v4 n) = Some p" "pe_call p = n"
proof -
  obtain u p where p: "(u, p) \<in> set (br_inflight d)" "pe_call p = n"
    using assms(2) by (auto simp: pending_calls_def)
  have "jsmap_wf (br_inflight d)" "u = v4 (pe_call p)" using assms(1) p(1) by (auto simp: promises_ok_def)
  then have "map_of (br_inflight d) (v4 n) = Some p" using p by (metis map_of_is_SomeI)
  then show thesis using p(2) by (rule that)
qed

lemma timeout_ok:
  assumes ok: "promises_ok v4 d" and "inj v4"
  shows "promises_ok v4 (promise_timeout v4 n d)"
proof (cases "n \<in> set (br_timers d)")
  case True
  then have "n \<in> pending_calls d" using ok by (simp add: promises_ok_def)
  with ok obtain p where p: "map_of (br_inflight d) (v4 n) = Some p" "pe_call p = n"
    by (rule pending_lookup)
  from settled_ok [OF ok p(1) assms(2), of RejectedTimeout] show ?thesis
    using True p by (elim promises_same)
      (simp add: promise_timeout_def take_pending_def clear_promise_timer_def settle_def same_promises_def)
qed (use ok in \<open>simp add: promise_timeout_def\<close>)

text \<open>A new call: pending, or settled at once.\<close>

lemma fresh_call:
  assumes "promises_ok v4 d" and "inj v4"
  shows "br_calls d \<notin> fst ` set (br_settled d)" "br_calls d \<notin> pending_calls d"
    "map_of (br_inflight d) (v4 (br_calls d)) = None"
proof -
  have un: "fst ` set (br_settled d) \<union> pending_calls d = {..< br_calls d}"
    using assms(1) by (simp add: promises_ok_def)
  then show 1: "br_calls d \<notin> fst ` set (br_settled d)" "br_calls d \<notin> pending_calls d" by blast+
  show "map_of (br_inflight d) (v4 (br_calls d)) = None"
  proof (rule ccontr)
    assume "map_of (br_inflight d) (v4 (br_calls d)) \<noteq> None"
    then obtain p where p: "(v4 (br_calls d), p) \<in> set (br_inflight d)" by (auto dest: map_of_SomeD)
    then have "v4 (br_calls d) = v4 (pe_call p)" using assms(1) by (auto simp: promises_ok_def)
    with assms(2) have "br_calls d = pe_call p" by (rule injD)
    with p 1(2) show False by (force simp: pending_calls_def)
  qed
qed

lemma update_absent: "map_of m k = None \<Longrightarrow> AList.update k v m = m @ [(k, v)]"
  by (induction m) (auto split: if_splits)

lemma new_call_settled:
  assumes "promises_ok v4 d" and "inj v4"
  shows "promises_ok v4 (settle (br_calls d) r (d\<lparr>br_calls := Suc (br_calls d)\<rparr>))"
  using assms(1) fresh_call [OF assms]
  by (auto simp: promises_ok_def settle_def pending_calls_def)

lemma new_call_pending:
  assumes "promises_ok v4 d" and "inj v4" and "\<not> br_closed d"
  shows "promises_ok v4 (d\<lparr>br_calls := Suc (br_calls d), br_timers := br_timers d @ [br_calls d],
    br_inflight := AList.update (v4 (br_calls d)) \<lparr>pe_call = br_calls d, pe_tag = tag\<rparr> (br_inflight d)\<rparr>)"
proof -
  have "AList.update (v4 (br_calls d)) p (br_inflight d) = br_inflight d @ [(v4 (br_calls d), p)]" for p
    using fresh_call(3) [OF assms(1,2)] by (simp add: update_absent)
  moreover have "v4 (br_calls d) \<notin> fst ` set (br_inflight d)"
    using fresh_call(3) [OF assms(1,2)] by (simp add: map_of_eq_None_iff)
  ultimately show ?thesis
    using assms(1,3) fresh_call(1,2) [OF assms(1,2)]
    by (auto simp: promises_ok_def pending_calls_def)
qed

lemma dispatch_ok:
  assumes "promises_ok v4 d" and "inj v4"
    and "dispatch text parse (br_calls d) (v4 (br_calls d)) tag f (d\<lparr>br_calls := Suc (br_calls d)\<rparr>) = Some d'"
  shows "promises_ok v4 d'"
proof (cases "br_closed d")
  case True
  then show ?thesis using assms new_call_settled [OF assms(1,2)] by (auto simp: dispatch_def)
next
  case False
  let ?n = "br_calls d"
  define d1 where "d1 = d\<lparr>br_calls := Suc ?n, br_timers := br_timers d @ [?n],
    br_inflight := AList.update (v4 ?n) \<lparr>pe_call = ?n, pe_tag = tag\<rparr> (br_inflight d)\<rparr>"
  have ok: "promises_ok v4 (broker_done text parse c d1)" for c
    by (rule promises_same [OF new_call_pending [OF assms(1,2) False, of tag]]) (simp add: d1_def)
  have p: "map_of (br_inflight (broker_done text parse c d1)) (v4 ?n) = Some \<lparr>pe_call = ?n, pe_tag = tag\<rparr>" for c
    by (simp add: broker_done_def Let_def d1_def)
  have "promises_ok v4 (settle ?n RejectedThrown
      (clear_promise_timer ?n (snd (take_pending (v4 ?n) (broker_done text parse c d1)))))" for c
    using settled_ok [OF ok p assms(2), of RejectedThrown c] by (simp add: take_pending_def)
  with ok assms(3) False show ?thesis
    by (auto simp: dispatch_def Let_def d1_def split: option.splits called.splits)
qed

lemma shutdown_settles:
  fixes d :: "'q bridge"
  shows
  "fold (\<lambda>p d. settle (pe_call p) r (clear_promise_timer (pe_call p) d)) ps d =
     d\<lparr>br_settled := br_settled d @ map (\<lambda>p. (pe_call p, r)) ps,
       br_timers := filter (\<lambda>n. n \<notin> pe_call ` set ps) (br_timers d)\<rparr>"
proof (induction ps arbitrary: d)
  case (Cons p ps)
  have "filter (\<lambda>n. n \<notin> pe_call ` set ps) (removeAll (pe_call p) (br_timers d)) =
      filter (\<lambda>n. n \<notin> pe_call ` set (p # ps)) (br_timers d)"
    by (simp add: removeAll_filter_not_eq) (rule filter_cong, auto)
  moreover have "fold (\<lambda>p d. settle (pe_call p) r (clear_promise_timer (pe_call p) d)) (p # ps) d =
      d\<lparr>br_settled := (br_settled d @ [(pe_call p, r)]) @ map (\<lambda>p. (pe_call p, r)) ps,
        br_timers := filter (\<lambda>n. n \<notin> pe_call ` set ps) (removeAll (pe_call p) (br_timers d))\<rparr>"
    unfolding fold_Cons comp_apply Cons.IH by (simp add: settle_def clear_promise_timer_def)
  ultimately show ?case by simp
qed simp

lemma all_settled_ok:
  assumes "promises_ok v4 d" and "inj v4"
  shows "promises_ok v4 (d\<lparr>br_closed := True, br_inflight := [],
    br_settled := br_settled d @ map (\<lambda>p. (pe_call p, r)) (map snd (br_inflight d)),
    br_timers := filter (\<lambda>n. n \<notin> pe_call ` set (map snd (br_inflight d))) (br_timers d)\<rparr>)"
proof -
  have calls: "pe_call ` set (map snd (br_inflight d)) = pending_calls d"
    by (force simp: pending_calls_def)
  have "map fst (br_inflight d) = map (v4 \<circ> pe_call) (map snd (br_inflight d))"
    using assms(1) by (auto simp: promises_ok_def)
  then have "distinct (map pe_call (map snd (br_inflight d)))"
    using assms(1) by (auto simp: promises_ok_def distinct_map comp_inj_on inj_on_def)
  moreover have "map fst (map (\<lambda>p. (pe_call p, r)) (map snd (br_inflight d))) = map pe_call (map snd (br_inflight d))"
    by simp
  ultimately show ?thesis
    using assms(1) calls
    by (auto simp: promises_ok_def pending_calls_def comp_def image_Un image_image)
qed

lemma shutdown_ok:
  assumes "promises_ok v4 d" and "inj v4" and "shutdown E text parse d = Some d'"
  shows "promises_ok v4 d'"
proof (cases "br_closed d")
  case False
  define d2 where "d2 = d\<lparr>br_closed := True, br_inflight := [],
    br_settled := br_settled d @ map (\<lambda>p. (pe_call p, RejectedShutdown)) (map snd (br_inflight d)),
    br_timers := filter (\<lambda>n. n \<notin> pe_call ` set (map snd (br_inflight d))) (br_timers d)\<rparr>"
  have "promises_ok v4 d2" unfolding d2_def by (rule all_settled_ok [OF assms(1,2)])
  moreover have "same_promises d2 d'"
    using assms(3) False
    by (auto simp: shutdown_def Let_def shutdown_settles same_promises_def broker_done_def d2_def)
  ultimately show ?thesis by (rule promises_same)
qed (use assms in \<open>simp add: shutdown_def\<close>)

lemma bridge_step_ok:
  assumes "bridge_step E v4 pid text parse ev d = Some d'" and "promises_ok v4 d" and "inj v4"
  shows "promises_ok v4 d'"
proof (cases ev)
  case (BridgeCall c)
  then show ?thesis using assms dispatch_ok [OF assms(2,3)] by (simp add: Let_def)
next
  case (BrokerEvent ev')
  then show ?thesis using assms(1) promises_same [OF assms(2) same_broker_done] by auto
next
  case BridgeShutdown
  then show ?thesis using assms shutdown_ok [OF assms(2,3)] by simp
qed (use assms socket_turn_ok timeout_ok in auto)

lemma bridge_run_ok:
  "bridge_run E v4 pid text parse evs d = Some d' \<Longrightarrow> promises_ok v4 d \<Longrightarrow> inj v4 \<Longrightarrow> promises_ok v4 d'"
  by (induction evs arbitrary: d) (auto split: Option.bind_splits dest: bridge_step_ok)

lemma new_bridge_ok: "promises_ok v4 (new_bridge ws b)"
  by (simp add: promises_ok_def new_bridge_def pending_calls_def)

text \<open>C21: In every state a run of the bridge reaches, each call made so far is either in the table of pending
  requests, with its timer armed, or its promise has been settled, exactly once; a bridge that was
  shut down has nothing pending.\<close>

theorem bridge_promises_settle_once:
  assumes "inj v4" and "bridge_run E v4 pid text parse evs (new_bridge ws b) = Some d"
  shows "(\<forall>n. n < br_calls d \<longrightarrow>
      (if v4 n \<in> fst ` set (br_inflight d) then n \<in> set (br_timers d) \<and> n \<notin> fst ` set (br_settled d)
       else length (filter (\<lambda>e. fst e = n) (br_settled d)) = 1)) \<and>
    (br_closed d \<longrightarrow> pendingCount d = 0)"
proof -
  have ok: "promises_ok v4 d" by (rule bridge_run_ok [OF assms(2) new_bridge_ok assms(1)])
  have un: "fst ` set (br_settled d) \<union> pending_calls d = {..< br_calls d}"
    "fst ` set (br_settled d) \<inter> pending_calls d = {}" "set (br_timers d) = pending_calls d"
    "distinct (map fst (br_settled d))"
    using ok by (simp_all add: promises_ok_def)
  have "v4 n \<in> fst ` set (br_inflight d) \<longleftrightarrow> n \<in> pending_calls d" for n
  proof
    assume "v4 n \<in> fst ` set (br_inflight d)"
    then obtain p where p: "(v4 n, p) \<in> set (br_inflight d)" by auto
    then have "v4 n = v4 (pe_call p)" using ok by (auto simp: promises_ok_def)
    then have "n = pe_call p" using assms(1) by (auto dest: injD)
    then show "n \<in> pending_calls d" using p by (force simp: pending_calls_def)
  next
    assume "n \<in> pending_calls d"
    with ok obtain p where "map_of (br_inflight d) (v4 n) = Some p" by (rule pending_lookup)
    then show "v4 n \<in> fst ` set (br_inflight d)" by (force dest: map_of_SomeD)
  qed
  moreover have "length (filter (\<lambda>e. fst e = n) (br_settled d)) = 1" if "n < br_calls d" "n \<notin> pending_calls d" for n
  proof -
    have "n \<in> fst ` set (br_settled d)" using that un(1) by blast
    with un(4) show ?thesis by (rule length_filter_key)
  qed
  ultimately show ?thesis
    using un ok by (auto simp: pendingCount_def promises_ok_def)
qed

text \<open>A bridge on a broker with one key held by another connection.\<close>

definition bridge_uuid :: "nat \<Rightarrow> string" where
  "bridge_uuid n = CHR ''b'' # replicate n (CHR ''b'')"

lemma inj_bridge_uuid: "inj bridge_uuid"
  by (rule injI) (metis bridge_uuid_def length_Cons length_replicate nat.inject)

definition demo_bridge :: "demo_queue bridge" where
  "demo_bridge = new_bridge 2 (after one_held)"

definition waiting_reply :: response where
  "waiting_reply = LockReply ''b'' ''k'' False 0 0 None None"

theorem bridge_promises_settle_once_witness:
  "\<exists>d. bridge_run demo bridge_uuid 7 (\<lambda>_. ''w'') (\<lambda>_. Some waiting_reply)
      [BridgeCall (CallLock ''k'' TtlUndefined Undefined False False), SocketTurn, BridgeShutdown] demo_bridge = Some d \<and>
    pendingCount d = 0 \<and> length (filter (\<lambda>e. fst e = 0) (br_settled d)) = 1"
proof -
  define d where "d = the (bridge_run demo bridge_uuid 7 (\<lambda>_. ''w'') (\<lambda>_. Some waiting_reply)
      [BridgeCall (CallLock ''k'' TtlUndefined Undefined False False), SocketTurn, BridgeShutdown] demo_bridge)"
  have "bridge_run demo bridge_uuid 7 (\<lambda>_. ''w'') (\<lambda>_. Some waiting_reply)
      [BridgeCall (CallLock ''k'' TtlUndefined Undefined False False), SocketTurn, BridgeShutdown] demo_bridge \<noteq> None"
    by code_simp
  then have run: "bridge_run demo bridge_uuid 7 (\<lambda>_. ''w'') (\<lambda>_. Some waiting_reply)
      [BridgeCall (CallLock ''k'' TtlUndefined Undefined False False), SocketTurn, BridgeShutdown]
      (new_bridge 2 (after one_held)) = Some d"
    by (simp add: d_def demo_bridge_def)
  have "br_closed d" "0 < br_calls d" "bridge_uuid 0 \<notin> fst ` set (br_inflight d)" unfolding d_def by code_simp+
  with bridge_promises_settle_once [OF inj_bridge_uuid run] run show ?thesis
    by (intro exI [of _ d]) (auto simp: demo_bridge_def)
qed

end
