(* ===== verification/BridgeCalls.thy ===== *)
theory BridgeCalls
  imports BridgePromises JsonParser
begin

text \<open>
  What the bridge's calls do to the broker, compared with the same requests over a connection; a call
  that has to wait; and the end of the bridge.
\<close>

subsection \<open>The bridge and the wire\<close>

text \<open>The request a client would write for the same call, with no \<open>ttl\<close> where the caller gives none.\<close>

fun wire_request :: "string \<Rightarrow> int \<Rightarrow> bridge_call \<Rightarrow> LMXRequest" where
  "wire_request u pid (CallLock k t mx f keep) =
     LockReq ((bridge_lock_req u k t mx f keep pid)\<lparr>l_ttl := t\<rparr>)"
| "wire_request u pid (CallUnlock k lu f) = UnlockReq (bridge_unlock_req u k lu f)"
| "wire_request u pid (CallAcquireMany ks t) = AcquireManyReq ((bridge_acquire_req u ks t pid)\<lparr>a_ttl := t\<rparr>)"
| "wire_request u pid (CallReleaseMany lu) = ReleaseManyReq (bridge_release_req u lu)"

fun bounded_call :: "bridge_call \<Rightarrow> bool" where
  "bounded_call (CallLock k t mx f keep) = (t \<noteq> TtlNull)"
| "bounded_call (CallAcquireMany ks t) = (t \<noteq> TtlNull \<and> t \<noteq> TtlUndefined)"
| "bounded_call _ = True"

text \<open>The \<open>ttl\<close> of a request reaches the holders only through \<open>lock_ttl\<close>.\<close>

lemma decision_ignores_ttl [simp]:
  "beginRead (r\<lparr>l_ttl := t\<rparr>) = beginRead r" "beginWrite (r\<lparr>l_ttl := t\<rparr>) = beginWrite r"
  "endRead (r\<lparr>l_ttl := t\<rparr>) = endRead r" "validateMaxField (r\<lparr>l_ttl := t\<rparr>) = validateMaxField r"
  by (simp_all add: beginRead_def beginWrite_def endRead_def validateMaxField_def)

lemma outcome_ignores_ttl [simp]:
  "set_legacy_max (r\<lparr>l_ttl := t\<rparr>) l = set_legacy_max r l" "waiter_of (r\<lparr>l_ttl := t\<rparr>) ws x = waiter_of r ws x"
  "count_reader (r\<lparr>l_ttl := t\<rparr>) l = count_reader r l" "effective_max (r\<lparr>l_ttl := t\<rparr>) l = effective_max r l"
  "effective_count (r\<lparr>l_ttl := t\<rparr>) l = effective_count r l"
  by (simp_all add: set_legacy_max_def waiter_of_def count_reader_def effective_max_def effective_count_def)

lemma update_ignores_ttl [simp]: "update_limits (r\<lparr>l_ttl := t\<rparr>) l = update_limits r l"
  by (simp add: update_limits_def set_legacy_max_def)

lemma lock_same_ttl:
  assumes "lock_ttl E b (r\<lparr>l_ttl := t\<rparr>) = lock_ttl E b r"
  shows "lock E (r\<lparr>l_ttl := t\<rparr>) ws b = lock E r ws b"
proof -
  have acquire: "lock_acquire E (r\<lparr>l_ttl := t\<rparr>) ws x n = lock_acquire E r ws x n" for x n
    by (rule ext)+ (simp add: lock_acquire_def Let_def)
  have contended: "lock_contended E (r\<lparr>l_ttl := t\<rparr>) ws x = lock_contended E r ws x" for x
    by (rule ext)+ (simp add: lock_contended_def enqueue_request_def Let_def)
  have "lock_existing E (r\<lparr>l_ttl := t\<rparr>) ws x l c = lock_existing E r ws x l c"
    "lock_new E (r\<lparr>l_ttl := t\<rparr>) ws x c = lock_new E r ws x c" for x l and c :: "'a broker"
    by (simp_all add: lock_existing_def lock_new_def Let_def acquire contended)
  then show ?thesis by (simp add: lock_def Let_def assms split: option.split)
qed

text \<open>C23: A call of the bridge, other than one with an explicit \<open>ttl\<close> of \<open>null\<close> and an \<open>acquireMany\<close> without
  a \<open>ttl\<close>, does to the broker exactly what the same request does when it arrives over a connection, a
  \<open>lock\<close> without a \<open>ttl\<close> included. The two left out differ: see \<open>bridge_many_never_expires\<close> below.\<close>

theorem bridge_as_connection:
  assumes "bounded_call c" and "\<not> lmxClosed b ws"
  shows "bridge_method E pid ws u c b = onData E (Request (wire_request u pid c)) ws b"
proof (cases c)
  case (CallLock k t mx f keep)
  define r where "r = bridge_lock_req u k t mx f keep pid"
  have t: "t \<noteq> TtlNull" using assms(1) CallLock by simp
  then have "lock_ttl E b (r\<lparr>l_ttl := t\<rparr>) = lock_ttl E b r"
    by (cases t) (simp_all add: lock_ttl_def r_def bridge_lock_req_def ttl_or_null_def)
  from lock_same_ttl [OF this] show ?thesis
    using assms(2) t CallLock by (simp add: onData_def normalise_ttl_def r_def)
next
  case (CallAcquireMany ks t)
  then show ?thesis
    using assms by (simp add: onData_def normalise_ttl_def bridge_acquire_req_def ttl_or_null_def)
qed (use assms(2) in \<open>simp_all add: onData_def\<close>)

theorem bridge_as_connection_witness:
  "bridge_method demo 1 1 ''c'' (CallLock ''j'' TtlUndefined Undefined False False) (after one_held) =
     onData demo (Request (wire_request ''c'' 1 (CallLock ''j'' TtlUndefined Undefined False False))) 1 (after one_held)"
proof -
  have "\<not> lmxClosed (after one_held) 1" by code_simp
  then show ?thesis by (intro bridge_as_connection) simp_all
qed

subsection \<open>An \<open>acquireMany\<close> without a \<open>ttl\<close>\<close>

lemma deadlines_frame [simp]:
  "holderDeadlines (set_lock k l b) = holderDeadlines b" "holderDeadlines (add_ws_key ws k b) = holderDeadlines b"
  "holderDeadlines (next_uuid b) = holderDeadlines b" "holderDeadlines (send ws x b) = holderDeadlines b"
  "holderDeadlines (del_deadline u b) = AList.delete u (holderDeadlines b)"
  "holderDeadlines (snd (install_holder k u ws pid cid e l b)) = holderDeadlines b"
  "holderDeadlines (ensure_lock E k keep b) = holderDeadlines b"
  by (simp_all add: set_lock_def add_ws_key_def next_uuid_def send_def emit_def del_deadline_def install_holder_def
      ensure_lock_def create_lock_def Let_def split: option.split)

lemma with_lock_deadlines:
  "(\<And>l. set (holderDeadlines (f l b)) \<subseteq> S) \<Longrightarrow> set (holderDeadlines b) \<subseteq> S \<Longrightarrow>
   set (holderDeadlines (with_lock k f b)) \<subseteq> S"
  by (simp add: with_lock_def split: option.split)

lemma grant_member_deadlines:
  "grant_member E ws pid Infinity cid k l b = (u, t, b') \<Longrightarrow> holderDeadlines b' = holderDeadlines b"
  using deadlines_frame(6) [of k "fresh_uuid E b" ws pid "Some cid" Infinity "l\<lparr>timestampEmptied := None\<rparr>" "next_uuid b"]
  by (auto simp: grant_member_def scheduleDeadline_def Let_def simp del: deadlines_frame(6) split: prod.splits)

lemma am_loop_deadlines:
  "am_loop E ws pid Infinity keep cid ks gs b = (x, gs', b') \<Longrightarrow> holderDeadlines b' = holderDeadlines b"
proof (induction ks arbitrary: gs b)
  case (Cons k ks)
  then show ?case
    by (auto simp: Let_def split: if_splits option.splits prod.splits dest!: Cons.IH grant_member_deadlines)
qed simp

lemma rollback_deadlines: "set (holderDeadlines (rollback_attempt gs b)) \<subseteq> set (holderDeadlines b)"
proof (induction gs arbitrary: b)
  case (Cons g gs)
  obtain k u t where g: "g = (k, u, t)" by (cases g)
  show ?case
  proof (cases "settable k")
    case True
    show ?thesis
      unfolding g rollback_attempt.simps if_P [OF True]
      by (rule subset_trans [OF Cons.IH with_lock_deadlines]) (auto split: option.split dest: subsetD [OF set_delete_subset])
  qed (use Cons.IH g in simp)
qed simp

text \<open>An \<open>acquireMany\<close> through the bridge without a \<open>ttl\<close>, whatever becomes of it, adds no deadline: what it
  is granted never expires.\<close>

lemma bridge_many_never_expires:
  "set (holderDeadlines (acquireMany E (bridge_acquire_req u ks TtlUndefined pid) ws b)) \<subseteq> set (holderDeadlines b)"
proof (cases "check_keys ks")
  case (Inr keys)
  have ttl: "many_ttl b (a_ttl (bridge_acquire_req u ks TtlUndefined pid)) = Infinity"
    by (simp add: many_ttl_def bridge_acquire_req_def ttl_or_null_def)
  obtain x gs b1 where loop: "am_loop E ws pid Infinity False (fresh_uuid E b) keys [] (next_uuid b) = (x, gs, b1)"
    by (metis prod_cases3)
  have b1: "holderDeadlines b1 = holderDeadlines b" using am_loop_deadlines [OF loop] by simp
  have "set (holderDeadlines (acquire_many_contended E r ws keys cid Infinity k c)) \<subseteq> set (holderDeadlines c)"
    for r cid k and c :: "'a broker"
    by (auto simp: acquire_many_contended_def Let_def queue_waiter_def with_lock_def split: option.splits)
  note contended = subset_trans [OF this rollback_deadlines [of _ b1], unfolded b1]
  show ?thesis
    using loop ttl Inr b1 contended
    by (auto simp: acquireMany_def Let_def bridge_acquire_req_def register_composite_def split: option.split)
qed (simp add: acquireMany_def bridge_acquire_req_def)

subsection \<open>A call that has to wait\<close>

lemma reply_written:
  assumes "parse (text x) = Some x" and "CHR 0x0A \<notin> set (text x)" and "text x \<noteq> []"
    and "vs_writable s" and "\<not> vs_destroyed s"
  shows "vs_ticks (write_reply text parse x s) = vs_ticks s @ [DeliverFrame x]"
    "vs_destroyed (write_reply text parse x s) = vs_destroyed s"
    "vs_log (write_reply text parse x s) = vs_log s"
    "vs_writable (write_reply text parse x s) = vs_writable s"
proof -
  have "split_on (CHR 0x0A) (text x @ [CHR 0x0A]) = [text x, []]"
    using split_on_frames [of "[text x]" "CHR 0x0A"] assms(2) by simp
  then have "chunk_frames parse (text x @ [CHR 0x0A]) = [x]"
    using assms(1,3) by (simp add: chunk_frames_def List.map_filter_simps)
  then show "vs_ticks (write_reply text parse x s) = vs_ticks s @ [DeliverFrame x]"
    "vs_destroyed (write_reply text parse x s) = vs_destroyed s"
    "vs_log (write_reply text parse x s) = vs_log s"
    "vs_writable (write_reply text parse x s) = vs_writable s"
    using assms(4,5) by (simp_all add: write_reply_def vs_write_def next_tick_def)
qed

lemma frames_to_simps [simp]:
  "frames_to ws [] = []" "frames_to ws (Sent ws' x # es) = (if ws' = ws then x # frames_to ws es else frames_to ws es)"
  "frames_to ws (Warn w # es) = frames_to ws es" "frames_to ws (Minted k i t # es) = frames_to ws es"
  by (simp_all add: frames_to_def List.map_filter_simps)

text \<open>The reply of a broker call that sends one frame to the bridge, handed over on the next turn of the socket.\<close>

definition bridge_idle :: "'q bridge \<Rightarrow> bool" where
  "bridge_idle d \<longleftrightarrow> \<not> br_closed d \<and> vs_ticks (br_socket d) = [] \<and> vs_writable (br_socket d) \<and>
     \<not> vs_destroyed (br_socket d) \<and> writable (br_broker d) (br_id d)"

lemma answered_call:
  assumes open_: "\<not> br_closed d" and idle: "vs_ticks (br_socket d) = []"
    and sock: "vs_writable (br_socket d)" "\<not> vs_destroyed (br_socket d)"
    and json: "parse (text x) = Some x" "CHR 0x0A \<notin> set (text x)" "text x \<noteq> []"
    and m: "bridge_method E pid (br_id d) (v4 (br_calls d)) c (br_broker d) = Some b"
    and frames: "frames_to (br_id d) (drop (length (out (br_broker d))) (out b)) = [x]"
    and w: "writable b (br_id d)" and u: "reply_uuid x = Some (v4 (br_calls d))"
  shows "\<exists>d'. bridge_run E v4 pid text parse [BridgeCall c, SocketTurn] d = Some d' \<and> br_broker d' = b \<and>
    br_settled d' = br_settled d @ [(br_calls d, Resolved x (call_tag (v4 (br_calls d)) c))] \<and>
    map_of (br_inflight d') (v4 (br_calls d)) = None \<and> bridge_idle d' \<and> br_id d' = br_id d \<and>
    br_calls d' = Suc (br_calls d)"
proof -
  let ?n = "br_calls d" and ?u = "v4 (br_calls d)"
  define d1 where "d1 = d\<lparr>br_calls := Suc ?n, br_timers := br_timers d @ [?n],
    br_inflight := AList.update ?u \<lparr>pe_call = ?n, pe_tag = call_tag ?u c\<rparr> (br_inflight d)\<rparr>"
  define d2 where "d2 = broker_done text parse b d1"
  have s1: "bridge_step E v4 pid text parse (BridgeCall c) d = Some d2"
    using open_ m by (simp add: Let_def dispatch_def d2_def d1_def)
  note W = reply_written [of parse "text" x, OF json sock]
  have s: "br_socket d2 = write_reply text parse x (br_socket d)"
    using w frames by (simp add: d2_def d1_def broker_done_def Let_def)
  have turn: "socket_turn d2 = onBrokerFrame x (d2\<lparr>br_socket := vs_next (br_socket d2)\<rparr>)"
    using W idle sock(2) by (simp add: socket_turn_def Let_def s vs_next_def vs_emit_def)
  have p: "map_of (br_inflight d2) ?u = Some \<lparr>pe_call = ?n, pe_tag = call_tag ?u c\<rparr>"
    "br_settled d2 = br_settled d" "br_broker d2 = b"
    by (simp_all add: d2_def d1_def broker_done_def Let_def)
  then have "br_settled (socket_turn d2) = br_settled d @ [(?n, Resolved x (call_tag ?u c))]"
    "map_of (br_inflight (socket_turn d2)) ?u = None" "br_broker (socket_turn d2) = b"
    using u by (simp_all add: turn onBrokerFrame_def take_pending_def settle_def clear_promise_timer_def)
  moreover have "bridge_idle (socket_turn d2)" "br_id (socket_turn d2) = br_id d" "br_calls (socket_turn d2) = Suc ?n"
    using u p W idle sock open_ w
    by (simp_all add: turn onBrokerFrame_def take_pending_def settle_def clear_promise_timer_def bridge_idle_def s
        vs_next_def vs_emit_def, simp_all add: d2_def d1_def broker_done_def Let_def)
  moreover note s1
  ultimately show ?thesis by (intro exI [of _ "socket_turn d2"]) simp
qed

lemma out_prelude: "out (lock_prelude E r ws b) = out b"
  by (simp add: lock_prelude_def count_lock_request_def cleanUpLocks_def ensure_ws_keys_def add_ws_uuid_def
      with_lock_def set_lock_def Let_def split: option.split)

lemma contended_lock:
  assumes "validateMaxField r = None" and "get_lock b (l_key r) = Some l"
    and "effective_max r (update_limits r l) \<le> effective_count r (update_limits r l)"
    and "l_wait r = None" and "writable b ws"
  obtains l' ttl where "get_lock (lock E r ws b) (l_key r) = Some l'" "writable (lock E r ws b) = writable b"
    "notify l' = enqueue_request E r ws ttl (notify l)"
    "out (lock E r ws b) =
       out b @ [Sent ws (LockReply (l_uuid r) (l_key r) False (lq_length E (notify l)) (readers l) None None)]"
proof -
  let ?l = "update_limits r (l\<lparr>timestampEmptied := None\<rparr>)" and ?t = "lock_ttl E b r"
  define b1 where "b1 = set_lock (l_key r) ?l (lock_prelude E r ws b)"
  have l: "effective_max r ?l = effective_max r (update_limits r l)" "notify ?l = notify l"
    "effective_count r ?l = effective_count r (update_limits r l)" "readers ?l = readers l"
    by (simp_all add: effective_count_def effective_max_def update_limits_def set_legacy_max_def
        split: option.split)
  have b1: "writable b1 = writable b" "out b1 = out b"
    by (simp_all add: b1_def out_prelude) (simp add: set_lock_def out_prelude)
  have "lock E r ws b = lock_contended E r ws ?t ?l b1"
    using lock_prelude [OF assms(1), of E ws b] assms(2,3) l by (simp add: lock_existing_def Let_def b1_def)
  then show thesis
    using assms(4,5) b1 l
    by (intro that [of "?l\<lparr>notify := enqueue_request E r ws ?t (notify l)\<rparr>" ?t])
      (simp_all add: lock_contended_def Let_def out_send, simp_all add: set_lock_def send_def emit_def b1_def)
qed

text \<open>A \<open>lock\<close> through the bridge on a key that is at its limit resolves with the reply
  \<open>acquired: false\<close>, while the broker keeps the request in the queue of the key under the bridge's
  socket; whatever the broker writes for it later, the grant included, reaches nobody.\<close>

lemma bridge_wait_resolves:
  fixes d :: "'q bridge"
  assumes "linked_queue E contents" and "lq_get E (v4 (br_calls d)) (notify l) = None"
    and r: "r = bridge_lock_req (v4 (br_calls d)) k t mx False keep pid" "validateMaxField r = None"
    and full: "get_lock (br_broker d) k = Some l"
      "effective_max r (update_limits r l) \<le> effective_count r (update_limits r l)"
    and idle: "\<not> br_closed d" "vs_ticks (br_socket d) = []" "vs_writable (br_socket d)"
      "\<not> vs_destroyed (br_socket d)" "writable (br_broker d) (br_id d)"
    and x: "x = LockReply (v4 (br_calls d)) k False (lq_length E (notify l)) (readers l) None None"
    and json: "parse (text x) = Some x" "CHR 0x0A \<notin> set (text x)" "text x \<noteq> []"
  shows "\<exists>d' l' w. bridge_run E v4 pid text parse [BridgeCall (CallLock k t mx False keep), SocketTurn] d = Some d' \<and>
    br_settled d' = br_settled d @ [(br_calls d, Resolved x (Some (v4 (br_calls d))))] \<and>
    get_lock (br_broker d') k = Some l' \<and>
    contents (notify l') = contents (notify l) @ [(v4 (br_calls d), w)] \<and> n_ws w = br_id d \<and>
    (\<forall>y. reply_uuid y = Some (v4 (br_calls d)) \<longrightarrow> onBrokerFrame y d' = d')"
proof -
  let ?u = "v4 (br_calls d)" and ?b = "br_broker d"
  have fields: "l_key r = k" "l_uuid r = ?u" "l_wait r = None" "\<not> l_force r" "l_retryCount r = 0"
    by (simp_all add: r(1) bridge_lock_req_def)
  obtain l' ttl where l': "get_lock (lock E r (br_id d) ?b) k = Some l'"
    "writable (lock E r (br_id d) ?b) = writable ?b" "notify l' = enqueue_request E r (br_id d) ttl (notify l)"
    "out (lock E r (br_id d) ?b) = out ?b @ [Sent (br_id d) x]"
    using contended_lock [OF r(2), of ?b l "br_id d" E] full idle(5) fields by (metis x)
  have q: "contents (notify l') = contents (notify l) @ [(?u, waiter_of r (br_id d) ttl)]"
    using assms(1,2) fields
    by (simp add: l'(3) enqueue_request_def linked_queue.contents_enqueue linked_queue.get_None_iff)
  have m: "bridge_method E pid (br_id d) ?u (CallLock k t mx False keep) ?b = Some (lock E r (br_id d) ?b)"
    by (simp add: r(1))
  have w: "writable (lock E r (br_id d) ?b) (br_id d)" "reply_uuid x = Some ?u"
    using l'(2) idle(5) by (simp_all add: x)
  have f: "frames_to (br_id d) (drop (length (out ?b)) (out (lock E r (br_id d) ?b))) = [x]" by (simp add: l'(4))
  obtain d' where d': "bridge_run E v4 pid text parse [BridgeCall (CallLock k t mx False keep), SocketTurn] d = Some d'"
    "br_broker d' = lock E r (br_id d) ?b"
    "br_settled d' = br_settled d @ [(br_calls d, Resolved x (call_tag ?u (CallLock k t mx False keep)))]"
    "map_of (br_inflight d') ?u = None"
    using answered_call [of d parse "text" x E pid v4 "CallLock k t mx False keep" "lock E r (br_id d) ?b",
      OF idle(1-4) json m f w] by blast
  then have "onBrokerFrame y d' = d'" if "reply_uuid y = Some ?u" for y
    using that by (simp add: onBrokerFrame_def take_pending_def)
  with d' l'(1) q show ?thesis
    by (intro exI [of _ d'] exI [of _ l'] exI [of _ "waiter_of r (br_id d) ttl"]) (simp add: call_tag_def waiter_of_def)
qed

lemma bridge_wait_resolves_witness:
  "\<exists>d' l' w. bridge_run demo bridge_uuid 7 (\<lambda>_. ''w'') (\<lambda>_. Some waiting_reply)
      [BridgeCall (CallLock ''k'' TtlUndefined Undefined False False), SocketTurn] demo_bridge = Some d' \<and>
    br_settled d' = [(0, Resolved waiting_reply (Some ''b''))] \<and>
    get_lock (br_broker d') ''k'' = Some l' \<and> notify l' = [(''b'', w)] \<and> n_ws w = 2"
proof -
  define l where "l = the (get_lock (br_broker demo_bridge) ''k'')"
  let ?r = "bridge_lock_req ''b'' ''k'' TtlUndefined Undefined False False 7"
  have "get_lock (br_broker demo_bridge) ''k'' \<noteq> None" by code_simp
  then have k: "get_lock (br_broker demo_bridge) ''k'' = Some l" by (simp add: l_def)
  have u: "bridge_uuid (br_calls demo_bridge) = ''b''" "br_settled demo_bridge = []" "br_calls demo_bridge = 0"
    "br_id demo_bridge = 2" by code_simp+
  have l: "lq_get demo ''b'' (notify l) = None" "validateMaxField ?r = None" "notify l = []"
    "effective_max ?r (update_limits ?r l) \<le> effective_count ?r (update_limits ?r l)"
    unfolding l_def by code_simp+
  have x: "waiting_reply = LockReply ''b'' ''k'' False (lq_length demo (notify l)) (readers l) None None"
    unfolding l_def by code_simp
  have idle: "\<not> br_closed demo_bridge" "vs_ticks (br_socket demo_bridge) = []" "vs_writable (br_socket demo_bridge)"
    "\<not> vs_destroyed (br_socket demo_bridge)" "writable (br_broker demo_bridge) (br_id demo_bridge)" by code_simp+
  from bridge_wait_resolves [OF demo_queue, of bridge_uuid demo_bridge l, unfolded u(1),
      OF l(1) refl l(2) k l(4) idle x, of "\<lambda>_. Some waiting_reply" "\<lambda>_. ''w''"]
  have "\<exists>d' l' w. bridge_run demo bridge_uuid 7 (\<lambda>_. ''w'') (\<lambda>_. Some waiting_reply)
      [BridgeCall (CallLock ''k'' TtlUndefined Undefined False False), SocketTurn] demo_bridge = Some d' \<and>
    br_settled d' = [(0, Resolved waiting_reply (Some ''b''))] \<and>
    get_lock (br_broker d') ''k'' = Some l' \<and> notify l' = [(''b'', w)] \<and> n_ws w = 2 \<and>
    (\<forall>y. reply_uuid y = Some ''b'' \<longrightarrow> onBrokerFrame y d' = d')"
    unfolding u(2-4) l(3) append_Nil by simp
  then show ?thesis by (elim exE conjE) (intro exI conjI; assumption)
qed

subsection \<open>Shutdown\<close>

text \<open>C22: Shutting the bridge down, on a broker in which nobody waits, returns; it settles every promise, releases
  every hold the bridge has, in every key, and no hold of a connection; a call made afterwards is
  rejected and does not reach the broker.\<close>

theorem bridge_shutdown_ends:
  assumes "linked_queue E contents" and "inj v4"
    and run: "bridge_run E v4 pid text parse evs (new_bridge ws b0) = Some d" and "\<not> br_closed d"
    and "jsmap_wf (locks (br_broker d))" and "\<not> lmxClosed (br_broker d) (br_id d)"
    and "\<And>k l. get_lock (br_broker d) k = Some l \<Longrightarrow> quiet E l \<and> [] \<notin> fst ` set (lockholders l)"
  shows "\<exists>d'. bridge_step E v4 pid text parse BridgeShutdown d = Some d' \<and>
    (\<forall>k. holders (br_broker d') k = filter (\<lambda>p. h_ws (snd p) \<noteq> br_id d) (holders (br_broker d) k)) \<and>
    pendingCount d' = 0 \<and> fst ` set (br_settled d') = {..< br_calls d} \<and>
    (\<forall>c. \<exists>d''. bridge_step E v4 pid text parse (BridgeCall c) d' = Some d'' \<and> br_broker d'' = br_broker d' \<and>
       br_settled d'' = br_settled d' @ [(br_calls d, RejectedClosed)])"
proof -
  obtain b' where b': "cleanupConnection E (br_id d) (br_broker d) = Some b'"
    "\<forall>k. holders b' k = filter (\<lambda>p. h_ws (snd p) \<noteq> br_id d) (holders (br_broker d) k)"
    using cleanup_connection_releases [OF assms(1,5,6)] assms(7) by blast
  define d2 where "d2 = d\<lparr>br_closed := True,
    br_settled := br_settled d @ map (\<lambda>p. (pe_call p, RejectedShutdown)) (map snd (br_inflight d)),
    br_timers := filter (\<lambda>n. n \<notin> pe_call ` set (map snd (br_inflight d))) (br_timers d), br_inflight := []\<rparr>"
  define d3 where "d3 = broker_done text parse b' d2"
  define d' where "d' = d3\<lparr>br_broker := destroy_socket (br_id d3) (br_broker d3), br_socket := vs_destroy False (br_socket d3)\<rparr>"
  have step: "shutdown E text parse d = Some d'"
    using assms(4) b'(1) by (simp add: shutdown_def Let_def shutdown_settles d2_def d3_def d'_def)
  have ok: "promises_ok v4 d'"
    by (rule shutdown_ok [OF bridge_run_ok [OF run new_bridge_ok assms(2)] assms(2) step])
  have f: "br_closed d'" "br_inflight d' = []" "br_calls d' = br_calls d"
    "br_broker d' = destroy_socket (br_id d) b'"
    by (simp_all add: d'_def d3_def d2_def broker_done_def Let_def)
  have "holders (br_broker d') k = holders b' k" for k
    by (simp add: f(4) holders_def destroy_socket_def)
  moreover have "fst ` set (br_settled d') = {..< br_calls d}"
    using ok f(2,3) by (simp add: promises_ok_def pending_calls_def)
  moreover have "bridge_step E v4 pid text parse (BridgeCall c) d' =
      Some (settle (br_calls d) RejectedClosed (d'\<lparr>br_calls := Suc (br_calls d)\<rparr>))" for c
    using f(1,3) by (simp add: Let_def dispatch_def)
  ultimately show ?thesis
    using step b'(2) f(2) by (intro exI [of _ d']) (simp add: pendingCount_def settle_def)
qed

theorem bridge_shutdown_ends_witness:
  "\<exists>d d'. bridge_run demo bridge_uuid 7 (\<lambda>_. ''w'') (\<lambda>_. Some waiting_reply)
      [BridgeCall (CallLock ''j'' TtlUndefined Undefined False False)] demo_bridge = Some d \<and>
    map fst (holders (br_broker d) ''j'') = [''b''] \<and>
    bridge_step demo bridge_uuid 7 (\<lambda>_. ''w'') (\<lambda>_. Some waiting_reply) BridgeShutdown d = Some d' \<and>
    holders (br_broker d') ''j'' = [] \<and> map fst (holders (br_broker d') ''k'') = [''a''] \<and>
    fst ` set (br_settled d') = {0}"
proof -
  let ?run = "bridge_run demo bridge_uuid 7 (\<lambda>_. ''w'') (\<lambda>_. Some waiting_reply)
      [BridgeCall (CallLock ''j'' TtlUndefined Undefined False False)] (new_bridge 2 (after one_held))"
  define d where "d = the ?run"
  have "?run \<noteq> None" by code_simp
  then have run: "?run = Some d" by (simp add: d_def)
  have d: "\<not> br_closed d" "jsmap_wf (locks (br_broker d))" "\<not> lmxClosed (br_broker d) (br_id d)"
    "map fst (holders (br_broker d) ''j'') = [''b'']" "br_calls d = 1" "br_id d = 2"
    unfolding d_def by code_simp+
  have "quiet_holders demo (br_broker d)" unfolding d_def by code_simp
  note q = quiet_holdersD [OF this]
  have h: "filter (\<lambda>p. h_ws (snd p) \<noteq> 2) (holders (br_broker d) ''j'') = []"
    "map fst (filter (\<lambda>p. h_ws (snd p) \<noteq> 2) (holders (br_broker d) ''k'')) = [''a'']"
    unfolding d_def by code_simp+
  obtain d' where
    "bridge_step demo bridge_uuid 7 (\<lambda>_. ''w'') (\<lambda>_. Some waiting_reply) BridgeShutdown d = Some d'"
    "\<forall>k. holders (br_broker d') k = filter (\<lambda>p. h_ws (snd p) \<noteq> br_id d) (holders (br_broker d) k)"
    "fst ` set (br_settled d') = {..< br_calls d}"
    using bridge_shutdown_ends [OF demo_queue inj_bridge_uuid run d(1-3)] q by blast
  note facts = this run d h
  show ?thesis
    by (rule exI [of _ d], rule exI [of _ d'])
      (use facts in \<open>simp add: demo_bridge_def lessThan_Suc del: bridge_step.simps bridge_run.simps\<close>)
qed

end
