(* ===== verification/RWState.thy ===== *)
theory RWState
  imports ClientRun
begin

text \<open>
  The reader/writer clients (\<open>src/src/rw-client.ts\<close>, \<open>src/src/rw-write-preferred-client.ts\<close>): what they
  add to the state of the client, and the calls of its methods they are made of.

  A callback the two classes pass to a method of the base class is a continuation, filed under the
  number of that call. The base class calls a callback at most once, so a continuation that has run
  is dropped. The functions a user gets to end a hold are the objects \<open>boundRelease\<close>, by the number of
  the call they were made in.
\<close>

subsection \<open>Values\<close>

datatype rw_callback =
    UserCb nat                       \<comment> \<open>the callback of a call of the reader/writer API\<close>
  | ReleaseCb nat                    \<comment> \<open>a \<open>boundRelease\<close> that took the place of the callback\<close>
  | NoCb

datatype rw_error = BaseError client_result | InvalidFence | MissingReaders

datatype rw_result =
    RwFailed rw_error
  | RwUsageError
  | NoUnlockStored
  | WriteBegun string
  | ReadBegun string string bool     \<comment> \<open>key, write key, \<open>_lockedWriteKey\<close>\<close>
  | RwEnded client_result
  | Acquired nat                     \<comment> \<open>a \<open>boundRelease\<close>\<close>

datatype rw_event = UserCalled nat bool rw_result | RwThrown

text \<open>\<open>boundRelease\<close> with its properties \<open>_unlock\<close> and \<open>_key\<close>.\<close>

record release =
  rel_key :: string
  rel_reader :: bool
  rel_unlock :: "bound_unlock option"

subsection \<open>Continuations\<close>

datatype rw_cont =
    WriteLocked string rw_callback                            \<comment> \<open>\<open>beginWrite\<close>\<close>
  | WriteEnded rw_callback                                    \<comment> \<open>\<open>endWrite\<close>\<close>
  | ReadLocked string string rw_callback                      \<comment> \<open>\<open>beginRead\<close>\<close>
  | WriteKeyLocked string string bound_unlock rw_callback
  | ReadUnlocked string string bool rw_callback
  | ReadGivenUp rw_error rw_callback
  | EndReadLocked string bool rw_callback                     \<comment> \<open>\<open>endRead\<close>\<close>
  | EndReadUnlocked string bool rw_callback
  | WriteKeyUnlocked rw_callback
  | AcquireWriteLocked string nat rw_callback                 \<comment> \<open>\<open>acquireWriteLock\<close>\<close>
  | AcquireWriteFlagged nat bound_unlock rw_callback
  | AcquireWriteUndone rw_error rw_callback
  | ReleaseWriteUnlocked string nat rw_callback               \<comment> \<open>\<open>releaseWriteLock\<close>\<close>
  | ReleaseWriteCleared nat client_result rw_callback
  | WriteFallbackLocked string rw_callback
  | WriteFallbackUnlocked string rw_callback
  | WriteFallbackCleared client_result rw_callback
  | AcquireReadChecked string lock_opts nat rw_callback       \<comment> \<open>\<open>acquireReadLock\<close>\<close>
  | AcquireReadLocked string nat rw_callback
  | AcquireReadCounted nat bound_unlock rw_callback
  | ReleaseReadDecremented nat bound_unlock rw_callback       \<comment> \<open>\<open>releaseReadLock\<close>\<close>
  | ReleaseReadUnlocked nat rw_callback
  | ReadFallbackLocked string rw_callback
  | ReadFallbackDecremented bound_unlock rw_callback
  | ReadFallbackUnlocked rw_callback
  | Discarded

text \<open>\<open>rw_strict\<close>: the class is one of the hardened subclasses, whose \<open>lock\<close> insists on a token.\<close>

record rw =
  rw_client :: client
  rw_strict :: bool
  rw_conts :: "(nat, rw_cont) jsmap"
  rw_releases :: "(nat, release) jsmap"
  rw_seen :: nat                     \<comment> \<open>output of the base class already looked at\<close>
  rw_ticks :: "(nat \<times> client_result) list"   \<comment> \<open>its callbacks put off by \<open>process.nextTick\<close>\<close>
  rw_calls :: nat
  rw_log :: "rw_event list"

definition new_rw :: "bool \<Rightarrow> client \<Rightarrow> rw" where
  "new_rw strict c = \<lparr>rw_client = c, rw_strict = strict, rw_conts = [], rw_releases = [],
     rw_seen = length (c_out c), rw_ticks = [], rw_calls = 0, rw_log = []\<rparr>"

definition on_client :: "(client \<Rightarrow> client) \<Rightarrow> rw \<Rightarrow> rw" where
  "on_client f s = s\<lparr>rw_client := f (rw_client s)\<rparr>"

subsection \<open>Calls of the base class\<close>

definition base_call :: "(nat \<Rightarrow> string) \<Rightarrow> client_step \<Rightarrow> rw_cont \<Rightarrow> rw \<Rightarrow> rw" where
  "base_call v4 e k s =
     s\<lparr>rw_client := client_handle v4 e (rw_client s),
       rw_conts := AList.update (c_calls (rw_client s)) k (rw_conts s)\<rparr>"

definition base_lock :: "(nat \<Rightarrow> string) \<Rightarrow> string \<Rightarrow> lock_opts \<Rightarrow> rw_cont \<Rightarrow> rw \<Rightarrow> rw" where
  "base_lock v4 key o' k s = base_call v4 (ApiLock key (ArgOptions o') True) k s"

definition base_unlock :: "(nat \<Rightarrow> string) \<Rightarrow> string \<Rightarrow> unlock_opts \<Rightarrow> rw_cont \<Rightarrow> rw \<Rightarrow> rw" where
  "base_unlock v4 key o' k s = base_call v4 (ApiUnlock key (UArgOptions o') True) k s"

definition base_probe :: "(nat \<Rightarrow> string) \<Rightarrow> probe \<Rightarrow> string \<Rightarrow> rw_cont \<Rightarrow> rw \<Rightarrow> rw" where
  "base_probe v4 p key k s = base_call v4 (ApiProbe p key) k s"

text \<open>The function a successful \<open>lock\<close> hands over.\<close>

definition call_bound :: "(nat \<Rightarrow> string) \<Rightarrow> bound_unlock \<Rightarrow> rw_cont \<Rightarrow> rw \<Rightarrow> rw" where
  "call_bound v4 u k s =
     base_unlock v4 (bu_key u)
       (no_unlock_opts\<lparr>uo_uuid := Some (bu_uuid u), uo_rwStatus := bu_rwStatus u, uo_force := Boolean (bu_force u)\<rparr>)
       k s"

definition force_unlock_opts :: "RWStatus option \<Rightarrow> unlock_opts" where
  "force_unlock_opts st = no_unlock_opts\<lparr>uo_force := Boolean True, uo_rwStatus := st\<rparr>"

subsection \<open>Fencing tokens of the hardened classes\<close>

definition assertFencingToken :: "int option \<Rightarrow> bool" where
  "assertFencingToken v = (case v of None \<Rightarrow> False | Some n \<Rightarrow> 1 \<le> n \<and> n \<le> max_safe_integer)"

text \<open>What the callback of \<open>lock\<close> gets: the hold, or an error.\<close>

definition lock_outcome :: "bool \<Rightarrow> client_result \<Rightarrow> rw_error + bound_unlock" where
  "lock_outcome strict r =
     (case r of
        Locked u \<Rightarrow> if strict \<and> \<not> assertFencingToken (bu_fencingToken u) then Inl InvalidFence else Inr u
      | _ \<Rightarrow> Inl (BaseError r))"

fun is_failure :: "client_result \<Rightarrow> bool" where
  "is_failure (LockFailed e) = True"
| "is_failure (UnlockFailed e) = True"
| "is_failure (UsageError e) = True"
| "is_failure (ProbeAnswered err) = err"
| "is_failure _ = False"

subsection \<open>Options\<close>

definition valid_write_key :: "string \<Rightarrow> jsval \<Rightarrow> bool" where
  "valid_write_key key wk = (case wk of String s \<Rightarrow> s \<noteq> [] \<and> s \<noteq> key | _ \<Rightarrow> False)"

fun write_key :: "jsval \<Rightarrow> string" where
  "write_key (String s) = s"
| "write_key _ = []"

text \<open>\<open>if (opts.max === undefined || opts.max === null) opts.max = 10\<close>\<close>

definition default_max :: "lock_opts \<Rightarrow> lock_opts" where
  "default_max o' =
     (if (case o_max o' of None \<Rightarrow> True | Some v \<Rightarrow> nullish v) then o'\<lparr>o_max := Some (Integer 10)\<rparr> else o')"

end
