(* ===== verification/RWClient.thy ===== *)
theory RWClient
  imports RWState
begin

text \<open>
  The methods of the reader/writer clients: the read-preferring \<open>beginRead\<close>, \<open>endRead\<close>, \<open>beginWrite\<close>,
  \<open>endWrite\<close>, and the write-preferring \<open>acquireReadLock\<close>, \<open>releaseReadLock\<close>, \<open>acquireWriteLock\<close>,
  \<open>releaseWriteLock\<close>, cut at the calls whose callback comes later.

  A callback the base class calls at once runs before the base class goes on, also inside \<open>recover\<close> and
  \<open>_fireCallbacksPrematurely\<close>; one it puts off by \<open>process.nextTick\<close> runs when the event is through.
\<close>

subsection \<open>Answering the caller\<close>

definition rw_note :: "rw_event \<Rightarrow> rw \<Rightarrow> rw" where
  "rw_note e s = s\<lparr>rw_log := rw_log s @ [e]\<rparr>"

text \<open>\<open>releaseWriteLock\<close> after its options are parsed: lock, unlock, clear the flag.\<close>

definition write_fallback :: "(nat \<Rightarrow> string) \<Rightarrow> string \<Rightarrow> lock_opts \<Rightarrow> rw_callback \<Rightarrow> rw \<Rightarrow> rw" where
  "write_fallback v4 key o' cb s =
     base_lock v4 key (o'\<lparr>o_max := Some (Integer 1)\<rparr>) (WriteFallbackLocked key cb) s"

definition read_fallback :: "(nat \<Rightarrow> string) \<Rightarrow> string \<Rightarrow> lock_opts \<Rightarrow> rw_callback \<Rightarrow> rw \<Rightarrow> rw" where
  "read_fallback v4 key o' cb s =
     base_lock v4 key (o'\<lparr>o_max := Some (Integer 1)\<rparr>) (ReadFallbackLocked key cb) s"

text \<open>
  \<open>releaseWriteLock(key, boundRelease, cb)\<close>. When \<open>_unlock\<close> is gone, \<open>parseUnlockOpts\<close> takes the function
  \<open>boundRelease\<close> for the callback.
\<close>

definition release_write_with :: "(nat \<Rightarrow> string) \<Rightarrow> string \<Rightarrow> nat \<Rightarrow> rw_callback \<Rightarrow> rw \<Rightarrow> rw" where
  "release_write_with v4 key i cb s =
     (case map_of (rw_releases s) i of
        None \<Rightarrow> s
      | Some rel \<Rightarrow>
          (case rel_unlock rel of
             Some u \<Rightarrow> call_bound v4 u (ReleaseWriteUnlocked key i cb) s
           | None \<Rightarrow> write_fallback v4 key no_opts (ReleaseCb i) s))"

text \<open>\<open>releaseReadLock(key, boundRelease, cb)\<close>. Without a callback \<open>boundRelease\<close> stands in for it.\<close>

definition release_read_with :: "(nat \<Rightarrow> string) \<Rightarrow> string \<Rightarrow> nat \<Rightarrow> rw_callback \<Rightarrow> rw \<Rightarrow> rw" where
  "release_read_with v4 key i cb s =
     (case map_of (rw_releases s) i of
        None \<Rightarrow> s
      | Some rel \<Rightarrow>
          (case rel_unlock rel of
             Some u \<Rightarrow> base_probe v4 DecReaders key
                         (ReleaseReadDecremented i u (if cb = NoCb then ReleaseCb i else cb)) s
           | None \<Rightarrow> read_fallback v4 key no_opts (ReleaseCb i) s))"

text \<open>
  A callback is called. A \<open>boundRelease\<close> in its place gets the error as its argument, which is no
  function: the writer's releases again, the reader's does so while \<open>_unlock\<close> is stored.
\<close>

definition call_back :: "(nat \<Rightarrow> string) \<Rightarrow> rw_callback \<Rightarrow> bool \<Rightarrow> rw_result \<Rightarrow> rw \<Rightarrow> rw" where
  "call_back v4 cb isNextTick r s =
     (case cb of
        UserCb n \<Rightarrow> rw_note (UserCalled n isNextTick r) s
      | NoCb \<Rightarrow> s
      | ReleaseCb i \<Rightarrow>
          (case map_of (rw_releases s) i of
             None \<Rightarrow> s
           | Some rel \<Rightarrow>
               if \<not> rel_reader rel then release_write_with v4 (rel_key rel) i NoCb s
               else if rel_unlock rel = None then s
               else release_read_with v4 (rel_key rel) i NoCb s))"

definition forget_release :: "nat \<Rightarrow> rw \<Rightarrow> rw" where
  "forget_release i s =
     (case map_of (rw_releases s) i of
        None \<Rightarrow> s
      | Some rel \<Rightarrow> s\<lparr>rw_releases := AList.update i (rel\<lparr>rel_unlock := None\<rparr>) (rw_releases s)\<rparr>)"

definition store_unlock :: "nat \<Rightarrow> bound_unlock \<Rightarrow> rw \<Rightarrow> rw" where
  "store_unlock i u s =
     (case map_of (rw_releases s) i of
        None \<Rightarrow> s
      | Some rel \<Rightarrow> s\<lparr>rw_releases := AList.update i (rel\<lparr>rel_unlock := Some u\<rparr>) (rw_releases s)\<rparr>)"

subsection \<open>The read-preferring client\<close>

definition beginWrite_opts :: "lock_opts \<Rightarrow> lock_opts" where
  "beginWrite_opts o' =
     o'\<lparr>o_max := Some (Integer 1), o_force := Some (Boolean True), o_rwStatus := Some BeginWrite\<rparr>"

definition beginRead_opts :: "lock_opts \<Rightarrow> lock_opts" where
  "beginRead_opts o' = (default_max o')\<lparr>o_force := Some (Boolean False), o_rwStatus := Some BeginRead\<rparr>"

definition endRead_opts :: "lock_opts \<Rightarrow> lock_opts" where
  "endRead_opts o' = o'\<lparr>o_rwStatus := Some EndRead, o_max := Some (Integer 1)\<rparr>"

definition begin_write :: "(nat \<Rightarrow> string) \<Rightarrow> string \<Rightarrow> lock_arg \<Rightarrow> rw_callback \<Rightarrow> rw \<Rightarrow> rw" where
  "begin_write v4 key a cb s =
     (if cb = NoCb then rw_note RwThrown s
      else base_lock v4 key (beginWrite_opts (opts_of a)) (WriteLocked key cb) s)"

definition end_write :: "(nat \<Rightarrow> string) \<Rightarrow> string \<Rightarrow> unlock_arg \<Rightarrow> rw_callback \<Rightarrow> rw \<Rightarrow> rw" where
  "end_write v4 key a cb s =
     base_unlock v4 key ((unlock_opts_of a)\<lparr>uo_rwStatus := Some EndWrite, uo_force := Boolean True\<rparr>)
       (WriteEnded cb) s"

definition begin_read :: "(nat \<Rightarrow> string) \<Rightarrow> string \<Rightarrow> lock_arg \<Rightarrow> jsval \<Rightarrow> rw_callback \<Rightarrow> rw \<Rightarrow> rw" where
  "begin_read v4 key a wk cb s =
     (if cb = NoCb then rw_note RwThrown s
      else if (case a of ArgOptions _ \<Rightarrow> False | _ \<Rightarrow> True) \<or> \<not> valid_write_key key wk
      then call_back v4 cb True RwUsageError s
      else base_lock v4 key (beginRead_opts (opts_of a)) (ReadLocked key (write_key wk) cb) s)"

text \<open>
  \<open>bound\<close> is what an options object with a property \<open>_unlock\<close> says of the hold: \<open>_lockedWriteKey\<close> and
  \<open>_writeKey\<close>. The function \<open>beginRead\<close> hands out passes \<open>{writeKey}\<close>, without it.
\<close>

definition end_read ::
  "(nat \<Rightarrow> string) \<Rightarrow> string \<Rightarrow> lock_arg \<Rightarrow> jsval \<Rightarrow> (bool \<times> string) option \<Rightarrow> rw_callback \<Rightarrow> rw \<Rightarrow> rw" where
  "end_read v4 key a wk bound cb s =
     (if (case a of ArgOptions _ \<Rightarrow> False | _ \<Rightarrow> True) \<or> \<not> valid_write_key key wk
      then call_back v4 cb True RwUsageError s
      else base_lock v4 key (endRead_opts (opts_of a))
             (case bound of
                None \<Rightarrow> EndReadLocked (write_key wk) True cb
              | Some (locked, bk) \<Rightarrow> EndReadLocked (if bk \<noteq> [] then bk else write_key wk) locked cb) s)"

text \<open>The callback of the \<open>lock\<close> in \<open>beginRead\<close>.\<close>

definition read_locked :: "(nat \<Rightarrow> string) \<Rightarrow> string \<Rightarrow> string \<Rightarrow> rw_callback \<Rightarrow> rw_error + bound_unlock \<Rightarrow> rw \<Rightarrow> rw" where
  "read_locked v4 key wk cb r s =
     (case r of
        Inl e \<Rightarrow> call_back v4 cb False (RwFailed e) s
      | Inr u \<Rightarrow>
          (case bu_readersCount u of
             None \<Rightarrow> call_back v4 cb False (RwFailed MissingReaders)
                       (s\<lparr>rw_client := log_event (CWarn CallbackError) (cleanUp (Some (bu_uuid u)) (rw_client s))\<rparr>)
           | Some n \<Rightarrow>
               if n = 1
               then base_lock v4 wk (no_opts\<lparr>o_rwStatus := Some LockingWriteKey, o_force := Some (Boolean True)\<rparr>)
                      (WriteKeyLocked key wk u cb) s
               else call_bound v4 u (ReadUnlocked key wk False cb) s))"

definition write_key_locked ::
  "(nat \<Rightarrow> string) \<Rightarrow> string \<Rightarrow> string \<Rightarrow> bound_unlock \<Rightarrow> rw_callback \<Rightarrow> rw_error + bound_unlock \<Rightarrow> rw \<Rightarrow> rw" where
  "write_key_locked v4 key wk u cb r s =
     (case r of
        Inl e \<Rightarrow> call_bound v4 u (ReadGivenUp e cb) s
      | Inr _ \<Rightarrow> call_bound v4 u (ReadUnlocked key wk True cb) s)"

definition read_unlocked ::
  "(nat \<Rightarrow> string) \<Rightarrow> string \<Rightarrow> string \<Rightarrow> bool \<Rightarrow> rw_callback \<Rightarrow> client_result \<Rightarrow> rw \<Rightarrow> rw" where
  "read_unlocked v4 key wk locked cb r s =
     (if is_failure r
      then call_back v4 cb False (RwFailed (BaseError r))
             (if locked then base_unlock v4 wk (force_unlock_opts None) Discarded s else s)
      else call_back v4 cb False (ReadBegun key wk locked) s)"

text \<open>The callbacks in \<open>endRead\<close>.\<close>

definition end_read_locked :: "(nat \<Rightarrow> string) \<Rightarrow> string \<Rightarrow> bool \<Rightarrow> rw_callback \<Rightarrow> rw_error + bound_unlock \<Rightarrow> rw \<Rightarrow> rw" where
  "end_read_locked v4 wk allowed cb r s =
     (case r of
        Inl e \<Rightarrow> call_back v4 cb False (RwFailed e) s
      | Inr u \<Rightarrow>
          (case bu_readersCount u of
             None \<Rightarrow> call_back v4 cb False (RwFailed MissingReaders) s
           | Some n \<Rightarrow> call_bound v4 u (EndReadUnlocked wk (allowed \<and> n = 1) cb) s))"

definition end_read_unlocked :: "(nat \<Rightarrow> string) \<Rightarrow> string \<Rightarrow> bool \<Rightarrow> rw_callback \<Rightarrow> client_result \<Rightarrow> rw \<Rightarrow> rw" where
  "end_read_unlocked v4 wk last_one cb r s =
     (if is_failure r then call_back v4 cb False (RwFailed (BaseError r)) s
      else if last_one then base_unlock v4 wk (force_unlock_opts (Some UnlockingWriteKey)) (WriteKeyUnlocked cb) s
      else call_back v4 cb False (RwEnded r) s)"

text \<open>\<open>err ? cb(err) : cb(null, val)\<close>\<close>

definition pass_on :: "(nat \<Rightarrow> string) \<Rightarrow> rw_callback \<Rightarrow> client_result \<Rightarrow> rw \<Rightarrow> rw" where
  "pass_on v4 cb r s = call_back v4 cb False (if is_failure r then RwFailed (BaseError r) else RwEnded r) s"

subsection \<open>The write-preferring client\<close>

definition new_release :: "nat \<Rightarrow> string \<Rightarrow> bool \<Rightarrow> rw \<Rightarrow> rw" where
  "new_release i key reader s =
     s\<lparr>rw_releases := AList.update i \<lparr>rel_key = key, rel_reader = reader, rel_unlock = None\<rparr> (rw_releases s)\<rparr>"

text \<open>The client writes \<open>max\<close> but neither \<open>maxRead\<close> nor \<open>maxWrite\<close>, so the latter are not options here.\<close>

definition acquire_write :: "(nat \<Rightarrow> string) \<Rightarrow> nat \<Rightarrow> string \<Rightarrow> lock_arg \<Rightarrow> rw_callback \<Rightarrow> rw \<Rightarrow> rw" where
  "acquire_write v4 i key a cb s =
     (if cb = NoCb then rw_note RwThrown s
      else base_lock v4 key ((opts_of a)\<lparr>o_max := Some (Integer 1)\<rparr>) (AcquireWriteLocked key i cb)
             (new_release i key False s))"

definition acquire_write_locked ::
  "(nat \<Rightarrow> string) \<Rightarrow> string \<Rightarrow> nat \<Rightarrow> rw_callback \<Rightarrow> rw_error + bound_unlock \<Rightarrow> rw \<Rightarrow> rw" where
  "acquire_write_locked v4 key i cb r s =
     (case r of
        Inl e \<Rightarrow> call_back v4 cb False (RwFailed e) s
      | Inr u \<Rightarrow> base_probe v4 WriteFlagAndReadersCheck key (AcquireWriteFlagged i u cb) s)"

definition acquire_write_flagged ::
  "(nat \<Rightarrow> string) \<Rightarrow> nat \<Rightarrow> bound_unlock \<Rightarrow> rw_callback \<Rightarrow> client_result \<Rightarrow> rw \<Rightarrow> rw" where
  "acquire_write_flagged v4 i u cb r s =
     (if is_failure r then call_bound v4 u (AcquireWriteUndone (BaseError r) cb) s
      else call_back v4 cb False (Acquired i) (store_unlock i u s))"

text \<open>The arguments of \<open>releaseWriteLock\<close> and \<open>releaseReadLock\<close> when they are not a \<open>boundRelease\<close>.\<close>

datatype release_arg = RelNothing | RelBoolean bool | RelString string | RelNumber | RelOptions lock_opts

text \<open>\<open>opts.max = 1\<close> on a number throws.\<close>

fun release_opts :: "release_arg \<Rightarrow> lock_opts option" where
  "release_opts RelNothing = Some no_opts"
| "release_opts (RelBoolean f) = Some (no_opts\<lparr>o_force := Some (Boolean f)\<rparr>)"
| "release_opts (RelString u) = Some (no_opts\<lparr>o_uuid := Some u\<rparr>)"
| "release_opts RelNumber = None"
| "release_opts (RelOptions o') = Some o'"

definition release_write :: "(nat \<Rightarrow> string) \<Rightarrow> string \<Rightarrow> release_arg \<Rightarrow> rw_callback \<Rightarrow> rw \<Rightarrow> rw" where
  "release_write v4 key a cb s =
     (case release_opts a of None \<Rightarrow> rw_note RwThrown s | Some o' \<Rightarrow> write_fallback v4 key o' cb s)"

definition release_write_unlocked ::
  "(nat \<Rightarrow> string) \<Rightarrow> string \<Rightarrow> nat \<Rightarrow> rw_callback \<Rightarrow> client_result \<Rightarrow> rw \<Rightarrow> rw" where
  "release_write_unlocked v4 key i cb r s =
     (if is_failure r then call_back v4 cb False (RwFailed (BaseError r)) (forget_release i s)
      else base_probe v4 WriteFlagFalse key (ReleaseWriteCleared i r cb) s)"

definition write_fallback_locked ::
  "(nat \<Rightarrow> string) \<Rightarrow> string \<Rightarrow> rw_callback \<Rightarrow> rw_error + bound_unlock \<Rightarrow> rw \<Rightarrow> rw" where
  "write_fallback_locked v4 key cb r s =
     (case r of
        Inl e \<Rightarrow> call_back v4 cb False (RwFailed e) s
      | Inr u \<Rightarrow> call_bound v4 u (WriteFallbackUnlocked key cb) s)"

definition write_fallback_unlocked ::
  "(nat \<Rightarrow> string) \<Rightarrow> string \<Rightarrow> rw_callback \<Rightarrow> client_result \<Rightarrow> rw \<Rightarrow> rw" where
  "write_fallback_unlocked v4 key cb r s =
     (if is_failure r then call_back v4 cb False (RwFailed (BaseError r)) s
      else base_probe v4 WriteFlagFalse key (WriteFallbackCleared r cb) s)"

definition acquire_read :: "(nat \<Rightarrow> string) \<Rightarrow> nat \<Rightarrow> string \<Rightarrow> lock_arg \<Rightarrow> rw_callback \<Rightarrow> rw \<Rightarrow> rw" where
  "acquire_read v4 i key a cb s =
     (if cb = NoCb then rw_note RwThrown s
      else base_probe v4 WriteFlagCheck key (AcquireReadChecked key (opts_of a) i cb) (new_release i key True s))"

definition acquire_read_checked ::
  "(nat \<Rightarrow> string) \<Rightarrow> string \<Rightarrow> lock_opts \<Rightarrow> nat \<Rightarrow> rw_callback \<Rightarrow> client_result \<Rightarrow> rw \<Rightarrow> rw" where
  "acquire_read_checked v4 key o' i cb r s =
     (if is_failure r then call_back v4 cb False (RwFailed (BaseError r)) s
      else base_lock v4 key (default_max o') (AcquireReadLocked key i cb) s)"

definition acquire_read_locked ::
  "(nat \<Rightarrow> string) \<Rightarrow> string \<Rightarrow> nat \<Rightarrow> rw_callback \<Rightarrow> rw_error + bound_unlock \<Rightarrow> rw \<Rightarrow> rw" where
  "acquire_read_locked v4 key i cb r s =
     (case r of
        Inl e \<Rightarrow> call_back v4 cb False (RwFailed e) s
      | Inr u \<Rightarrow> base_probe v4 IncReaders key (AcquireReadCounted i u cb) s)"

definition acquire_read_counted ::
  "(nat \<Rightarrow> string) \<Rightarrow> nat \<Rightarrow> bound_unlock \<Rightarrow> rw_callback \<Rightarrow> client_result \<Rightarrow> rw \<Rightarrow> rw" where
  "acquire_read_counted v4 i u cb r s =
     (if is_failure r then call_back v4 cb False (RwFailed (BaseError r)) (call_bound v4 u Discarded s)
      else call_back v4 cb False (Acquired i) (store_unlock i u s))"

definition release_read :: "(nat \<Rightarrow> string) \<Rightarrow> string \<Rightarrow> release_arg \<Rightarrow> rw_callback \<Rightarrow> rw \<Rightarrow> rw" where
  "release_read v4 key a cb s =
     (case release_opts a of None \<Rightarrow> rw_note RwThrown s | Some o' \<Rightarrow> read_fallback v4 key o' cb s)"

definition release_read_decremented ::
  "(nat \<Rightarrow> string) \<Rightarrow> nat \<Rightarrow> bound_unlock \<Rightarrow> rw_callback \<Rightarrow> client_result \<Rightarrow> rw \<Rightarrow> rw" where
  "release_read_decremented v4 i u cb r s =
     (if is_failure r then call_back v4 cb False (RwFailed (BaseError r)) s
      else call_bound v4 u (ReleaseReadUnlocked i cb) s)"

definition read_fallback_locked ::
  "(nat \<Rightarrow> string) \<Rightarrow> string \<Rightarrow> rw_callback \<Rightarrow> rw_error + bound_unlock \<Rightarrow> rw \<Rightarrow> rw" where
  "read_fallback_locked v4 key cb r s =
     (case r of
        Inl e \<Rightarrow> call_back v4 cb False (RwFailed e) s
      | Inr u \<Rightarrow> base_probe v4 DecReaders key (ReadFallbackDecremented u cb) s)"

definition read_fallback_decremented ::
  "(nat \<Rightarrow> string) \<Rightarrow> bound_unlock \<Rightarrow> rw_callback \<Rightarrow> client_result \<Rightarrow> rw \<Rightarrow> rw" where
  "read_fallback_decremented v4 u cb r s =
     (if is_failure r then call_back v4 cb False (RwFailed (BaseError r)) s
      else call_bound v4 u (ReadFallbackUnlocked cb) s)"

text \<open>The function a user was given: the reader's needs a stored \<open>_unlock\<close>.\<close>

definition call_release :: "(nat \<Rightarrow> string) \<Rightarrow> nat \<Rightarrow> rw_callback \<Rightarrow> rw \<Rightarrow> rw" where
  "call_release v4 i cb s =
     (case map_of (rw_releases s) i of
        None \<Rightarrow> s
      | Some rel \<Rightarrow>
          if rel_reader rel
          then (if rel_unlock rel = None then call_back v4 cb True NoUnlockStored s
                else release_read_with v4 (rel_key rel) i cb s)
          else release_write_with v4 (rel_key rel) i cb s)"

subsection \<open>Running continuations\<close>

fun run_cont :: "(nat \<Rightarrow> string) \<Rightarrow> rw_cont \<Rightarrow> client_result \<Rightarrow> rw \<Rightarrow> rw" where
  "run_cont v4 (WriteLocked key cb) r s =
     (case lock_outcome (rw_strict s) r of
        Inl e \<Rightarrow> call_back v4 cb False (RwFailed e) s
      | Inr u \<Rightarrow> call_back v4 cb False (WriteBegun key) s)"
| "run_cont v4 (WriteEnded cb) r s = pass_on v4 cb r s"
| "run_cont v4 (ReadLocked key wk cb) r s = read_locked v4 key wk cb (lock_outcome (rw_strict s) r) s"
| "run_cont v4 (WriteKeyLocked key wk u cb) r s =
     write_key_locked v4 key wk u cb (lock_outcome (rw_strict s) r) s"
| "run_cont v4 (ReadUnlocked key wk locked cb) r s = read_unlocked v4 key wk locked cb r s"
| "run_cont v4 (ReadGivenUp e cb) r s = call_back v4 cb False (RwFailed e) s"
| "run_cont v4 (EndReadLocked wk allowed cb) r s =
     end_read_locked v4 wk allowed cb (lock_outcome (rw_strict s) r) s"
| "run_cont v4 (EndReadUnlocked wk last_one cb) r s = end_read_unlocked v4 wk last_one cb r s"
| "run_cont v4 (WriteKeyUnlocked cb) r s = pass_on v4 cb r s"
| "run_cont v4 (AcquireWriteLocked key i cb) r s =
     acquire_write_locked v4 key i cb (lock_outcome (rw_strict s) r) s"
| "run_cont v4 (AcquireWriteFlagged i u cb) r s = acquire_write_flagged v4 i u cb r s"
| "run_cont v4 (AcquireWriteUndone e cb) r s = call_back v4 cb False (RwFailed e) s"
| "run_cont v4 (ReleaseWriteUnlocked key i cb) r s = release_write_unlocked v4 key i cb r s"
| "run_cont v4 (ReleaseWriteCleared i v cb) r s = call_back v4 cb False (RwEnded v) (forget_release i s)"
| "run_cont v4 (WriteFallbackLocked key cb) r s =
     write_fallback_locked v4 key cb (lock_outcome (rw_strict s) r) s"
| "run_cont v4 (WriteFallbackUnlocked key cb) r s = write_fallback_unlocked v4 key cb r s"
| "run_cont v4 (WriteFallbackCleared v cb) r s = call_back v4 cb False (RwEnded v) s"
| "run_cont v4 (AcquireReadChecked key o' i cb) r s = acquire_read_checked v4 key o' i cb r s"
| "run_cont v4 (AcquireReadLocked key i cb) r s =
     acquire_read_locked v4 key i cb (lock_outcome (rw_strict s) r) s"
| "run_cont v4 (AcquireReadCounted i u cb) r s = acquire_read_counted v4 i u cb r s"
| "run_cont v4 (ReleaseReadDecremented i u cb) r s = release_read_decremented v4 i u cb r s"
| "run_cont v4 (ReleaseReadUnlocked i cb) r s = pass_on v4 cb r (forget_release i s)"
| "run_cont v4 (ReadFallbackLocked key cb) r s =
     read_fallback_locked v4 key cb (lock_outcome (rw_strict s) r) s"
| "run_cont v4 (ReadFallbackDecremented u cb) r s = read_fallback_decremented v4 u cb r s"
| "run_cont v4 (ReadFallbackUnlocked cb) r s = pass_on v4 cb r s"
| "run_cont v4 Discarded r s = s"

definition run_call :: "(nat \<Rightarrow> string) \<Rightarrow> nat \<Rightarrow> client_result \<Rightarrow> rw \<Rightarrow> rw" where
  "run_call v4 m r s =
     (case map_of (rw_conts s) m of
        None \<Rightarrow> s
      | Some k \<Rightarrow> run_cont v4 k r (s\<lparr>rw_conts := AList.delete m (rw_conts s)\<rparr>))"

definition react :: "(nat \<Rightarrow> string) \<Rightarrow> client_event \<Rightarrow> rw \<Rightarrow> rw" where
  "react v4 e s =
     (case e of
        Called m isNextTick r \<Rightarrow> if isNextTick then s\<lparr>rw_ticks := rw_ticks s @ [(m, r)]\<rparr> else run_call v4 m r s
      | _ \<Rightarrow> s)"

text \<open>All callbacks that were called at once, also those of the calls they make; \<open>None\<close>: they never end.\<close>

partial_function (option) settle_calls :: "(nat \<Rightarrow> string) \<Rightarrow> rw \<Rightarrow> rw option" where
  "settle_calls v4 s =
     (if length (c_out (rw_client s)) \<le> rw_seen s then Some s
      else settle_calls v4 (react v4 (c_out (rw_client s) ! rw_seen s) (s\<lparr>rw_seen := Suc (rw_seen s)\<rparr>)))"

text \<open>The callbacks that were put off, in order.\<close>

partial_function (option) run_ticks :: "(nat \<Rightarrow> string) \<Rightarrow> rw \<Rightarrow> rw option" where
  "run_ticks v4 s =
     (case rw_ticks s of
        [] \<Rightarrow> Some s
      | (m, r) # ts \<Rightarrow> Option.bind (settle_calls v4 (run_call v4 m r (s\<lparr>rw_ticks := ts\<rparr>))) (run_ticks v4))"

declare settle_calls.simps [code] run_ticks.simps [code]

definition next_call :: "(nat \<Rightarrow> string) \<Rightarrow> rw \<Rightarrow> rw" where
  "next_call v4 s = react v4 (c_out (rw_client s) ! rw_seen s) (s\<lparr>rw_seen := Suc (rw_seen s)\<rparr>)"

lemma settle_calls_unfold:
  "settle_calls v4 s =
     (if length (c_out (rw_client s)) \<le> rw_seen s then Some s else settle_calls v4 (next_call v4 s))"
  by (subst settle_calls.simps) (simp add: next_call_def)

lemma settle_induct [consumes 1, case_names finished again]:
  assumes "settle_calls v4 s = Some s'"
    and "\<And>s. length (c_out (rw_client s)) \<le> rw_seen s \<Longrightarrow> P s s"
    and "\<And>s s'. rw_seen s < length (c_out (rw_client s)) \<Longrightarrow> settle_calls v4 (next_call v4 s) = Some s' \<Longrightarrow>
      P (next_call v4 s) s' \<Longrightarrow> P s s'"
  shows "P s s'"
proof -
  have "v = v4 \<longrightarrow> settle_calls v s = Some y \<and> P s y" if "settle_calls v s = Some y" for v s y
  proof (rule settle_calls.raw_induct [OF _ that])
    fix f v s y
    assume IH: "\<And>v s y. f v s = Some y \<Longrightarrow> v = v4 \<longrightarrow> settle_calls v s = Some y \<and> P s y"
      and eq: "(if length (c_out (rw_client s)) \<le> rw_seen s then Some s
        else f v (react v (c_out (rw_client s) ! rw_seen s) (s\<lparr>rw_seen := Suc (rw_seen s)\<rparr>))) = Some y"
    show "v = v4 \<longrightarrow> settle_calls v s = Some y \<and> P s y"
    proof (cases "length (c_out (rw_client s)) \<le> rw_seen s")
      case True
      with eq assms(2) show ?thesis by (simp add: settle_calls_unfold)
    next
      case False
      with eq have "f v (next_call v s) = Some y" by (simp add: next_call_def)
      then have "v = v4 \<longrightarrow> settle_calls v (next_call v s) = Some y \<and> P (next_call v s) y" by (rule IH)
      with False assms(3) show ?thesis by (auto simp: settle_calls_unfold [of v4 s])
    qed
  qed
  with assms(1) show ?thesis by blast
qed

lemma run_ticks_induct [consumes 1, case_names finished again]:
  assumes "run_ticks v4 s = Some s'"
    and "\<And>s. rw_ticks s = [] \<Longrightarrow> P s s"
    and "\<And>s m r ts t s'. rw_ticks s = (m, r) # ts \<Longrightarrow> settle_calls v4 (run_call v4 m r (s\<lparr>rw_ticks := ts\<rparr>)) = Some t \<Longrightarrow>
      P t s' \<Longrightarrow> P s s'"
  shows "P s s'"
proof -
  have "v = v4 \<longrightarrow> P s y" if "run_ticks v s = Some y" for v s y
  proof (rule run_ticks.raw_induct [OF _ that])
    fix f v s y
    assume IH: "\<And>v s y. f v s = Some y \<Longrightarrow> v = v4 \<longrightarrow> P s y"
      and eq: "(case rw_ticks s of [] \<Rightarrow> Some s
        | (m, r) # ts \<Rightarrow> Option.bind (settle_calls v (run_call v m r (s\<lparr>rw_ticks := ts\<rparr>))) (f v)) = Some y"
    show "v = v4 \<longrightarrow> P s y"
      using eq assms(2,3) IH by (auto split: list.splits prod.splits Option.bind_splits)
  qed
  with assms(1) show ?thesis by blast
qed

subsection \<open>The loops of the base class\<close>

text \<open>One step of the base class for each resolution, with the callbacks it calls.\<close>

fun rw_each :: "(nat \<Rightarrow> string) \<Rightarrow> (string \<times> resolution \<Rightarrow> client \<Rightarrow> client) \<Rightarrow> (string \<times> resolution) list \<Rightarrow> rw \<Rightarrow> rw option"
where
  "rw_each v4 f [] s = Some s"
| "rw_each v4 f (p # ps) s = Option.bind (settle_calls v4 (on_client (f p) s)) (rw_each v4 f ps)"

definition rw_fireCallbacksPrematurely :: "(nat \<Rightarrow> string) \<Rightarrow> rw \<Rightarrow> rw option" where
  "rw_fireCallbacksPrematurely v4 s =
     rw_each v4 (fire_premature v4) (c_resolutions (rw_client s)) (on_client stop_timers s)"

definition rw_recover :: "(nat \<Rightarrow> string) \<Rightarrow> rw \<Rightarrow> rw option" where
  "rw_recover v4 s =
     (if c_recoverCalled (rw_client s) then Some s
      else (let s1 = on_client (\<lambda>c. c\<lparr>c_recoverCalled := True\<rparr>) s
            in if c_noRecover (rw_client s1) then Some s1
               else map_option (on_client end_recovery)
                      (rw_each v4 (recover_one v4) (c_resolutions (rw_client s1)) (on_client begin_recovery s1))))"

definition refuses_version :: "client_frame \<Rightarrow> client \<Rightarrow> bool" where
  "refuses_version f c = (cf_type f = ''version-mismatch'' \<and> c_errorListener c)"

fun rw_base :: "(nat \<Rightarrow> string) \<Rightarrow> client_step \<Rightarrow> rw \<Rightarrow> rw option" where
  "rw_base v4 (FrameArrived f) s =
     (if refuses_version f (rw_client s)
      then rw_fireCallbacksPrematurely v4 (on_client (\<lambda>c. refuse_version (announce f c)) s)
      else Some (on_client (client_onData v4 f) s))"
| "rw_base v4 StreamEnded s = rw_recover v4 s"
| "rw_base v4 ApiEndConnection s = map_option (on_client hang_up) (rw_fireCallbacksPrematurely v4 s)"
| "rw_base v4 ApiClose s =
     map_option (on_client forget_all) (rw_fireCallbacksPrematurely v4 (on_client (\<lambda>c. c\<lparr>c_noRecover := True\<rparr>) s))"
| "rw_base v4 e s = Some (on_client (client_handle v4 e) s)"

subsection \<open>Events\<close>

text \<open>
  \<open>has\<close>: whether a callback is passed last; it may also take the place of the options. Its number,
  and that of a \<open>boundRelease\<close>, is that of the call.
\<close>

datatype rw_step =
    RwBase client_step
  | OpBeginWrite string lock_arg bool
  | OpEndWrite string unlock_arg bool
  | OpBeginRead string lock_arg jsval bool
  | OpEndRead string lock_arg jsval "(bool \<times> string) option" bool
  | OpAcquireWrite string lock_arg bool
  | OpReleaseWrite string release_arg bool
  | OpAcquireRead string lock_arg bool
  | OpReleaseRead string release_arg bool
  | OpRelease nat bool

definition callback_of :: "lock_arg \<Rightarrow> bool \<Rightarrow> rw \<Rightarrow> rw_callback" where
  "callback_of a has s =
     (if has \<or> (case a of ArgCallback _ \<Rightarrow> True | _ \<Rightarrow> False) then UserCb (rw_calls s) else NoCb)"

definition unlock_callback_of :: "unlock_arg \<Rightarrow> bool \<Rightarrow> rw \<Rightarrow> rw_callback" where
  "unlock_callback_of a has s =
     (if has \<or> (case a of UArgCallback _ \<Rightarrow> True | _ \<Rightarrow> False) then UserCb (rw_calls s) else NoCb)"

definition own_callback :: "bool \<Rightarrow> rw \<Rightarrow> rw_callback" where
  "own_callback has s = (if has then UserCb (rw_calls s) else NoCb)"

fun rw_begin :: "(nat \<Rightarrow> string) \<Rightarrow> rw_step \<Rightarrow> rw \<Rightarrow> rw option" where
  "rw_begin v4 (RwBase e) s = rw_base v4 e s"
| "rw_begin v4 (OpBeginWrite key a has) s = Some (begin_write v4 key a (callback_of a has s) s)"
| "rw_begin v4 (OpEndWrite key a has) s = Some (end_write v4 key a (unlock_callback_of a has s) s)"
| "rw_begin v4 (OpBeginRead key a wk has) s = Some (begin_read v4 key a wk (callback_of a has s) s)"
| "rw_begin v4 (OpEndRead key a wk bound has) s =
     Some (end_read v4 key a wk bound (callback_of a has s) s)"
| "rw_begin v4 (OpAcquireWrite key a has) s =
     Some (acquire_write v4 (rw_calls s) key a (callback_of a has s) s)"
| "rw_begin v4 (OpReleaseWrite key a has) s = Some (release_write v4 key a (own_callback has s) s)"
| "rw_begin v4 (OpAcquireRead key a has) s =
     Some (acquire_read v4 (rw_calls s) key a (callback_of a has s) s)"
| "rw_begin v4 (OpReleaseRead key a has) s = Some (release_read v4 key a (own_callback has s) s)"
| "rw_begin v4 (OpRelease i has) s = Some (call_release v4 i (own_callback has s) s)"

definition rw_handle :: "(nat \<Rightarrow> string) \<Rightarrow> rw_step \<Rightarrow> rw \<Rightarrow> rw option" where
  "rw_handle v4 e s =
     Option.bind (rw_begin v4 e s)
       (\<lambda>t. Option.bind (settle_calls v4 (t\<lparr>rw_calls := Suc (rw_calls s)\<rparr>)) (run_ticks v4))"

end
