(* ===== verification/RWCalls.thy ===== *)
theory RWCalls
  imports RWClient
begin

text \<open>
  What becomes of the callbacks passed to the reader/writer clients: each is either held by one
  continuation or has been called once, and running the callbacks that are due comes to an end unless
  a \<open>boundRelease\<close> has taken the place of a callback.
\<close>

subsection \<open>Call numbers of the base class\<close>

named_theorems call_numbers

lemma calls_write [call_numbers, simp]: "c_calls (write_frame r c) = c_calls c"
  by (simp add: write_frame_def start_connection_def log_event_def split: socket_state.split)

lemma calls_forget [call_numbers, simp]:
  "c_calls (log_event e c) = c_calls c" "c_calls (clear_timer u c) = c_calls c"
  "c_calls (del_timer u c) = c_calls c" "c_calls (del_resolution u c) = c_calls c"
  "c_calls (del_timeout u c) = c_calls c" "c_calls (start_timer u t ms c) = c_calls c"
  "c_calls (set_resolution u r c) = c_calls c"
  by (simp_all add: log_event_def clear_timer_def del_timer_def del_resolution_def del_timeout_def
      start_timer_def set_resolution_def split: option.split)

lemma calls_cleanUp [call_numbers, simp]: "c_calls (cleanUp uo c) = c_calls c"
  by (simp add: cleanUp_def Let_def split: option.split)

lemma calls_answers [call_numbers, simp]:
  "c_calls (fireLockCallbackWithError cb b err c) = c_calls c" "c_calls (call_unlock uo b r c) = c_calls c"
  "c_calls (fireUnlockCallbackWithError uo b ue c) = c_calls c" "c_calls (ask_unlock uo c) = c_calls c"
  by (simp_all add: fireLockCallbackWithError_def call_unlock_def fireUnlockCallbackWithError_def
      ask_unlock_def split: option.split)

lemma calls_lock [call_numbers, simp]:
  "c_calls (attempt key u j cb c) = c_calls c" "c_calls (lockInternal v4 key j cb c) = c_calls c"
  "c_calls (client_lock v4 key a co c) = c_calls c" "c_calls (client_unlock v4 key ua co c) = c_calls c"
proof -
  show a: "c_calls (attempt key u j cb c) = c_calls c" for u j cb c
    by (simp add: attempt_def Let_def split: option.split)
  show l: "c_calls (lockInternal v4 key j cb c) = c_calls c" for j cb c
    by (simp add: lockInternal_def fresh_uuid_of_def a)
  show "c_calls (client_lock v4 key a co c) = c_calls c"
    by (simp add: client_lock_def l split: sum.split prod.split)
  show "c_calls (client_unlock v4 key ua co c) = c_calls c"
    by (simp add: client_unlock_def fresh_uuid_of_def Let_def split: option.split prod.split)
qed

lemma calls_resolutions [call_numbers, simp]:
  "c_calls (lock_timed_out v4 a u key j cb c) = c_calls c"
  "c_calls (lock_resolved v4 a u key j cb err d c) = c_calls c"
  "c_calls (unlock_timed_out a u key uo c) = c_calls c"
  "c_calls (unlock_resolved a u key uo err d c) = c_calls c"
  "c_calls (info_resolved u key cb err d c) = c_calls c"
  "c_calls (reply_resolved u ty ok failed cb err d c) = c_calls c"
  "c_calls (probe_resolved u p cb err d c) = c_calls c"
  by (simp_all add: lock_timed_out_def lock_resolved_def unlock_timed_out_def unlock_resolved_def
      info_resolved_def reply_resolved_def probe_resolved_def Let_def split: option.split)

lemma calls_run [call_numbers, simp]:
  "c_calls (run_resolution v4 r err d c) = c_calls c" "c_calls (fire_timer v4 t c) = c_calls c"
proof -
  show "c_calls (run_resolution v4 r err d c) = c_calls c" by (cases r) simp_all
  have "c_calls (run_timer v4 tm c) = c_calls c" for tm c by (cases tm) simp_all
  then show "c_calls (fire_timer v4 t c) = c_calls c" by (simp add: fire_timer_def split: option.split)
qed

lemma calls_fold: "(\<And>x c. c_calls (f x c) = c_calls c) \<Longrightarrow> c_calls (fold f xs c) = c_calls c"
  by (induction xs arbitrary: c) simp_all

lemma calls_connection [call_numbers, simp]:
  "c_calls (fireCallbacksPrematurely v4 c) = c_calls c" "c_calls (recover v4 c) = c_calls c"
  "c_calls (disable_socket c) = c_calls c" "c_calls (endCurrentConnection v4 c) = c_calls c"
  "c_calls (client_close v4 c) = c_calls c" "c_calls (start_connection c) = c_calls c"
  "c_calls (client_connect c) = c_calls c" "c_calls (connect_failed c) = c_calls c"
proof -
  have f: "c_calls (fold (fire_premature v4) rs c) = c_calls c" "c_calls (fold (recover_one v4) rs c) = c_calls c"
    "c_calls (fold write_frame ws c) = c_calls c" for rs ws c
    by (rule calls_fold; simp add: fire_premature_def recover_one_def Let_def)+
  show a: "c_calls (fireCallbacksPrematurely v4 c) = c_calls c" for c by (simp add: fireCallbacksPrematurely_def stop_timers_def f)
  show d: "c_calls (disable_socket c) = c_calls c" for c by (simp add: disable_socket_def)
  show s: "c_calls (start_connection c) = c_calls c" for c by (simp add: start_connection_def)
  show "c_calls (recover v4 c) = c_calls c" by (simp add: recover_def begin_recovery_def end_recovery_def Let_def f s d)
  show "c_calls (endCurrentConnection v4 c) = c_calls c" by (simp add: endCurrentConnection_def hang_up_def a d)
  show "c_calls (client_close v4 c) = c_calls c" by (simp add: client_close_def forget_all_def stop_timers_def a d)
  show "c_calls (client_connect c) = c_calls c" by (simp add: client_connect_def Let_def f)
  show "c_calls (connect_failed c) = c_calls c" by (simp add: connect_failed_def Let_def d)
qed

lemma calls_data [call_numbers, simp]: "c_calls (client_onData v4 f c) = c_calls c"
proof -
  have "c_calls (deliver v4 u f c) = c_calls c" for u c
    by (simp add: deliver_def reject_frame_def Let_def split: option.split)
  then show ?thesis by (simp add: client_onData_def announce_def refuse_version_def Let_def)
qed

definition is_api :: "client_step \<Rightarrow> bool" where
  "is_api e = (case e of ApiLock _ _ _ \<Rightarrow> True | ApiUnlock _ _ _ \<Rightarrow> True | ApiProbe _ _ \<Rightarrow> True | _ \<Rightarrow> False)"

lemma calls_handle:
  "c_calls c \<le> c_calls (client_handle v4 e c)"
  "is_api e \<Longrightarrow> c_calls (client_handle v4 e c) = Suc (c_calls c)"
  by (cases e; simp add: new_call_def is_api_def client_acquire_def client_release_def requestLockInfo_def
      client_ls_def client_ping_def client_getSystemStats_def client_probe_def fresh_uuid_of_def Let_def)+

subsection \<open>Who holds a callback\<close>

fun cb_of :: "rw_cont \<Rightarrow> rw_callback" where
  "cb_of (WriteLocked key cb) = cb"
| "cb_of (WriteEnded cb) = cb"
| "cb_of (ReadLocked key wk cb) = cb"
| "cb_of (WriteKeyLocked key wk u cb) = cb"
| "cb_of (ReadUnlocked key wk locked cb) = cb"
| "cb_of (ReadGivenUp e cb) = cb"
| "cb_of (EndReadLocked wk allowed cb) = cb"
| "cb_of (EndReadUnlocked wk last_one cb) = cb"
| "cb_of (WriteKeyUnlocked cb) = cb"
| "cb_of (AcquireWriteLocked key i cb) = cb"
| "cb_of (AcquireWriteFlagged i u cb) = cb"
| "cb_of (AcquireWriteUndone e cb) = cb"
| "cb_of (ReleaseWriteUnlocked key i cb) = cb"
| "cb_of (ReleaseWriteCleared i v cb) = cb"
| "cb_of (WriteFallbackLocked key cb) = cb"
| "cb_of (WriteFallbackUnlocked key cb) = cb"
| "cb_of (WriteFallbackCleared v cb) = cb"
| "cb_of (AcquireReadChecked key o' i cb) = cb"
| "cb_of (AcquireReadLocked key i cb) = cb"
| "cb_of (AcquireReadCounted i u cb) = cb"
| "cb_of (ReleaseReadDecremented i u cb) = cb"
| "cb_of (ReleaseReadUnlocked i cb) = cb"
| "cb_of (ReadFallbackLocked key cb) = cb"
| "cb_of (ReadFallbackDecremented u cb) = cb"
| "cb_of (ReadFallbackUnlocked cb) = cb"
| "cb_of Discarded = NoCb"

fun called_user :: "rw_event \<Rightarrow> nat option" where
  "called_user (UserCalled n b r) = Some n"
| "called_user RwThrown = None"

text \<open>How often the callback \<open>n\<close> is held by a continuation or has been called.\<close>

definition claims :: "nat \<Rightarrow> rw \<Rightarrow> nat" where
  "claims n s = count_list (map (cb_of \<circ> snd) (rw_conts s)) (UserCb n) +
     count_list (map called_user (rw_log s)) (Some n)"

definition conts_ok :: "rw \<Rightarrow> bool" where
  "conts_ok s \<longleftrightarrow> distinct (map fst (rw_conts s)) \<and> (\<forall>m \<in> set (map fst (rw_conts s)). m < c_calls (rw_client s))"

text \<open>From \<open>s\<close> to \<open>s'\<close> the callback \<open>cb\<close> changed hands, and no other did.\<close>

definition hands_over :: "rw_callback \<Rightarrow> rw \<Rightarrow> rw \<Rightarrow> bool" where
  "hands_over cb s s' \<longleftrightarrow> rw_calls s' = rw_calls s \<and>
     (conts_ok s \<longrightarrow> conts_ok s' \<and> (\<forall>n. claims n s' = claims n s + of_bool (cb = UserCb n)))"

named_theorems handing

lemma update_new: "k \<notin> fst ` set al \<Longrightarrow> AList.update k v al = al @ [(k, v)]"
  by (induction al) auto

lemma hand_base [handing]: "is_api e \<Longrightarrow> hands_over (cb_of k) s (base_call v4 e k s)"
proof -
  assume e: "is_api e"
  have "conts_ok s \<Longrightarrow> c_calls (rw_client s) \<notin> fst ` set (rw_conts s)" by (auto simp: conts_ok_def)
  then show ?thesis
    using calls_handle(2) [OF e, of v4 "rw_client s"]
    by (auto simp: hands_over_def conts_ok_def claims_def base_call_def update_new)
qed

lemma hand_lock [handing]: "hands_over (cb_of k) s (base_lock v4 key o' k s)"
  by (simp add: base_lock_def is_api_def hand_base)

lemma hand_unlock [handing]: "hands_over (cb_of k) s (base_unlock v4 key u k s)"
  by (simp add: base_unlock_def is_api_def hand_base)

lemma hand_probe [handing]: "hands_over (cb_of k) s (base_probe v4 p key k s)"
  by (simp add: base_probe_def is_api_def hand_base)

lemma hand_bound [handing]: "hands_over (cb_of k) s (call_bound v4 u k s)"
  by (simp add: call_bound_def hand_unlock)

lemma hand_none [handing]:
  "hands_over NoCb s s" "hands_over NoCb s (rw_note RwThrown s)" "hands_over NoCb s (forget_release i s)"
  "hands_over NoCb s (store_unlock i u s)" "hands_over NoCb s (new_release i key rd s)"
  "hands_over (UserCb n) s (rw_note (UserCalled n b r) s)" "hands_over (ReleaseCb i) s s"
  by (auto simp: hands_over_def conts_ok_def claims_def rw_note_def forget_release_def store_unlock_def
      new_release_def split: option.split)

lemma hand_client [handing]:
  "c_calls (rw_client s) \<le> c_calls c \<Longrightarrow> hands_over NoCb s (s\<lparr>rw_client := c\<rparr>)"
  by (auto simp: hands_over_def conts_ok_def claims_def)

lemma hand_then: "hands_over NoCb s t \<Longrightarrow> hands_over cb t u \<Longrightarrow> hands_over cb s u"
  by (simp add: hands_over_def)

lemma hand_first: "hands_over cb s t \<Longrightarrow> hands_over NoCb t u \<Longrightarrow> hands_over cb s u"
  by (simp add: hands_over_def)

text \<open>A \<open>boundRelease\<close> is no callback of a user: it may turn up or get lost.\<close>

lemma hand_release: "hands_over (ReleaseCb i) s t \<longleftrightarrow> hands_over NoCb s t"
  by (simp add: hands_over_def)

lemma hand_lock_as [intro]: "cb_of k = cb \<Longrightarrow> hands_over cb s (base_lock v4 key o' k s)"
  using hand_lock by metis

lemma hand_unlock_as [intro]: "cb_of k = cb \<Longrightarrow> hands_over cb s (base_unlock v4 key u k s)"
  using hand_unlock by metis

lemma hand_probe_as [intro]: "cb_of k = cb \<Longrightarrow> hands_over cb s (base_probe v4 p key k s)"
  using hand_probe by metis

lemma hand_bound_as [intro]: "cb_of k = cb \<Longrightarrow> hands_over cb s (call_bound v4 u k s)"
  using hand_bound by metis

lemma hand_fallbacks [handing]:
  "hands_over cb s (write_fallback v4 key o' cb s)" "hands_over cb s (read_fallback v4 key o' cb s)"
  by (auto simp: write_fallback_def read_fallback_def)

lemma hand_fallback_release:
  "hands_over NoCb s (write_fallback v4 key o' (ReleaseCb i) s)"
  "hands_over NoCb s (read_fallback v4 key o' (ReleaseCb i) s)"
  using hand_fallbacks [of "ReleaseCb i"] by (simp_all add: hand_release)

lemma hand_release_with:
  "hands_over NoCb s (release_write_with v4 key i NoCb s)" "hands_over NoCb s (release_read_with v4 key i NoCb s)"
proof -
  have "hands_over NoCb s (base_probe v4 p key (ReleaseReadDecremented i u (ReleaseCb i)) s)" for p u
    using hand_probe [of "ReleaseReadDecremented i u (ReleaseCb i)"] by (simp add: hand_release)
  then show "hands_over NoCb s (release_write_with v4 key i NoCb s)" "hands_over NoCb s (release_read_with v4 key i NoCb s)"
    by (auto simp: release_write_with_def release_read_with_def hand_none hand_fallback_release split: option.split)
qed

lemma hand_call_back [handing]: "hands_over cb s (call_back v4 cb b r s)"
  by (cases cb) (auto simp: call_back_def hand_none hand_release hand_release_with split: option.split)

lemma hand_call_back_forget [handing]: "hands_over cb s (call_back v4 cb b r (forget_release i s))"
  by (rule hand_then [OF hand_none(3) hand_call_back])

lemma hand_run_cont: "hands_over (cb_of k) s (run_cont v4 k r s)"
proof (cases k)
  case (ReadLocked key wk cb)
  have "hands_over cb s (call_back v4 cb False e
      (s\<lparr>rw_client := log_event (CWarn CallbackError) (cleanUp uo (rw_client s))\<rparr>))" for e uo
    by (rule hand_then [OF hand_client hand_call_back]) simp
  with ReadLocked show ?thesis
    by (auto simp: read_locked_def hand_call_back split: sum.split option.split)
next
  case (ReadUnlocked key wk locked cb)
  have "hands_over cb s (call_back v4 cb False e (base_unlock v4 wk u Discarded s))" for e u
    by (rule hand_then [OF hand_unlock_as hand_call_back]) simp
  with ReadUnlocked show ?thesis by (simp add: read_unlocked_def hand_call_back)
next
  case (AcquireReadCounted i u cb)
  have "hands_over cb s (call_back v4 cb False e (call_bound v4 u Discarded s))" for e
    by (rule hand_then [OF hand_bound_as hand_call_back]) simp
  moreover have "hands_over cb s (call_back v4 cb False e (store_unlock i u s))" for e
    by (rule hand_then [OF hand_none(4) hand_call_back])
  ultimately show ?thesis using AcquireReadCounted by (simp add: acquire_read_counted_def)
next
  case (AcquireWriteFlagged i u cb)
  have "hands_over cb s (call_back v4 cb False e (store_unlock i u s))" for e
    by (rule hand_then [OF hand_none(4) hand_call_back])
  then show ?thesis using AcquireWriteFlagged by (auto simp: acquire_write_flagged_def)
qed (auto simp: hand_call_back hand_call_back_forget hand_none write_key_locked_def end_read_locked_def
    end_read_unlocked_def acquire_write_locked_def release_write_unlocked_def write_fallback_locked_def
    write_fallback_unlocked_def acquire_read_checked_def acquire_read_locked_def
    release_read_decremented_def read_fallback_locked_def read_fallback_decremented_def pass_on_def
    split: sum.split option.split)

lemma claims_delete:
  assumes "conts_ok s" and "map_of (rw_conts s) m = Some k"
  defines "t \<equiv> s\<lparr>rw_conts := AList.delete m (rw_conts s)\<rparr>"
  shows "conts_ok t" "claims n s = claims n t + of_bool (cb_of k = UserCb n)"
proof -
  have c: "count_list (map (cb_of \<circ> snd) al) x =
      count_list (map (cb_of \<circ> snd) (AList.delete m al)) x + of_bool (cb_of k = x)"
    if "distinct (map fst al)" "map_of al m = Some k" for al x
    using that
  proof (induction al)
    case (Cons p al)
    show ?case
    proof (cases "fst p = m")
      case True
      with Cons.prems have "AList.delete m (p # al) = al" "snd p = k" by (auto simp: delete_id)
      then show ?thesis by simp
    next
      case False
      with Cons show ?thesis by (cases p) simp
    qed
  qed simp
  show "conts_ok t" using assms(1) by (auto simp: conts_ok_def t_def distinct_delete AList.delete_eq distinct_map_filter)
  show "claims n s = claims n t + of_bool (cb_of k = UserCb n)"
    using c [of "rw_conts s" "UserCb n"] assms(1,2) by (auto simp: conts_ok_def t_def claims_def)
qed

lemma hand_run_call: "hands_over NoCb s (run_call v4 m r s)"
proof (cases "map_of (rw_conts s) m")
  case (Some k)
  let ?d = "s\<lparr>rw_conts := AList.delete m (rw_conts s)\<rparr>"
  show ?thesis
  proof (cases "conts_ok s")
    case True
    note d = claims_delete [OF True Some]
    show ?thesis
      using hand_run_cont [of k ?d v4 r] d by (simp add: run_call_def Some hands_over_def)
  qed (use hand_run_cont [of k ?d v4 r] in \<open>simp add: run_call_def Some hands_over_def\<close>)
qed (simp add: run_call_def hand_none)

lemma hand_fields [handing]:
  "hands_over NoCb s (s\<lparr>rw_seen := k\<rparr>)" "hands_over NoCb s (s\<lparr>rw_ticks := ts\<rparr>)"
  by (simp_all add: hands_over_def claims_def conts_ok_def)

lemma hand_react: "hands_over NoCb s (react v4 e s)"
  by (cases e) (simp_all add: react_def hand_fields hand_none hand_run_call)

lemma hand_settle: "settle_calls v4 s = Some s' \<Longrightarrow> hands_over NoCb s s'"
proof (induction rule: settle_induct)
  case (again s s')
  then show ?case
    unfolding next_call_def by (blast intro: hand_then hand_fields hand_react)
qed (rule hand_none)

lemma hand_ticks: "run_ticks v4 s = Some s' \<Longrightarrow> hands_over NoCb s s'"
  by (induction rule: run_ticks_induct) (blast intro: hand_then hand_none hand_fields hand_run_call hand_settle)+

lemma hand_on_client: "c_calls (rw_client s) \<le> c_calls (f (rw_client s)) \<Longrightarrow> hands_over NoCb s (on_client f s)"
  by (simp add: on_client_def hand_client)

lemma hand_each:
  assumes "\<And>p c. c_calls (f p c) = c_calls c"
  shows "rw_each v4 f ps s = Some s' \<Longrightarrow> hands_over NoCb s s'"
proof (induction ps arbitrary: s)
  case (Cons p ps)
  then obtain t where t: "settle_calls v4 (on_client (f p) s) = Some t" "rw_each v4 f ps t = Some s'"
    by (auto split: Option.bind_splits)
  have "hands_over NoCb s (on_client (f p) s)" by (rule hand_on_client) (simp add: assms)
  from hand_then [OF this hand_then [OF hand_settle [OF t(1)] Cons.IH [OF t(2)]]] show ?case .
qed (simp add: hand_none)

lemma calls_steps [call_numbers, simp]:
  "c_calls (fire_premature v4 p c) = c_calls c" "c_calls (recover_one v4 p c) = c_calls c"
  "c_calls (stop_timers c) = c_calls c" "c_calls (begin_recovery c) = c_calls c"
  "c_calls (end_recovery c) = c_calls c" "c_calls (hang_up c) = c_calls c" "c_calls (forget_all c) = c_calls c"
  "c_calls (announce f c) = c_calls c" "c_calls (refuse_version c) = c_calls c"
  by (simp_all add: fire_premature_def recover_one_def stop_timers_def begin_recovery_def end_recovery_def
      hang_up_def forget_all_def announce_def refuse_version_def Let_def)

lemma hand_fire: "rw_fireCallbacksPrematurely v4 s = Some s' \<Longrightarrow> hands_over NoCb s s'"
  unfolding rw_fireCallbacksPrematurely_def
  by (rule hand_then [OF hand_on_client hand_each]) simp_all

lemma hand_recover: "rw_recover v4 s = Some s' \<Longrightarrow> hands_over NoCb s s'"
proof -
  let ?s = "on_client (\<lambda>c. c\<lparr>c_recoverCalled := True\<rparr>) s"
  assume r: "rw_recover v4 s = Some s'"
  have s: "hands_over NoCb s ?s" by (rule hand_on_client) simp
  have loop: "hands_over NoCb s (on_client end_recovery t)"
    if "rw_each v4 (recover_one v4) ps (on_client begin_recovery ?s) = Some t" for ps t
  proof -
    have "hands_over NoCb (on_client begin_recovery ?s) t" using that by (rule hand_each [rotated]) simp
    moreover have "hands_over NoCb ?s (on_client begin_recovery ?s)" "hands_over NoCb t (on_client end_recovery t)"
      by (simp_all add: hand_on_client)
    ultimately show ?thesis using s hand_then by blast
  qed
  consider "s' = s" | "s' = ?s"
    | t where "rw_each v4 (recover_one v4) (c_resolutions (rw_client ?s)) (on_client begin_recovery ?s) = Some t"
        "s' = on_client end_recovery t"
    using r by (auto simp: rw_recover_def Let_def simp del: rw_each.simps split: if_splits)
  then show ?thesis using s loop hand_none(1) by cases auto
qed

lemma hand_rw_base: "rw_base v4 e s = Some s' \<Longrightarrow> hands_over NoCb s s'"
proof -
  assume r: "rw_base v4 e s = Some s'"
  have on: "hands_over NoCb t (on_client g t)" if "\<And>c. c_calls c \<le> c_calls (g c)" for t g
    using that by (rule hand_on_client)
  have other: "hands_over NoCb s s'" if "Some (on_client (client_handle v4 e) s) = Some s'"
    using that on [of "client_handle v4 e" s] calls_handle(1) by simp
  show ?thesis
  proof (cases e)
    case (FrameArrived f)
    then show ?thesis
      using r other hand_then [OF on hand_fire, of "\<lambda>c. refuse_version (announce f c)"]
      by (auto simp: on_client_def split: if_splits)
  next
    case StreamEnded
    then show ?thesis using r by (simp add: hand_recover)
  next
    case ApiEndConnection
    then show ?thesis using r hand_then [OF hand_fire on] by auto
  next
    case ApiClose
    then show ?thesis
      using r hand_then [OF on hand_then [OF hand_fire on], of "\<lambda>c. c\<lparr>c_noRecover := True\<rparr>"] by fastforce
  qed (use r other in simp_all)
qed

subsection \<open>The loops and the base class\<close>

text \<open>As long as no continuation waits, the loops do what the base class does.\<close>

lemma settle_no_conts:
  "rw_conts s = [] \<Longrightarrow> \<exists>t. settle_calls v4 s = Some t \<and> rw_conts t = [] \<and> rw_client t = rw_client s"
proof (induction "length (c_out (rw_client s)) - rw_seen s" arbitrary: s)
  case (Suc n)
  have r: "react v4 e s' = s' \<or> (\<exists>p. react v4 e s' = s'\<lparr>rw_ticks := rw_ticks s' @ [p]\<rparr>)" if "rw_conts s' = []" for e s'
    using that by (cases e) (auto simp: react_def run_call_def)
  have "rw_conts (next_call v4 s) = [] \<and> rw_client (next_call v4 s) = rw_client s \<and>
      rw_seen (next_call v4 s) = Suc (rw_seen s)"
    unfolding next_call_def
    using r [of "s\<lparr>rw_seen := Suc (rw_seen s)\<rparr>" "c_out (rw_client s) ! rw_seen s"] Suc.prems by auto
  moreover have "\<not> length (c_out (rw_client s)) \<le> rw_seen s" using Suc.hyps(2) by simp
  ultimately show ?case using Suc.hyps(1) [of "next_call v4 s"] Suc.hyps(2) by (simp add: settle_calls_unfold [of v4 s])
qed (simp add: settle_calls_unfold)

lemma each_no_conts:
  "rw_conts s = [] \<Longrightarrow> \<exists>t. rw_each v4 f ps s = Some t \<and> rw_client t = fold f ps (rw_client s)"
proof (induction ps arbitrary: s)
  case (Cons p ps)
  obtain t where "settle_calls v4 (on_client (f p) s) = Some t" "rw_conts t = []" "rw_client t = f p (rw_client s)"
    using settle_no_conts [of "on_client (f p) s" v4] Cons.prems by (auto simp: on_client_def)
  with Cons.IH [of t] show ?case by simp
qed simp

lemma rw_base_is_base:
  assumes "rw_conts s = []"
  shows "\<exists>t. rw_base v4 e s = Some t \<and> rw_client t = client_handle v4 e (rw_client s)"
proof -
  have on [simp]: "rw_conts (on_client g t) = rw_conts t" "rw_client (on_client g t) = g (rw_client t)" for g t
    by (simp_all add: on_client_def)
  have fire: "\<exists>u. rw_fireCallbacksPrematurely v4 t = Some u \<and>
      rw_client u = fireCallbacksPrematurely v4 (rw_client t)" if "rw_conts t = []" for t
    using each_no_conts [of "on_client stop_timers t" v4 "fire_premature v4" "c_resolutions (rw_client t)"] that
    by (simp add: rw_fireCallbacksPrematurely_def fireCallbacksPrematurely_def)
  show ?thesis
  proof (cases e)
    case (FrameArrived f)
    have "c_errorListener (announce f c) = c_errorListener c" for c by (simp add: announce_def Let_def log_event_def)
    then show ?thesis
      using FrameArrived assms fire [of "on_client (\<lambda>c. refuse_version (announce f c)) s"]
      by (auto simp: refuses_version_def client_onData_def)
  next
    case StreamEnded
    let ?s = "on_client (\<lambda>c. c\<lparr>c_recoverCalled := True\<rparr>) s"
    show ?thesis
      using StreamEnded assms each_no_conts [of "on_client begin_recovery ?s" v4 "recover_one v4" "c_resolutions (rw_client s)"]
      by (auto simp: rw_recover_def recover_def Let_def)
  next
    case ApiEndConnection
    then show ?thesis using fire [OF assms] by (auto simp: endCurrentConnection_def)
  next
    case ApiClose
    then show ?thesis
      using assms fire [of "on_client (\<lambda>c. c\<lparr>c_noRecover := True\<rparr>) s"] by (auto simp: client_close_def)
  qed simp_all
qed

text \<open>Whether the call \<open>e\<close> keeps the callback passed to it: a usage error may throw instead, and
  \<open>releaseWriteLock\<close> without a stored \<open>_unlock\<close> drops it.\<close>

fun takes_callback :: "rw_step \<Rightarrow> rw \<Rightarrow> bool" where
  "takes_callback (RwBase e) s = False"
| "takes_callback (OpBeginWrite key a has) s = (callback_of a has s \<noteq> NoCb)"
| "takes_callback (OpEndWrite key a has) s = (unlock_callback_of a has s \<noteq> NoCb)"
| "takes_callback (OpBeginRead key a wk has) s = (callback_of a has s \<noteq> NoCb)"
| "takes_callback (OpEndRead key a wk bound has) s = (callback_of a has s \<noteq> NoCb)"
| "takes_callback (OpAcquireWrite key a has) s = (callback_of a has s \<noteq> NoCb)"
| "takes_callback (OpReleaseWrite key a has) s = (has \<and> release_opts a \<noteq> None)"
| "takes_callback (OpAcquireRead key a has) s = (callback_of a has s \<noteq> NoCb)"
| "takes_callback (OpReleaseRead key a has) s = (has \<and> release_opts a \<noteq> None)"
| "takes_callback (OpRelease i has) s =
     (has \<and> (case map_of (rw_releases s) i of None \<Rightarrow> False | Some rel \<Rightarrow> rel_reader rel \<or> rel_unlock rel \<noteq> None))"

lemma own_callbacks:
  "callback_of a has s = NoCb \<or> callback_of a has s = UserCb (rw_calls s)"
  "unlock_callback_of ua has s = NoCb \<or> unlock_callback_of ua has s = UserCb (rw_calls s)"
  by (auto simp: callback_of_def unlock_callback_of_def)

lemma hand_requests:
  "hands_over cb s (begin_write v4 key a cb s)" "hands_over cb s (end_write v4 key ua cb s)"
  "hands_over cb s (begin_read v4 key a wk cb s)" "hands_over cb s (end_read v4 key a wk bound cb s)"
  "hands_over cb s (acquire_write v4 i key a cb s)" "hands_over cb s (acquire_read v4 i key a cb s)"
proof -
  show "hands_over cb s (begin_write v4 key a cb s)" by (auto simp: begin_write_def hand_none)
  show "hands_over cb s (end_write v4 key ua cb s)" by (auto simp: end_write_def)
  show "hands_over cb s (begin_read v4 key a wk cb s)" by (auto simp: begin_read_def hand_none hand_call_back)
  show "hands_over cb s (end_read v4 key a wk bound cb s)"
    by (auto simp: end_read_def hand_call_back split: option.split prod.split)
  have "hands_over cb s (base_lock v4 key o' (AcquireWriteLocked key i cb) (new_release i key rd s))"
    "hands_over cb s (base_probe v4 p key (AcquireReadChecked key o' i cb) (new_release i key rd s))" for o' p rd
    by (rule hand_then [OF hand_none(5)]; auto)+
  then show "hands_over cb s (acquire_write v4 i key a cb s)" "hands_over cb s (acquire_read v4 i key a cb s)"
    by (auto simp: acquire_write_def acquire_read_def hand_none)
qed

lemma hand_begin:
  assumes "rw_begin v4 e s = Some t"
  shows "hands_over (if takes_callback e s then UserCb (rw_calls s) else NoCb) s t"
proof (cases e)
  case (RwBase x)
  with assms show ?thesis by (simp add: hand_rw_base)
next
  case (OpRelease i has)
  have "hands_over cb s (release_read_with v4 key i cb s)" if "map_of (rw_releases s) i = Some rel" "rel_unlock rel = Some u"
    for cb key rel u
  proof (cases "cb = NoCb")
    case False
    with that show ?thesis by (auto simp: release_read_with_def)
  qed (simp add: hand_release_with)
  moreover have "hands_over (cb_of k) s (call_bound v4 u k s)" for u k by (rule hand_bound)
  ultimately show ?thesis
    using OpRelease assms hand_bound_as [of _ NoCb s v4] hand_bound_as [of _ "UserCb (rw_calls s)" s v4]
    by (auto simp: call_release_def own_callback_def hand_none hand_call_back hand_release_with
        release_write_with_def hand_fallback_release split: option.split)
qed (use assms own_callbacks hand_requests in
  \<open>fastforce simp: release_write_def release_read_def own_callback_def hand_none hand_fallbacks split: option.split\<close>)+

subsection \<open>Reachable states\<close>

inductive rw_reachable :: "(nat \<Rightarrow> string) \<Rightarrow> (rw_step \<Rightarrow> rw \<Rightarrow> bool) \<Rightarrow> rw \<Rightarrow> rw \<Rightarrow> bool" for v4 A s0 where
  rw_start: "rw_reachable v4 A s0 s0"
| rw_step: "rw_reachable v4 A s0 s \<Longrightarrow> A e s \<Longrightarrow> rw_handle v4 e s = Some s' \<Longrightarrow> rw_reachable v4 A s0 s'"

inductive_cases rw_reachableE: "rw_reachable v4 A s0 s"

definition rw_ok :: "rw \<Rightarrow> bool" where
  "rw_ok s \<longleftrightarrow> conts_ok s \<and> (\<forall>n. claims n s \<le> of_bool (n < rw_calls s))"

lemma rw_handle_claims:
  assumes "conts_ok s" and "rw_handle v4 e s = Some s'"
  shows "conts_ok s'" "rw_calls s' = Suc (rw_calls s)"
    "claims n s' = claims n s + of_bool (takes_callback e s \<and> n = rw_calls s)"
proof -
  obtain t u where t: "rw_begin v4 e s = Some t" "settle_calls v4 (t\<lparr>rw_calls := Suc (rw_calls s)\<rparr>) = Some u"
    "run_ticks v4 u = Some s'"
    using assms(2) by (auto simp: rw_handle_def split: Option.bind_splits)
  let ?t = "t\<lparr>rw_calls := Suc (rw_calls s)\<rparr>"
  have "conts_ok ?t" "rw_calls ?t = Suc (rw_calls s)"
    "claims n ?t = claims n s + of_bool (takes_callback e s \<and> n = rw_calls s)" for n
    using hand_begin [OF t(1)] assms(1) by (auto simp: hands_over_def claims_def conts_ok_def)
  with hand_then [OF hand_settle [OF t(2)] hand_ticks [OF t(3)]]
  show "conts_ok s'" "rw_calls s' = Suc (rw_calls s)"
    "claims n s' = claims n s + of_bool (takes_callback e s \<and> n = rw_calls s)"
    by (simp_all add: hands_over_def)
qed

lemma rw_ok_step: "rw_ok s \<Longrightarrow> rw_handle v4 e s = Some s' \<Longrightarrow> rw_ok s'"
proof -
  assume s: "rw_ok s" and h: "rw_handle v4 e s = Some s'"
  then have ok: "conts_ok s" and le: "claims n s \<le> of_bool (n < rw_calls s)" for n by (auto simp: rw_ok_def)
  note c = rw_handle_claims [OF ok h]
  have "claims n s' \<le> of_bool (n < rw_calls s')" for n
    using le [of n] by (cases "n = rw_calls s") (auto simp: c less_Suc_eq)
  with c(1) show "rw_ok s'" by (simp add: rw_ok_def)
qed

lemma rw_ok_new: "rw_ok (new_rw strict c)"
  by (simp add: rw_ok_def conts_ok_def claims_def new_rw_def)

lemma rw_ok_reachable: "rw_reachable v4 A (new_rw strict c) s \<Longrightarrow> rw_ok s"
  by (induction rule: rw_reachable.induct) (auto intro: rw_ok_new rw_ok_step)

end
