(* ===== verification/RWTermination.thy ===== *)
theory RWTermination
  imports RWCalls
begin

text \<open>
  Running the callbacks that are due ends: every continuation that runs is replaced by lighter ones,
  unless a \<open>boundRelease\<close> has taken the place of a callback.
\<close>

subsection \<open>Weights\<close>

fun weight :: "rw_cont \<Rightarrow> nat" where
  "weight (ReadLocked key wk cb) = 4"
| "weight (WriteKeyLocked key wk u cb) = 3"
| "weight (ReadUnlocked key wk locked cb) = 2"
| "weight (EndReadLocked wk allowed cb) = 3"
| "weight (EndReadUnlocked wk last_one cb) = 2"
| "weight (AcquireWriteLocked key i cb) = 3"
| "weight (AcquireWriteFlagged i u cb) = 2"
| "weight (ReleaseWriteUnlocked key i cb) = 2"
| "weight (WriteFallbackLocked key cb) = 3"
| "weight (WriteFallbackUnlocked key cb) = 2"
| "weight (AcquireReadChecked key o' i cb) = 4"
| "weight (AcquireReadLocked key i cb) = 3"
| "weight (AcquireReadCounted i u cb) = 2"
| "weight (ReleaseReadDecremented i u cb) = 2"
| "weight (ReadFallbackLocked key cb) = 3"
| "weight (ReadFallbackDecremented u cb) = 2"
| "weight _ = 1"

definition load :: "rw \<Rightarrow> nat" where
  "load s = sum_list (map (weight \<circ> snd) (rw_conts s))"

definition releases_cb :: "rw_callback \<Rightarrow> bool" where
  "releases_cb cb = (case cb of ReleaseCb _ \<Rightarrow> True | _ \<Rightarrow> False)"

definition no_release :: "rw \<Rightarrow> bool" where
  "no_release s \<longleftrightarrow> (\<forall>p \<in> set (rw_conts s). \<not> releases_cb (cb_of (snd p)))"

text \<open>From \<open>s\<close> to \<open>t\<close> continuations of weight at most \<open>w\<close> were added.\<close>

definition adds :: "nat \<Rightarrow> rw \<Rightarrow> rw \<Rightarrow> bool" where
  "adds w s t \<longleftrightarrow> (no_release s \<longrightarrow> no_release t \<and> load t \<le> load s + w)"

lemma releases_cb_simps [simp]:
  "\<not> releases_cb NoCb" "\<not> releases_cb (UserCb n)" "releases_cb (ReleaseCb i)"
  by (simp_all add: releases_cb_def)

lemma load_update:
  "sum_list (map (weight \<circ> snd) (AList.update m k al)) \<le> sum_list (map (weight \<circ> snd) al) + weight k"
  by (induction al) auto

lemma adds_trans: "adds v s t \<Longrightarrow> adds w t u \<Longrightarrow> v + w \<le> n \<Longrightarrow> adds n s u"
  by (auto simp: adds_def)

lemma adds_more: "adds v s t \<Longrightarrow> v \<le> w \<Longrightarrow> adds w s t"
  by (auto simp: adds_def)

lemma adds_base:
  assumes "\<not> releases_cb (cb_of k)" and "weight k \<le> w"
  shows "adds w s (base_call v4 e k s)"
proof -
  have "set (AList.update m k al) \<subseteq> insert (m, k) (set al)" for m al by (induction al) auto
  then have "no_release s \<Longrightarrow> no_release (base_call v4 e k s)"
    using assms(1) by (fastforce simp: no_release_def base_call_def)
  then show ?thesis
    using load_update [of "c_calls (rw_client s)" k "rw_conts s"] assms(2)
    by (auto simp: adds_def load_def base_call_def)
qed

lemma adds_calls [intro]:
  assumes "\<not> releases_cb (cb_of k)" and "weight k \<le> w"
  shows "adds w s (base_lock v4 key o' k s)" "adds w s (base_unlock v4 key uo k s)"
    "adds w s (base_probe v4 p key k s)" "adds w s (call_bound v4 u k s)"
  using adds_base [OF assms] by (simp_all add: base_lock_def base_unlock_def base_probe_def call_bound_def)

lemma adds_none [intro, simp]:
  "adds w s s" "adds w s (rw_note x s)" "adds w s (forget_release i s)" "adds w s (store_unlock i u s)"
  "adds w s (new_release i key rd s)" "adds w s (s\<lparr>rw_client := c\<rparr>)"
  by (auto simp: adds_def no_release_def load_def rw_note_def forget_release_def store_unlock_def
      new_release_def split: option.split)

lemma adds_call_back [intro]: "\<not> releases_cb cb \<Longrightarrow> adds w s (call_back v4 cb b r s)"
  by (cases cb) (auto simp: call_back_def)

lemma adds_call_back_after: "adds w s t \<Longrightarrow> \<not> releases_cb cb \<Longrightarrow> adds w s (call_back v4 cb b r t)"
  by (erule adds_trans [OF _ adds_call_back [of cb 0]]) simp_all

lemma adds_run_cont:
  "\<not> releases_cb (cb_of k) \<Longrightarrow> adds (weight k - 1) s (run_cont v4 k r s)"
  by (cases k)
    (auto simp: read_locked_def read_unlocked_def acquire_read_counted_def acquire_write_flagged_def
      write_key_locked_def end_read_locked_def end_read_unlocked_def acquire_write_locked_def
      release_write_unlocked_def write_fallback_locked_def write_fallback_unlocked_def
      acquire_read_checked_def acquire_read_locked_def release_read_decremented_def
      read_fallback_locked_def read_fallback_decremented_def pass_on_def
      intro!: adds_call_back_after split: sum.split option.split)

subsection \<open>Termination\<close>

lemma load_delete:
  "map_of al m = Some k \<Longrightarrow>
    sum_list (map (weight \<circ> snd) (AList.delete m al)) + weight k \<le> sum_list (map (weight \<circ> snd) al)"
proof (induction al)
  case (Cons p al)
  have "sum_list (map (weight \<circ> snd) (AList.delete m al)) \<le> sum_list (map (weight \<circ> snd) al)"
    by (induction al) auto
  with Cons show ?case by (cases p) (auto simp: add.commute comp_def split: if_splits)
qed simp

lemma weight_pos: "0 < weight k"
  by (cases k) simp_all

lemma no_release_fields [simp]:
  "no_release (s\<lparr>rw_seen := n\<rparr>) = no_release s" "no_release (s\<lparr>rw_ticks := ts\<rparr>) = no_release s"
  "no_release (s\<lparr>rw_calls := n\<rparr>) = no_release s" "no_release (on_client f s) = no_release s"
  "load (s\<lparr>rw_seen := n\<rparr>) = load s" "load (s\<lparr>rw_ticks := ts\<rparr>) = load s"
  by (simp_all add: no_release_def load_def on_client_def)

lemma run_call_lighter:
  assumes "no_release s"
  shows "no_release (run_call v4 m r s)" "load (run_call v4 m r s) < load s \<or> run_call v4 m r s = s"
proof -
  have "no_release (run_call v4 m r s) \<and> (load (run_call v4 m r s) < load s \<or> run_call v4 m r s = s)"
  proof (cases "map_of (rw_conts s) m")
    case (Some k)
    define d where "d = s\<lparr>rw_conts := AList.delete m (rw_conts s)\<rparr>"
    have "(m, k) \<in> set (rw_conts s)" using Some by (rule map_of_SomeD)
    then have k: "\<not> releases_cb (cb_of k)" using assms by (auto simp: no_release_def)
    have "no_release d" using assms by (auto simp: no_release_def d_def AList.delete_eq)
    moreover have "load d + weight k \<le> load s" using load_delete [OF Some] by (simp add: load_def d_def)
    ultimately show ?thesis
      using adds_run_cont [OF k, of d v4 r] weight_pos [of k] by (auto simp: run_call_def Some d_def adds_def)
  qed (use assms in \<open>simp add: run_call_def\<close>)
  then show "no_release (run_call v4 m r s)" "load (run_call v4 m r s) < load s \<or> run_call v4 m r s = s" by blast+
qed

text \<open>What is still to be looked at, and to be run.\<close>

definition unseen :: "rw \<Rightarrow> nat" where
  "unseen s = length (c_out (rw_client s)) - rw_seen s"

definition lighter :: "rw \<Rightarrow> rw \<Rightarrow> bool" where
  "lighter t s \<longleftrightarrow> load t < load s \<or> load t = load s \<and> unseen t + length (rw_ticks t) \<le> unseen s + length (rw_ticks s)"

lemma lighter_trans: "lighter u t \<Longrightarrow> lighter t s \<Longrightarrow> lighter u s"
  by (auto simp: lighter_def)

lemma next_call_lighter:
  assumes "no_release s" and "rw_seen s < length (c_out (rw_client s))"
  shows "no_release (next_call v4 s)" "lighter (next_call v4 s) s"
    "load (next_call v4 s) < load s \<or> load (next_call v4 s) = load s \<and> unseen (next_call v4 s) < unseen s"
proof -
  let ?t = "s\<lparr>rw_seen := Suc (rw_seen s)\<rparr>"
  have "no_release (next_call v4 s) \<and> lighter (next_call v4 s) s \<and>
    (load (next_call v4 s) < load s \<or> load (next_call v4 s) = load s \<and> unseen (next_call v4 s) < unseen s)"
  proof (cases "c_out (rw_client s) ! rw_seen s")
    case (Called m b r)
    with run_call_lighter [of ?t v4 m r] assms show ?thesis
      by (auto simp: next_call_def react_def lighter_def unseen_def)
  qed (use assms in \<open>auto simp: next_call_def react_def lighter_def unseen_def\<close>)
  then show "no_release (next_call v4 s)" "lighter (next_call v4 s) s"
    "load (next_call v4 s) < load s \<or> load (next_call v4 s) = load s \<and> unseen (next_call v4 s) < unseen s"
    by blast+
qed

lemma settle_calls_total:
  "no_release s \<Longrightarrow> \<exists>s'. settle_calls v4 s = Some s' \<and> no_release s' \<and> lighter s' s"
proof (induction s rule: wf_induct_rule [OF wf_measures [of "[load, unseen]"]])
  case (1 s)
  show ?case
  proof (cases "length (c_out (rw_client s)) \<le> rw_seen s")
    case False
    note n = next_call_lighter [OF "1.prems", of v4]
    have "(next_call v4 s, s) \<in> measures [load, unseen]" using n(3) False by auto
    from "1.IH" [OF this n(1)] False n(2) show ?thesis
      by (auto simp: settle_calls_unfold [of v4 s] intro: lighter_trans)
  qed (use "1.prems" in \<open>simp add: settle_calls_unfold lighter_def\<close>)
qed

lemma run_ticks_total:
  "no_release s \<Longrightarrow> \<exists>s'. run_ticks v4 s = Some s' \<and> no_release s'"
proof (induction s rule: wf_induct_rule [OF wf_measures [of "[load, \<lambda>s. unseen s + length (rw_ticks s)]"]])
  case (1 s)
  show ?case
  proof (cases "rw_ticks s")
    case (Cons p ts)
    obtain m r where p: "p = (m, r)" by (cases p)
    let ?d = "s\<lparr>rw_ticks := ts\<rparr>"
    note d = run_call_lighter [of ?d v4 m r]
    obtain t where t: "settle_calls v4 (run_call v4 m r ?d) = Some t" "no_release t" "lighter t (run_call v4 m r ?d)"
      using settle_calls_total [of "run_call v4 m r ?d" v4] d(1) "1.prems" by auto
    have "(t, s) \<in> measures [load, \<lambda>s. unseen s + length (rw_ticks s)]"
      using t(3) d(2) "1.prems" Cons by (auto simp: lighter_def unseen_def)
    from "1.IH" [OF this t(2)] show ?thesis by (simp add: run_ticks.simps [of v4 s] Cons p t(1))
  qed (use "1.prems" in \<open>simp add: run_ticks.simps\<close>)
qed

lemma rw_each_total: "no_release s \<Longrightarrow> \<exists>s'. rw_each v4 f ps s = Some s' \<and> no_release s'"
proof (induction ps arbitrary: s)
  case (Cons p ps)
  from settle_calls_total [of "on_client (f p) s" v4] Cons.prems
  obtain t where "settle_calls v4 (on_client (f p) s) = Some t" "no_release t" by auto
  with Cons.IH [of t] show ?case by simp
qed simp

lemma rw_base_total: "no_release s \<Longrightarrow> \<exists>t. rw_base v4 e s = Some t \<and> no_release t"
proof -
  assume s: "no_release s"
  have fire: "no_release t \<Longrightarrow> \<exists>u. rw_fireCallbacksPrematurely v4 t = Some u \<and> no_release u" for t
    unfolding rw_fireCallbacksPrematurely_def by (rule rw_each_total) simp
  show ?thesis
  proof (cases e)
    case (FrameArrived f)
    then show ?thesis using s fire [of "on_client (\<lambda>c. refuse_version (announce f c)) s"] by auto
  next
    case StreamEnded
    let ?s = "on_client (\<lambda>c. c\<lparr>c_recoverCalled := True\<rparr>) s"
    obtain u where "rw_each v4 (recover_one v4) (c_resolutions (rw_client ?s)) (on_client begin_recovery ?s) = Some u"
      "no_release u"
      using rw_each_total [of "on_client begin_recovery ?s"] s no_release_fields(4) by blast
    then show ?thesis using s StreamEnded by (simp add: rw_recover_def Let_def)
  next
    case ApiEndConnection
    then show ?thesis using fire [OF s] by auto
  next
    case ApiClose
    then show ?thesis using s fire [of "on_client (\<lambda>c. c\<lparr>c_noRecover := True\<rparr>) s"] by auto
  qed (use s in simp_all)
qed

text \<open>A function \<open>boundRelease\<close> is called while it has something to release, the reader's with a
  callback, or the reader's when it has nothing left.\<close>

fun plain_step :: "rw_step \<Rightarrow> rw \<Rightarrow> bool" where
  "plain_step (OpRelease i has) s =
     (case map_of (rw_releases s) i of
        None \<Rightarrow> True
      | Some rel \<Rightarrow> if rel_unlock rel = None then rel_reader rel else \<not> rel_reader rel \<or> has)"
| "plain_step _ s = True"

lemma callbacks_of_users:
  "\<not> releases_cb (callback_of a has s)" "\<not> releases_cb (unlock_callback_of ua has s)"
  "\<not> releases_cb (own_callback has s)"
  by (simp_all add: callback_of_def unlock_callback_of_def own_callback_def)

lemma plain_begin:
  assumes "plain_step e s" and "no_release s"
  shows "\<exists>t. rw_begin v4 e s = Some t \<and> no_release t"
proof (cases "\<exists>x. e = RwBase x")
  case True
  with rw_base_total [OF assms(2)] show ?thesis by auto
next
  case False
  then obtain t where t: "rw_begin v4 e s = Some t" by (cases e) auto
  have "adds 4 s (the (rw_begin v4 e s))"
  proof (cases e)
    case (OpAcquireWrite key a has)
    have "adds 4 s (base_lock v4 key o' (AcquireWriteLocked key i cb) (new_release i key False s))"
      if "\<not> releases_cb cb" for o' i cb
      using that by (intro adds_trans [OF adds_none(5) [of 0] adds_calls(1) [of _ 3]]) simp_all
    with OpAcquireWrite show ?thesis by (simp add: acquire_write_def callbacks_of_users)
  next
    case (OpAcquireRead key a has)
    have "adds 4 s (base_probe v4 p key (AcquireReadChecked key o' i cb) (new_release i key True s))"
      if "\<not> releases_cb cb" for o' i cb p
      using that by (intro adds_trans [OF adds_none(5) [of 0] adds_calls(3) [of _ 4]]) simp_all
    with OpAcquireRead show ?thesis by (simp add: acquire_read_def callbacks_of_users)
  next
    case (OpRelease i has)
    with assms(1) show ?thesis
      by (auto simp: call_release_def release_write_with_def release_read_with_def callbacks_of_users
          own_callback_def split: option.split)
  qed (use False in \<open>auto simp: begin_write_def end_write_def begin_read_def end_read_def release_write_def
      release_read_def write_fallback_def read_fallback_def callbacks_of_users split: option.split\<close>)
  with assms(2) t show ?thesis by (simp add: adds_def)
qed

lemma plain_handle:
  assumes "plain_step e s" and "no_release s"
  shows "\<exists>s'. rw_handle v4 e s = Some s' \<and> no_release s'"
proof -
  obtain t where t: "rw_begin v4 e s = Some t" "no_release t" using plain_begin [OF assms] by blast
  obtain u where "settle_calls v4 (t\<lparr>rw_calls := Suc (rw_calls s)\<rparr>) = Some u" "no_release u"
    using settle_calls_total [of "t\<lparr>rw_calls := Suc (rw_calls s)\<rparr>" v4] t(2) by auto
  with t(1) run_ticks_total [of u v4] show ?thesis by (simp add: rw_handle_def)
qed

lemma plain_reachable: "rw_reachable v4 plain_step (new_rw strict c) s \<Longrightarrow> no_release s"
proof (induction rule: rw_reachable.induct)
  case (rw_step s e s')
  from plain_handle [OF rw_step.hyps(2) rw_step.IH, of v4] rw_step.hyps(3) show ?case by auto
qed (simp add: no_release_def new_rw_def)

end
