(* ===== verification/RWRuns.thy ===== *)
theory RWRuns
  imports RWTermination Dialogue
begin

text \<open>
  The properties of the reader/writer clients by themselves: callbacks are not called twice, the runs
  in which one is lost, every event is handled to its end, and the case in which it is not.
\<close>

fun rw_run :: "(nat \<Rightarrow> string) \<Rightarrow> rw_step list \<Rightarrow> rw \<Rightarrow> rw option" where
  "rw_run v4 [] s = Some s"
| "rw_run v4 (e # es) s = Option.bind (rw_handle v4 e s) (rw_run v4 es)"

fun all_plain :: "(nat \<Rightarrow> string) \<Rightarrow> rw_step list \<Rightarrow> rw \<Rightarrow> bool" where
  "all_plain v4 [] s = True"
| "all_plain v4 (e # es) s =
     (plain_step e s \<and> (case rw_handle v4 e s of None \<Rightarrow> False | Some t \<Rightarrow> all_plain v4 es t))"

lemma rw_run_reachable:
  "rw_run v4 es s = Some t \<Longrightarrow> rw_reachable v4 (\<lambda>e s. True) s0 s \<Longrightarrow> rw_reachable v4 (\<lambda>e s. True) s0 t"
  by (induction es arbitrary: s) (auto intro: rw_reachable.rw_step split: Option.bind_splits)

lemma rw_run_plain:
  "rw_run v4 es s = Some t \<Longrightarrow> all_plain v4 es s \<Longrightarrow> rw_reachable v4 plain_step s0 s \<Longrightarrow>
    rw_reachable v4 plain_step s0 t"
  by (induction es arbitrary: s) (auto intro: rw_reachable.rw_step split: Option.bind_splits)

subsection \<open>A run of the write-preferring client\<close>

definition reply :: "string \<Rightarrow> nat \<Rightarrow> rw_step" where
  "reply ty n = RwBase (FrameArrived ((plain_frame (demo_v4 n) ''k'')\<lparr>cf_type := ty\<rparr>))"

definition grant_reply :: "nat \<Rightarrow> rw_step" where
  "grant_reply n = RwBase (FrameArrived ((plain_frame (demo_v4 n) ''k'')
     \<lparr>cf_acquired := Some True, cf_readersCount := Integer 0, cf_fencingToken := Integer 5\<rparr>))"

definition unlock_reply :: "nat \<Rightarrow> rw_step" where
  "unlock_reply n = RwBase (FrameArrived ((plain_frame (demo_v4 n) ''k'')
     \<lparr>cf_type := ''unlock'', cf_unlocked := Some True\<rparr>))"

definition rw_demo :: rw where
  "rw_demo = new_rw True connected_client"

text \<open>Acquire and release as a writer, then close the connection.\<close>

definition writer_events :: "rw_step list" where
  "writer_events = [OpAcquireWrite ''k'' ArgNothing True, grant_reply 0,
     reply ''register-write-flag-and-readers-check-success'' 1, OpRelease 0 True, unlock_reply 2,
     reply ''write-flag-false-and-broadcast-success'' 3, RwBase ApiClose, RwBase ApiEndConnection]"

definition writer_done :: rw where
  "writer_done = the (rw_run demo_v4 writer_events rw_demo)"

lemma writer_run: "rw_run demo_v4 writer_events rw_demo = Some writer_done"
proof -
  have "rw_run demo_v4 writer_events rw_demo \<noteq> None" by code_simp
  then show ?thesis by (simp add: writer_done_def)
qed

lemma writer_plain: "all_plain demo_v4 writer_events rw_demo"
  by code_simp

lemma writer_log:
  "rw_log writer_done = [UserCalled 0 False (Acquired 0), UserCalled 3 False (RwEnded (Unlocked (demo_v4 2) ''k''))]"
  by code_simp

lemma writer_reachable:
  "rw_reachable demo_v4 (\<lambda>e s. True) rw_demo writer_done" "rw_reachable demo_v4 plain_step rw_demo writer_done"
  using rw_run_reachable [OF writer_run] rw_run_plain [OF writer_run writer_plain]
  by (blast intro: rw_reachable.rw_start)+

subsection \<open>Callbacks\<close>



text \<open>
  Two ways to lose a callback. \<open>close\<close> runs the callbacks that are due before it clears \<open>resolutions\<close>, so
  the \<open>unlock\<close> that an interrupted \<open>acquireWriteLock\<close> sends on its way out is forgotten, and the user's
  callback with it. And \<open>registerWriteFlagCheck\<close> ignores the error of a connection that ends, because
  the object that comes with it has no type.
\<close>

lemma close_loses_writer:
  "case rw_run demo_v4 [OpAcquireWrite ''k'' ArgNothing True, grant_reply 0, RwBase ApiClose] rw_demo of
     None \<Rightarrow> False
   | Some s \<Rightarrow> rw_log s = [] \<and> map (cb_of \<circ> snd) (rw_conts s) = [UserCb 0] \<and>
       c_resolutions (rw_client s) = [] \<and> c_armed (rw_client s) = []"
  by code_simp

lemma disconnect_loses_reader:
  "case rw_run demo_v4 [OpAcquireRead ''k'' ArgNothing True, RwBase StreamEnded] rw_demo of
     None \<Rightarrow> False
   | Some s \<Rightarrow> rw_log s = [] \<and> map (cb_of \<circ> snd) (rw_conts s) = [UserCb 0] \<and>
       c_resolutions (rw_client s) = [] \<and> c_armed (rw_client s) = []"
  by code_simp

text \<open>C26: Every event of a reader/writer client is handled to its end, with all the callbacks it leads
  to, as long as a release function is called only in these ways: a writer's while it has something to
  release, a reader's with a callback or when it has nothing left to release.\<close>

theorem rw_events_return:
  assumes "rw_reachable v4 plain_step (new_rw strict c) s" and "plain_step e s"
  shows "\<exists>s'. rw_handle v4 e s = Some s'"
  using plain_handle [OF assms(2) plain_reachable [OF assms(1)]] by blast

theorem rw_events_return_witness:
  "\<exists>s'. rw_handle demo_v4 (OpAcquireWrite ''k'' ArgNothing True) writer_done = Some s'"
  by (rule rw_events_return [OF writer_reachable(2) [unfolded rw_demo_def]]) simp

subsection \<open>A release function called again\<close>

text \<open>Without a connection \<open>lock\<close> calls its callback with an error, on the next tick.\<close>

lemma closed_lock:
  fixes c :: client and key :: string and v4 :: "nat \<Rightarrow> string"
  assumes "\<not> c_isOpen c"
  defines "c' \<equiv> client_handle v4 (ApiLock key (ArgOptions (no_opts\<lparr>o_max := Some (Integer 1)\<rparr>)) True) c"
  shows "\<exists>e. c_out c' = c_out c @ [Asked (c_calls c), CWarn CallbackError, Called (c_calls c) True (LockFailed e)]"
    "\<not> c_isOpen c'"
proof -
  obtain j where j: "check_lock_opts (c_lockRetryMax c) (no_opts\<lparr>o_max := Some (Integer 1)\<rparr>) = Inr j"
    "j_uuid j = None" "\<not> j_promise j" "j_retryCount j = 0"
    by (simp add: check_lock_opts_def no_opts_def bad_option_def positive_def max_retries_def take_retries_def)
  have "c_out (cleanUp uo d) = c_out d" "c_isOpen (cleanUp uo d) = c_isOpen d" for uo d
    by (simp_all add: cleanUp_def Let_def clear_timer_def del_timer_def del_timeout_def del_resolution_def
        split: option.split)
  then show "\<exists>e. c_out c' = c_out c @ [Asked (c_calls c), CWarn CallbackError, Called (c_calls c) True (LockFailed e)]"
    "\<not> c_isOpen c'"
    using assms(1) j
    by (simp_all add: c'_def client_lock_def parseLockOpts_def new_call_def lockInternal_def
        fresh_uuid_of_def attempt_def lock_gate_def log_event_def fireLockCallbackWithError_def)
qed

lemma settle_put_off:
  assumes "c_out (rw_client s) = old @ [Asked m, CWarn w, Called m True r]" and "rw_seen s = length old"
  shows "settle_calls v4 s = Some (s\<lparr>rw_seen := length old + 3, rw_ticks := rw_ticks s @ [(m, r)]\<rparr>)"
proof -
  define s1 where "s1 = s\<lparr>rw_seen := Suc (length old)\<rparr>"
  define s2 where "s2 = s\<lparr>rw_seen := Suc (Suc (length old))\<rparr>"
  define s3 where "s3 = s\<lparr>rw_seen := length old + 3, rw_ticks := rw_ticks s @ [(m, r)]\<rparr>"
  have n: "next_call v4 s = s1" "next_call v4 s1 = s2" "next_call v4 s2 = s3"
    using assms by (simp_all add: s1_def s2_def s3_def next_call_def react_def nth_append)
  have "settle_calls v4 s = settle_calls v4 s1" "settle_calls v4 s1 = settle_calls v4 s2"
    "settle_calls v4 s2 = settle_calls v4 s3" "settle_calls v4 s3 = Some s3"
    by (subst settle_calls_unfold, use assms in \<open>simp add: n [unfolded s1_def s2_def s3_def] s1_def s2_def s3_def\<close>)+
  then show ?thesis by (simp add: s3_def)
qed

text \<open>The writer's release function is the callback of a fallback lock that has failed.\<close>

definition idle_writer :: "nat \<Rightarrow> release \<Rightarrow> rw \<Rightarrow> bool" where
  "idle_writer i rel s \<longleftrightarrow> map_of (rw_releases s) i = Some rel \<and> \<not> rel_reader rel \<and> rel_unlock rel = None \<and>
     \<not> c_isOpen (rw_client s) \<and> rw_seen s = length (c_out (rw_client s))"

definition again_and_again :: "nat \<Rightarrow> rw \<Rightarrow> bool" where
  "again_and_again i s \<longleftrightarrow> (\<exists>rel m e. idle_writer i rel s \<and> rw_ticks s = [(m, LockFailed e)] \<and>
     map_of (rw_conts s) m = Some (WriteFallbackLocked (rel_key rel) (ReleaseCb i)))"

lemma fallback_again:
  assumes "idle_writer i rel s" and "rw_ticks s = []"
  shows "\<exists>t. settle_calls v4 (write_fallback v4 (rel_key rel) no_opts (ReleaseCb i) s\<lparr>rw_calls := n\<rparr>) = Some t \<and>
    again_and_again i t"
proof -
  let ?s = "write_fallback v4 (rel_key rel) no_opts (ReleaseCb i) s\<lparr>rw_calls := n\<rparr>"
  have s: "map_of (rw_releases s) i = Some rel" "\<not> rel_reader rel" "rel_unlock rel = None"
    "\<not> c_isOpen (rw_client s)" "rw_seen s = length (c_out (rw_client s))"
    using assms(1) by (simp_all add: idle_writer_def)
  obtain e where e: "c_out (rw_client ?s) = c_out (rw_client s) @ [Asked (c_calls (rw_client s)), CWarn CallbackError,
      Called (c_calls (rw_client s)) True (LockFailed e)]" "\<not> c_isOpen (rw_client ?s)"
    using closed_lock [OF s(4), of v4 "rel_key rel"] by (auto simp: write_fallback_def base_lock_def base_call_def)
  have rest: "rw_seen ?s = rw_seen s" "rw_ticks ?s = []" "rw_releases ?s = rw_releases s"
    "map_of (rw_conts ?s) (c_calls (rw_client s)) = Some (WriteFallbackLocked (rel_key rel) (ReleaseCb i))"
    using assms(2) by (simp_all add: write_fallback_def base_lock_def base_call_def update_conv')
  from settle_put_off [OF e(1), of v4] rest s e show ?thesis
    by (auto simp: again_and_again_def idle_writer_def)
qed

lemma again_next:
  assumes "again_and_again i s" and "rw_ticks s = (m, r) # ts"
    and "settle_calls v4 (run_call v4 m r (s\<lparr>rw_ticks := ts\<rparr>)) = Some t"
  shows "again_and_again i t"
proof -
  obtain rel e where w: "idle_writer i rel s" and r: "r = LockFailed e" "ts = []"
    and k: "map_of (rw_conts s) m = Some (WriteFallbackLocked (rel_key rel) (ReleaseCb i))"
    using assms(1,2) by (auto simp: again_and_again_def)
  let ?d = "s\<lparr>rw_ticks := [], rw_conts := AList.delete m (rw_conts s)\<rparr>"
  have "run_call v4 m r (s\<lparr>rw_ticks := ts\<rparr>) = write_fallback v4 (rel_key rel) no_opts (ReleaseCb i) ?d"
    using w k r by (simp add: run_call_def idle_writer_def lock_outcome_def write_fallback_locked_def call_back_def
        release_write_with_def)
  moreover have "idle_writer i rel ?d" using w by (simp add: idle_writer_def)
  ultimately show ?thesis
    using assms(3) fallback_again [of i rel ?d v4 "rw_calls (write_fallback v4 (rel_key rel) no_opts (ReleaseCb i) ?d)"]
    by auto
qed

lemma again_never_ends: "again_and_again i s \<Longrightarrow> run_ticks v4 s = None"
proof -
  have "run_ticks v4 s = Some s' \<Longrightarrow> \<not> again_and_again i s" for s'
  proof (induction rule: run_ticks_induct)
    case (finished s)
    then show ?case by (auto simp: again_and_again_def)
  qed (blast dest: again_next)
  then show "again_and_again i s \<Longrightarrow> run_ticks v4 s = None" by (cases "run_ticks v4 s") auto
qed

text \<open>A writer's release function that is called when it has nothing left to release, on a client
  without a connection, never ends: \<open>parseUnlockOpts\<close> takes the function itself for the callback, so
  that each failure of the fallback calls it again, on the next tick.\<close>

lemma second_release_never_returns:
  assumes "idle_writer i rel s" and "rw_ticks s = []"
  shows "rw_handle v4 (OpRelease i has) s = None"
proof -
  have "rw_begin v4 (OpRelease i has) s = Some (write_fallback v4 (rel_key rel) no_opts (ReleaseCb i) s)"
    using assms(1) by (simp add: call_release_def release_write_with_def idle_writer_def)
  with fallback_again [OF assms, of v4 "Suc (rw_calls s)"] again_never_ends [of i _ v4]
  show ?thesis by (auto simp: rw_handle_def)
qed

lemma second_release_never_returns_witness:
  "rw_run demo_v4 writer_events rw_demo = Some writer_done \<and> rw_handle demo_v4 (OpRelease 0 True) writer_done = None"
proof -
  have "idle_writer 0 \<lparr>rel_key = ''k'', rel_reader = False, rel_unlock = None\<rparr> writer_done" "rw_ticks writer_done = []"
    by code_simp+
  from second_release_never_returns [OF this]
  have "rw_handle demo_v4 (OpRelease 0 True) writer_done = None" by simp
  with writer_run show ?thesis by blast
qed

end
