(* ===== verification/ClientGrants.thy ===== *)
theory ClientGrants
  imports ClientRun
begin

text \<open>
  When a client tells a caller that it has the lock: only on the arrival of an answer that says so, and
  with the key, the uuid and the token of that answer.
\<close>

fun is_locked :: "client_event \<Rightarrow> bool" where
  "is_locked (Called n b (Locked u)) = True"
| "is_locked _ = False"

definition told_locked :: "client \<Rightarrow> client_event list" where
  "told_locked c = filter is_locked (c_out c)"

lemma told_log [simp]: "told_locked (log_event e c) = told_locked c @ (if is_locked e then [e] else [])"
  by (simp add: told_locked_def log_event_def)

lemma told_fields [simp]:
  "told_locked (c\<lparr>c_timed_out := S1\<rparr>) = told_locked c" "told_locked (c\<lparr>c_timeouts := S2\<rparr>) = told_locked c"
  "told_locked (c\<lparr>c_giveups := S3\<rparr>) = told_locked c" "told_locked (c\<lparr>c_isOpen := b1\<rparr>) = told_locked c"
  "told_locked (c\<lparr>c_recovering := b2\<rparr>) = told_locked c" "told_locked (c\<lparr>c_socket := s\<rparr>) = told_locked c"
  "told_locked (c\<lparr>c_cannotContinue := b3\<rparr>) = told_locked c" "told_locked (c\<lparr>c_noRecover := b4\<rparr>) = told_locked c"
  "told_locked (c\<lparr>c_recoverCalled := b5\<rparr>) = told_locked c" "told_locked (c\<lparr>c_errorListener := b6\<rparr>) = told_locked c"
  "told_locked (c\<lparr>c_attempts := n1\<rparr>) = told_locked c" "told_locked (c\<lparr>c_uuids := n2\<rparr>) = told_locked c"
  "told_locked (c\<lparr>c_calls := n3\<rparr>) = told_locked c" "told_locked (c\<lparr>c_timers := ts\<rparr>) = told_locked c"
  "told_locked (c\<lparr>c_armed := am\<rparr>) = told_locked c" "told_locked (c\<lparr>c_deferred := rs\<rparr>) = told_locked c"
  "told_locked (c\<lparr>c_resolutions := rm\<rparr>) = told_locked c"
  by (simp_all add: told_locked_def)

lemma told_write [simp]: "told_locked (write_frame r c) = told_locked c"
  by (simp add: write_frame_def start_connection_def split: socket_state.split)

lemma told_forget [simp]:
  "told_locked (clear_timer u c) = told_locked c" "told_locked (del_timer u c) = told_locked c"
  "told_locked (del_resolution u c) = told_locked c" "told_locked (del_timeout u c) = told_locked c"
  "told_locked (start_timer u t ms c) = told_locked c" "told_locked (set_resolution u r c) = told_locked c"
  by (simp_all add: clear_timer_def del_timer_def del_resolution_def del_timeout_def start_timer_def
      set_resolution_def split: option.split)

lemma told_cleanUp [simp]: "told_locked (cleanUp uo c) = told_locked c"
  by (simp add: cleanUp_def Let_def split: option.split)

lemma told_answers [simp]:
  "told_locked (fireLockCallbackWithError cb b err c) = told_locked c"
  "told_locked (fireUnlockCallbackWithError uo b ue c) = told_locked c" "told_locked (ask_unlock uo c) = told_locked c"
  by (simp_all add: fireLockCallbackWithError_def call_unlock_def fireUnlockCallbackWithError_def
      ask_unlock_def split: option.split)

lemma told_call_unlock [simp]: "\<not> is_locked (Called 0 False r) \<Longrightarrow> told_locked (call_unlock uo b r c) = told_locked c"
  by (cases r) (simp_all add: call_unlock_def split: option.split)

lemma told_lock [simp]:
  "told_locked (attempt key u j cb c) = told_locked c" "told_locked (lockInternal v4 key j cb c) = told_locked c"
  "told_locked (client_lock v4 key a co c) = told_locked c" "told_locked (client_unlock v4 key ua co c) = told_locked c"
proof -
  show a: "told_locked (attempt key u j cb c) = told_locked c" for u j cb c
    by (simp add: attempt_def Let_def split: option.split)
  show l: "told_locked (lockInternal v4 key j cb c) = told_locked c" for j cb c
    by (simp add: lockInternal_def fresh_uuid_of_def a)
  show "told_locked (client_lock v4 key a co c) = told_locked c"
    by (simp add: client_lock_def l split: sum.split prod.split)
  show "told_locked (client_unlock v4 key ua co c) = told_locked c"
    by (simp add: client_unlock_def fresh_uuid_of_def Let_def split: option.split prod.split)
qed

lemma told_resolutions [simp]:
  "told_locked (lock_timed_out v4 a u key j cb c) = told_locked c"
  "told_locked (unlock_timed_out a u key uo c) = told_locked c"
  "told_locked (unlock_resolved a u key uo err d c) = told_locked c"
  "told_locked (info_resolved u key cb err d c) = told_locked c"
  "told_locked (probe_resolved u p cb err d c) = told_locked c"
  "\<not> is_locked (Called 0 False ok) \<Longrightarrow> \<not> is_locked (Called 0 False failed) \<Longrightarrow>
    told_locked (reply_resolved u ty ok failed cb err d c) = told_locked c"
proof -
  show "told_locked (lock_timed_out v4 a u key j cb c) = told_locked c"
    "told_locked (unlock_timed_out a u key uo c) = told_locked c"
    "told_locked (unlock_resolved a u key uo err d c) = told_locked c"
    "told_locked (info_resolved u key cb err d c) = told_locked c"
    "told_locked (probe_resolved u p cb err d c) = told_locked c"
    by (simp_all add: lock_timed_out_def unlock_timed_out_def unlock_resolved_def info_resolved_def
        probe_resolved_def Let_def split: option.split)
  assume "\<not> is_locked (Called 0 False ok)" "\<not> is_locked (Called 0 False failed)"
  then show "told_locked (reply_resolved u ty ok failed cb err d c) = told_locked c"
    by (cases ok; cases failed) (simp_all add: reply_resolved_def Let_def split: option.split)
qed

text \<open>The answer a grant came from.\<close>

definition told_by :: "client_frame option \<Rightarrow> client_event \<Rightarrow> bool" where
  "told_by d e \<longleftrightarrow>
     (\<exists>n b u f. e = Called n b (Locked u) \<and> d = Some f \<and> cf_uuid f = Some (bu_uuid u) \<and> cf_key f = bu_key u \<and>
        cf_acquired f = Some True \<and> \<not> cf_error f \<and> bu_fencingToken u = int_field (cf_fencingToken f))"

text \<open>What is told between \<open>c\<close> and \<open>c'\<close> was said by the frame \<open>d\<close>.\<close>

definition tells :: "client_frame option \<Rightarrow> client \<Rightarrow> client \<Rightarrow> bool" where
  "tells d c c' \<longleftrightarrow> (\<forall>e \<in> set (told_locked c'). e \<in> set (told_locked c) \<or> told_by d e)"

lemma tells_same [intro]: "told_locked c' = told_locked c \<Longrightarrow> tells d c c'"
  by (simp add: tells_def)

lemma tells_first: "told_locked c1 = told_locked c \<Longrightarrow> tells d c1 c' \<Longrightarrow> tells d c c'"
  by (simp add: tells_def)

lemma tells_lock_resolved: "tells d c (lock_resolved v4 a u key j cb err d c)"
proof (cases d)
  case (Some f)
  show ?thesis
    by (auto simp: tells_def lock_resolved_def Let_def Some told_by_def)
qed (auto simp: tells_def lock_resolved_def Let_def)

lemma tells_run_resolution: "tells d c (run_resolution v4 r err d c)"
  by (cases r) (auto simp: tells_lock_resolved)

lemma told_run_premature: "told_locked (run_resolution v4 r True None c) = told_locked c"
  by (cases r) (auto simp: lock_resolved_def Let_def)

lemma told_timer [simp]: "told_locked (fire_timer v4 t c) = told_locked c"
proof -
  have "told_locked (run_timer v4 tm c) = told_locked c" for tm c by (cases tm) simp_all
  then show ?thesis by (simp add: fire_timer_def split: option.split)
qed

lemma told_fold: "(\<And>x c. told_locked (f x c) = told_locked c) \<Longrightarrow> told_locked (fold f xs c) = told_locked c"
  by (induction xs arbitrary: c) simp_all

lemma told_connection [simp]:
  "told_locked (fireCallbacksPrematurely v4 c) = told_locked c" "told_locked (recover v4 c) = told_locked c"
  "told_locked (disable_socket c) = told_locked c" "told_locked (endCurrentConnection v4 c) = told_locked c"
  "told_locked (client_close v4 c) = told_locked c" "told_locked (start_connection c) = told_locked c"
  "told_locked (client_connect c) = told_locked c" "told_locked (connect_failed c) = told_locked c"
proof -
  have f: "told_locked (fold (fire_premature v4) rs c) = told_locked c" "told_locked (fold (recover_one v4) rs c) = told_locked c"
    "told_locked (fold write_frame ws c) = told_locked c" for rs ws c
    by (rule told_fold; simp add: fire_premature_def recover_one_def Let_def told_run_premature)+
  show a: "told_locked (fireCallbacksPrematurely v4 c) = told_locked c" for c
    by (simp add: fireCallbacksPrematurely_def stop_timers_def f)
  show d: "told_locked (disable_socket c) = told_locked c" for c by (simp add: disable_socket_def)
  show s: "told_locked (start_connection c) = told_locked c" for c by (simp add: start_connection_def)
  show "told_locked (recover v4 c) = told_locked c" by (simp add: recover_def begin_recovery_def end_recovery_def Let_def f s d)
  show "told_locked (endCurrentConnection v4 c) = told_locked c" by (simp add: endCurrentConnection_def hang_up_def a d)
  show "told_locked (client_close v4 c) = told_locked c" by (simp add: client_close_def forget_all_def stop_timers_def a d)
  show "told_locked (client_connect c) = told_locked c" by (simp add: client_connect_def Let_def f)
  show "told_locked (connect_failed c) = told_locked c" by (simp add: connect_failed_def Let_def d)
qed

lemma tells_onData: "tells (Some f) c (client_onData v4 f c)"
proof -
  have "tells (Some f) c (deliver v4 u f c)" for u c
    unfolding deliver_def Let_def
    by (auto simp: reject_frame_def split: option.split
        intro: tells_first [OF _ tells_run_resolution])
  then have "tells (Some f) c (deliver v4 u f c1)" if "told_locked c1 = told_locked c" for u c1
    using that by (rule tells_first [rotated])
  then show ?thesis by (auto simp: client_onData_def announce_def refuse_version_def Let_def)
qed

definition frame_in :: "client_step \<Rightarrow> client_frame option" where
  "frame_in e = (case e of FrameArrived f \<Rightarrow> Some f | _ \<Rightarrow> None)"

lemma tells_handle: "tells (frame_in e) c (client_handle v4 e c)"
proof (cases e)
  case (FrameArrived f)
  then show ?thesis by (simp add: frame_in_def tells_onData)
qed (auto simp: new_call_def client_acquire_def client_release_def requestLockInfo_def
      client_ls_def client_ping_def client_getSystemStats_def client_probe_def fresh_uuid_of_def Let_def)

end
