(* ===== verification/Answers.thy ===== *)
theory Answers
  imports BrokerFence
begin

text \<open>
  The answers that say a lock was acquired: the broker never takes one back from its history, and the
  token in it was minted for the key before.
\<close>

text \<open>\<open>b\<close> comes after \<open>b0\<close>, and every answer of \<open>b\<close> carries a token minted for its key.\<close>

definition answers_inv :: "'q broker \<Rightarrow> 'q broker \<Rightarrow> bool" where
  "answers_inv b0 b \<longleftrightarrow>
     set (mints b0) \<subseteq> set (mints b) \<and>
     (\<forall>ws u k n rd t err. Sent ws (LockReply u k True n rd t err) \<in> set (mints b) \<longrightarrow>
        (\<exists>i tok. t = Some tok \<and> Minted k i tok \<in> set (mints b)))"

lemma answers_same: "answers_inv b0 b \<Longrightarrow> mints b' = mints b \<Longrightarrow> answers_inv b0 b'"
  by (simp add: answers_inv_def)

lemma set_mints: "set (mints b) = {e \<in> set (out b). is_mint e}"
  by (auto simp: mints_def)

lemma answers_create: "answers_inv b0 b \<Longrightarrow> answers_inv b0 (create_lock E k keep mx mr mw b)"
  by (erule answers_same) (simp add: create_lock_def)

interpretation answers: broker_invariant E "answers_inv b0" "\<lambda>r. True" True "\<lambda>k l. True" for E b0
proof unfold_locales
  show "answers_inv b0 (snd (install_holder k u ws pid cid e l b))" if "answers_inv b0 b" for b k u ws pid cid e l
    using that by (fastforce simp: answers_inv_def install_holder_def Let_def)
  show "answers_inv b0 (emit (Sent ws (LockReply u k True n rd (Some tok) err)) b)"
    if "answers_inv b0 b" "Minted k i tok \<in> set (out b)" for b ws u k n rd tok err i
  proof -
    have "Minted k i tok \<in> set (mints b)" using that(2) by (simp add: set_mints)
    with that(1) show ?thesis by (fastforce simp: answers_inv_def)
  qed
qed (auto simp: same_grants_def cleanUpLocks_def update_object_def intro: answers_same answers_create)

lemma answers_reachable:
  "reachable E (\<lambda>ev. True) b0 b \<Longrightarrow> answers_inv b0 b0 \<Longrightarrow> answers_inv b0 b"
  using answers.P_reachable disciplined_True by metis

lemma answers_step: "handle E ev b = Some b' \<Longrightarrow> answers_inv b0 b \<Longrightarrow> answers_inv b0 b'"
  using answers.P_step [of E ev b b' b0] disciplined_True by metis

lemma answers_kept:
  assumes "handle E ev b = Some b'" and "answers_inv b0 b" and "Sent ws (LockReply u k True n rd t err) \<in> set (out b)"
  shows "Sent ws (LockReply u k True n rd t err) \<in> set (out b')"
proof -
  have "answers_inv b b" using assms(2) by (simp add: answers_inv_def)
  from answers_step [OF assms(1) this] assms(3) show ?thesis
    by (auto simp: answers_inv_def set_mints)
qed

lemma answers_init: "answers_inv (init_broker x t) (init_broker x t)"
  by (simp add: answers_inv_def init_broker_def mints_def)

end
