(* ===== verification/Network.thy ===== *)
theory Network
  imports RWRuns ClientGrants Answers
begin

text \<open>
  Clients and the broker as one system. Each client has one connection; what it writes reaches the
  broker in order, and so do the answers. A step is a call of a client's API, the arrival of one
  message at either end, or an event at the broker, so that every interleaving is a sequence of
  steps. After a \<open>Reconnect\<close> nothing more of a client is carried over: the new connection would be
  another socket of the broker.
\<close>

subsection \<open>Replies to probes\<close>

definition probe_frame :: "string \<Rightarrow> string \<Rightarrow> string \<Rightarrow> client_frame" where
  "probe_frame ty u key = (plain_frame u key)\<lparr>cf_type := ty\<rparr>"

text \<open>What a client reads of a reply; \<open>None\<close>: a reply to a request these clients do not make.\<close>

fun reply_frame :: "response \<Rightarrow> client_frame option" where
  "reply_frame (IncrementReadersSuccess u key) = Some (probe_frame ''increment-readers-success'' u key)"
| "reply_frame (DecrementReadersSuccess u key) = Some (probe_frame ''decrement-readers-success'' u key)"
| "reply_frame (WriteFlagAndReadersSuccess u key n fl) =
     Some (probe_frame ''register-write-flag-and-readers-check-success'' u key)"
| "reply_frame (WriteFlagSuccess u key n fl) = Some (probe_frame ''register-write-flag-success'' u key)"
| "reply_frame (WriteFlagCheckQueued u key n) = Some (probe_frame ''register-write-flag-check-queued'' u key)"
| "reply_frame (WriteFlagFalseAndBroadcastSuccess u key) =
     Some (probe_frame ''write-flag-false-and-broadcast-success'' u key)"
| "reply_frame (BroadcastResult u key) = Some (probe_frame ''broadcast-result'' u key)"
| "reply_frame (BroadcastSuccess u key) = Some (probe_frame ''broadcast-success'' u key)"
| "reply_frame rep = frame_of rep"

subsection \<open>The system\<close>

record 'q net =
  n_broker :: "'q broker"
  n_clients :: "sock \<Rightarrow> rw"
  n_up :: "sock \<Rightarrow> nat"          \<comment> \<open>how much of what a client did has reached the broker\<close>
  n_down :: "sock \<Rightarrow> nat"        \<comment> \<open>how much of the broker's output a client has seen\<close>

datatype net_step =
    Act sock rw_step
  | Upload sock
  | Deliver sock
  | Env bevent

text \<open>The calls and the timers of a client; frames arrive by \<open>Deliver\<close> only.\<close>

definition own_event :: "rw_step \<Rightarrow> bool" where
  "own_event e = (case e of RwBase (FrameArrived f) \<Rightarrow> False | _ \<Rightarrow> True)"

definition env_event :: "bevent \<Rightarrow> bool" where
  "env_event ev = (case ev of Frame f ws \<Rightarrow> False | _ \<Rightarrow> True)"

definition client_does :: "(nat \<Rightarrow> string) \<Rightarrow> sock \<Rightarrow> rw_step \<Rightarrow> 'q net \<Rightarrow> 'q net option" where
  "client_does v4 ws e N = map_option (\<lambda>s. N\<lparr>n_clients := (n_clients N)(ws := s)\<rparr>) (rw_handle v4 e (n_clients N ws))"

definition upload :: "'q ext \<Rightarrow> sock \<Rightarrow> 'q net \<Rightarrow> 'q net option" where
  "upload E ws N =
     (let N1 = N\<lparr>n_up := (n_up N)(ws := Suc (n_up N ws))\<rparr>
      in case drop (n_up N ws) (c_out (rw_client (n_clients N ws))) of
           [] \<Rightarrow> Some N
         | Wrote q # _ \<Rightarrow> map_option (\<lambda>b. N1\<lparr>n_broker := b\<rparr>) (handle E (Frame (Request q) ws) (n_broker N))
         | Reconnect # _ \<Rightarrow> Some N
         | _ # _ \<Rightarrow> Some N1)"

definition deliver_next :: "(nat \<Rightarrow> string) \<Rightarrow> sock \<Rightarrow> 'q net \<Rightarrow> 'q net option" where
  "deliver_next v4 ws N =
     (let N1 = N\<lparr>n_down := (n_down N)(ws := Suc (n_down N ws))\<rparr>
      in case drop (n_down N ws) (out (n_broker N)) of
           [] \<Rightarrow> Some N
         | Sent ws' rep # _ \<Rightarrow>
             if ws' \<noteq> ws then Some N1
             else (case reply_frame rep of
                     None \<Rightarrow> Some N1
                   | Some f \<Rightarrow> client_does v4 ws (RwBase (FrameArrived f)) N1)
         | _ # _ \<Rightarrow> Some N1)"

fun net_handle :: "'q ext \<Rightarrow> (sock \<Rightarrow> nat \<Rightarrow> string) \<Rightarrow> net_step \<Rightarrow> 'q net \<Rightarrow> 'q net option" where
  "net_handle E V (Act ws e) N = (if own_event e then client_does (V ws) ws e N else None)"
| "net_handle E V (Upload ws) N = upload E ws N"
| "net_handle E V (Deliver ws) N = deliver_next (V ws) ws N"
| "net_handle E V (Env ev) N =
     (if env_event ev then map_option (\<lambda>b. N\<lparr>n_broker := b\<rparr>) (handle E ev (n_broker N)) else None)"

inductive net_reachable :: "'q ext \<Rightarrow> (sock \<Rightarrow> nat \<Rightarrow> string) \<Rightarrow> 'q net \<Rightarrow> 'q net \<Rightarrow> bool" for E V N0 where
  net_start: "net_reachable E V N0 N0"
| net_step: "net_reachable E V N0 N \<Longrightarrow> net_handle E V x N = Some N' \<Longrightarrow> net_reachable E V N0 N'"

inductive_cases net_reachableE: "net_reachable E V N0 N"

fun net_run :: "'q ext \<Rightarrow> (sock \<Rightarrow> nat \<Rightarrow> string) \<Rightarrow> net_step list \<Rightarrow> 'q net \<Rightarrow> 'q net option" where
  "net_run E V [] N = Some N"
| "net_run E V (x # xs) N = Option.bind (net_handle E V x N) (net_run E V xs)"

lemma net_run_reachable: "net_run E V xs N = Some N' \<Longrightarrow> net_reachable E V N0 N \<Longrightarrow> net_reachable E V N0 N'"
  by (induction xs arbitrary: N) (auto intro: net_reachable.net_step split: Option.bind_splits)

definition new_net :: "'q broker \<Rightarrow> (sock \<Rightarrow> rw) \<Rightarrow> 'q net" where
  "new_net b cs = \<lparr>n_broker = b, n_clients = cs, n_up = (\<lambda>ws. length (c_out (rw_client (cs ws)))),
     n_down = (\<lambda>ws. length (out b))\<rparr>"

subsection \<open>What each part sees\<close>

lemma upload_parts:
  "upload E ws N = Some N' \<Longrightarrow>
    (n_broker N' = n_broker N \<or> (\<exists>ev. handle E ev (n_broker N) = Some (n_broker N'))) \<and>
    n_clients N' = n_clients N"
proof -
  assume u: "upload E ws N = Some N'"
  show ?thesis
  proof (cases "drop (n_up N ws) (c_out (rw_client (n_clients N ws)))")
    case (Cons x xs)
    show ?thesis
    proof (cases x)
      case (Wrote q)
      with u Cons have "handle E (Frame (Request q) ws) (n_broker N) = Some (n_broker N')" "n_clients N' = n_clients N"
        by (auto simp: upload_def Let_def)
      then show ?thesis by blast
    qed (use u Cons in \<open>auto simp: upload_def Let_def\<close>)
  qed (use u in \<open>simp add: upload_def\<close>)
qed

lemma deliver_parts:
  "deliver_next v4 ws N = Some N' \<Longrightarrow>
    n_broker N' = n_broker N \<and>
    (n_clients N' = n_clients N \<or>
     (\<exists>rep f s. Sent ws rep \<in> set (out (n_broker N)) \<and> reply_frame rep = Some f \<and>
        rw_handle v4 (RwBase (FrameArrived f)) (n_clients N ws) = Some s \<and> n_clients N' = (n_clients N)(ws := s)))"
proof -
  assume d: "deliver_next v4 ws N = Some N'"
  show ?thesis
  proof (cases "drop (n_down N ws) (out (n_broker N))")
    case (Cons x xs)
    then have "x \<in> set (out (n_broker N))" by (metis in_set_dropD list.set_intros(1))
    with Cons d show ?thesis
      by (cases x) (auto simp: deliver_next_def Let_def client_does_def split: if_splits option.splits)
  qed (use d in \<open>simp add: deliver_next_def\<close>)
qed

lemma net_parts:
  assumes "net_handle E V x N = Some N'"
  shows "n_broker N' = n_broker N \<or> (\<exists>ev. handle E ev (n_broker N) = Some (n_broker N'))"
    and "n_clients N' = n_clients N \<or>
      (\<exists>ws e s. rw_handle (V ws) e (n_clients N ws) = Some s \<and> n_clients N' = (n_clients N)(ws := s) \<and>
         n_broker N' = n_broker N \<and>
         (own_event e \<or> (\<exists>rep f. e = RwBase (FrameArrived f) \<and> reply_frame rep = Some f \<and>
            Sent ws rep \<in> set (out (n_broker N)))))"
proof -
  have "(n_broker N' = n_broker N \<or> (\<exists>ev. handle E ev (n_broker N) = Some (n_broker N'))) \<and>
    (n_clients N' = n_clients N \<or>
      (\<exists>ws e s. rw_handle (V ws) e (n_clients N ws) = Some s \<and> n_clients N' = (n_clients N)(ws := s) \<and>
         n_broker N' = n_broker N \<and>
         (own_event e \<or> (\<exists>rep f. e = RwBase (FrameArrived f) \<and> reply_frame rep = Some f \<and>
            Sent ws rep \<in> set (out (n_broker N))))))"
  proof (cases x)
    case (Upload ws)
    then show ?thesis using assms upload_parts [of E ws N N'] by simp
  next
    case (Deliver ws)
    then show ?thesis using assms deliver_parts [of "V ws" ws N N'] by fastforce
  qed (use assms in \<open>auto simp: client_does_def split: if_splits\<close>)
  then show "n_broker N' = n_broker N \<or> (\<exists>ev. handle E ev (n_broker N) = Some (n_broker N'))"
    "n_clients N' = n_clients N \<or>
      (\<exists>ws e s. rw_handle (V ws) e (n_clients N ws) = Some s \<and> n_clients N' = (n_clients N)(ws := s) \<and>
         n_broker N' = n_broker N \<and>
         (own_event e \<or> (\<exists>rep f. e = RwBase (FrameArrived f) \<and> reply_frame rep = Some f \<and>
            Sent ws rep \<in> set (out (n_broker N)))))"
    by simp_all
qed

lemma net_broker_reachable:
  "net_reachable E V (new_net b0 cs) N \<Longrightarrow> reachable E (\<lambda>ev. True) b0 (n_broker N)"
proof (induction rule: net_reachable.induct)
  case net_start
  then show ?case by (simp add: new_net_def reachable.start)
next
  case (net_step N x N')
  from net_parts(1) [OF net_step.hyps(2)] net_step.IH show ?case by (auto intro: reachable.step)
qed

subsection \<open>What a client is told\<close>

lemma told_rw [simp]:
  "told_locked (rw_client (rw_note x s)) = told_locked (rw_client s)"
  "told_locked (rw_client (forget_release i s)) = told_locked (rw_client s)"
  "told_locked (rw_client (store_unlock i u s)) = told_locked (rw_client s)"
  "told_locked (rw_client (new_release i key rd s)) = told_locked (rw_client s)"
  by (simp_all add: rw_note_def forget_release_def store_unlock_def new_release_def split: option.split)

lemma told_api: "is_api e \<Longrightarrow> told_locked (client_handle v4 e c) = told_locked c"
  by (cases e) (simp_all add: is_api_def new_call_def client_probe_def fresh_uuid_of_def)

lemma told_base [simp]:
  "told_locked (rw_client (base_lock v4 key o' k s)) = told_locked (rw_client s)"
  "told_locked (rw_client (base_unlock v4 key uo k s)) = told_locked (rw_client s)"
  "told_locked (rw_client (base_probe v4 p key k s)) = told_locked (rw_client s)"
  "told_locked (rw_client (call_bound v4 u k s)) = told_locked (rw_client s)"
proof -
  have b: "is_api e \<Longrightarrow> told_locked (rw_client (base_call v4 e k s)) = told_locked (rw_client s)" for e
    using told_api [of e v4 "rw_client s"] by (simp add: base_call_def del: client_handle.simps)
  show u: "told_locked (rw_client (base_unlock v4 key uo k s)) = told_locked (rw_client s)" for key uo
    unfolding base_unlock_def by (rule b) (simp add: is_api_def)
  show "told_locked (rw_client (base_lock v4 key o' k s)) = told_locked (rw_client s)"
    unfolding base_lock_def by (rule b) (simp add: is_api_def)
  show "told_locked (rw_client (base_probe v4 p key k s)) = told_locked (rw_client s)"
    unfolding base_probe_def by (rule b) (simp add: is_api_def)
  show "told_locked (rw_client (call_bound v4 u k s)) = told_locked (rw_client s)"
    unfolding call_bound_def by (rule u)
qed

lemma told_release_with [simp]:
  "told_locked (rw_client (release_write_with v4 key i cb s)) = told_locked (rw_client s)"
  "told_locked (rw_client (release_read_with v4 key i cb s)) = told_locked (rw_client s)"
  by (simp_all add: release_write_with_def release_read_with_def write_fallback_def read_fallback_def
      split: option.split)

lemma told_call_back [simp]: "told_locked (rw_client (call_back v4 cb b r s)) = told_locked (rw_client s)"
  by (simp add: call_back_def split: rw_callback.split option.split)

lemma told_run_cont [simp]: "told_locked (rw_client (run_cont v4 k r s)) = told_locked (rw_client s)"
  by (cases k)
    (simp_all add: read_locked_def read_unlocked_def acquire_read_counted_def acquire_write_flagged_def
      write_key_locked_def end_read_locked_def end_read_unlocked_def acquire_write_locked_def
      release_write_unlocked_def write_fallback_locked_def write_fallback_unlocked_def
      acquire_read_checked_def acquire_read_locked_def release_read_decremented_def
      read_fallback_locked_def read_fallback_decremented_def pass_on_def
      split: sum.split option.split)

lemma told_run_call [simp]: "told_locked (rw_client (run_call v4 m r s)) = told_locked (rw_client s)"
  by (simp add: run_call_def split: option.split)

lemma told_settle: "settle_calls v4 s = Some s' \<Longrightarrow> told_locked (rw_client s') = told_locked (rw_client s)"
  by (induction rule: settle_induct) (simp_all add: next_call_def react_def split: client_event.split)

lemma told_ticks: "run_ticks v4 s = Some s' \<Longrightarrow> told_locked (rw_client s') = told_locked (rw_client s)"
  by (induction rule: run_ticks_induct) (simp_all add: told_settle)

lemma told_on_client [simp]: "rw_client (on_client f s) = f (rw_client s)"
  by (simp add: on_client_def)

lemma told_each:
  assumes "\<And>p c. told_locked (f p c) = told_locked c"
  shows "rw_each v4 f ps s = Some s' \<Longrightarrow> told_locked (rw_client s') = told_locked (rw_client s)"
  by (induction ps arbitrary: s) (auto simp: assms dest!: told_settle split: Option.bind_splits)

lemma told_steps [simp]:
  "told_locked (fire_premature v4 p c) = told_locked c" "told_locked (recover_one v4 p c) = told_locked c"
  "told_locked (stop_timers c) = told_locked c" "told_locked (begin_recovery c) = told_locked c"
  "told_locked (end_recovery c) = told_locked c" "told_locked (hang_up c) = told_locked c"
  "told_locked (forget_all c) = told_locked c" "told_locked (announce f c) = told_locked c"
  "told_locked (refuse_version c) = told_locked c"
  by (simp_all add: fire_premature_def recover_one_def stop_timers_def begin_recovery_def end_recovery_def
      hang_up_def forget_all_def announce_def refuse_version_def Let_def told_run_premature)

lemma told_fire: "rw_fireCallbacksPrematurely v4 s = Some s' \<Longrightarrow> told_locked (rw_client s') = told_locked (rw_client s)"
  unfolding rw_fireCallbacksPrematurely_def by (drule told_each [rotated]) simp_all

lemma told_recover: "rw_recover v4 s = Some s' \<Longrightarrow> told_locked (rw_client s') = told_locked (rw_client s)"
  by (auto simp: rw_recover_def Let_def split: if_splits dest!: told_each [rotated])

lemma tells_base:
  assumes "rw_base v4 e s = Some s'"
  shows "tells (frame_in e) (rw_client s) (rw_client s')"
proof (cases e)
  case (FrameArrived f)
  then show ?thesis
    using assms told_fire tells_onData [of f "rw_client s" v4] by (auto simp: tells_def frame_in_def split: if_splits)
next
  case StreamEnded
  then show ?thesis using assms told_recover by (auto simp: tells_def)
next
  case ApiEndConnection
  then show ?thesis using assms told_fire by (auto simp: tells_def)
next
  case ApiClose
  then show ?thesis using assms told_fire by (fastforce simp: tells_def)
qed (use assms tells_handle [of e "rw_client s" v4] in auto)

lemma tells_rw_handle:
  assumes "rw_handle v4 e s = Some s'"
  shows "tells (case e of RwBase x \<Rightarrow> frame_in x | _ \<Rightarrow> None) (rw_client s) (rw_client s')"
proof -
  obtain t u where t: "rw_begin v4 e s = Some t" "settle_calls v4 (t\<lparr>rw_calls := Suc (rw_calls s)\<rparr>) = Some u"
    "run_ticks v4 u = Some s'"
    using assms by (auto simp: rw_handle_def split: Option.bind_splits)
  have "told_locked (rw_client s') = told_locked (rw_client t)"
    using told_settle [OF t(2)] told_ticks [OF t(3)] by simp
  moreover have "tells (case e of RwBase x \<Rightarrow> frame_in x | _ \<Rightarrow> None) (rw_client s) (rw_client t)"
  proof (cases e)
    case (RwBase x)
    with t(1) show ?thesis by (simp add: tells_base)
  qed (use t(1) in \<open>auto simp: begin_write_def end_write_def begin_read_def end_read_def acquire_write_def release_write_def
      acquire_read_def release_read_def call_release_def write_fallback_def read_fallback_def split: option.split\<close>)
  ultimately show ?thesis by (simp add: tells_def)
qed

end
