(* ===== verification/SystemRuns.thy ===== *)
theory SystemRuns
  imports Network Safety
begin

text \<open>
  Properties of clients and broker together: what a caller is told the broker has said, and runs in
  which the reader/writer protocols go wrong.
\<close>

subsection \<open>Every lock a caller is told of was granted\<close>

text \<open>The answer behind a \<open>Locked\<close>.\<close>

definition granted_by :: "'q broker \<Rightarrow> sock \<Rightarrow> client_event \<Rightarrow> bool" where
  "granted_by b ws e \<longleftrightarrow>
     (\<exists>n nt u cnt rd tok. e = Called n nt (Locked u) \<and> bu_fencingToken u = Some tok \<and>
        Sent ws (LockReply (bu_uuid u) (bu_key u) True cnt rd (Some tok) None) \<in> set (out b))"

definition net_inv :: "'q broker \<Rightarrow> 'q net \<Rightarrow> bool" where
  "net_inv b0 N \<longleftrightarrow> answers_inv b0 (n_broker N) \<and>
     (\<forall>ws. \<forall>e \<in> set (told_locked (rw_client (n_clients N ws))). granted_by (n_broker N) ws e)"

lemma answer_is_grant:
  assumes "answers_inv b0 b" and "Sent ws rep \<in> set (out b)" and "reply_frame rep = Some f"
    and "told_by (Some f) e"
  shows "granted_by b ws e"
proof -
  from assms(4) obtain n nt u where e: "e = Called n nt (Locked u)" "cf_uuid f = Some (bu_uuid u)"
      "cf_key f = bu_key u" "cf_acquired f = Some True" "\<not> cf_error f"
      "bu_fencingToken u = int_field (cf_fencingToken f)"
    by (auto simp: told_by_def)
  from assms(3) e obtain cnt rd t where rep: "rep = LockReply (bu_uuid u) (bu_key u) True cnt rd t None"
      "cf_fencingToken f = (case t of None \<Rightarrow> Undefined | Some n \<Rightarrow> Integer n)"
    by (cases rep) (auto simp: plain_frame_def probe_frame_def)
  with assms(1,2) obtain tok where "t = Some tok"
    by (fastforce simp: answers_inv_def set_mints)
  with e rep assms(2) show ?thesis by (auto simp: granted_by_def int_field_def)
qed

lemma net_inv_step:
  assumes "net_handle E V x N = Some N'" and inv: "net_inv b0 N"
  shows "net_inv b0 N'"
proof -
  from inv have a: "answers_inv b0 (n_broker N)"
    and g: "e \<in> set (told_locked (rw_client (n_clients N ws))) \<Longrightarrow> granted_by (n_broker N) ws e" for e ws
    by (auto simp: net_inv_def)
  have a': "answers_inv b0 (n_broker N')"
    using net_parts(1) [OF assms(1)] a answers_step by metis
  have keep: "granted_by (n_broker N) ws e \<Longrightarrow> granted_by (n_broker N') ws e" for ws e
    using net_parts(1) [OF assms(1)] answers_kept [OF _ a] unfolding granted_by_def by metis
  have "granted_by (n_broker N') ws e" if "e \<in> set (told_locked (rw_client (n_clients N' ws)))" for ws e
  proof (cases "n_clients N' ws = n_clients N ws")
    case True
    with that g keep show ?thesis by metis
  next
    case False
    then have "n_clients N' \<noteq> n_clients N" by auto
    with net_parts(2) [OF assms(1)] obtain ws' ev s where
        w: "rw_handle (V ws') ev (n_clients N ws') = Some s" "n_clients N' = (n_clients N)(ws' := s)"
          "n_broker N' = n_broker N"
        "own_event ev \<or> (\<exists>rep f. ev = RwBase (FrameArrived f) \<and> reply_frame rep = Some f \<and>
          Sent ws' rep \<in> set (out (n_broker N)))"
      by blast
    have "ws' = ws" using w(2) False by (auto split: if_splits)
    with w have h: "rw_handle (V ws) ev (n_clients N ws) = Some s" "n_clients N' ws = s" "n_broker N' = n_broker N"
      and c: "own_event ev \<or> (\<exists>rep f. ev = RwBase (FrameArrived f) \<and> reply_frame rep = Some f \<and>
        Sent ws rep \<in> set (out (n_broker N)))"
      by simp_all
    have "e \<in> set (told_locked (rw_client (n_clients N ws))) \<or>
        told_by (case ev of RwBase y \<Rightarrow> frame_in y | _ \<Rightarrow> None) e"
      using tells_rw_handle [OF h(1)] that h(2) by (auto simp: tells_def)
    moreover have "\<not> told_by (case ev of RwBase y \<Rightarrow> frame_in y | _ \<Rightarrow> None) e" if "own_event ev"
      using that by (auto simp: own_event_def told_by_def frame_in_def split: rw_step.splits client_step.splits)
    ultimately show ?thesis
      using g c answer_is_grant [OF a] h(3) by (auto simp: frame_in_def)
  qed
  with a' show ?thesis by (simp add: net_inv_def)
qed

lemma net_inv_reachable:
  assumes "net_reachable E V N0 N" and "net_inv b0 N0"
  shows "net_inv b0 N"
  using assms by (induction rule: net_reachable.induct) (auto intro: net_inv_step)

text \<open>C24: From end to end: in every state of a system of clients and a broker, under any interleaving
  of calls, messages, timers, disconnections and clock changes, a caller who was told that it has a
  lock was answered so by the broker, on its own connection, for that key and that uuid, and with a
  fencing token that the broker minted for that key.\<close>

theorem locks_are_granted:
  assumes "net_reachable E V (new_net (init_broker x t) cs) N" and "\<And>ws. c_out (rw_client (cs ws)) = []"
    and "Called n nt (Locked u) \<in> set (c_out (rw_client (n_clients N ws)))"
  shows "\<exists>cnt rd tok i. bu_fencingToken u = Some tok \<and>
    Sent ws (LockReply (bu_uuid u) (bu_key u) True cnt rd (Some tok) None) \<in> set (out (n_broker N)) \<and>
    Minted (bu_key u) i tok \<in> set (out (n_broker N))"
proof -
  have "net_inv (init_broker x t) (new_net (init_broker x t) cs)"
    using assms(2) answers_init by (simp add: net_inv_def new_net_def told_locked_def)
  from net_inv_reachable [OF assms(1) this] have inv: "net_inv (init_broker x t) N" .
  have "Called n nt (Locked u) \<in> set (told_locked (rw_client (n_clients N ws)))"
    using assms(3) by (simp add: told_locked_def)
  with inv have "granted_by (n_broker N) ws (Called n nt (Locked u))" unfolding net_inv_def by blast
  then obtain cnt rd tok where s: "bu_fencingToken u = Some tok"
      "Sent ws (LockReply (bu_uuid u) (bu_key u) True cnt rd (Some tok) None) \<in> set (out (n_broker N))"
    by (auto simp: granted_by_def)
  moreover have "answers_inv (init_broker x t) (n_broker N)" using inv by (simp add: net_inv_def)
  with s(2) obtain i where "Minted (bu_key u) i tok \<in> set (out (n_broker N))"
    by (fastforce simp: answers_inv_def set_mints)
  ultimately show ?thesis by blast
qed

subsection \<open>Two clients and a broker\<close>

definition uuids :: "sock \<Rightarrow> nat \<Rightarrow> string" where
  "uuids ws n = (if ws = 1 then CHR ''a'' else CHR ''b'') # replicate n (CHR ''4'')"

definition new_system :: "demo_queue net" where
  "new_system = new_net demo_start (\<lambda>ws. new_rw True demo_constructed)"

text \<open>Everything a client wrote goes up, everything for it comes down, \<open>n\<close> times.\<close>

definition exchange :: "nat \<Rightarrow> sock \<Rightarrow> net_step list" where
  "exchange n ws = concat (replicate n (replicate 6 (Upload ws) @ replicate 6 (Deliver ws)))"

definition join_net :: "sock \<Rightarrow> net_step list" where
  "join_net ws = [Env (Accept ws), Env (WritableSet ws True), Act ws (RwBase Connected)]"

definition after_steps :: "net_step list \<Rightarrow> demo_queue net" where
  "after_steps xs = the (net_run demo uuids xs new_system)"


lemma after_steps_reachable:
  assumes "net_run demo uuids xs new_system \<noteq> None"
  shows "net_reachable demo uuids new_system (after_steps xs)"
proof -
  from assms obtain N where "net_run demo uuids xs new_system = Some N" by auto
  then show ?thesis
    using net_run_reachable [of demo uuids xs new_system N new_system] by (simp add: after_steps_def net_start)
qed

definition writer_enters :: "net_step list" where
  "writer_enters = join_net 1 @ join_net 2 @ [Act 1 (OpAcquireWrite ''k'' ArgNothing True)] @ exchange 3 1"

lemma writer_enters_runs: "net_run demo uuids writer_enters new_system \<noteq> None"
  by code_simp

theorem locks_are_granted_witness:
  "\<exists>cnt rd i. Sent 1 (LockReply ''a'' ''k'' True cnt rd (Some 1001) None) \<in> set (out (n_broker (after_steps writer_enters))) \<and>
     Minted ''k'' i 1001 \<in> set (out (n_broker (after_steps writer_enters)))"
proof -
  define u where "u = \<lparr>bu_key = ''k'', bu_uuid = ''a'', bu_rwStatus = None, bu_force = False,
    bu_readersCount = Some 0, bu_fencingToken = Some 1001\<rparr>"
  have "Called 0 False (Locked u) \<in> set (c_out (rw_client (n_clients (after_steps writer_enters) 1)))"
    unfolding u_def by code_simp
  moreover have "c_out demo_constructed = []" by code_simp
  ultimately show ?thesis
    using locks_are_granted [OF after_steps_reachable [OF writer_enters_runs, unfolded new_system_def demo_start_def],
        of 0 False u 1] by (auto simp: new_rw_def u_def)
qed

subsection \<open>The write-preferring protocol\<close>

text \<open>A reader's flag check is answered before the writer sets the flag; its lock request comes after.\<close>

definition reader_overlaps :: "net_step list" where
  "reader_overlaps = join_net 1 @ join_net 2 @
     [Act 2 (OpAcquireRead ''k'' ArgNothing True)] @ replicate 3 (Upload 2) @
     [Act 1 (OpAcquireWrite ''k'' ArgNothing True)] @ exchange 3 1 @ replicate 9 (Deliver 2) @ exchange 4 2"

text \<open>C27: The write-preferring client does not keep readers and a writer apart: in a system of two
  clients that call nothing but \<open>acquireWriteLock\<close> and \<open>acquireReadLock\<close> for the same key, with the
  default options, a state can be reached in which both have been told that they have the lock, no
  release has been called, and both hold it at the broker. The reader's check of the writer flag and
  its lock request are separate messages, and the lock request of a reader asks for up to ten holders.\<close>

theorem reader_and_writer_together:
  "\<exists>N. net_reachable demo uuids new_system N \<and>
     rw_log (n_clients N 1) = [UserCalled 1 False (Acquired 1)] \<and>
     rw_log (n_clients N 2) = [UserCalled 1 False (Acquired 1)] \<and>
     map_option (map (h_ws \<circ> snd) \<circ> lockholders) (get_lock (n_broker N) ''k'') = Some [1, 2]"
proof -
  have "net_run demo uuids reader_overlaps new_system \<noteq> None" by code_simp
  from after_steps_reachable [OF this] have "net_reachable demo uuids new_system (after_steps reader_overlaps)" .
  moreover have "rw_log (n_clients (after_steps reader_overlaps) 1) = [UserCalled 1 False (Acquired 1)]" by code_simp
  moreover have "rw_log (n_clients (after_steps reader_overlaps) 2) = [UserCalled 1 False (Acquired 1)]" by code_simp
  moreover have "map_option (map (h_ws \<circ> snd) \<circ> lockholders) (get_lock (n_broker (after_steps reader_overlaps)) ''k'') =
      Some [1, 2]" by code_simp
  ultimately show ?thesis by blast
qed

text \<open>A reader comes while a writer has the key, waits, reads and releases.\<close>

definition reader_waits :: "net_step list" where
  "reader_waits = writer_enters @ [Act 2 (OpAcquireRead ''k'' ArgNothing True)] @ exchange 3 2 @
     [Act 1 (OpRelease 1 True)] @ exchange 4 1 @ exchange 4 2 @ [Act 2 (OpRelease 1 True)] @ exchange 4 2"

text \<open>A reader that had to wait for a writer is counted twice, by the broadcast that wakes it and by
  the \<open>increment-readers\<close> of its own client, and uncounted once: after writer and reader have both been
  told that they have released the key, nobody holds it, and its count of readers is 1.\<close>

lemma waiting_reader_counted_twice:
  "\<exists>N. net_reachable demo uuids new_system N \<and>
     rw_log (n_clients N 1) = [UserCalled 1 False (Acquired 1), UserCalled 4 False (RwEnded (Unlocked ''a44'' ''k''))] \<and>
     rw_log (n_clients N 2) = [UserCalled 1 False (Acquired 1), UserCalled 7 False (RwEnded (Unlocked ''b4444'' ''k''))] \<and>
     map_option (\<lambda>l. (map fst (lockholders l), readers l)) (get_lock (n_broker N) ''k'') = Some ([], 1)"
proof -
  have "net_run demo uuids reader_waits new_system \<noteq> None" by code_simp
  from after_steps_reachable [OF this] have "net_reachable demo uuids new_system (after_steps reader_waits)" .
  moreover have "rw_log (n_clients (after_steps reader_waits) 1) =
      [UserCalled 1 False (Acquired 1), UserCalled 4 False (RwEnded (Unlocked ''a44'' ''k''))]" by code_simp
  moreover have "rw_log (n_clients (after_steps reader_waits) 2) =
      [UserCalled 1 False (Acquired 1), UserCalled 7 False (RwEnded (Unlocked ''b4444'' ''k''))]" by code_simp
  moreover have "map_option (\<lambda>l. (map fst (lockholders l), readers l)) (get_lock (n_broker (after_steps reader_waits)) ''k'') =
      Some ([], 1)" by code_simp
  ultimately show ?thesis by blast
qed

text \<open>The wake-up of a reader that waits for the writer flag.\<close>

lemma out_update_object [simp]: "out (update_object i f b) = out b" "writable (update_object i f b) = writable b"
  by (simp_all add: update_object_def)

lemma run_listener_keeps:
  "set (out b) \<subseteq> set (out (run_listener k p b))" "writable (run_listener k p b) = writable b"
  by (auto simp: run_listener_def run_fn_def send_def emit_def Let_def split: listener_fn.split)

lemma run_listeners_keep: "set (out b) \<subseteq> set (out (fold (run_listener k) ps b))"
  using run_listener_keeps(1) by (induction ps arbitrary: b) fastforce+

lemma run_listener_wakes:
  assumes "writable b (ls_ws p)" and "ls_fn p = IncReadersAndReply i"
  shows "\<exists>n. Sent (ls_ws p) (WriteFlagSuccess (ls_uuid p) (ls_key p) n False) \<in> set (out (run_listener k p b))"
  using assms by (auto simp: run_listener_def run_fn_def send_def emit_def Let_def)

text \<open>A reader of the write-preferring client that asks while the writer flag is up is queued: the
  answer leaves its client waiting, with no callback called, and when the flag is taken down the broker
  sends it the answer that ends the wait.\<close>

lemma reader_waits_for_writer:
  fixes E :: "'q ext" and b :: "'q broker" and r r' :: key_req and ws ws' :: sock
  assumes "get_lock b (k_key r) = Some l" and "writerFlag l" and "writable b ws" and "k_key r' = k_key r"
  defines "b1 \<equiv> registerWriteFlagCheck E r ws b"
  shows "last (out b1) = Sent ws (WriteFlagCheckQueued (k_uuid r) (k_key r) (readers l)) \<and>
    still_waiting WriteFlagCheck (reply_frame (WriteFlagCheckQueued (k_uuid r) (k_key r) (readers l))) \<and>
    (\<exists>n. Sent ws (WriteFlagSuccess (k_uuid r) (k_key r) n False)
       \<in> set (out (setWriteFlagToFalseAndBroadcast E r' ws' b1)) \<and>
     \<not> still_waiting WriteFlagCheck (reply_frame (WriteFlagSuccess (k_uuid r) (k_key r) n False)))"
proof -
  define p where "p = \<lparr>ls_ws = ws, ls_key = k_key r, ls_uuid = k_uuid r, ls_fn = IncReadersAndReply (lo_id l)\<rparr>"
  have b1: "b1 = send ws (WriteFlagCheckQueued (k_uuid r) (k_key r) (readers l)) (push_listener p b)"
    using assms(1,2) by (simp add: b1_def registerWriteFlagCheck_def ensure_lock_def with_lock_def p_def Let_def)
  have q: "writable (push_listener p b) ws" using assms(3) by (simp add: push_listener_def)
  have b1': "out b1 = out b @ [Sent ws (WriteFlagCheckQueued (k_uuid r) (k_key r) (readers l))]"
    "get_lock b1 (k_key r) = Some l" "writable b1 ws"
    "registeredListeners b1 (k_key r) = registeredListeners b (k_key r) @ [p]"
    using assms(1) q by (simp_all add: b1 send_def emit_def push_listener_def p_def)
  define b2 where "b2 = set_lock (k_key r) (l\<lparr>writerFlag := False\<rparr>) b1"
  have b2: "writable b2 ws" "registeredListeners b2 (k_key r) = registeredListeners b (k_key r) @ [p]"
    using b1'(3,4) by (simp_all add: b2_def set_lock_def)
  have "set (out (broadcast (k_key r) None None b2)) \<subseteq> set (out (setWriteFlagToFalseAndBroadcast E r' ws' b1))"
    using b1'(2) assms(4)
    by (auto simp: setWriteFlagToFalseAndBroadcast_def ensure_lock_def with_lock_def b2_def Let_def send_def emit_def)
  moreover have "set (out (run_listener (k_key r) p b2)) \<subseteq> set (out (broadcast (k_key r) None None b2))"
    using run_listeners_keep by (simp add: broadcast_def b2(2) Let_def)
  moreover obtain n where "Sent ws (WriteFlagSuccess (k_uuid r) (k_key r) n False) \<in> set (out (run_listener (k_key r) p b2))"
    using run_listener_wakes [of b2 p "lo_id l" "k_key r"] b2(1) by (auto simp: p_def)
  ultimately have "Sent ws (WriteFlagSuccess (k_uuid r) (k_key r) n False)
      \<in> set (out (setWriteFlagToFalseAndBroadcast E r' ws' b1))" by blast
  then show ?thesis using b1'(1) by (auto simp: still_waiting_def probe_frame_def plain_frame_def)
qed

lemma reader_waits_for_writer_witness:
  "last (out (registerWriteFlagCheck demo \<lparr>k_uuid = ''r'', k_key = ''k''\<rparr> 2 (n_broker (after_steps writer_enters)))) =
     Sent 2 (WriteFlagCheckQueued ''r'' ''k'' 0) \<and>
   (\<exists>n. Sent 2 (WriteFlagSuccess ''r'' ''k'' n False) \<in> set (out (setWriteFlagToFalseAndBroadcast demo
      \<lparr>k_uuid = ''x'', k_key = ''k''\<rparr> 1
      (registerWriteFlagCheck demo \<lparr>k_uuid = ''r'', k_key = ''k''\<rparr> 2 (n_broker (after_steps writer_enters))))))"
proof -
  define b where "b = n_broker (after_steps writer_enters)"
  define l where "l = the (get_lock b ''k'')"
  have "get_lock b ''k'' \<noteq> None" unfolding b_def by code_simp
  then have l: "get_lock b ''k'' = Some l" by (simp add: l_def)
  have h: "writerFlag l" "writable b 2" "readers l = 0" unfolding b_def l_def by code_simp+
  show ?thesis
    using reader_waits_for_writer [of b "\<lparr>k_uuid = ''r'', k_key = ''k''\<rparr>" l 2 "\<lparr>k_uuid = ''x'', k_key = ''k''\<rparr>" demo 1]
      l h by (simp add: b_def)
qed

subsection \<open>The read-preferring protocol\<close>

text \<open>The last reader does not unlock the write key: the broker answers the lock request of an
  \<open>endRead\<close> with the number of readers that remain, and the client goes on to unlock the write key
  exactly if that number is 1, that is, if there were two readers and one of them still reads.\<close>

lemma end_read_unlocks_for_two:
  assumes "validateMaxField r = None" and "get_lock b (l_key r) = Some l" and "jsmap_wf (locks b)"
    and "endRead r" and "effective_count r (update_limits r l) < effective_max r (update_limits r l)"
    and "writable b ws"
  shows "\<exists>rep f. last (out (lock E r ws b)) = Sent ws rep \<and> frame_of rep = Some f \<and>
    int_field (cf_readersCount f) = Some (int (readers l - 1)) \<and>
    end_read_locked v4 wk allowed cb (Inr (u\<lparr>bu_readersCount := int_field (cf_readersCount f)\<rparr>)) s =
      call_bound v4 (u\<lparr>bu_readersCount := int_field (cf_readersCount f)\<rparr>)
        (EndReadUnlocked wk (allowed \<and> readers l = 2) cb) s"
proof -
  define l1 where "l1 = update_limits r (l\<lparr>timestampEmptied := None\<rparr>)"
  define b1 where "b1 = set_lock (l_key r) l1 (lock_prelude E r ws b)"
  have "effective_count r l1 = effective_count r (update_limits r l)"
    "effective_max r l1 = effective_max r (update_limits r l)" "readers l1 = readers l"
    by (simp_all add: l1_def effective_count_def effective_max_def update_limits_def set_legacy_max_def
        split: option.split)
  with assms(5) have l1: "effective_count r l1 < effective_max r l1" "readers l1 = readers l" by simp_all
  have res: "lock E r ws b = lock_acquire E r ws (lock_ttl E b r) (lq_length E (notify l1)) l1 b1"
    using lock_prelude [OF assms(1), of E ws b] assms(2) l1(1)
    by (simp add: lock_existing_def Let_def b1_def l1_def)
  have b1: "get_lock b1 (l_key r) = Some l1" "writable b1 ws" using assms(6) by (simp_all add: b1_def)
  have "readers (count_reader r l1) = readers l - 1"
    using assms(4) l1(2) by (auto simp: count_reader_def endRead_def beginRead_def)
  with lock_acquire_grants(4) [OF b1, of E "lock_ttl E b r" "lq_length E (notify l1)"] res
  have "last (out (lock E r ws b)) = Sent ws (LockReply (l_uuid r) (l_key r) True (lq_length E (notify l1))
      (readers l - 1) (Some (js_inc (nextFencingToken l1))) None)" by simp
  moreover have "readers l - Suc 0 = Suc 0 \<longleftrightarrow> readers l = 2" by arith
  ultimately show ?thesis by (auto simp: end_read_locked_def int_field_def plain_frame_def)
qed

text \<open>One reader of the read-preferring client begins and ends.\<close>

definition one_read :: "net_step list" where
  "one_read = join_net 1 @ [Act 1 (OpBeginRead ''k'' (ArgOptions no_opts) (String ''w'') True)] @ exchange 5 1"

definition end_request :: lock_req where
  "end_request = (ask ''e'' ''k'' (Integer 1))\<lparr>l_rwStatus := Some EndRead\<rparr>"

lemma end_read_unlocks_for_two_witness:
  "\<exists>rep f. last (out (lock demo end_request 1 (n_broker (after_steps one_read)))) = Sent 1 rep \<and>
     frame_of rep = Some f \<and> int_field (cf_readersCount f) = Some 0 \<and>
     map_option (map fst \<circ> lockholders) (get_lock (n_broker (after_steps one_read)) ''w'') = Some [''a4'']"
proof -
  define b where "b = n_broker (after_steps one_read)"
  define l where "l = the (get_lock b ''k'')"
  have "get_lock b ''k'' \<noteq> None" unfolding b_def by code_simp
  then have l: "get_lock b (l_key end_request) = Some l" by (simp add: l_def end_request_def ask_def)
  have h: "validateMaxField end_request = None" "jsmap_wf (locks b)" "endRead end_request" "writable b 1"
    "effective_count end_request (update_limits end_request l) < effective_max end_request (update_limits end_request l)"
    "readers l = 1" "map_option (map fst \<circ> lockholders) (get_lock b ''w'') = Some [''a4'']"
    unfolding b_def l_def by code_simp+
  show ?thesis
    using end_read_unlocks_for_two [OF h(1) l h(2,3,5,4), of demo] h(6,7) by (fastforce simp: b_def)
qed

end
