(* ===== verification/HttpText.thy ===== *)
theory HttpText
  imports JsTypes
begin

text \<open>
  The text the HTTP server (\<open>src/src/http-server.ts\<close>) reads and writes: JSON values, the escaping of
  what goes into HTML, the admin token, booleans of forms, and the log level of \<open>src/src/log-level.ts\<close>.

  Text is a list of UTF-8 bytes, as in the frame parser. White space and letter case are those of ASCII,
  so the model covers header and form values of ASCII text.
\<close>

subsection \<open>JSON\<close>

datatype json =
    JNull
  | JBool bool
  | JInt int
  | JFrac string                 \<comment> \<open>a number that is not an integer, by its text\<close>
  | JStr string
  | JArr "json list"
  | JObj "(string \<times> json) list"

text \<open>\<open>body.f\<close>: \<open>undefined\<close> on anything but an object that has the property.\<close>

fun field :: "json \<Rightarrow> string \<Rightarrow> json option" where
  "field (JObj fs) f = map_of fs f"
| "field _ f = None"

fun json_truthy :: "json \<Rightarrow> bool" where
  "json_truthy JNull = False"
| "json_truthy (JBool x) = x"
| "json_truthy (JInt n) = (n \<noteq> 0)"
| "json_truthy (JStr s) = (s \<noteq> [])"
| "json_truthy _ = True"

text \<open>An object literal handed to \<open>JSON.stringify\<close>: properties that are \<open>undefined\<close> are left out.\<close>

definition js_object :: "(string \<times> json option) list \<Rightarrow> json" where
  "js_object fs = JObj (List.map_filter (\<lambda>(f, v). map_option (Pair f) v) fs)"

definition string_field :: "json \<Rightarrow> string \<Rightarrow> string option" where
  "string_field v f = (case field v f of Some (JStr s) \<Rightarrow> Some s | _ \<Rightarrow> None)"

definition integer_field :: "json \<Rightarrow> string \<Rightarrow> int option" where
  "integer_field v f = (case field v f of Some (JInt n) \<Rightarrow> Some n | _ \<Rightarrow> None)"

text \<open>An entry of the array \<open>keys\<close>, as the broker's checks see it.\<close>

fun to_jsval :: "json \<Rightarrow> jsval" where
  "to_jsval JNull = Null"
| "to_jsval (JBool x) = Boolean x"
| "to_jsval (JInt n) = Integer n"
| "to_jsval (JFrac _) = NonInteger"
| "to_jsval (JStr s) = String s"
| "to_jsval _ = Object"

subsection \<open>Escaping\<close>

text \<open>\<open>s.replace(/c/g, by)\<close> for a single character.\<close>

definition replace_all :: "char \<Rightarrow> string \<Rightarrow> string \<Rightarrow> string" where
  "replace_all c by s = concat (map (\<lambda>x. if x = c then by else [x]) s)"

definition esc :: "string \<Rightarrow> string" where
  "esc s =
     replace_all (CHR 0x27) ''&#39;''
       (replace_all (CHR 0x22) ''&quot;''
         (replace_all (CHR ''>'') ''&gt;''
           (replace_all (CHR ''<'') ''&lt;'' (replace_all (CHR ''&'') ''&amp;'' s))))"

definition entity :: "char \<Rightarrow> string" where
  "entity c =
     (if c = CHR ''&'' then ''&amp;'' else if c = CHR ''<'' then ''&lt;''
      else if c = CHR ''>'' then ''&gt;'' else if c = CHR 0x22 then ''&quot;''
      else if c = CHR 0x27 then ''&#39;'' else [c])"

text \<open>How a browser reads the five entities.\<close>

fun unescape :: "string \<Rightarrow> string" where
  "unescape [] = []"
| "unescape (c # cs) =
     (if c \<noteq> CHR ''&'' then c # unescape cs
      else if take 4 cs = ''amp;'' then CHR ''&'' # unescape (drop 4 cs)
      else if take 3 cs = ''lt;'' then CHR ''<'' # unescape (drop 3 cs)
      else if take 3 cs = ''gt;'' then CHR ''>'' # unescape (drop 3 cs)
      else if take 5 cs = ''quot;'' then CHR 0x22 # unescape (drop 5 cs)
      else if take 4 cs = ''#39;'' then CHR 0x27 # unescape (drop 4 cs)
      else c # unescape cs)"

lemma replace_all_concat:
  "replace_all c by (concat (map f s)) = concat (map (\<lambda>x. replace_all c by (f x)) s)"
  by (induction s) (simp_all add: replace_all_def)

text \<open>One pass with \<open>entity\<close> is the chain of five replacements: no replacement sees the output of an
  earlier one.\<close>

lemma esc_entity: "esc s = concat (map entity s)"
proof -
  have "esc (concat (map (\<lambda>x. [x]) s)) = concat (map (\<lambda>x. esc [x]) s)"
    by (simp only: esc_def replace_all_concat)
  moreover have "esc [x] = entity x" for x
    by (simp add: esc_def replace_all_def entity_def)
  ultimately show ?thesis by simp
qed

lemma unescape_entity: "unescape (entity c @ cs) = c # unescape cs"
  by (simp add: entity_def)

lemma unescape_esc: "unescape (esc s) = s"
  unfolding esc_entity by (induction s) (simp_all add: unescape_entity)

lemma esc_markup: "set (esc s) \<inter> {CHR ''<'', CHR ''>'', CHR 0x22, CHR 0x27} = {}"
  unfolding esc_entity by (induction s) (auto simp: entity_def)

subsection \<open>Trimming and case\<close>

definition is_space :: "char \<Rightarrow> bool" where
  "is_space c = (c \<in> set [CHR 0x09, CHR 0x0A, CHR 0x0B, CHR 0x0C, CHR 0x0D, CHR '' ''])"

definition trim :: "string \<Rightarrow> string" where
  "trim s = rev (dropWhile is_space (rev (dropWhile is_space s)))"

definition lower_char :: "char \<Rightarrow> char" where
  "lower_char c = (if 65 \<le> (of_char c :: nat) \<and> (of_char c :: nat) \<le> 90 then char_of ((of_char c :: nat) + 32) else c)"

definition lower :: "string \<Rightarrow> string" where
  "lower = map lower_char"

fun str_includes :: "string \<Rightarrow> string \<Rightarrow> bool" where
  "str_includes p [] = (p = [])"
| "str_includes p (c # cs) = (take (length p) (c # cs) = p \<or> str_includes p cs)"

subsection \<open>Admin requests\<close>

definition default_token :: string where
  "default_token = ''all-dogs-go-to-heaven''"

text \<open>\<open>process.env.LMX_ADMIN_TOKEN\<close>, when it is set to more than white space.\<close>

definition adminToken :: "string option \<Rightarrow> string" where
  "adminToken env = (if truthy_str env \<and> trim (the env) \<noteq> [] then trim (the env) else default_token)"

text \<open>\<open>/^Bearer\s+(.+)$/i\<close> on a trimmed header value, which has no line break; \<open>\s+\<close> takes all the
  white space there is, and what follows is not empty because the value does not end in white space.\<close>

definition bearer_token :: "string \<Rightarrow> string" where
  "bearer_token h =
     (if lower (take 6 h) = ''bearer'' \<and> 6 < length h \<and> is_space (h ! 6) then trim (drop 6 h) else [])"

fun coerceBool :: "json option \<Rightarrow> bool option" where
  "coerceBool (Some (JBool x)) = Some x"
| "coerceBool (Some (JStr s)) =
     (if lower (trim s) = ''true'' then Some True else if lower (trim s) = ''false'' then Some False else None)"
| "coerceBool _ = None"

lemma adminToken_nonempty: "adminToken env \<noteq> []"
  by (simp add: adminToken_def default_token_def)

subsection \<open>The log level\<close>

datatype LMXLogLevel = Silent | Error | WarnLevel | Info | Debug | Trace

fun level_name :: "LMXLogLevel \<Rightarrow> string" where
  "level_name Silent = ''silent''"
| "level_name Error = ''error''"
| "level_name WarnLevel = ''warn''"
| "level_name Info = ''info''"
| "level_name Debug = ''debug''"
| "level_name Trace = ''trace''"

definition LEVELS :: "LMXLogLevel list" where
  "LEVELS = [Silent, Error, WarnLevel, Info, Debug, Trace]"

fun LEVEL_RANK :: "LMXLogLevel \<Rightarrow> nat" where
  "LEVEL_RANK Silent = 0"
| "LEVEL_RANK Error = 1"
| "LEVEL_RANK WarnLevel = 2"
| "LEVEL_RANK Info = 3"
| "LEVEL_RANK Debug = 4"
| "LEVEL_RANK Trace = 5"

definition parseLevel :: "string option \<Rightarrow> LMXLogLevel option" where
  "parseLevel raw =
     (if \<not> truthy_str raw then None else find (\<lambda>l. level_name l = lower (trim (the raw))) LEVELS)"

definition initial_level :: "string option \<Rightarrow> LMXLogLevel" where
  "initial_level env = (case parseLevel env of Some l \<Rightarrow> l | None \<Rightarrow> Info)"

text \<open>\<open>setLogLevel\<close>: the error of an invalid level, or the previous level and the new one.\<close>

definition setLogLevel :: "string \<Rightarrow> LMXLogLevel \<Rightarrow> string + LMXLogLevel \<times> LMXLogLevel" where
  "setLogLevel level cur =
     (case parseLevel (Some level) of
        None \<Rightarrow> Inl (''invalid log level \"'' @ level @ ''\"; expected one of: ''
                  @ concat (map (\<lambda>l. level_name l @ '', '') (butlast LEVELS)) @ level_name (last LEVELS) @ ''.'')
      | Some l \<Rightarrow> Inr (cur, l))"

definition isLogLevelEnabled :: "LMXLogLevel \<Rightarrow> LMXLogLevel \<Rightarrow> bool" where
  "isLogLevelEnabled cur m = (m \<noteq> Silent \<and> LEVEL_RANK m \<le> LEVEL_RANK cur)"

text \<open>Printing a level and reading it back; the levels are ordered by what they show.\<close>

lemma parse_level_name: "parseLevel (Some (level_name l)) = Some l"
  by (cases l) (simp_all add: parseLevel_def LEVELS_def trim_def is_space_def lower_def lower_char_def)

lemma enabled_chain:
  "isLogLevelEnabled a m \<Longrightarrow> LEVEL_RANK a \<le> LEVEL_RANK b \<Longrightarrow> isLogLevelEnabled b m"
  by (simp add: isLogLevelEnabled_def)

end
