(* ===== verification/HttpServer.thy ===== *)
theory HttpServer
  imports Bridge HttpText
begin

text \<open>
  The HTTP front end (\<open>LMXHttpServer\<close> of \<open>src/src/http-server.ts\<close>) over the in-process bridge.

  The state has the broker inside its bridge, the settings the admin routes change, and one exchange per
  request: what its handler waits for, and the response once it is sent. A handler is an \<open>async\<close>
  function; it runs without a break up to its next \<open>await\<close>, which is the body of the request or a
  promise of the bridge, and goes on when that is there. Node parses the request line and the headers;
  \<open>JSON.parse\<close>, \<open>URLSearchParams\<close>, the text of the broker's errors and of exceptions, and the HTML of the
  status page around its table, the process's uptime, are the parameters \<open>H\<close>.
\<close>

subsection \<open>Options\<close>

record http_opts =
  ho_port :: int
  ho_host :: string
  ho_maxBodyBytes :: nat
  ho_requestTimeoutMs :: int
  ho_enableHtmlStatus :: bool

text \<open>The constructor; \<open>envPort\<close> is \<open>Number.parseInt(LMX_HTTP_PORT, 10)\<close>, \<open>None\<close> for \<open>NaN\<close>.\<close>

definition http_options ::
  "int option \<Rightarrow> string option \<Rightarrow> nat option \<Rightarrow> int option \<Rightarrow> bool option \<Rightarrow> int option \<Rightarrow> http_opts" where
  "http_options port host maxBody timeout html envPort =
     \<lparr>ho_port = (case port of Some p \<Rightarrow> p
                 | None \<Rightarrow> (case envPort of Some p \<Rightarrow> if p = 0 then 6971 else p | None \<Rightarrow> 6971)),
      ho_host = (case host of Some h \<Rightarrow> h | None \<Rightarrow> ''0.0.0.0''),
      ho_maxBodyBytes = (case maxBody of Some n \<Rightarrow> n | None \<Rightarrow> 64 * 1024),
      ho_requestTimeoutMs = (case timeout of Some t \<Rightarrow> t | None \<Rightarrow> 30000),
      ho_enableHtmlStatus = (case html of Some x \<Rightarrow> x | None \<Rightarrow> True)\<rparr>"

subsection \<open>Requests and responses\<close>

record http_request =
  q_method :: string
  q_path :: "string option"       \<comment> \<open>\<open>None\<close>: the \<open>URL\<close> constructor throws\<close>
  q_headers :: "(string \<times> string) list"

datatype http_body =
    Json json
  | StatsBody stats               \<comment> \<open>the snapshot of the broker as JSON\<close>
  | MetricsText string
  | Html string
  | StatusPage string             \<comment> \<open>the rows of its table\<close>
  | PlainText string

datatype admin_target = Otel | LogLevel | Tcp

text \<open>The body a handler waits for, and the promise it waits for.\<close>

datatype purpose = ForLock | ForUnlock | ForAcquireMany | ForReleaseMany | ForAdmin admin_target

datatype waiting = WaitLock string | WaitUnlock string | WaitAcquireMany "json list" | WaitReleaseMany

datatype phase =
    Reading purpose string        \<comment> \<open>the chunks so far\<close>
  | Awaiting waiting nat          \<comment> \<open>the number of the bridge's call\<close>
  | Ended
  | NoBody json                   \<comment> \<open>\<open>if (!body) return\<close> on a body that is a falsy value\<close>

record exchange =
  x_request :: http_request
  x_phase :: phase
  x_sent :: "(nat \<times> http_body) list"
  x_destroyed :: bool

record 'q http =
  ht_listening :: bool
  ht_bridge :: "'q bridge"
  ht_otel :: bool
  ht_level :: LMXLogLevel
  ht_noDelay :: bool              \<comment> \<open>\<open>Broker1.noDelay\<close>\<close>
  ht_exchanges :: "exchange list"

record http_env =
  he_opts :: http_opts
  he_adminToken :: "string option"     \<comment> \<open>\<open>LMX_ADMIN_TOKEN\<close>\<close>
  he_uuid :: "nat \<Rightarrow> string"
  he_pid :: int
  he_text :: "response \<Rightarrow> string"
  he_frame :: "string \<Rightarrow> response option"
  he_json :: "string \<Rightarrow> json option"
  he_form :: "string \<Rightarrow> (string \<times> string) list"
  he_message :: "reply_error \<Rightarrow> string"
  he_exception :: "promise_result \<Rightarrow> string"
  he_uptime :: string

definition header :: "http_request \<Rightarrow> string \<Rightarrow> string" where
  "header q h = (case map_of (q_headers q) h of Some v \<Rightarrow> v | None \<Rightarrow> [])"

definition isHxRequest :: "http_request \<Rightarrow> bool" where
  "isHxRequest q = (lower (trim (header q ''hx-request'')) = ''true'')"

definition checkAdminAuth :: "http_env \<Rightarrow> http_request \<Rightarrow> bool" where
  "checkAdminAuth H q =
     (let expected = adminToken (he_adminToken H)
      in trim (header q ''x-admin-token'') = expected \<or>
         bearer_token (trim (header q ''authorization'')) = expected)"

subsection \<open>Responding\<close>

text \<open>\<open>writeHead\<close> and \<open>end\<close>, and the same behind the test of \<open>headersSent\<close>.\<close>

definition send_response :: "nat \<Rightarrow> http_body \<Rightarrow> exchange \<Rightarrow> exchange" where
  "send_response st b x = x\<lparr>x_sent := x_sent x @ [(st, b)]\<rparr>"

definition respond :: "nat \<Rightarrow> http_body \<Rightarrow> exchange \<Rightarrow> exchange" where
  "respond st b x = (if x_sent x = [] then send_response st b x else x)"

definition respondJson :: "nat \<Rightarrow> (string \<times> json option) list \<Rightarrow> exchange \<Rightarrow> exchange" where
  "respondJson st fs x = respond st (Json (js_object fs)) x"

definition error_body :: "string \<Rightarrow> (string \<times> json option) list" where
  "error_body msg = [(''error'', Some (JStr msg))]"

definition ended :: "exchange \<Rightarrow> exchange" where
  "ended x = x\<lparr>x_phase := Ended\<rparr>"

text \<open>The rejection of \<open>handle\<close>: 500 unless something was sent.\<close>

definition handle_rejected :: "string \<Rightarrow> exchange \<Rightarrow> exchange" where
  "handle_rejected msg x = ended (respondJson 500 (error_body msg) x)"

fun target_name :: "admin_target \<Rightarrow> string" where
  "target_name Otel = ''otel''"
| "target_name LogLevel = ''log-level''"
| "target_name Tcp = ''tcp''"

fun target_field :: "admin_target \<Rightarrow> string" where
  "target_field Otel = ''enabled''"
| "target_field LogLevel = ''level''"
| "target_field Tcp = ''nodelay''"

definition on_off :: "json option \<Rightarrow> string" where
  "on_off v = (if (case v of Some x \<Rightarrow> json_truthy x | None \<Rightarrow> False) then ''on'' else ''off'')"

definition js_string :: "json option \<Rightarrow> string" where
  "js_string v = (case v of Some (JStr s) \<Rightarrow> s | _ \<Rightarrow> ''undefined'')"

definition renderAdminHxSnippet :: "admin_target \<Rightarrow> (string \<times> json option) list \<Rightarrow> string" where
  "renderAdminHxSnippet t fs =
     (let body = js_object fs
      in case field body ''error'' of
           Some (JStr e) \<Rightarrow> ''<span style=\"color: var(--warn);\">error: '' @ esc e @ ''</span>''
         | _ \<Rightarrow>
             (case t of
                Otel \<Rightarrow> ''otel: <strong>'' @ on_off (field body ''enabled'') @ ''</strong>''
              | LogLevel \<Rightarrow> ''level: <strong>'' @ esc (js_string (field body ''level'')) @ ''</strong>''
              | Tcp \<Rightarrow> ''nodelay: <strong>'' @ on_off (field body ''nodelay'') @ ''</strong>''))"

definition respondAdmin :: "nat \<Rightarrow> admin_target \<Rightarrow> (string \<times> json option) list \<Rightarrow> exchange \<Rightarrow> exchange" where
  "respondAdmin st t fs x =
     (if isHxRequest (x_request x) then respond st (Html (renderAdminHxSnippet t fs)) x
      else respondJson st fs x)"

subsection \<open>The status page and the metrics\<close>

text \<open>The rows of the status page's table, without the white space between the tags.\<close>

definition show_int :: "int \<Rightarrow> string" where
  "show_int n = (if n < 0 then CHR ''-'' # decimal_digits (nat (- n)) else decimal_digits (nat n))"

definition key_row :: "top_key \<Rightarrow> string" where
  "key_row t = ''<tr><td><code>'' @ esc (t_key t) @ ''</code></td><td>'' @ decimal_digits (t_holders t)
     @ ''</td><td>'' @ decimal_digits (t_waiters t) @ ''</td><td>'' @ decimal_digits (t_max t) @ ''</td><td>''
     @ show_int (t_fencingToken t) @ ''</td></tr>''"

definition topKeysRows :: "stats \<Rightarrow> string" where
  "topKeysRows s =
     (if st_topKeys s = [] then ''<tr><td colspan=\"5\" class=\"empty\">No active keys.</td></tr>''
      else concat (map key_row (st_topKeys s)))"

definition metric :: "string \<Rightarrow> string \<Rightarrow> string \<Rightarrow> string \<Rightarrow> string" where
  "metric name help type v =
     ''# HELP lmx_'' @ name @ '' '' @ help @ [CHR 0x0A] @ ''# TYPE lmx_'' @ name @ '' '' @ type @ [CHR 0x0A]
     @ ''lmx_'' @ name @ '' '' @ v @ [CHR 0x0A]"

definition renderPrometheus :: "string \<Rightarrow> stats \<Rightarrow> string" where
  "renderPrometheus uptime s = concat
     [metric ''keys'' ''Total number of distinct keys with live state.'' ''gauge'' (decimal_digits (st_totalLocks s)),
      metric ''holders'' ''Number of currently-held locks across all keys.'' ''gauge'' (decimal_digits (st_totalHolders s)),
      metric ''readers'' ''Number of currently-held RW read holds across all keys.'' ''gauge'' (decimal_digits (st_totalReaders s)),
      metric ''waiters'' ''Number of pending lock requests waiting in queues.'' ''gauge'' (decimal_digits (st_pendingRequests s)),
      metric ''clients'' ''Number of currently-connected TCP/UDS clients.'' ''gauge'' (decimal_digits (st_connectedClients s)),
      metric ''pending_deadlines'' ''Number of holders currently registered in the TTL sweeper deadline index.'' ''gauge''
        (decimal_digits (st_pendingDeadlines s)),
      metric ''ttl_evictions_total'' ''Cumulative TTL-driven evictions since broker start.'' ''counter''
        (decimal_digits (st_ttlEvictionsTotal s)),
      metric ''max_concurrency_cap'' ''Effective per-key concurrency ceiling enforced by the broker.'' ''gauge''
        (show_int (st_maxConcurrencyCap s)),
      metric ''concurrency_cap_clamps_total'' ''Cumulative `lock` requests whose `max` was clamped to the cap.'' ''counter''
        (decimal_digits (st_concurrencyCapClampsTotal s)),
      metric ''composite_locks_held'' ''Number of currently-held `acquire-many` composite holds.'' ''gauge''
        (decimal_digits (st_compositeLocksHeld s)),
      metric ''uptime_seconds'' ''Process uptime in seconds.'' ''gauge'' uptime]"

subsection \<open>Routing\<close>

datatype route =
    Health | Metrics | Status | Stats
  | BodyRoute purpose
  | AdminRoute admin_target
  | NoRoute

definition route_of :: "string \<Rightarrow> string \<Rightarrow> route" where
  "route_of method path =
     (if method = ''GET'' \<and> path \<in> {''/healthz'', ''/health''} then Health
      else if method = ''GET'' \<and> path = ''/metrics'' then Metrics
      else if method = ''GET'' \<and> path \<in> {''/'', ''/status''} then Status
      else if method = ''GET'' \<and> path = ''/v1/stats'' then Stats
      else if method = ''POST'' \<and> path = ''/v1/lock'' then BodyRoute ForLock
      else if method = ''POST'' \<and> path = ''/v1/unlock'' then BodyRoute ForUnlock
      else if method = ''POST'' \<and> path = ''/v1/acquire-many'' then BodyRoute ForAcquireMany
      else if method = ''POST'' \<and> path = ''/v1/release-many'' then BodyRoute ForReleaseMany
      else if path = ''/admin/otel'' then AdminRoute Otel
      else if path = ''/admin/log-level'' then AdminRoute LogLevel
      else if path = ''/admin/tcp'' then AdminRoute Tcp
      else NoRoute)"

text \<open>The current value an admin route shows.\<close>

definition setting :: "admin_target \<Rightarrow> 'q http \<Rightarrow> json" where
  "setting t s =
     (case t of Otel \<Rightarrow> JBool (ht_otel s) | LogLevel \<Rightarrow> JStr (level_name (ht_level s)) | Tcp \<Rightarrow> JBool (ht_noDelay s))"

definition not_allowed :: "string \<Rightarrow> admin_target \<Rightarrow> string" where
  "not_allowed method t = method @ '' not allowed on /admin/'' @ target_name t @ ''; use GET or POST.''"

definition unauthorized :: string where
  "unauthorized = ''admin endpoint requires `x-admin-token` (or `Authorization: Bearer ...`).''"

definition new_exchange :: "http_request \<Rightarrow> exchange" where
  "new_exchange q = \<lparr>x_request = q, x_phase = Ended, x_sent = [], x_destroyed = False\<rparr>"

text \<open>\<open>handle\<close> up to its first \<open>await\<close>: the response, or the body it reads.\<close>

definition handle_admin :: "http_env \<Rightarrow> 'q http \<Rightarrow> admin_target \<Rightarrow> http_request \<Rightarrow> exchange \<Rightarrow> exchange" where
  "handle_admin H s t q x =
     (if \<not> checkAdminAuth H q then respondJson 401 (error_body unauthorized) x
      else if q_method q = ''GET'' then respondJson 200 [(target_field t, Some (setting t s))] x
      else if q_method q = ''POST'' then x\<lparr>x_phase := Reading (ForAdmin t) []\<rparr>
      else respondJson 405 (error_body (not_allowed (q_method q) t)) x)"

definition handle_request :: "'q ext \<Rightarrow> http_env \<Rightarrow> bool \<Rightarrow> 'q http \<Rightarrow> http_request \<Rightarrow> exchange" where
  "handle_request E H isOpen s q =
     (let x = new_exchange q; b = br_broker (ht_bridge s)
      in case q_path q of
           None \<Rightarrow> handle_rejected ''Invalid URL'' x
         | Some path \<Rightarrow>
             (case route_of (q_method q) path of
                Health \<Rightarrow> respondJson 200 [(''ok'', Some (JBool True)), (''isOpen'', Some (JBool isOpen))] x
              | Metrics \<Rightarrow> send_response 200 (MetricsText (renderPrometheus (he_uptime H) (buildStatsSnapshot E b))) x
              | Status \<Rightarrow>
                  (if ho_enableHtmlStatus (he_opts H)
                   then send_response 200 (StatusPage (topKeysRows (buildStatsSnapshot E b))) x
                   else respond 200 (StatsBody (buildStatsSnapshot E b)) x)
              | Stats \<Rightarrow> respond 200 (StatsBody (buildStatsSnapshot E b)) x
              | BodyRoute p \<Rightarrow> x\<lparr>x_phase := Reading p []\<rparr>
              | AdminRoute t \<Rightarrow> handle_admin H s t q x
              | NoRoute \<Rightarrow> respondJson 404 (error_body (''No route for '' @ q_method q @ '' '' @ path @ ''.'')) x))"

subsection \<open>Reading the body\<close>

definition too_large :: "http_env \<Rightarrow> string" where
  "too_large H = ''Body exceeds '' @ decimal_digits (ho_maxBodyBytes (he_opts H)) @ '' bytes.''"

text \<open>One turn of the loop over the chunks.\<close>

definition body_chunk :: "http_env \<Rightarrow> string \<Rightarrow> exchange \<Rightarrow> exchange" where
  "body_chunk H bytes x =
     (case x_phase x of
        Reading p sofar \<Rightarrow>
          (if ho_maxBodyBytes (he_opts H) < length sofar + length bytes
           then ended (respondJson 413 (error_body (too_large H)) x)
           else x\<lparr>x_phase := Reading p (sofar @ bytes)\<rparr>)
      | _ \<Rightarrow> x)"

text \<open>\<open>readJsonBody\<close> after the loop: the body, or the text of the 400.\<close>

definition json_body :: "http_env \<Rightarrow> string \<Rightarrow> string + json" where
  "json_body H txt =
     (if txt = [] then Inr (JObj [])
      else case he_json H txt of Some v \<Rightarrow> Inr v | None \<Rightarrow> Inl ''Body must be valid JSON.'')"

text \<open>\<open>readPostBody\<close> after the loop: the fields of a form, a later one with the same name last.\<close>

definition post_body :: "http_env \<Rightarrow> http_request \<Rightarrow> string \<Rightarrow> string + json" where
  "post_body H q txt =
     (if txt = [] then Inr (JObj [])
      else if str_includes ''application/x-www-form-urlencoded'' (lower (header q ''content-type''))
      then Inr (JObj (map (\<lambda>(k, v). (k, JStr v)) (fold (\<lambda>(k, v) m. AList.update k v m) (he_form H txt) [])))
      else case he_json H txt of Some v \<Rightarrow> Inr v
           | None \<Rightarrow> Inl ''Body must be valid JSON or application/x-www-form-urlencoded.'')"

definition read_body :: "http_env \<Rightarrow> purpose \<Rightarrow> http_request \<Rightarrow> string \<Rightarrow> string + json" where
  "read_body H p q txt = (case p of ForAdmin _ \<Rightarrow> post_body H q txt | _ \<Rightarrow> json_body H txt)"

subsection \<open>The lock routes\<close>

definition key_required :: string where "key_required = ''`key` is required and must be a string.''"
definition keys_required :: string where "keys_required = ''`keys` must be a non-empty array of strings.''"
definition lockUuid_required :: string where "lockUuid_required = ''`lockUuid` is required.''"

definition ttl_field_of :: "json \<Rightarrow> ttl_field" where
  "ttl_field_of body = (case integer_field body ''ttl'' of Some n \<Rightarrow> TtlInt n | None \<Rightarrow> TtlNull)"

text \<open>The part of each lock handler before its \<open>await\<close>: the text of a 400, or the bridge's call.\<close>

definition plan_call :: "purpose \<Rightarrow> json \<Rightarrow> string + bridge_call \<times> waiting" where
  "plan_call p body =
     (case p of
        ForLock \<Rightarrow>
          (case string_field body ''key'' of
             Some (c # cs) \<Rightarrow>
               Inr (CallLock (c # cs) (ttl_field_of body)
                      (case integer_field body ''max'' of Some n \<Rightarrow> Integer n | None \<Rightarrow> Undefined) False False,
                    WaitLock (c # cs))
           | _ \<Rightarrow> Inl key_required)
      | ForUnlock \<Rightarrow>
          (case string_field body ''key'' of
             Some (c # cs) \<Rightarrow>
               Inr (CallUnlock (c # cs) (string_field body ''lockUuid'') (field body ''force'' = Some (JBool True)),
                    WaitUnlock (c # cs))
           | _ \<Rightarrow> Inl key_required)
      | ForAcquireMany \<Rightarrow>
          (case field body ''keys'' of
             Some (JArr (v # vs)) \<Rightarrow>
               Inr (CallAcquireMany (Some (map to_jsval (v # vs))) (ttl_field_of body), WaitAcquireMany (v # vs))
           | _ \<Rightarrow> Inl keys_required)
      | ForReleaseMany \<Rightarrow>
          (case string_field body ''lockUuid'' of
             Some (c # cs) \<Rightarrow> Inr (CallReleaseMany (c # cs), WaitReleaseMany)
           | _ \<Rightarrow> Inl lockUuid_required)
      | ForAdmin t \<Rightarrow> Inl [])"

text \<open>The fields of a reply of the broker; a rejected acquire-many echoes the array it was given, \<open>echo\<close>.\<close>

fun reply_fields :: "(reply_error \<Rightarrow> string) \<Rightarrow> json list \<Rightarrow> response \<Rightarrow> (string \<times> json) list" where
  "reply_fields msg echo (LockReply u k acq n rd tok err) =
     [(''type'', JStr ''lock''), (''uuid'', JStr u), (''key'', JStr k), (''acquired'', JBool acq),
      (''lockRequestCount'', JInt (int n)), (''readersCount'', JInt (int rd))]
     @ (case tok of Some t \<Rightarrow> [(''fencingToken'', JInt t)] | None \<Rightarrow> [])
     @ (case err of Some e \<Rightarrow> [(''error'', JStr (msg e))] | None \<Rightarrow> [])"
| "reply_fields msg echo (ReelectionNotice u k n) =
     [(''type'', JStr ''lock''), (''uuid'', JStr u), (''key'', JStr k), (''lockRequestCount'', JInt (int n)),
      (''reelection'', JBool True)]"
| "reply_fields msg echo (UnlockReply u k n ok err) =
     [(''type'', JStr ''unlock''), (''uuid'', JStr u), (''key'', JStr k), (''lockRequestCount'', JInt (int n)),
      (''unlocked'', JBool ok)]
     @ (case err of Some e \<Rightarrow> [(''error'', JStr (msg e))] | None \<Rightarrow> [])"
| "reply_fields msg echo (UnlockNoLock u k) =
     [(''type'', JStr ''unlock''), (''uuid'', JStr u), (''key'', JStr k), (''lockRequestCount'', JInt 0),
      (''unlocked'', JBool True), (''warning'', JStr (''no lock with key => \"'' @ k @ ''\".''))]"
| "reply_fields msg echo (AcquireManyRejected u ks err) =
     [(''type'', JStr ''acquire-many''), (''uuid'', JStr u), (''keys'', JArr echo), (''acquired'', JBool False),
      (''error'', JStr (msg err))]"
| "reply_fields msg echo (AcquireManyContended u ks k n) =
     [(''type'', JStr ''acquire-many''), (''uuid'', JStr u), (''keys'', JArr (map JStr ks)),
      (''acquired'', JBool False), (''contendedKey'', JStr k), (''lockRequestCount'', JInt (int n))]"
| "reply_fields msg echo (AcquireManyGranted u ks cid ts) =
     [(''type'', JStr ''acquire-many''), (''uuid'', JStr u), (''keys'', JArr (map JStr ks)),
      (''acquired'', JBool True), (''lockUuid'', JStr cid),
      (''fencingTokens'', JObj (map (\<lambda>(k, t). (k, JInt t)) ts))]"
| "reply_fields msg echo (ReleaseManyFailed u err) =
     [(''type'', JStr ''release-many''), (''uuid'', JStr u), (''released'', JBool False), (''error'', JStr (msg err))]"
| "reply_fields msg echo (ReleaseManyDone u lu ks) =
     [(''type'', JStr ''release-many''), (''uuid'', JStr u), (''lockUuid'', JStr lu), (''keys'', JArr (map JStr ks)),
      (''released'', JBool True)]"
| "reply_fields msg echo (LockAuthorityFailure u k err) =
     [(''type'', JStr ''lock''), (''uuid'', JStr u), (''key'', JStr k), (''acquired'', JBool False),
      (''error'', JStr (msg err))]"
| "reply_fields msg echo (AcquireManyAuthorityFailure u ks err) =
     [(''type'', JStr ''acquire-many''), (''uuid'', JStr u), (''keys'', JArr echo), (''acquired'', JBool False),
      (''error'', JStr (msg err))]"
| "reply_fields msg echo _ = []"

text \<open>The part of each lock handler after its \<open>await\<close>: the status and the fields of the response.\<close>

definition is_true :: "json option \<Rightarrow> bool" where
  "is_true v = (case v of Some x \<Rightarrow> json_truthy x | None \<Rightarrow> False)"

fun http_answer :: "waiting \<Rightarrow> (string \<times> json) list \<Rightarrow> string option \<Rightarrow> nat \<times> (string \<times> json option) list" where
  "http_answer (WaitLock key) r tag =
     (let get = map_of r; acq = is_true (get ''acquired'')
      in if get ''acquired'' = Some (JBool False) \<and> string_field (JObj r) ''error'' \<noteq> None
         then (400, [(''acquired'', Some (JBool False)), (''key'', Some (JStr key)), (''error'', get ''error'')])
         else (200, [(''acquired'', Some (JBool acq)), (''key'', Some (JStr key)),
                     (''lockUuid'', if acq then map_option JStr tag else None),
                     (''fencingToken'', get ''fencingToken''), (''lockRequestCount'', get ''lockRequestCount'')]))"
| "http_answer (WaitUnlock key) r tag =
     (let get = map_of r; ok = (get ''unlocked'' = Some (JBool True))
      in if \<not> ok \<and> string_field (JObj r) ''error'' \<noteq> None
         then (400, [(''released'', Some (JBool False)), (''key'', Some (JStr key)), (''error'', get ''error'')])
         else (200, [(''released'', Some (JBool ok)), (''key'', Some (JStr key)),
                     (''lockRequestCount'', get ''lockRequestCount'')]))"
| "http_answer (WaitAcquireMany _) r tag =
     (let get = map_of r; acq = is_true (get ''acquired'')
      in (if acq then 200 else 409,
          [(''acquired'', Some (JBool acq)), (''keys'', get ''keys''), (''lockUuid'', get ''lockUuid''),
           (''fencingTokens'', get ''fencingTokens''), (''contendedKey'', get ''contendedKey''),
           (''error'', get ''error'')]))"
| "http_answer WaitReleaseMany r tag =
     (let get = map_of r; ok = is_true (get ''released'')
      in (if ok then 200 else 404,
          [(''released'', Some (JBool ok)), (''lockUuid'', get ''lockUuid''), (''keys'', get ''keys''),
           (''error'', get ''error'')]))"

definition echo_of :: "waiting \<Rightarrow> json list" where
  "echo_of w = (case w of WaitAcquireMany vs \<Rightarrow> vs | _ \<Rightarrow> [])"

definition answered :: "http_env \<Rightarrow> waiting \<Rightarrow> promise_result \<Rightarrow> exchange \<Rightarrow> exchange" where
  "answered H w res x =
     (case res of
        Resolved r tag \<Rightarrow>
          (let (st, fs) = http_answer w (reply_fields (he_message H) (echo_of w) r) tag
           in ended (respondJson st fs x))
      | _ \<Rightarrow> handle_rejected (he_exception H res) x)"

text \<open>The handlers that wait for promises settled by the last event go on.\<close>

definition resume_one :: "http_env \<Rightarrow> nat \<times> promise_result \<Rightarrow> exchange \<Rightarrow> exchange" where
  "resume_one H e x =
     (case x_phase x of Awaiting w n \<Rightarrow> if n = fst e then answered H w (snd e) x else x | _ \<Rightarrow> x)"

definition resume :: "http_env \<Rightarrow> (nat \<times> promise_result) list \<Rightarrow> exchange list \<Rightarrow> exchange list" where
  "resume H es xs = fold (\<lambda>e. map (resume_one H e)) es xs"

definition on_bridge :: "'q ext \<Rightarrow> http_env \<Rightarrow> bridge_event \<Rightarrow> 'q http \<Rightarrow> 'q http option" where
  "on_bridge E H ev s =
     (let d = ht_bridge s
      in map_option (\<lambda>d'. s\<lparr>ht_bridge := d',
             ht_exchanges := resume H (drop (length (br_settled d)) (br_settled d')) (ht_exchanges s)\<rparr>)
           (bridge_step E (he_uuid H) (he_pid H) (he_text H) (he_frame H) ev d))"

subsection \<open>The admin routes\<close>

definition bool_required :: "string \<Rightarrow> string" where
  "bool_required f = ''`'' @ f @ ''` is required and must be a boolean.''"

definition set_exchange :: "nat \<Rightarrow> (exchange \<Rightarrow> exchange) \<Rightarrow> 'q http \<Rightarrow> 'q http" where
  "set_exchange n f s = s\<lparr>ht_exchanges := (ht_exchanges s)[n := f (ht_exchanges s ! n)]\<rparr>"

definition changed :: "nat \<Rightarrow> admin_target \<Rightarrow> json \<Rightarrow> 'q http \<Rightarrow> 'q http" where
  "changed n t previous s =
     set_exchange n (\<lambda>x. ended (respondAdmin 200 t
       [(''previous'', Some previous), (target_field t, Some (setting t s))] x)) s"

definition admin_post :: "nat \<Rightarrow> admin_target \<Rightarrow> json \<Rightarrow> 'q http \<Rightarrow> 'q http" where
  "admin_post n t body s =
     (let refuse = (\<lambda>msg. set_exchange n (\<lambda>x. ended (respondAdmin 400 t (error_body msg) x)) s);
          previous = setting t s
      in case t of
           Otel \<Rightarrow>
             (case coerceBool (field body ''enabled'') of
                None \<Rightarrow> refuse (bool_required ''enabled'')
              | Some v \<Rightarrow> changed n t previous (s\<lparr>ht_otel := v\<rparr>))
         | LogLevel \<Rightarrow>
             (case string_field body ''level'' of
                None \<Rightarrow> refuse ''`level` is required and must be a string.''
              | Some raw \<Rightarrow>
                  (case setLogLevel raw (ht_level s) of
                     Inl e \<Rightarrow> refuse e
                   | Inr (old, new) \<Rightarrow> changed n t previous (s\<lparr>ht_level := new\<rparr>)))
         | Tcp \<Rightarrow>
             (case coerceBool (field body ''nodelay'') of
                None \<Rightarrow> refuse (bool_required ''nodelay'')
              | Some v \<Rightarrow> changed n t previous (s\<lparr>ht_noDelay := v\<rparr>)))"

subsection \<open>The end of a body\<close>

definition body_end :: "'q ext \<Rightarrow> http_env \<Rightarrow> nat \<Rightarrow> 'q http \<Rightarrow> 'q http option" where
  "body_end E H n s =
     (case x_phase (ht_exchanges s ! n) of
        Reading p txt \<Rightarrow>
          (case read_body H p (x_request (ht_exchanges s ! n)) txt of
             Inl msg \<Rightarrow> Some (set_exchange n (\<lambda>x. ended (respondJson 400 (error_body msg) x)) s)
           | Inr body \<Rightarrow>
               (if \<not> json_truthy body then Some (set_exchange n (\<lambda>x. x\<lparr>x_phase := NoBody body\<rparr>) s)
                else case p of
                  ForAdmin t \<Rightarrow> Some (admin_post n t body s)
                | _ \<Rightarrow>
                    (case plan_call p body of
                       Inl msg \<Rightarrow> Some (set_exchange n (\<lambda>x. ended (respondJson 400 (error_body msg) x)) s)
                     | Inr (c, w) \<Rightarrow>
                         on_bridge E H (BridgeCall c)
                           (set_exchange n (\<lambda>x. x\<lparr>x_phase := Awaiting w (br_calls (ht_bridge s))\<rparr>) s))))
      | _ \<Rightarrow> Some s)"

subsection \<open>Steps\<close>

text \<open>The timer of a request: 408 unless something was sent; the request is destroyed, so that a loop
  over its body throws.\<close>

definition request_timeout :: "exchange \<Rightarrow> exchange" where
  "request_timeout x =
     (let y = (respond 408 (PlainText (''Request timed out.'' @ [CHR 0x0A])) x)\<lparr>x_destroyed := True\<rparr>
      in case x_phase y of Reading _ _ \<Rightarrow> ended y | _ \<Rightarrow> y)"

definition http_start :: "sock \<Rightarrow> bool \<Rightarrow> bool \<Rightarrow> LMXLogLevel \<Rightarrow> bool \<Rightarrow> 'q broker \<Rightarrow> 'q http" where
  "http_start ws listens otel level noDelay b =
     \<lparr>ht_listening = listens, ht_bridge = new_bridge ws b, ht_otel = otel, ht_level = level,
      ht_noDelay = noDelay, ht_exchanges = []\<rparr>"

definition open_exchange :: "exchange \<Rightarrow> bool" where
  "open_exchange x = (x_sent x = [] \<and> \<not> x_destroyed x)"

datatype http_event =
    HttpRequest http_request bool      \<comment> \<open>with the broker's \<open>isOpen\<close>\<close>
  | BodyChunk nat string
  | BodyEnd nat
  | BodyError nat                      \<comment> \<open>the connection breaks while the body is read\<close>
  | RequestTimeout nat
  | OnBridge bridge_event              \<comment> \<open>a turn of the socket, a timer, an event of the broker\<close>
  | StopListening
  | ServerClosed                       \<comment> \<open>the callback of \<open>server.close\<close>\<close>

text \<open>\<open>stop\<close> waits for the server to close, which it does when no request is open.\<close>

fun http_step :: "'q ext \<Rightarrow> http_env \<Rightarrow> http_event \<Rightarrow> 'q http \<Rightarrow> 'q http option" where
  "http_step E H (HttpRequest q isOpen) s =
     Some (if ht_listening s then s\<lparr>ht_exchanges := ht_exchanges s @ [handle_request E H isOpen s q]\<rparr> else s)"
| "http_step E H (BodyChunk n bytes) s =
     Some (if n < length (ht_exchanges s) then set_exchange n (body_chunk H bytes) s else s)"
| "http_step E H (BodyEnd n) s = (if n < length (ht_exchanges s) then body_end E H n s else Some s)"
| "http_step E H (BodyError n) s =
     Some (if n < length (ht_exchanges s)
           then set_exchange n (\<lambda>x. case x_phase x of Reading _ _ \<Rightarrow> handle_rejected ''aborted'' x | _ \<Rightarrow> x) s else s)"
| "http_step E H (RequestTimeout n) s =
     Some (if n < length (ht_exchanges s) then set_exchange n request_timeout s else s)"
| "http_step E H (OnBridge ev) s =
     (case ev of BridgeCall _ \<Rightarrow> Some s | BridgeShutdown \<Rightarrow> Some s | _ \<Rightarrow> on_bridge E H ev s)"
| "http_step E H StopListening s = Some (s\<lparr>ht_listening := False\<rparr>)"
| "http_step E H ServerClosed s =
     (if ht_listening s \<or> list_ex open_exchange (ht_exchanges s) then Some s else on_bridge E H BridgeShutdown s)"

fun http_run :: "'q ext \<Rightarrow> http_env \<Rightarrow> http_event list \<Rightarrow> 'q http \<Rightarrow> 'q http option" where
  "http_run E H [] s = Some s"
| "http_run E H (ev # evs) s = Option.bind (http_step E H ev s) (http_run E H evs)"

end
