(* ===== verification/HttpExchanges.thy ===== *)
theory HttpExchanges
  imports HttpServer BridgePromises
begin

text \<open>
  What the requests of the HTTP server may rely on: at most one response each, and none forgotten but
  those whose body is a falsy value.
\<close>

subsection \<open>One exchange\<close>

fun phase_ok :: "'q bridge \<Rightarrow> (nat \<times> http_body) list \<Rightarrow> phase \<Rightarrow> bool" where
  "phase_ok d sent (Reading p txt) = True"
| "phase_ok d sent (Awaiting w n) = (n \<in> pending_calls d)"
| "phase_ok d sent Ended = (sent \<noteq> [])"
| "phase_ok d sent (NoBody v) = (\<not> json_truthy v)"

definition exchange_ok :: "'q bridge \<Rightarrow> exchange \<Rightarrow> bool" where
  "exchange_ok d x \<longleftrightarrow> length (x_sent x) \<le> Suc 0 \<and> phase_ok d (x_sent x) (x_phase x)"

lemma sent_respond [simp]:
  "x_sent (respond st b x) = (if x_sent x = [] then [(st, b)] else x_sent x)"
  "x_phase (respond st b x) = x_phase x"
  by (simp_all add: respond_def send_response_def)

lemma sent_respondJson [simp]:
  "x_sent (respondJson st fs x) = (if x_sent x = [] then [(st, Json (js_object fs))] else x_sent x)"
  "x_phase (respondJson st fs x) = x_phase x"
  by (simp_all add: respondJson_def)

lemma respondAdmin_phase [simp]: "x_phase (respondAdmin st t fs x) = x_phase x"
  by (simp add: respondAdmin_def)

lemma respondAdmin_sent:
  "x_sent (respondAdmin st t fs x) \<noteq> []" "x_sent x \<noteq> [] \<Longrightarrow> x_sent (respondAdmin st t fs x) = x_sent x"
  "length (x_sent x) \<le> Suc 0 \<Longrightarrow> length (x_sent (respondAdmin st t fs x)) \<le> Suc 0"
  by (simp_all add: respondAdmin_def)

lemma ended_simps [simp]: "x_phase (ended x) = Ended" "x_sent (ended x) = x_sent x"
  by (simp_all add: ended_def)

lemma ended_ok:
  "length (x_sent x) \<le> Suc 0 \<Longrightarrow> exchange_ok d (ended (respondJson st fs x))"
  "length (x_sent x) \<le> Suc 0 \<Longrightarrow> exchange_ok d (handle_rejected msg x)"
  "length (x_sent x) \<le> Suc 0 \<Longrightarrow> exchange_ok d (ended (respondAdmin st t fs x))"
  by (simp_all add: exchange_ok_def handle_rejected_def respondAdmin_sent)

lemma answered_simps [simp]: "x_phase (answered H w res x) = Ended" "x_sent (answered H w res x) \<noteq> []"
  by (simp_all add: answered_def handle_rejected_def split: promise_result.split prod.split)

lemma answered_length: "length (x_sent x) \<le> Suc 0 \<Longrightarrow> length (x_sent (answered H w res x)) \<le> Suc 0"
  by (simp add: answered_def handle_rejected_def split: promise_result.split prod.split)

lemma handle_request_ok: "exchange_ok d (handle_request E H isOpen s q)"
  by (simp add: handle_request_def Let_def exchange_ok_def new_exchange_def handle_rejected_def
      send_response_def handle_admin_def split: option.split route.split)

lemma body_chunk_ok: "exchange_ok d x \<Longrightarrow> exchange_ok d (body_chunk H bytes x)"
  by (auto simp: body_chunk_def exchange_ok_def split: phase.split)

lemma request_timeout_ok: "exchange_ok d x \<Longrightarrow> exchange_ok d (request_timeout x)"
  by (auto simp: request_timeout_def Let_def exchange_ok_def split: phase.split)

subsection \<open>Resuming\<close>

lemma resume_map: "resume H es xs = map (fold (resume_one H) es) xs"
  unfolding resume_def by (induction es arbitrary: xs) simp_all

lemma resume_length: "length (x_sent x) \<le> Suc 0 \<Longrightarrow> length (x_sent (fold (resume_one H) es x)) \<le> Suc 0"
  by (induction es arbitrary: x) (auto simp: resume_one_def answered_length split: phase.split)

lemma resume_other:
  "(\<And>w n. x_phase x = Awaiting w n \<Longrightarrow> n \<notin> fst ` set es) \<Longrightarrow> fold (resume_one H) es x = x"
proof (induction es)
  case (Cons e es)
  then have "resume_one H e x = x" by (auto simp: resume_one_def split: phase.split)
  with Cons show ?case by auto
qed simp

lemma resume_awaiting:
  "x_phase x = Awaiting w n \<Longrightarrow> n \<in> fst ` set es \<Longrightarrow>
    x_phase (fold (resume_one H) es x) = Ended \<and> x_sent (fold (resume_one H) es x) \<noteq> []"
proof (induction es arbitrary: x)
  case (Cons e es)
  show ?case
  proof (cases "n = fst e")
    case True
    then have "resume_one H e x = answered H w (snd e) x" using Cons.prems by (simp add: resume_one_def)
    then show ?thesis using resume_other [of "answered H w (snd e) x" es H] by simp
  next
    case False
    then have "resume_one H e x = x" using Cons.prems by (simp add: resume_one_def)
    then show ?thesis using Cons False by simp
  qed
qed simp

subsection \<open>The bridge's steps only add\<close>

definition settles :: "'q bridge \<Rightarrow> 'q bridge \<Rightarrow> bool" where
  "settles d d' \<longleftrightarrow> (\<exists>es. br_settled d' = br_settled d @ es)"

lemma settles_refl [simp]: "settles d d"
  by (simp add: settles_def)

lemma settles_trans: "settles d1 d2 \<Longrightarrow> settles d2 d3 \<Longrightarrow> settles d1 d3"
  by (auto simp: settles_def)

lemma settles_simps [simp]:
  "settles d (settle n r d') = settles d d'" if "br_settled d' = br_settled d"
  using that by (auto simp: settles_def settle_def)

lemma settled_frame [simp]:
  "br_settled (clear_promise_timer n d) = br_settled d" "br_settled (snd (take_pending u d)) = br_settled d"
  "br_settled (broker_done text parse b d) = br_settled d"
  "br_calls (clear_promise_timer n d) = br_calls d" "br_calls (snd (take_pending u d)) = br_calls d"
  "br_calls (broker_done text parse b d) = br_calls d" "br_calls (settle n r d) = br_calls d"
  by (simp_all add: clear_promise_timer_def take_pending_def broker_done_def Let_def settle_def)

lemma frame_settles: "settles d (onBrokerFrame r d)" "br_calls (onBrokerFrame r d) = br_calls d"
  by (auto simp: onBrokerFrame_def take_pending_def settles_def settle_def clear_promise_timer_def
      split: option.split)

lemma frames_settle: "settles d (fold onBrokerFrame rs d)" "br_calls (fold onBrokerFrame rs d) = br_calls d"
proof -
  show "settles d (fold onBrokerFrame rs d)"
    by (induction rs arbitrary: d) (auto intro: settles_trans frame_settles(1))
  show "br_calls (fold onBrokerFrame rs d) = br_calls d"
    by (induction rs arbitrary: d) (simp_all add: frame_settles(2))
qed

lemma bridge_step_settles:
  assumes "bridge_step E v4 pid text parse ev d = Some d'"
  shows "settles d d'" and "br_calls d' = br_calls d + (case ev of BridgeCall _ \<Rightarrow> 1 | _ \<Rightarrow> 0)"
proof -
  have "settles d d' \<and> br_calls d' = br_calls d + (case ev of BridgeCall _ \<Rightarrow> 1 | _ \<Rightarrow> 0)"
  proof (cases ev)
    case (BridgeCall c)
    then show ?thesis using assms
      by (auto simp: dispatch_def Let_def settles_def settle_def split: if_splits option.splits)
  next
    case SocketTurn
    then show ?thesis
      using assms frames_settle [where d = "d\<lparr>br_socket := vs_next (br_socket d)\<rparr>"]
      by (auto simp: socket_turn_def Let_def settles_def)
  next
    case BridgeShutdown
    then show ?thesis using assms
      by (auto simp: shutdown_def Let_def shutdown_settles settles_def split: if_splits)
  qed (use assms in \<open>auto simp: settles_def promise_timeout_def take_pending_def settle_def clear_promise_timer_def Let_def
      split: option.splits if_splits\<close>)
  then show "settles d d'" and "br_calls d' = br_calls d + (case ev of BridgeCall _ \<Rightarrow> 1 | _ \<Rightarrow> 0)" by simp_all
qed

subsection \<open>All exchanges\<close>

definition http_ok :: "http_env \<Rightarrow> 'q http \<Rightarrow> bool" where
  "http_ok H s \<longleftrightarrow>
     promises_ok (he_uuid H) (ht_bridge s) \<and> (\<forall>x \<in> set (ht_exchanges s). exchange_ok (ht_bridge s) x)"

text \<open>An exchange that may await the call about to be made.\<close>

definition nearly_ok :: "'q bridge \<Rightarrow> bridge_event \<Rightarrow> exchange \<Rightarrow> bool" where
  "nearly_ok d ev x \<longleftrightarrow> exchange_ok d x \<or>
     length (x_sent x) \<le> Suc 0 \<and> (\<exists>w c. x_phase x = Awaiting w (br_calls d) \<and> ev = BridgeCall c)"

lemma on_bridge_ok:
  assumes "inj (he_uuid H)" and ok: "promises_ok (he_uuid H) (ht_bridge s)"
    and x: "\<forall>x \<in> set (ht_exchanges s). nearly_ok (ht_bridge s) ev x"
    and step: "on_bridge E H ev s = Some s'"
  shows "http_ok H s'"
proof -
  let ?d = "ht_bridge s"
  obtain d' where d': "bridge_step E (he_uuid H) (he_pid H) (he_text H) (he_frame H) ev ?d = Some d'"
    "s' = s\<lparr>ht_bridge := d', ht_exchanges := resume H (drop (length (br_settled ?d)) (br_settled d')) (ht_exchanges s)\<rparr>"
    using step by (auto simp: on_bridge_def Let_def)
  have ok': "promises_ok (he_uuid H) d'"
    by (rule bridge_step_ok [OF d'(1) ok assms(1)])
  obtain es where es: "br_settled d' = br_settled ?d @ es"
    using bridge_step_settles(1) [OF d'(1)] by (auto simp: settles_def)
  have calls: "br_calls d' = br_calls ?d + (case ev of BridgeCall _ \<Rightarrow> 1 | _ \<Rightarrow> 0)"
    by (rule bridge_step_settles(2) [OF d'(1)])
  have all: "fst ` set (br_settled d') \<union> pending_calls d' = {..< br_calls d'}"
    "fst ` set (br_settled ?d) \<union> pending_calls ?d = {..< br_calls ?d}"
    "fst ` set (br_settled ?d) \<inter> pending_calls ?d = {}"
    using ok ok' by (simp_all add: promises_ok_def)
  have "exchange_ok d' (fold (resume_one H) es x)" if "x \<in> set (ht_exchanges s)" for x
  proof -
    have near: "nearly_ok ?d ev x" using x that by blast
    then have len: "length (x_sent (fold (resume_one H) es x)) \<le> Suc 0"
      by (intro resume_length) (auto simp: nearly_ok_def exchange_ok_def)
    show ?thesis
    proof (cases "\<exists>w n. x_phase x = Awaiting w n \<and> n \<in> fst ` set es")
      case True
      then obtain w n where "x_phase x = Awaiting w n" "n \<in> fst ` set es" by blast
      from resume_awaiting [OF this, of H] show ?thesis using len by (simp add: exchange_ok_def)
    next
      case False
      then have same: "fold (resume_one H) es x = x" by (intro resume_other) blast
      have "phase_ok d' (x_sent x) (x_phase x)"
      proof (cases "x_phase x")
        case (Awaiting w n)
        have below: "m < br_calls ?d" if "m \<in> fst ` set (br_settled ?d) \<or> m \<in> pending_calls ?d" for m
          using that all(2) by blast
        have "n \<in> pending_calls ?d \<or> n = br_calls ?d \<and> (\<exists>c. ev = BridgeCall c)"
          using near Awaiting by (auto simp: nearly_ok_def exchange_ok_def)
        then have "n \<notin> fst ` set (br_settled ?d)" "n < br_calls d'"
          using all(3) below calls by (fastforce split: bridge_event.split)+
        moreover have "n \<notin> fst ` set es" using False Awaiting by blast
        ultimately have "n \<in> pending_calls d'" using all(1) es by auto
        then show ?thesis using Awaiting by simp
      qed (use near in \<open>auto simp: nearly_ok_def exchange_ok_def\<close>)
      then show ?thesis using len by (simp add: exchange_ok_def same)
    qed
  qed
  then show ?thesis using ok' by (simp add: http_ok_def d'(2) es resume_map)
qed

lemma in_set_upd: "y \<in> set (xs[n := x]) \<Longrightarrow> y = x \<or> y \<in> set xs"
  using set_update_subset_insert [of xs n x] by auto

lemma set_exchange_ok:
  assumes "http_ok H s" and "n < length (ht_exchanges s)"
    and "exchange_ok (ht_bridge s) (ht_exchanges s ! n) \<Longrightarrow> exchange_ok (ht_bridge s) (f (ht_exchanges s ! n))"
  shows "http_ok H (set_exchange n f s)"
  using assms set_update_subset_insert [of "ht_exchanges s" n "f (ht_exchanges s ! n)"]
  by (auto simp: http_ok_def set_exchange_def)

lemma settings_ok [simp]:
  "http_ok H (s\<lparr>ht_otel := v\<rparr>) = http_ok H s" "http_ok H (s\<lparr>ht_level := l\<rparr>) = http_ok H s"
  "http_ok H (s\<lparr>ht_noDelay := v\<rparr>) = http_ok H s" "http_ok H (s\<lparr>ht_listening := v\<rparr>) = http_ok H s"
  by (simp_all add: http_ok_def)

lemma exchange_length: "exchange_ok d x \<Longrightarrow> length (x_sent x) \<le> Suc 0"
  by (simp add: exchange_ok_def)

lemma admin_post_ok:
  assumes "http_ok H s" and "n < length (ht_exchanges s)"
  shows "http_ok H (admin_post n t body s)"
  using assms
  by (auto simp: admin_post_def changed_def Let_def split: admin_target.split option.split sum.split
      intro!: set_exchange_ok ended_ok exchange_length)

text \<open>What the end of a body leads to.\<close>

lemma body_end_cases:
  assumes step: "body_end E H n s = Some s'"
  obtains (same) "s' = s"
  | (refused) msg where "s' = set_exchange n (\<lambda>x. ended (respondJson 400 (error_body msg) x)) s"
  | (falsy) v where "\<not> json_truthy v" "s' = set_exchange n (\<lambda>x. x\<lparr>x_phase := NoBody v\<rparr>) s"
      "\<exists>p bytes. x_phase (ht_exchanges s ! n) = Reading p bytes"
  | (admin) t body bytes where "x_phase (ht_exchanges s ! n) = Reading (ForAdmin t) bytes" "s' = admin_post n t body s"
  | (call) c w where "on_bridge E H (BridgeCall c)
      (set_exchange n (\<lambda>x. x\<lparr>x_phase := Awaiting w (br_calls (ht_bridge s))\<rparr>) s) = Some s'"
      "\<exists>p bytes. x_phase (ht_exchanges s ! n) = Reading p bytes"
proof (cases "x_phase (ht_exchanges s ! n)")
  case (Reading p bytes)
  note reading = Reading
  show thesis
  proof (cases "read_body H p (x_request (ht_exchanges s ! n)) bytes")
    case (Inl msg)
    then show thesis using step Reading refused [of msg] by (simp add: body_end_def)
  next
    case (Inr body)
    show thesis
    proof (cases "json_truthy body")
      case False
      then show thesis using step Reading Inr falsy [of body] by (simp add: body_end_def)
    next
      case True
      then have s': "(case p of ForAdmin t \<Rightarrow> Some (admin_post n t body s)
          | _ \<Rightarrow> (case plan_call p body of
               Inl msg \<Rightarrow> Some (set_exchange n (\<lambda>x. ended (respondJson 400 (error_body msg) x)) s)
             | Inr (c, w) \<Rightarrow> on_bridge E H (BridgeCall c)
                 (set_exchange n (\<lambda>x. x\<lparr>x_phase := Awaiting w (br_calls (ht_bridge s))\<rparr>) s))) = Some s'"
        using step Reading Inr by (simp add: body_end_def)
      show thesis
      proof (cases "\<exists>t. p = ForAdmin t")
        case True
        then show thesis using s' Reading admin by auto
      next
        case False
        then show thesis
          using s' refused call Reading
          by (cases p; cases "plan_call p body") (auto split: prod.splits)
      qed
    qed
  qed
qed (use step same in \<open>simp_all add: body_end_def\<close>)

lemma body_end_ok:
  assumes "inj (he_uuid H)" and ok: "http_ok H s" and n: "n < length (ht_exchanges s)"
    and step: "body_end E H n s = Some s'"
  shows "http_ok H s'"
proof -
  have len: "length (x_sent (ht_exchanges s ! n)) \<le> Suc 0" using ok n by (auto simp: http_ok_def exchange_ok_def)
  from step show ?thesis
  proof (cases rule: body_end_cases)
    case (call c w)
    then show ?thesis
      using ok len by (intro on_bridge_ok [OF assms(1) _ _ call(1)])
        (auto simp: set_exchange_def http_ok_def nearly_ok_def dest!: in_set_upd)
  next
    case (admin t body bytes)
    then show ?thesis using admin_post_ok [OF ok n] by simp
  qed (use ok n len in \<open>auto intro!: set_exchange_ok ended_ok simp: exchange_ok_def\<close>)
qed

lemma http_step_ok:
  assumes "inj (he_uuid H)" and ok: "http_ok H s" and step: "http_step E H ev s = Some s'"
  shows "http_ok H s'"
proof -
  have near: "\<forall>x \<in> set (ht_exchanges s). nearly_ok (ht_bridge s) e x" "promises_ok (he_uuid H) (ht_bridge s)" for e
    using ok by (auto simp: nearly_ok_def http_ok_def)
  note bridge = on_bridge_ok [OF assms(1) near(2,1)]
  show ?thesis
  proof (cases ev)
    case (HttpRequest q isOpen)
    then show ?thesis using step ok handle_request_ok by (auto simp: http_ok_def split: if_splits)
  next
    case (BodyEnd n)
    then show ?thesis using step ok body_end_ok [OF assms(1) ok] by (auto split: if_splits)
  next
    case (OnBridge e)
    then show ?thesis using step ok bridge by (auto split: bridge_event.splits)
  next
    case ServerClosed
    then show ?thesis using step ok bridge by (auto split: if_splits)
  qed (use step ok in \<open>auto split: if_splits phase.split intro!: set_exchange_ok body_chunk_ok request_timeout_ok
        ended_ok exchange_length\<close>)
qed

lemma http_run_ok: "http_run E H evs s = Some s' \<Longrightarrow> inj (he_uuid H) \<Longrightarrow> http_ok H s \<Longrightarrow> http_ok H s'"
  by (induction evs arbitrary: s) (auto simp: bind_eq_Some_conv dest: http_step_ok)

lemma http_start_ok: "http_ok H (http_start ws listens otel level nd b)"
  by (simp add: http_ok_def http_start_def new_bridge_ok)

end
