(* ===== verification/HttpRuns.thy ===== *)
theory HttpRuns
  imports HttpExchanges BridgeCalls
begin

text \<open>
  Requests to the HTTP server from the request line to the response, and what they do to the broker.
\<close>

subsection \<open>A request that makes a call\<close>

definition request_events :: "nat \<Rightarrow> http_request \<Rightarrow> string \<Rightarrow> http_event list" where
  "request_events n q bytes = [HttpRequest q True, BodyChunk n bytes, BodyEnd n, OnBridge SocketTurn]"

text \<open>What Node does with the request: the body is one chunk of valid JSON within the limit.\<close>

definition posts :: "http_env \<Rightarrow> http_request \<Rightarrow> purpose \<Rightarrow> string \<Rightarrow> json \<Rightarrow> bool" where
  "posts H q p bytes body \<longleftrightarrow>
     (\<exists>path. q_path q = Some path \<and> route_of (q_method q) path = BodyRoute p) \<and>
     length bytes \<le> ho_maxBodyBytes (he_opts H) \<and> bytes \<noteq> [] \<and> he_json H bytes = Some body \<and> json_truthy body"

lemma plan_admin [simp]: "plan_call (ForAdmin t) body = Inl []"
  by (simp add: plan_call_def)

lemma post_answered:
  fixes s :: "'q http"
  defines "d \<equiv> ht_bridge s" and "n \<equiv> length (ht_exchanges s)"
  assumes q: "posts H q p bytes body" and plan: "plan_call p body = Inr (c, w)" and idle: "ht_listening s" "bridge_idle d"
    and frame: "he_frame H (he_text H x) = Some x" "CHR 0x0A \<notin> set (he_text H x)" "he_text H x \<noteq> []"
    and m: "bridge_method E (he_pid H) (br_id d) (he_uuid H (br_calls d)) c (br_broker d) = Some b"
    and frames: "frames_to (br_id d) (drop (length (out (br_broker d))) (out b)) = [x]"
    and w: "writable b (br_id d)" and u: "reply_uuid x = Some (he_uuid H (br_calls d))"
    and ans: "http_answer w (reply_fields (he_message H) (echo_of w) x) (call_tag (he_uuid H (br_calls d)) c) = (st, fs)"
  shows "\<exists>s'. http_run E H (request_events n q bytes) s = Some s' \<and> br_broker (ht_bridge s') = b \<and>
    bridge_idle (ht_bridge s') \<and> br_id (ht_bridge s') = br_id d \<and> br_calls (ht_bridge s') = Suc (br_calls d) \<and>
    ht_listening s' \<and> length (ht_exchanges s') = Suc n \<and>
    x_sent (ht_exchanges s' ! n) = [(st, Json (js_object fs))] \<and>
    map_of (br_inflight (ht_bridge s')) (he_uuid H (br_calls d)) = None"
proof -
  obtain path where path: "q_path q = Some path" "route_of (q_method q) path = BodyRoute p"
    using q by (auto simp: posts_def)
  have adm: "p \<noteq> ForAdmin t" for t using plan by (auto simp: plan_call_def)
  define x0 where "x0 = (new_exchange q)\<lparr>x_phase := Awaiting w (br_calls d)\<rparr>"
  let ?step = "bridge_step E (he_uuid H) (he_pid H) (he_text H) (he_frame H)"
  let ?R = "(br_calls d, Resolved x (call_tag (he_uuid H (br_calls d)) c))"
  obtain d1 d2 where d: "?step (BridgeCall c) d = Some d1" "?step SocketTurn d1 = Some d2"
    and d2: "br_broker d2 = b" "br_settled d2 = br_settled d @ [?R]" "bridge_idle d2" "br_id d2 = br_id d"
      "br_calls d2 = Suc (br_calls d)" "map_of (br_inflight d2) (he_uuid H (br_calls d)) = None"
    using answered_call [of d "he_frame H" "he_text H" x E "he_pid H" "he_uuid H" c b] idle(2) frame m frames w u
    by (auto simp: bridge_idle_def bind_eq_Some_conv simp del: bridge_step.simps)
  obtain es1 es2 where es: "br_settled d1 = br_settled d @ es1" "br_settled d2 = br_settled d1 @ es2"
    using bridge_step_settles(1) [OF d(1)] bridge_step_settles(1) [OF d(2)] by (auto simp: settles_def)
  then have R: "es1 @ es2 = [?R]" using d2(2) by simp
  define s1 where "s1 = s\<lparr>ht_exchanges := ht_exchanges s @ [x0]\<rparr>"
  define s2 where "s2 = s1\<lparr>ht_bridge := d1, ht_exchanges := map (fold (resume_one H) es1) (ht_exchanges s1)\<rparr>"
  define s3 where "s3 = s2\<lparr>ht_bridge := d2, ht_exchanges := map (fold (resume_one H) es2) (ht_exchanges s2)\<rparr>"
  have b1: "on_bridge E H (BridgeCall c) s1 = Some s2"
    using d(1) es by (simp add: on_bridge_def Let_def s1_def s2_def d_def resume_map del: bridge_step.simps)
  have b2: "on_bridge E H SocketTurn s2 = Some s3"
    using d(2) es by (simp add: on_bridge_def Let_def s2_def s3_def resume_map del: bridge_step.simps)
  let ?x = "(new_exchange q)\<lparr>x_phase := Reading p bytes\<rparr>"
  have "read_body H p q bytes = Inr body" using q adm
    by (simp add: posts_def read_body_def json_body_def split: purpose.split)
  then have "body_end E H n (s\<lparr>ht_exchanges := ht_exchanges s @ [?x]\<rparr>) = Some s2"
    using b1 plan q
    by (cases p) (simp_all add: body_end_def posts_def set_exchange_def n_def new_exchange_def x0_def s1_def d_def)
  then have "http_run E H (request_events n q bytes) s = Some s3"
    using path idle(1) b2 q
    by (simp add: request_events_def handle_request_def Let_def set_exchange_def n_def new_exchange_def
        body_chunk_def posts_def del: bridge_step.simps)
  moreover have "ht_exchanges s3 ! n = fold (resume_one H) (es1 @ es2) x0"
    by (simp add: s3_def s2_def s1_def n_def nth_append)
  then have "x_sent (ht_exchanges s3 ! n) = [(st, Json (js_object fs))]"
    using ans by (simp add: R x0_def resume_one_def new_exchange_def answered_def)
  moreover have "length (ht_exchanges s3) = Suc n" "ht_bridge s3 = d2" "ht_listening s3"
    using idle(1) by (simp_all add: s3_def s2_def s1_def n_def)
  ultimately show ?thesis using d2 by auto
qed

subsection \<open>Locking\<close>

lemma out_frame [simp]:
  "out (add_ws_key ws k b) = out b" "out (create_lock E k keep mx mr mw b) = out b"
  "out (snd (scheduleDeadline k u t b)) = out b" "out (set_lock k l b) = out b" "out (del_deadline u b) = out b"
  "out (forget_ownership wo r b) = out b" "out (release_own k u l b) = out b"
  by (simp_all add: add_ws_key_def create_lock_def scheduleDeadline_def set_lock_def del_deadline_def
      forget_ownership_def del_ws_uuid_def del_ws_key_def release_own_def Let_def split: js_number.split option.split)

lemma new_key_reply:
  assumes "validateMaxField r = None" and "get_lock b (l_key r) = None" and "writable b ws" and "\<not> beginRead r" "\<not> endRead r"
  shows "frames_to ws (drop (length (out b)) (out (lock E r ws b))) =
      [LockReply (l_uuid r) (l_key r) True 0 0 (Some (js_inc (now b))) None]"
    and "writable (lock E r ws b) = writable b"
    and "\<exists>l. get_lock (lock E r ws b) (l_key r) = Some l \<and> notify l = lq_new E \<and> map fst (lockholders l) = [l_uuid r]"
proof -
  let ?k = "l_key r" and ?b = "lock_prelude E r ws b"
  define b1 where "b1 = create_lock E ?k (l_keep r)
      (if is_integer (l_max r) then Some (limit (l_max r)) else None)
      (if beginRead r then Some (case requested_limit (l_maxRead r) (l_max r) of None \<Rightarrow> 10 | Some m \<Rightarrow> m) else None)
      (if beginWrite r then Some (case requested_limit (l_maxWrite r) (l_max r) of None \<Rightarrow> 1 | Some m \<Rightarrow> m) else None)
      (add_ws_key ws ?k ?b)"
  obtain l where l: "get_lock b1 ?k = Some l" "nextFencingToken l = now b" "readers l = 0"
    "notify l = lq_new E" "lockholders l = []"
    by (auto simp: b1_def create_lock_def getDefaultLockObject_def locks_same [OF same_add_ws_key])
  have b1: "out b1 = out b" "writable b1 = writable b" by (simp_all add: b1_def out_prelude)
  have c: "count_reader r l = l" using assms(4,5) by (simp add: count_reader_def)
  have res: "lock E r ws b = lock_acquire E r ws (lock_ttl E b r) 0 l b1"
    using lock_prelude [OF assms(1), of E ws b] assms(2) l(1)
    by (simp add: lock_new_def Let_def b1_def [symmetric] with_lock_def)
  have "out (lock E r ws b) = out b @ [Minted ?k (lo_id l) (js_inc (now b)),
      Sent ws (LockReply (l_uuid r) ?k True 0 0 (Some (js_inc (now b))) None)]"
    using assms(3) l b1 unfolding res lock_acquire_def grantLock_def
    by (simp add: Let_def case_prod_beta c install_holder_def out_send emit_def)
  then show "frames_to ws (drop (length (out b)) (out (lock E r ws b))) =
      [LockReply (l_uuid r) ?k True 0 0 (Some (js_inc (now b))) None]" by simp
  show "writable (lock E r ws b) = writable b"
    using b1 unfolding res lock_acquire_def grantLock_def
    by (simp add: Let_def case_prod_beta c install_holder_def send_def emit_def)
  show "\<exists>l. get_lock (lock E r ws b) ?k = Some l \<and> notify l = lq_new E \<and> map fst (lockholders l) = [l_uuid r]"
    using l unfolding res lock_acquire_def grantLock_def
    by (simp add: Let_def case_prod_beta c install_holder_def locks_send)
qed

lemma ensure_no_waiters_writable:
  assumes "ensureNewLockHolder E k (Some u) b = Some b'" "get_lock b k = Some l" "lq_length E (notify l) = 0" "u \<noteq> []"
  shows "writable b' = writable b"
proof -
  let ?l = "(remove_holder u l)\<lparr>keepLocksAfterDeath := False\<rparr>"
  have "drain E k (set_lock k ?l (del_deadline u b)) = Some (set_lock k ?l (del_deadline u b))"
    by (subst drain.simps) (simp add: assms(3))
  then show ?thesis using assms by (auto simp: ensureNewLockHolder_def Let_def split: if_splits)
qed

lemma unlock_own_reply:
  assumes l: "get_lock b (u_key r) = Some l" and u: "u__uuid r = Some u" "is_holder (Some u) l"
    and "lq_length E (notify l) = 0" and v: "u_uuid r = Some v" "v \<noteq> []" and w: "writable b ws"
  shows "\<exists>b'. unlock E r (Some ws) b = Some b' \<and> holders b' (u_key r) = AList.delete u (lockholders l) \<and>
    (\<forall>k. k \<noteq> u_key r \<longrightarrow> holders b' k = holders b k) \<and>
    out b' = out b @ [Sent ws (UnlockReply v (u_key r) 0 True None)] \<and> writable b' = writable b"
proof -
  let ?b = "reply_unlock (Some ws) r (\<lambda>x. UnlockReply x (u_key r) (lq_length E (notify l)) True None)
      (release_own (u_key r) u l (forget_ownership (Some ws) r b))"
  let ?l = "(remove_holder u l)\<lparr>lockholdersAllReleased := insert u (lockholdersAllReleased l)\<rparr>"
  obtain b' where b': "unlock E r (Some ws) b = Some b'" "holders b' (u_key r) = AList.delete u (lockholders l)"
      "\<forall>k. k \<noteq> u_key r \<longrightarrow> get_lock b' k = get_lock b k"
    using unlock_releases [OF l u assms(4), of "Some ws"] by blast
  have "get_lock ?b (u_key r) = Some ?l" "lq_length E (notify ?l) = 0" "u \<noteq> []"
    using u assms(4) by (simp_all add: get_lock_release_own is_holder_def)
  note b = this
  from ensure_no_waiters [OF b] b'(1) have out: "out b' = out ?b"
    using unlock_own [OF l, of E "Some ws"] u by simp
  have "out ?b = out b @ [Sent ws (UnlockReply v (u_key r) 0 True None)]"
    using v w assms(4) by (simp add: reply_unlock_def out_send)
  moreover have "writable b' = writable b"
    using b'(1) unlock_own [OF l, of E "Some ws"] u ensure_no_waiters_writable [OF _ b, of b'] by simp
  ultimately show ?thesis using b' out by (auto simp: holders_def)
qed

text \<open>\<open>JSON.stringify\<close> and \<open>JSON.parse\<close> on the frame of a reply.\<close>

definition frame_passes :: "http_env \<Rightarrow> response \<Rightarrow> bool" where
  "frame_passes H x \<longleftrightarrow> he_frame H (he_text H x) = Some x \<and> CHR 0x0A \<notin> set (he_text H x) \<and> he_text H x \<noteq> []"

definition max_of :: "json \<Rightarrow> jsval" where
  "max_of body = (case integer_field body ''max'' of Some n \<Rightarrow> Integer n | None \<Rightarrow> Undefined)"

lemma plan_lock:
  "string_field body ''key'' = Some k \<Longrightarrow> k \<noteq> [] \<Longrightarrow>
    plan_call ForLock body = Inr (CallLock k (ttl_field_of body) (max_of body) False False, WaitLock k)"
  by (cases k) (simp_all add: plan_call_def max_of_def)

lemma plan_unlock:
  "string_field body ''key'' = Some k \<Longrightarrow> k \<noteq> [] \<Longrightarrow>
    plan_call ForUnlock body = Inr (CallUnlock k (string_field body ''lockUuid'') (field body ''force'' = Some (JBool True)), WaitUnlock k)"
  by (cases k) (simp_all add: plan_call_def)

lemma answer_granted:
  "http_answer (WaitLock k) (reply_fields msg vs (LockReply u k' True n rd (Some t) None)) (Some v) =
    (200, [(''acquired'', Some (JBool True)), (''key'', Some (JStr k)), (''lockUuid'', Some (JStr v)),
           (''fencingToken'', Some (JInt t)), (''lockRequestCount'', Some (JInt (int n)))])"
  by (simp add: is_true_def string_field_def)

lemma answer_waiting:
  "http_answer (WaitLock k) (reply_fields msg vs (LockReply u k' False n rd None None)) tag =
    (200, [(''acquired'', Some (JBool False)), (''key'', Some (JStr k)), (''lockUuid'', None),
           (''fencingToken'', None), (''lockRequestCount'', Some (JInt (int n)))])"
  by (simp add: is_true_def string_field_def)

lemma answer_released:
  "http_answer (WaitUnlock k) (reply_fields msg vs (UnlockReply u k' n True None)) tag =
    (200, [(''released'', Some (JBool True)), (''key'', Some (JStr k)), (''lockRequestCount'', Some (JInt (int n)))])"
  by (simp add: string_field_def)

definition lock_answer :: "string \<Rightarrow> string \<Rightarrow> int \<Rightarrow> http_body" where
  "lock_answer k u t = Json (JObj [(''acquired'', JBool True), (''key'', JStr k), (''lockUuid'', JStr u),
     (''fencingToken'', JInt t), (''lockRequestCount'', JInt 0)])"

definition unlock_answer :: "string \<Rightarrow> http_body" where
  "unlock_answer k = Json (JObj [(''released'', JBool True), (''key'', JStr k), (''lockRequestCount'', JInt 0)])"

definition wait_answer :: "string \<Rightarrow> nat \<Rightarrow> http_body" where
  "wait_answer k n = Json (JObj [(''acquired'', JBool False), (''key'', JStr k), (''lockRequestCount'', JInt (int n))])"

lemma answer_json:
  "Json (js_object [(''acquired'', Some (JBool True)), (''key'', Some (JStr k)), (''lockUuid'', Some (JStr v)),
     (''fencingToken'', Some (JInt t)), (''lockRequestCount'', Some (JInt (int 0)))]) = lock_answer k v t"
  "Json (js_object [(''released'', Some (JBool True)), (''key'', Some (JStr k)), (''lockRequestCount'', Some (JInt (int 0)))]) =
    unlock_answer k"
  "Json (js_object [(''acquired'', Some (JBool False)), (''key'', Some (JStr k)), (''lockUuid'', None),
     (''fencingToken'', None), (''lockRequestCount'', Some (JInt (int n)))]) = wait_answer k n"
  by (simp_all add: js_object_def List.map_filter_simps lock_answer_def unlock_answer_def wait_answer_def)

definition http_lock_req :: "http_env \<Rightarrow> nat \<Rightarrow> string \<Rightarrow> json \<Rightarrow> lock_req" where
  "http_lock_req H n k body = bridge_lock_req (he_uuid H n) k (ttl_field_of body) (max_of body) False False (he_pid H)"

lemma http_lock_req_simps [simp]:
  "l_key (http_lock_req H n k body) = k" "l_uuid (http_lock_req H n k body) = he_uuid H n"
  "\<not> beginRead (http_lock_req H n k body)" "\<not> endRead (http_lock_req H n k body)"
  "l_wait (http_lock_req H n k body) = None" "\<not> l_force (http_lock_req H n k body)"
  "l_retryCount (http_lock_req H n k body) = 0"
  by (simp_all add: http_lock_req_def bridge_lock_req_def beginRead_def endRead_def)

lemma http_lock_new_key:
  fixes s :: "'q http"
  defines "d \<equiv> ht_bridge s" and "n \<equiv> length (ht_exchanges s)"
  assumes q: "posts H q ForLock bytes body" and k: "string_field body ''key'' = Some k" "k \<noteq> []"
    and idle: "ht_listening s" "bridge_idle d" and free: "get_lock (br_broker d) k = None"
    and ok: "validateMaxField (http_lock_req H (br_calls d) k body) = None"
    and u: "u = he_uuid H (br_calls d)" and t: "t = js_inc (now (br_broker d))"
    and frame: "frame_passes H (LockReply u k True 0 0 (Some t) None)"
  shows "\<exists>s'. http_run E H (request_events n q bytes) s = Some s' \<and>
    br_broker (ht_bridge s') = lock E (http_lock_req H (br_calls d) k body) (br_id d) (br_broker d) \<and>
    bridge_idle (ht_bridge s') \<and> br_id (ht_bridge s') = br_id d \<and> br_calls (ht_bridge s') = Suc (br_calls d) \<and>
    ht_listening s' \<and> length (ht_exchanges s') = Suc n \<and>
    x_sent (ht_exchanges s' ! n) = [(200, lock_answer k u t)]"
proof -
  let ?r = "http_lock_req H (br_calls d) k body" and ?c = "CallLock k (ttl_field_of body) (max_of body) False False"
  have w: "writable (br_broker d) (br_id d)" using idle(2) by (simp add: bridge_idle_def)
  note reply = new_key_reply [of ?r "br_broker d" "br_id d" E, OF ok _ w, simplified, OF free]
  have m: "bridge_method E (he_pid H) (br_id d) (he_uuid H (br_calls d)) ?c (br_broker d) =
      Some (lock E ?r (br_id d) (br_broker d))"
    by (simp add: http_lock_req_def)
  from post_answered [where s = s and E = E, folded d_def n_def, OF q plan_lock [OF k] idle _ _ _ m reply(1)]
  show ?thesis
    using frame w reply(2) u t
    by (simp add: frame_passes_def call_tag_def answer_granted answer_json [symmetric] del: reply_fields.simps http_answer.simps)
      blast
qed

lemma http_unlock_held:
  fixes s :: "'q http"
  defines "d \<equiv> ht_bridge s" and "n \<equiv> length (ht_exchanges s)"
  assumes q: "posts H q ForUnlock bytes body" and k: "string_field body ''key'' = Some k" "k \<noteq> []"
    and u: "string_field body ''lockUuid'' = Some u" and idle: "ht_listening s" "bridge_idle d"
    and held: "get_lock (br_broker d) k = Some l" "is_holder (Some u) l" "lq_length E (notify l) = 0"
    and v: "v = he_uuid H (br_calls d)" "v \<noteq> []" and frame: "frame_passes H (UnlockReply v k 0 True None)"
  shows "\<exists>s'. http_run E H (request_events n q bytes) s = Some s' \<and>
    x_sent (ht_exchanges s' ! n) = [(200, unlock_answer k)] \<and>
    holders (br_broker (ht_bridge s')) k = AList.delete u (lockholders l) \<and>
    (\<forall>k'. k' \<noteq> k \<longrightarrow> holders (br_broker (ht_bridge s')) k' = holders (br_broker d) k')"
proof -
  let ?force = "field body ''force'' = Some (JBool True)"
  let ?r = "bridge_unlock_req v k (Some u) ?force" and ?b = "br_broker d"
  have r: "u_key ?r = k" "u__uuid ?r = Some u" "u_uuid ?r = Some v"
    using held(2) by (simp_all add: bridge_unlock_req_def is_holder_def)
  have w: "writable ?b (br_id d)" using idle(2) by (simp add: bridge_idle_def)
  obtain b' where b': "unlock E ?r (Some (br_id d)) ?b = Some b'" "holders b' k = AList.delete u (lockholders l)"
    "\<forall>k'. k' \<noteq> k \<longrightarrow> holders b' k' = holders ?b k'"
    "out b' = out ?b @ [Sent (br_id d) (UnlockReply v k 0 True None)]" "writable b' = writable ?b"
    using unlock_own_reply [of ?b ?r l u E v "br_id d"] r held v(2) w by auto
  have m: "bridge_method E (he_pid H) (br_id d) (he_uuid H (br_calls d)) (CallUnlock k (Some u) ?force) ?b = Some b'"
    using b'(1) by (simp add: v(1))
  have f: "frames_to (br_id d) (drop (length (out ?b)) (out b')) = [UnlockReply v k 0 True None]"
    by (simp add: b'(4))
  from post_answered [where s = s and E = E, folded d_def n_def,
      OF q plan_unlock [OF k, unfolded u] idle _ _ _ m f]
  show ?thesis
    using frame w b' v(1)
    by (auto simp: frame_passes_def call_tag_def answer_released answer_json(2) [of k, simplified]
        simp del: reply_fields.simps http_answer.simps)
qed

text \<open>C28: Over HTTP, from the request to the response: a lock on a key that has no lock object is answered
  200 with the token after the current time and a \<open>lockUuid\<close>, and makes that uuid the only holder of the
  key; the unlock that sends the \<open>lockUuid\<close> back is answered 200 and leaves the key without a holder.
  Neither touches another key.\<close>

theorem http_lock_round_trip:
  fixes s :: "'q http"
  defines "d \<equiv> ht_bridge s" and "n \<equiv> length (ht_exchanges s)"
  assumes "linked_queue E contents" and q: "posts H q ForLock bytes body" and k: "string_field body ''key'' = Some k" "k \<noteq> []"
    and idle: "ht_listening s" "bridge_idle d" and free: "get_lock (br_broker d) k = None" "jsmap_wf (locks (br_broker d))"
    and ok: "validateMaxField (http_lock_req H (br_calls d) k body) = None"
    and u: "u = he_uuid H (br_calls d)" "u \<noteq> []" and t: "t = js_inc (now (br_broker d))"
    and v: "v = he_uuid H (Suc (br_calls d))" "v \<noteq> []"
    and q': "posts H q' ForUnlock bytes' body'" "string_field body' ''key'' = Some k" "string_field body' ''lockUuid'' = Some u"
    and frame: "frame_passes H (LockReply u k True 0 0 (Some t) None)" "frame_passes H (UnlockReply v k 0 True None)"
  shows "\<exists>s1 s2. http_run E H (request_events n q bytes) s = Some s1 \<and>
    x_sent (ht_exchanges s1 ! n) = [(200, lock_answer k u t)] \<and> map fst (holders (br_broker (ht_bridge s1)) k) = [u] \<and>
    http_run E H (request_events (Suc n) q' bytes') s1 = Some s2 \<and>
    x_sent (ht_exchanges s2 ! Suc n) = [(200, unlock_answer k)] \<and> holders (br_broker (ht_bridge s2)) k = [] \<and>
    (\<forall>k'. k' \<noteq> k \<longrightarrow> holders (br_broker (ht_bridge s2)) k' = holders (br_broker d) k')"
proof -
  let ?r = "http_lock_req H (br_calls d) k body"
  have w: "writable (br_broker d) (br_id d)" using idle(2) by (simp add: bridge_idle_def)
  obtain s1 where s1: "http_run E H (request_events n q bytes) s = Some s1"
    "br_broker (ht_bridge s1) = lock E ?r (br_id d) (br_broker d)" "bridge_idle (ht_bridge s1)"
    "br_calls (ht_bridge s1) = Suc (br_calls d)" "ht_listening s1" "length (ht_exchanges s1) = Suc n"
    "x_sent (ht_exchanges s1 ! n) = [(200, lock_answer k u t)]"
    using http_lock_new_key [where s = s and E = E, folded d_def n_def, OF q k idle free(1) ok u(1) t frame(1)] by blast
  obtain l where l: "get_lock (br_broker (ht_bridge s1)) k = Some l" "notify l = lq_new E" "map fst (lockholders l) = [u]"
    using new_key_reply(3) [of ?r "br_broker d" "br_id d" E, OF ok _ w] free(1) u(1) by (auto simp: s1(2))
  have "lq_length E (notify l) = 0"
    using assms(3) l(2) by (simp add: linked_queue.length_contents linked_queue.contents_new)
  moreover have h: "lockholders l = [(u, snd (hd (lockholders l)))]" using l(3) by (cases "lockholders l") auto
  then have "is_holder (Some u) l" "AList.delete u (lockholders l) = []"
    using u(2) by (simp add: is_holder_def, metis map_of_Cons_code(2) option.distinct(1)) (subst h, simp)
  moreover have "holders (br_broker (ht_bridge s1)) k = lockholders l" using l(1) by (simp add: holders_def)
  moreover obtain s2 where "http_run E H (request_events (Suc n) q' bytes') s1 = Some s2"
    "x_sent (ht_exchanges s2 ! Suc n) = [(200, unlock_answer k)]"
    "holders (br_broker (ht_bridge s2)) k = AList.delete u (lockholders l)"
    "\<forall>k'. k' \<noteq> k \<longrightarrow> holders (br_broker (ht_bridge s2)) k' = holders (br_broker (ht_bridge s1)) k'"
    using http_unlock_held [where s = s1 and E = E, OF q'(1,2) k(2) q'(3) s1(5,3) l(1)] calculation v frame(2)
    unfolding s1(4,6) by blast
  moreover have "\<forall>k'. k' \<noteq> k \<longrightarrow> holders (br_broker (ht_bridge s1)) k' = holders (br_broker d) k'"
    using new_key_granted [of ?r "br_broker d" "br_id d" E, OF ok _ free(2) w] free(1) by (simp add: s1(2))
  ultimately show ?thesis using s1(1,7) l(3) by auto
qed

text \<open>A server on a broker with one key held by a connection; two frames pass through the bridge.\<close>

definition demo_env :: "response \<Rightarrow> response \<Rightarrow> http_env" where
  "demo_env x y =
     \<lparr>he_opts = http_options None None (Some 64) None None None, he_adminToken = Some '' secret '', he_uuid = bridge_uuid,
      he_pid = 7, he_text = (\<lambda>z. if z = x then ''x'' else ''y''), he_frame = (\<lambda>t. if t = ''x'' then Some x else Some y),
      he_json = map_of
        [(''lock j'', JObj [(''key'', JStr ''j'')]), (''lock k'', JObj [(''key'', JStr ''k'')]),
         (''unlock j'', JObj [(''key'', JStr ''j''), (''lockUuid'', JStr ''b'')]), (''null'', JNull),
         (''level'', JObj [(''level'', JStr ''debug'')])],
      he_form = (\<lambda>_. []), he_message = (\<lambda>_. ''error''), he_exception = (\<lambda>_. ''exception''), he_uptime = ''1.5''\<rparr>"

definition demo_http :: "demo_queue http" where
  "demo_http = http_start 2 True False Info True (after one_held)"

definition post_to :: "string \<Rightarrow> http_request" where
  "post_to path = \<lparr>q_method = ''POST'', q_path = Some path, q_headers = []\<rparr>"

theorem http_lock_round_trip_witness:
  "\<exists>s1 s2. let H = demo_env (LockReply ''b'' ''j'' True 0 0 (Some 1001) None) (UnlockReply ''bb'' ''j'' 0 True None) in
    http_run demo H (request_events 0 (post_to ''/v1/lock'') ''lock j'') demo_http = Some s1 \<and>
    x_sent (ht_exchanges s1 ! 0) = [(200, lock_answer ''j'' ''b'' 1001)] \<and>
    http_run demo H (request_events 1 (post_to ''/v1/unlock'') ''unlock j'') s1 = Some s2 \<and>
    x_sent (ht_exchanges s2 ! 1) = [(200, unlock_answer ''j'')] \<and> holders (br_broker (ht_bridge s2)) ''j'' = []"
proof -
  define H where "H = demo_env (LockReply ''b'' ''j'' True 0 0 (Some 1001) None) (UnlockReply ''bb'' ''j'' 0 True None)"
  have env: "he_uuid H 0 = ''b''" "he_uuid H (Suc 0) = ''bb''" "he_pid H = 7"
    "he_json H ''lock j'' = Some (JObj [(''key'', JStr ''j'')])" "ho_maxBodyBytes (he_opts H) = 64"
    "he_json H ''unlock j'' = Some (JObj [(''key'', JStr ''j''), (''lockUuid'', JStr ''b'')])"
    by (simp_all add: H_def demo_env_def bridge_uuid_def http_options_def)
  have q: "posts H (post_to ''/v1/lock'') ForLock ''lock j'' (JObj [(''key'', JStr ''j'')])"
    "posts H (post_to ''/v1/unlock'') ForUnlock ''unlock j'' (JObj [(''key'', JStr ''j''), (''lockUuid'', JStr ''b'')])"
    by (simp_all add: posts_def env post_to_def route_of_def)
  have frame: "frame_passes H (LockReply ''b'' ''j'' True 0 0 (Some 1001) None)"
    "frame_passes H (UnlockReply ''bb'' ''j'' 0 True None)"
    by (simp_all add: frame_passes_def H_def demo_env_def)
  have s: "ht_listening demo_http" "bridge_idle (ht_bridge demo_http)" "br_calls (ht_bridge demo_http) = 0"
    "ht_exchanges demo_http = []" "now (br_broker (ht_bridge demo_http)) = 1000"
    "get_lock (br_broker (ht_bridge demo_http)) ''j'' = None" "jsmap_wf (locks (br_broker (ht_bridge demo_http)))"
    unfolding bridge_idle_def by code_simp+
  have ok: "validateMaxField (http_lock_req H 0 ''j'' (JObj [(''key'', JStr ''j'')])) = None"
    by (simp add: validateMaxField_def http_lock_req_def bridge_lock_req_def bad_limit_def max_of_def
        integer_field_def)
  have t: "(1001 :: int) = js_inc 1000" by (simp add: js_inc_def two53_def)
  from http_lock_round_trip [where s = demo_http, unfolded s(3-5),
      OF demo_queue q(1) _ _ s(1,2,6,7) ok _ _ t _ _ q(2) _ _ _ ] frame env
  show ?thesis unfolding H_def [symmetric] Let_def by (simp add: string_field_def) blast
qed

subsection \<open>A lock that has to wait\<close>

text \<open>A lock over HTTP on a key that is at its limit is answered at once, 200 with \<open>acquired: false\<close>, no
  uuid and the number of waiters in front of it, while the broker puts the request into the queue of the
  key. Nothing the broker writes to it later, the grant included, reaches the caller: the exchange
  is over and the bridge drops the frame.\<close>

lemma http_lock_waits_unheard:
  fixes s :: "'q http"
  defines "d \<equiv> ht_bridge s" and "n \<equiv> length (ht_exchanges s)"
  assumes "linked_queue E contents" and q: "posts H q ForLock bytes body" and k: "string_field body ''key'' = Some k" "k \<noteq> []"
    and idle: "ht_listening s" "bridge_idle d"
    and ok: "validateMaxField (http_lock_req H (br_calls d) k body) = None"
    and u: "u = he_uuid H (br_calls d)" and l: "get_lock (br_broker d) k = Some l" "lq_get E u (notify l) = None"
    and full: "effective_max (http_lock_req H (br_calls d) k body) (update_limits (http_lock_req H (br_calls d) k body) l) \<le>
      effective_count (http_lock_req H (br_calls d) k body) (update_limits (http_lock_req H (br_calls d) k body) l)"
    and frame: "frame_passes H (LockReply u k False (lq_length E (notify l)) (readers l) None None)"
  shows "\<exists>s' l' w. http_run E H (request_events n q bytes) s = Some s' \<and>
    x_sent (ht_exchanges s' ! n) = [(200, wait_answer k (lq_length E (notify l)))] \<and>
    get_lock (br_broker (ht_bridge s')) k = Some l' \<and>
    contents (notify l') = contents (notify l) @ [(u, w)] \<and> n_ws w = br_id d \<and>
    (\<forall>y. reply_uuid y = Some u \<longrightarrow> onBrokerFrame y (ht_bridge s') = ht_bridge s')"
proof -
  let ?r = "http_lock_req H (br_calls d) k body" and ?b = "br_broker d"
  let ?x = "LockReply u k False (lq_length E (notify l)) (readers l) None None"
  have w: "writable ?b (br_id d)" using idle(2) by (simp add: bridge_idle_def)
  obtain l' ttl where l': "get_lock (lock E ?r (br_id d) ?b) k = Some l'" "writable (lock E ?r (br_id d) ?b) = writable ?b"
    "notify l' = enqueue_request E ?r (br_id d) ttl (notify l)" "out (lock E ?r (br_id d) ?b) = out ?b @ [Sent (br_id d) ?x]"
    using contended_lock [of ?r ?b l "br_id d" E] ok l(1) full w u by (metis http_lock_req_simps(1,2,5))
  have queued: "contents (notify l') = contents (notify l) @ [(u, waiter_of ?r (br_id d) ttl)]"
    using assms(3) l(2) u
    by (simp add: l'(3) enqueue_request_def linked_queue.contents_enqueue linked_queue.get_None_iff)
  have m: "bridge_method E (he_pid H) (br_id d) (he_uuid H (br_calls d))
      (CallLock k (ttl_field_of body) (max_of body) False False) ?b = Some (lock E ?r (br_id d) ?b)"
    by (simp add: http_lock_req_def)
  have f: "frames_to (br_id d) (drop (length (out ?b)) (out (lock E ?r (br_id d) ?b))) = [?x]" by (simp add: l'(4))
  from post_answered [where s = s and E = E, folded d_def n_def, OF q plan_lock [OF k] idle _ _ _ m f]
  obtain s' where "http_run E H (request_events n q bytes) s = Some s'"
    "br_broker (ht_bridge s') = lock E ?r (br_id d) ?b"
    "x_sent (ht_exchanges s' ! n) = [(200, wait_answer k (lq_length E (notify l)))]"
    "map_of (br_inflight (ht_bridge s')) u = None"
    using frame w l'(2) u
    by (auto simp: frame_passes_def call_tag_def answer_waiting answer_json simp del: reply_fields.simps http_answer.simps)
  then show ?thesis using l'(1) queued
    by (intro exI [of _ s'] exI [of _ l'] exI [of _ "waiter_of ?r (br_id d) ttl"])
      (simp add: waiter_of_def onBrokerFrame_def take_pending_def)
qed

lemma http_lock_waits_unheard_witness:
  "\<exists>s' l' w. let H = demo_env waiting_reply waiting_reply in
    http_run demo H (request_events 0 (post_to ''/v1/lock'') ''lock k'') demo_http = Some s' \<and>
    x_sent (ht_exchanges s' ! 0) = [(200, wait_answer ''k'' 0)] \<and>
    get_lock (br_broker (ht_bridge s')) ''k'' = Some l' \<and> notify l' = [(''b'', w)] \<and> n_ws w = 2"
proof -
  define H where "H = demo_env waiting_reply waiting_reply"
  define l where "l = the (get_lock (br_broker (ht_bridge demo_http)) ''k'')"
  let ?body = "JObj [(''key'', JStr ''k'')]"
  have env: "he_uuid H 0 = ''b''" "he_json H ''lock k'' = Some ?body" "ho_maxBodyBytes (he_opts H) = 64"
    by (simp_all add: H_def demo_env_def bridge_uuid_def http_options_def)
  have q: "posts H (post_to ''/v1/lock'') ForLock ''lock k'' ?body"
    by (simp add: posts_def env post_to_def route_of_def)
  have "get_lock (br_broker (ht_bridge demo_http)) ''k'' \<noteq> None" by code_simp
  then have l: "get_lock (br_broker (ht_bridge demo_http)) ''k'' = Some l" by (simp add: l_def)
  have s: "ht_listening demo_http" "bridge_idle (ht_bridge demo_http)" "br_calls (ht_bridge demo_http) = 0"
    "ht_exchanges demo_http = []" "br_id (ht_bridge demo_http) = 2"
    unfolding bridge_idle_def by code_simp+
  have q0: "notify l = []" "lq_length demo (notify l) = 0" "readers l = 0" "lq_get demo ''b'' (notify l) = None"
    "lq_length demo [] = 0"
    unfolding l_def by code_simp+
  have r: "http_lock_req H 0 ''k'' ?body = bridge_lock_req ''b'' ''k'' TtlNull Undefined False False 7"
    by (simp add: http_lock_req_def H_def demo_env_def bridge_uuid_def max_of_def integer_field_def ttl_field_of_def)
  have ok: "validateMaxField (http_lock_req H 0 ''k'' ?body) = None"
    "effective_max (http_lock_req H 0 ''k'' ?body) (update_limits (http_lock_req H 0 ''k'' ?body) l) \<le>
       effective_count (http_lock_req H 0 ''k'' ?body) (update_limits (http_lock_req H 0 ''k'' ?body) l)"
    unfolding r l_def by code_simp+
  have x: "frame_passes H (LockReply ''b'' ''k'' False (lq_length demo (notify l)) (readers l) None None)"
    by (simp add: frame_passes_def H_def demo_env_def q0 waiting_reply_def)
  from http_lock_waits_unheard [where s = demo_http, unfolded s(3,4),
      OF demo_queue q _ _ s(1,2) ok(1) _ l q0(4) ok(2) x] env
  show ?thesis unfolding H_def [symmetric] Let_def by (simp add: string_field_def q0 s(5)) blast
qed

end
