(* ===== verification/HttpRules.thy ===== *)
theory HttpRules
  imports HttpRuns
begin

text \<open>
  Properties of the HTTP server that hold in every run: every request is answered once or has a reason
  not to be, the admin settings need the token, the limit on bodies, and the escaping of keys.
\<close>

subsection \<open>Every request is answered, once\<close>

text \<open>C29: In every state of the HTTP server each request has had at most one response. A request without one is
  still reading its body, or waits for a call of the bridge whose timer is armed, or its handler
  returned because the body was JSON for a falsy value.\<close>

theorem http_requests_answered:
  assumes "inj (he_uuid H)" and "http_run E H evs (http_start ws listens otel level nd b) = Some s"
    and "x \<in> set (ht_exchanges s)"
  shows "length (x_sent x) \<le> 1 \<and>
    (x_sent x = [] \<longrightarrow> (\<exists>p bytes. x_phase x = Reading p bytes) \<or>
       (\<exists>w n. x_phase x = Awaiting w n \<and> n \<in> set (br_timers (ht_bridge s))) \<or>
       (\<exists>v. x_phase x = NoBody v \<and> \<not> json_truthy v))"
proof -
  have ok: "http_ok H s" by (rule http_run_ok [OF assms(2,1) http_start_ok])
  then have "exchange_ok (ht_bridge s) x" "set (br_timers (ht_bridge s)) = pending_calls (ht_bridge s)"
    using assms(3) by (simp_all add: http_ok_def promises_ok_def)
  then show ?thesis by (cases "x_phase x") (auto simp: exchange_ok_def)
qed

definition waiting_events :: "http_event list" where
  "waiting_events = [HttpRequest (post_to ''/v1/lock'') True, BodyChunk 0 ''lock k'', BodyEnd 0,
     HttpRequest (post_to ''/v1/lock'') True, BodyChunk 1 ''null'', BodyEnd 1]"

theorem http_requests_answered_witness:
  "\<exists>s x y. http_run demo (demo_env waiting_reply waiting_reply) waiting_events demo_http = Some s \<and>
    ht_exchanges s = [x, y] \<and> x_sent x = [] \<and> x_sent y = [] \<and> x_phase x = Awaiting (WaitLock ''k'') 0 \<and>
    0 \<in> set (br_timers (ht_bridge s)) \<and> x_phase y = NoBody JNull"
proof -
  let ?H = "demo_env waiting_reply waiting_reply"
  define s where "s = the (http_run demo ?H waiting_events demo_http)"
  have "http_run demo ?H waiting_events demo_http \<noteq> None" by code_simp
  then have run: "http_run demo ?H waiting_events demo_http = Some s" by (simp add: s_def)
  have "length (ht_exchanges s) = 2" unfolding s_def by code_simp
  then obtain x y where xs: "ht_exchanges s = [x, y]" by (auto simp: length_Suc_conv numeral_2_eq_2)
  have "map x_phase (ht_exchanges s) = [Awaiting (WaitLock ''k'') 0, NoBody JNull]"
    "map x_sent (ht_exchanges s) = [[], []]"
    unfolding s_def by code_simp+
  then have p: "x_phase x = Awaiting (WaitLock ''k'') 0" "x_phase y = NoBody JNull" "x_sent x = []" "x_sent y = []"
    by (simp_all add: xs)
  have "inj (he_uuid ?H)" by (simp add: demo_env_def inj_bridge_uuid)
  from http_requests_answered [OF this run [unfolded demo_http_def], of x] xs p
  have "0 \<in> set (br_timers (ht_bridge s))" by simp
  with run xs p show ?thesis by blast
qed

lemma no_body_stays:
  assumes "http_step E H ev s = Some s'" and "ev \<noteq> RequestTimeout n" and "n < length (ht_exchanges s)"
    and "x_phase (ht_exchanges s ! n) = NoBody v"
  shows "n < length (ht_exchanges s') \<and> ht_exchanges s' ! n = ht_exchanges s ! n"
proof -
  have bridge: "n < length (ht_exchanges s') \<and> ht_exchanges s' ! n = ht_exchanges t ! n"
    if "on_bridge E H e t = Some s'" "n < length (ht_exchanges t)" "x_phase (ht_exchanges t ! n) = NoBody v"
    for e and t :: "'a http"
  proof -
    have "fold (resume_one H) es (ht_exchanges t ! n) = ht_exchanges t ! n" for es
      by (rule resume_other) (simp add: that(3))
    then show ?thesis using that(1,2) by (auto simp: on_bridge_def Let_def resume_map)
  qed
  have admin: "ht_exchanges (admin_post m t body s) ! n = ht_exchanges s ! n"
    "length (ht_exchanges (admin_post m t body s)) = length (ht_exchanges s)" if "m \<noteq> n" for m t body
    using that by (auto simp: admin_post_def changed_def Let_def set_exchange_def
        split: admin_target.split option.split sum.split)
  show ?thesis
  proof (cases ev)
    case (HttpRequest q isOpen)
    then show ?thesis using assms(1,3) by (auto simp: nth_append split: if_splits)
  next
    case (BodyChunk m bytes)
    then show ?thesis using assms(1,3,4)
      by (cases "m = n") (auto simp: set_exchange_def body_chunk_def split: if_splits)
  next
    case (BodyError m)
    then show ?thesis using assms(1,3,4) by (cases "m = n") (auto simp: set_exchange_def split: if_splits)
  next
    case (RequestTimeout m)
    then show ?thesis using assms by (auto simp: set_exchange_def split: if_splits)
  next
    case (BodyEnd m)
    show ?thesis
    proof (cases "m = n")
      case False
      then have other: "ht_exchanges (set_exchange m f s) ! n = ht_exchanges s ! n" for f
        by (simp add: set_exchange_def)
      have step: "body_end E H m s = Some s' \<or> s' = s" using assms(1) BodyEnd by (auto split: if_splits)
      then show ?thesis
      proof
        assume "body_end E H m s = Some s'"
        then show ?thesis
        proof (cases rule: body_end_cases)
          case (call c w)
          then show ?thesis using bridge [OF call(1)] assms(3,4) other by (simp add: set_exchange_def)
        qed (use assms(3) other admin False in \<open>simp_all add: set_exchange_def\<close>)
      qed (use assms(3) in simp)
    qed (use assms BodyEnd in \<open>auto simp: body_end_def split: if_splits\<close>)
  next
    case (OnBridge e)
    then show ?thesis using assms(1,3,4) bridge [of e s] by (auto split: bridge_event.splits)
  next
    case ServerClosed
    then show ?thesis using assms(1,3,4) bridge [of _ s] by (auto split: if_splits)
  qed (use assms in auto)
qed

lemma no_body_run:
  "http_run E H evs s = Some s' \<Longrightarrow> RequestTimeout n \<notin> set evs \<Longrightarrow> n < length (ht_exchanges s) \<Longrightarrow>
    x_phase (ht_exchanges s ! n) = NoBody v \<Longrightarrow> ht_exchanges s' ! n = ht_exchanges s ! n"
proof (induction evs arbitrary: s)
  case (Cons ev evs)
  then obtain s1 where "http_step E H ev s = Some s1" "http_run E H evs s1 = Some s'"
    by (auto simp: bind_eq_Some_conv simp del: http_step.simps)
  with Cons no_body_stays [of E H ev s s1 n v] show ?case by auto
qed simp

text \<open>A request whose body is valid JSON for a falsy value (\<open>null\<close>, \<open>false\<close>, \<open>0\<close>, the empty string) is
  never answered by its handler: whatever happens afterwards, only the timer of the request ends it.\<close>

lemma falsy_body_unanswered:
  assumes "n < length (ht_exchanges s)" and "x_phase (ht_exchanges s ! n) = Reading p bytes"
    and "x_sent (ht_exchanges s ! n) = []"
    and "read_body H p (x_request (ht_exchanges s ! n)) bytes = Inr v" and "\<not> json_truthy v"
    and "http_run E H (BodyEnd n # evs) s = Some s'" and "RequestTimeout n \<notin> set evs"
  shows "x_sent (ht_exchanges s' ! n) = [] \<and> x_phase (ht_exchanges s' ! n) = NoBody v"
proof -
  let ?s = "set_exchange n (\<lambda>x. x\<lparr>x_phase := NoBody v\<rparr>) s"
  have "http_run E H evs ?s = Some s'"
    using assms(1,2,4-6) by (simp add: body_end_def)
  from no_body_run [OF this assms(7), of v] assms(1,3) show ?thesis by (simp add: set_exchange_def)
qed

lemma falsy_body_unanswered_witness:
  "\<exists>s s'. http_run demo (demo_env waiting_reply waiting_reply)
      [HttpRequest (post_to ''/v1/unlock'') True, BodyChunk 0 ''null''] demo_http = Some s \<and>
    http_run demo (demo_env waiting_reply waiting_reply)
      [BodyEnd 0, OnBridge SocketTurn, HttpRequest (post_to ''/'') True, BodyError 0] s = Some s' \<and>
    x_sent (ht_exchanges s' ! 0) = []"
proof -
  let ?H = "demo_env waiting_reply waiting_reply"
  let ?a = "[HttpRequest (post_to ''/v1/unlock'') True, BodyChunk 0 ''null'']"
  let ?b = "[BodyEnd 0, OnBridge SocketTurn, HttpRequest (post_to ''/'') True, BodyError 0]"
  define s where "s = the (http_run demo ?H ?a demo_http)"
  define s' where "s' = the (http_run demo ?H ?b s)"
  have "http_run demo ?H ?a demo_http \<noteq> None" by code_simp
  then have a: "http_run demo ?H ?a demo_http = Some s" by (simp add: s_def)
  have "http_run demo ?H ?b s \<noteq> None" unfolding s_def by code_simp
  then have b: "http_run demo ?H ?b s = Some s'" by (simp add: s'_def)
  have x: "0 < length (ht_exchanges s)" "x_phase (ht_exchanges s ! 0) = Reading ForUnlock ''null''"
    "x_sent (ht_exchanges s ! 0) = []"
    unfolding s_def by code_simp+
  have v: "read_body ?H ForUnlock (x_request (ht_exchanges s ! 0)) ''null'' = Inr JNull" "\<not> json_truthy JNull"
    by (simp_all add: read_body_def json_body_def demo_env_def)
  from falsy_body_unanswered [OF x v b] a b show ?thesis by auto
qed

subsection \<open>The admin token\<close>

definition no_admin :: "exchange \<Rightarrow> bool" where
  "no_admin x = (case x_phase x of Reading (ForAdmin t) _ \<Rightarrow> False | _ \<Rightarrow> True)"

definition settings :: "'q http \<Rightarrow> bool \<times> LMXLogLevel \<times> bool" where
  "settings s = (ht_otel s, ht_level s, ht_noDelay s)"

lemma settings_set_exchange [simp]: "settings (set_exchange n f s) = settings s"
  by (simp add: settings_def set_exchange_def)

lemma settings_on_bridge: "on_bridge E H ev s = Some s' \<Longrightarrow> settings s' = settings s"
  by (auto simp: on_bridge_def Let_def settings_def)

lemma no_admin_simps [simp]:
  "no_admin (ended x)" "no_admin (x\<lparr>x_phase := NoBody v\<rparr>)" "no_admin (x\<lparr>x_phase := Awaiting w m\<rparr>)"
  by (simp_all add: no_admin_def)

lemma route_body: "route_of m path = BodyRoute p \<Longrightarrow> p \<noteq> ForAdmin t"
  by (auto simp: route_of_def split: if_splits)

lemma no_admin_request: "\<not> checkAdminAuth H q \<Longrightarrow> no_admin (handle_request E H isOpen s q)"
  by (auto simp: handle_request_def Let_def no_admin_def new_exchange_def handle_rejected_def send_response_def
      handle_admin_def dest: route_body split: option.split route.split purpose.split)

lemma no_admin_one: "no_admin x \<Longrightarrow> no_admin (resume_one H e x)"
  by (cases "x_phase x") (simp_all add: resume_one_def, simp add: no_admin_def)

lemma no_admin_resume: "no_admin x \<Longrightarrow> no_admin (fold (resume_one H) es x)"
  by (induction es arbitrary: x) (simp_all add: no_admin_one)

lemma no_admin_on_bridge:
  "on_bridge E H ev s = Some s' \<Longrightarrow> \<forall>x \<in> set (ht_exchanges s). no_admin x \<Longrightarrow> \<forall>x \<in> set (ht_exchanges s'). no_admin x"
  by (auto simp: on_bridge_def Let_def resume_map no_admin_resume)

lemma no_admin_set:
  "\<forall>x \<in> set (ht_exchanges s). no_admin x \<Longrightarrow> n < length (ht_exchanges s) \<Longrightarrow>
    (no_admin (ht_exchanges s ! n) \<Longrightarrow> no_admin (f (ht_exchanges s ! n))) \<Longrightarrow>
    \<forall>x \<in> set (ht_exchanges (set_exchange n f s)). no_admin x"
  by (auto simp: set_exchange_def dest!: in_set_upd)

lemma no_admin_body_end:
  assumes "body_end E H n s = Some s'" and x: "\<forall>x \<in> set (ht_exchanges s). no_admin x" and n: "n < length (ht_exchanges s)"
  shows "settings s' = settings s \<and> (\<forall>x \<in> set (ht_exchanges s'). no_admin x)"
proof -
  have p: "no_admin (ht_exchanges s ! n)" using x n by simp
  have set: "\<forall>x \<in> set (ht_exchanges (set_exchange n f s)). no_admin x" if "no_admin (f (ht_exchanges s ! n))" for f
    using no_admin_set [OF x n, of f] that by blast
  from assms(1) show ?thesis
  proof (cases rule: body_end_cases)
    case (admin t body bytes)
    then show ?thesis using p by (simp add: no_admin_def)
  next
    case (call c w)
    show ?thesis using settings_on_bridge [OF call(1)] no_admin_on_bridge [OF call(1) set] by simp
  next
    case (refused msg)
    show ?thesis unfolding refused using set [OF no_admin_simps(1)] by simp
  next
    case (falsy v)
    show ?thesis unfolding falsy(2) using set [OF no_admin_simps(2)] by simp
  qed (use x in simp)
qed

lemma no_admin_step:
  assumes step: "http_step E H ev s = Some s'" and x: "\<forall>x \<in> set (ht_exchanges s). no_admin x"
    and "\<And>q isOpen. ev = HttpRequest q isOpen \<Longrightarrow> \<not> checkAdminAuth H q"
  shows "settings s' = settings s \<and> (\<forall>x \<in> set (ht_exchanges s'). no_admin x)"
proof (cases ev)
  case (HttpRequest q isOpen)
  then show ?thesis
    using step x assms(3) no_admin_request by (auto simp: settings_def split: if_splits)
next
  case (BodyChunk n bytes)
  have "no_admin y \<Longrightarrow> no_admin (body_chunk H bytes y)" for y
    by (auto simp: body_chunk_def no_admin_def split: phase.splits purpose.splits)
  then show ?thesis using step x BodyChunk no_admin_set [OF x, of n "body_chunk H bytes"] by (auto split: if_splits)
next
  case (BodyEnd n)
  then show ?thesis using step x no_admin_body_end [of E H n s s'] by (auto split: if_splits)
next
  case (BodyError n)
  let ?f = "\<lambda>y. case x_phase y of Reading p bytes \<Rightarrow> handle_rejected ''aborted'' y | _ \<Rightarrow> y"
  have "no_admin y \<Longrightarrow> no_admin (?f y)" for y
    by (auto simp: handle_rejected_def split: phase.split)
  then show ?thesis using step x BodyError no_admin_set [OF x, of n ?f] by (auto split: if_splits)
next
  case (RequestTimeout n)
  have "no_admin y \<Longrightarrow> no_admin (request_timeout y)" for y
    by (auto simp: request_timeout_def Let_def no_admin_def split: phase.splits)
  then show ?thesis using step x RequestTimeout no_admin_set [OF x, of n request_timeout] by (auto split: if_splits)
next
  case (OnBridge e)
  then show ?thesis using step x settings_on_bridge no_admin_on_bridge [OF _ x]
    by (fastforce split: bridge_event.splits)
next
  case ServerClosed
  then show ?thesis using step x settings_on_bridge no_admin_on_bridge [OF _ x] by (fastforce split: if_splits)
qed (use step x in \<open>auto simp: settings_def\<close>)

lemma no_admin_run:
  "http_run E H evs s = Some s' \<Longrightarrow> \<forall>x \<in> set (ht_exchanges s). no_admin x \<Longrightarrow>
    (\<And>q isOpen. HttpRequest q isOpen \<in> set evs \<Longrightarrow> \<not> checkAdminAuth H q) \<Longrightarrow> settings s' = settings s"
proof (induction evs arbitrary: s)
  case (Cons ev evs)
  then obtain s1 where s1: "http_step E H ev s = Some s1" "http_run E H evs s1 = Some s'"
    by (auto simp: bind_eq_Some_conv simp del: http_step.simps)
  with no_admin_step [OF s1(1) Cons.prems(2)] Cons.prems(3)
  have "settings s1 = settings s" "\<forall>x \<in> set (ht_exchanges s1). no_admin x" by auto
  with Cons.IH [OF s1(2)] Cons.prems(3) show ?case by auto
qed simp

text \<open>C30: In a run in which no request carries the admin token, neither as \<open>x-admin-token\<close> nor as a bearer
  token, the telemetry switch, the log level and the TCP setting stay as they were when the server
  started. An empty token is never accepted.\<close>

theorem admin_needs_token:
  assumes "http_run E H evs (http_start ws listens otel level nd b) = Some s"
    and "\<And>q isOpen. HttpRequest q isOpen \<in> set evs \<Longrightarrow> \<not> checkAdminAuth H q"
  shows "ht_otel s = otel \<and> ht_level s = level \<and> ht_noDelay s = nd \<and>
    (\<forall>q. checkAdminAuth H q \<longrightarrow>
       trim (header q ''x-admin-token'') \<noteq> [] \<or> bearer_token (trim (header q ''authorization'')) \<noteq> [])"
proof -
  have "settings s = settings (http_start ws listens otel level nd b)"
    by (rule no_admin_run [OF assms(1) _ assms(2)]) (simp_all add: http_start_def)
  then have "ht_otel s = otel \<and> ht_level s = level \<and> ht_noDelay s = nd"
    by (simp add: settings_def http_start_def)
  then show ?thesis
    using adminToken_nonempty by (auto simp: checkAdminAuth_def Let_def)
qed

definition post_level :: "(string \<times> string) list \<Rightarrow> http_event list" where
  "post_level hs =
     [HttpRequest \<lparr>q_method = ''POST'', q_path = Some ''/admin/log-level'', q_headers = hs\<rparr> True,
      BodyChunk 0 ''level'', BodyEnd 0]"

text \<open>With a wrong token nothing changes; with the right one, trimmed, the level does.\<close>

theorem admin_needs_token_witness:
  "(\<exists>s. http_run demo (demo_env waiting_reply waiting_reply) (post_level [(''x-admin-token'', ''wrong'')]) demo_http = Some s \<and>
     ht_level s = Info \<and> map x_sent (ht_exchanges s) = [[(401, Json (js_object (error_body unauthorized)))]]) \<and>
   map_option ht_level (http_run demo (demo_env waiting_reply waiting_reply)
     (post_level [(''authorization'', ''bEARER  secret '')]) demo_http) = Some Debug"
proof -
  let ?H = "demo_env waiting_reply waiting_reply" and ?evs = "post_level [(''x-admin-token'', ''wrong'')]"
  define s where "s = the (http_run demo ?H ?evs demo_http)"
  have "http_run demo ?H ?evs demo_http \<noteq> None" by code_simp
  then have run: "http_run demo ?H ?evs demo_http = Some s" by (simp add: s_def)
  have "\<not> checkAdminAuth ?H q" if "HttpRequest q isOpen \<in> set ?evs" for q isOpen
  proof -
    have "q = \<lparr>q_method = ''POST'', q_path = Some ''/admin/log-level'', q_headers = [(''x-admin-token'', ''wrong'')]\<rparr>"
      using that by (simp add: post_level_def)
    moreover have "\<not> checkAdminAuth ?H
        \<lparr>q_method = ''POST'', q_path = Some ''/admin/log-level'', q_headers = [(''x-admin-token'', ''wrong'')]\<rparr>"
      by code_simp
    ultimately show ?thesis by simp
  qed
  from admin_needs_token [OF run [unfolded demo_http_def] this]
  have "ht_level s = Info" by simp
  moreover have "map x_sent (ht_exchanges s) = [[(401, Json (js_object (error_body unauthorized)))]]"
    unfolding s_def by code_simp
  moreover have "map_option ht_level (http_run demo ?H (post_level [(''authorization'', ''bEARER  secret '')]) demo_http) =
      Some Debug" by code_simp
  moreover note run
  ultimately show ?thesis by (intro conjI exI [of _ s]) assumption+
qed

subsection \<open>The limit on bodies\<close>

text \<open>Whatever the chunks, a body within the limit is read whole and in order, and one beyond it is refused
  with 413 before any of it is parsed; where the body was cut makes no difference.\<close>

lemma body_limit:
  assumes "x_phase x = Reading p bytes" and "length bytes \<le> ho_maxBodyBytes (he_opts H)"
  shows "fold (body_chunk H) cs x =
    (if length (bytes @ concat cs) \<le> ho_maxBodyBytes (he_opts H) then x\<lparr>x_phase := Reading p (bytes @ concat cs)\<rparr>
     else ended (respondJson 413 (error_body (too_large H)) x))"
  using assms
proof (induction cs arbitrary: x bytes)
  case (Cons c cs)
  show ?case
  proof (cases "length bytes + length c \<le> ho_maxBodyBytes (he_opts H)")
    case True
    then have c: "body_chunk H c x = x\<lparr>x_phase := Reading p (bytes @ c)\<rparr>"
      using Cons.prems by (simp add: body_chunk_def)
    show ?thesis
      using Cons.IH [of "x\<lparr>x_phase := Reading p (bytes @ c)\<rparr>" "bytes @ c"] True
      by (simp add: c ended_def respondJson_def respond_def send_response_def)
  next
    case False
    then have c: "body_chunk H c x = ended (respondJson 413 (error_body (too_large H)) x)"
      using Cons.prems by (simp add: body_chunk_def)
    have "fold (body_chunk H) cs y = y" if "x_phase y = Ended" for y
      using that by (induction cs arbitrary: y) (simp_all add: body_chunk_def)
    then show ?thesis using False c by simp
  qed
qed (cases x, simp)

lemma body_limit_witness:
  "let x = (new_exchange (post_to ''/v1/lock''))\<lparr>x_phase := Reading ForLock []\<rparr>;
       H = demo_env waiting_reply waiting_reply
   in fold (body_chunk H) [''lock'', '' '', ''k''] x = x\<lparr>x_phase := Reading ForLock ''lock k''\<rparr> \<and>
      x_sent (fold (body_chunk H) [''lock'', replicate 61 CHR ''x''] x) = [(413, Json (js_object (error_body ''Body exceeds 64 bytes.'')))]"
proof -
  let ?x = "(new_exchange (post_to ''/v1/lock''))\<lparr>x_phase := Reading ForLock []\<rparr>"
  let ?H = "demo_env waiting_reply waiting_reply"
  have H: "ho_maxBodyBytes (he_opts ?H) = 64" by (simp add: demo_env_def http_options_def)
  then have "too_large ?H = ''Body exceeds 64 bytes.''" by (simp add: too_large_def) code_simp
  with body_limit [of ?x ForLock "[]" ?H "[''lock'', '' '', ''k'']"]
    body_limit [of ?x ForLock "[]" ?H "[''lock'', replicate 61 CHR ''x'']"] H
  show ?thesis by (simp add: new_exchange_def)
qed

subsection \<open>Keys in HTML\<close>

definition is_markup :: "char \<Rightarrow> bool" where
  "is_markup c = (c \<in> {CHR ''<'', CHR ''>'', CHR 0x22, CHR 0x27})"

lemma filter_esc: "filter is_markup (esc s) = []"
  using esc_markup [of s] by (auto simp: filter_empty_conv is_markup_def)

text \<open>The names of keys add no markup to the status page: the tags and quotes of its table are those of the
  same table with empty names. The escaping loses nothing: what a browser shows for a key is the key.\<close>

lemma keys_add_no_markup:
  "filter is_markup (topKeysRows s) =
     filter is_markup (topKeysRows (s\<lparr>st_topKeys := map (\<lambda>t. t\<lparr>t_key := []\<rparr>) (st_topKeys s)\<rparr>)) \<and>
   unescape (esc k) = k"
proof -
  have "filter is_markup (key_row t) = filter is_markup (key_row (t\<lparr>t_key := []\<rparr>))" for t
    by (simp add: key_row_def filter_esc)
  then have "filter is_markup (concat (map key_row ts)) = filter is_markup (concat (map (key_row \<circ> (\<lambda>t. t\<lparr>t_key := []\<rparr>)) ts))" for ts
    by (induction ts) simp_all
  then show ?thesis by (simp add: topKeysRows_def unescape_esc)
qed

end
