(* ===== verification/Hardened.thy ===== *)
theory Hardened
  imports Authority BrokerStep HttpServer
begin

text \<open>
  The handlers of the hardened broker (\<open>Broker1\<close> of \<open>src/src/broker-1-hardened.ts\<close>), the one that
  \<open>lm-start-server.ts\<close> starts: the base broker with its counters under the authority.

  Every new lock object takes its first counter from the authority, and every increment of a counter
  goes through the set trap, so both can throw in the middle of a handler of the base class. Such a
  handler is written out again here as it runs until the exception: the result is the exception, if
  any, and the state it leaves. Where nothing throws, it is the base handler's. The list \<open>hb_faults\<close> says
  which system call fails in each visit to the authority.
\<close>

record 'q hardened =
  hb_broker :: "'q broker"
  hb_auth :: authority
  hb_faults :: "disk_call option list"

definition with_authority :: "(authority \<Rightarrow> 'a \<times> authority) \<Rightarrow> 'q hardened \<Rightarrow> 'a \<times> 'q hardened" where
  "with_authority f hb =
     (let fault = (case hb_faults hb of [] \<Rightarrow> None | e # es \<Rightarrow> e);
          (x, a) = f ((hb_auth hb)\<lparr>fail_at := fault\<rparr>)
      in (x, hb\<lparr>hb_auth := a, hb_faults := tl (hb_faults hb)\<rparr>))"

definition on_broker :: "('q broker \<Rightarrow> 'q broker) \<Rightarrow> 'q hardened \<Rightarrow> 'q hardened" where
  "on_broker f hb = hb\<lparr>hb_broker := f (hb_broker hb)\<rparr>"

subsection \<open>Lock objects and tokens\<close>

text \<open>\<open>this.locks.set(key, this.getDefaultLockObject(...))\<close>\<close>

definition h_create_lock ::
  "'q ext \<Rightarrow> string \<Rightarrow> bool \<Rightarrow> nat option \<Rightarrow> nat option \<Rightarrow> nat option \<Rightarrow> 'q hardened
    \<Rightarrow> authority_error option \<times> 'q hardened" where
  "h_create_lock E k keep mx mr mw hb =
     (let b = hb_broker hb in
      case with_authority (seed_token (now b)) hb of
        (Inl e, hb1) \<Rightarrow> (Some e, hb1)
      | (Inr seed, hb1) \<Rightarrow>
          (None, on_broker (\<lambda>b. set_lock k ((getDefaultLockObject E b k keep mx mr mw)\<lparr>nextFencingToken := seed\<rparr>)
                    (b\<lparr>next_lo_id := Suc (next_lo_id b)\<rparr>)) hb1))"

definition h_ensure_lock ::
  "'q ext \<Rightarrow> string \<Rightarrow> bool \<Rightarrow> 'q hardened \<Rightarrow> authority_error option \<times> 'q hardened" where
  "h_ensure_lock E k keep hb =
     (case get_lock (hb_broker hb) k of
        Some _ \<Rightarrow> (None, hb)
      | None \<Rightarrow> h_create_lock E k keep (Some 1) None None hb)"

text \<open>\<open>lck.nextFencingToken++\<close> through the trap; the base handler that follows stores the value.\<close>

definition raise_token :: "'q lock_obj \<Rightarrow> 'q hardened \<Rightarrow> authority_error option \<times> 'q hardened" where
  "raise_token l = with_authority (set_token (nextFencingToken l) (js_inc (nextFencingToken l)))"

subsection \<open>lock\<close>

text \<open>What \<open>lock\<close> has done to the lock object and to the key table before \<open>grantLock\<close> reaches the counter.\<close>

definition h_lock_acquire ::
  "'q ext \<Rightarrow> lock_req \<Rightarrow> sock \<Rightarrow> js_number \<Rightarrow> nat \<Rightarrow> 'q lock_obj \<Rightarrow> 'q hardened
    \<Rightarrow> authority_error option \<times> 'q hardened" where
  "h_lock_acquire E r ws ttl ln l hb =
     (case raise_token l hb of
        (Some e, hb1) \<Rightarrow>
          (Some e, on_broker (\<lambda>b. set_lock (l_key r) (count_reader r l) (add_ws_key ws (l_key r) b)) hb1)
      | (None, hb1) \<Rightarrow> (None, on_broker (lock_acquire E r ws ttl ln l) hb1))"

definition h_lock_existing ::
  "'q ext \<Rightarrow> lock_req \<Rightarrow> sock \<Rightarrow> js_number \<Rightarrow> 'q lock_obj \<Rightarrow> 'q hardened \<Rightarrow> authority_error option \<times> 'q hardened" where
  "h_lock_existing E r ws ttl l0 hb0 =
     (let l = update_limits r l0; hb = on_broker (set_lock (l_key r) l) hb0
      in if effective_max r l \<le> effective_count r l then (None, on_broker (lock_contended E r ws ttl l) hb)
         else h_lock_acquire E r ws ttl (lq_length E (notify l)) l hb)"

definition h_lock_new ::
  "'q ext \<Rightarrow> lock_req \<Rightarrow> sock \<Rightarrow> js_number \<Rightarrow> 'q hardened \<Rightarrow> authority_error option \<times> 'q hardened" where
  "h_lock_new E r ws ttl hb =
     (let mx = (if is_integer (l_max r) then Some (limit (l_max r)) else None);
          mr = (if beginRead r
                then Some (case requested_limit (l_maxRead r) (l_max r) of None \<Rightarrow> 10 | Some m \<Rightarrow> m)
                else None);
          mw = (if beginWrite r
                then Some (case requested_limit (l_maxWrite r) (l_max r) of None \<Rightarrow> 1 | Some m \<Rightarrow> m)
                else None)
      in case h_create_lock E (l_key r) (l_keep r) mx mr mw (on_broker (add_ws_key ws (l_key r)) hb) of
           (Some e, hb1) \<Rightarrow> (Some e, hb1)
         | (None, hb1) \<Rightarrow>
             (case get_lock (hb_broker hb1) (l_key r) of
                None \<Rightarrow> (None, hb1)
              | Some l \<Rightarrow> h_lock_acquire E r ws ttl 0 l hb1))"

text \<open>\<open>super.lock\<close>\<close>

definition super_lock :: "'q ext \<Rightarrow> lock_req \<Rightarrow> sock \<Rightarrow> 'q hardened \<Rightarrow> authority_error option \<times> 'q hardened" where
  "super_lock E r ws hb =
     (case validateMaxField r of
        Some f \<Rightarrow>
          (None, on_broker (send ws (LockReply (l_uuid r) (l_key r) False 0 0 None (Some (BadMaxField f)))) hb)
      | None \<Rightarrow>
          (let k = l_key r; b = hb_broker hb;
               b1 = with_lock k (\<lambda>l b. set_lock k (l\<lparr>timestampEmptied := None\<rparr>) b) b;
               b2 = count_lock_request E b1;
               b3 = (if l_uuid r \<noteq> [] then add_ws_uuid ws (l_uuid r) b2 else b2);
               hb4 = hb\<lparr>hb_broker := ensure_ws_keys ws b3\<rparr>;
               ttl = lock_ttl E b r
           in case get_lock b1 k of
                Some l \<Rightarrow> h_lock_existing E r ws ttl l hb4
              | None \<Rightarrow> h_lock_new E r ws ttl hb4))"

fun error_code :: "authority_error \<Rightarrow> reply_error" where
  "error_code Exhausted = FencingTokenExhausted"
| "error_code PersistenceFailed = FencingTokenPersistenceFailed"
| "error_code FileSystemError = FencingTokenPersistenceFailed"

definition emitAuthorityFailure :: "sock \<Rightarrow> response \<Rightarrow> authority_error \<Rightarrow> 'q hardened \<Rightarrow> 'q hardened" where
  "emitAuthorityFailure ws reply e = on_broker (\<lambda>b. emit (Warn (AuthorityFailure (error_code e))) (send ws reply b))"

text \<open>An override: the two errors of the authority are answered, any other goes on to the caller.\<close>

definition guarded ::
  "(authority_error \<Rightarrow> 'q hardened \<Rightarrow> 'q hardened) \<Rightarrow> authority_error option \<times> 'q hardened
    \<Rightarrow> authority_error option \<times> 'q hardened" where
  "guarded answer res =
     (case res of
        (None, hb) \<Rightarrow> (None, hb)
      | (Some e, hb) \<Rightarrow> if e = FileSystemError then (Some e, hb) else (None, answer e hb))"

definition h_lock :: "'q ext \<Rightarrow> lock_req \<Rightarrow> sock \<Rightarrow> 'q hardened \<Rightarrow> authority_error option \<times> 'q hardened" where
  "h_lock E r ws hb =
     (let answer = (\<lambda>e. emitAuthorityFailure ws (LockAuthorityFailure (l_uuid r) (l_key r) (error_code e)) e)
      in if \<not> hasHeadroom 1 (hb_auth hb) then (None, answer Exhausted hb)
         else guarded answer (super_lock E r ws hb))"

subsection \<open>acquireMany\<close>

text \<open>A member grant: what is left of it when the counter's trap throws.\<close>

definition h_grant_member ::
  "'q ext \<Rightarrow> sock \<Rightarrow> int \<Rightarrow> js_number \<Rightarrow> string \<Rightarrow> string \<Rightarrow> 'q lock_obj \<Rightarrow> 'q hardened
    \<Rightarrow> (authority_error + string \<times> int) \<times> 'q hardened" where
  "h_grant_member E ws pid ttl cid k l hb =
     (case raise_token l hb of
        (Some e, hb1) \<Rightarrow> (Inl e, on_broker (\<lambda>b. set_lock k (l\<lparr>timestampEmptied := None\<rparr>) (next_uuid b)) hb1)
      | (None, hb1) \<Rightarrow>
          (let (u, t, b) = grant_member E ws pid ttl cid k l (hb_broker hb1)
           in (Inr (u, t), hb1\<lparr>hb_broker := b\<rparr>)))"

text \<open>The result of a loop over keys: it threw, or it stopped at a contended key, or it went through.\<close>

datatype many_result = ManyThrew authority_error | ManyContended string | ManyGranted

fun h_am_loop ::
  "'q ext \<Rightarrow> sock \<Rightarrow> int \<Rightarrow> js_number \<Rightarrow> bool \<Rightarrow> string \<Rightarrow> string list \<Rightarrow> grants \<Rightarrow> 'q hardened
    \<Rightarrow> many_result \<times> grants \<times> 'q hardened" where
  "h_am_loop E ws pid ttl keep cid [] gs hb = (ManyGranted, gs, hb)"
| "h_am_loop E ws pid ttl keep cid (k # ks) gs hb =
     (if contended (hb_broker hb) k then (ManyContended k, gs, hb)
      else
        (case h_ensure_lock E k keep hb of
           (Some e, hb0) \<Rightarrow> (ManyThrew e, gs, on_broker next_uuid hb0)
         | (None, hb0) \<Rightarrow>
             (case get_lock (hb_broker hb0) k of
                None \<Rightarrow> (ManyContended k, gs, hb0)
              | Some l \<Rightarrow>
                  (case h_grant_member E ws pid ttl cid k l hb0 of
                     (Inl e, hb1) \<Rightarrow> (ManyThrew e, gs, hb1)
                   | (Inr (u, t), hb1) \<Rightarrow> h_am_loop E ws pid ttl keep cid ks (gs @ [(k, u, t)]) hb1))))"

text \<open>\<open>super.acquireMany\<close>; the contended key of a loop has a lock object, so queueing on it makes none.\<close>

definition super_acquireMany ::
  "'q ext \<Rightarrow> acquire_many_req \<Rightarrow> sock \<Rightarrow> 'q hardened \<Rightarrow> authority_error option \<times> 'q hardened" where
  "super_acquireMany E r ws hb =
     (case check_keys (a_keys r) of
        Inl e \<Rightarrow> (None, on_broker (send ws (AcquireManyRejected (a_uuid r)
                    (case a_keys r of None \<Rightarrow> [] | Some raw \<Rightarrow> raw) e)) hb)
      | Inr keys \<Rightarrow>
          (let b = hb_broker hb; ttl = many_ttl b (a_ttl r); cid = fresh_uuid E b
           in case h_am_loop E ws (a_pid r) ttl (a_keep r) cid keys [] (on_broker next_uuid hb) of
                (ManyThrew e, gs, hb1) \<Rightarrow> (Some e, hb1)
              | (ManyContended k, gs, hb1) \<Rightarrow>
                  (None, on_broker (\<lambda>b. acquire_many_contended E r ws keys cid ttl k (rollback_attempt gs b)) hb1)
              | (ManyGranted, gs, hb1) \<Rightarrow>
                  (None, on_broker (register_composite ws (a_uuid r) cid keys gs) hb1)))"

definition required_tokens :: "jsval list option \<Rightarrow> nat" where
  "required_tokens ks =
     (case ks of
        None \<Rightarrow> 1
      | Some raw \<Rightarrow> length (remdups (filter (\<lambda>v. case v of String _ \<Rightarrow> True | _ \<Rightarrow> False) raw)))"

definition h_acquireMany ::
  "'q ext \<Rightarrow> acquire_many_req \<Rightarrow> sock \<Rightarrow> 'q hardened \<Rightarrow> authority_error option \<times> 'q hardened" where
  "h_acquireMany E r ws hb =
     (let answer = (\<lambda>e. emitAuthorityFailure ws (AcquireManyAuthorityFailure (a_uuid r)
                      (case a_keys r of None \<Rightarrow> [] | Some raw \<Rightarrow> raw) (error_code e)) e)
      in if \<not> hasHeadroom (required_tokens (a_keys r)) (hb_auth hb) then (None, answer Exhausted hb)
         else guarded answer (super_acquireMany E r ws hb))"

subsection \<open>Draining the waiters\<close>

fun h_tg_loop ::
  "'q ext \<Rightarrow> sock \<Rightarrow> int \<Rightarrow> js_number \<Rightarrow> bool \<Rightarrow> string \<Rightarrow> string list \<Rightarrow> grants \<Rightarrow> 'q hardened
    \<Rightarrow> many_result \<times> grants \<times> 'q hardened" where
  "h_tg_loop E ws pid ttl keep cid [] gs hb = (ManyGranted, gs, hb)"
| "h_tg_loop E ws pid ttl keep cid (k # ks) gs hb =
     (case h_ensure_lock E k keep hb of
        (Some e, hb0) \<Rightarrow> (ManyThrew e, gs, hb0)
      | (None, hb0) \<Rightarrow>
          (case get_lock (hb_broker hb0) k of
             None \<Rightarrow> (ManyContended k, gs, hb0)
           | Some l \<Rightarrow>
               if max_holders l \<le> length (lockholders l) then (ManyContended k, gs, hb0)
               else (case h_grant_member E ws pid ttl cid k l hb0 of
                       (Inl e, hb1) \<Rightarrow> (ManyThrew e, gs, hb1)
                     | (Inr (u, t), hb1) \<Rightarrow> h_tg_loop E ws pid ttl keep cid ks (gs @ [(k, u, t)]) hb1)))"

definition h_tryGrantAcquireManyFromQueue ::
  "'q ext \<Rightarrow> notify_obj \<Rightarrow> 'q hardened \<Rightarrow> authority_error option \<times> 'q hardened" where
  "h_tryGrantAcquireManyFromQueue E n hb =
     (case n_acquireMany n of
        None \<Rightarrow> (None, hb)
      | Some (ks, cid) \<Rightarrow>
          (case h_tg_loop E (n_ws n) (n_pid n) (n_ttl n) (n_keep n) cid ks [] hb of
             (ManyThrew e, gs, hb1) \<Rightarrow> (Some e, hb1)
           | (ManyContended kc, gs, hb1) \<Rightarrow>
               (None, on_broker (\<lambda>b. with_lock kc (queue_waiter E kc n) (ensure_lock E kc (n_keep n) (rollback_grants gs b))) hb1)
           | (ManyGranted, gs, hb1) \<Rightarrow> (None, on_broker (register_composite (n_ws n) (n_uuid n) cid ks gs) hb1)))"

definition h_grant_waiter ::
  "'q ext \<Rightarrow> string \<Rightarrow> notify_obj \<Rightarrow> 'q lock_obj \<Rightarrow> 'q hardened \<Rightarrow> authority_error option \<times> 'q hardened" where
  "h_grant_waiter E k n l hb =
     (case raise_token l hb of
        (Some e, hb1) \<Rightarrow> (Some e, on_broker (add_ws_key (n_ws n) k) hb1)
      | (None, hb1) \<Rightarrow> (None, on_broker (grant_waiter E k n l) hb1))"

partial_function (option) h_drain ::
  "'q ext \<Rightarrow> string \<Rightarrow> 'q hardened \<Rightarrow> (authority_error option \<times> 'q hardened) option" where
  "h_drain E k hb =
     (let b = hb_broker hb in
      case get_lock b k of
        None \<Rightarrow> Some (None, hb)
      | Some l \<Rightarrow>
          if lq_length E (notify l) = 0 \<or> max_capacity l \<le> length (lockholders l) then Some (None, hb)
          else
            (case next_waiter E (writable b) (notify l) None of
               None \<Rightarrow> None
             | Some (None, q) \<Rightarrow> Some (None, on_broker (set_lock k (l\<lparr>notify := q\<rparr>)) hb)
             | Some (Some n, q) \<Rightarrow>
                 (let l1 = l\<lparr>notify := q\<rparr>; hb1 = on_broker (set_lock k l1) hb
                  in if max_capacity l1 \<le> length (lockholders l1)
                     then Some (None, on_broker (set_lock k (l1\<lparr>notify := lq_enqueue E (n_uuid n) n q\<rparr>)) hb1)
                     else
                       (case (if n_acquireMany n \<noteq> None then h_tryGrantAcquireManyFromQueue E n hb1
                              else h_grant_waiter E k n l1 hb1) of
                          (Some e, hb2) \<Rightarrow> Some (Some e, hb2)
                        | (None, hb2) \<Rightarrow> h_drain E k hb2))))"

declare h_drain.simps [code]

definition super_ensureNewLockHolder ::
  "'q ext \<Rightarrow> string \<Rightarrow> string option \<Rightarrow> 'q hardened \<Rightarrow> (authority_error option \<times> 'q hardened) option" where
  "super_ensureNewLockHolder E k uo hb =
     (let b = hb_broker hb in
      case get_lock b k of
        None \<Rightarrow> Some (None, hb)
      | Some l0 \<Rightarrow>
          (let (l1, b1) = (if truthy_str uo then (remove_holder (prop_name uo) l0, del_deadline (prop_name uo) b)
                           else (l0, b));
               l2 = l1\<lparr>keepLocksAfterDeath := False\<rparr>
           in if lockholders l2 = [] \<and> lq_length E (notify l2) = 0
              then Some (None, hb\<lparr>hb_broker := set_lock k (l2\<lparr>timestampEmptied := Some (now b)\<rparr>) b1\<rparr>)
              else h_drain E k (hb\<lparr>hb_broker := set_lock k l2 b1\<rparr>)))"

definition h_ensureNewLockHolder ::
  "'q ext \<Rightarrow> string \<Rightarrow> string option \<Rightarrow> 'q hardened \<Rightarrow> (authority_error option \<times> 'q hardened) option" where
  "h_ensureNewLockHolder E k uo hb =
     (let warn = (\<lambda>e. on_broker (emit (Warn (AuthorityFailure (error_code e)))))
      in if \<not> hasHeadroom 64 (hb_auth hb) then Some (None, warn Exhausted hb)
         else map_option (guarded warn) (super_ensureNewLockHolder E k uo hb))"

subsection \<open>Statistics\<close>

definition h_buildStatsSnapshot :: "'q ext \<Rightarrow> 'q hardened \<Rightarrow> hardened_stats" where
  "h_buildStatsSnapshot E hb = stats.extend (buildStatsSnapshot E (hb_broker hb))
     \<lparr>st_fencingWatermark = fencingWatermark (hb_auth hb), st_fencingTokenFloor = fencingTokenFloor (hb_auth hb),
      st_maxFencingToken = max_fencing_token, st_durableFencingMode = fencingStatePath (hb_auth hb)\<rparr>"

definition h_getSystemStats :: "'q ext \<Rightarrow> string \<Rightarrow> sock \<Rightarrow> 'q hardened \<Rightarrow> 'q hardened" where
  "h_getSystemStats E u ws hb = on_broker (send ws (HardenedStatsResponse u (h_buildStatsSnapshot E hb))) hb"

definition h_renderPrometheus :: "'q ext \<Rightarrow> string \<Rightarrow> 'q hardened \<Rightarrow> string" where
  "h_renderPrometheus E uptime hb = renderPrometheus uptime (buildStatsSnapshot E (hb_broker hb))
     @ metric ''fencing_watermark'' ''Highest fencing token observed by this broker process.'' ''gauge''
         (show_int (fencingWatermark (hb_auth hb)))
     @ metric ''fencing_token_floor'' ''Restart floor supplied by durable/consensus state.'' ''gauge''
         (show_int (fencingTokenFloor (hb_auth hb)))
     @ metric ''fencing_durable_mode'' ''1 when the broker persists the watermark before grants.'' ''gauge''
         (if fencingStatePath (hb_auth hb) then ''1'' else ''0'')"

end
