(* ===== verification/HardenedRuns.thy ===== *)
theory HardenedRuns
  imports Hardened Requests Demo
begin

text \<open>
  What the hardened handlers guarantee when the authority throws in the middle of them, and what they
  leave behind.
\<close>

subsection \<open>Visits to the authority\<close>

lemma on_broker_simps [simp]:
  "hb_broker (on_broker f hb) = f (hb_broker hb)" "hb_auth (on_broker f hb) = hb_auth hb"
  "hb_faults (on_broker f hb) = hb_faults hb"
  by (simp_all add: on_broker_def)

lemma authority_ok_fault [simp]: "authority_ok (a\<lparr>fail_at := f\<rparr>) = authority_ok a"
  by (simp add: authority_ok_def durable_watermark_def)

lemma with_authority_broker: "with_authority f hb = (x, hb1) \<Longrightarrow> hb_broker hb1 = hb_broker hb"
  by (auto simp: with_authority_def Let_def split: prod.splits)

lemma raise_token_keeps:
  assumes "raise_token l hb = (e, hb1)" and "authority_ok (hb_auth hb)" and "0 \<le> nextFencingToken l"
  shows "hb_broker hb1 = hb_broker hb \<and> authority_ok (hb_auth hb1) \<and>
    fencingWatermark (hb_auth hb) \<le> fencingWatermark (hb_auth hb1) \<and>
    (e = None \<longrightarrow> js_inc (nextFencingToken l) \<le> fencingWatermark (hb_auth hb1))"
proof -
  let ?a = "(hb_auth hb)\<lparr>fail_at := (case hb_faults hb of [] \<Rightarrow> None | e # es \<Rightarrow> e)\<rparr>"
  have r: "set_token (nextFencingToken l) (js_inc (nextFencingToken l)) ?a = (e, hb_auth hb1)"
    using assms(1) by (auto simp: raise_token_def with_authority_def Let_def split: prod.splits)
  show ?thesis
    using set_token_keeps [OF _ assms(3) r] assms(1,2) by (auto simp: raise_token_def dest: with_authority_broker)
qed

lemma h_create_lock_keeps:
  assumes "h_create_lock E k keep mx mr mw hb = (e, hb1)" and "authority_ok (hb_auth hb)"
  shows "authority_ok (hb_auth hb1) \<and> fencingWatermark (hb_auth hb) \<le> fencingWatermark (hb_auth hb1) \<and>
    (e \<noteq> None \<longrightarrow> hb_broker hb1 = hb_broker hb) \<and>
    (e = None \<longrightarrow> (\<exists>s i. fencingWatermark (hb_auth hb) \<le> s \<and> s \<le> fencingWatermark (hb_auth hb1) \<and>
       hb_broker hb1 = set_lock k ((getDefaultLockObject E (hb_broker hb) k keep mx mr mw)\<lparr>nextFencingToken := s\<rparr>)
         ((hb_broker hb)\<lparr>next_lo_id := i\<rparr>)))"
proof -
  let ?a = "(hb_auth hb)\<lparr>fail_at := (case hb_faults hb of [] \<Rightarrow> None | e # es \<Rightarrow> e)\<rparr>"
  obtain r hb2 where w: "with_authority (seed_token (now (hb_broker hb))) hb = (r, hb2)" by (rule prod.exhaust)
  then have "seed_token (now (hb_broker hb)) ?a = (r, hb_auth hb2)"
    by (auto simp: with_authority_def Let_def split: prod.splits)
  then show ?thesis
    using assms seed_token_keeps [of ?a] with_authority_broker [OF w]
    by (fastforce simp: h_create_lock_def w on_broker_def split: sum.splits)
qed

subsection \<open>A lock that the authority refuses\<close>

lemma super_lock_prelude:
  assumes "validateMaxField r = None"
  shows "super_lock E r ws hb =
    (case get_lock (hb_broker hb) (l_key r) of
       Some l \<Rightarrow> h_lock_existing E r ws (lock_ttl E (hb_broker hb) r) (l\<lparr>timestampEmptied := None\<rparr>) (on_broker (lock_prelude E r ws) hb)
     | None \<Rightarrow> h_lock_new E r ws (lock_ttl E (hb_broker hb) r) (on_broker (lock_prelude E r ws) hb))"
  using assms by (auto simp: super_lock_def lock_prelude_def Let_def with_lock_def on_broker_def split: option.split)

lemma prelude_out [simp]: "out (lock_prelude E r ws b) = out b"
  by (simp add: lock_prelude_def count_lock_request_def cleanUpLocks_def ensure_ws_keys_def add_ws_uuid_def
      with_lock_def set_lock_def Let_def split: option.split)

lemma out_keys [simp]: "out (add_ws_key ws k b) = out b" "out (set_lock k l b) = out b"
  by (simp_all add: add_ws_key_def set_lock_def)

lemma holders_keys [simp]: "holders (add_ws_key ws k b) k' = holders b k'"
  by (rule holders_same) (rule locks_same [OF same_add_ws_key])

lemma lockholders_count_reader [simp]: "lockholders (count_reader r l) = lockholders l"
  by (simp add: count_reader_def)

lemma super_lock_throws:
  assumes throws: "super_lock E r ws hb = (Some e, hb1)" and wf: "jsmap_wf (locks (hb_broker hb))"
  shows "holders (hb_broker hb1) k = holders (hb_broker hb) k" and "out (hb_broker hb1) = out (hb_broker hb)"
    and "writable (hb_broker hb1) = writable (hb_broker hb)"
proof -
  let ?b = "hb_broker hb" and ?p = "lock_prelude E r ws (hb_broker hb)"
  have valid: "validateMaxField r = None" using throws by (auto simp: super_lock_def split: option.splits)
  note eq = throws [unfolded super_lock_prelude [OF valid]]
  note pre = holders_prelude [OF wf, of E r ws]
  have "holders (hb_broker hb1) k = holders ?b k \<and> out (hb_broker hb1) = out ?b \<and> writable (hb_broker hb1) = writable ?b"
  proof (cases "get_lock ?b (l_key r)")
    case (Some l)
    define l1 where "l1 = update_limits r (l\<lparr>timestampEmptied := None\<rparr>)"
    have "holders ?p (l_key r) = lockholders l1" using pre [of "l_key r"] Some by (simp add: holders_def l1_def)
    moreover obtain hb2 where "raise_token l1 (on_broker (set_lock (l_key r) l1) (on_broker (lock_prelude E r ws) hb)) = (Some e, hb2)"
      "hb1 = on_broker (\<lambda>b. set_lock (l_key r) (count_reader r l1) (add_ws_key ws (l_key r) b)) hb2"
      using eq Some by (auto simp: h_lock_existing_def h_lock_acquire_def Let_def l1_def [symmetric] split: if_splits prod.splits option.splits)
    moreover from this(1) have "hb_broker hb2 = set_lock (l_key r) l1 ?p"
      by (auto simp: raise_token_def dest: with_authority_broker)
    ultimately show ?thesis using pre by (simp add: holders_set_lock)
  next
    case None
    note pre_k = pre [of "l_key r"]
    obtain mx mr mw c hb2 where c: "h_create_lock E (l_key r) (l_keep r) mx mr mw
        (on_broker (add_ws_key ws (l_key r)) (on_broker (lock_prelude E r ws) hb)) = (c, hb2)"
      "c = Some e \<and> hb1 = hb2 \<or> c = None \<and> (case get_lock (hb_broker hb2) (l_key r) of None \<Rightarrow> (None, hb2)
         | Some l \<Rightarrow> h_lock_acquire E r ws (lock_ttl E ?b r) 0 l hb2) = (Some e, hb1)"
      using eq None by (auto simp: h_lock_new_def Let_def split: prod.splits option.splits)
    show ?thesis
    proof (cases c)
      case (Some x)
      then have "hb_broker hb1 = add_ws_key ws (l_key r) ?p"
        using c by (auto simp: h_create_lock_def Let_def dest!: with_authority_broker split: prod.splits sum.splits)
      then show ?thesis using pre by simp
    next
      case [simp]: None
      obtain s i where b2: "hb_broker hb2 = set_lock (l_key r)
          ((getDefaultLockObject E (add_ws_key ws (l_key r) ?p) (l_key r) (l_keep r) mx mr mw)\<lparr>nextFencingToken := s\<rparr>)
          ((add_ws_key ws (l_key r) ?p)\<lparr>next_lo_id := i\<rparr>)"
        using c(1) by (auto simp: h_create_lock_def Let_def on_broker_def dest!: with_authority_broker split: prod.splits sum.splits)
      define l where "l = (getDefaultLockObject E (add_ws_key ws (l_key r) ?p) (l_key r) (l_keep r) mx mr mw)\<lparr>nextFencingToken := s\<rparr>"
      have l: "lockholders l = []" by (simp add: l_def getDefaultLockObject_def)
      obtain hb3 where "raise_token l hb2 = (Some e, hb3)"
        "hb1 = on_broker (\<lambda>b. set_lock (l_key r) (count_reader r l) (add_ws_key ws (l_key r) b)) hb3"
        using c(2) by (auto simp: b2 l_def [symmetric] h_lock_acquire_def split: prod.splits option.splits)
      moreover from this(1) have "hb_broker hb3 = hb_broker hb2" by (auto simp: raise_token_def dest: with_authority_broker)
      moreover have "holders ?b (l_key r) = []" using \<open>get_lock ?b (l_key r) = None\<close> by (simp add: holders_def)
      moreover have "holders (b\<lparr>next_lo_id := i\<rparr>) k' = holders b k'" for b :: "'a broker" and k'
        by (simp add: holders_def)
      ultimately show ?thesis using pre b2 l by (simp add: holders_set_lock l_def [symmetric])
    qed
  qed
  then show "holders (hb_broker hb1) k = holders (hb_broker hb) k" and "out (hb_broker hb1) = out (hb_broker hb)"
    and "writable (hb_broker hb1) = writable (hb_broker hb)" by blast+
qed

text \<open>C31: A lock in which the authority throws, whether the disk failed while the key's lock object was made or
  while its counter was raised, fails closed: no key changes its holders and no grant is sent. The
  caller is told the code of the error, except for a failure of \<open>mkdirSync\<close>, which is no error of the
  authority: it escapes from the handler and nobody is answered.\<close>

theorem hardened_lock_fails_closed:
  assumes "jsmap_wf (locks (hb_broker hb))" and "writable (hb_broker hb) ws"
    and "hasHeadroom 1 (hb_auth hb)" and "super_lock E r ws hb = (Some e, hb1)"
  shows "\<exists>res hb'. h_lock E r ws hb = (res, hb') \<and> (\<forall>k. holders (hb_broker hb') k = holders (hb_broker hb) k) \<and>
    (if e = FileSystemError then res = Some e \<and> out (hb_broker hb') = out (hb_broker hb)
     else res = None \<and> out (hb_broker hb') = out (hb_broker hb) @
       [Sent ws (LockAuthorityFailure (l_uuid r) (l_key r) (error_code e)), Warn (AuthorityFailure (error_code e))])"
proof -
  note t = super_lock_throws [OF assms(4,1)]
  show ?thesis
    using assms(2,3) t
    by (cases "e = FileSystemError")
      (simp_all add: h_lock_def Let_def assms(4) guarded_def emitAuthorityFailure_def out_send,
       simp add: emit_def holders_def locks_send out_send)
qed

definition demo_disk :: disk where
  "demo_disk = \<lparr>main_file = NoFile, temp_file = NoFile\<rparr>"

definition demo_authority :: authority where
  "demo_authority = \<lparr>fencingTokenFloor = 20, fencingStatePath = True, fencingWatermark = 20, a_disk = demo_disk,
     fail_at = None\<rparr>"

definition demo_hardened :: "bevent list \<Rightarrow> disk_call option list \<Rightarrow> demo_queue hardened" where
  "demo_hardened evs faults = \<lparr>hb_broker = the (run demo evs (init_broker 4000 5)), hb_auth = demo_authority, hb_faults = faults\<rparr>"

theorem hardened_lock_fails_closed_witness:
  "\<exists>hb'. h_lock demo (ask ''b'' ''j'' Undefined) 1 (demo_hardened one_held [None, Some OpenTemp]) = (None, hb') \<and>
    holders (hb_broker hb') ''j'' = [] \<and>
    last (butlast (out (hb_broker hb'))) = Sent 1 (LockAuthorityFailure ''b'' ''j'' FencingTokenPersistenceFailed)"
proof -
  let ?hb = "demo_hardened one_held [None, Some OpenTemp]" and ?r = "ask ''b'' ''j'' Undefined"
  obtain e hb1 where t: "super_lock demo ?r 1 ?hb = (e, hb1)" by (rule prod.exhaust)
  have "fst (super_lock demo ?r 1 ?hb) = Some PersistenceFailed" by code_simp
  then have t: "super_lock demo ?r 1 ?hb = (Some PersistenceFailed, hb1)" using t by simp
  have h: "jsmap_wf (locks (hb_broker ?hb))" "writable (hb_broker ?hb) 1" "hasHeadroom 1 (hb_auth ?hb)"
    "holders (hb_broker ?hb) ''j'' = []"
    by code_simp+
  from hardened_lock_fails_closed [OF h(1-3) t] h(4) show ?thesis by (auto simp: ask_def butlast_append)
qed

subsection \<open>The first token of a key\<close>

lemma no_fault_raise:
  assumes "fail_at a = None" and "fencingWatermark a < w"
  shows "\<exists>a'. raise_watermark w a = (None, a') \<and> fencingWatermark a' = w"
  using assms
  by (simp add: raise_watermark_def persistFencingWatermark_def persistWatermarkAtomically_def disk_calls_def Let_def)

lemma js_inc_below: "n < max_fencing_token \<Longrightarrow> js_inc n = n + 1"
  by (simp add: js_inc_def max_fencing_token_def max_safe_integer_def)

text \<open>On the hardened broker the first token of a new lock object is one more than the clock, the configured
  floor and every token the broker ever granted, whichever is largest; collecting an idle key or
  setting the clock back does not bring an old token again. The watermark is that token.\<close>

lemma hardened_new_key_token:
  assumes valid: "validateMaxField r = None" and free: "get_lock (hb_broker hb) (l_key r) = None"
    and "0 \<le> fencingWatermark (hb_auth hb)" and "hb_faults hb = []" and "hasHeadroom 1 (hb_auth hb)"
    and seed: "seed = max (now (hb_broker hb)) (max (fencingTokenFloor (hb_auth hb)) (fencingWatermark (hb_auth hb)))"
    and "seed < max_fencing_token"
  shows "\<exists>hb'. h_lock E r ws hb = (None, hb') \<and> granted_to r ws (seed + 1) (hb_broker hb') \<and>
    fencingWatermark (hb_auth hb') = seed + 1"
proof -
  let ?b0 = "add_ws_key ws (l_key r) (lock_prelude E r ws (hb_broker hb))"
  obtain mx mr mw where new: "super_lock E r ws hb =
      (case h_create_lock E (l_key r) (l_keep r) mx mr mw (on_broker (add_ws_key ws (l_key r)) (on_broker (lock_prelude E r ws) hb)) of
           (Some e, hb1) \<Rightarrow> (Some e, hb1)
         | (None, hb1) \<Rightarrow>
             (case get_lock (hb_broker hb1) (l_key r) of
                None \<Rightarrow> (None, hb1)
              | Some l \<Rightarrow> h_lock_acquire E r ws (lock_ttl E (hb_broker hb) r) 0 l hb1))"
    using super_lock_prelude [OF valid, of E ws hb] free by (simp add: h_lock_new_def Let_def)
  let ?a = "(hb_auth hb)\<lparr>fail_at := None\<rparr>"
  have "seed_token (now (hb_broker hb)) ?a = (Inr seed, snd (raise_watermark seed ?a))"
    "fst (raise_watermark seed ?a) = None" "fencingWatermark (snd (raise_watermark seed ?a)) = seed"
  proof -
    have "fst (raise_watermark seed ?a) = None \<and> fencingWatermark (snd (raise_watermark seed ?a)) = seed"
      using no_fault_raise [of ?a seed] seed by (cases "fencingWatermark ?a < seed") (auto simp: raise_watermark_def)
    then show "fst (raise_watermark seed ?a) = None" "fencingWatermark (snd (raise_watermark seed ?a)) = seed" by auto
    moreover have "0 \<le> seed" unfolding seed using assms(3) by simp
    then have "\<not> (seed < 0 \<or> max_fencing_token < seed)" using assms(7) by linarith
    ultimately show "seed_token (now (hb_broker hb)) ?a = (Inr seed, snd (raise_watermark seed ?a))"
      by (cases "raise_watermark seed ?a") (simp add: seed_token_def Let_def flip: seed)
  qed
  then obtain a1 where a1: "seed_token (now (hb_broker hb)) ?a = (Inr seed, a1)" "fencingWatermark a1 = seed" by blast
  define l where "l = (getDefaultLockObject E ?b0 (l_key r) (l_keep r) mx mr mw)\<lparr>nextFencingToken := seed\<rparr>"
  define hb1 where "hb1 = \<lparr>hb_broker = set_lock (l_key r) l (?b0\<lparr>next_lo_id := Suc (next_lo_id ?b0)\<rparr>), hb_auth = a1, hb_faults = []\<rparr>"
  have "now ?b0 = now (hb_broker hb)" by simp
  then have c: "h_create_lock E (l_key r) (l_keep r) mx mr mw (on_broker (add_ws_key ws (l_key r)) (on_broker (lock_prelude E r ws) hb)) =
      (None, hb1)"
    using a1 assms(4) by (simp add: h_create_lock_def with_authority_def Let_def hb1_def l_def on_broker_def)
  obtain a2 where a2: "set_token seed (seed + 1) (a1\<lparr>fail_at := None\<rparr>) = (None, a2)" "fencingWatermark a2 = seed + 1"
    using no_fault_raise [of "a1\<lparr>fail_at := None\<rparr>" "seed + 1"] a1(2) assms(7) by (auto simp: set_token_def)
  have "get_lock (hb_broker hb1) (l_key r) = Some l" "nextFencingToken l = seed" by (simp_all add: hb1_def l_def)
  moreover from this(2) have "raise_token l hb1 = (None, hb1\<lparr>hb_auth := a2\<rparr>)"
    using a2(1) js_inc_below [OF assms(7)] by (simp add: raise_token_def with_authority_def Let_def hb1_def)
  ultimately have "super_lock E r ws hb =
      (None, on_broker (lock_acquire E r ws (lock_ttl E (hb_broker hb) r) 0 l) (hb1\<lparr>hb_auth := a2\<rparr>))"
    unfolding new c by (simp add: h_lock_acquire_def)
  moreover have "granted_to r ws (seed + 1) (lock_acquire E r ws (lock_ttl E (hb_broker hb) r) 0 l (hb_broker hb1))"
    using lock_acquire_grants(1) [of "hb_broker hb1" r l ws E] \<open>get_lock (hb_broker hb1) (l_key r) = Some l\<close>
      \<open>nextFencingToken l = seed\<close> js_inc_below [OF assms(7)] by simp
  ultimately show ?thesis
    using a2(2) assms(5) by (simp add: h_lock_def Let_def guarded_def on_broker_def)
qed

lemma hardened_new_key_token_witness:
  "\<exists>hb'. h_lock demo (ask ''b'' ''j'' Undefined) 1 (demo_hardened one_held []) = (None, hb') \<and>
    granted_to (ask ''b'' ''j'' Undefined) 1 21 (hb_broker hb') \<and> fencingWatermark (hb_auth hb') = 21 \<and>
    now (hb_broker (demo_hardened one_held [])) = 5"
proof -
  have h: "validateMaxField (ask ''b'' ''j'' Undefined) = None" "get_lock (hb_broker (demo_hardened one_held [])) (l_key (ask ''b'' ''j'' Undefined)) = None"
    "0 \<le> fencingWatermark (hb_auth (demo_hardened one_held []))" "hb_faults (demo_hardened one_held []) = []"
    "hasHeadroom 1 (hb_auth (demo_hardened one_held []))"
    "20 = max (now (hb_broker (demo_hardened one_held []))) (max (fencingTokenFloor (hb_auth (demo_hardened one_held [])))
       (fencingWatermark (hb_auth (demo_hardened one_held []))))" "(20 :: int) < max_fencing_token" "now (hb_broker (demo_hardened one_held [])) = 5"
    by code_simp+
  from hardened_new_key_token [OF h(1-7)] h(8) show ?thesis by simp
qed

subsection \<open>A composite that fails half-way\<close>

definition composite_member :: "sock \<Rightarrow> string \<Rightarrow> 'q broker \<Rightarrow> string \<times> string \<times> int \<Rightarrow> bool" where
  "composite_member ws cid b g = (case g of (k, u, t) \<Rightarrow>
     \<exists>h. map_of (holders b k) u = Some h \<and> h_ws h = ws \<and> h_fencingToken h = t \<and> h_compositeLockUuid h = Some cid)"

lemma compositeLocks_keys [simp]:
  "compositeLocks (next_uuid b) = compositeLocks b" "compositeLocks (add_ws_key ws k b) = compositeLocks b"
  "compositeLocks (create_lock E k keep mx mr mw b) = compositeLocks b"
  by (simp_all add: next_uuid_def add_ws_key_def create_lock_def)

lemma holders_next_uuid [simp]: "holders (next_uuid b) k = holders b k"
  by (simp add: holders_def next_uuid_def)

lemma writable_next_uuid [simp]: "writable (next_uuid b) = writable b"
  by (simp add: next_uuid_def)

lemma writable_grant_member [simp]: "writable (snd (snd (grant_member E ws pid ttl cid k l b))) = writable b"
  by (simp add: grant_member_def Let_def case_prod_beta)

text \<open>What a visit to a key leaves alone: holders, composites, and who can be written to.\<close>

definition same_holders :: "'q broker \<Rightarrow> 'q broker \<Rightarrow> bool" where
  "same_holders b b' \<longleftrightarrow> (\<forall>k. holders b' k = holders b k) \<and> compositeLocks b' = compositeLocks b \<and> writable b' = writable b"

lemma h_ensure_lock_same: "h_ensure_lock E k keep hb = (e, hb1) \<Longrightarrow> same_holders (hb_broker hb) (hb_broker hb1)"
  by (auto simp: h_ensure_lock_def h_create_lock_def Let_def same_holders_def holders_def getDefaultLockObject_def
      set_lock_def dest!: with_authority_broker split: option.splits prod.splits sum.splits if_splits)

lemma h_grant_member_throws:
  assumes "h_grant_member E ws pid ttl cid k l hb = (Inl e, hb1)" and "get_lock (hb_broker hb) k = Some l"
  shows "same_holders (hb_broker hb) (hb_broker hb1)"
proof -
  obtain hb2 where "raise_token l hb = (Some e, hb2)"
    "hb1 = on_broker (\<lambda>b. set_lock k (l\<lparr>timestampEmptied := None\<rparr>) (next_uuid b)) hb2"
    using assms(1) by (auto simp: h_grant_member_def split: prod.splits option.splits)
  moreover from this(1) have "hb_broker hb2 = hb_broker hb" by (auto simp: raise_token_def dest: with_authority_broker)
  ultimately show ?thesis using assms(2) by (auto simp: same_holders_def holders_set_lock) (simp add: holders_def)
qed

lemma h_grant_member_grants:
  assumes "h_grant_member E ws pid ttl cid k l hb = (Inr (u, t), hb1)" and "get_lock (hb_broker hb) k = Some l"
  shows "composite_member ws cid (hb_broker hb1) (k, u, t)"
    and "k' \<noteq> k \<Longrightarrow> holders (hb_broker hb1) k' = holders (hb_broker hb) k'"
    and "compositeLocks (hb_broker hb1) = compositeLocks (hb_broker hb)" "writable (hb_broker hb1) = writable (hb_broker hb)"
proof -
  obtain hb2 where hb2: "raise_token l hb = (None, hb2)" "grant_member E ws pid ttl cid k l (hb_broker hb2) = (u, t, hb_broker hb1)"
    using assms(1) by (auto simp: h_grant_member_def split: prod.splits option.splits)
  then have b: "grant_member E ws pid ttl cid k l (hb_broker hb) = (u, t, hb_broker hb1)"
    by (auto simp: raise_token_def dest!: with_authority_broker)
  then have b1: "hb_broker hb1 = snd (snd (grant_member E ws pid ttl cid k l (hb_broker hb)))" by simp
  show "compositeLocks (hb_broker hb1) = compositeLocks (hb_broker hb)" "writable (hb_broker hb1) = writable (hb_broker hb)"
    unfolding b1 by simp_all
  show "holders (hb_broker hb1) k' = holders (hb_broker hb) k'" if "k' \<noteq> k"
    unfolding b1 holders_def get_lock_grant_member [OF that] ..
  show "composite_member ws cid (hb_broker hb1) (k, u, t)"
  proof -
    have "u = fresh_uuid E (hb_broker hb)" "t = js_inc (nextFencingToken l)"
      using b by (auto simp: grant_member_def Let_def install_holder_def split: prod.splits)
    then show ?thesis
      by (simp add: b1 composite_member_def grant_member_def Let_def case_prod_beta holders_def install_holder_def
          locks_same [OF same_add_ws_key])
  qed
qed

lemma composite_member_other:
  "composite_member ws cid b g \<Longrightarrow> holders b' (fst g) = holders b (fst g) \<Longrightarrow> composite_member ws cid b' g"
  by (cases g) (simp add: composite_member_def)

lemma composite_member_same: "composite_member ws cid b g \<Longrightarrow> same_holders b b' \<Longrightarrow> composite_member ws cid b' g"
  by (cases g) (simp add: composite_member_def same_holders_def)

lemma h_am_loop_members:
  assumes "h_am_loop E ws pid ttl keep cid ks gs hb = (res, gs', hb')" and "distinct ks" and "fst ` set gs \<inter> set ks = {}"
    and "\<forall>g \<in> set gs. composite_member ws cid (hb_broker hb) g"
  shows "(\<forall>g \<in> set gs'. composite_member ws cid (hb_broker hb') g) \<and>
    compositeLocks (hb_broker hb') = compositeLocks (hb_broker hb) \<and> writable (hb_broker hb') = writable (hb_broker hb)"
  using assms
proof (induction ks arbitrary: gs hb)
  case (Cons k ks)
  show ?case
  proof (cases "contended (hb_broker hb) k")
    case True
    then show ?thesis using Cons.prems by simp
  next
    case False
    obtain e hb0 where e: "h_ensure_lock E k keep hb = (e, hb0)" by (rule prod.exhaust)
    note same = h_ensure_lock_same [OF e]
    have gs0: "\<forall>g \<in> set gs. composite_member ws cid (hb_broker hb0) g"
      using Cons.prems(4) composite_member_same [OF _ same] by blast
    have frame: "compositeLocks (hb_broker hb0) = compositeLocks (hb_broker hb)" "writable (hb_broker hb0) = writable (hb_broker hb)"
      using same by (simp_all add: same_holders_def)
    show ?thesis
    proof (cases "e = None \<and> get_lock (hb_broker hb0) k \<noteq> None")
      case False
      then show ?thesis
        using Cons.prems(1) \<open>\<not> contended (hb_broker hb) k\<close> e gs0 frame
        by (auto simp: composite_member_def holders_def next_uuid_def split: option.splits)
    next
      case True
      then obtain l where l: "e = None" "get_lock (hb_broker hb0) k = Some l" by auto
      obtain x hb1 where m: "h_grant_member E ws pid ttl cid k l hb0 = (x, hb1)" by (rule prod.exhaust)
      show ?thesis
      proof (cases x)
        case (Inl err)
        then have "res = ManyThrew err" "gs' = gs" "hb' = hb1"
          using Cons.prems(1) \<open>\<not> contended (hb_broker hb) k\<close> e l m by simp_all
        moreover have same1: "same_holders (hb_broker hb0) (hb_broker hb1)"
          by (rule h_grant_member_throws [OF m [unfolded Inl] l(2)])
        moreover have "\<forall>g \<in> set gs. composite_member ws cid (hb_broker hb1) g"
          using gs0 composite_member_same [OF _ same1] by blast
        moreover have "compositeLocks (hb_broker hb1) = compositeLocks (hb_broker hb)" "writable (hb_broker hb1) = writable (hb_broker hb)"
          using same1 frame by (simp_all add: same_holders_def)
        ultimately show ?thesis by simp
      next
        case (Inr p)
        obtain u t where p: "p = (u, t)" by (rule prod.exhaust)
        note G = h_grant_member_grants [OF m [unfolded Inr p] l(2)]
        have "\<forall>g \<in> set (gs @ [(k, u, t)]). composite_member ws cid (hb_broker hb1) g"
        proof
          fix g
          assume "g \<in> set (gs @ [(k, u, t)])"
          then consider "g = (k, u, t)" | "g \<in> set gs" by auto
          then show "composite_member ws cid (hb_broker hb1) g"
          proof cases
            case 2
            then have "fst g \<noteq> k" using Cons.prems(3) by auto
            from composite_member_other [OF bspec [OF gs0 2] G(2) [OF this]] show ?thesis .
          qed (simp add: G(1))
        qed
        moreover have "h_am_loop E ws pid ttl keep cid ks (gs @ [(k, u, t)]) hb1 = (res, gs', hb')"
          using Cons.prems(1) \<open>\<not> contended (hb_broker hb) k\<close> e l m Inr p by simp
        moreover have "fst ` set (gs @ [(k, u, t)]) \<inter> set ks = {}" "distinct ks" using Cons.prems(2,3) by auto
        ultimately show ?thesis using Cons.IH [of "gs @ [(k, u, t)]" hb1] G(3,4) frame by simp
      qed
    qed
  qed
qed simp

text \<open>When the authority throws while the members of an acquire-many are granted one after the other, the
  caller is told that nothing was acquired, but the members granted before stay held: they are
  holders of their keys under a composite that was never recorded, so that no release-many can name
  them, until their deadline (which they do not have when the \<open>ttl\<close> was \<open>null\<close>).\<close>

lemma failed_many_keeps_members:
  assumes keys: "a_keys r = Some raw" "check_keys (Some raw) = Inr keys" and "hasHeadroom (required_tokens (Some raw)) (hb_auth hb)"
    and cid: "cid = fresh_uuid E (hb_broker hb)"
    and loop: "h_am_loop E ws (a_pid r) (many_ttl (hb_broker hb) (a_ttl r)) (a_keep r) cid keys [] (on_broker next_uuid hb) =
      (ManyThrew e, gs, hb1)"
    and "e \<noteq> FileSystemError" and "writable (hb_broker hb) ws"
  shows "\<exists>hb'. h_acquireMany E r ws hb = (None, hb') \<and>
    last (butlast (out (hb_broker hb'))) = Sent ws (AcquireManyAuthorityFailure (a_uuid r) raw (error_code e)) \<and>
    (\<forall>g \<in> set gs. composite_member ws cid (hb_broker hb') g) \<and>
    compositeLocks (hb_broker hb') = compositeLocks (hb_broker hb)"
proof -
  have "distinct keys" using check_keys_accepts [OF keys(2)] by simp
  from h_am_loop_members [OF loop this] have k: "\<forall>g \<in> set gs. composite_member ws cid (hb_broker hb1) g"
    "compositeLocks (hb_broker hb1) = compositeLocks (hb_broker hb)" "writable (hb_broker hb1) ws"
    using assms(7) by simp_all
  let ?hb' = "emitAuthorityFailure ws (AcquireManyAuthorityFailure (a_uuid r) raw (error_code e)) e hb1"
  have "h_acquireMany E r ws hb = (None, ?hb')"
    using assms(3,6) loop cid by (simp add: h_acquireMany_def Let_def keys super_acquireMany_def guarded_def)
  moreover have "locks (hb_broker ?hb') = locks (hb_broker hb1)" "compositeLocks (hb_broker ?hb') = compositeLocks (hb_broker hb1)"
    by (simp_all add: emitAuthorityFailure_def emit_def locks_send)
  moreover have "out (hb_broker ?hb') = out (hb_broker hb1) @
      [Sent ws (AcquireManyAuthorityFailure (a_uuid r) raw (error_code e)), Warn (AuthorityFailure (error_code e))]"
    using k(3) by (simp add: emitAuthorityFailure_def emit_def out_send)
  ultimately show ?thesis
    using k(1,2) composite_member_other holders_same by (intro exI [of _ ?hb']) (simp add: butlast_append, blast)
qed

lemma failed_many_keeps_members_witness:
  "\<exists>hb' u. h_acquireMany demo ((ask_many ''m'' [''c'', ''d''])\<lparr>a_ttl := TtlNull\<rparr>) 1 (demo_hardened one_held [None, None, None, Some OpenTemp]) = (None, hb') \<and>
    map_of (holders (hb_broker hb') ''c'') u \<noteq> None \<and> compositeLocks (hb_broker hb') = []"
proof -
  let ?hb = "demo_hardened one_held [None, None, None, Some OpenTemp]" and ?r = "(ask_many ''m'' [''c'', ''d''])\<lparr>a_ttl := TtlNull\<rparr>"
  let ?loop = "h_am_loop demo 1 1 Infinity False (fresh_uuid demo (hb_broker ?hb)) [''c'', ''d''] [] (on_broker next_uuid ?hb)"
  obtain res gs hb1 where loop: "?loop = (res, gs, hb1)" by (rule prod_cases3)
  have "fst ?loop = ManyThrew PersistenceFailed" "map fst (fst (snd ?loop)) = [''c'']" by code_simp+
  then have l: "?loop = (ManyThrew PersistenceFailed, gs, hb1)" "map fst gs = [''c'']" using loop by simp_all
  then obtain u t where gs: "gs = [(''c'', u, t)]" by (cases gs) auto
  have h: "check_keys (Some [String ''c'', String ''d'']) = Inr [''c'', ''d'']"
    "hasHeadroom (required_tokens (Some [String ''c'', String ''d''])) (hb_auth ?hb)" "writable (hb_broker ?hb) 1"
    "compositeLocks (hb_broker ?hb) = []"
    by code_simp+
  have r: "a_keys ?r = Some [String ''c'', String ''d'']" "many_ttl (hb_broker ?hb) (a_ttl ?r) = Infinity" "a_pid ?r = 1" "a_keep ?r = False"
    by (simp_all add: ask_many_def many_ttl_def)
  from failed_many_keeps_members [OF r(1) h(1,2) refl _ _ h(3), unfolded r(2-4), OF l(1)] h(4)
  show ?thesis by (auto simp: gs composite_member_def)
qed

subsection \<open>A waiter that is lost\<close>

text \<open>When the authority throws for the waiter whose turn it is, the handler that released the key goes on as if
  nothing had happened: the waiter is out of the queue, it is no holder, nothing is written to it, and
  only a warning says so.\<close>

lemma drain_loses_waiter:
  assumes "linked_queue E contents" and l: "get_lock (hb_broker hb) k = Some l" "contents (notify l) = (u, n) # ps"
    and n: "writable (hb_broker hb) (n_ws n)" "n_acquireMany n = None"
    and free: "v \<noteq> []" "length (AList.delete v (lockholders l)) < max_capacity l"
    and "hasHeadroom 64 (hb_auth hb)"
    and throws: "raise_token l hb = (Some e, hb2)" and "e \<noteq> FileSystemError"
  shows "\<exists>hb' l'. h_ensureNewLockHolder E k (Some v) hb = Some (None, hb') \<and>
    out (hb_broker hb') = out (hb_broker hb) @ [Warn (AuthorityFailure (error_code e))] \<and>
    get_lock (hb_broker hb') k = Some l' \<and> lockholders l' = AList.delete v (lockholders l) \<and> contents (notify l') = ps"
proof -
  let ?b = "hb_broker hb"
  define l1 where "l1 = (remove_holder v l)\<lparr>keepLocksAfterDeath := False\<rparr>"
  define hb0 where "hb0 = hb\<lparr>hb_broker := set_lock k l1 (del_deadline v ?b)\<rparr>"
  have l1: "notify l1 = notify l" "lockholders l1 = AList.delete v (lockholders l)" "nextFencingToken l1 = nextFencingToken l"
    "max_capacity l1 = max_capacity l" "get_lock (hb_broker hb0) k = Some l1" "writable (hb_broker hb0) = writable ?b"
    by (simp_all add: l1_def hb0_def remove_holder_def max_capacity_def)
  obtain q where q: "next_waiter E (writable ?b) (notify l1) None = Some (Some n, q)" "contents q = ps"
    using waiter_queue.next_waiter_spec [OF waiter_queueI [OF assms(1)], of "writable ?b" "notify l1" None] l(2) n(1)
    by (auto simp: l1(1) picked_def reachable_waiters_def)
  let ?hb1 = "on_broker (set_lock k (l1\<lparr>notify := q\<rparr>)) hb0"
  have len: "lq_length E (notify l1) \<noteq> 0"
    using l(2) by (simp add: l1(1) linked_queue.length_contents [OF assms(1)])
  have cap: "\<not> max_capacity l1 \<le> length (lockholders l1)" "\<not> max_capacity (l1\<lparr>notify := q\<rparr>) \<le> length (lockholders (l1\<lparr>notify := q\<rparr>))"
    using free(2) by (simp_all add: l1(2,4))
  have g: "h_grant_waiter E k n (l1\<lparr>notify := q\<rparr>) ?hb1 =
      (Some e, on_broker (add_ws_key (n_ws n) k) (hb2\<lparr>hb_broker := set_lock k (l1\<lparr>notify := q\<rparr>) (hb_broker hb0)\<rparr>))"
    using throws by (auto simp: h_grant_waiter_def raise_token_def with_authority_def Let_def l1(3) hb0_def on_broker_def
        split: prod.splits)
  have "h_drain E k hb0 = Some (Some e, on_broker (add_ws_key (n_ws n) k) (hb2\<lparr>hb_broker := set_lock k (l1\<lparr>notify := q\<rparr>) (hb_broker hb0)\<rparr>))"
    unfolding h_drain.simps [of E k hb0] using l1(5,6) len cap q n(2) g by (simp add: Let_def)
  then have "super_ensureNewLockHolder E k (Some v) hb =
      Some (Some e, on_broker (add_ws_key (n_ws n) k) (hb2\<lparr>hb_broker := set_lock k (l1\<lparr>notify := q\<rparr>) (hb_broker hb0)\<rparr>))"
    using l(1) free(1) len l1(1) by (simp add: super_ensureNewLockHolder_def Let_def l1_def [symmetric] hb0_def [symmetric])
  then show ?thesis
    using assms(8,10) q(2) l1(2)
    by (auto simp: h_ensureNewLockHolder_def Let_def guarded_def emit_def locks_same [OF same_add_ws_key] hb0_def del_deadline_def)
qed

definition demo_waiting :: "demo_queue hardened" where
  "demo_waiting = (snd (h_lock demo (ask ''b'' ''k'' Undefined) 2 (snd (h_lock demo (ask ''a'' ''k'' Undefined) 1
     (demo_hardened (join 1 @ join 2) [])))))\<lparr>hb_faults := [Some OpenTemp]\<rparr>"

lemma drain_loses_waiter_witness:
  "\<exists>hb' l'. h_ensureNewLockHolder demo ''k'' (Some ''a'') demo_waiting = Some (None, hb') \<and>
    get_lock (hb_broker hb') ''k'' = Some l' \<and> lockholders l' = [] \<and> notify l' = []"
proof -
  define l where "l = (the (get_lock (hb_broker demo_waiting) ''k''))"
  define n where "n = snd (hd (notify l))"
  have l: "get_lock (hb_broker demo_waiting) ''k'' \<noteq> None" "map fst (notify l) = [''b'']" "writable (hb_broker demo_waiting) (n_ws n)"
    "n_acquireMany n = None" "length (AList.delete ''a'' (lockholders l)) < max_capacity l" "hasHeadroom 64 (hb_auth demo_waiting)"
    "AList.delete ''a'' (lockholders l) = []"
    unfolding l_def n_def by code_simp+
  have k: "get_lock (hb_broker demo_waiting) ''k'' = Some l" "notify l = [(''b'', n)]" using l(1,2) by (auto simp: l_def n_def)
  obtain e hb2 where "raise_token l demo_waiting = (e, hb2)" by (rule prod.exhaust)
  moreover have "fst (raise_token (the (get_lock (hb_broker demo_waiting) ''k'')) demo_waiting) = Some PersistenceFailed" by code_simp
  ultimately have t: "raise_token l demo_waiting = (Some PersistenceFailed, hb2)" by (simp add: l_def)
  have "''a'' \<noteq> []" "PersistenceFailed \<noteq> FileSystemError" by simp_all
  from drain_loses_waiter [OF demo_queue k l(3,4) this(1) l(5,6) t this(2)] l(7) show ?thesis by auto
qed

end
