(* ===== verification/HardenedStep.thy ===== *)
theory HardenedStep
  imports Hardened
begin

text \<open>
  The hardened broker as a state machine. The base handlers that reach the authority only through
  \<open>ensureNewLockHolder\<close> or \<open>getDefaultLockObject\<close> are the base broker's with the override in its place.

  An exception that is no error of the authority escapes: it ends the handler where it was thrown, and
  the listener for \<open>uncaughtException\<close> that \<open>broker-1.ts\<close> installs lets the process go on. The result
  of a handler is \<open>None\<close> when it never returns, and otherwise the exception that escaped, if any, with
  the state it leaves.
\<close>

type_synonym 'q handled = "(authority_error option \<times> 'q hardened) option"

definition returns :: "'q hardened \<Rightarrow> 'q handled" where
  "returns hb = Some (None, hb)"

definition then_do :: "'q handled \<Rightarrow> ('q hardened \<Rightarrow> 'q handled) \<Rightarrow> 'q handled" where
  "then_do m f =
     (case m of
        None \<Rightarrow> None
      | Some (Some e, hb) \<Rightarrow> Some (Some e, hb)
      | Some (None, hb) \<Rightarrow> f hb)"

definition with_broker :: "'q hardened \<Rightarrow> 'q broker \<Rightarrow> 'q hardened" where
  "with_broker hb b = hb\<lparr>hb_broker := b\<rparr>"

subsection \<open>Releasing\<close>

definition h_unlock_matching ::
  "'q ext \<Rightarrow> unlock_req \<Rightarrow> sock option \<Rightarrow> 'q lock_obj \<Rightarrow> 'q hardened \<Rightarrow> 'q handled" where
  "h_unlock_matching E r wo l hb =
     (let b = hb_broker hb; k = u_key r; ln = lq_length E (notify l);
          wasHolder = is_holder (u__uuid r) l;
          b1 = (if wasHolder then release_own k (prop_name (u__uuid r)) l b else b);
          release = (\<lambda>b. h_ensureNewLockHolder E k (u__uuid r)
                        (with_broker hb (reply_unlock wo r (\<lambda>u. UnlockReply u k ln True None) b)))
      in if u_force r \<and> \<not> truthy_str (u__uuid r) then release (release_all k l b1)
         else if u_force r \<and> \<not> wasHolder
         then returns (with_broker hb (reply_unlock wo r (\<lambda>u. UnlockReply u k ln False
                      (Some (ForceUnlockNoHolder (prop_name (u__uuid r)) k (max_holders l)))) b1))
         else release b1)"

definition h_unlock_mismatch ::
  "'q ext \<Rightarrow> unlock_req \<Rightarrow> sock option \<Rightarrow> 'q lock_obj \<Rightarrow> 'q hardened \<Rightarrow> 'q handled" where
  "h_unlock_mismatch E r wo l hb =
     (let k = u_key r; ln = lq_length E (notify l); p = prop_name (u__uuid r)
      in if hash_has (lockholderTimeouts l) p \<or> hash_has (lockholdersAllReleased l) p
         then
           (let l1 = l\<lparr>lockholderTimeouts := lockholderTimeouts l - {p},
                      lockholdersAllReleased := lockholdersAllReleased l - {p}\<rparr>
            in h_ensureNewLockHolder E k (u__uuid r) (with_broker hb
                 (reply_unlock wo r (\<lambda>u. UnlockReply u k ln True None) (set_lock k l1 (hb_broker hb)))))
         else returns (on_broker (\<lambda>b.
            if truthy_str (u_uuid r) \<and> wo \<noteq> None
            then reply_unlock wo r (\<lambda>u. UnlockReply u k ln False (Some WrongUuid)) b
            else if truthy_str (u_uuid r) then emit (Warn MissingWs) b
            else if wo \<noteq> None then emit (Warn MissingUuid) b
            else emit (Warn MissingBoth) b) hb))"

definition h_unlock :: "'q ext \<Rightarrow> unlock_req \<Rightarrow> sock option \<Rightarrow> 'q hardened \<Rightarrow> 'q handled" where
  "h_unlock E r wo hb =
     (let hb0 = on_broker (forget_ownership wo r) hb
      in case get_lock (hb_broker hb) (u_key r) of
           None \<Rightarrow> returns (on_broker (unlock_no_lock r wo) hb0)
         | Some l \<Rightarrow>
             if is_holder (u__uuid r) l \<or> u_force r then h_unlock_matching E r wo l hb0
             else h_unlock_mismatch E r wo l hb0)"

definition h_release_member :: "'q ext \<Rightarrow> composite \<Rightarrow> string \<Rightarrow> 'q hardened \<Rightarrow> 'q handled" where
  "h_release_member E c k hb =
     (case map_of (c_holderUuids c) k of
        None \<Rightarrow> returns hb
      | Some u \<Rightarrow>
          if u = [] then returns hb
          else (case get_lock (hb_broker hb) k of
                  None \<Rightarrow> returns hb
                | Some l \<Rightarrow>
                    (let l1 = remove_holder u l;
                         l2 = (if map_of (lockholders l) u \<noteq> None
                               then l1\<lparr>lockholdersAllReleased := insert u (lockholdersAllReleased l1)\<rparr>
                               else l1)
                     in h_ensureNewLockHolder E k (Some u) (on_broker (\<lambda>b. set_lock k l2 (del_deadline u b)) hb))))"

fun h_release_members :: "'q ext \<Rightarrow> composite \<Rightarrow> string list \<Rightarrow> 'q hardened \<Rightarrow> 'q handled" where
  "h_release_members E c [] hb = returns hb"
| "h_release_members E c (k # ks) hb = then_do (h_release_member E c k hb) (h_release_members E c ks)"

definition h_releaseMany :: "'q ext \<Rightarrow> release_many_req \<Rightarrow> sock \<Rightarrow> 'q hardened \<Rightarrow> 'q handled" where
  "h_releaseMany E r ws hb =
     (case (if truthy_str (r_lockUuid r) then map_of (compositeLocks (hb_broker hb)) (prop_name (r_lockUuid r))
            else None) of
        None \<Rightarrow> returns (on_broker (send ws (ReleaseManyFailed (r_uuid r)
                  (if truthy_str (r_lockUuid r) then UnknownComposite (prop_name (r_lockUuid r))
                   else LockUuidRequired))) hb)
      | Some c \<Rightarrow>
          then_do (h_release_members E c (c_keys c) hb)
            (\<lambda>hb1. returns (on_broker (\<lambda>b1. send ws (ReleaseManyDone (r_uuid r) (prop_name (r_lockUuid r)) (c_keys c))
                     (b1\<lparr>compositeLocks := AList.delete (prop_name (r_lockUuid r)) (compositeLocks b1)\<rparr>)) hb1)))"

subsection \<open>The sweeper\<close>

definition h_evict_one :: "'q ext \<Rightarrow> string \<Rightarrow> string \<Rightarrow> 'q hardened \<Rightarrow> 'q handled" where
  "h_evict_one E k u hb =
     (let b1 = del_deadline u (hb_broker hb)
      in case get_lock b1 k of
           None \<Rightarrow> returns (with_broker hb b1)
         | Some l \<Rightarrow>
             (case map_of (lockholders l) u of
                None \<Rightarrow> returns (with_broker hb b1)
              | Some h \<Rightarrow>
                  (let l1 = (remove_holder u l)
                              \<lparr>lockholderTimeouts := insert u (lockholderTimeouts l)\<rparr>;
                       b2 = (set_lock k l1 b1)\<lparr>ttlEvictionsTotal := Suc (ttlEvictionsTotal b1)\<rparr>
                   in h_ensureNewLockHolder E k (Some u) (with_broker hb (emit (Warn (TtlEvicted u k)) b2)))))"

fun h_evict_all :: "'q ext \<Rightarrow> (string \<times> string) list \<Rightarrow> 'q hardened \<Rightarrow> 'q handled" where
  "h_evict_all E [] hb = returns hb"
| "h_evict_all E ((k, u) # es) hb = then_do (h_evict_one E k u hb) (h_evict_all E es)"

definition h_tickTtl :: "'q ext \<Rightarrow> int \<Rightarrow> 'q hardened \<Rightarrow> 'q handled" where
  "h_tickTtl E t hb = h_evict_all E (expired_holds t (hb_broker hb)) hb"

text \<open>The timer's callback catches what a pass throws.\<close>

definition h_sweep :: "'q ext \<Rightarrow> 'q hardened \<Rightarrow> 'q handled" where
  "h_sweep E hb =
     (case h_tickTtl E (now (hb_broker hb)) hb of
        Some (Some e, hb1) \<Rightarrow> returns (on_broker (emit (Warn SweeperThrew)) hb1)
      | res \<Rightarrow> res)"

subsection \<open>Readers and writers\<close>

text \<open>A probe first makes sure that the key has a lock object.\<close>

definition h_probe ::
  "('q ext \<Rightarrow> key_req \<Rightarrow> sock \<Rightarrow> 'q broker \<Rightarrow> 'q broker) \<Rightarrow> 'q ext \<Rightarrow> key_req \<Rightarrow> sock \<Rightarrow> 'q hardened \<Rightarrow> 'q handled" where
  "h_probe f E r ws hb =
     (case h_ensure_lock E (k_key r) False hb of
        (Some e, hb1) \<Rightarrow> Some (Some e, hb1)
      | (None, hb1) \<Rightarrow> returns (on_broker (f E r ws) hb1))"

subsection \<open>Connections\<close>

fun h_force_unlock_each :: "'q ext \<Rightarrow> sock \<Rightarrow> string \<Rightarrow> string list \<Rightarrow> 'q hardened \<Rightarrow> 'q handled" where
  "h_force_unlock_each E ws k [] hb = returns hb"
| "h_force_unlock_each E ws k (u # us) hb =
     then_do (h_unlock E (force_unlock_req k u) (Some ws) hb) (h_force_unlock_each E ws k us)"

definition h_cleanup_key :: "'q ext \<Rightarrow> sock \<Rightarrow> string list \<Rightarrow> string \<Rightarrow> 'q hardened \<Rightarrow> 'q handled" where
  "h_cleanup_key E ws uuids k hb =
     (case get_lock (hb_broker hb) k of
        None \<Rightarrow> returns hb
      | Some l \<Rightarrow>
          (let mine = own_holds ws l;
               hb2 = on_broker (\<lambda>b. fold del_deadline mine
                       (set_lock k (l\<lparr>notify := fold (lq_remove E) uuids (notify l)\<rparr>) b)) hb
           in if mine = [] then returns hb2
              else if isViaShell l \<and> keepLocksAfterDeath l then returns hb2
              else h_force_unlock_each E ws k mine hb2))"

partial_function (option) h_cleanup_locks :: "'q ext \<Rightarrow> sock \<Rightarrow> string list \<Rightarrow> nat \<Rightarrow> 'q hardened \<Rightarrow> 'q handled" where
  "h_cleanup_locks E ws uuids i hb =
     (if length (locks (hb_broker hb)) \<le> i then returns hb
      else (case h_cleanup_key E ws uuids (fst (locks (hb_broker hb) ! i)) hb of
              None \<Rightarrow> None
            | Some (Some e, hb1) \<Rightarrow> Some (Some e, hb1)
            | Some (None, hb1) \<Rightarrow> h_cleanup_locks E ws uuids (Suc i) hb1))"

declare h_cleanup_locks.simps [code]

definition h_cleanupConnection :: "'q ext \<Rightarrow> sock \<Rightarrow> 'q hardened \<Rightarrow> 'q handled" where
  "h_cleanupConnection E ws hb =
     (let b = hb_broker hb in
      if lmxClosed b ws then returns hb
      else
        (let ks = (case wsToKeys b ws of None \<Rightarrow> [] | Some ks \<Rightarrow> ks);
             us = (case wsToUUIDs b ws of None \<Rightarrow> [] | Some us \<Rightarrow> us);
             b1 = b\<lparr>lmxClosed := (lmxClosed b)(ws := True),
                    connectedClients := removeAll ws (connectedClients b),
                    wsToKeys := (wsToKeys b)(ws := None),
                    wsToUUIDs := (wsToUUIDs b)(ws := None)\<rparr>
         in h_cleanup_locks E ws us 0 (with_broker hb (fold clear_reelection ks b1))))"

definition h_on_socket_end :: "'q ext \<Rightarrow> sock \<Rightarrow> 'q hardened \<Rightarrow> 'q handled" where
  "h_on_socket_end E ws hb =
     then_do (h_cleanupConnection E ws hb) (\<lambda>hb1. returns (on_broker (destroy_socket ws) hb1))"

definition h_onVersion :: "'q ext \<Rightarrow> jsval \<Rightarrow> sock \<Rightarrow> 'q hardened \<Rightarrow> 'q handled" where
  "h_onVersion E v ws hb =
     (case compareVersions v (brokerVersion E) of
        Inr _ \<Rightarrow> returns hb
      | Inl _ \<Rightarrow>
          then_do (h_cleanupConnection E ws hb) (\<lambda>hb1. returns (on_broker (\<lambda>b1.
            if errorListener b1
            then (let b2 = send ws (VersionMismatch v (brokerVersion E)) b1
                  in b2\<lparr>destroyTimeout := (destroyTimeout b2)(ws := True)\<rparr>)
            else emit (Warn UncaughtError) b1) hb1)))"

definition h_lockRejected :: "'q ext \<Rightarrow> key_req \<Rightarrow> string option \<Rightarrow> 'q hardened \<Rightarrow> 'q handled" where
  "h_lockRejected E r uo hb =
     (case get_lock (hb_broker hb) (k_key r) of
        None \<Rightarrow> returns (on_broker (emit (Warn (ProbablyExpired (k_key r)))) hb)
      | Some l \<Rightarrow> h_ensureNewLockHolder E (k_key r) uo
                   (on_broker (\<lambda>b. b\<lparr>rejected := insert (k_uuid r) (rejected b)\<rparr>) hb))"

subsection \<open>Dispatch\<close>

fun h_dispatchRequest :: "'q ext \<Rightarrow> LMXRequest \<Rightarrow> sock \<Rightarrow> 'q hardened \<Rightarrow> 'q handled" where
  "h_dispatchRequest E (VersionReq v) ws hb = h_onVersion E v ws hb"
| "h_dispatchRequest E SimulateVersionMismatchReq ws hb = h_onVersion E simulated_version ws hb"
| "h_dispatchRequest E (UnlockReq r) ws hb = h_unlock E r (Some ws) hb"
| "h_dispatchRequest E (LockReq r) ws hb = Some (h_lock E r ws hb)"
| "h_dispatchRequest E (AcquireManyReq r) ws hb = Some (h_acquireMany E r ws hb)"
| "h_dispatchRequest E (ReleaseManyReq r) ws hb = h_releaseMany E r ws hb"
| "h_dispatchRequest E (IncrementReadersReq r) ws hb = h_probe incrementReaders E r ws hb"
| "h_dispatchRequest E (DecrementReadersReq r) ws hb = h_probe decrementReaders E r ws hb"
| "h_dispatchRequest E (RegisterWriteFlagCheckReq r) ws hb = h_probe registerWriteFlagCheck E r ws hb"
| "h_dispatchRequest E (RegisterWriteFlagCheckQueuedReq r) ws hb = h_probe registerWriteFlagCheck E r ws hb"
| "h_dispatchRequest E (RegisterWriteFlagAndReadersCheckReq r) ws hb =
     h_probe registerWriteFlagAndReadersCheck E r ws hb"
| "h_dispatchRequest E (SetWriteFlagFalseAndBroadcastReq r) ws hb =
     h_probe setWriteFlagToFalseAndBroadcast E r ws hb"
| "h_dispatchRequest E (LockReceivedRejectedReq r uo) ws hb = h_lockRejected E r uo hb"
| "h_dispatchRequest E (SystemStatsRequestReq u) ws hb = returns (h_getSystemStats E u ws hb)"
| "h_dispatchRequest E r ws hb =
     map_option (\<lambda>b. (None, with_broker hb b)) (dispatchRequest E r ws (hb_broker hb))"

definition h_onData :: "'q ext \<Rightarrow> frame \<Rightarrow> sock \<Rightarrow> 'q hardened \<Rightarrow> 'q handled" where
  "h_onData E f ws hb =
     (if f = Request VersionMismatchConfirmedReq
      then returns (on_broker (\<lambda>b. destroy_socket ws (b\<lparr>destroyTimeout := (destroyTimeout b)(ws := False)\<rparr>)) hb)
      else if lmxClosed (hb_broker hb) ws then returns hb
      else (case f of
              InspectCommand c \<Rightarrow> returns (on_broker (inspect c ws) hb)
            | OtherFrame t \<Rightarrow>
                returns (on_broker (\<lambda>b. send ws (ErrorReply (UnknownType t)) (emit (Warn BadData) b)) hb)
            | Request r \<Rightarrow> h_dispatchRequest E (normalise_request r) ws hb))"

fun h_handle :: "'q ext \<Rightarrow> bevent \<Rightarrow> 'q hardened \<Rightarrow> 'q handled" where
  "h_handle E (Frame f ws) hb = h_onData E f ws hb"
| "h_handle E (SocketEnd ws) hb = h_on_socket_end E ws hb"
| "h_handle E SweepTick hb = h_sweep E hb"
| "h_handle E ev hb = map_option (\<lambda>b. (None, with_broker hb b)) (handle E ev (hb_broker hb))"

subsection \<open>Steps and restarts\<close>

text \<open>
  What happens to a hardened broker: an event is handled to its end, system calls are about to fail, or
  the process dies, possibly after \<open>n\<close> of the calls that write the watermark \<open>v\<close>, and a new one with
  another clock opens the state file. A file it cannot read keeps it from starting, which is no step.
  The history of what was sent and minted, and the numbers that stand for identities, go on.
\<close>

datatype hevent =
    BrokerEvent bevent
  | Faults "disk_call option list"
  | Restarted nat int int int       \<comment> \<open>\<open>n\<close>, \<open>v\<close>, \<open>lockExpiresAfter\<close>, the clock\<close>

definition reborn :: "int \<Rightarrow> int \<Rightarrow> 'q broker \<Rightarrow> 'q broker" where
  "reborn x t b = (init_broker x t)\<lparr>out := out b, next_lo_id := next_lo_id b, uuid_ctr := uuid_ctr b\<rparr>"

definition h_restart :: "string option \<Rightarrow> nat \<Rightarrow> int \<Rightarrow> int \<Rightarrow> int \<Rightarrow> 'q hardened \<Rightarrow> 'q hardened option" where
  "h_restart fl n v x t hb =
     (case open_authority fl (fencingStatePath (hb_auth hb)) (crash_during n v (a_disk (hb_auth hb))) of
        Inl e \<Rightarrow> None
      | Inr a \<Rightarrow> Some \<lparr>hb_broker = reborn x t (hb_broker hb), hb_auth = a, hb_faults = []\<rparr>)"

fun h_step :: "'q ext \<Rightarrow> string option \<Rightarrow> hevent \<Rightarrow> 'q hardened \<Rightarrow> 'q hardened option" where
  "h_step E fl (BrokerEvent ev) hb = map_option snd (h_handle E ev hb)"
| "h_step E fl (Faults fs) hb = Some (hb\<lparr>hb_faults := fs\<rparr>)"
| "h_step E fl (Restarted n v x t) hb =
     (if v < fencingWatermark (hb_auth hb) \<or> max_fencing_token < v then None else h_restart fl n v x t hb)"

definition h_start :: "authority \<Rightarrow> int \<Rightarrow> int \<Rightarrow> 'q hardened" where
  "h_start a x t = \<lparr>hb_broker = init_broker x t, hb_auth = a, hb_faults = []\<rparr>"

inductive h_reachable ::
  "'q ext \<Rightarrow> string option \<Rightarrow> (hevent \<Rightarrow> bool) \<Rightarrow> 'q hardened \<Rightarrow> 'q hardened \<Rightarrow> bool"
  for E fl A hb0 where
  h_start: "h_reachable E fl A hb0 hb0"
| h_step: "h_reachable E fl A hb0 hb \<Longrightarrow> A ev \<Longrightarrow> h_step E fl ev hb = Some hb' \<Longrightarrow> h_reachable E fl A hb0 hb'"

fun h_run :: "'q ext \<Rightarrow> string option \<Rightarrow> hevent list \<Rightarrow> 'q hardened \<Rightarrow> 'q hardened option" where
  "h_run E fl [] hb = Some hb"
| "h_run E fl (ev # evs) hb = Option.bind (h_step E fl ev hb) (h_run E fl evs)"

lemma h_run_reachable_from:
  assumes "h_reachable E fl A hb0 hb" and "list_all A evs" and "h_run E fl evs hb = Some hb'"
  shows "h_reachable E fl A hb0 hb'"
  using assms
proof (induction evs arbitrary: hb)
  case (Cons ev evs)
  from Cons.prems(3) obtain hb1 where "h_step E fl ev hb = Some hb1" "h_run E fl evs hb1 = Some hb'"
    by (auto split: Option.bind_splits)
  with Cons show ?case by (auto intro: h_reachable.h_step)
qed simp

lemmas h_run_reachable = h_run_reachable_from [OF h_reachable.h_start]

end
