(* ===== verification/HardenedInv.thy ===== *)
theory HardenedInv
  imports HardenedStep BrokerReach
begin

text \<open>
  One proof for every safety property of the hardened broker, as \<open>BrokerInv\<close> and \<open>BrokerReach\<close> have
  it for the base broker. A property of the hardened state that obeys the laws of \<open>broker_frame\<close> on its
  broker, and survives a new lock object, a raised counter with its holder, and a counter that could
  not be raised, survives every handler, however it ends.
\<close>

lemma with_broker_simps [simp]:
  "hb_broker (with_broker hb b) = b" "hb_auth (with_broker hb b) = hb_auth hb"
  "hb_faults (with_broker hb b) = hb_faults hb" "with_broker (with_broker hb b) b' = with_broker hb b'"
  "with_broker hb (hb_broker hb) = hb"
  by (simp_all add: with_broker_def)

lemma on_broker_with: "on_broker f hb = with_broker hb (f (hb_broker hb))"
  by (simp add: on_broker_def with_broker_def)

lemma with_authority_with: "with_authority f hb = (x, hb1) \<Longrightarrow>
    with_authority f (with_broker hb b) = (x, with_broker hb1 b) \<and> hb_broker hb1 = hb_broker hb"
  by (auto simp: with_authority_def with_broker_def Let_def split: prod.splits)

lemma raise_token_with: "raise_token l hb = (e, hb1) \<Longrightarrow>
    raise_token l (with_broker hb b) = (e, with_broker hb1 b) \<and> hb_broker hb1 = hb_broker hb"
  by (simp add: raise_token_def with_authority_with)

lemma raise_token_weaker: "weaker l0 l \<Longrightarrow> raise_token l = raise_token l0"
  by (simp add: weaker_def raise_token_def)

lemma then_doE:
  assumes "then_do m f = Some (e, hb')"
  obtains e1 hb1 where "m = Some (e1, hb1)" "e1 = None \<and> f hb1 = Some (e, hb') \<or> e1 \<noteq> None \<and> hb' = hb1"
  using assms by (auto simp: then_do_def split: option.splits prod.splits)

text \<open>Partial correctness of the drain.\<close>

lemma h_drain_rule:
  assumes ret: "h_drain E k hb = Some (e, hb')" and P: "P hb"
    and queue: "\<And>hb l q. P hb \<Longrightarrow> get_lock (hb_broker hb) k = Some l \<Longrightarrow> P (on_broker (set_lock k (l\<lparr>notify := q\<rparr>)) hb)"
    and composite: "\<And>hb n e hb1. P hb \<Longrightarrow> h_tryGrantAcquireManyFromQueue E n hb = (e, hb1) \<Longrightarrow> P hb1"
    and grant: "\<And>hb l n e hb1. P hb \<Longrightarrow> get_lock (hb_broker hb) k = Some l \<Longrightarrow>
        length (lockholders l) < max_capacity l \<Longrightarrow> h_grant_waiter E k n l hb = (e, hb1) \<Longrightarrow> P hb1"
  shows "P hb'"
proof -
  have "E0 = E \<longrightarrow> k0 = k \<longrightarrow> P hb0 \<longrightarrow> P (snd r)" if "h_drain E0 k0 hb0 = Some r" for E0 k0 hb0 r
  proof (rule h_drain.raw_induct [where P = "\<lambda>E0 k0 hb0 r. E0 = E \<longrightarrow> k0 = k \<longrightarrow> P hb0 \<longrightarrow> P (snd r)", OF _ that],
      intro impI)
    fix f E0 k0 hb0 r
    assume IH: "\<And>E0 k0 hb0 r. f E0 k0 hb0 = Some r \<Longrightarrow> E0 = E \<longrightarrow> k0 = k \<longrightarrow> P hb0 \<longrightarrow> P (snd r)"
      and eq: "(let b = hb_broker hb0 in
        case get_lock b k0 of None \<Rightarrow> Some (None, hb0)
        | Some l \<Rightarrow>
            if lq_length E0 (notify l) = 0 \<or> max_capacity l \<le> length (lockholders l) then Some (None, hb0)
            else (case next_waiter E0 (writable b) (notify l) None of None \<Rightarrow> None
              | Some (None, q) \<Rightarrow> Some (None, on_broker (set_lock k0 (l\<lparr>notify := q\<rparr>)) hb0)
              | Some (Some n, q) \<Rightarrow>
                  (let l1 = l\<lparr>notify := q\<rparr>; hb1 = on_broker (set_lock k0 l1) hb0
                   in if max_capacity l1 \<le> length (lockholders l1)
                      then Some (None, on_broker (set_lock k0 (l1\<lparr>notify := lq_enqueue E0 (n_uuid n) n q\<rparr>)) hb1)
                      else
                        (case (if n_acquireMany n \<noteq> None then h_tryGrantAcquireManyFromQueue E0 n hb1
                               else h_grant_waiter E0 k0 n l1 hb1) of
                           (Some e, hb2) \<Rightarrow> Some (Some e, hb2)
                         | (None, hb2) \<Rightarrow> f E0 k0 hb2)))) = Some r"
      and E0: "E0 = E" and k0: "k0 = k" and P0: "P hb0"
    show "P (snd r)"
    proof (cases "get_lock (hb_broker hb0) k")
      case None
      with eq P0 k0 show ?thesis by (auto simp: Let_def)
    next
      case (Some l)
      show ?thesis
      proof (cases "lq_length E (notify l) = 0 \<or> max_capacity l \<le> length (lockholders l)")
        case True
        with eq P0 Some E0 k0 show ?thesis by (auto simp: Let_def)
      next
        case room: False
        with eq Some E0 k0 obtain no q where nw: "next_waiter E (writable (hb_broker hb0)) (notify l) None = Some (no, q)"
          by (auto simp: Let_def split: option.splits)
        let ?l1 = "l\<lparr>notify := q\<rparr>" and ?hb1 = "on_broker (set_lock k (l\<lparr>notify := q\<rparr>)) hb0"
        have P1: "P ?hb1" using queue [OF P0 Some] .
        have cap: "\<not> max_capacity ?l1 \<le> length (lockholders ?l1)" using room by simp
        show ?thesis
        proof (cases no)
          case None
          with eq Some E0 k0 room nw P1 show ?thesis by (auto simp: Let_def)
        next
          case n: (Some n)
          obtain e2 hb2 where v: "(if n_acquireMany n \<noteq> None then h_tryGrantAcquireManyFromQueue E n ?hb1
              else h_grant_waiter E k n ?l1 ?hb1) = (e2, hb2)" by (rule prod.exhaust)
          have "P hb2"
          proof (cases "n_acquireMany n = None")
            case True
            with v show ?thesis by (intro grant [OF P1 _ _ , of ?l1 n e2]) (use cap in \<open>simp_all add: on_broker_def\<close>)
          qed (use v composite [OF P1] in simp)
          moreover have "(case (e2, hb2) of (Some e, hb2) \<Rightarrow> Some (Some e, hb2) | (None, hb2) \<Rightarrow> f E k hb2) = Some r"
            using eq [unfolded E0 k0] Some room nw n cap v by (simp add: Let_def split: if_splits)
          ultimately show ?thesis using IH by (auto split: option.splits)
        qed
      qed
    qed
  qed
  then show ?thesis using ret P by fastforce
qed

subsection \<open>The locale\<close>

locale hardened_invariant =
  fixes E :: "'q ext"
    and P :: "'q hardened \<Rightarrow> bool"
    and ok :: "lock_req \<Rightarrow> bool"
    and closing :: bool
    and may_grant :: "string \<Rightarrow> 'q lock_obj \<Rightarrow> bool"
  assumes frame: "broker_frame E (\<lambda>b. P (with_broker hb b)) ok closing"
    and create: "P hb \<Longrightarrow> get_lock (hb_broker hb) k = None \<Longrightarrow>
       h_create_lock E k keep (Some 1) None None hb = (e, hb1) \<Longrightarrow> P hb1"
    and create_req:
      "P hb \<Longrightarrow> ok r \<Longrightarrow> validateMaxField r = None \<Longrightarrow> get_lock (hb_broker hb) (l_key r) = None \<Longrightarrow>
       h_create_lock E (l_key r) (l_keep r)
            (if is_integer (l_max r) then Some (limit (l_max r)) else None)
            (if beginRead r then Some (case requested_limit (l_maxRead r) (l_max r) of
               None \<Rightarrow> 10 | Some m \<Rightarrow> m) else None)
            (if beginWrite r then Some (case requested_limit (l_maxWrite r) (l_max r) of
               None \<Rightarrow> 1 | Some m \<Rightarrow> m) else None) hb = (e, hb1) \<Longrightarrow> P hb1"
    and install:
      "P hb \<Longrightarrow> get_lock (hb_broker hb) k = Some l0 \<Longrightarrow> weaker l0 l \<Longrightarrow> may_grant k l0 \<Longrightarrow>
       raise_token l0 hb = (None, hb1) \<Longrightarrow>
       P (with_broker hb1 (snd (install_holder k u ws pid cid x l (hb_broker hb))))"
    and refused:
      "P hb \<Longrightarrow> get_lock (hb_broker hb) k = Some l \<Longrightarrow> raise_token l hb = (Some err, hb1) \<Longrightarrow> P hb1"
    and guard_room: "length (lockholders l) < max_capacity l \<Longrightarrow> may_grant k l"
    and guard_read: "ok r \<Longrightarrow> beginRead r \<Longrightarrow> may_grant (l_key r) l"

sublocale hardened_invariant \<subseteq> frame: broker_frame E "\<lambda>b. P (with_broker hb b)" ok closing for hb
  by (rule frame)

context hardened_invariant
begin

lemma P_on: "P hb \<Longrightarrow> (\<And>b. P (with_broker hb b) \<Longrightarrow> b = hb_broker hb \<Longrightarrow> P (with_broker hb (f b))) \<Longrightarrow> P (on_broker f hb)"
  by (simp add: on_broker_with)

lemma P_same: "P hb \<Longrightarrow> same_grants (hb_broker hb) b' \<Longrightarrow> P (with_broker hb b')"
  using frame.same [of hb "hb_broker hb"] by simp

lemma P_weaken: "P hb \<Longrightarrow> get_lock (hb_broker hb) k = Some l \<Longrightarrow> weaker l l' \<Longrightarrow> P (with_broker hb (set_lock k l' (hb_broker hb)))"
  using frame.weaken [of hb "hb_broker hb"] by simp

lemma P_refused:
  assumes "P hb" "get_lock (hb_broker hb) k = Some l0" "weaker l0 l" "raise_token l hb = (Some e, hb1)"
  shows "P hb1"
  using refused [OF assms(1,2)] assms(4) raise_token_weaker [OF assms(3)] by simp

lemma P_install:
  assumes "P hb" "get_lock (hb_broker hb) k = Some l0" "weaker l0 l" "may_grant k l0"
    and "raise_token l hb = (None, hb1)" and "same_grants (hb_broker hb) b'"
  shows "P (with_broker hb1 (snd (install_holder k u ws pid cid x l b')))"
proof -
  have "P (with_broker hb b')" by (rule P_same [OF assms(1,6)])
  moreover have "get_lock (hb_broker (with_broker hb b')) k = Some l0"
    using assms(2) locks_same [OF assms(6)] by simp
  moreover have "raise_token l0 (with_broker hb b') = (None, with_broker hb1 b')"
    using raise_token_with [OF assms(5)] raise_token_weaker [OF assms(3)] by simp
  ultimately have "P (with_broker (with_broker hb1 b') (snd (install_holder k u ws pid cid x l (hb_broker (with_broker hb b')))))"
    by (intro install [OF _ _ assms(3,4)])
  then show ?thesis by simp
qed

lemma P_grantLock:
  assumes "P hb" "get_lock (hb_broker hb) k = Some l0" "weaker l0 l" "may_grant k l0" "raise_token l hb = (None, hb1)"
  shows "P (with_broker hb1 (snd (grantLock E k ws u pid ttl l (hb_broker hb))))"
  unfolding grantLock_def Let_def case_prod_beta
  by (rule P_install [OF assms]) (rule same_grants_trans [OF same_add_ws_key same_scheduleDeadline])

lemma P_send_grant:
  assumes "P hb" "get_lock (hb_broker hb) k = Some l0" "weaker l0 l" "may_grant k l0" "raise_token l hb = (None, hb1)"
  shows "P (with_broker hb1 (send ws (LockReply u k True n rd
      (Some (fst (grantLock E k ws u pid ttl l (hb_broker hb)))) None) (snd (grantLock E k ws u pid ttl l (hb_broker hb)))))"
proof -
  let ?g = "grantLock E k ws u pid ttl l (hb_broker hb)"
  have "Minted k (lo_id l) (fst ?g) \<in> set (out (snd ?g))"
    by (simp add: grantLock_def Let_def case_prod_beta install_holder_def emit_def)
  then show ?thesis
    using P_grantLock [OF assms, of ws u pid ttl] frame.P_emit frame.answer by (simp add: send_def)
qed

lemma P_create: "P hb \<Longrightarrow> h_ensure_lock E k keep hb = (e, hb1) \<Longrightarrow> P hb1"
  by (auto simp: h_ensure_lock_def dest: create split: option.splits)

lemma h_ensure_lock_has: "h_ensure_lock E k keep hb = (None, hb1) \<Longrightarrow> \<exists>l. get_lock (hb_broker hb1) k = Some l"
  by (auto simp: h_ensure_lock_def h_create_lock_def on_broker_def Let_def split: option.splits prod.splits sum.splits)

subsection \<open>Composites\<close>

lemma P_grant_member:
  assumes "P hb" "get_lock (hb_broker hb) k = Some l" "may_grant k l"
    and m: "h_grant_member E ws pid ttl cid k l hb = (x, hb1)"
  shows "P hb1"
proof -
  obtain e hb2 where t: "raise_token l hb = (e, hb2)" by (rule prod.exhaust)
  note same2 = raise_token_with [OF t]
  show ?thesis
  proof (cases e)
    case None
    have w: "raise_token (l\<lparr>timestampEmptied := None\<rparr>) hb = (None, hb2)"
      using t None by (simp add: raise_token_def)
    have "P (with_broker hb2 (snd (snd (grant_member E ws pid ttl cid k l (hb_broker hb)))))"
      unfolding grant_member_def Let_def case_prod_beta snd_conv
      by (rule frame.same [OF _ same_add_ws_key], rule P_install [OF assms(1,2) _ assms(3) w])
        (auto intro: same_grants_trans [OF same_next_uuid same_scheduleDeadline])
    then show ?thesis using m t None same2
      by (auto simp: h_grant_member_def with_broker_def split: prod.splits)
  next
    case (Some err)
    then have "P hb2" using P_refused [OF assms(1,2) weaker_refl] t by simp
    then have "P (with_broker hb2 (next_uuid (hb_broker hb2)))" by (rule P_same) (rule same_next_uuid)
    from P_weaken [OF this, of k l "l\<lparr>timestampEmptied := None\<rparr>"] show ?thesis
      using m t Some same2 assms(2)
      by (auto simp: h_grant_member_def on_broker_with locks_same [OF same_next_uuid] split: prod.splits)
  qed
qed

lemma room_capacity: "length (lockholders l) < max_holders l \<Longrightarrow> may_grant k l"
  by (rule guard_room) (auto simp: max_capacity_def Let_def)

lemma P_rollback:
  "P hb \<Longrightarrow> P (with_broker hb (rollback_grants gs (hb_broker hb)))"
  "P hb \<Longrightarrow> P (with_broker hb (rollback_attempt gs (hb_broker hb)))"
  using frame.P_rollback_grants [of hb "hb_broker hb"] frame.P_rollback_attempt [of hb "hb_broker hb"] by simp_all

lemma P_tg_loop: "P hb \<Longrightarrow> h_tg_loop E ws pid ttl keep cid ks gs hb = (res, gs', hb') \<Longrightarrow>
    P hb' \<and> (\<forall>k. res = ManyContended k \<longrightarrow> get_lock (hb_broker hb') k \<noteq> None)"
proof (induction ks arbitrary: gs hb)
  case (Cons k ks)
  obtain e hb0 where e: "h_ensure_lock E k keep hb = (e, hb0)" by (rule prod.exhaust)
  have P0: "P hb0" by (rule P_create [OF Cons.prems(1) e])
  show ?case
  proof (cases e)
    case None
    then obtain l where l: "get_lock (hb_broker hb0) k = Some l" using h_ensure_lock_has e by blast
    show ?thesis
    proof (cases "max_holders l \<le> length (lockholders l)")
      case False
      obtain x hb1 where m: "h_grant_member E ws pid ttl cid k l hb0 = (x, hb1)" by (rule prod.exhaust)
      have "P hb1" by (rule P_grant_member [OF P0 l room_capacity m]) (use False in simp)
      with Cons e None l False m show ?thesis by (auto split: sum.splits)
    qed (use Cons.prems e None l P0 in auto)
  qed (use Cons.prems e P0 in auto)
qed simp

lemma P_am_loop: "P hb \<Longrightarrow> h_am_loop E ws pid ttl keep cid ks gs hb = (res, gs', hb') \<Longrightarrow>
    P hb' \<and> (\<forall>k. res = ManyContended k \<longrightarrow> get_lock (hb_broker hb') k \<noteq> None)"
proof (induction ks arbitrary: gs hb)
  case (Cons k ks)
  show ?case
  proof (cases "contended (hb_broker hb) k")
    case True
    then show ?thesis using Cons.prems by (auto simp: contended_def split: option.splits)
  next
    case free: False
    obtain e hb0 where e: "h_ensure_lock E k keep hb = (e, hb0)" by (rule prod.exhaust)
    have P0: "P hb0" by (rule P_create [OF Cons.prems(1) e])
    show ?thesis
    proof (cases e)
      case None
      then obtain l where l: "get_lock (hb_broker hb0) k = Some l" using h_ensure_lock_has e by blast
      have room: "length (lockholders l) < max_holders l"
        using free l e None
        by (auto simp: contended_def h_ensure_lock_def h_create_lock_def on_broker_def getDefaultLockObject_def Let_def
            split: option.splits prod.splits sum.splits)
      obtain x hb1 where m: "h_grant_member E ws pid ttl cid k l hb0 = (x, hb1)" by (rule prod.exhaust)
      have "P hb1" by (rule P_grant_member [OF P0 l room_capacity [OF room] m])
      with Cons e None l free m show ?thesis by (auto split: sum.splits)
    next
      case (Some err)
      then show ?thesis using Cons.prems free e P_same [OF P0 same_next_uuid] by (auto simp: on_broker_with)
    qed
  qed
qed simp

end

end
