(* ===== verification/HardenedReach.thy ===== *)
theory HardenedReach
  imports HardenedInv
begin

text \<open>
  The handlers of the hardened broker, one after the other, up to its steps: each keeps what a
  \<open>hardened_invariant\<close> keeps, whether it returns, throws, or swallows what was thrown.
\<close>

context hardened_invariant
begin

lemma P_send: "P hb \<Longrightarrow> \<not> is_grant r \<Longrightarrow> P (with_broker hb (send ws r (hb_broker hb)))"
  by (rule P_same [OF _ same_send])

lemma P_warn: "P hb \<Longrightarrow> P (with_broker hb (emit (Warn w) (hb_broker hb)))"
  by (rule P_same [OF _ same_emit]) simp_all

subsection \<open>Queued waiters\<close>

lemma P_register: "P hb \<Longrightarrow> P (with_broker hb (register_composite ws u cid ks gs (hb_broker hb)))"
  by (rule P_same [OF _ same_register_composite])

lemma ensure_lock_present: "get_lock b k \<noteq> None \<Longrightarrow> ensure_lock E' k keep b = b"
  by (auto simp: ensure_lock_def)

lemma get_lock_rollback_grants: "get_lock b k \<noteq> None \<Longrightarrow> get_lock (rollback_grants gs b) k \<noteq> None"
  by (induction gs arbitrary: b) (auto simp: with_lock_def locks_same [OF same_del_deadline] split: option.splits)

lemma get_lock_rollback_attempt: "get_lock b k \<noteq> None \<Longrightarrow> get_lock (rollback_attempt gs b) k \<noteq> None"
  by (induction gs arbitrary: b) (auto simp: with_lock_def locks_same [OF same_del_deadline] split: option.splits)

lemma P_queue_again:
  assumes "P hb" and "get_lock (hb_broker hb) k \<noteq> None"
  shows "P (with_broker hb (with_lock k (queue_waiter E k n) (ensure_lock E k keep (hb_broker hb))))"
  unfolding ensure_lock_present [OF assms(2)]
  by (rule frame.P_with_lock) (use assms in \<open>auto intro: frame.P_queue_waiter\<close>)

lemma P_tryGrant:
  assumes "P hb" and t: "h_tryGrantAcquireManyFromQueue E n hb = (e, hb1)"
  shows "P hb1"
proof (cases "n_acquireMany n")
  case (Some p)
  obtain ks cid where p: "p = (ks, cid)" by (rule prod.exhaust)
  obtain res gs hb2 where l: "h_tg_loop E (n_ws n) (n_pid n) (n_ttl n) (n_keep n) cid ks [] hb = (res, gs, hb2)"
    by (rule prod_cases3)
  note K = P_tg_loop [OF assms(1) l]
  show ?thesis
  proof (cases res)
    case (ManyContended k)
    let ?hb = "with_broker hb2 (rollback_grants gs (hb_broker hb2))"
    have "P ?hb" "get_lock (hb_broker ?hb) k \<noteq> None"
      using K P_rollback(1) ManyContended get_lock_rollback_grants [of "hb_broker hb2" k gs] by auto
    from P_queue_again [OF this] show ?thesis
      using t Some p l ManyContended by (auto simp: h_tryGrantAcquireManyFromQueue_def on_broker_with)
  qed (use t Some p l K P_register in \<open>auto simp: h_tryGrantAcquireManyFromQueue_def on_broker_with\<close>)
qed (use assms in \<open>simp add: h_tryGrantAcquireManyFromQueue_def\<close>)

lemma P_grant_waiter:
  assumes "P hb" "get_lock (hb_broker hb) k = Some l" "length (lockholders l) < max_capacity l"
    and g: "h_grant_waiter E k n l hb = (e, hb1)"
  shows "P hb1"
proof -
  obtain e2 hb2 where t: "raise_token l hb = (e2, hb2)" by (rule prod.exhaust)
  note b2 = raise_token_with [OF t]
  show ?thesis
  proof (cases e2)
    case None
    have "raise_token (l\<lparr>keepLocksAfterDeath := n_keep n\<rparr>) hb = (None, hb2)"
      using t None by (simp add: raise_token_def)
    from frame.same [OF P_send_grant [OF assms(1,2) _ guard_room [OF assms(3)] this] same_arm_reelection]
    have "P (with_broker hb2 (grant_waiter E k n l (hb_broker hb2)))"
      by (simp add: grant_waiter_def Let_def case_prod_beta b2)
    then show ?thesis using g t None by (simp add: h_grant_waiter_def on_broker_with)
  next
    case (Some err)
    then have "P hb2" using P_refused [OF assms(1,2) weaker_refl] t by simp
    from P_same [OF this same_add_ws_key, of "n_ws n" k] show ?thesis
      using g t Some by (auto simp: h_grant_waiter_def on_broker_with)
  qed
qed

lemma P_drain: "h_drain E k hb = Some (e, hb') \<Longrightarrow> P hb \<Longrightarrow> P hb'"
  by (rule h_drain_rule [where P = P]) (auto simp: on_broker_with intro: P_weaken P_tryGrant P_grant_waiter)

lemma P_super_ensure:
  assumes s: "super_ensureNewLockHolder E k uo hb = Some (e, hb')" and "P hb"
  shows "P hb'"
proof (cases "get_lock (hb_broker hb) k")
  case (Some l)
  define b1 where "b1 = (if truthy_str uo then del_deadline (prop_name uo) (hb_broker hb) else hb_broker hb)"
  define l1 where "l1 = (if truthy_str uo then remove_holder (prop_name uo) l else l)"
  have b1: "P (with_broker hb b1)" "get_lock b1 k = Some l"
    using assms(2) Some by (auto simp: b1_def locks_same [OF same_del_deadline] intro: P_same same_del_deadline)
  have w: "weaker l l1" by (simp add: l1_def)
  have "P (with_broker hb (set_lock k (l1\<lparr>keepLocksAfterDeath := False, timestampEmptied := Some t\<rparr>) b1))"
    "P (with_broker hb (set_lock k (l1\<lparr>keepLocksAfterDeath := False\<rparr>) b1))" for t
    using w by (auto intro: frame.weaken [OF b1])
  then show ?thesis
    using s Some
    by (auto simp: super_ensureNewLockHolder_def Let_def b1_def l1_def with_broker_def [symmetric]
        split: if_splits dest: P_drain)
qed (use assms in \<open>simp add: super_ensureNewLockHolder_def\<close>)

lemma P_guarded:
  assumes "guarded answer res = (e, hb')" and "P (snd res)" and "\<And>e hb. P hb \<Longrightarrow> P (answer e hb)"
  shows "P hb'"
  using assms by (auto simp: guarded_def split: prod.splits option.splits if_splits)

lemma P_ensureNewLockHolder: "h_ensureNewLockHolder E k uo hb = Some (e, hb') \<Longrightarrow> P hb \<Longrightarrow> P hb'"
  using P_warn
  by (auto simp: h_ensureNewLockHolder_def Let_def on_broker_with split: if_splits
      elim!: P_guarded dest: P_super_ensure)

subsection \<open>lock and acquireMany\<close>

lemma P_authority_failure:
  "P hb \<Longrightarrow> \<not> is_grant r \<Longrightarrow> P (emitAuthorityFailure ws r e hb)"
  using P_warn [OF P_send, of hb r] by (simp add: emitAuthorityFailure_def on_broker_with)

lemma weaker_reader: "weaker l (count_reader r l)"
  by (simp add: count_reader_def)

lemma P_lock_acquire:
  assumes "P hb" "get_lock (hb_broker hb) (l_key r) = Some l" "may_grant (l_key r) l"
    and a: "h_lock_acquire E r ws ttl ln l hb = (e, hb1)"
  shows "P hb1"
proof -
  obtain e2 hb2 where t: "raise_token l hb = (e2, hb2)" by (rule prod.exhaust)
  note b2 = raise_token_with [OF t]
  show ?thesis
  proof (cases e2)
    case None
    have "raise_token (count_reader r l) hb = (None, hb2)"
      using t None raise_token_weaker [OF weaker_reader] by metis
    from P_send_grant [OF assms(1,2) weaker_reader assms(3) this]
    have "P (with_broker hb2 (lock_acquire E r ws ttl ln l (hb_broker hb2)))"
      by (simp add: lock_acquire_def Let_def case_prod_beta b2)
    then show ?thesis using a t None by (simp add: h_lock_acquire_def on_broker_with)
  next
    case (Some err)
    then have "P hb2" using P_refused [OF assms(1,2) weaker_refl] t by simp
    then have "P (with_broker hb2 (add_ws_key ws (l_key r) (hb_broker hb2)))" by (rule P_same) (rule same_add_ws_key)
    from P_weaken [OF this, of "l_key r" l] show ?thesis
      using a t Some b2 assms(2) weaker_reader
      by (auto simp: h_lock_acquire_def on_broker_with locks_same [OF same_add_ws_key])
  qed
qed

lemma effective_guard:
  assumes "ok r" "effective_count r l < effective_max r l" "l = update_limits r l0"
  shows "may_grant (l_key r) l"
  using assms effective_capacity guard_read guard_room by (cases "beginRead r") blast+

lemma P_lock_existing:
  assumes "P hb" "ok r" "validateMaxField r = None" "get_lock (hb_broker hb) (l_key r) = Some l"
    and "h_lock_existing E r ws ttl l hb = (e, hb1)"
  shows "P hb1"
proof -
  let ?hb = "with_broker hb (set_lock (l_key r) (update_limits r l) (hb_broker hb))"
  have P: "P ?hb" using frame.limits [of hb "hb_broker hb"] assms by simp
  then show ?thesis
    using assms(5) P_lock_acquire [OF P _ effective_guard [OF assms(2) _ refl, of l]]
      frame.P_lock_contended [OF P]
    by (auto simp: h_lock_existing_def Let_def on_broker_with not_le split: if_splits)
qed

lemma max_capacity_pos: "0 < max_capacity (l :: 'z lock_obj)"
  by (auto simp: max_capacity_def Let_def less_max_iff_disj)

lemma h_create_lock_has:
  assumes "h_create_lock E' k keep mx mr mw hb = (None, hb1)"
  obtains l where "get_lock (hb_broker hb1) k = Some l" "lockholders l = []" "0 < max_capacity l"
  using assms
  by (auto simp: max_capacity_pos h_create_lock_def on_broker_def getDefaultLockObject_def Let_def split: prod.splits sum.splits)

lemma P_lock_new:
  assumes "P hb" "ok r" "validateMaxField r = None" "get_lock (hb_broker hb) (l_key r) = None"
    and n: "h_lock_new E r ws ttl hb = (e, hb1)"
  shows "P hb1"
proof -
  let ?mx = "if is_integer (l_max r) then Some (limit (l_max r)) else None"
  let ?mr = "if beginRead r then Some (case requested_limit (l_maxRead r) (l_max r) of None \<Rightarrow> 10 | Some m \<Rightarrow> m) else None"
  let ?mw = "if beginWrite r then Some (case requested_limit (l_maxWrite r) (l_max r) of None \<Rightarrow> 1 | Some m \<Rightarrow> m) else None"
  let ?hb = "with_broker hb (add_ws_key ws (l_key r) (hb_broker hb))"
  have P: "P ?hb" "get_lock (hb_broker ?hb) (l_key r) = None"
    using P_same [OF assms(1) same_add_ws_key] assms(4) by (simp_all add: locks_same [OF same_add_ws_key])
  obtain e2 hb2 where c: "h_create_lock E (l_key r) (l_keep r) ?mx ?mr ?mw ?hb = (e2, hb2)" by (rule prod.exhaust)
  have P2: "P hb2" by (rule create_req [OF P(1) assms(2,3) P(2) c])
  show ?thesis
  proof (cases e2)
    case None
    obtain l where l: "get_lock (hb_broker hb2) (l_key r) = Some l" "lockholders l = []" "0 < max_capacity l"
      using c [unfolded None] by (rule h_create_lock_has)
    with n c None P_lock_acquire [OF P2 l(1) guard_room] show ?thesis
      by (simp add: h_lock_new_def Let_def on_broker_with)
  qed (use n c P2 in \<open>simp add: h_lock_new_def Let_def on_broker_with\<close>)
qed

lemma P_super_lock:
  assumes P: "P hb" and ok: "ok r" and s: "super_lock E r ws hb = (e, hb1)"
  shows "P hb1"
proof (cases "validateMaxField r")
  case valid: None
  define b where "b = hb_broker hb"
  define k where "k = l_key r"
  define b1 where "b1 = with_lock k (\<lambda>l b. set_lock k (l\<lparr>timestampEmptied := None\<rparr>) b) b"
  define b2 where "b2 = count_lock_request E b1"
  define b4 where "b4 = ensure_ws_keys ws (if l_uuid r \<noteq> [] then add_ws_uuid ws (l_uuid r) b2 else b2)"
  have s4: "same_grants b2 b4"
    by (auto simp: b4_def same_ensure_ws_keys intro: same_grants_trans [OF same_add_ws_uuid same_ensure_ws_keys])
  have "P (with_broker hb b1)" unfolding b1_def
    by (rule frame.P_with_lock) (use P in \<open>auto simp: b_def intro: P_weaken\<close>)
  then have P4: "P (with_broker hb b4)" unfolding b2_def
    using frame.same [OF frame.P_count_lock_request s4 [unfolded b2_def]] by blast
  have "get_lock b1 k = None \<or> (\<exists>l. get_lock b1 k = Some l \<and> timestampEmptied l = None)"
    by (cases "get_lock b k") (auto simp: b1_def with_lock_def)
  then have l4: "get_lock b4 k = get_lock b1 k"
    using get_lock_count_lock_request locks_same [OF s4] b2_def by simp
  have eq: "super_lock E r ws hb = (case get_lock b1 k of
      Some l \<Rightarrow> h_lock_existing E r ws (lock_ttl E b r) l (with_broker hb b4)
    | None \<Rightarrow> h_lock_new E r ws (lock_ttl E b r) (with_broker hb b4))"
    unfolding super_lock_def valid Let_def b4_def b2_def b1_def k_def b_def with_broker_def by simp
  show ?thesis
    using s P_lock_existing [OF P4 ok valid] P_lock_new [OF P4 ok valid] l4
    unfolding eq by (auto simp: k_def split: option.splits)
qed (use s P_send [OF P] in \<open>auto simp: super_lock_def on_broker_with\<close>)

lemma P_lock: "h_lock E r ws hb = (e, hb') \<Longrightarrow> P hb \<Longrightarrow> ok r \<Longrightarrow> P hb'"
proof -
  assume l: "h_lock E r ws hb = (e, hb')" and P: "P hb" and ok: "ok r"
  obtain e2 hb2 where s: "super_lock E r ws hb = (e2, hb2)" by (rule prod.exhaust)
  from P_super_lock [OF P ok s] P l s show ?thesis
    by (auto simp: h_lock_def Let_def split: if_splits intro: P_authority_failure elim!: P_guarded)
qed

lemma P_acquire_many_contended:
  assumes "P hb" "get_lock (hb_broker hb) k \<noteq> None"
  shows "P (with_broker hb (acquire_many_contended E r ws keys cid ttl k (hb_broker hb)))"
  using P_queue_again [OF assms] P_send [OF assms(1)]
  by (auto simp: acquire_many_contended_def Let_def intro: frame.P_send)

lemma P_super_acquireMany:
  assumes P: "P hb" and s: "super_acquireMany E r ws hb = (e, hb')"
  shows "P hb'"
proof (cases "check_keys (a_keys r)")
  case (Inr keys)
  let ?hb = "with_broker hb (next_uuid (hb_broker hb))"
  have "P ?hb" by (rule P_same [OF P same_next_uuid])
  moreover obtain res gs hb1 where l: "h_am_loop E ws (a_pid r) (many_ttl (hb_broker hb) (a_ttl r)) (a_keep r)
      (fresh_uuid E (hb_broker hb)) keys [] ?hb = (res, gs, hb1)"
    by (rule prod_cases3)
  ultimately have K: "P hb1 \<and> (\<forall>k. res = ManyContended k \<longrightarrow> get_lock (hb_broker hb1) k \<noteq> None)"
    by (rule P_am_loop)
  show ?thesis
  proof (cases res)
    case (ManyContended k)
    let ?hb = "with_broker hb1 (rollback_attempt gs (hb_broker hb1))"
    have "P ?hb" "get_lock (hb_broker ?hb) k \<noteq> None"
      using K P_rollback(2) ManyContended get_lock_rollback_attempt [of "hb_broker hb1" k gs] by auto
    from P_acquire_many_contended [OF this] show ?thesis
      using s Inr l ManyContended by (auto simp: super_acquireMany_def Let_def on_broker_with)
  qed (use s Inr l K P_register in \<open>auto simp: super_acquireMany_def Let_def on_broker_with\<close>)
qed (use s P_send [OF P] in \<open>auto simp: super_acquireMany_def on_broker_with\<close>)

lemma P_acquireMany: "h_acquireMany E r ws hb = (e, hb') \<Longrightarrow> P hb \<Longrightarrow> P hb'"
proof -
  assume a: "h_acquireMany E r ws hb = (e, hb')" and P: "P hb"
  obtain e2 hb2 where s: "super_acquireMany E r ws hb = (e2, hb2)" by (rule prod.exhaust)
  from P_super_acquireMany [OF P s] P a s show ?thesis
    by (auto simp: h_acquireMany_def Let_def split: if_splits intro: P_authority_failure elim!: P_guarded)
qed

subsection \<open>Releasing\<close>

lemma P_returns: "returns hb = Some (e, hb') \<Longrightarrow> P hb \<Longrightarrow> P hb'"
  by (simp add: returns_def)

lemma P_then_do:
  assumes "then_do m f = Some (e, hb')" and "\<And>e1 hb1. m = Some (e1, hb1) \<Longrightarrow> P hb1"
    and "\<And>hb1. P hb1 \<Longrightarrow> f hb1 = Some (e, hb') \<Longrightarrow> P hb'"
  shows "P hb'"
  using assms by (blast elim: then_doE)

lemma P_reply_unlock:
  "P (with_broker hb b) \<Longrightarrow> (\<And>u. \<not> is_grant (f u)) \<Longrightarrow> P (with_broker hb (reply_unlock wo r f b))"
  by (rule frame.P_reply_unlock)

lemma P_unlock_matching:
  assumes m: "h_unlock_matching E r wo l hb = Some (e, hb')" and P: "P hb" and l: "get_lock (hb_broker hb) (u_key r) = Some l"
  shows "P hb'"
proof -
  define b1 where "b1 = (if is_holder (u__uuid r) l
    then release_own (u_key r) (prop_name (u__uuid r)) l (hb_broker hb) else hb_broker hb)"
  have P1: "P (with_broker hb b1)"
    using P frame.P_release_own [of hb "hb_broker hb", OF _ l] by (simp add: b1_def)
  have all: "P (with_broker hb (release_all (u_key r) l b1))" if "\<not> truthy_str (u__uuid r)"
    by (rule frame.P_release_all [OF P1, of _ l]) (use l that in \<open>simp_all add: b1_def is_holder_def\<close>)
  note ends = P_ensureNewLockHolder [OF _ P_reply_unlock]
  consider
      (everyone) "u_force r" "\<not> truthy_str (u__uuid r)"
    | (nobody) "u_force r" "truthy_str (u__uuid r)" "\<not> is_holder (u__uuid r) l"
    | (own) "\<not> u_force r \<or> truthy_str (u__uuid r) \<and> is_holder (u__uuid r) l"
    by blast
  then show ?thesis
  proof cases
    case everyone
    with m show ?thesis
      by (intro ends [OF _ all]) (simp add: h_unlock_matching_def Let_def b1_def, simp_all)
  next
    case nobody
    with m P show ?thesis
      by (auto simp: h_unlock_matching_def Let_def elim!: P_returns intro: P_reply_unlock)
  next
    case own
    then have "\<not> (u_force r \<and> \<not> truthy_str (u__uuid r))" "\<not> (u_force r \<and> \<not> is_holder (u__uuid r) l)"
      by (auto simp: is_holder_def)
    with m have "h_ensureNewLockHolder E (u_key r) (u__uuid r)
        (with_broker hb (reply_unlock wo r (\<lambda>u. UnlockReply u (u_key r) (lq_length E (notify l)) True None) b1)) = Some (e, hb')"
      unfolding h_unlock_matching_def Let_def b1_def by (simp only: if_False)
    then show ?thesis by (rule ends [OF _ P1]) simp
  qed
qed

lemma P_unlock_mismatch:
  assumes m: "h_unlock_mismatch E r wo l hb = Some (e, hb')" and P: "P hb" and "get_lock (hb_broker hb) (u_key r) = Some l"
  shows "P hb'"
proof (cases "hash_has (lockholderTimeouts l) (prop_name (u__uuid r)) \<or>
    hash_has (lockholdersAllReleased l) (prop_name (u__uuid r))")
  case True
  have "P (with_broker hb (set_lock (u_key r) (l\<lparr>lockholderTimeouts := S, lockholdersAllReleased := T\<rparr>) (hb_broker hb)))" for S T
    by (rule P_weaken [OF P assms(3)]) simp
  then have "P (with_broker hb (reply_unlock wo r (\<lambda>u. UnlockReply u (u_key r) (lq_length E (notify l)) True None)
      (set_lock (u_key r) (l\<lparr>lockholderTimeouts := S, lockholdersAllReleased := T\<rparr>) (hb_broker hb))))" for S T
    by (rule P_reply_unlock) simp
  with m True show ?thesis by (auto simp: h_unlock_mismatch_def Let_def dest!: P_ensureNewLockHolder)
next
  case False
  have "P (with_broker hb (hb_broker hb))" using P by simp
  from P_reply_unlock [OF this] P_warn [OF P] m False show ?thesis
    by (auto simp: h_unlock_mismatch_def Let_def on_broker_with returns_def split: if_splits)
qed

lemma P_unlock: "h_unlock E r wo hb = Some (e, hb') \<Longrightarrow> P hb \<Longrightarrow> P hb'"
proof -
  assume u: "h_unlock E r wo hb = Some (e, hb')" and P: "P hb"
  let ?hb = "with_broker hb (forget_ownership wo r (hb_broker hb))"
  have P0: "P ?hb" by (rule P_same [OF P same_forget_ownership])
  have g: "get_lock (hb_broker ?hb) k = get_lock (hb_broker hb) k" for k
    by (simp add: locks_same [OF same_forget_ownership])
  show "P hb'"
  proof (cases "get_lock (hb_broker hb) (u_key r)")
    case None
    with u P_same [OF P0 same_unlock_no_lock] show ?thesis by (auto simp: h_unlock_def on_broker_with returns_def)
  next
    case (Some l)
    with u P_unlock_matching [OF _ P0] P_unlock_mismatch [OF _ P0] g show ?thesis
      by (auto simp: h_unlock_def Let_def on_broker_with split: if_splits)
  qed
qed

lemma P_release_member: "h_release_member E c k hb = Some (e, hb') \<Longrightarrow> P hb \<Longrightarrow> P hb'"
  by (auto simp: h_release_member_def Let_def returns_def on_broker_with locks_same [OF same_del_deadline]
      split: option.splits if_splits elim!: P_ensureNewLockHolder
      intro!: frame.weaken [OF frame.same [OF _ same_del_deadline]])

lemma P_release_members: "h_release_members E c ks hb = Some (e, hb') \<Longrightarrow> P hb \<Longrightarrow> P hb'"
  by (induction ks arbitrary: hb) (auto elim!: P_then_do dest: P_release_member P_returns)

lemma P_releaseMany: "h_releaseMany E r ws hb = Some (e, hb') \<Longrightarrow> P hb \<Longrightarrow> P hb'"
  by (auto simp: h_releaseMany_def on_broker_with split: option.splits if_splits
      elim!: P_then_do P_returns dest!: P_release_members
      intro!: frame.P_send P_send intro: P_same [OF _ same_grantsI])

subsection \<open>The sweeper\<close>

lemma P_evict_one: "h_evict_one E k u hb = Some (e, hb') \<Longrightarrow> P hb \<Longrightarrow> P hb'"
proof -
  assume ev: "h_evict_one E k u hb = Some (e, hb')" and "P hb"
  then have P1: "P (with_broker hb (del_deadline u (hb_broker hb)))" by (rule_tac P_same [OF _ same_del_deadline])
  show "P hb'"
  proof (cases "get_lock (hb_broker hb) k")
    case (Some l)
    then have "P (with_broker hb (set_lock k ((remove_holder u l)\<lparr>lockholderTimeouts := S\<rparr>) (del_deadline u (hb_broker hb))))" for S
      by (intro frame.weaken [where l = l, OF P1]) (simp_all add: locks_same [OF same_del_deadline])
    then have "P (with_broker hb (emit (Warn w) ((set_lock k ((remove_holder u l)\<lparr>lockholderTimeouts := S\<rparr>)
        (del_deadline u (hb_broker hb)))\<lparr>ttlEvictionsTotal := n\<rparr>)))" for S n w
      by (rule frame.P_emit [OF frame.same]) (simp_all add: same_grants_def)
    with ev Some P1 show ?thesis
      by (auto simp: h_evict_one_def Let_def returns_def locks_same [OF same_del_deadline] split: option.splits
          dest: P_ensureNewLockHolder)
  qed (use ev P1 in \<open>auto simp: h_evict_one_def returns_def locks_same [OF same_del_deadline]\<close>)
qed

lemma P_evict_all: "h_evict_all E es hb = Some (e, hb') \<Longrightarrow> P hb \<Longrightarrow> P hb'"
proof (induction es arbitrary: hb)
  case (Cons p es)
  then show ?case by (cases p) (auto elim!: P_then_do dest: P_evict_one)
qed (simp add: returns_def)

lemma P_sweep: "h_sweep E hb = Some (e, hb') \<Longrightarrow> P hb \<Longrightarrow> P hb'"
  by (auto simp: h_sweep_def h_tickTtl_def on_broker_with returns_def split: option.splits
      dest!: P_evict_all intro: P_warn)

subsection \<open>Readers and writers\<close>

lemma P_probe:
  assumes "h_probe f E r ws hb = Some (e, hb')" and "P hb"
    and "\<And>hb. P hb \<Longrightarrow> get_lock (hb_broker hb) (k_key r) \<noteq> None \<Longrightarrow> P (with_broker hb (f E r ws (hb_broker hb)))"
  shows "P hb'"
proof -
  obtain e1 hb1 where c: "h_ensure_lock E (k_key r) False hb = (e1, hb1)" by (rule prod.exhaust)
  have "P hb1" by (rule P_create [OF assms(2) c])
  then show ?thesis
    using assms(1,3) c h_ensure_lock_has [of "k_key r" False hb hb1]
    by (auto simp: h_probe_def on_broker_with returns_def split: option.splits)
qed

lemma P_probes:
  assumes "P hb" and "get_lock (hb_broker hb) (k_key r) \<noteq> None"
  shows "P (with_broker hb (incrementReaders E r ws (hb_broker hb)))"
    and "P (with_broker hb (decrementReaders E r ws (hb_broker hb)))"
    and "P (with_broker hb (registerWriteFlagCheck E r ws (hb_broker hb)))"
    and "P (with_broker hb (registerWriteFlagAndReadersCheck E r ws (hb_broker hb)))"
    and "P (with_broker hb (setWriteFlagToFalseAndBroadcast E r ws (hb_broker hb)))"
proof -
  have P: "P (with_broker hb (hb_broker hb))" using assms(1) by simp
  note unfold = incrementReaders_def decrementReaders_def registerWriteFlagCheck_def
    registerWriteFlagAndReadersCheck_def setWriteFlagToFalseAndBroadcast_def Let_def ensure_lock_present [OF assms(2)]
  show "P (with_broker hb (incrementReaders E r ws (hb_broker hb)))"
    unfolding unfold by (intro frame.P_send frame.P_with_lock P) (auto intro!: frame.weaken [OF P])
  show "P (with_broker hb (decrementReaders E r ws (hb_broker hb)))"
    unfolding unfold by (intro frame.P_send frame.P_with_lock P) (auto intro!: frame.P_broadcast frame.weaken [OF P])
  show "P (with_broker hb (registerWriteFlagCheck E r ws (hb_broker hb)))"
    unfolding unfold by (intro frame.P_with_lock P) (auto intro!: frame.P_send frame.same [OF P same_push_listener] P)
  show "P (with_broker hb (registerWriteFlagAndReadersCheck E r ws (hb_broker hb)))"
    unfolding unfold
    by (intro frame.P_with_lock P) (auto intro!: frame.P_send frame.weaken [OF P] frame.same [OF P same_push_listener])
  show "P (with_broker hb (setWriteFlagToFalseAndBroadcast E r ws (hb_broker hb)))"
    unfolding unfold by (intro frame.P_send frame.P_broadcast frame.P_with_lock P) (auto intro!: frame.weaken [OF P])
qed

subsection \<open>Connections\<close>

lemma P_force_unlock_each: "h_force_unlock_each E ws k us hb = Some (e, hb') \<Longrightarrow> P hb \<Longrightarrow> P hb'"
  by (induction us arbitrary: hb) (auto elim!: P_then_do dest: P_unlock P_returns)

lemma P_cleanup_key:
  assumes c: "h_cleanup_key E ws uuids k hb = Some (e, hb')" and "P hb"
  shows "P hb'"
proof (cases "get_lock (hb_broker hb) k")
  case (Some l)
  have "P (with_broker hb (set_lock k (l\<lparr>notify := q\<rparr>) (hb_broker hb)))" for q
    by (rule P_weaken [OF assms(2) Some]) simp
  then have "P (with_broker hb (fold del_deadline us (set_lock k (l\<lparr>notify := q\<rparr>) (hb_broker hb))))" for us q
    by (rule frame.P_fold) (rule frame.same [OF _ same_del_deadline])
  from this [of "[]"] this c Some show ?thesis
    by (auto simp: h_cleanup_key_def Let_def on_broker_with returns_def split: if_splits dest: P_force_unlock_each)
qed (use assms in \<open>simp add: h_cleanup_key_def returns_def\<close>)

lemma P_cleanup_locks: "h_cleanup_locks E ws uuids i hb = Some (e, hb') \<Longrightarrow> P hb \<Longrightarrow> P hb'"
proof -
  have "E0 = E \<longrightarrow> P hb0 \<longrightarrow> P (snd r)" if "h_cleanup_locks E0 ws0 us i hb0 = Some r" for E0 ws0 us i hb0 r
    by (rule h_cleanup_locks.raw_induct [where P = "\<lambda>E0 ws us i hb0 r. E0 = E \<longrightarrow> P hb0 \<longrightarrow> P (snd r)", OF _ that])
      (auto simp: returns_def split: if_splits option.splits prod.splits dest: P_cleanup_key)
  then show "h_cleanup_locks E ws uuids i hb = Some (e, hb') \<Longrightarrow> P hb \<Longrightarrow> P hb'" by fastforce
qed

lemma P_cleanupConnection:
  assumes c: "h_cleanupConnection E ws hb = Some (e, hb')" and "P hb"
  shows "P hb'"
proof (cases "lmxClosed (hb_broker hb) ws")
  case False
  have "P (with_broker hb (fold clear_reelection ks b1))" if "same_grants (hb_broker hb) b1" for ks b1
    by (rule frame.P_fold [OF P_same [OF assms(2) that]]) (rule frame.same [OF _ same_clear_reelection])
  then have "P (with_broker hb (fold clear_reelection ks ((hb_broker hb)\<lparr>lmxClosed := x, connectedClients := c,
      wsToKeys := wk, wsToUUIDs := wu\<rparr>)))" for ks x c wk wu
    by (simp add: same_grants_def)
  then show ?thesis
    using c False P_cleanup_locks by (simp add: h_cleanupConnection_def Let_def)
qed (use assms in \<open>simp add: h_cleanupConnection_def returns_def\<close>)

lemma P_destroy: "P hb \<Longrightarrow> P (with_broker hb (destroy_socket ws (hb_broker hb)))"
  by (rule P_same [OF _ same_destroy_socket])

lemma P_on_socket_end: "h_on_socket_end E ws hb = Some (e, hb') \<Longrightarrow> P hb \<Longrightarrow> P hb'"
  by (auto simp: h_on_socket_end_def on_broker_with elim!: P_then_do P_returns dest: P_cleanupConnection intro: P_destroy)

lemma P_fields:
  "P hb \<Longrightarrow> P (with_broker hb ((hb_broker hb)\<lparr>rejected := R\<rparr>))"
  by (rule P_same) (simp_all add: same_grants_def)

lemma P_onVersion:
  assumes v: "h_onVersion E v ws hb = Some (e, hb')" and "P hb"
  shows "P hb'"
proof (cases "compareVersions v (brokerVersion E)")
  case (Inl x)
  have "P (on_broker (\<lambda>b1. if errorListener b1
            then (let b2 = send ws (VersionMismatch v (brokerVersion E)) b1
                  in b2\<lparr>destroyTimeout := (destroyTimeout b2)(ws := True)\<rparr>)
            else emit (Warn UncaughtError) b1) hb1)" if "P hb1" for hb1
    using P_warn [OF that] frame.P_fields [OF P_send [OF that]] by (auto simp: on_broker_with Let_def)
  then show ?thesis
    using v [unfolded h_onVersion_def Inl] P_cleanupConnection [OF _ assms(2)]
    by (auto elim!: P_then_do P_returns)
qed (use assms in \<open>simp add: h_onVersion_def returns_def\<close>)

lemma P_lockRejected: "h_lockRejected E r uo hb = Some (e, hb') \<Longrightarrow> P hb \<Longrightarrow> P hb'"
  by (auto simp: h_lockRejected_def on_broker_with returns_def split: option.splits
      intro: P_warn P_fields dest!: P_ensureNewLockHolder)

subsection \<open>The step relation\<close>

fun request_ok :: "LMXRequest \<Rightarrow> bool" where
  "request_ok (LockReq r) = ok r"
| "request_ok _ = True"

text \<open>The requests in which the authority is not asked are the base broker's.\<close>

fun plain_request :: "LMXRequest \<Rightarrow> bool" where
  "plain_request EndConnectionReq = True"
| "plain_request DestroyConnectionReq = True"
| "plain_request VersionMismatchConfirmedReq = True"
| "plain_request (LsReq u) = True"
| "plain_request (LockReceivedReq r) = True"
| "plain_request (LockClientTimeoutReq r) = True"
| "plain_request (LockClientErrorReq r) = True"
| "plain_request (LockInfoRequestReq r) = True"
| "plain_request (PingReq u ts) = True"
| "plain_request _ = False"

lemma P_plain:
  "plain_request r \<Longrightarrow> dispatchRequest E r ws (hb_broker hb) = Some b' \<Longrightarrow> P hb \<Longrightarrow> P (with_broker hb b')"
  using frame.P_fields [of hb "hb_broker hb"] frame.P_lockGivenUp [of hb "hb_broker hb"]
    frame.P_retrieveLockInfo [of hb "hb_broker hb"]
  by (cases r) (auto simp: ls_def ping_def getSystemStats_def lockReceived_def abruptlyEndConnection_def
      abruptlyDestroyConnection_def destroy_socket_def
      intro: P_send P_warn P_same [OF _ same_clear_reelection])

lemma P_dispatchRequest:
  "h_dispatchRequest E r ws hb = Some (e, hb') \<Longrightarrow> request_ok r \<Longrightarrow> P hb \<Longrightarrow> P hb'"
proof -
  assume d: "h_dispatchRequest E r ws hb = Some (e, hb')" and ok: "request_ok r" and P: "P hb"
  show "P hb'"
  proof (cases "plain_request r")
    case True
    then have eq: "h_dispatchRequest E r ws hb =
        map_option (\<lambda>b. (None, with_broker hb b)) (dispatchRequest E r ws (hb_broker hb))"
      by (cases r) simp_all
    from d [unfolded eq] show ?thesis using P_plain [OF True _ P] by auto
  next
    case False
    then show ?thesis
      using d ok P
      by (cases r) (auto simp: h_getSystemStats_def returns_def on_broker_with
          dest: P_onVersion P_unlock P_releaseMany P_lockRejected P_lock P_acquireMany
          elim!: P_probe intro: P_probes P_send)
  qed
qed

lemma request_ok_normalise: "request_ok r \<Longrightarrow> request_ok (normalise_request r)"
  by (cases r) (simp_all add: frame.ok_ttl)

lemma P_onData:
  "h_onData E f ws hb = Some (e, hb') \<Longrightarrow> (\<And>r. f = Request r \<Longrightarrow> request_ok r) \<Longrightarrow> P hb \<Longrightarrow> P hb'"
  using frame.P_fields(2) [of hb "hb_broker hb"] frame.P_inspect [of hb "hb_broker hb"] frame.P_send [OF P_warn, of hb]
  by (auto simp: h_onData_def destroy_socket_def on_broker_with returns_def split: if_splits frame.splits
      dest: P_dispatchRequest [OF _ request_ok_normalise])

text \<open>The events whose handlers never ask the authority.\<close>

lemma P_plain_event:
  assumes "handle E ev (hb_broker hb) = Some b'" and "P hb" and "ev = Close \<Longrightarrow> closing"
    and "\<And>f ws. ev \<noteq> Frame f ws" "\<And>ws. ev \<noteq> SocketEnd ws" "ev \<noteq> SweepTick"
  shows "P (with_broker hb b')"
proof -
  have P: "P (with_broker hb (hb_broker hb))" using assms(2) by simp
  show ?thesis
  proof (cases ev)
    case (Accept ws)
    with assms(1) show ?thesis by (auto intro: P_same [OF assms(2) same_accept_connection])
  qed (use assms P in \<open>auto simp: destroy_socket_def onError_def startTtlSweeper_def stopTtlSweeper_def
      intro: frame.P_fields [OF P] frame.P_fire_reelection [OF P] frame.closed [OF _ P]\<close>)
qed

lemma P_handle:
  assumes h: "h_handle E ev hb = Some (e, hb')" and "\<And>r ws. ev = Frame (Request r) ws \<Longrightarrow> request_ok r" and "P hb"
    and "ev = Close \<Longrightarrow> closing"
  shows "P hb'"
proof (cases "(\<exists>f ws. ev = Frame f ws) \<or> (\<exists>ws. ev = SocketEnd ws) \<or> ev = SweepTick")
  case True
  then consider (frame) f ws where "ev = Frame f ws" | (fin) ws where "ev = SocketEnd ws" | (tick) "ev = SweepTick" by blast
  then show ?thesis
  proof cases
    case (frame f ws)
    then have "h_onData E f ws hb = Some (e, hb')" using h by simp
    then show ?thesis by (rule P_onData) (use frame assms in auto)
  qed (use h assms(3) in \<open>auto dest: P_on_socket_end P_sweep\<close>)
next
  case False
  then have eq: "h_handle E ev hb = map_option (\<lambda>b. (None, with_broker hb b)) (handle E ev (hb_broker hb))"
    by (cases ev) simp_all
  from h [unfolded eq] False show ?thesis using P_plain_event [OF _ assms(3,4)] by auto
qed

lemma request_ok_disciplined: "disciplined ok (Frame (Request r) ws) \<Longrightarrow> request_ok r"
  by (cases r) simp_all

end

text \<open>The discipline on the events, and what a property of every run still has to survive by itself:
  faults about to happen, and a restart.\<close>

fun h_disciplined :: "(lock_req \<Rightarrow> bool) \<Rightarrow> hevent \<Rightarrow> bool" where
  "h_disciplined ok (BrokerEvent ev) = disciplined ok ev"
| "h_disciplined ok _ = True"

locale hardened_runs = hardened_invariant E P ok closing may_grant
  for E :: "'q ext" and P :: "'q hardened \<Rightarrow> bool" and ok closing may_grant +
  fixes fl :: "string option"
  assumes faults: "P hb \<Longrightarrow> P (hb\<lparr>hb_faults := fs\<rparr>)"
    and restart: "P hb \<Longrightarrow> fencingWatermark (hb_auth hb) \<le> v \<Longrightarrow> v \<le> max_fencing_token \<Longrightarrow>
       h_restart fl n v x t hb = Some hb' \<Longrightarrow> P hb'"
    and closing: closing
begin

lemma P_step: "h_step E fl ev hb = Some hb' \<Longrightarrow> h_disciplined ok ev \<Longrightarrow> P hb \<Longrightarrow> P hb'"
  by (cases ev) (auto simp: not_less intro: faults closing restart dest: request_ok_disciplined elim!: P_handle split: if_splits)

lemma P_reachable: "h_reachable E fl (h_disciplined ok) hb0 hb \<Longrightarrow> P hb0 \<Longrightarrow> P hb"
  by (induction rule: h_reachable.induct) (auto intro: P_step)

end

end
