(* ===== verification/HardenedSafety.thy ===== *)
theory HardenedSafety
  imports HardenedReach BrokerCapacity BrokerFence Demo
begin

text \<open>
  Two interpretations of \<open>hardened_runs\<close>. The hardened broker is a run of the fencing authority: every
  event it handles, and every restart, is a sequence of the authority's events on the counters of its
  lock objects and the tokens it minted. And the bound on the holders of a key is that of the base
  broker.
\<close>

subsection \<open>The broker as a run of the authority\<close>

fun minted :: "event list \<Rightarrow> (string \<times> int) list" where
  "minted [] = []"
| "minted (Minted k i t # es) = (k, t) # minted es"
| "minted (e # es) = minted es"

definition authority_view :: "'q hardened \<Rightarrow> authority_run" where
  "authority_view hb = \<lparr>au = hb_auth hb,
     counters = (\<lambda>k. map_option nextFencingToken (get_lock (hb_broker hb) k)),
     granted = minted (out (hb_broker hb))\<rparr>"

definition runs_authority :: "string option \<Rightarrow> authority_run \<Rightarrow> 'q hardened \<Rightarrow> bool" where
  "runs_authority fl s0 hb \<longleftrightarrow> jsmap_wf (locks (hb_broker hb)) \<and> (\<exists>es. run_authority fl es s0 = authority_view hb)"

lemma minted_append [simp]: "minted (xs @ ys) = minted xs @ minted ys"
  by (induction xs rule: minted.induct) auto

lemma minted_mints: "minted (mints b) = minted (out b)"
proof -
  have "minted (filter is_mint es) = minted es" for es by (induction es rule: minted.induct) auto
  then show ?thesis by (simp add: mints_def)
qed

lemma minted_sent [simp]: "minted (out (emit (Sent ws r) b)) = minted (out b)"
  by (simp add: emit_def)

lemma run_authority_simps [simp]:
  "run_authority fl [] s = s" "run_authority fl (e # es) s = run_authority fl es (authority_step fl e s)"
  "run_authority fl (es @ es') s = run_authority fl es' (run_authority fl es s)"
  by (simp_all add: run_authority_def)

lemma run_drops:
  "run_authority fl (map DropObject ks) s = s\<lparr>counters := (\<lambda>k. if k \<in> set ks then None else counters s k)\<rparr>"
  by (induction ks arbitrary: s) (auto simp: fun_eq_iff)

lemma runs_more:
  assumes "runs_authority fl s0 hb" and "jsmap_wf (locks (hb_broker hb'))"
    and "run_authority fl es (authority_view hb) = authority_view hb'"
  shows "runs_authority fl s0 hb'"
proof -
  obtain es0 where "run_authority fl es0 s0 = authority_view hb" using assms(1) by (auto simp: runs_authority_def)
  then have "run_authority fl (es0 @ es) s0 = authority_view hb'" using assms(3) by simp
  then show ?thesis using assms(2) unfolding runs_authority_def by blast
qed

lemma runs_same_view:
  "runs_authority fl s0 hb \<Longrightarrow> jsmap_wf (locks (hb_broker hb')) \<Longrightarrow> authority_view hb' = authority_view hb \<Longrightarrow>
   runs_authority fl s0 hb'"
  by (rule runs_more [where es = "[]"]) simp_all

lemma view_same_grants:
  "same_grants (hb_broker hb) b' \<Longrightarrow> authority_view (with_broker hb b') = authority_view hb"
  using minted_mints [of b'] minted_mints [of "hb_broker hb"]
  by (simp add: authority_view_def same_grants_def)

lemma view_set_lock:
  "get_lock (hb_broker hb) k = Some l \<Longrightarrow> nextFencingToken l' = nextFencingToken l \<Longrightarrow>
   authority_view (with_broker hb (set_lock k l' (hb_broker hb))) = authority_view hb"
  by (auto simp: authority_view_def set_lock_def fun_eq_iff)

lemma runs_dropped:
  assumes "runs_authority fl s0 hb" and "locks b' = filter Q (locks (hb_broker hb))" "minted (out b') = minted (out (hb_broker hb))"
  shows "runs_authority fl s0 (with_broker hb b')"
proof (rule runs_more [OF assms(1)])
  have wf: "jsmap_wf (locks (hb_broker hb))" using assms(1) by (simp add: runs_authority_def)
  then show "jsmap_wf (locks (hb_broker (with_broker hb b')))" by (simp add: assms(2) distinct_map_filter)
  define gone where "gone = map fst (filter (\<lambda>p. \<not> Q p) (locks (hb_broker hb)))"
  have g: "get_lock b' k = (if k \<in> set gone then None else get_lock (hb_broker hb) k)" for k
  proof (cases "get_lock (hb_broker hb) k")
    case None
    then have "k \<notin> fst ` set (locks (hb_broker hb))" by (simp add: map_of_eq_None_iff)
    then show ?thesis using None wf by (simp add: assms(2) map_of_filter_wf)
  next
    case (Some l)
    have l: "(k, l') \<in> set (locks (hb_broker hb)) \<longleftrightarrow> l' = l" for l'
      unfolding map_of_eq_Some_iff [OF wf, symmetric] Some by blast
    have "k \<in> set gone \<longleftrightarrow> (\<exists>l'. (k, l') \<in> set (locks (hb_broker hb)) \<and> \<not> Q (k, l'))"
      by (auto simp: gone_def image_iff)
    then have "k \<in> set gone \<longleftrightarrow> \<not> Q (k, l)" by (simp add: l)
    then show ?thesis using Some wf by (simp add: assms(2) map_of_filter_wf)
  qed
  have "(if k \<in> set gone then None else map_option nextFencingToken (get_lock (hb_broker hb) k)) =
      map_option nextFencingToken (get_lock b' k)" for k
    unfolding g by (cases "k \<in> set gone") simp_all
  then show "run_authority fl (map DropObject gone) (authority_view hb) = authority_view (with_broker hb b')"
    unfolding run_drops authority_view_def by (simp only: authority_run.simps with_broker_simps assms(3))
qed

subsection \<open>New lock objects and raised counters\<close>

definition next_fault :: "'q hardened \<Rightarrow> disk_call option" where
  "next_fault hb = (case hb_faults hb of [] \<Rightarrow> None | e # es \<Rightarrow> e)"

lemma runs_create:
  assumes "runs_authority fl s0 hb" and none: "get_lock (hb_broker hb) k = None"
    and c: "h_create_lock E k keep mx mr mw hb = (e, hb1)"
  shows "runs_authority fl s0 hb1"
proof -
  let ?a = "(hb_auth hb)\<lparr>fail_at := next_fault hb\<rparr>"
  obtain r a where s: "seed_token (now (hb_broker hb)) ?a = (r, a)" by (rule prod.exhaust)
  have wf: "jsmap_wf (locks (hb_broker hb))" using assms(1) by (simp add: runs_authority_def)
  show ?thesis
  proof (rule runs_more [OF assms(1), where es = "[NextFailure (next_fault hb), NewObject k (now (hb_broker hb))]"])
    show "jsmap_wf (locks (hb_broker hb1))"
      using c s wf by (auto simp: h_create_lock_def with_authority_def next_fault_def on_broker_def set_lock_def Let_def
          split: sum.splits)
    show "run_authority fl [NextFailure (next_fault hb), NewObject k (now (hb_broker hb))] (authority_view hb) = authority_view hb1"
      using c s none
      by (auto simp: h_create_lock_def with_authority_def next_fault_def on_broker_def set_lock_def authority_view_def
          Let_def fun_eq_iff split: sum.splits)
  qed
qed

lemma set_token_inc: "set_token c (js_inc c) a = set_token c (c + 1) a"
  by (simp add: set_token_def js_inc_def max_fencing_token_def max_safe_integer_def two53_def)

lemma set_token_granted: "set_token c (js_inc c) a = (None, a') \<Longrightarrow> js_inc c = c + 1"
  by (simp add: set_token_def js_inc_def split: if_splits)

lemma view_increment:
  assumes l: "get_lock (hb_broker hb) k = Some l" and t: "raise_token l hb = (e, hb1)"
  shows "authority_step fl (Increment k) (authority_step fl (NextFailure (next_fault hb)) (authority_view hb)) =
    (if e = None
     then (authority_view hb1)\<lparr>counters := (counters (authority_view hb1))(k \<mapsto> js_inc (nextFencingToken l)),
            granted := granted (authority_view hb1) @ [(k, js_inc (nextFencingToken l))]\<rparr>
     else authority_view hb1)"
proof -
  let ?c = "nextFencingToken l" and ?a = "(hb_auth hb)\<lparr>fail_at := next_fault hb\<rparr>"
  have s: "set_token ?c (js_inc ?c) ?a = (e, hb_auth hb1)" "hb_broker hb1 = hb_broker hb"
    using t by (auto simp: raise_token_def with_authority_def next_fault_def Let_def split: prod.splits)
  then have step: "set_token ?c (?c + 1) ?a = (e, hb_auth hb1)" by (simp add: set_token_inc)
  show ?thesis
  proof (cases e)
    case None
    with s have "js_inc ?c = ?c + 1" using set_token_granted by blast
    with None step s(2) l show ?thesis by (simp add: authority_view_def)
  next
    case (Some err)
    with step s(2) l show ?thesis by (simp add: authority_view_def)
  qed
qed

lemma runs_refused:
  assumes "runs_authority fl s0 hb" "get_lock (hb_broker hb) k = Some l" "raise_token l hb = (Some err, hb1)"
  shows "runs_authority fl s0 hb1"
proof (rule runs_more [OF assms(1), where es = "[NextFailure (next_fault hb), Increment k]"])
  show "jsmap_wf (locks (hb_broker hb1))"
    using assms(1) raise_token_with [OF assms(3)] by (simp add: runs_authority_def)
  show "run_authority fl [NextFailure (next_fault hb), Increment k] (authority_view hb) = authority_view hb1"
    unfolding run_authority_simps view_increment [OF assms(2,3)] by simp
qed

lemma runs_install:
  assumes "runs_authority fl s0 hb" "get_lock (hb_broker hb) k = Some l0" "weaker l0 l"
    and t: "raise_token l0 hb = (None, hb1)"
  shows "runs_authority fl s0 (with_broker hb1 (snd (install_holder k u ws pid cid x l (hb_broker hb))))"
proof (rule runs_more [OF assms(1), where es = "[NextFailure (next_fault hb), Increment k]"])
  let ?hb = "with_broker hb1 (snd (install_holder k u ws pid cid x l (hb_broker hb)))"
  show "jsmap_wf (locks (hb_broker ?hb))"
    using assms(1) by (simp add: runs_authority_def install_holder_def set_lock_def Let_def)
  have "hb_broker hb1 = hb_broker hb" using raise_token_with [OF t] by simp
  then show "run_authority fl [NextFailure (next_fault hb), Increment k] (authority_view hb) = authority_view ?hb"
    unfolding run_authority_simps view_increment [OF assms(2) t]
    using assms(3) by (simp add: authority_view_def install_holder_def emit_def set_lock_def Let_def weaker_def fun_eq_iff)
qed

lemma runs_frame: "broker_frame E (\<lambda>b. runs_authority fl s0 (with_broker hb b)) (\<lambda>r. True) True"
proof unfold_locales
  show "runs_authority fl s0 (with_broker hb b')" if "runs_authority fl s0 (with_broker hb b)" "same_grants b b'" for b b'
    using view_same_grants [of "with_broker hb b" b'] that
    by (intro runs_same_view [OF that(1)]) (auto simp: runs_authority_def same_grants_def)
  show "runs_authority fl s0 (with_broker hb (set_lock k l' b))"
    if "runs_authority fl s0 (with_broker hb b)" "get_lock b k = Some l" "weaker l l'" for b k l l'
    using view_set_lock [of "with_broker hb b" k l l'] that
    by (intro runs_same_view [OF that(1)]) (auto simp: runs_authority_def set_lock_def weaker_def)
  show "runs_authority fl s0 (with_broker hb (set_lock (l_key r) (update_limits r l) b))"
    if "runs_authority fl s0 (with_broker hb b)" "get_lock b (l_key r) = Some l" for b r l
    using view_set_lock [of "with_broker hb b" "l_key r" l "update_limits r l"] that
    by (intro runs_same_view [OF that(1)]) (auto simp: runs_authority_def set_lock_def)
  show "runs_authority fl s0 (with_broker hb (emit (Sent ws rep) b))"
    if "runs_authority fl s0 (with_broker hb b)" for b ws rep
    by (rule runs_same_view [OF that]) (use that in \<open>simp_all add: runs_authority_def authority_view_def\<close>)
  show "runs_authority fl s0 (with_broker hb (cleanUpLocks E b))" if "runs_authority fl s0 (with_broker hb b)" for b
    using runs_dropped [OF that, of "cleanUpLocks E b"] by (simp add: cleanUpLocks_def)
  show "runs_authority fl s0 (with_broker hb (close b))" if "runs_authority fl s0 (with_broker hb b)" for b
  proof -
    have "out (fold destroy_socket ws b') = out b'" for ws and b' :: "'a broker"
      by (induction ws arbitrary: b') (simp_all add: destroy_socket_def)
    then have "out (close b) = out b" by (simp add: close_def stopTtlSweeper_def Let_def)
    then show ?thesis using runs_dropped [OF that, of "close b" "\<lambda>p. False"] by (simp add: close_def Let_def)
  qed
  show "runs_authority fl s0 (with_broker hb (update_object i f b))"
    if "runs_authority fl s0 (with_broker hb b)" "\<And>l. weaker l (f l)" for b i f
  proof (rule runs_same_view [OF that(1)])
    have l: "locks (update_object i f b) = map (\<lambda>(k, l). (k, if lo_id l = i then f l else l)) (locks b)"
      by (simp add: update_object_def)
    then have "map fst (locks (update_object i f b)) = map fst (locks b)" by (simp add: case_prod_unfold comp_def)
    then show "jsmap_wf (locks (hb_broker (with_broker hb (update_object i f b))))"
      using that(1) by (simp add: runs_authority_def)
    have "get_lock (update_object i f b) k = map_option (\<lambda>l. if lo_id l = i then f l else l) (get_lock b k)" for k
      unfolding l using map_of_map [of "\<lambda>l. if lo_id l = i then f l else l" "locks b"] by (simp add: fun_eq_iff)
    then show "authority_view (with_broker hb (update_object i f b)) = authority_view (with_broker hb b)"
      using that(2)
      by (auto simp: authority_view_def weaker_def fun_eq_iff update_object_def option.map_comp comp_def intro: option.map_cong)
  qed
qed simp_all

lemma runs_restart:
  assumes "runs_authority fl s0 hb" "fencingWatermark (hb_auth hb) \<le> v" "v \<le> max_fencing_token"
    and "h_restart fl n v x t hb = Some hb'"
  shows "runs_authority fl s0 hb'"
  by (rule runs_more [OF assms(1), where es = "[Restart n v]"])
    (use assms(2-) in \<open>auto simp: h_restart_def authority_view_def reborn_def init_broker_def fun_eq_iff split: sum.splits\<close>)

interpretation fenced: hardened_runs E "runs_authority fl s0" "\<lambda>r. True" True "\<lambda>k l. True" fl for E fl s0
proof (intro hardened_runs.intro hardened_invariant.intro hardened_runs_axioms.intro runs_frame)
  show "runs_authority fl s0 (hb\<lparr>hb_faults := fs\<rparr>)" if "runs_authority fl s0 hb" for hb fs
    by (rule runs_same_view [OF that]) (use that in \<open>simp_all add: runs_authority_def authority_view_def\<close>)
qed (auto intro: runs_create runs_install runs_refused runs_restart)

lemma runs_start: "runs_authority fl (start_authority a) (h_start a x t)"
  by (rule runs_same_view [where hb = "h_start a x t"])
    (auto simp: runs_authority_def h_start_def init_broker_def authority_view_def start_authority_def
      intro: exI [of _ "[]"])

lemma h_disciplined_True: "h_disciplined (\<lambda>r. True) = (\<lambda>ev. True)"
proof
  show "h_disciplined (\<lambda>r. True) ev = True" for ev
    by (cases ev) (simp_all add: disciplined_True)
qed

text \<open>C5: The hardened broker implements the abstract fencing authority: whatever it handles, whatever system calls
  fail in it, and however often it is killed and started again, its watermark and state file, the
  counters of its lock objects and the history of the tokens it minted are those that a run of the
  authority reaches.\<close>

theorem hardened_refines_authority:
  assumes "h_reachable E fl (\<lambda>ev. True) (h_start a x t) hb"
  shows "\<exists>es. run_authority fl es (start_authority a) = authority_view hb"
proof -
  have "h_reachable E fl (h_disciplined (\<lambda>r. True)) (h_start a x t) hb"
    using assms by (simp add: h_disciplined_True)
  from fenced.P_reachable [OF this runs_start] show ?thesis by (simp add: runs_authority_def)
qed

text \<open>C4: With a state path, the tokens the hardened broker mints for a key increase strictly for ever, over all the
  lock objects the key ever had, with failing system calls, clocks that run backwards, and kills in the
  middle of writing the state file; none is above the watermark, and a broker that starts on the
  disk as it is opens at or above that watermark.\<close>

theorem hardened_tokens_increase:
  assumes "open_authority fl True d = Inr a" and "h_reachable E fl (\<lambda>ev. True) (h_start a x t) hb"
  shows "sorted_wrt (<) (tokens_for k (minted (out (hb_broker hb)))) \<and>
    (\<forall>p \<in> set (minted (out (hb_broker hb))). snd p \<le> fencingWatermark (hb_auth hb)) \<and>
    (\<exists>a'. open_authority fl True (a_disk (hb_auth hb)) = Inr a' \<and> fencingWatermark (hb_auth hb) \<le> fencingWatermark a')"
proof -
  have "h_reachable E fl (h_disciplined (\<lambda>r. True)) (h_start a x t) hb"
    using assms(2) by (simp add: h_disciplined_True)
  from fenced.P_reachable [OF this runs_start]
  obtain es where es: "run_authority fl es (start_authority a) = authority_view hb" by (auto simp: runs_authority_def)
  have "run_ok fl (start_authority a)"
    using open_authority_ok [OF assms(1)] by (simp add: run_ok_def start_authority_def)
  then have "run_ok fl (run_authority fl es (start_authority a))"
    unfolding run_authority_def by (induction es rule: rev_induct) (simp_all add: run_ok_step)
  then have ok: "run_ok fl (authority_view hb)" by (simp add: es)
  then have "authority_ok (hb_auth hb)" "fencingStatePath (hb_auth hb)" "configuredFloor fl = Inr (fencingTokenFloor (hb_auth hb))"
    by (simp_all add: run_ok_def authority_view_def)
  from reopen_not_below [OF this, of "fencingWatermark (hb_auth hb)" 0]
  have "\<exists>a'. open_authority fl True (a_disk (hb_auth hb)) = Inr a' \<and> fencingWatermark (hb_auth hb) \<le> fencingWatermark a'"
    using \<open>authority_ok (hb_auth hb)\<close> by (simp add: authority_ok_def crash_during_def)
  with ok show ?thesis by (auto simp: run_ok_def authority_view_def)
qed

text \<open>Two clients, an interrupted write and a clock set back: the token goes on from the watermark.\<close>

definition hardened_story :: "hevent list" where
  "hardened_story = map BrokerEvent (join 1 @ [recv 1 (LockReq (ask ''a'' ''k'' Undefined))])
     @ [Restarted 3 9 4000 2] @ map BrokerEvent (join 2 @ [recv 2 (LockReq (ask ''b'' ''k'' Undefined))])
     @ [Faults [Some OpenTemp, Some OpenTemp]] @ map BrokerEvent [recv 2 (LockReq (ask ''c'' ''j'' Undefined))]"

definition story_authority :: authority where
  "story_authority = \<lparr>fencingTokenFloor = 0, fencingStatePath = True, fencingWatermark = 0,
     a_disk = empty_disk, fail_at = None\<rparr>"

lemma hardened_story_run:
  "\<exists>hb. h_run demo None hardened_story (h_start story_authority 4000 5) = Some hb \<and>
     minted (out (hb_broker hb)) = [(''k'', 6), (''k'', 7)] \<and> fencingWatermark (hb_auth hb) = 7 \<and>
     map (map fst \<circ> lockholders \<circ> snd) (locks (hb_broker hb)) = [[''b''], []]"
proof -
  let ?run = "h_run demo None hardened_story (h_start story_authority 4000 5)"
  define hb where "hb = the ?run"
  have "?run \<noteq> None" by code_simp
  moreover have "minted (out (hb_broker hb)) = [(''k'', 6), (''k'', 7)]" "fencingWatermark (hb_auth hb) = 7"
    "map (map fst \<circ> lockholders \<circ> snd) (locks (hb_broker hb)) = [[''b''], []]"
    unfolding hb_def by code_simp+
  ultimately show ?thesis by (intro exI [of _ hb]) (auto simp: hb_def)
qed

theorem hardened_refines_authority_witness:
  "\<exists>hb es. h_run demo None hardened_story (h_start story_authority 4000 5) = Some hb \<and>
     run_authority None es (start_authority story_authority) = authority_view hb \<and>
     granted (authority_view hb) = [(''k'', 6), (''k'', 7)]"
proof -
  from hardened_story_run obtain hb where hb: "h_run demo None hardened_story (h_start story_authority 4000 5) = Some hb"
    "minted (out (hb_broker hb)) = [(''k'', 6), (''k'', 7)]" by blast
  have "list_all (\<lambda>ev. True) hardened_story" by (simp add: list_all_iff)
  from hardened_refines_authority [OF h_run_reachable [OF this hb(1)]] hb show ?thesis
    by (auto simp: authority_view_def)
qed

theorem hardened_tokens_increase_witness:
  "\<exists>a hb. open_authority None True empty_disk = Inr a \<and>
     h_run demo None hardened_story (h_start a 4000 5) = Some hb \<and>
     tokens_for ''k'' (minted (out (hb_broker hb))) = [6, 7] \<and>
     sorted_wrt (<) (tokens_for ''k'' (minted (out (hb_broker hb))))"
proof -
  from hardened_story_run obtain hb where hb: "h_run demo None hardened_story (h_start story_authority 4000 5) = Some hb"
    "minted (out (hb_broker hb)) = [(''k'', 6), (''k'', 7)]" by blast
  have a: "open_authority None True empty_disk = Inr story_authority" unfolding story_authority_def by code_simp
  have "list_all (\<lambda>ev. True) hardened_story" by (simp add: list_all_iff)
  from hardened_tokens_increase [OF a h_run_reachable [OF this hb(1)], of "''k''"] a hb show ?thesis by auto
qed

subsection \<open>The number of holders\<close>

lemma cap_h_create:
  assumes "cap_inv k m (hb_broker hb)"
    and "k' = k \<Longrightarrow> mr = None \<and> (\<forall>w. mw = Some w \<longrightarrow> w \<le> m) \<and> (\<forall>x. mx = Some x \<longrightarrow> x \<le> m)"
    and c: "h_create_lock E k' keep mx mr mw hb = (e, hb1)"
  shows "cap_inv k m (hb_broker hb1)"
proof -
  obtain r hb2 where s: "with_authority (seed_token (now (hb_broker hb))) hb = (r, hb2)" by (rule prod.exhaust)
  then have b2: "hb_broker hb2 = hb_broker hb" by (auto dest: with_authority_with)
  have m: "1 \<le> m" using assms(1) by (simp add: cap_inv_def)
  have "cap_inv k m (set_lock k' ((getDefaultLockObject E b k' keep mx mr mw)\<lparr>nextFencingToken := seed\<rparr>) (b\<lparr>next_lo_id := i\<rparr>))"
    if "cap_inv k m b" for b :: "'a broker" and seed i
  proof (rule cap_set_lock)
    show "cap_inv k m (b\<lparr>next_lo_id := i\<rparr>)" using that by (simp add: cap_inv_def)
    show "lock_within m ((getDefaultLockObject E b k' keep mx mr mw)\<lparr>nextFencingToken := seed\<rparr>)" if "k' = k"
      using assms(2) [OF that] m by (auto simp: lock_within_def getDefaultLockObject_def split: option.split)
  qed
  then show ?thesis
    using c s b2 assms(1) by (auto simp: h_create_lock_def on_broker_def Let_def split: sum.splits)
qed

interpretation h_capacity: hardened_runs E "\<lambda>hb. cap_inv k m (hb_broker hb)" "within k m" True
    "\<lambda>k' l. k' = k \<longrightarrow> length (lockholders l) < max_capacity l" fl for E k m fl
proof (intro hardened_runs.intro hardened_invariant.intro hardened_runs_axioms.intro)
  show "broker_frame E (\<lambda>b. cap_inv k m (hb_broker (with_broker hb b))) (within k m) True" for hb
    using capacity.broker_frame_axioms [of E k m] by simp
  show "cap_inv k m (hb_broker hb1)"
    if "cap_inv k m (hb_broker hb)" "h_create_lock E k' keep (Some 1) None None hb = (e, hb1)" for hb k' keep e hb1
    using that(1) _ that(2) by (rule cap_h_create) (use that in \<open>auto simp: cap_inv_def\<close>)
  show "cap_inv k m (hb_broker hb1)"
    if "cap_inv k m (hb_broker hb)" "within k m r"
      "h_create_lock E (l_key r) (l_keep r)
            (if is_integer (l_max r) then Some (limit (l_max r)) else None)
            (if beginRead r then Some (case requested_limit (l_maxRead r) (l_max r) of
               None \<Rightarrow> 10 | Some m \<Rightarrow> m) else None)
            (if beginWrite r then Some (case requested_limit (l_maxWrite r) (l_max r) of
               None \<Rightarrow> 1 | Some m \<Rightarrow> m) else None) hb = (e, hb1)" for hb r e hb1
    using that(1) _ that(3) by (rule cap_h_create)
      (use that in \<open>auto simp: within_def cap_inv_def requested_limit_def\<close>)
  show "cap_inv k m (hb_broker (with_broker hb1 (snd (install_holder k' u ws pid cid x l (hb_broker hb)))))"
    if "cap_inv k m (hb_broker hb)" "get_lock (hb_broker hb) k' = Some l0" "weaker l0 l"
      "k' = k \<longrightarrow> length (lockholders l0) < max_capacity l0" for hb k' l0 l hb1 u ws pid cid x
    using cap_install [OF that] by simp
  show "cap_inv k m (hb_broker hb1)" if "cap_inv k m (hb_broker hb)" "raise_token l hb = (Some err, hb1)" for hb l err hb1
    using that raise_token_with [OF that(2)] by simp
  show "cap_inv k m (hb_broker hb')" if "cap_inv k m (hb_broker hb)" "h_restart fl n v x t hb = Some hb'" for hb n v x t hb'
    using that by (auto simp: h_restart_def reborn_def init_broker_def cap_inv_def split: sum.splits)
qed (auto simp: within_def beginRead_def beginWrite_def)

text \<open>C32: Mutual exclusion holds for the hardened broker too, within the life of a process: if no request for a key
  is a \<open>BeginRead\<close> or asks for a \<open>max\<close> or \<open>maxWrite\<close> above \<open>m\<close>, the key never has more than \<open>m\<close> holders,
  whatever handlers were cut short by the authority.\<close>

theorem hardened_mutual_exclusion:
  assumes "h_reachable E fl (h_disciplined (within k m)) (h_start a x t) hb" and "1 \<le> m"
    and "get_lock (hb_broker hb) k = Some l"
  shows "length (lockholders l) \<le> m"
proof -
  have "cap_inv k m (hb_broker (h_start a x t :: 'a hardened))"
    using assms(2) by (simp add: h_start_def init_broker_def cap_inv_def)
  from h_capacity.P_reachable [OF assms(1) this] show ?thesis
    using cap_get [OF _ assms(3)] by (simp add: lock_within_def)
qed

theorem hardened_mutual_exclusion_witness:
  "\<exists>hb l. h_run demo None hardened_story (h_start story_authority 4000 5) = Some hb \<and>
     get_lock (hb_broker hb) ''k'' = Some l \<and> map fst (lockholders l) = [''b''] \<and> length (lockholders l) \<le> 1"
proof -
  let ?run = "h_run demo None hardened_story (h_start story_authority 4000 5)"
  define hb where "hb = the ?run"
  have "?run \<noteq> None" by code_simp
  then have hb: "?run = Some hb" by (simp add: hb_def)
  have "map_option (map fst \<circ> lockholders) (get_lock (hb_broker hb) ''k'') = Some [''b'']"
    unfolding hb_def by code_simp
  then obtain l where l: "get_lock (hb_broker hb) ''k'' = Some l" "map fst (lockholders l) = [''b'']" by auto
  have "list_all (h_disciplined (within ''k'' 1)) hardened_story"
    by (simp add: hardened_story_def join_def recv_def ask_def within_def beginRead_def)
  from hardened_mutual_exclusion [OF h_run_reachable [OF this hb] _ l(1)] hb l show ?thesis by auto
qed

end
