(* ===== verification/LegacyState.thy ===== *)
theory LegacyState
  imports BrokerState
begin

text \<open>
  \<open>Broker\<close> (\<open>src/src/broker.ts\<close>), the class that \<open>main.ts\<close> still exports beside \<open>Broker1\<close>: its state, the
  hand-over to waiters and the re-election timer. It has no fencing tokens, no composites and no
  sweeper: every hold that ends has a timer of its own.

  A timer is its number, as \<open>setTimeout\<close> returns it, and the variables of its closure. The limits of a
  request are integers or absent, as \<open>protocol.ts\<close> types them; this broker does not check that.
\<close>

subsection \<open>State\<close>

record legacy_holder =
  lh_pid :: int
  lh_ws :: sock
  lh_uuid :: string
  lh_timer :: "nat option"

record legacy_notify =
  ln_ws :: sock
  ln_uuid :: string
  ln_pid :: int
  ln_ttl :: js_number
  ln_keep :: bool

record 'q legacy_lock_obj =
  ll_id :: nat
  ll_readers :: nat
  ll_max :: int
  ll_maxRead :: "int option"
  ll_maxWrite :: "int option"
  ll_lockholderTimeouts :: "string set"
  ll_lockholdersAllReleased :: "string set"
  ll_lockholders :: "(string, legacy_holder) jsmap"
  ll_notify :: 'q
  ll_keep :: bool
  ll_writerFlag :: bool
  ll_timestampEmptied :: "int option"
  ll_isViaShell :: bool

text \<open>The timer of a hold; \<open>ht_created\<close> tells the closure of the request that made the lock object, which
  looks at \<open>max\<close> alone.\<close>

record holder_timer =
  ht_key :: string
  ht_uuid :: string
  ht_created :: bool

record 'q legacy_env = "('q, legacy_notify) linked_queue_ops" +
  lg_debugging :: bool
  lg_version :: string

record 'q legacy =
  lb_lockExpiresAfter :: int
  lb_locks :: "(string, 'q legacy_lock_obj) jsmap"
  lb_orphans :: "(nat, 'q legacy_lock_obj) jsmap"
  lb_rejected :: "string set"
  lb_timeouts :: "(string, legacy_notify) jsmap"     \<comment> \<open>re-election timers, by the waiter they close over\<close>
  lb_timers :: "(nat, holder_timer) jsmap"
  lb_wsToUUIDs :: "sock \<Rightarrow> string list option"
  lb_wsToKeys :: "sock \<Rightarrow> string list option"
  lb_lockCounts :: nat
  lb_connectedClients :: "sock list"
  lb_registeredListeners :: "string \<Rightarrow> listener list"
  lb_writable :: "sock \<Rightarrow> bool"
  lb_lmxClosed :: "sock \<Rightarrow> bool"
  lb_destroyTimeout :: "sock \<Rightarrow> bool"
  lb_errorListener :: bool
  lb_now :: int
  lb_next_timer :: nat
  lb_next_id :: nat
  lb_out :: "event list"

definition init_legacy :: "int \<Rightarrow> int \<Rightarrow> 'q legacy" where
  "init_legacy expires t = \<lparr>
     lb_lockExpiresAfter = expires, lb_locks = [], lb_orphans = [], lb_rejected = {}, lb_timeouts = [],
     lb_timers = [], lb_wsToUUIDs = (\<lambda>_. None), lb_wsToKeys = (\<lambda>_. None), lb_lockCounts = 0,
     lb_connectedClients = [], lb_registeredListeners = (\<lambda>_. []), lb_writable = (\<lambda>_. False),
     lb_lmxClosed = (\<lambda>_. False), lb_destroyTimeout = (\<lambda>_. False), lb_errorListener = False,
     lb_now = t, lb_next_timer = 0, lb_next_id = 0, lb_out = []\<rparr>"

subsection \<open>Primitive operations\<close>

abbreviation legacy_get :: "'q legacy \<Rightarrow> string \<Rightarrow> 'q legacy_lock_obj option" where
  "legacy_get b k \<equiv> map_of (lb_locks b) k"

definition legacy_set :: "string \<Rightarrow> 'q legacy_lock_obj \<Rightarrow> 'q legacy \<Rightarrow> 'q legacy" where
  "legacy_set k l b = b\<lparr>lb_locks := AList.update k l (lb_locks b)\<rparr>"

definition legacy_emit :: "event \<Rightarrow> 'q legacy \<Rightarrow> 'q legacy" where
  "legacy_emit e b = b\<lparr>lb_out := lb_out b @ [e]\<rparr>"

definition legacy_send :: "sock \<Rightarrow> response \<Rightarrow> 'q legacy \<Rightarrow> 'q legacy" where
  "legacy_send ws r b = (if lb_writable b ws then legacy_emit (Sent ws r) b else legacy_emit (Warn NotWritable) b)"

definition legacy_with_lock ::
  "string \<Rightarrow> ('q legacy_lock_obj \<Rightarrow> 'q legacy \<Rightarrow> 'q legacy) \<Rightarrow> 'q legacy \<Rightarrow> 'q legacy" where
  "legacy_with_lock k f b = (case legacy_get b k of None \<Rightarrow> b | Some l \<Rightarrow> f l b)"

text \<open>\<open>max || 1\<close>\<close>

definition or_one :: "int \<Rightarrow> int" where
  "or_one n = (if n = 0 then 1 else n)"

definition legacy_getDefaultLockObject ::
  "'q legacy_env \<Rightarrow> 'q legacy \<Rightarrow> bool \<Rightarrow> int option \<Rightarrow> int option \<Rightarrow> int option \<Rightarrow> 'q legacy_lock_obj" where
  "legacy_getDefaultLockObject E b keep mx mr mw = \<lparr>
     ll_id = lb_next_id b, ll_readers = 0, ll_max = (case mx of None \<Rightarrow> 1 | Some m \<Rightarrow> or_one m),
     ll_maxRead = mr, ll_maxWrite = mw, ll_lockholderTimeouts = {}, ll_lockholdersAllReleased = {},
     ll_lockholders = [], ll_notify = lq_new E, ll_keep = keep, ll_writerFlag = False,
     ll_timestampEmptied = None, ll_isViaShell = False\<rparr>"

definition legacy_create_lock ::
  "'q legacy_env \<Rightarrow> string \<Rightarrow> bool \<Rightarrow> int option \<Rightarrow> int option \<Rightarrow> int option \<Rightarrow> 'q legacy \<Rightarrow> 'q legacy" where
  "legacy_create_lock E k keep mx mr mw b =
     legacy_set k (legacy_getDefaultLockObject E b keep mx mr mw) (b\<lparr>lb_next_id := Suc (lb_next_id b)\<rparr>)"

definition legacy_ensure_lock :: "'q legacy_env \<Rightarrow> string \<Rightarrow> 'q legacy \<Rightarrow> 'q legacy" where
  "legacy_ensure_lock E k b =
     (case legacy_get b k of Some _ \<Rightarrow> b | None \<Rightarrow> legacy_create_lock E k False (Some 1) None None b)"

definition legacy_add_ws_key :: "sock \<Rightarrow> string \<Rightarrow> 'q legacy \<Rightarrow> 'q legacy" where
  "legacy_add_ws_key ws k b = b\<lparr>lb_wsToKeys := (lb_wsToKeys b)
     (ws \<mapsto> hash_set k (case lb_wsToKeys b ws of None \<Rightarrow> [] | Some ks \<Rightarrow> ks))\<rparr>"

definition legacy_del_ws_key :: "sock \<Rightarrow> string \<Rightarrow> 'q legacy \<Rightarrow> 'q legacy" where
  "legacy_del_ws_key ws k b =
     (case lb_wsToKeys b ws of
        None \<Rightarrow> b
      | Some ks \<Rightarrow> b\<lparr>lb_wsToKeys := (lb_wsToKeys b)(ws \<mapsto> removeAll k ks)\<rparr>)"

definition legacy_add_ws_uuid :: "sock \<Rightarrow> string \<Rightarrow> 'q legacy \<Rightarrow> 'q legacy" where
  "legacy_add_ws_uuid ws u b = b\<lparr>lb_wsToUUIDs := (lb_wsToUUIDs b)
     (ws \<mapsto> hash_set u (case lb_wsToUUIDs b ws of None \<Rightarrow> [] | Some us \<Rightarrow> us))\<rparr>"

definition legacy_del_ws_uuid :: "sock \<Rightarrow> string \<Rightarrow> 'q legacy \<Rightarrow> 'q legacy" where
  "legacy_del_ws_uuid ws u b =
     (case lb_wsToUUIDs b ws of
        None \<Rightarrow> b
      | Some us \<Rightarrow> b\<lparr>lb_wsToUUIDs := (lb_wsToUUIDs b)(ws \<mapsto> removeAll u us)\<rparr>)"

definition legacy_ensure_ws_keys :: "sock \<Rightarrow> 'q legacy \<Rightarrow> 'q legacy" where
  "legacy_ensure_ws_keys ws b =
     (case lb_wsToKeys b ws of None \<Rightarrow> b\<lparr>lb_wsToKeys := (lb_wsToKeys b)(ws \<mapsto> [])\<rparr> | Some _ \<Rightarrow> b)"

subsection \<open>Holds and their timers\<close>

definition set_holder_timer ::
  "bool \<Rightarrow> string \<Rightarrow> string \<Rightarrow> js_number \<Rightarrow> 'q legacy \<Rightarrow> nat option \<times> 'q legacy" where
  "set_holder_timer created k u ttl b =
     (if ttl = Infinity then (None, b)
      else (Some (lb_next_timer b),
            b\<lparr>lb_timers := (lb_next_timer b, \<lparr>ht_key = k, ht_uuid = u, ht_created = created\<rparr>) # lb_timers b,
              lb_next_timer := Suc (lb_next_timer b)\<rparr>))"

definition clear_holder_timer :: "legacy_holder \<Rightarrow> 'q legacy \<Rightarrow> 'q legacy" where
  "clear_holder_timer h b =
     (case lh_timer h of None \<Rightarrow> b | Some i \<Rightarrow> b\<lparr>lb_timers := AList.delete i (lb_timers b)\<rparr>)"

text \<open>\<open>clearTimeout(lck.lockholders.get(u).timer); lck.lockholders.delete(u)\<close>\<close>

definition legacy_drop_holder :: "string \<Rightarrow> string \<Rightarrow> 'q legacy_lock_obj \<Rightarrow> 'q legacy \<Rightarrow> 'q legacy_lock_obj \<times> 'q legacy" where
  "legacy_drop_holder k u l b =
     (let l1 = l\<lparr>ll_lockholders := AList.delete u (ll_lockholders l)\<rparr>
      in (l1, legacy_set k l1 (case map_of (ll_lockholders l) u of None \<Rightarrow> b | Some h \<Rightarrow> clear_holder_timer h b)))"

definition legacy_install ::
  "bool \<Rightarrow> string \<Rightarrow> string \<Rightarrow> sock \<Rightarrow> int \<Rightarrow> js_number \<Rightarrow> 'q legacy_lock_obj \<Rightarrow> 'q legacy \<Rightarrow> 'q legacy" where
  "legacy_install created k u ws pid ttl l b =
     (let (t, b1) = set_holder_timer created k u ttl b;
          h = \<lparr>lh_pid = pid, lh_ws = ws, lh_uuid = u, lh_timer = t\<rparr>
      in legacy_set k (l\<lparr>ll_lockholders := AList.update u h (ll_lockholders l)\<rparr>) b1)"

subsection \<open>Handing over\<close>

definition legacy_max_capacity :: "'q legacy_lock_obj \<Rightarrow> int" where
  "legacy_max_capacity l =
     (if ll_maxRead l \<noteq> None \<or> ll_maxWrite l \<noteq> None
      then max (case ll_maxRead l of None \<Rightarrow> 0 | Some m \<Rightarrow> m)
             (max (case ll_maxWrite l of None \<Rightarrow> 0 | Some m \<Rightarrow> m) (or_one (ll_max l)))
      else or_one (ll_max l))"

definition legacy_full :: "'q legacy_lock_obj \<Rightarrow> bool" where
  "legacy_full l \<longleftrightarrow> legacy_max_capacity l \<le> int (length (ll_lockholders l))"

text \<open>The inner loop: it ends at the first waiter that can be written to, or with the last one it took out.\<close>

partial_function (option) legacy_next_waiter ::
  "'q legacy_env \<Rightarrow> (sock \<Rightarrow> bool) \<Rightarrow> 'q \<Rightarrow> legacy_notify option \<Rightarrow> (legacy_notify option \<times> 'q) option" where
  "legacy_next_waiter E w q n =
     (case lq_dequeue E q of
        (None, q') \<Rightarrow> Some (n, q')
      | (Some (u, m), q') \<Rightarrow> if w (ln_ws m) then Some (Some m, q') else legacy_next_waiter E w q' (Some m))"

definition legacy_waiter_ttl :: "'q legacy_env \<Rightarrow> legacy_notify \<Rightarrow> 'q legacy \<Rightarrow> js_number" where
  "legacy_waiter_ttl E n b =
     (case ln_ttl n of
        Infinity \<Rightarrow> Infinity
      | Num t \<Rightarrow> if lg_debugging E then Num 50000000 else Num (if t = 0 then lb_lockExpiresAfter b else t))"

definition legacy_grant_waiter ::
  "'q legacy_env \<Rightarrow> string \<Rightarrow> legacy_notify \<Rightarrow> 'q legacy_lock_obj \<Rightarrow> 'q legacy \<Rightarrow> 'q legacy" where
  "legacy_grant_waiter E k n l b =
     (let b1 = legacy_install False k (ln_uuid n) (ln_ws n) (ln_pid n) (legacy_waiter_ttl E n b)
                 (l\<lparr>ll_keep := ln_keep n\<rparr>) (legacy_add_ws_key (ln_ws n) k b);
          b2 = legacy_send (ln_ws n)
                 (LockReply (ln_uuid n) k True (lq_length E (ll_notify l)) (ll_readers l) None None) b1
      in b2\<lparr>lb_timeouts := AList.update k n (lb_timeouts b2)\<rparr>)"

partial_function (option) legacy_drain :: "'q legacy_env \<Rightarrow> string \<Rightarrow> 'q legacy \<Rightarrow> 'q legacy option" where
  "legacy_drain E k b =
     (case legacy_get b k of
        None \<Rightarrow> Some b
      | Some l \<Rightarrow>
          if lq_length E (ll_notify l) = 0 \<or> legacy_full l then Some b
          else
            (case legacy_next_waiter E (lb_writable b) (ll_notify l) None of
               None \<Rightarrow> None
             | Some (None, q) \<Rightarrow> Some (legacy_set k (l\<lparr>ll_notify := q\<rparr>) b)
             | Some (Some n, q) \<Rightarrow>
                 (let l1 = l\<lparr>ll_notify := q\<rparr>; b1 = legacy_set k l1 b
                  in if legacy_full l1
                     then Some (legacy_set k (l1\<lparr>ll_notify := lq_enqueue E (ln_uuid n) n q\<rparr>) b1)
                     else legacy_drain E k (legacy_grant_waiter E k n l1 b1))))"

declare legacy_next_waiter.simps [code] legacy_drain.simps [code]

definition legacy_ensureNewLockHolder ::
  "'q legacy_env \<Rightarrow> string \<Rightarrow> string option \<Rightarrow> 'q legacy \<Rightarrow> 'q legacy option" where
  "legacy_ensureNewLockHolder E k uo b =
     (case legacy_get b k of
        None \<Rightarrow> Some b
      | Some l0 \<Rightarrow>
          (let (l1, b1) = (if truthy_str uo then legacy_drop_holder k (prop_name uo) l0 b else (l0, b));
               l2 = l1\<lparr>ll_keep := False\<rparr>
           in if ll_lockholders l2 = [] \<and> lq_length E (ll_notify l2) = 0
              then Some (legacy_set k (l2\<lparr>ll_timestampEmptied := Some (lb_now b)\<rparr>) b1)
              else legacy_drain E k (legacy_set k l2 b1)))"

subsection \<open>The re-election timer\<close>

definition legacy_send_reelections ::
  "string \<Rightarrow> nat \<Rightarrow> (string \<times> legacy_notify) option list \<Rightarrow> 'q legacy \<Rightarrow> 'q legacy" where
  "legacy_send_reelections k c es b =
     fold (\<lambda>(u, n) b. legacy_send (ln_ws n) (ReelectionNotice (ln_uuid n) k c) b) (List.map_filter id es) b"

definition legacy_fire_reelection :: "'q legacy_env \<Rightarrow> string \<Rightarrow> 'q legacy \<Rightarrow> 'q legacy" where
  "legacy_fire_reelection E k b =
     (case map_of (lb_timeouts b) k of
        None \<Rightarrow> b
      | Some n \<Rightarrow>
          (let b0 = legacy_del_ws_key (ln_ws n) k b;
               b1 = legacy_emit (Warn (Reelection k)) (b0\<lparr>lb_timeouts := AList.delete k (lb_timeouts b0)\<rparr>)
           in legacy_with_lock k (\<lambda>l b.
                let (l1, b2) = legacy_drop_holder k (ln_uuid n) l b;
                    c = lq_length E (ll_notify l1);
                    q = (if \<not> hash_has (lb_rejected b) (ln_uuid n) \<and> \<not> lq_contains E (ln_uuid n) (ll_notify l1)
                         then lq_enqueue E (ln_uuid n) n (ll_notify l1) else ll_notify l1);
                    (es, q') = lq_deq E 5 q
                in legacy_send_reelections k c es (legacy_set k (l1\<lparr>ll_notify := q'\<rparr>) b2)) b1))"

end
