(* ===== verification/BrokerStart.thy ===== *)
theory BrokerStart
  imports ClientConfig BrokerTtl LegacyState
begin

text \<open>
  The birth of a broker (\<open>src/src/broker-1.ts\<close>): which options its constructor accepts and what it makes
  of them, and \<open>ensure\<close>, which opens the listening socket once however often it is called and tells
  every caller how that went.
\<close>

subsection \<open>Options\<close>

type_synonym broker_opts = client_opts

definition brokerConstructorOptions :: "string list" where
  "brokerConstructorOptions =
     [''lockExpiresAfter'', ''timeoutToFindNewLockholder'', ''host'', ''port'', ''noDelay'', ''udsPath'', ''noListen'']"

text \<open>The checks in their order; \<open>path.resolve\<close> makes every \<open>udsPath\<close> absolute before it is tested.\<close>

definition broker_option_checks :: "broker_opts \<Rightarrow> (string \<times> bool \<times> bool) list" where
  "broker_option_checks os =
     [(''lockExpiresAfter'', truthy_opt (opt os ''lockExpiresAfter''),
         opt_in_range 21 3999999 (opt os ''lockExpiresAfter'')),
      (''timeoutToFindNewLockholder'', truthy_opt (opt os ''timeoutToFindNewLockholder''),
         opt_in_range 21 3999999 (opt os ''timeoutToFindNewLockholder'')),
      (''host'', truthy_opt (opt os ''host''), opt_string (opt os ''host'') \<noteq> None),
      (''port'', truthy_opt (opt os ''port''), opt_in_range 1025 49151 (opt os ''port'')),
      (''noDelay'', given os ''noDelay'', opt_boolean (opt os ''noDelay'')),
      (''udsPath'', given os ''udsPath'', opt_string (opt os ''udsPath'') \<noteq> None)]"

definition check_broker_opts :: "broker_opts \<Rightarrow> option_error option" where
  "check_broker_opts os =
     (case find (\<lambda>k. \<not> hash_has (set brokerConstructorOptions) k) (map fst os) of
        Some k \<Rightarrow> Some (UnknownOption k)
      | None \<Rightarrow> map_option (\<lambda>p. BadOption (fst p)) (find (\<lambda>(k, seen, ok). seen \<and> \<not> ok) (broker_option_checks os)))"

record broker_settings =
  bs_timeoutToFindNewLockholder :: int
  bs_host :: string
  bs_port :: int
  bs_noDelay :: bool
  bs_noListen :: bool
  bs_socketFile :: string

definition broker_settings_of :: "bool \<Rightarrow> (string \<Rightarrow> string) \<Rightarrow> broker_opts \<Rightarrow> broker_settings" where
  "broker_settings_of debugging resolve os =
     \<lparr>bs_timeoutToFindNewLockholder =
        (if debugging then 5000000 else int_or (opt os ''timeoutToFindNewLockholder'') 4500),
      bs_host = (case opt_string (opt os ''host'') of
                   Some (c # cs) \<Rightarrow> c # cs | _ \<Rightarrow> ''127.0.0.1''),
      bs_port = int_or (opt os ''port'') 6970,
      bs_noDelay = (if given os ''noDelay'' then truthy_opt (opt os ''noDelay'') else True),
      bs_noListen = (opt os ''noListen'' = OptValue (Boolean True)),
      bs_socketFile = (case opt_string (opt os ''udsPath'') of None \<Rightarrow> [] | Some p \<Rightarrow> resolve p)\<rparr>"

text \<open>The constructor starts the sweeper in every case, also for a broker that will not listen.\<close>

definition construct_broker ::
  "bool \<Rightarrow> (string \<Rightarrow> string) \<Rightarrow> int \<Rightarrow> broker_opts \<Rightarrow> option_error + broker_settings \<times> 'q broker" where
  "construct_broker debugging resolve clock os =
     (case check_broker_opts os of
        Some e \<Rightarrow> Inl e
      | None \<Rightarrow> Inr (broker_settings_of debugging resolve os,
          startTtlSweeper None
            (init_broker (if debugging then 5000000 else int_or (opt os ''lockExpiresAfter'') 5000) clock)))"

text \<open>The constructor of \<open>Broker\<close> (\<open>broker.ts\<close>) has the same checks and fields, and starts nothing.\<close>

definition construct_legacy ::
  "bool \<Rightarrow> (string \<Rightarrow> string) \<Rightarrow> int \<Rightarrow> broker_opts \<Rightarrow> option_error + broker_settings \<times> 'q legacy" where
  "construct_legacy debugging resolve clock os =
     (case check_broker_opts os of
        Some e \<Rightarrow> Inl e
      | None \<Rightarrow> Inr (broker_settings_of debugging resolve os,
          init_legacy (if debugging then 5000000 else int_or (opt os ''lockExpiresAfter'') 5000) clock))"

definition getListeningInterface :: "broker_settings \<Rightarrow> string + int" where
  "getListeningInterface st = (if bs_socketFile st \<noteq> [] then Inl (bs_socketFile st) else Inr (bs_port st))"

definition setNoDelay :: "bool \<Rightarrow> broker_settings \<Rightarrow> bool \<times> broker_settings" where
  "setNoDelay v st = (bs_noDelay st, st\<lparr>bs_noDelay := v\<rparr>)"

lemma accepted_broker_option:
  assumes "check_broker_opts os = None" and "(k, seen, ok) \<in> set (broker_option_checks os)" and "seen"
  shows "ok"
  using assms by (auto simp: check_broker_opts_def dest: find_bad_check split: option.splits)

lemma checked_broker_range:
  assumes "check_broker_opts os = None"
  shows "truthy_opt (opt os ''lockExpiresAfter'') \<Longrightarrow> opt_in_range 21 3999999 (opt os ''lockExpiresAfter'')"
    "truthy_opt (opt os ''timeoutToFindNewLockholder'') \<Longrightarrow>
       opt_in_range 21 3999999 (opt os ''timeoutToFindNewLockholder'')"
    "truthy_opt (opt os ''port'') \<Longrightarrow> opt_in_range 1025 49151 (opt os ''port'')"
  using accepted_broker_option [OF assms, of "''lockExpiresAfter''"]
    accepted_broker_option [OF assms, of "''timeoutToFindNewLockholder''"] accepted_broker_option [OF assms, of "''port''"]
  by (simp_all add: broker_option_checks_def)

text \<open>C39: A broker whose constructor accepts its options has every setting in range, whatever mixture of absent,
  falsy and given values they are: holds expire by default after 21 to 3999999 ms, and a waiter's grant is
  reconsidered after 21 to 3999999 ms, both after 5000000 ms in a process started for debugging; the port is from 1025 to 49151, the host is not empty, the
  sweeper runs with a positive interval, and no key has a holder.\<close>

theorem broker_config_in_range:
  assumes "construct_broker debugging resolve clock os = Inr (st, b)"
  shows "(if debugging then lockExpiresAfter b = 5000000 \<and> bs_timeoutToFindNewLockholder st = 5000000
      else 21 \<le> lockExpiresAfter b \<and> lockExpiresAfter b < 4000000 \<and>
        21 \<le> bs_timeoutToFindNewLockholder st \<and> bs_timeoutToFindNewLockholder st < 4000000) \<and>
    1024 < bs_port st \<and> bs_port st < 49152 \<and> bs_host st \<noteq> [] \<and>
    ttlSweeperHandle b \<and> 0 < ttlSweepIntervalMs b \<and> locks b = []"
proof -
  have ok: "check_broker_opts os = None" and st: "st = broker_settings_of debugging resolve os"
    and b: "b = startTtlSweeper None
      (init_broker (if debugging then 5000000 else int_or (opt os ''lockExpiresAfter'') 5000) clock)"
    using assms by (auto simp: construct_broker_def split: option.splits)
  have "21 \<le> int_or (opt os ''lockExpiresAfter'') 5000 \<and> int_or (opt os ''lockExpiresAfter'') 5000 \<le> 3999999"
    "21 \<le> int_or (opt os ''timeoutToFindNewLockholder'') 4500 \<and> int_or (opt os ''timeoutToFindNewLockholder'') 4500 \<le> 3999999"
    "1025 \<le> int_or (opt os ''port'') 6970 \<and> int_or (opt os ''port'') 6970 \<le> 49151"
    by (rule int_or_range, erule checked_broker_range [OF ok], simp, simp)+
  then show ?thesis
    by (auto simp: st b broker_settings_of_def startTtlSweeper_def init_broker_def split: option.split list.split)
qed

theorem broker_config_in_range_witness:
  "\<exists>st b. construct_broker False (\<lambda>p. p) 7
       [(''port'', OptValue (Integer 0)), (''lockExpiresAfter'', OptValue (Integer 21)), (''host'', OptValue (String []))] =
     Inr (st, b :: unit broker) \<and> bs_port st = 6970 \<and> lockExpiresAfter b = 21 \<and> bs_host st \<noteq> [] \<and> ttlSweeperHandle b"
proof -
  let ?os = "[(''port'', OptValue (Integer 0)), (''lockExpiresAfter'', OptValue (Integer 21)), (''host'', OptValue (String []))]"
  let ?c = "construct_broker False (\<lambda>p. p) 7 ?os :: option_error + broker_settings \<times> unit broker"
  have "check_broker_opts ?os = None" by code_simp
  then obtain st b where *: "?c = Inr (st, b)" "bs_port st = 6970" "lockExpiresAfter b = 21"
    by (auto simp: construct_broker_def broker_settings_of_def startTtlSweeper_def init_broker_def int_or_def opt_def)
  from broker_config_in_range [OF *(1)] * show ?thesis by blast
qed

subsection \<open>ensure\<close>

text \<open>
  A caller is the number of its callback. \<open>brokerPromise\<close> is made by the first call; the callbacks
  are run in the order of the calls when it settles, and at once when it has (no callback throws).
\<close>

datatype listen_error = ListenTimeout | ListenFailed

datatype broker_promise = NoPromise | Listening | Opened | Failed listen_error

record start_state =
  ss_noListen :: bool
  ss_promise :: broker_promise
  ss_waiting :: "nat list"
  ss_called :: "(nat \<times> listen_error option) list"
  ss_timer :: bool
  ss_onError :: bool         \<comment> \<open>\<open>wss.once('error', reject)\<close>\<close>
  ss_isOpen :: bool

definition not_started :: "bool \<Rightarrow> start_state" where
  "not_started noListen = \<lparr>ss_noListen = noListen, ss_promise = NoPromise, ss_waiting = [], ss_called = [],
     ss_timer = False, ss_onError = False, ss_isOpen = False\<rparr>"

definition settle_promise :: "listen_error option \<Rightarrow> start_state \<Rightarrow> start_state" where
  "settle_promise r s =
     (if ss_promise s = Listening
      then s\<lparr>ss_promise := (case r of None \<Rightarrow> Opened | Some e \<Rightarrow> Failed e),
             ss_called := ss_called s @ map (\<lambda>c. (c, r)) (ss_waiting s), ss_waiting := []\<rparr>
      else s)"

definition ensure :: "nat \<Rightarrow> start_state \<Rightarrow> start_state" where
  "ensure c s =
     (case ss_promise s of
        Listening \<Rightarrow> s\<lparr>ss_waiting := ss_waiting s @ [c]\<rparr>
      | Opened \<Rightarrow> s\<lparr>ss_called := ss_called s @ [(c, None)]\<rparr>
      | Failed e \<Rightarrow> s\<lparr>ss_called := ss_called s @ [(c, Some e)]\<rparr>
      | NoPromise \<Rightarrow>
          if ss_noListen s then s\<lparr>ss_promise := Opened, ss_called := ss_called s @ [(c, None)]\<rparr>
          else s\<lparr>ss_promise := Listening, ss_waiting := [c], ss_timer := True, ss_onError := True\<rparr>)"

datatype start_event =
    EnsureCall nat
  | ListenCallback
  | ServerError
  | ListenTimer

fun start_step :: "start_event \<Rightarrow> start_state \<Rightarrow> start_state" where
  "start_step (EnsureCall c) s = ensure c s"
| "start_step ListenCallback s =
     (if ss_promise s = NoPromise \<or> ss_noListen s then s
      else settle_promise None (s\<lparr>ss_isOpen := True, ss_timer := False, ss_onError := False\<rparr>))"
| "start_step ServerError s =
     (if ss_onError s then settle_promise (Some ListenFailed) (s\<lparr>ss_onError := False\<rparr>) else s)"
| "start_step ListenTimer s =
     (if ss_timer s then settle_promise (Some ListenTimeout) (s\<lparr>ss_timer := False\<rparr>) else s)"

definition start_run :: "bool \<Rightarrow> start_event list \<Rightarrow> start_state" where
  "start_run noListen evs = fold start_step evs (not_started noListen)"

fun callers :: "start_event list \<Rightarrow> nat list" where
  "callers [] = []"
| "callers (EnsureCall c # evs) = c # callers evs"
| "callers (ev # evs) = callers evs"

lemma callers_append [simp]: "callers (xs @ ys) = callers xs @ callers ys"
  by (induction xs rule: callers.induct) auto

fun verdict :: "broker_promise \<Rightarrow> listen_error option" where
  "verdict (Failed e) = Some e"
| "verdict _ = None"

definition start_ok :: "nat list \<Rightarrow> start_state \<Rightarrow> bool" where
  "start_ok cs s \<longleftrightarrow>
     cs = map fst (ss_called s) @ ss_waiting s \<and>
     (\<forall>p \<in> set (ss_called s). snd p = verdict (ss_promise s)) \<and>
     (ss_promise s \<in> {NoPromise, Listening} \<longrightarrow> ss_called s = []) \<and>
     (ss_promise s \<noteq> Listening \<longrightarrow> ss_waiting s = []) \<and>
     (ss_promise s = Listening \<longrightarrow> ss_timer s)"

lemma start_ok_settle_promise: "start_ok cs s \<Longrightarrow> start_ok cs (settle_promise r s)"
  by (cases r) (auto simp: start_ok_def settle_promise_def comp_def)

lemma start_ok_step: "start_ok cs s \<Longrightarrow> start_ok (cs @ callers [ev]) (start_step ev s)"
proof (cases ev)
  case (EnsureCall c)
  assume "start_ok cs s"
  with EnsureCall show ?thesis
    by (cases "ss_promise s") (auto simp: start_ok_def ensure_def)
next
  case ListenCallback
  assume "start_ok cs s"
  with ListenCallback show ?thesis
    by (cases "ss_promise s = Listening") (auto simp: start_ok_def settle_promise_def comp_def)
next
  case ServerError
  assume "start_ok cs s"
  with ServerError show ?thesis
    by (cases "ss_promise s = Listening") (auto simp: start_ok_def settle_promise_def comp_def)
next
  case ListenTimer
  assume "start_ok cs s"
  with ListenTimer show ?thesis
    by (cases "ss_promise s = Listening") (auto simp: start_ok_def settle_promise_def comp_def)
qed

lemma start_ok_run: "start_ok (callers evs) (start_run noListen evs)"
proof (induction evs rule: rev_induct)
  case Nil
  show ?case by (simp add: start_run_def start_ok_def not_started_def)
next
  case (snoc ev evs)
  from start_ok_step [OF snoc, of ev] show ?case by (simp add: start_run_def)
qed

text \<open>C40: However calls of \<open>ensure\<close>, errors of the server, the listening callback and the timer are interleaved,
  and as long as no callback throws, the callers are answered in the order of their calls, each at most once and all alike; a caller
  without an answer waits for a promise whose timer is armed, so that it will be answered.\<close>

theorem ensure_answers_all_alike:
  "callers evs = map fst (ss_called (start_run noListen evs)) @ ss_waiting (start_run noListen evs) \<and>
   (\<forall>p \<in> set (ss_called (start_run noListen evs)). snd p = verdict (ss_promise (start_run noListen evs))) \<and>
   (ss_waiting (start_run noListen evs) \<noteq> [] \<longrightarrow> ss_timer (start_run noListen evs)) \<and>
   ss_waiting (start_step ListenTimer (start_run noListen evs)) = []"
proof -
  have ok: "start_ok (callers evs) (start_run noListen evs)" by (rule start_ok_run)
  then show ?thesis
    by (cases "ss_promise (start_run noListen evs) = Listening") (auto simp: start_ok_def settle_promise_def)
qed

theorem ensure_answers_all_alike_witness:
  "ss_called (start_run False [EnsureCall 4, EnsureCall 7, ListenCallback, EnsureCall 5]) = [(4, None), (7, None), (5, None)] \<and>
   ss_waiting (start_step ListenTimer (start_run False [EnsureCall 4, EnsureCall 7])) = [] \<and>
   ss_timer (start_run False [EnsureCall 4, EnsureCall 7])"
proof -
  let ?s = "start_run False [EnsureCall 4, EnsureCall 7]"
  have *: "ss_waiting ?s = [4, 7]"
    "ss_called (start_run False [EnsureCall 4, EnsureCall 7, ListenCallback, EnsureCall 5]) = [(4, None), (7, None), (5, None)]"
    by code_simp+
  from ensure_answers_all_alike [of "[EnsureCall 4, EnsureCall 7]" False] * show ?thesis by (simp del: start_step.simps)
qed

text \<open>The answer can be wrong: a server that starts to listen after the timer is open, but every call of
  \<open>ensure\<close>, before and after, is told that listening timed out.\<close>

lemma open_but_failed:
  "let s = start_run False [EnsureCall 0, ListenTimer, ListenCallback, EnsureCall 1]
   in ss_isOpen s \<and> ss_called s = [(0, Some ListenTimeout), (1, Some ListenTimeout)]"
  by code_simp

end
