(* ===== verification/LegacyLock.thy ===== *)
theory LegacyLock
  imports LegacyState
begin

text \<open>
  \<open>lock\<close> and \<open>unlock\<close> of \<open>Broker\<close> (\<open>broker.ts\<close>), and the timer of a hold. Console warnings have no effect on the
  state and are left out.
\<close>

subsection \<open>Requests\<close>

record legacy_lock_req =
  lr_uuid :: string
  lr_key :: string
  lr_ttl :: ttl_field
  lr_max :: "int option"
  lr_maxRead :: "int option"
  lr_maxWrite :: "int option"
  lr_force :: bool
  lr_pid :: int
  lr_keep :: bool
  lr_retryCount :: int
  lr_rwStatus :: "RWStatus option"

record legacy_unlock_req = unlock_req +
  lu_rwStatus :: "RWStatus option"

subsection \<open>Collecting idle lock objects\<close>

definition legacy_stale :: "'q legacy_env \<Rightarrow> int \<Rightarrow> 'q legacy_lock_obj \<Rightarrow> bool" where
  "legacy_stale E t l =
     (case ll_timestampEmptied l of
        None \<Rightarrow> False
      | Some e \<Rightarrow> e \<noteq> 0 \<and> \<not> t - e < 2000 \<and> length (ll_lockholders l) < 1 \<and> lq_length E (ll_notify l) < 1)"

definition legacy_cleanUpLocks :: "'q legacy_env \<Rightarrow> 'q legacy \<Rightarrow> 'q legacy" where
  "legacy_cleanUpLocks E b =
     b\<lparr>lb_lockCounts := 0,
       lb_locks := filter (\<lambda>(k, l). \<not> legacy_stale E (lb_now b) l) (lb_locks b),
       lb_orphans := map (\<lambda>(k, l). (ll_id l, l)) (filter (\<lambda>(k, l). legacy_stale E (lb_now b) l) (lb_locks b))
                       @ lb_orphans b\<rparr>"

definition legacy_count_request :: "'q legacy_env \<Rightarrow> 'q legacy \<Rightarrow> 'q legacy" where
  "legacy_count_request E b =
     (let b1 = b\<lparr>lb_lockCounts := Suc (lb_lockCounts b)\<rparr>
      in if lb_lockCounts b1 > 3 then legacy_cleanUpLocks E b1 else b1)"

subsection \<open>Limits\<close>

abbreviation wants_read :: "legacy_lock_req \<Rightarrow> bool" where
  "wants_read r \<equiv> lr_rwStatus r = Some BeginRead"

abbreviation wants_write :: "legacy_lock_req \<Rightarrow> bool" where
  "wants_write r \<equiv> lr_rwStatus r = Some BeginWrite"

definition legacy_requested :: "int option \<Rightarrow> int option \<Rightarrow> int option" where
  "legacy_requested own legacy = (case own of None \<Rightarrow> legacy | Some n \<Rightarrow> Some n)"

definition legacy_set_max :: "legacy_lock_req \<Rightarrow> 'q legacy_lock_obj \<Rightarrow> 'q legacy_lock_obj" where
  "legacy_set_max r l = (case lr_max r of None \<Rightarrow> l | Some m \<Rightarrow> l\<lparr>ll_max := m\<rparr>)"

definition legacy_update_limits :: "legacy_lock_req \<Rightarrow> 'q legacy_lock_obj \<Rightarrow> 'q legacy_lock_obj" where
  "legacy_update_limits r l =
     legacy_set_max r
       (if wants_read r then
          (case legacy_requested (lr_maxRead r) (lr_max r) of
             Some m \<Rightarrow> l\<lparr>ll_maxRead := Some m\<rparr>
           | None \<Rightarrow> if ll_maxRead l = None then l\<lparr>ll_maxRead := Some 10\<rparr> else l)
        else if wants_write r then
          (case legacy_requested (lr_maxWrite r) (lr_max r) of
             Some m \<Rightarrow> l\<lparr>ll_maxWrite := Some m\<rparr>
           | None \<Rightarrow> if ll_maxWrite l = None then l\<lparr>ll_maxWrite := Some 1\<rparr> else l)
        else l)"

definition legacy_count :: "legacy_lock_req \<Rightarrow> 'q legacy_lock_obj \<Rightarrow> int" where
  "legacy_count r l = (if wants_read r then int (ll_readers l) + 1 else int (length (ll_lockholders l)))"

definition legacy_limit :: "legacy_lock_req \<Rightarrow> 'q legacy_lock_obj \<Rightarrow> int" where
  "legacy_limit r l =
     (if wants_read r then (case ll_maxRead l of None \<Rightarrow> 10 | Some m \<Rightarrow> m)
      else if wants_write r then (case ll_maxWrite l of None \<Rightarrow> 1 | Some m \<Rightarrow> m)
      else (case lr_max r of None \<Rightarrow> ll_max l | Some m \<Rightarrow> m))"

definition legacy_ttl :: "'q legacy_env \<Rightarrow> 'q legacy \<Rightarrow> legacy_lock_req \<Rightarrow> js_number" where
  "legacy_ttl E b r =
     (if lr_ttl r = TtlInfinity then Infinity
      else if lg_debugging E then Num 500000000 else ttl_or (lr_ttl r) (lb_lockExpiresAfter b))"

subsection \<open>lock\<close>

definition legacy_waiter_of :: "legacy_lock_req \<Rightarrow> sock \<Rightarrow> js_number \<Rightarrow> legacy_notify" where
  "legacy_waiter_of r ws ttl =
     \<lparr>ln_ws = ws, ln_uuid = lr_uuid r, ln_pid = lr_pid r, ln_ttl = ttl, ln_keep = lr_keep r\<rparr>"

definition legacy_enqueue :: "'q legacy_env \<Rightarrow> legacy_lock_req \<Rightarrow> sock \<Rightarrow> js_number \<Rightarrow> 'q \<Rightarrow> 'q" where
  "legacy_enqueue E r ws ttl q =
     (let u = lr_uuid r; n = legacy_waiter_of r ws ttl
      in if lr_force r then lq_addToFront E u n (lq_remove E u q)
         else if lq_get E u q \<noteq> None then q
         else if 0 < lr_retryCount r then lq_addToFront E u n q
         else lq_enqueue E u n q)"

definition legacy_contended ::
  "'q legacy_env \<Rightarrow> legacy_lock_req \<Rightarrow> sock \<Rightarrow> js_number \<Rightarrow> 'q legacy_lock_obj \<Rightarrow> 'q legacy \<Rightarrow> 'q legacy" where
  "legacy_contended E r ws ttl l b =
     legacy_send ws (LockReply (lr_uuid r) (lr_key r) False (lq_length E (ll_notify l)) (ll_readers l) None None)
       (legacy_set (lr_key r) (l\<lparr>ll_notify := legacy_enqueue E r ws ttl (ll_notify l)\<rparr>) b)"

definition legacy_count_reader :: "legacy_lock_req \<Rightarrow> 'q legacy_lock_obj \<Rightarrow> 'q legacy_lock_obj" where
  "legacy_count_reader r l =
     (if wants_read r then l\<lparr>ll_readers := ll_readers l + 1\<rparr>
      else if lr_rwStatus r = Some EndRead then l\<lparr>ll_readers := ll_readers l - 1\<rparr> else l)"

definition legacy_acquire ::
  "bool \<Rightarrow> legacy_lock_req \<Rightarrow> sock \<Rightarrow> js_number \<Rightarrow> nat \<Rightarrow> 'q legacy_lock_obj \<Rightarrow> 'q legacy \<Rightarrow> 'q legacy" where
  "legacy_acquire created r ws ttl c l b =
     (let l1 = legacy_count_reader r l
      in legacy_send ws (LockReply (lr_uuid r) (lr_key r) True c (ll_readers l1) None None)
           (legacy_install created (lr_key r) (lr_uuid r) ws (lr_pid r) ttl l1 (legacy_add_ws_key ws (lr_key r) b)))"

definition legacy_existing ::
  "'q legacy_env \<Rightarrow> legacy_lock_req \<Rightarrow> sock \<Rightarrow> js_number \<Rightarrow> 'q legacy_lock_obj \<Rightarrow> 'q legacy \<Rightarrow> 'q legacy" where
  "legacy_existing E r ws ttl l0 b =
     (let l = legacy_update_limits r l0
      in if legacy_limit r l \<le> legacy_count r l then legacy_contended E r ws ttl l b
         else legacy_acquire False r ws ttl (lq_length E (ll_notify l)) l b)"

definition legacy_new ::
  "'q legacy_env \<Rightarrow> legacy_lock_req \<Rightarrow> sock \<Rightarrow> js_number \<Rightarrow> 'q legacy \<Rightarrow> 'q legacy" where
  "legacy_new E r ws ttl b =
     (let mr = (if wants_read r
                then Some (case legacy_requested (lr_maxRead r) (lr_max r) of None \<Rightarrow> 10 | Some m \<Rightarrow> m) else None);
          mw = (if wants_write r
                then Some (case legacy_requested (lr_maxWrite r) (lr_max r) of None \<Rightarrow> 1 | Some m \<Rightarrow> m) else None)
      in legacy_with_lock (lr_key r) (legacy_acquire True r ws ttl 0)
           (legacy_create_lock E (lr_key r) (lr_keep r) (lr_max r) mr mw b))"

definition legacy_lock :: "'q legacy_env \<Rightarrow> legacy_lock_req \<Rightarrow> sock \<Rightarrow> 'q legacy \<Rightarrow> 'q legacy" where
  "legacy_lock E r ws b =
     (let k = lr_key r;
          b1 = legacy_with_lock k (\<lambda>l b. legacy_set k (l\<lparr>ll_timestampEmptied := None\<rparr>) b) b;
          lck = legacy_get b1 k;
          b2 = legacy_count_request E b1;
          b3 = (if lr_uuid r \<noteq> [] then legacy_add_ws_uuid ws (lr_uuid r) b2 else b2);
          b4 = legacy_ensure_ws_keys ws b3;
          ttl = legacy_ttl E b r
      in case lck of
           Some l \<Rightarrow> legacy_existing E r ws ttl l b4
         | None \<Rightarrow> legacy_new E r ws ttl b4)"

subsection \<open>unlock\<close>

definition legacy_reply_unlock ::
  "sock option \<Rightarrow> legacy_unlock_req \<Rightarrow> (string \<Rightarrow> response) \<Rightarrow> 'q legacy \<Rightarrow> 'q legacy" where
  "legacy_reply_unlock wo r f b =
     (case wo of
        None \<Rightarrow> b
      | Some ws \<Rightarrow> if truthy_str (u_uuid r) then legacy_send ws (f (prop_name (u_uuid r))) b else b)"

definition legacy_forget_ownership :: "sock option \<Rightarrow> legacy_unlock_req \<Rightarrow> 'q legacy \<Rightarrow> 'q legacy" where
  "legacy_forget_ownership wo r b =
     (case wo of
        None \<Rightarrow> b
      | Some ws \<Rightarrow>
          legacy_del_ws_uuid ws (prop_name (u__uuid r)) (if u_keep r then b else legacy_del_ws_key ws (u_key r) b))"

definition legacy_is_holder :: "string option \<Rightarrow> 'q legacy_lock_obj \<Rightarrow> bool" where
  "legacy_is_holder uo l = (truthy_str uo \<and> map_of (ll_lockholders l) (prop_name uo) \<noteq> None)"

definition legacy_release_all :: "string \<Rightarrow> 'q legacy_lock_obj \<Rightarrow> 'q legacy \<Rightarrow> 'q legacy" where
  "legacy_release_all k l b =
     legacy_set k (l\<lparr>ll_lockholdersAllReleased := set (map fst (ll_lockholders l)) \<union> ll_lockholdersAllReleased l,
                     ll_lockholders := []\<rparr>)
       (fold (\<lambda>(u, h). clear_holder_timer h) (ll_lockholders l) b)"

text \<open>A forced release names one hold only on a key with \<open>max\<close> above 1.\<close>

definition legacy_release :: "legacy_unlock_req \<Rightarrow> 'q legacy_lock_obj \<Rightarrow> 'q legacy \<Rightarrow> 'q legacy" where
  "legacy_release r l b =
     (let k = u_key r; u = prop_name (u__uuid r)
      in if \<not> u_force r then snd (legacy_drop_holder k u l b)
         else if truthy_str (u__uuid r) \<and> 1 < ll_max l
         then snd (legacy_drop_holder k u
                (if map_of (ll_lockholders l) u \<noteq> None
                 then l\<lparr>ll_lockholdersAllReleased := insert u (ll_lockholdersAllReleased l)\<rparr> else l) b)
         else legacy_release_all k l b)"

definition legacy_unlock_matching ::
  "'q legacy_env \<Rightarrow> legacy_unlock_req \<Rightarrow> sock option \<Rightarrow> 'q legacy_lock_obj \<Rightarrow> 'q legacy \<Rightarrow> 'q legacy option" where
  "legacy_unlock_matching E r wo l b =
     (let b1 = legacy_reply_unlock wo r (\<lambda>u. UnlockReply u (u_key r) (lq_length E (ll_notify l)) True None)
                 (legacy_release r l b)
      in if lu_rwStatus r \<noteq> Some UnlockingWriteKey \<and> lu_rwStatus r \<noteq> Some EndRead
         then legacy_ensureNewLockHolder E (u_key r) (u__uuid r) b1 else Some b1)"

definition legacy_unlock_mismatch ::
  "'q legacy_env \<Rightarrow> legacy_unlock_req \<Rightarrow> sock option \<Rightarrow> 'q legacy_lock_obj \<Rightarrow> 'q legacy \<Rightarrow> 'q legacy option" where
  "legacy_unlock_mismatch E r wo l b =
     (let k = u_key r; c = lq_length E (ll_notify l); p = prop_name (u__uuid r)
      in if hash_has (ll_lockholderTimeouts l) p \<or> hash_has (ll_lockholdersAllReleased l) p
         then legacy_ensureNewLockHolder E k (u__uuid r)
                (legacy_reply_unlock wo r (\<lambda>u. UnlockReply u k c True None)
                  (legacy_set k (l\<lparr>ll_lockholderTimeouts := ll_lockholderTimeouts l - {p},
                                  ll_lockholdersAllReleased := ll_lockholdersAllReleased l - {p}\<rparr>) b))
         else Some
           (if truthy_str (u_uuid r) \<and> wo \<noteq> None
            then legacy_reply_unlock wo r (\<lambda>u. UnlockReply u k c False (Some WrongUuid)) b
            else if truthy_str (u_uuid r) then legacy_emit (Warn MissingWs) b
            else if wo \<noteq> None then legacy_emit (Warn MissingUuid) b
            else legacy_emit (Warn MissingBoth) b))"

definition legacy_unlock_no_lock :: "legacy_unlock_req \<Rightarrow> sock option \<Rightarrow> 'q legacy \<Rightarrow> 'q legacy" where
  "legacy_unlock_no_lock r wo b =
     (let k = u_key r; b1 = legacy_emit (Warn (NoLockWithKey k)) b
      in if wo \<noteq> None \<and> truthy_str (u_uuid r)
         then legacy_reply_unlock wo r (\<lambda>u. UnlockNoLock u k) (legacy_emit (Warn (NoLockWithKey k)) b1)
         else if wo \<noteq> None then legacy_emit (Warn MissingUuid) b1
         else legacy_emit (Warn MissingBoth) b1)"

definition legacy_unlock ::
  "'q legacy_env \<Rightarrow> legacy_unlock_req \<Rightarrow> sock option \<Rightarrow> 'q legacy \<Rightarrow> 'q legacy option" where
  "legacy_unlock E r wo b =
     (let b0 = legacy_forget_ownership wo r b
      in case legacy_get b (u_key r) of
           None \<Rightarrow> Some (legacy_unlock_no_lock r wo b0)
         | Some l \<Rightarrow>
             if legacy_is_holder (u__uuid r) l \<or> u_force r then legacy_unlock_matching E r wo l b0
             else legacy_unlock_mismatch E r wo l b0)"

text \<open>\<open>{force: true, key, from}\<close>\<close>

definition legacy_force :: "string \<Rightarrow> legacy_unlock_req" where
  "legacy_force k = \<lparr>u_uuid = None, u_key = k, u__uuid = None, u_force = True, u_keep = False, lu_rwStatus = None\<rparr>"

subsection \<open>The timer of a hold\<close>

definition is_semaphore :: "bool \<Rightarrow> 'q legacy_lock_obj \<Rightarrow> bool" where
  "is_semaphore created l \<longleftrightarrow> 1 < ll_max l \<or>
     \<not> created \<and> ((case ll_maxRead l of None \<Rightarrow> False | Some m \<Rightarrow> 1 < m) \<or>
                  (case ll_maxWrite l of None \<Rightarrow> False | Some m \<Rightarrow> 1 < m))"

definition holder_timed_out :: "'q legacy_env \<Rightarrow> nat \<Rightarrow> 'q legacy \<Rightarrow> 'q legacy option" where
  "holder_timed_out E i b =
     (case map_of (lb_timers b) i of
        None \<Rightarrow> Some b
      | Some t \<Rightarrow>
          (let k = ht_key t; u = ht_uuid t;
               b1 = legacy_emit (Warn (TtlEvicted u k)) (b\<lparr>lb_timers := AList.delete i (lb_timers b)\<rparr>)
           in case legacy_get b1 k of
                None \<Rightarrow> Some b1
              | Some l \<Rightarrow>
                  (let l1 = l\<lparr>ll_lockholderTimeouts := insert u (ll_lockholderTimeouts l),
                              ll_lockholders := AList.delete u (ll_lockholders l)\<rparr>;
                       b2 = legacy_set k l1 b1
                   in if map_of (ll_lockholders l) u = None then Some b2
                      else if is_semaphore (ht_created t) l1 then legacy_ensureNewLockHolder E k (Some u) b2
                      else legacy_unlock E (legacy_force k) None b2)))"

end
