(* ===== verification/LegacyConn.thy ===== *)
theory LegacyConn
  imports LegacyLock BrokerStep
begin

text \<open>
  Connections, the reader/writer probes and the dispatcher of \<open>Broker\<close> (\<open>broker.ts\<close>), and the broker as a
  state machine. As for \<open>Broker1\<close>, a handler that never returns is a step that does not exist.
\<close>

subsection \<open>Readers and writers\<close>

definition legacy_update_object ::
  "nat \<Rightarrow> ('q legacy_lock_obj \<Rightarrow> 'q legacy_lock_obj) \<Rightarrow> 'q legacy \<Rightarrow> 'q legacy" where
  "legacy_update_object i f b =
     b\<lparr>lb_locks := map (\<lambda>(k, l). (k, if ll_id l = i then f l else l)) (lb_locks b),
       lb_orphans := map (\<lambda>(j, l). (j, if ll_id l = i then f l else l)) (lb_orphans b)\<rparr>"

definition legacy_find_object :: "nat \<Rightarrow> 'q legacy \<Rightarrow> 'q legacy_lock_obj option" where
  "legacy_find_object i b = find (\<lambda>l. ll_id l = i) (map snd (lb_locks b) @ map snd (lb_orphans b))"

definition legacy_run_fn :: "listener \<Rightarrow> 'q legacy \<Rightarrow> 'q legacy" where
  "legacy_run_fn p b =
     (case ls_fn p of
        SetWriterFlag i \<Rightarrow> legacy_update_object i (\<lambda>l. l\<lparr>ll_writerFlag := True\<rparr>) b
      | IncReadersAndReply i \<Rightarrow>
          (let b1 = legacy_update_object i (\<lambda>l. l\<lparr>ll_readers := ll_readers l + 1\<rparr>) b
           in legacy_send (ls_ws p) (WriteFlagSuccess (ls_uuid p) (ls_key p)
                (case legacy_find_object i b1 of None \<Rightarrow> 0 | Some l \<Rightarrow> ll_readers l) False) b1))"

text \<open>The listeners are taken out at once and run in the order they came.\<close>

definition legacy_broadcast :: "string \<Rightarrow> 'q legacy \<Rightarrow> 'q legacy" where
  "legacy_broadcast k b =
     fold (\<lambda>p b. legacy_send (ls_ws p) (BroadcastResult (ls_uuid p) k) (legacy_run_fn p b))
       (lb_registeredListeners b k)
       (b\<lparr>lb_registeredListeners := (lb_registeredListeners b)(k := [])\<rparr>)"

definition legacy_push_listener :: "listener \<Rightarrow> 'q legacy \<Rightarrow> 'q legacy" where
  "legacy_push_listener p b =
     b\<lparr>lb_registeredListeners := (lb_registeredListeners b)(ls_key p := lb_registeredListeners b (ls_key p) @ [p])\<rparr>"

definition legacy_incrementReaders :: "'q legacy_env \<Rightarrow> key_req \<Rightarrow> sock \<Rightarrow> 'q legacy \<Rightarrow> 'q legacy" where
  "legacy_incrementReaders E r ws b =
     (let k = k_key r
      in legacy_send ws (IncrementReadersSuccess (k_uuid r) k)
           (legacy_with_lock k (\<lambda>l b. legacy_set k (l\<lparr>ll_readers := ll_readers l + 1\<rparr>) b) (legacy_ensure_lock E k b)))"

definition legacy_setWriteFlagToFalseAndBroadcast ::
  "'q legacy_env \<Rightarrow> key_req \<Rightarrow> sock \<Rightarrow> 'q legacy \<Rightarrow> 'q legacy" where
  "legacy_setWriteFlagToFalseAndBroadcast E r ws b =
     (let k = k_key r
      in legacy_send ws (WriteFlagFalseAndBroadcastSuccess (k_uuid r) k)
           (legacy_broadcast k
             (legacy_with_lock k (\<lambda>l b. legacy_set k (l\<lparr>ll_writerFlag := False\<rparr>) b) (legacy_ensure_lock E k b))))"

definition legacy_decrementReaders :: "'q legacy_env \<Rightarrow> key_req \<Rightarrow> sock \<Rightarrow> 'q legacy \<Rightarrow> 'q legacy" where
  "legacy_decrementReaders E r ws b =
     (let k = k_key r
      in legacy_send ws (DecrementReadersSuccess (k_uuid r) k)
           (legacy_with_lock k (\<lambda>l b.
              let b1 = legacy_set k (l\<lparr>ll_readers := ll_readers l - 1\<rparr>) b
              in if ll_readers l - 1 < 1 \<and> lb_registeredListeners b1 k \<noteq> [] then legacy_broadcast k b1 else b1)
            (legacy_ensure_lock E k b)))"

definition legacy_registerWriteFlagAndReadersCheck ::
  "'q legacy_env \<Rightarrow> key_req \<Rightarrow> sock \<Rightarrow> 'q legacy \<Rightarrow> 'q legacy" where
  "legacy_registerWriteFlagAndReadersCheck E r ws b =
     (let k = k_key r
      in legacy_with_lock k (\<lambda>l b.
           if ll_writerFlag l \<or> ll_readers l > 1
           then legacy_push_listener \<lparr>ls_ws = ws, ls_key = k, ls_uuid = k_uuid r, ls_fn = SetWriterFlag (ll_id l)\<rparr> b
           else legacy_send ws (WriteFlagAndReadersSuccess (k_uuid r) k (ll_readers l) (ll_writerFlag l))
                  (legacy_set k (l\<lparr>ll_writerFlag := True\<rparr>) b))
         (legacy_ensure_lock E k b))"

definition legacy_registerWriteFlagCheck :: "'q legacy_env \<Rightarrow> key_req \<Rightarrow> sock \<Rightarrow> 'q legacy \<Rightarrow> 'q legacy" where
  "legacy_registerWriteFlagCheck E r ws b =
     (let k = k_key r
      in legacy_with_lock k (\<lambda>l b.
           if ll_writerFlag l
           then legacy_send ws (WriteFlagCheckQueued (k_uuid r) k (ll_readers l))
                  (legacy_push_listener
                    \<lparr>ls_ws = ws, ls_key = k, ls_uuid = k_uuid r, ls_fn = IncReadersAndReply (ll_id l)\<rparr> b)
           else legacy_send ws (WriteFlagSuccess (k_uuid r) k (ll_readers l) (ll_writerFlag l)) b)
         (legacy_ensure_lock E k b))"

subsection \<open>Closing a connection\<close>

definition legacy_own_holds :: "sock \<Rightarrow> 'q legacy_lock_obj \<Rightarrow> (string \<times> legacy_holder) list" where
  "legacy_own_holds ws l = filter (\<lambda>(u, h). lh_ws h = ws) (ll_lockholders l)"

text \<open>\<open>Object.keys(uuids)\<close> of an array: its indices.\<close>

definition array_keys :: "string list \<Rightarrow> string list" where
  "array_keys xs = map decimal_digits [0..<length xs]"

text \<open>After the connection's own holds are gone, the key is unlocked by force, without a uuid.\<close>

definition legacy_cleanup_key ::
  "'q legacy_env \<Rightarrow> sock \<Rightarrow> string list \<Rightarrow> string \<Rightarrow> 'q legacy \<Rightarrow> 'q legacy option" where
  "legacy_cleanup_key E ws us k b =
     (case legacy_get b k of
        None \<Rightarrow> Some b
      | Some l \<Rightarrow>
          (let l1 = l\<lparr>ll_notify := fold (lq_remove E) (array_keys us) (ll_notify l),
                      ll_lockholders := filter (\<lambda>(u, h). lh_ws h \<noteq> ws) (ll_lockholders l)\<rparr>;
               b1 = legacy_set k l1 (fold (\<lambda>(u, h). clear_holder_timer h) (legacy_own_holds ws l) b)
           in if ll_isViaShell l1 \<and> ll_keep l1 then Some b1
              else legacy_unlock E (legacy_force k) (Some ws) b1))"

fun legacy_cleanup_locks ::
  "'q legacy_env \<Rightarrow> sock \<Rightarrow> string list \<Rightarrow> string list \<Rightarrow> 'q legacy \<Rightarrow> 'q legacy option" where
  "legacy_cleanup_locks E ws us [] b = Some b"
| "legacy_cleanup_locks E ws us (k # ks) b =
     Option.bind (legacy_cleanup_key E ws us k b) (legacy_cleanup_locks E ws us ks)"

text \<open>No handler called from here adds or removes an entry of \<open>locks\<close>, so the keys are those at the start.\<close>

definition legacy_cleanupConnection :: "'q legacy_env \<Rightarrow> sock \<Rightarrow> 'q legacy \<Rightarrow> 'q legacy option" where
  "legacy_cleanupConnection E ws b =
     (if lb_lmxClosed b ws then Some b
      else
        (let us = (case lb_wsToUUIDs b ws of None \<Rightarrow> [] | Some us \<Rightarrow> us);
             b1 = b\<lparr>lb_lmxClosed := (lb_lmxClosed b)(ws := True),
                    lb_connectedClients := removeAll ws (lb_connectedClients b),
                    lb_wsToKeys := (lb_wsToKeys b)(ws := None),
                    lb_wsToUUIDs := (lb_wsToUUIDs b)(ws := None),
                    lb_registeredListeners := (\<lambda>k. filter (\<lambda>p. ls_ws p \<noteq> ws) (lb_registeredListeners b k))\<rparr>
         in map_option (\<lambda>b2. b2\<lparr>lb_destroyTimeout := (lb_destroyTimeout b2)(ws := False)\<rparr>)
              (legacy_cleanup_locks E ws us (map fst (lb_locks b1)) b1)))"

definition legacy_destroy_socket :: "sock \<Rightarrow> 'q legacy \<Rightarrow> 'q legacy" where
  "legacy_destroy_socket ws b = b\<lparr>lb_writable := (lb_writable b)(ws := False)\<rparr>"

definition legacy_on_socket_end :: "'q legacy_env \<Rightarrow> sock \<Rightarrow> 'q legacy \<Rightarrow> 'q legacy option" where
  "legacy_on_socket_end E ws b = map_option (legacy_destroy_socket ws) (legacy_cleanupConnection E ws b)"

definition legacy_accept :: "sock \<Rightarrow> 'q legacy \<Rightarrow> 'q legacy" where
  "legacy_accept ws b =
     legacy_ensure_ws_keys ws (b\<lparr>lb_connectedClients := List.insert ws (lb_connectedClients b)\<rparr>)"

definition legacy_onVersion :: "'q legacy_env \<Rightarrow> jsval \<Rightarrow> sock \<Rightarrow> 'q legacy \<Rightarrow> 'q legacy option" where
  "legacy_onVersion E v ws b =
     (case compareVersions v (lg_version E) of
        Inr _ \<Rightarrow> Some b
      | Inl _ \<Rightarrow>
          map_option (\<lambda>b1.
            if lb_errorListener b1
            then (let b2 = legacy_send ws (VersionMismatch v (lg_version E)) b1
                  in b2\<lparr>lb_destroyTimeout := (lb_destroyTimeout b2)(ws := True)\<rparr>)
            else legacy_emit (Warn UncaughtError) b1)
          (legacy_cleanupConnection E ws b))"

subsection \<open>Introspection and notices\<close>

definition legacy_fields :: "string list" where
  "legacy_fields =
     [''readers'', ''max'', ''maxRead'', ''maxWrite'', ''lockholders'', ''lockholdersAllReleased'',
      ''keepLocksAfterDeath'', ''lockholderTimeouts'', ''key'', ''notify'', ''writerFlag'', ''timestampEmptied'']"

definition legacy_retrieveLockInfo :: "'q legacy_env \<Rightarrow> key_req \<Rightarrow> sock \<Rightarrow> 'q legacy \<Rightarrow> 'q legacy" where
  "legacy_retrieveLockInfo E r ws b =
     (let k = k_key r;
          us = (case legacy_get b k of None \<Rightarrow> [] | Some l \<Rightarrow> legacy_fields);
          cnt = map_option (\<lambda>l. lq_length E (ll_notify l)) (legacy_get b k);
          isLocked = (length us > 0);
          b1 = (if isLocked \<and> (case cnt of None \<Rightarrow> False | Some n \<Rightarrow> n > 0)
                then legacy_emit (Warn (LockInfoInconsistent k)) b else b)
      in legacy_send ws (LockInfoResponse (k_uuid r) k us cnt isLocked) b1)"

definition legacy_inspect :: "jsval \<Rightarrow> sock \<Rightarrow> 'q legacy \<Rightarrow> 'q legacy" where
  "legacy_inspect c ws b =
     (case c of
        String s \<Rightarrow>
          if s \<in> {''lockcount'', ''lock-count'', ''lock_count''} then legacy_send ws (InspectResult 5) b
          else if s \<in> {''clientcount'', ''client-count'', ''client_count''} then legacy_send ws (InspectResult 17) b
          else legacy_send ws (InspectResult 25) b
      | _ \<Rightarrow> legacy_send ws (ErrorReply InspectNotString) b)"

definition legacy_ping :: "string \<Rightarrow> int option \<Rightarrow> sock \<Rightarrow> 'q legacy \<Rightarrow> 'q legacy" where
  "legacy_ping u ts ws b =
     legacy_send ws (Pong u (case ts of None \<Rightarrow> lb_now b | Some t \<Rightarrow> if t = 0 then lb_now b else t) (lb_now b)) b"

definition legacy_getSystemStats :: "'q legacy_env \<Rightarrow> string \<Rightarrow> sock \<Rightarrow> 'q legacy \<Rightarrow> 'q legacy" where
  "legacy_getSystemStats E u ws b =
     legacy_send ws (LegacyStatsResponse u
       \<lparr>lt_connectedClients = length (lb_connectedClients b), lt_totalLocks = length (lb_locks b),
        lt_pendingRequests = sum_list (map (\<lambda>p. lq_length E (ll_notify (snd p))) (lb_locks b)),
        lt_activeTimeouts = length (lb_timeouts b)\<rparr>) b"

definition legacy_lockReceived :: "string \<Rightarrow> 'q legacy \<Rightarrow> 'q legacy" where
  "legacy_lockReceived k b = b\<lparr>lb_timeouts := AList.delete k (lb_timeouts b)\<rparr>"

definition legacy_lockGivenUp :: "'q legacy_env \<Rightarrow> key_req \<Rightarrow> 'q legacy \<Rightarrow> 'q legacy" where
  "legacy_lockGivenUp E r b =
     (case legacy_get b (k_key r) of
        None \<Rightarrow> legacy_emit (Warn (ProbablyExpired (k_key r))) b
      | Some l \<Rightarrow> legacy_set (k_key r) (l\<lparr>ll_notify := lq_remove E (k_uuid r) (ll_notify l)\<rparr>) b)"

definition legacy_lockRejected :: "'q legacy_env \<Rightarrow> key_req \<Rightarrow> string option \<Rightarrow> 'q legacy \<Rightarrow> 'q legacy option" where
  "legacy_lockRejected E r uo b =
     (case legacy_get b (k_key r) of
        None \<Rightarrow> Some (legacy_emit (Warn (ProbablyExpired (k_key r))) b)
      | Some l \<Rightarrow> legacy_ensureNewLockHolder E (k_key r) uo (b\<lparr>lb_rejected := insert (k_uuid r) (lb_rejected b)\<rparr>))"

subsection \<open>onData\<close>

datatype legacy_frame =
    LgLock legacy_lock_req
  | LgUnlock legacy_unlock_req
  | LgLs string
  | LgVersion jsval
  | LgVersionMismatchConfirmed
  | LgSimulateVersionMismatch
  | LgEndConnection
  | LgDestroyConnection
  | LgIncrementReaders key_req
  | LgDecrementReaders key_req
  | LgRegisterWriteFlagCheck key_req
  | LgRegisterWriteFlagCheckQueued key_req
  | LgRegisterWriteFlagAndReadersCheck key_req
  | LgSetWriteFlagFalseAndBroadcast key_req
  | LgLockReceived key_req
  | LgLockClientTimeout key_req
  | LgLockClientError key_req
  | LgLockReceivedRejected key_req "string option"
  | LgLockInfoRequest key_req
  | LgPing string "int option"
  | LgSystemStatsRequest string
  | LgInspect jsval
  | LgOther

fun legacy_dispatch :: "'q legacy_env \<Rightarrow> legacy_frame \<Rightarrow> sock \<Rightarrow> 'q legacy \<Rightarrow> 'q legacy option" where
  "legacy_dispatch E LgSimulateVersionMismatch ws b = legacy_onVersion E (String ''0.0.1'') ws b"
| "legacy_dispatch E LgEndConnection ws b = Some (legacy_destroy_socket ws b)"
| "legacy_dispatch E LgDestroyConnection ws b = Some (legacy_destroy_socket ws b)"
| "legacy_dispatch E (LgInspect c) ws b = Some (legacy_inspect c ws b)"
| "legacy_dispatch E (LgVersion v) ws b = legacy_onVersion E v ws b"
| "legacy_dispatch E (LgLs u) ws b = Some (legacy_send ws (LsReply u []) b)"
| "legacy_dispatch E (LgUnlock r) ws b = legacy_unlock E r (Some ws) b"
| "legacy_dispatch E (LgLock r) ws b = Some (legacy_lock E (r\<lparr>lr_ttl := normalise_ttl (lr_ttl r)\<rparr>) ws b)"
| "legacy_dispatch E (LgIncrementReaders r) ws b = Some (legacy_incrementReaders E r ws b)"
| "legacy_dispatch E (LgDecrementReaders r) ws b = Some (legacy_decrementReaders E r ws b)"
| "legacy_dispatch E (LgRegisterWriteFlagCheck r) ws b = Some (legacy_registerWriteFlagCheck E r ws b)"
| "legacy_dispatch E (LgRegisterWriteFlagCheckQueued r) ws b = Some b"
| "legacy_dispatch E (LgRegisterWriteFlagAndReadersCheck r) ws b =
     Some (legacy_registerWriteFlagAndReadersCheck E r ws b)"
| "legacy_dispatch E (LgSetWriteFlagFalseAndBroadcast r) ws b =
     Some (legacy_setWriteFlagToFalseAndBroadcast E r ws b)"
| "legacy_dispatch E (LgLockReceived r) ws b = Some (legacy_lockReceived (k_key r) b)"
| "legacy_dispatch E (LgLockClientTimeout r) ws b = Some (legacy_lockGivenUp E r b)"
| "legacy_dispatch E (LgLockClientError r) ws b = Some (legacy_lockGivenUp E r b)"
| "legacy_dispatch E (LgLockReceivedRejected r uo) ws b = legacy_lockRejected E r uo b"
| "legacy_dispatch E (LgLockInfoRequest r) ws b = Some (legacy_retrieveLockInfo E r ws b)"
| "legacy_dispatch E (LgPing u ts) ws b = Some (legacy_ping u ts ws b)"
| "legacy_dispatch E (LgSystemStatsRequest u) ws b = Some (legacy_getSystemStats E u ws b)"
| "legacy_dispatch E f ws b = Some (legacy_send ws (ErrorReply MalformedData) (legacy_emit (Warn BadData) b))"

definition legacy_onData :: "'q legacy_env \<Rightarrow> legacy_frame \<Rightarrow> sock \<Rightarrow> 'q legacy \<Rightarrow> 'q legacy option" where
  "legacy_onData E f ws b =
     (if f = LgVersionMismatchConfirmed
      then Some (legacy_destroy_socket ws (b\<lparr>lb_destroyTimeout := (lb_destroyTimeout b)(ws := False)\<rparr>))
      else if lb_lmxClosed b ws then Some b
      else legacy_dispatch E f ws b)"

subsection \<open>Events\<close>

datatype legacy_event =
    LgAccept sock
  | LgFrame legacy_frame sock
  | LgSocketEnd sock
  | LgHolderTimer nat
  | LgReelectionTimer string
  | LgDestroyTimer sock
  | LgClockSet int
  | LgWritableSet sock bool
  | LgAttachErrorListener

fun legacy_handle :: "'q legacy_env \<Rightarrow> legacy_event \<Rightarrow> 'q legacy \<Rightarrow> 'q legacy option" where
  "legacy_handle E (LgAccept ws) b = Some (legacy_accept ws b)"
| "legacy_handle E (LgFrame f ws) b = legacy_onData E f ws b"
| "legacy_handle E (LgSocketEnd ws) b = legacy_on_socket_end E ws b"
| "legacy_handle E (LgHolderTimer i) b = holder_timed_out E i b"
| "legacy_handle E (LgReelectionTimer k) b = Some (legacy_fire_reelection E k b)"
| "legacy_handle E (LgDestroyTimer ws) b =
     Some (if lb_destroyTimeout b ws
           then legacy_destroy_socket ws (b\<lparr>lb_destroyTimeout := (lb_destroyTimeout b)(ws := False)\<rparr>) else b)"
| "legacy_handle E (LgClockSet t) b = Some (b\<lparr>lb_now := t\<rparr>)"
| "legacy_handle E (LgWritableSet ws w) b = Some (b\<lparr>lb_writable := (lb_writable b)(ws := w)\<rparr>)"
| "legacy_handle E LgAttachErrorListener b = Some (b\<lparr>lb_errorListener := True\<rparr>)"

inductive legacy_reachable :: "'q legacy_env \<Rightarrow> (legacy_event \<Rightarrow> bool) \<Rightarrow> 'q legacy \<Rightarrow> 'q legacy \<Rightarrow> bool"
  for E A b0 where
  legacy_start: "legacy_reachable E A b0 b0"
| legacy_step: "legacy_reachable E A b0 b \<Longrightarrow> A ev \<Longrightarrow> legacy_handle E ev b = Some b' \<Longrightarrow> legacy_reachable E A b0 b'"

fun legacy_run :: "'q legacy_env \<Rightarrow> legacy_event list \<Rightarrow> 'q legacy \<Rightarrow> 'q legacy option" where
  "legacy_run E [] b = Some b"
| "legacy_run E (ev # evs) b = Option.bind (legacy_handle E ev b) (legacy_run E evs)"

lemma legacy_run_reachable_from:
  assumes "legacy_reachable E A b0 b" and "list_all A evs" and "legacy_run E evs b = Some b'"
  shows "legacy_reachable E A b0 b'"
  using assms
proof (induction evs arbitrary: b)
  case (Cons ev evs)
  from Cons.prems(3) obtain b1 where "legacy_handle E ev b = Some b1" "legacy_run E evs b1 = Some b'"
    by (auto split: Option.bind_splits)
  with Cons show ?case by (auto intro: legacy_reachable.legacy_step)
qed simp

lemmas legacy_run_reachable = legacy_run_reachable_from [OF legacy_reachable.legacy_start]

end
