(* ===== verification/LegacyInv.thy ===== *)
theory LegacyInv
  imports LegacyConn
begin

text \<open>
  The invariant of \<open>Broker\<close>: every hold that has a timer has it armed, for its own key and uuid, and the
  keys of a set \<open>D\<close> of pairs \<open>(k, m)\<close> have at most \<open>m\<close> holders and limits of at most \<open>m\<close>, if the requests
  for them ask for no more. With \<open>D = {}\<close> it is a property of every run.
\<close>

subsection \<open>The invariant\<close>

definition timer_ok :: "(nat, holder_timer) jsmap \<Rightarrow> string \<Rightarrow> string \<Rightarrow> legacy_holder \<Rightarrow> bool" where
  "timer_ok ts k u h \<longleftrightarrow> (\<forall>i. lh_timer h = Some i \<longrightarrow>
     (\<exists>c. map_of ts i = Some \<lparr>ht_key = k, ht_uuid = u, ht_created = c\<rparr>))"

definition holds_ok :: "(nat, holder_timer) jsmap \<Rightarrow> string \<Rightarrow> (string, legacy_holder) jsmap \<Rightarrow> bool" where
  "holds_ok ts k hs \<longleftrightarrow> jsmap_wf hs \<and> (\<forall>u h. map_of hs u = Some h \<longrightarrow> timer_ok ts k u h)"

definition limits_within :: "nat \<Rightarrow> 'q legacy_lock_obj \<Rightarrow> bool" where
  "limits_within m l \<longleftrightarrow> ll_maxRead l = None \<and> (\<forall>w. ll_maxWrite l = Some w \<longrightarrow> w \<le> int m) \<and> ll_max l \<le> int m"

definition legacy_within :: "(string \<times> nat) set \<Rightarrow> string \<Rightarrow> 'q legacy_lock_obj \<Rightarrow> bool" where
  "legacy_within D k l \<longleftrightarrow> (\<forall>m. (k, m) \<in> D \<longrightarrow> limits_within m l \<and> length (ll_lockholders l) \<le> m)"

definition legacy_inv :: "(string \<times> nat) set \<Rightarrow> 'q legacy \<Rightarrow> bool" where
  "legacy_inv D b \<longleftrightarrow> (\<forall>(k, m) \<in> D. 1 \<le> m) \<and> jsmap_wf (lb_locks b) \<and>
     (\<forall>k l. legacy_get b k = Some l \<longrightarrow> holds_ok (lb_timers b) k (ll_lockholders l) \<and> legacy_within D k l) \<and>
     (\<forall>i. lb_next_timer b \<le> i \<longrightarrow> map_of (lb_timers b) i = None)"

text \<open>What requests are to ask for.\<close>

definition asks_within :: "(string \<times> nat) set \<Rightarrow> legacy_lock_req \<Rightarrow> bool" where
  "asks_within D r \<longleftrightarrow> (\<forall>m. (lr_key r, m) \<in> D \<longrightarrow> \<not> wants_read r \<and>
     (\<forall>n. lr_max r = Some n \<longrightarrow> n \<le> int m) \<and> (\<forall>n. lr_maxWrite r = Some n \<longrightarrow> n \<le> int m))"

fun legacy_disciplined :: "(string \<times> nat) set \<Rightarrow> legacy_event \<Rightarrow> bool" where
  "legacy_disciplined D (LgFrame (LgLock r) ws) = asks_within D r"
| "legacy_disciplined D ev = True"

lemma disciplined_empty [simp]: "legacy_disciplined {} ev"
  by (induction "{} :: (string \<times> nat) set" ev rule: legacy_disciplined.induct) (auto simp: asks_within_def)

subsection \<open>What does not matter to it\<close>

definition legacy_core :: "'q legacy \<Rightarrow> (string, 'q legacy_lock_obj) jsmap \<times> (nat, holder_timer) jsmap \<times> nat" where
  "legacy_core b = (lb_locks b, lb_timers b, lb_next_timer b)"

lemma inv_core: "legacy_inv D b \<Longrightarrow> legacy_core b' = legacy_core b \<Longrightarrow> legacy_inv D b'"
  by (simp add: legacy_inv_def legacy_core_def)

named_theorems core_simps "operations that leave lock objects and timers alone"

lemma core_primitives [core_simps]:
  "legacy_core (legacy_emit e b) = legacy_core b" "legacy_core (legacy_send ws r b) = legacy_core b"
  "legacy_core (legacy_add_ws_key ws k b) = legacy_core b" "legacy_core (legacy_del_ws_key ws k b) = legacy_core b"
  "legacy_core (legacy_add_ws_uuid ws u b) = legacy_core b" "legacy_core (legacy_del_ws_uuid ws u b) = legacy_core b"
  "legacy_core (legacy_ensure_ws_keys ws b) = legacy_core b" "legacy_core (legacy_destroy_socket ws b) = legacy_core b"
  "legacy_core (legacy_push_listener p b) = legacy_core b"
  by (simp_all add: legacy_core_def legacy_emit_def legacy_send_def legacy_add_ws_key_def legacy_del_ws_key_def
      legacy_add_ws_uuid_def legacy_del_ws_uuid_def legacy_ensure_ws_keys_def legacy_destroy_socket_def
      legacy_push_listener_def split: option.split)

lemma core_fields [core_simps]:
  "legacy_core (b\<lparr>lb_timeouts := x1\<rparr>) = legacy_core b" "legacy_core (b\<lparr>lb_lockCounts := x2\<rparr>) = legacy_core b"
  "legacy_core (b\<lparr>lb_rejected := x3\<rparr>) = legacy_core b" "legacy_core (b\<lparr>lb_registeredListeners := x4\<rparr>) = legacy_core b"
  "legacy_core (b\<lparr>lb_lmxClosed := x5\<rparr>) = legacy_core b" "legacy_core (b\<lparr>lb_connectedClients := x6\<rparr>) = legacy_core b"
  "legacy_core (b\<lparr>lb_wsToKeys := x7\<rparr>) = legacy_core b" "legacy_core (b\<lparr>lb_wsToUUIDs := x8\<rparr>) = legacy_core b"
  "legacy_core (b\<lparr>lb_destroyTimeout := x9\<rparr>) = legacy_core b" "legacy_core (b\<lparr>lb_writable := x10\<rparr>) = legacy_core b"
  "legacy_core (b\<lparr>lb_now := x11\<rparr>) = legacy_core b" "legacy_core (b\<lparr>lb_errorListener := x12\<rparr>) = legacy_core b"
  "legacy_core (b\<lparr>lb_next_id := x13\<rparr>) = legacy_core b"
  by (simp_all add: legacy_core_def)

lemma core_replies [core_simps]:
  "legacy_core (legacy_reply_unlock wo r f b) = legacy_core b"
  "legacy_core (legacy_forget_ownership wo r b) = legacy_core b"
  "legacy_core (legacy_unlock_no_lock r wo b) = legacy_core b"
  by (simp_all add: legacy_reply_unlock_def legacy_forget_ownership_def legacy_unlock_no_lock_def Let_def core_simps
      split: option.split)

lemma core_fold: "(\<And>x b. legacy_core (f x b) = legacy_core b) \<Longrightarrow> legacy_core (fold f xs b) = legacy_core b"
  by (induction xs arbitrary: b) simp_all

lemma core_reelections [core_simps]: "legacy_core (legacy_send_reelections k c es b) = legacy_core b"
  unfolding legacy_send_reelections_def by (rule core_fold) (simp add: core_simps split: prod.split)

lemma timers_add_ws_key [simp]: "lb_timers (legacy_add_ws_key ws k b) = lb_timers b"
  by (simp add: legacy_add_ws_key_def)

lemma inv_send: "legacy_inv D b \<Longrightarrow> legacy_inv D (legacy_send ws r b)"
  by (rule inv_core) (simp_all add: core_simps)

lemma inv_emit: "legacy_inv D b \<Longrightarrow> legacy_inv D (legacy_emit e b)"
  by (rule inv_core) (simp_all add: core_simps)

lemma locks_of_core:
  "legacy_core b' = legacy_core b \<Longrightarrow> lb_locks b' = lb_locks b \<and> lb_timers b' = lb_timers b \<and> lb_next_timer b' = lb_next_timer b"
  by (simp add: legacy_core_def)

lemma legacy_get_core: "legacy_core b' = legacy_core b \<Longrightarrow> legacy_get b' k = legacy_get b k"
  by (simp add: legacy_core_def)

lemma legacy_get_set [simp]: "legacy_get (legacy_set k l b) k' = (if k' = k then Some l else legacy_get b k')"
  by (simp add: legacy_set_def)

lemma legacy_set_timers [simp]:
  "lb_timers (legacy_set k l b) = lb_timers b" "lb_next_timer (legacy_set k l b) = lb_next_timer b"
  "jsmap_wf (lb_locks (legacy_set k l b)) = jsmap_wf (lb_locks b)"
  by (simp_all add: legacy_set_def)

subsection \<open>Changing one lock object\<close>

lemma inv_set:
  assumes "legacy_inv D b" and "holds_ok (lb_timers b) k (ll_lockholders l)" and "legacy_within D k l"
  shows "legacy_inv D (legacy_set k l b)"
  using assms by (simp add: legacy_inv_def)

definition alike :: "'q legacy_lock_obj \<Rightarrow> 'q legacy_lock_obj \<Rightarrow> bool" where
  "alike l l' \<longleftrightarrow> ll_lockholders l' = ll_lockholders l \<and> ll_max l' = ll_max l \<and>
     ll_maxRead l' = ll_maxRead l \<and> ll_maxWrite l' = ll_maxWrite l"

lemma within_alike: "legacy_within D k l \<Longrightarrow> alike l l' \<Longrightarrow> legacy_within D k l'"
  by (simp add: legacy_within_def limits_within_def alike_def)

lemma inv_get:
  assumes "legacy_inv D b" and "legacy_get b k = Some l"
  shows "holds_ok (lb_timers b) k (ll_lockholders l)" "legacy_within D k l"
  using assms by (auto simp: legacy_inv_def)

lemma inv_alike:
  assumes "legacy_inv D b" and "legacy_get b k = Some l" and "alike l l'"
  shows "legacy_inv D (legacy_set k l' b)"
  using inv_get [OF assms(1,2)] within_alike [OF _ assms(3)] assms(3)
  by (auto intro: inv_set [OF assms(1)] simp: alike_def)

subsection \<open>Ending holds\<close>

lemma clear_timers_fields [simp]:
  "lb_locks (fold (\<lambda>(u, h). clear_holder_timer h) hs b) = lb_locks b"
  "lb_next_timer (fold (\<lambda>(u, h). clear_holder_timer h) hs b) = lb_next_timer b"
  by (induction hs arbitrary: b) (auto simp: clear_holder_timer_def split: option.split)

lemma timers_after_clear:
  "map_of (lb_timers (fold (\<lambda>(u, h). clear_holder_timer h) hs b)) i =
     (if \<exists>(u, h) \<in> set hs. lh_timer h = Some i then None else map_of (lb_timers b) i)"
  by (induction hs arbitrary: b) (auto simp: clear_holder_timer_def split: option.split)

text \<open>Clearing the timers of some holds of a key leaves those of every other hold.\<close>

lemma timer_ok_after_clear:
  assumes "timer_ok ts k u h" and "\<And>v g. (v, g) \<in> set hs \<Longrightarrow> timer_ok ts k' v g"
    and "k \<noteq> k' \<or> u \<notin> fst ` set hs" and "ts = lb_timers b"
  shows "timer_ok (lb_timers (fold (\<lambda>(u, h). clear_holder_timer h) hs b)) k u h"
  unfolding timer_ok_def
proof (intro allI impI)
  fix i assume i: "lh_timer h = Some i"
  then obtain c where c: "map_of ts i = Some \<lparr>ht_key = k, ht_uuid = u, ht_created = c\<rparr>"
    using assms(1) by (auto simp: timer_ok_def)
  have "\<not> (\<exists>(v, g) \<in> set hs. lh_timer g = Some i)"
    using assms(2,3) c by (force simp: timer_ok_def image_iff)
  with c assms(4) show "\<exists>c. map_of (lb_timers (fold (\<lambda>(u, h). clear_holder_timer h) hs b)) i =
      Some \<lparr>ht_key = k, ht_uuid = u, ht_created = c\<rparr>"
    by (auto simp: timers_after_clear)
qed

lemma holds_okD:
  assumes "holds_ok ts k hs" and "(u, h) \<in> set hs"
  shows "timer_ok ts k u h"
  using assms jsmap_wf_in_set [of hs u h] unfolding holds_ok_def by blast

lemma holds_ok_unique:
  assumes "holds_ok ts k hs" and "(u, g) \<in> set hs" and "(u, h) \<in> set hs"
  shows "g = h"
proof -
  have "jsmap_wf hs" using assms(1) by (simp add: holds_ok_def)
  from jsmap_wf_in_set [OF this, of u g] jsmap_wf_in_set [OF this, of u h] assms(2,3) show ?thesis by simp
qed

lemma inv_end_holds:
  assumes inv: "legacy_inv D b" and l: "legacy_get b k = Some l"
    and l': "ll_lockholders l' = filter (\<lambda>p. \<not> P p) (ll_lockholders l)" "ll_max l' = ll_max l"
      "ll_maxRead l' = ll_maxRead l" "ll_maxWrite l' = ll_maxWrite l"
  shows "legacy_inv D (legacy_set k l' (fold (\<lambda>(u, h). clear_holder_timer h) (filter P (ll_lockholders l)) b))"
proof -
  let ?hs = "filter P (ll_lockholders l)"
  let ?b = "fold (\<lambda>(u, h). clear_holder_timer h) ?hs b"
  have ok: "holds_ok (lb_timers b) k (ll_lockholders l)" and within: "legacy_within D k l" using inv_get [OF inv l] .
  have ended: "timer_ok (lb_timers b) k v g" if "(v, g) \<in> set ?hs" for v g
    using holds_okD [OF ok] that by simp
  have "holds_ok (lb_timers ?b) k (ll_lockholders l')"
    unfolding holds_ok_def
  proof (intro conjI allI impI)
    show "jsmap_wf (ll_lockholders l')" using ok by (simp add: l' holds_ok_def)
    fix u h assume "map_of (ll_lockholders l') u = Some h"
    then have u: "(u, h) \<in> set (ll_lockholders l)" "\<not> P (u, h)"
      using map_of_SomeD by (fastforce simp: l')+
    have "\<not> (v = u \<and> P (v, g))" if "(v, g) \<in> set (ll_lockholders l)" for v g
      using u(2) that holds_ok_unique [OF ok u(1)] by blast
    then have "u \<notin> fst ` set ?hs" by force
    moreover have "timer_ok (lb_timers b) k u h" using holds_okD [OF ok u(1)] .
    ultimately show "timer_ok (lb_timers ?b) k u h" using timer_ok_after_clear [OF _ ended] by blast
  qed
  moreover have "legacy_within D k l'"
    using within l' by (auto simp: legacy_within_def limits_within_def intro: order_trans [OF length_filter_le])
  moreover have "holds_ok (lb_timers ?b) k2 (ll_lockholders l2)"
    if "legacy_get b k2 = Some l2" "k2 \<noteq> k" for k2 l2
  proof -
    have "timer_ok (lb_timers ?b) k2 u h" if "timer_ok (lb_timers b) k2 u h" for u h
      by (rule timer_ok_after_clear [OF that ended]) (use \<open>k2 \<noteq> k\<close> in auto)
    then show ?thesis using inv_get(1) [OF inv that(1)] by (simp add: holds_ok_def)
  qed
  ultimately show ?thesis
    using inv by (auto simp: legacy_inv_def timers_after_clear)
qed

lemma filter_key: "jsmap_wf m \<Longrightarrow> filter (\<lambda>p. fst p = u) m = (case map_of m u of None \<Rightarrow> [] | Some v \<Rightarrow> [(u, v)])"
proof (induction m)
  case (Cons p m)
  moreover have "map_of m u = None" if "fst p = u" "jsmap_wf (p # m)" using that by (auto simp: map_of_eq_None_iff)
  ultimately show ?case by (cases p) auto
qed simp

lemma drop_holder_fold:
  assumes "jsmap_wf (ll_lockholders l)"
  shows "snd (legacy_drop_holder k u l b) = legacy_set k (l\<lparr>ll_lockholders := filter (\<lambda>p. \<not> fst p = u) (ll_lockholders l)\<rparr>)
    (fold (\<lambda>(u, h). clear_holder_timer h) (filter (\<lambda>p. fst p = u) (ll_lockholders l)) b)"
  using filter_key [OF assms, of u] by (auto simp: legacy_drop_holder_def Let_def delete_filter split: option.split)

lemma inv_drop_holder:
  assumes "legacy_inv D b" and "legacy_get b k = Some l0" and "alike l0 l"
  shows "legacy_inv D (snd (legacy_drop_holder k u l b))"
proof -
  have "jsmap_wf (ll_lockholders l0)" using inv_get(1) [OF assms(1,2)] by (simp add: holds_ok_def)
  then have "jsmap_wf (ll_lockholders l)" "ll_lockholders l = ll_lockholders l0" using assms(3) by (simp_all add: alike_def)
  then show ?thesis
    using assms(3) by (subst drop_holder_fold) (auto simp: alike_def intro!: inv_end_holds [OF assms(1,2)])
qed

lemma get_drop_holder [simp]:
  "legacy_get (snd (legacy_drop_holder k u l b)) k' =
     (if k' = k then Some (fst (legacy_drop_holder k u l b)) else legacy_get b k')"
  by (auto simp: legacy_drop_holder_def Let_def clear_holder_timer_def split: option.split)

lemma fst_drop_holder [simp]:
  "fst (legacy_drop_holder k u l b) = l\<lparr>ll_lockholders := AList.delete u (ll_lockholders l)\<rparr>"
  by (simp add: legacy_drop_holder_def Let_def)

subsection \<open>Granting\<close>

lemma inv_install:
  assumes inv: "legacy_inv D b" and l: "holds_ok (lb_timers b) k (ll_lockholders l)"
    and room: "\<And>m. (k, m) \<in> D \<Longrightarrow> limits_within m l \<and> length (ll_lockholders l) < m"
  shows "legacy_inv D (legacy_install created k u ws pid ttl l b)"
proof -
  obtain t b1 where t: "set_holder_timer created k u ttl b = (t, b1)" by (cases "set_holder_timer created k u ttl b")
  have fresh: "map_of (lb_timers b) (lb_next_timer b) = None" using inv by (simp add: legacy_inv_def)
  have keep: "timer_ok (lb_timers b1) k' u' h" if "timer_ok (lb_timers b) k' u' h" for k' u' h
    using that t fresh by (auto simp: timer_ok_def set_holder_timer_def split: if_splits)
  have new: "timer_ok (lb_timers b1) k u \<lparr>lh_pid = pid, lh_ws = ws, lh_uuid = u, lh_timer = t\<rparr>"
    using t by (auto simp: timer_ok_def set_holder_timer_def split: if_splits)
  have b1: "legacy_inv D b1"
    using inv t keep by (auto simp: legacy_inv_def holds_ok_def set_holder_timer_def split: if_splits)
  show ?thesis
    unfolding legacy_install_def t Let_def prod.case
  proof (rule inv_set [OF b1])
    show "holds_ok (lb_timers b1) k (ll_lockholders (l\<lparr>ll_lockholders := AList.update u
        \<lparr>lh_pid = pid, lh_ws = ws, lh_uuid = u, lh_timer = t\<rparr> (ll_lockholders l)\<rparr>))"
      using l keep new by (auto simp: holds_ok_def)
    show "legacy_within D k (l\<lparr>ll_lockholders := AList.update u
        \<lparr>lh_pid = pid, lh_ws = ws, lh_uuid = u, lh_timer = t\<rparr> (ll_lockholders l)\<rparr>)"
      using room length_update_le [of u "\<lparr>lh_pid = pid, lh_ws = ws, lh_uuid = u, lh_timer = t\<rparr>" "ll_lockholders l"]
      by (fastforce simp: legacy_within_def limits_within_def)
  qed
qed

lemma room_if_not_full:
  assumes "legacy_within D k l" and "\<not> legacy_full l" and "(k, m) \<in> D" and "1 \<le> m"
  shows "limits_within m l \<and> length (ll_lockholders l) < m"
proof -
  have *: "limits_within m l" using assms(1,3) by (simp add: legacy_within_def)
  then have "legacy_max_capacity l \<le> int m"
    using assms(4) by (cases "ll_maxWrite l") (auto simp: limits_within_def legacy_max_capacity_def or_one_def)
  with * assms(2) show ?thesis by (simp add: legacy_full_def)
qed

lemma inv_grant_waiter:
  assumes inv: "legacy_inv D b" and l: "legacy_get b k = Some l" and "\<not> legacy_full l"
  shows "legacy_inv D (legacy_grant_waiter E k n l b)"
proof -
  let ?b = "legacy_add_ws_key (ln_ws n) k b"
  have b: "legacy_inv D ?b" by (rule inv_core [OF inv]) (simp add: core_simps)
  have "legacy_inv D (legacy_install False k (ln_uuid n) (ln_ws n) (ln_pid n) ttl (l\<lparr>ll_keep := ln_keep n\<rparr>) ?b)" for ttl
  proof (rule inv_install [OF b])
    show "holds_ok (lb_timers ?b) k (ll_lockholders (l\<lparr>ll_keep := ln_keep n\<rparr>))"
      using inv_get(1) [OF inv l] by simp
    show "limits_within m (l\<lparr>ll_keep := ln_keep n\<rparr>) \<and> length (ll_lockholders (l\<lparr>ll_keep := ln_keep n\<rparr>)) < m"
      if "(k, m) \<in> D" for m
      using room_if_not_full [OF inv_get(2) [OF inv l] assms(3) that] that inv by (auto simp: legacy_inv_def limits_within_def)
  qed
  then show ?thesis by (rule inv_core) (simp add: legacy_grant_waiter_def Let_def core_simps)
qed

lemma inv_drain: "legacy_drain E k b = Some b' \<Longrightarrow> legacy_inv D b \<Longrightarrow> legacy_inv D b'"
proof -
  have "legacy_inv D b0 \<longrightarrow> legacy_inv D r" if "legacy_drain E0 k0 b0 = Some r" for E0 k0 b0 and r :: "'a legacy"
  proof (rule legacy_drain.raw_induct [where P = "\<lambda>E0 k0 b0 r. legacy_inv D b0 \<longrightarrow> legacy_inv D r", OF _ that], intro impI)
    fix self :: "'a legacy_env \<Rightarrow> string \<Rightarrow> 'a legacy \<Rightarrow> 'a legacy option" and E0 k0 b0 and r :: "'a legacy"
    assume IH: "\<And>E k b r. self E k b = Some r \<Longrightarrow> legacy_inv D b \<longrightarrow> legacy_inv D r" and inv: "legacy_inv D b0"
      and step: "(case legacy_get b0 k0 of None \<Rightarrow> Some b0 | Some l \<Rightarrow>
          if lq_length E0 (ll_notify l) = 0 \<or> legacy_full l then Some b0
          else (case legacy_next_waiter E0 (lb_writable b0) (ll_notify l) None of None \<Rightarrow> None
             | Some (None, q) \<Rightarrow> Some (legacy_set k0 (l\<lparr>ll_notify := q\<rparr>) b0)
             | Some (Some n, q) \<Rightarrow>
                 (let l1 = l\<lparr>ll_notify := q\<rparr>; b1 = legacy_set k0 l1 b0
                  in if legacy_full l1
                     then Some (legacy_set k0 (l1\<lparr>ll_notify := lq_enqueue E0 (ln_uuid n) n q\<rparr>) b1)
                     else self E0 k0 (legacy_grant_waiter E0 k0 n l1 b1)))) = Some r"
    have queue: "legacy_inv D (legacy_set k0 (l\<lparr>ll_notify := q\<rparr>) b0)" if "legacy_get b0 k0 = Some l" for l q
      by (rule inv_alike [OF inv that]) (simp add: alike_def)
    have grant: "legacy_inv D (legacy_grant_waiter E0 k0 n (l\<lparr>ll_notify := q\<rparr>) (legacy_set k0 (l\<lparr>ll_notify := q\<rparr>) b0))"
      if "legacy_get b0 k0 = Some l" "\<not> legacy_full (l\<lparr>ll_notify := q\<rparr>)" for l q n
      by (rule inv_grant_waiter [OF queue [OF that(1)]]) (simp_all add: that(2))
    have again: "legacy_inv D (legacy_set k0 (l\<lparr>ll_notify := q2\<rparr>) (legacy_set k0 (l\<lparr>ll_notify := q\<rparr>) b0))"
      if "legacy_get b0 k0 = Some l" for l q q2
      by (rule inv_alike [OF queue [OF that], where l = "l\<lparr>ll_notify := q\<rparr>"]) (simp_all add: alike_def)
    from step show "legacy_inv D r"
      using inv queue grant again IH by (auto simp: Let_def split: option.splits if_splits)
  qed
  then show "legacy_drain E k b = Some b' \<Longrightarrow> legacy_inv D b \<Longrightarrow> legacy_inv D b'" by blast
qed

lemma inv_ensureNewLockHolder:
  assumes "legacy_ensureNewLockHolder E k uo b = Some b'" and inv: "legacy_inv D b"
  shows "legacy_inv D b'"
proof (cases "legacy_get b k")
  case None
  with assms show ?thesis by (simp add: legacy_ensureNewLockHolder_def)
next
  case (Some l0)
  define l1 where "l1 = (if truthy_str uo then fst (legacy_drop_holder k (prop_name uo) l0 b) else l0)"
  define b1 where "b1 = (if truthy_str uo then snd (legacy_drop_holder k (prop_name uo) l0 b) else b)"
  have "legacy_inv D b1" "legacy_get b1 k = Some l1"
    using Some inv inv_drop_holder [OF inv Some, of l0] by (auto simp: b1_def l1_def alike_def)
  then have *: "legacy_inv D (legacy_set k (l1\<lparr>ll_keep := False\<rparr>) b1)"
    "legacy_inv D (legacy_set k (l1\<lparr>ll_keep := False, ll_timestampEmptied := x\<rparr>) b1)" for x
    by (auto intro: inv_alike simp: alike_def)
  have "legacy_ensureNewLockHolder E k uo b =
      (if ll_lockholders (l1\<lparr>ll_keep := False\<rparr>) = [] \<and> lq_length E (ll_notify (l1\<lparr>ll_keep := False\<rparr>)) = 0
       then Some (legacy_set k (l1\<lparr>ll_keep := False, ll_timestampEmptied := Some (lb_now b)\<rparr>) b1)
       else legacy_drain E k (legacy_set k (l1\<lparr>ll_keep := False\<rparr>) b1))"
    by (auto simp: legacy_ensureNewLockHolder_def Some l1_def b1_def Let_def case_prod_beta)
  with assms(1) * show ?thesis by (auto split: if_splits dest: inv_drain)
qed

subsection \<open>lock\<close>

lemma inv_create_lock:
  assumes inv: "legacy_inv D b"
    and "\<And>m. (k, m) \<in> D \<Longrightarrow> mr = None \<and> (\<forall>w. mw = Some w \<longrightarrow> w \<le> int m) \<and> (\<forall>n. mx = Some n \<longrightarrow> n \<le> int m)"
  shows "legacy_inv D (legacy_create_lock E k keep mx mr mw b)"
  unfolding legacy_create_lock_def
proof (rule inv_set)
  show "legacy_inv D (b\<lparr>lb_next_id := Suc (lb_next_id b)\<rparr>)" by (rule inv_core [OF inv]) (simp add: core_simps)
  show "legacy_within D k (legacy_getDefaultLockObject E b keep mx mr mw)"
    using assms by (fastforce simp: legacy_within_def limits_within_def legacy_getDefaultLockObject_def or_one_def
        legacy_inv_def split: option.split)
qed (simp add: holds_ok_def legacy_getDefaultLockObject_def)

lemma inv_ensure_lock:
  assumes "legacy_inv D b"
  shows "legacy_inv D (legacy_ensure_lock E k b)"
proof -
  have "\<And>m. (k, m) \<in> D \<Longrightarrow> 1 \<le> int m" using assms by (fastforce simp: legacy_inv_def)
  then show ?thesis
    using assms by (auto simp: legacy_ensure_lock_def intro!: inv_create_lock [OF assms] split: option.split)
qed

lemma inv_with_lock:
  assumes "legacy_inv D b" and "\<And>l. legacy_get b k = Some l \<Longrightarrow> legacy_inv D (f l b)"
  shows "legacy_inv D (legacy_with_lock k f b)"
  using assms by (simp add: legacy_with_lock_def split: option.split)

lemma inv_change:
  assumes "legacy_inv D b" and "\<And>l. alike l (f l)"
  shows "legacy_inv D (legacy_with_lock k (\<lambda>l b. legacy_set k (f l) b) b)"
  using assms by (intro inv_with_lock inv_alike)

lemma inv_count_request: "legacy_inv D b \<Longrightarrow> legacy_inv D (legacy_count_request E b)"
proof -
  assume inv: "legacy_inv D b"
  have "legacy_inv D (legacy_cleanUpLocks E b1)" if "legacy_inv D b1" for b1
    using that by (auto simp: legacy_inv_def legacy_cleanUpLocks_def map_of_filter_wf split: option.splits if_splits)
  then show ?thesis
    using inv_core [OF inv core_fields(2)] by (simp add: legacy_count_request_def Let_def)
qed

lemma limits_of_request:
  assumes "legacy_within D k l" and "asks_within D r" and "lr_key r = k" and "(k, m) \<in> D" and "1 \<le> m"
  shows "limits_within m (legacy_update_limits r l)"
  using assms by (auto simp: legacy_within_def limits_within_def asks_within_def legacy_update_limits_def
      legacy_set_max_def legacy_requested_def split: option.split)

lemma update_limits_holders [simp]: "ll_lockholders (legacy_update_limits r l) = ll_lockholders l"
  by (simp add: legacy_update_limits_def legacy_set_max_def split: option.split)

lemma count_reader_alike [simp]: "alike l (legacy_count_reader r l)"
  by (simp add: alike_def legacy_count_reader_def)

lemma inv_acquire:
  assumes inv: "legacy_inv D b" and l: "holds_ok (lb_timers b) (lr_key r) (ll_lockholders l)"
    and room: "\<And>m. (lr_key r, m) \<in> D \<Longrightarrow> limits_within m l \<and> length (ll_lockholders l) < m"
  shows "legacy_inv D (legacy_acquire created r ws ttl c l b)"
proof -
  let ?b = "legacy_add_ws_key ws (lr_key r) b"
  have "legacy_inv D (legacy_install created (lr_key r) (lr_uuid r) ws (lr_pid r) ttl (legacy_count_reader r l) ?b)"
  proof (rule inv_install)
    show "legacy_inv D ?b" by (rule inv_core [OF inv]) (simp add: core_simps)
    show "holds_ok (lb_timers ?b) (lr_key r) (ll_lockholders (legacy_count_reader r l))"
      using l by (simp add: count_reader_alike [unfolded alike_def])
    show "limits_within m (legacy_count_reader r l) \<and> length (ll_lockholders (legacy_count_reader r l)) < m"
      if "(lr_key r, m) \<in> D" for m
      using room [OF that] by (simp add: count_reader_alike [unfolded alike_def] limits_within_def)
  qed
  then show ?thesis by (rule inv_core) (simp add: legacy_acquire_def Let_def core_simps)
qed

lemma inv_existing:
  assumes inv: "legacy_inv D b" and holds: "holds_ok (lb_timers b) (lr_key r) (ll_lockholders l0)"
    and within: "legacy_within D (lr_key r) l0" and asks: "asks_within D r"
  shows "legacy_inv D (legacy_existing E r ws ttl l0 b)"
proof -
  let ?l = "legacy_update_limits r l0"
  have lim: "limits_within m ?l" and rd: "\<not> wants_read r" if "(lr_key r, m) \<in> D" for m
    using limits_of_request [OF within asks refl that] inv that asks by (auto simp: legacy_inv_def asks_within_def)
  show ?thesis
  proof (cases "legacy_limit r ?l \<le> legacy_count r ?l")
    case True
    have "legacy_inv D (legacy_set (lr_key r) (?l\<lparr>ll_notify := q\<rparr>) b)" for q
    proof (rule inv_set [OF inv])
      show "legacy_within D (lr_key r) (?l\<lparr>ll_notify := q\<rparr>)"
        using lim within by (simp add: legacy_within_def limits_within_def)
    qed (use holds in simp)
    with True show ?thesis
      by (auto simp: legacy_existing_def legacy_contended_def Let_def intro: inv_send)
  next
    case False
    have "legacy_inv D (legacy_acquire False r ws ttl c ?l b)" for c
    proof (rule inv_acquire [OF inv])
      fix m assume m: "(lr_key r, m) \<in> D"
      have "legacy_limit r ?l \<le> int m"
        using lim [OF m] rd [OF m] asks m inv
        by (fastforce simp: legacy_limit_def limits_within_def asks_within_def legacy_inv_def split: option.split)
      then show "limits_within m ?l \<and> length (ll_lockholders ?l) < m"
        using False lim [OF m] rd [OF m] by (simp add: legacy_count_def)
    qed (use holds in simp)
    with False show ?thesis by (simp add: legacy_existing_def Let_def)
  qed
qed

lemma inv_new:
  assumes inv: "legacy_inv D b" and asks: "asks_within D r"
  shows "legacy_inv D (legacy_new E r ws ttl b)"
proof -
  define mr where "mr = (if wants_read r
    then Some (case legacy_requested (lr_maxRead r) (lr_max r) of None \<Rightarrow> 10 | Some m \<Rightarrow> m) else None)"
  define mw where "mw = (if wants_write r
    then Some (case legacy_requested (lr_maxWrite r) (lr_max r) of None \<Rightarrow> 1 | Some m \<Rightarrow> m) else None)"
  let ?b = "legacy_create_lock E (lr_key r) (lr_keep r) (lr_max r) mr mw b"
  have b: "legacy_inv D ?b"
  proof (rule inv_create_lock [OF inv])
    fix m assume m: "(lr_key r, m) \<in> D"
    then have "1 \<le> m" using inv by (auto simp: legacy_inv_def)
    with asks m show "mr = None \<and> (\<forall>w. mw = Some w \<longrightarrow> w \<le> int m) \<and> (\<forall>n. lr_max r = Some n \<longrightarrow> n \<le> int m)"
      by (auto simp: mr_def mw_def asks_within_def legacy_requested_def split: option.split)
  qed
  have "legacy_inv D (legacy_acquire True r ws ttl 0 l ?b)" if l: "legacy_get ?b (lr_key r) = Some l" for l
  proof (rule inv_acquire [OF b inv_get(1) [OF b l]])
    fix m assume m: "(lr_key r, m) \<in> D"
    have "ll_lockholders l = []" using l by (auto simp: legacy_create_lock_def legacy_getDefaultLockObject_def)
    moreover have "1 \<le> m" using inv m by (auto simp: legacy_inv_def)
    ultimately show "limits_within m l \<and> length (ll_lockholders l) < m"
      using inv_get(2) [OF b l] m by (auto simp: legacy_within_def)
  qed
  then show ?thesis
    unfolding legacy_new_def mr_def [symmetric] mw_def [symmetric] Let_def by (rule inv_with_lock [OF b])
qed

lemma inv_lock:
  assumes inv: "legacy_inv D b" and asks: "asks_within D r"
  shows "legacy_inv D (legacy_lock E r ws b)"
proof -
  define b1 where "b1 = legacy_with_lock (lr_key r) (\<lambda>l b. legacy_set (lr_key r) (l\<lparr>ll_timestampEmptied := None\<rparr>) b) b"
  define b2 where "b2 = legacy_count_request E b1"
  define b4 where "b4 = legacy_ensure_ws_keys ws (if lr_uuid r \<noteq> [] then legacy_add_ws_uuid ws (lr_uuid r) b2 else b2)"
  have 1: "legacy_inv D b1" unfolding b1_def by (rule inv_change [OF inv]) (simp add: alike_def)
  then have 2: "legacy_inv D b2" unfolding b2_def by (rule inv_count_request)
  have core: "legacy_core b4 = legacy_core b2" by (simp add: b4_def core_simps)
  have 4: "legacy_inv D b4" by (rule inv_core [OF 2 core])
  have timers: "lb_timers b4 = lb_timers b1"
    using locks_of_core [OF core] by (simp add: b2_def legacy_count_request_def legacy_cleanUpLocks_def Let_def)
  have "legacy_inv D (legacy_existing E r ws ttl l b4)" if "legacy_get b1 (lr_key r) = Some l" for l ttl
    using inv_existing [OF 4 _ _ asks] inv_get [OF 1 that] timers by simp
  moreover have "legacy_inv D (legacy_new E r ws ttl b4)" for ttl by (rule inv_new [OF 4 asks])
  ultimately show ?thesis
    unfolding legacy_lock_def Let_def b1_def [symmetric] b2_def [symmetric] b4_def [symmetric]
    by (simp split: option.split)
qed

end
