(* ===== verification/LegacyReach.thy ===== *)
theory LegacyReach
  imports LegacyInv
begin

text \<open>
  Every handler of \<open>Broker\<close> keeps the invariant, and so does every run.
\<close>

subsection \<open>unlock\<close>

lemma inv_release_all:
  assumes "legacy_inv D b" and "legacy_get b k = Some l"
  shows "legacy_inv D (legacy_release_all k l b)"
proof -
  have "legacy_inv D (legacy_set k l' (fold (\<lambda>(u, h). clear_holder_timer h) (filter (\<lambda>p. True) (ll_lockholders l)) b))"
    if "l' = l\<lparr>ll_lockholdersAllReleased := x, ll_lockholders := []\<rparr>" for l' x
    by (rule inv_end_holds [OF assms]) (simp_all add: that)
  then show ?thesis by (simp add: legacy_release_all_def)
qed

lemma inv_release:
  assumes "legacy_inv D b" and "legacy_get b (u_key r) = Some l"
  shows "legacy_inv D (legacy_release r l b)"
  using assms by (auto simp: legacy_release_def Let_def alike_def intro: inv_drop_holder inv_release_all)

lemma inv_unlock:
  assumes step: "legacy_unlock E r wo b = Some b'" and inv: "legacy_inv D b"
  shows "legacy_inv D b'"
proof (cases "legacy_get b (u_key r)")
  case None
  then have "b' = legacy_unlock_no_lock r wo (legacy_forget_ownership wo r b)"
    using step by (simp add: legacy_unlock_def Let_def)
  then show ?thesis by (auto intro: inv_core [OF inv] simp: core_simps)
next
  case (Some l)
  define b0 where "b0 = legacy_forget_ownership wo r b"
  have b0: "legacy_inv D b0" by (rule inv_core [OF inv]) (simp add: b0_def core_simps)
  have l: "legacy_get b0 (u_key r) = Some l"
    by (simp add: b0_def legacy_get_core [OF core_replies(2)] Some)
  have reply: "legacy_inv D (legacy_reply_unlock wo' r f b1)" if "legacy_inv D b1" for f b1 wo'
    by (rule inv_core [OF that]) (simp add: core_simps)
  have emit: "legacy_inv D (legacy_emit e b0)" for e by (rule inv_emit [OF b0])
  have matching: "legacy_inv D b'" if "legacy_unlock_matching E r wo l b0 = Some b'"
    using that reply [OF inv_release [OF b0 l]]
    by (auto simp: legacy_unlock_matching_def Let_def split: if_splits dest: inv_ensureNewLockHolder)
  have "legacy_inv D (legacy_set (u_key r) (l\<lparr>ll_lockholderTimeouts := x, ll_lockholdersAllReleased := y\<rparr>) b0)" for x y
    by (rule inv_alike [OF b0 l]) (simp add: alike_def)
  then have mismatch: "legacy_inv D b'" if "legacy_unlock_mismatch E r wo l b0 = Some b'"
    using that emit b0
    by (auto simp: legacy_unlock_mismatch_def Let_def intro: reply split: if_splits elim!: inv_ensureNewLockHolder)
  show ?thesis
    using step Some matching mismatch by (auto simp: legacy_unlock_def Let_def b0_def [symmetric] split: if_splits)
qed

subsection \<open>Timers\<close>

lemma inv_holder_timed_out:
  assumes step: "holder_timed_out E i b = Some b'" and inv: "legacy_inv D b"
  shows "legacy_inv D b'"
proof (cases "map_of (lb_timers b) i")
  case None
  with step inv show ?thesis by (simp add: holder_timed_out_def)
next
  case (Some t)
  define b1 where "b1 = legacy_emit (Warn (TtlEvicted (ht_uuid t) (ht_key t))) (b\<lparr>lb_timers := AList.delete i (lb_timers b)\<rparr>)"
  have b1: "lb_locks b1 = lb_locks b" "lb_timers b1 = AList.delete i (lb_timers b)" "lb_next_timer b1 = lb_next_timer b"
    by (simp_all add: b1_def legacy_emit_def)
  have keep: "timer_ok (lb_timers b1) k u h" if "timer_ok (lb_timers b) k u h" "(k, u) \<noteq> (ht_key t, ht_uuid t)" for k u h
    using that Some by (auto simp: timer_ok_def b1)
  have old: "holds_ok (lb_timers b) k (ll_lockholders l)" "legacy_within D k l" if "legacy_get b k = Some l" for k l
    using inv_get [OF inv that] by simp_all
  show ?thesis
  proof (cases "legacy_get b (ht_key t)")
    case None
    have "holds_ok (lb_timers b1) k (ll_lockholders l)" if "legacy_get b k = Some l" for k l
      using old(1) [OF that] None that keep by (fastforce simp: holds_ok_def)
    then have "legacy_inv D b1" using inv by (auto simp: legacy_inv_def b1)
    with step Some None show ?thesis by (simp add: holder_timed_out_def Let_def b1_def [symmetric] b1(1))
  next
    case l: (Some l)
    define l1 where "l1 = l\<lparr>ll_lockholderTimeouts := insert (ht_uuid t) (ll_lockholderTimeouts l),
                            ll_lockholders := AList.delete (ht_uuid t) (ll_lockholders l)\<rparr>"
    have "holds_ok (lb_timers b1) (ht_key t) (ll_lockholders l1)"
      using old(1) [OF l] keep by (auto simp: holds_ok_def l1_def)
    moreover have "legacy_within D (ht_key t) l1"
      using old(2) [OF l]
      by (auto simp: legacy_within_def limits_within_def l1_def intro: order_trans [OF length_delete_le])
    moreover have "holds_ok (lb_timers b1) k (ll_lockholders l')" if "legacy_get b k = Some l'" "k \<noteq> ht_key t" for k l'
      using old(1) [OF that(1)] that(2) keep by (auto simp: holds_ok_def)
    ultimately have "legacy_inv D (legacy_set (ht_key t) l1 b1)"
      using inv by (auto simp: legacy_inv_def legacy_set_def b1)
    then show ?thesis
      using step Some l
      by (auto simp: holder_timed_out_def Let_def b1_def [symmetric] l1_def [symmetric] b1(1) split: if_splits
          dest: inv_ensureNewLockHolder inv_unlock)
  qed
qed

lemma inv_fire_reelection:
  assumes inv: "legacy_inv D b"
  shows "legacy_inv D (legacy_fire_reelection E k b)"
proof (cases "map_of (lb_timeouts b) k")
  case None
  with inv show ?thesis by (simp add: legacy_fire_reelection_def)
next
  case (Some n)
  let ?b0 = "legacy_del_ws_key (ln_ws n) k b"
  let ?b1 = "legacy_emit (Warn (Reelection k)) (?b0\<lparr>lb_timeouts := AList.delete k (lb_timeouts ?b0)\<rparr>)"
  have b1: "legacy_inv D ?b1" by (rule inv_core [OF inv]) (simp add: core_simps)
  have "legacy_inv D (legacy_send_reelections k c es (legacy_set k (l1\<lparr>ll_notify := q\<rparr>) b2))"
    if "legacy_get ?b1 k = Some l" "legacy_drop_holder k (ln_uuid n) l ?b1 = (l1, b2)" for l l1 b2 c es q
  proof -
    have "alike l l" by (simp add: alike_def)
    from inv_drop_holder [OF b1 that(1) this, of "ln_uuid n"] that(2) have "legacy_inv D b2" by simp
    moreover have "legacy_get b2 k = Some l1" using that(2) get_drop_holder [of k "ln_uuid n" l ?b1 k] by simp
    ultimately have "legacy_inv D (legacy_set k (l1\<lparr>ll_notify := q\<rparr>) b2)" by (rule inv_alike) (simp add: alike_def)
    then show ?thesis by (rule inv_core) (simp add: core_simps)
  qed
  then show ?thesis
    by (auto simp: legacy_fire_reelection_def Some Let_def intro!: inv_with_lock [OF b1] split: prod.split)
qed

subsection \<open>Connections\<close>

lemma inv_cleanup_key:
  assumes step: "legacy_cleanup_key E ws us k b = Some b'" and inv: "legacy_inv D b"
  shows "legacy_inv D b'"
proof (cases "legacy_get b k")
  case (Some l)
  let ?l1 = "l\<lparr>ll_notify := fold (lq_remove E) (array_keys us) (ll_notify l),
               ll_lockholders := filter (\<lambda>(u, h). lh_ws h \<noteq> ws) (ll_lockholders l)\<rparr>"
  have "legacy_inv D (legacy_set k ?l1 (fold (\<lambda>(u, h). clear_holder_timer h) (legacy_own_holds ws l) b))"
    unfolding legacy_own_holds_def by (rule inv_end_holds [OF inv Some]) (auto intro: filter_cong)
  with step Some show ?thesis
    by (auto simp: legacy_cleanup_key_def Let_def split: if_splits dest: inv_unlock)
qed (use assms in \<open>simp add: legacy_cleanup_key_def\<close>)

lemma inv_cleanup_locks: "legacy_cleanup_locks E ws us ks b = Some b' \<Longrightarrow> legacy_inv D b \<Longrightarrow> legacy_inv D b'"
  by (induction ks arbitrary: b) (auto split: Option.bind_splits dest: inv_cleanup_key)

lemma inv_cleanupConnection:
  assumes "legacy_cleanupConnection E ws b = Some b'" and inv: "legacy_inv D b"
  shows "legacy_inv D b'"
proof (cases "lb_lmxClosed b ws")
  case False
  have fields: "legacy_inv D (b2\<lparr>lb_destroyTimeout := x\<rparr>)" if "legacy_inv D b2" for b2 :: "'a legacy" and x
    by (rule inv_core [OF that]) (simp add: core_simps)
  have "legacy_inv D (b\<lparr>lb_lmxClosed := x1, lb_connectedClients := x2, lb_wsToKeys := x3, lb_wsToUUIDs := x4,
      lb_registeredListeners := x5\<rparr>)" for x1 x2 x3 x4 x5
    by (rule inv_core [OF inv]) (simp add: core_simps)
  with assms(1) False show ?thesis
    by (auto simp: legacy_cleanupConnection_def Let_def intro: fields elim!: inv_cleanup_locks)
qed (use assms in \<open>simp add: legacy_cleanupConnection_def\<close>)

lemma inv_on_socket_end: "legacy_on_socket_end E ws b = Some b' \<Longrightarrow> legacy_inv D b \<Longrightarrow> legacy_inv D b'"
  by (auto simp: legacy_on_socket_end_def core_simps dest: inv_cleanupConnection intro: inv_core)

lemma inv_onVersion: "legacy_onVersion E v ws b = Some b' \<Longrightarrow> legacy_inv D b \<Longrightarrow> legacy_inv D b'"
  by (auto simp: legacy_onVersion_def Let_def core_simps split: sum.splits
      dest!: inv_cleanupConnection intro: inv_core)

subsection \<open>Readers and writers\<close>

lemma inv_update_object:
  assumes "legacy_inv D b" and "\<And>l. alike l (f l)"
  shows "legacy_inv D (legacy_update_object i f b)"
proof -
  have get: "legacy_get (legacy_update_object i f b) k =
      map_option (\<lambda>l. if ll_id l = i then f l else l) (legacy_get b k)" for k
    by (simp add: legacy_update_object_def map_of_map comp_def)
  have "map fst (lb_locks (legacy_update_object i f b)) = map fst (lb_locks b)"
    by (simp add: legacy_update_object_def comp_def case_prod_beta)
  moreover have "lb_timers (legacy_update_object i f b) = lb_timers b"
    "lb_next_timer (legacy_update_object i f b) = lb_next_timer b" by (simp_all add: legacy_update_object_def)
  moreover have "ll_lockholders (f l) = ll_lockholders l" for l using assms(2) [of l] by (simp add: alike_def)
  ultimately show ?thesis
    using assms(1) within_alike [OF _ assms(2)] by (auto simp: legacy_inv_def get)
qed

lemma inv_run_fn: "legacy_inv D b \<Longrightarrow> legacy_inv D (legacy_run_fn p b)"
  by (auto simp: legacy_run_fn_def Let_def alike_def split: listener_fn.split intro!: inv_send inv_update_object)

lemma inv_fold: "legacy_inv D b \<Longrightarrow> (\<And>x b. legacy_inv D b \<Longrightarrow> legacy_inv D (f x b)) \<Longrightarrow> legacy_inv D (fold f xs b)"
  by (induction xs arbitrary: b) simp_all

lemma inv_broadcast: "legacy_inv D b \<Longrightarrow> legacy_inv D (legacy_broadcast k b)"
  unfolding legacy_broadcast_def
  by (intro inv_fold inv_send inv_run_fn) (auto intro: inv_core simp: core_simps)

lemma inv_push_listener: "legacy_inv D b \<Longrightarrow> legacy_inv D (legacy_push_listener p b)"
  by (rule inv_core) (simp_all add: core_simps)

lemma inv_probes:
  assumes inv: "legacy_inv D b"
  shows "legacy_inv D (legacy_incrementReaders E r ws b)"
    "legacy_inv D (legacy_setWriteFlagToFalseAndBroadcast E r ws b)"
    "legacy_inv D (legacy_decrementReaders E r ws b)"
    "legacy_inv D (legacy_registerWriteFlagAndReadersCheck E r ws b)"
    "legacy_inv D (legacy_registerWriteFlagCheck E r ws b)"
proof -
  note b = inv_ensure_lock [OF inv]
  note at_lock = inv_with_lock [OF b] and change = inv_alike [OF b]
  show "legacy_inv D (legacy_incrementReaders E r ws b)"
    unfolding legacy_incrementReaders_def Let_def
    by (intro inv_send at_lock change) (auto simp: alike_def)
  show "legacy_inv D (legacy_setWriteFlagToFalseAndBroadcast E r ws b)"
    unfolding legacy_setWriteFlagToFalseAndBroadcast_def Let_def
    by (intro inv_send inv_broadcast at_lock change) (auto simp: alike_def)
  show "legacy_inv D (legacy_decrementReaders E r ws b)"
    unfolding legacy_decrementReaders_def Let_def
    by (intro inv_send at_lock) (auto simp: alike_def intro!: inv_broadcast intro: change)
  show "legacy_inv D (legacy_registerWriteFlagAndReadersCheck E r ws b)"
    unfolding legacy_registerWriteFlagAndReadersCheck_def Let_def
    by (intro at_lock) (auto simp: alike_def intro!: inv_push_listener inv_send b intro: change)
  show "legacy_inv D (legacy_registerWriteFlagCheck E r ws b)"
    unfolding legacy_registerWriteFlagCheck_def Let_def
    by (intro at_lock) (auto intro!: inv_push_listener inv_send b)
qed

subsection \<open>Events\<close>

lemma inv_lockGivenUp: "legacy_inv D b \<Longrightarrow> legacy_inv D (legacy_lockGivenUp E r b)"
  by (auto simp: legacy_lockGivenUp_def alike_def intro: inv_emit inv_alike split: option.split)

lemma inv_lockRejected: "legacy_lockRejected E r uo b = Some b' \<Longrightarrow> legacy_inv D b \<Longrightarrow> legacy_inv D b'"
  using inv_core [of D b "b\<lparr>lb_rejected := insert (k_uuid r) (lb_rejected b)\<rparr>"]
  by (auto simp: legacy_lockRejected_def core_simps intro: inv_emit split: option.splits dest: inv_ensureNewLockHolder)

lemma inv_dispatch:
  assumes "legacy_dispatch E f ws b = Some b'" and inv: "legacy_inv D b" and "legacy_disciplined D (LgFrame f ws)"
  shows "legacy_inv D b'"
proof -
  have core: "legacy_inv D b1" if "legacy_core b1 = legacy_core b" for b1 by (rule inv_core [OF inv that])
  have asks: "asks_within D (r\<lparr>lr_ttl := x\<rparr>)" if "asks_within D r" for r x using that by (simp add: asks_within_def)
  show ?thesis
    using assms by (cases f)
      (auto intro: inv_probes inv_lockGivenUp inv_lock asks core dest: inv_unlock inv_onVersion inv_lockRejected
        simp: core_simps legacy_inspect_def legacy_retrieveLockInfo_def legacy_ping_def legacy_getSystemStats_def
          legacy_lockReceived_def Let_def split: jsval.split)
qed

lemma inv_handle:
  assumes "legacy_handle E ev b = Some b'" and inv: "legacy_inv D b" and "legacy_disciplined D ev"
  shows "legacy_inv D b'"
proof -
  have core: "legacy_inv D b1" if "legacy_core b1 = legacy_core b" for b1 by (rule inv_core [OF inv that])
  show ?thesis
  proof (cases ev)
    case (LgFrame f ws)
    with assms show ?thesis
      by (auto simp: legacy_onData_def core_simps intro: core split: if_splits dest: inv_dispatch)
  qed (use assms in \<open>auto simp: legacy_accept_def core_simps intro: core inv_fire_reelection split: if_splits
      dest: inv_on_socket_end inv_holder_timed_out\<close>)
qed

lemma inv_init: "\<forall>(k, m) \<in> D. 1 \<le> m \<Longrightarrow> legacy_inv D (init_legacy x t)"
  by (auto simp: legacy_inv_def init_legacy_def)

lemma inv_reachable:
  assumes "legacy_reachable E (legacy_disciplined D) (init_legacy x t) b" and "\<forall>(k, m) \<in> D. 1 \<le> m"
  shows "legacy_inv D b"
  using assms(1) by induction (auto intro: inv_init [OF assms(2)] inv_handle)

end
