(* ===== verification/LegacySafety.thy ===== *)
theory LegacySafety
  imports LegacyReach
begin

text \<open>
  What \<open>Broker\<close> (\<open>broker.ts\<close>) promises: its handlers end, it keeps keys exclusive, holds expire; and what it
  does to other connections when one of them ends.
\<close>

subsection \<open>Concrete runs\<close>

type_synonym legacy_queue = "(string \<times> legacy_notify) list"

definition legacy_demo :: "legacy_queue legacy_env" where
  "legacy_demo = linked_queue_ops.extend list_queue \<lparr>lg_debugging = False, lg_version = ''1.2.3''\<rparr>"

lemma legacy_demo_queue: "linked_queue legacy_demo (\<lambda>q. q)"
  unfolding legacy_demo_def by (rule list_lq.linked_queue_axioms)

definition legacy_ask :: "string \<Rightarrow> string \<Rightarrow> legacy_lock_req" where
  "legacy_ask u k = \<lparr>lr_uuid = u, lr_key = k, lr_ttl = TtlUndefined, lr_max = None, lr_maxRead = None,
     lr_maxWrite = None, lr_force = False, lr_pid = 1, lr_keep = False, lr_retryCount = 0, lr_rwStatus = None\<rparr>"

definition legacy_joins :: "legacy_event list" where
  "legacy_joins = [LgAccept 1, LgWritableSet 1 True, LgAccept 2, LgWritableSet 2 True, LgAccept 3, LgWritableSet 3 True]"

definition held_by_1 :: "legacy_event list" where
  "held_by_1 = legacy_joins @ [LgFrame (LgLock (legacy_ask ''a'' ''k'')) 1]"

definition awaited_by_2 :: "legacy_event list" where
  "awaited_by_2 = held_by_1 @ [LgFrame (LgLock (legacy_ask ''b'' ''k'')) 2]"

definition legacy_after :: "legacy_event list \<Rightarrow> legacy_queue legacy" where
  "legacy_after evs = the (legacy_run legacy_demo evs (init_legacy 4000 1000))"

definition legacy_holders :: "string \<Rightarrow> 'q legacy \<Rightarrow> string list" where
  "legacy_holders k b = (case legacy_get b k of None \<Rightarrow> [] | Some l \<Rightarrow> map fst (ll_lockholders l))"

lemma legacy_after_reachable:
  assumes "legacy_run legacy_demo evs (init_legacy 4000 1000) \<noteq> None" and "list_all A evs"
  shows "legacy_reachable legacy_demo A (init_legacy 4000 1000) (legacy_after evs)"
  using assms by (auto simp: legacy_after_def intro: legacy_run_reachable)

subsection \<open>Termination\<close>

lemma legacy_next_waiter_returns:
  assumes "linked_queue E contents"
  shows "\<exists>no q'. legacy_next_waiter E w q n = Some (no, q') \<and>
    (contents q = [] \<longrightarrow> no = n \<and> contents q' = []) \<and>
    (contents q \<noteq> [] \<longrightarrow> no \<noteq> None \<and> length (contents q') < length (contents q))"
proof (induction "contents q" arbitrary: q n)
  case Nil
  obtain q' where "lq_dequeue E q = (None, q')" "contents q' = []"
    using linked_queue.dequeue_Nil [OF assms, of q] linked_queue.contents_dequeue_Nil [OF assms, of q] Nil
    by (cases "lq_dequeue E q") auto
  with Nil show ?case by (subst legacy_next_waiter.simps) simp
next
  case (Cons p ps)
  obtain q1 where q1: "lq_dequeue E q = (Some p, q1)" "contents q1 = ps"
    using linked_queue.dequeue_Cons [OF assms Cons(2) [symmetric]]
      linked_queue.contents_dequeue_Cons [OF assms Cons(2) [symmetric]] by (cases "lq_dequeue E q") auto
  obtain u m where p: "p = (u, m)" by (cases p)
  show ?case
  proof (cases "w (ln_ws m)")
    case True
    then show ?thesis
      using q1 p Cons(2) [symmetric] by (subst legacy_next_waiter.simps) simp
  next
    case False
    from Cons(1) [of q1 "Some m"] q1(2) obtain no q' where
      "legacy_next_waiter E w q1 (Some m) = Some (no, q')"
      "ps = [] \<longrightarrow> no = Some m \<and> contents q' = []" "ps \<noteq> [] \<longrightarrow> no \<noteq> None \<and> length (contents q') < length ps"
      by blast
    with False q1 p Cons(2) [symmetric] show ?thesis
      by (subst legacy_next_waiter.simps, cases ps) auto
  qed
qed

lemma get_grant_waiter:
  "legacy_get (legacy_grant_waiter E k n l b) k' =
     (if k' = k then Some (l\<lparr>ll_keep := ln_keep n, ll_lockholders := AList.update (ln_uuid n)
        \<lparr>lh_pid = ln_pid n, lh_ws = ln_ws n, lh_uuid = ln_uuid n,
         lh_timer = fst (set_holder_timer False k (ln_uuid n) (legacy_waiter_ttl E n b) b)\<rparr> (ll_lockholders l)\<rparr>)
      else legacy_get b k')"
  by (auto simp: legacy_grant_waiter_def Let_def legacy_install_def set_holder_timer_def legacy_send_def legacy_emit_def
      legacy_add_ws_key_def)

lemma legacy_full_notify [simp]: "legacy_full (l\<lparr>ll_notify := q\<rparr>) = legacy_full l"
  by (simp add: legacy_full_def legacy_max_capacity_def cong: if_cong)

text \<open>A round of the drain takes a waiter off the queue, so the drain ends: nobody waits or the key is full.\<close>

lemma legacy_drain_returns:
  assumes Q: "linked_queue E contents" and "legacy_get b k = Some l"
  shows "\<exists>b' l'. legacy_drain E k b = Some b' \<and> legacy_get b' k = Some l' \<and>
    (contents (ll_notify l') = [] \<or> legacy_full l')"
  using assms(2)
proof (induction "length (contents (ll_notify l))" arbitrary: b l rule: less_induct)
  case less
  show ?case
  proof (cases "lq_length E (ll_notify l) = 0 \<or> legacy_full l")
    case True
    then have "legacy_drain E k b = Some b" by (subst legacy_drain.simps) (simp add: less.prems)
    with True less.prems show ?thesis by (auto simp: linked_queue.length_contents [OF Q])
  next
    case False
    then have "contents (ll_notify l) \<noteq> []" by (simp add: linked_queue.length_contents [OF Q])
    then obtain n q where q: "legacy_next_waiter E (lb_writable b) (ll_notify l) None = Some (Some n, q)"
      "length (contents q) < length (contents (ll_notify l))"
      using legacy_next_waiter_returns [OF Q, of "lb_writable b" "ll_notify l" None] by auto
    let ?l1 = "l\<lparr>ll_notify := q\<rparr>"
    let ?b1 = "legacy_grant_waiter E k n ?l1 (legacy_set k ?l1 b)"
    have "legacy_drain E k b = legacy_drain E k ?b1"
      using False q(1) by (subst legacy_drain.simps) (simp add: less.prems Let_def)
    moreover obtain l2 where "legacy_get ?b1 k = Some l2" "ll_notify l2 = q" by (simp add: get_grant_waiter)
    ultimately show ?thesis using less.hyps [of l2 ?b1] q(2) by simp
  qed
qed

lemma legacy_ensure_returns:
  assumes Q: "linked_queue E contents"
  shows "\<exists>b'. legacy_ensureNewLockHolder E k uo b = Some b' \<and>
    (\<forall>l'. legacy_get b' k = Some l' \<longrightarrow> contents (ll_notify l') = [] \<or> legacy_full l')"
proof (cases "legacy_get b k")
  case None
  then show ?thesis by (simp add: legacy_ensureNewLockHolder_def)
next
  case (Some l0)
  define l1 where "l1 = (if truthy_str uo then fst (legacy_drop_holder k (prop_name uo) l0 b) else l0)"
  define b1 where "b1 = (if truthy_str uo then snd (legacy_drop_holder k (prop_name uo) l0 b) else b)"
  have eq: "legacy_ensureNewLockHolder E k uo b =
      (if ll_lockholders (l1\<lparr>ll_keep := False\<rparr>) = [] \<and> lq_length E (ll_notify (l1\<lparr>ll_keep := False\<rparr>)) = 0
       then Some (legacy_set k (l1\<lparr>ll_keep := False, ll_timestampEmptied := Some (lb_now b)\<rparr>) b1)
       else legacy_drain E k (legacy_set k (l1\<lparr>ll_keep := False\<rparr>) b1))"
    by (auto simp: legacy_ensureNewLockHolder_def Some l1_def b1_def Let_def case_prod_beta)
  show ?thesis
  proof (cases "ll_lockholders (l1\<lparr>ll_keep := False\<rparr>) = [] \<and> lq_length E (ll_notify (l1\<lparr>ll_keep := False\<rparr>)) = 0")
    case True
    with eq show ?thesis by (simp add: linked_queue.length_contents [OF Q])
  next
    case False
    obtain b' l' where "legacy_drain E k (legacy_set k (l1\<lparr>ll_keep := False\<rparr>) b1) = Some b'" "legacy_get b' k = Some l'"
      "contents (ll_notify l') = [] \<or> legacy_full l'"
      using legacy_drain_returns [OF Q, of "legacy_set k (l1\<lparr>ll_keep := False\<rparr>) b1" k "l1\<lparr>ll_keep := False\<rparr>"] by auto
    with eq False show ?thesis by auto
  qed
qed

lemma legacy_ensure_ends:
  assumes "linked_queue E contents"
  shows "\<exists>b'. legacy_ensureNewLockHolder E k uo b = Some b'"
  using legacy_ensure_returns [OF assms] by blast

lemma legacy_unlock_returns:
  assumes "linked_queue E contents"
  shows "\<exists>b'. legacy_unlock E r wo b = Some b'"
  using legacy_ensure_ends [OF assms]
  by (auto simp: legacy_unlock_def legacy_unlock_matching_def legacy_unlock_mismatch_def Let_def split: option.split)

lemma legacy_cleanup_returns:
  assumes "linked_queue E contents"
  shows "\<exists>b'. legacy_cleanupConnection E ws b = Some b'"
proof -
  have "\<exists>b'. legacy_cleanup_locks E ws us ks b = Some b'" for us ks and b :: "'a legacy"
  proof (induction ks arbitrary: b)
    case (Cons k ks)
    have "\<exists>b1. legacy_cleanup_key E ws us k b = Some b1"
      using legacy_unlock_returns [OF assms] by (auto simp: legacy_cleanup_key_def Let_def split: option.split)
    with Cons show ?case by fastforce
  qed simp
  then show ?thesis by (auto simp: legacy_cleanupConnection_def Let_def)
qed

text \<open>C36: In every state, whatever the queues of its keys hold, every event is handled to its end: the drain of a
  queue ends, and with it \<open>unlock\<close>, the timers and the cleanup of a connection. (Of \<open>Broker1\<close>, whose queues
  also hold composites, this is not true.)\<close>

theorem legacy_handlers_return:
  assumes "linked_queue E contents"
  shows "\<exists>b'. legacy_handle E ev b = Some b'"
proof -
  have version: "\<exists>b'. legacy_onVersion E v ws b = Some b'" for v ws
    using legacy_cleanup_returns [OF assms, of ws b] by (auto simp: legacy_onVersion_def split: sum.split)
  have dispatch: "\<exists>b'. legacy_dispatch E f ws b = Some b'" for f ws
    using version legacy_unlock_returns [OF assms] legacy_ensure_ends [OF assms]
    by (cases f) (auto simp: legacy_lockRejected_def split: option.split)
  have timer: "\<exists>b'. holder_timed_out E i b = Some b'" for i
    using legacy_unlock_returns [OF assms] legacy_ensure_ends [OF assms]
    by (auto simp: holder_timed_out_def Let_def split: option.split)
  show ?thesis
    using dispatch timer legacy_cleanup_returns [OF assms]
    by (cases ev) (auto simp: legacy_onData_def legacy_on_socket_end_def)
qed

theorem legacy_handlers_return_witness:
  "\<exists>b'. legacy_handle legacy_demo (LgHolderTimer 0) (legacy_after awaited_by_2) = Some b'"
  by (rule legacy_handlers_return [OF legacy_demo_queue])

subsection \<open>Exclusion\<close>

text \<open>C33: If no request for a key is a \<open>BeginRead\<close> or asks for a \<open>max\<close> or \<open>maxWrite\<close> above \<open>m\<close>, the key has at
  most \<open>m\<close> holders in every state \<open>Broker\<close> reaches.\<close>

theorem legacy_mutual_exclusion:
  assumes "legacy_reachable E (legacy_disciplined {(k, m)}) (init_legacy x t) b" and "1 \<le> m"
    and "legacy_get b k = Some l"
  shows "length (ll_lockholders l) \<le> m"
proof -
  have "legacy_inv {(k, m)} b" using inv_reachable [OF assms(1)] assms(2) by simp
  from inv_get(2) [OF this assms(3)] show ?thesis by (simp add: legacy_within_def)
qed

subsection \<open>Keys nobody waits for\<close>

lemma forget_ownership_locks [simp]: "lb_locks (legacy_forget_ownership wo r b) = lb_locks b"
  "lb_locks (legacy_reply_unlock wo r f b) = lb_locks b"
  using locks_of_core [OF core_replies(2) [of wo r b]] locks_of_core [OF core_replies(1) [of wo r f b]] by simp_all

lemma clear_holder_timer_locks [simp]: "lb_locks (clear_holder_timer h b) = lb_locks b"
  by (simp add: clear_holder_timer_def split: option.split)

lemma release_all_locks [simp]:
  "lb_locks (legacy_release_all k l b) = AList.update k
     (l\<lparr>ll_lockholdersAllReleased := set (map fst (ll_lockholders l)) \<union> ll_lockholdersAllReleased l, ll_lockholders := []\<rparr>)
     (lb_locks b)"
  by (simp add: legacy_release_all_def legacy_set_def)

lemma ensure_quiet:
  assumes Q: "linked_queue E contents" and l: "legacy_get b k = Some l" and quiet: "contents (ll_notify l) = []"
  shows "\<exists>b' l'. legacy_ensureNewLockHolder E k uo b = Some b' \<and> legacy_get b' k = Some l' \<and>
    ll_notify l' = ll_notify l \<and> ll_isViaShell l' = ll_isViaShell l \<and>
    ll_lockholders l' = (if truthy_str uo then AList.delete (prop_name uo) (ll_lockholders l) else ll_lockholders l) \<and>
    (\<forall>k'. k' \<noteq> k \<longrightarrow> legacy_get b' k' = legacy_get b k') \<and> map fst (lb_locks b') = map fst (lb_locks b)"
proof -
  have empty: "lq_length E (ll_notify l) = 0" using quiet by (simp add: linked_queue.length_contents [OF Q])
  have drain: "legacy_drain E k b1 = Some b1"
    if "lb_locks b1 = AList.update k l1 (lb_locks b)" "ll_notify l1 = ll_notify l" for l1 and b1 :: "'a legacy"
    using that empty by (subst legacy_drain.simps) simp
  show ?thesis
    using l empty map_fst_update_present [OF l]
    by (auto simp: legacy_ensureNewLockHolder_def Let_def case_prod_beta drain legacy_drop_holder_def legacy_set_def
        split: option.split)
qed

lemma force_quiet:
  assumes Q: "linked_queue E contents" and l: "legacy_get b k = Some l" and quiet: "contents (ll_notify l) = []"
  shows "\<exists>b' l'. legacy_unlock E (legacy_force k) wo b = Some b' \<and> legacy_get b' k = Some l' \<and>
    ll_notify l' = ll_notify l \<and> ll_isViaShell l' = ll_isViaShell l \<and> ll_lockholders l' = [] \<and>
    (\<forall>k'. k' \<noteq> k \<longrightarrow> legacy_get b' k' = legacy_get b k') \<and> map fst (lb_locks b') = map fst (lb_locks b)"
proof -
  let ?r = "legacy_force k"
  let ?b = "legacy_reply_unlock wo ?r (\<lambda>u. UnlockReply u k (lq_length E (ll_notify l)) True None)
    (legacy_release_all k l (legacy_forget_ownership wo ?r b))"
  let ?l = "l\<lparr>ll_lockholdersAllReleased := set (map fst (ll_lockholders l)) \<union> ll_lockholdersAllReleased l, ll_lockholders := []\<rparr>"
  have locks: "lb_locks ?b = AList.update k ?l (lb_locks b)" by simp
  have eq: "legacy_unlock E ?r wo b = legacy_ensureNewLockHolder E k None ?b"
    by (simp add: legacy_unlock_def Let_def l legacy_unlock_matching_def legacy_release_def legacy_force_def)
  have "legacy_get ?b k = Some ?l" "contents (ll_notify ?l) = []" using quiet by (simp_all add: locks)
  from ensure_quiet [OF Q this, of None] show ?thesis
    using map_fst_update_present [OF l] by (auto simp: eq locks)
qed

lemma disciplined_nothing: "legacy_disciplined {} = (\<lambda>ev. True)"
  by (rule ext) simp

subsection \<open>Holds end\<close>

theorem legacy_mutual_exclusion_witness:
  "\<exists>l. legacy_get (legacy_after awaited_by_2) ''k'' = Some l \<and> ll_notify l \<noteq> [] \<and> length (ll_lockholders l) \<le> 1"
proof -
  have "legacy_run legacy_demo awaited_by_2 (init_legacy 4000 1000) \<noteq> None" by code_simp
  moreover have "list_all (legacy_disciplined {(''k'', 1)}) awaited_by_2"
    by (simp add: awaited_by_2_def held_by_1_def legacy_joins_def asks_within_def legacy_ask_def)
  ultimately have r: "legacy_reachable legacy_demo (legacy_disciplined {(''k'', 1)}) (init_legacy 4000 1000) (legacy_after awaited_by_2)"
    by (rule legacy_after_reachable)
  have "case legacy_get (legacy_after awaited_by_2) ''k'' of None \<Rightarrow> False | Some l \<Rightarrow> ll_notify l \<noteq> []" by code_simp
  then obtain l where "legacy_get (legacy_after awaited_by_2) ''k'' = Some l" "ll_notify l \<noteq> []"
    by (auto split: option.splits)
  with legacy_mutual_exclusion [OF r] show ?thesis by auto
qed

text \<open>C37: Every hold of \<open>Broker\<close> that has a timer has it armed in every state reached, and when that timer fires
  while nobody waits for the key, the handler returns and the hold is gone.\<close>

theorem legacy_holds_expire:
  assumes "legacy_reachable E (\<lambda>ev. True) (init_legacy x t) b" and "linked_queue E contents"
    and "legacy_get b k = Some l" and "map_of (ll_lockholders l) u = Some h" and "lh_timer h = Some i"
  shows "\<exists>c b'. map_of (lb_timers b) i = Some \<lparr>ht_key = k, ht_uuid = u, ht_created = c\<rparr> \<and>
    holder_timed_out E i b = Some b' \<and>
    (contents (ll_notify l) = [] \<longrightarrow> (\<forall>l'. legacy_get b' k = Some l' \<longrightarrow> map_of (ll_lockholders l') u = None))"
proof -
  have "legacy_reachable E (legacy_disciplined {}) (init_legacy x t) b" using assms(1) by (simp add: disciplined_nothing)
  then have "legacy_inv {} b" by (rule inv_reachable) simp
  from inv_get(1) [OF this assms(3)] have "timer_ok (lb_timers b) k u h"
    using assms(4) unfolding holds_ok_def by blast
  then obtain c where c: "map_of (lb_timers b) i = Some \<lparr>ht_key = k, ht_uuid = u, ht_created = c\<rparr>"
    using assms(5) unfolding timer_ok_def by blast
  let ?b1 = "legacy_emit (Warn (TtlEvicted u k)) (b\<lparr>lb_timers := AList.delete i (lb_timers b)\<rparr>)"
  let ?l1 = "l\<lparr>ll_lockholderTimeouts := insert u (ll_lockholderTimeouts l), ll_lockholders := AList.delete u (ll_lockholders l)\<rparr>"
  let ?b2 = "legacy_set k ?l1 ?b1"
  have eq: "holder_timed_out E i b = (if is_semaphore c ?l1 then legacy_ensureNewLockHolder E k (Some u) ?b2
      else legacy_unlock E (legacy_force k) None ?b2)"
    using c assms(3,4) by (simp add: holder_timed_out_def Let_def legacy_emit_def)
  obtain b' where b': "holder_timed_out E i b = Some b'"
    using legacy_handlers_return [OF assms(2), of "LgHolderTimer i" b] by auto
  have "\<forall>l'. legacy_get b' k = Some l' \<longrightarrow> map_of (ll_lockholders l') u = None" if "contents (ll_notify l) = []"
  proof -
    have l1: "legacy_get ?b2 k = Some ?l1" "contents (ll_notify ?l1) = []" using that by simp_all
    from ensure_quiet [OF assms(2) l1, of "Some u"] force_quiet [OF assms(2) l1, of None] b' eq show ?thesis
      by (auto split: if_splits)
  qed
  with b' c show ?thesis by blast
qed

theorem legacy_holds_expire_witness:
  "\<exists>b' l'. holder_timed_out legacy_demo 0 (legacy_after held_by_1) = Some b' \<and> legacy_get b' ''k'' = Some l' \<and>
     map_of (ll_lockholders l') ''a'' = None \<and> legacy_holders ''k'' (legacy_after held_by_1) = [''a'']"
proof -
  let ?b = "legacy_after held_by_1"
  have "legacy_run legacy_demo held_by_1 (init_legacy 4000 1000) \<noteq> None" by code_simp
  moreover have "list_all (\<lambda>ev. True) held_by_1" by (simp add: list_all_iff)
  ultimately have r: "legacy_reachable legacy_demo (\<lambda>ev. True) (init_legacy 4000 1000) ?b" by (rule legacy_after_reachable)
  have "case legacy_get ?b ''k'' of None \<Rightarrow> False
      | Some l \<Rightarrow> ll_notify l = [] \<and> map_option lh_timer (map_of (ll_lockholders l) ''a'') = Some (Some 0)"
    "case holder_timed_out legacy_demo 0 ?b of None \<Rightarrow> False | Some b' \<Rightarrow> legacy_get b' ''k'' \<noteq> None"
    "legacy_holders ''k'' ?b = [''a'']"
    by code_simp+
  then obtain l h b' l' where l: "legacy_get ?b ''k'' = Some l" "ll_notify l = []"
      "map_of (ll_lockholders l) ''a'' = Some h" "lh_timer h = Some 0"
    and b': "holder_timed_out legacy_demo 0 ?b = Some b'" "legacy_get b' ''k'' = Some l'"
    by (auto split: option.splits)
  from legacy_holds_expire [OF r legacy_demo_queue l(1,3,4)] l(2) b' have "map_of (ll_lockholders l') ''a'' = None" by auto
  with b' show ?thesis using \<open>legacy_holders ''k'' ?b = [''a'']\<close> by auto
qed

subsection \<open>When a connection ends\<close>

lemma cleanup_key_quiet:
  assumes Q: "linked_queue E contents" and l: "legacy_get b k = Some l" and quiet: "contents (ll_notify l) = []"
    and "\<not> ll_isViaShell l"
  shows "\<exists>b' l'. legacy_cleanup_key E ws us k b = Some b' \<and> legacy_get b' k = Some l' \<and>
    contents (ll_notify l') = [] \<and> \<not> ll_isViaShell l' \<and> ll_lockholders l' = [] \<and>
    (\<forall>k'. k' \<noteq> k \<longrightarrow> legacy_get b' k' = legacy_get b k') \<and> map fst (lb_locks b') = map fst (lb_locks b)"
proof -
  have "contents (fold (lq_remove E) xs q) = []" if "contents q = []" for xs q
    using that by (induction xs arbitrary: q) (simp_all add: linked_queue.contents_remove [OF Q])
  then have removed: "contents (fold (lq_remove E) (array_keys us) (ll_notify l)) = []" using quiet by simp
  let ?l1 = "l\<lparr>ll_notify := fold (lq_remove E) (array_keys us) (ll_notify l),
               ll_lockholders := filter (\<lambda>(u, h). lh_ws h \<noteq> ws) (ll_lockholders l)\<rparr>"
  let ?b1 = "legacy_set k ?l1 (fold (\<lambda>(u, h). clear_holder_timer h) (legacy_own_holds ws l) b)"
  have l1: "legacy_get ?b1 k = Some ?l1" "contents (ll_notify ?l1) = []" using removed by simp_all
  have locks: "lb_locks ?b1 = AList.update k ?l1 (lb_locks b)" by (simp add: legacy_set_def)
  have "legacy_cleanup_key E ws us k b = legacy_unlock E (legacy_force k) (Some ws) ?b1"
    using assms(4) by (simp add: legacy_cleanup_key_def Let_def l)
  with force_quiet [OF Q l1, of "Some ws"] removed assms(4) show ?thesis
    using map_fst_update_present [OF l] by (auto simp: locks)
qed

definition all_quiet :: "('q \<Rightarrow> (string \<times> legacy_notify) list) \<Rightarrow> 'q legacy \<Rightarrow> bool" where
  "all_quiet contents b \<longleftrightarrow> (\<forall>k l. legacy_get b k = Some l \<longrightarrow> contents (ll_notify l) = [] \<and> \<not> ll_isViaShell l)"

lemma cleanup_locks_quiet:
  assumes Q: "linked_queue E contents"
  shows "all_quiet contents b \<Longrightarrow> set ks \<subseteq> fst ` set (lb_locks b) \<Longrightarrow>
    \<exists>b'. legacy_cleanup_locks E ws us ks b = Some b' \<and>
      (\<forall>k l. legacy_get b' k = Some l \<longrightarrow> 
        (k \<in> set ks \<longrightarrow> ll_lockholders l = []) \<and> (k \<notin> set ks \<longrightarrow> legacy_get b k = Some l))"
proof (induction ks arbitrary: b)
  case (Cons k ks)
  obtain l where l: "legacy_get b k = Some l"
    using Cons.prems(2) by (cases "legacy_get b k") (auto simp: map_of_eq_None_iff)
  then have "contents (ll_notify l) = []" "\<not> ll_isViaShell l" using Cons.prems(1) by (auto simp: all_quiet_def)
  then obtain b1 l1 where b1: "legacy_cleanup_key E ws us k b = Some b1" "legacy_get b1 k = Some l1"
    "contents (ll_notify l1) = []" "\<not> ll_isViaShell l1" "ll_lockholders l1 = []"
    "\<forall>k'. k' \<noteq> k \<longrightarrow> legacy_get b1 k' = legacy_get b k'" "map fst (lb_locks b1) = map fst (lb_locks b)"
    using cleanup_key_quiet [OF Q l, of ws us] by blast
  have "all_quiet contents b1"
    unfolding all_quiet_def
  proof (intro allI impI)
    fix k' l' assume "legacy_get b1 k' = Some l'"
    then show "contents (ll_notify l') = [] \<and> \<not> ll_isViaShell l'"
      using b1 Cons.prems(1) by (cases "k' = k") (auto simp: all_quiet_def)
  qed
  moreover have "fst ` set (lb_locks b1) = fst ` set (lb_locks b)"
    using arg_cong [OF b1(7), of set] by simp
  ultimately obtain b' where b': "legacy_cleanup_locks E ws us ks b1 = Some b'"
    "\<forall>k l. legacy_get b' k = Some l \<longrightarrow> 
      (k \<in> set ks \<longrightarrow> ll_lockholders l = []) \<and> (k \<notin> set ks \<longrightarrow> legacy_get b1 k = Some l)"
    using Cons.IH [of b1] Cons.prems(2) by auto
  have "(k' \<in> set (k # ks) \<longrightarrow> ll_lockholders l' = []) \<and> (k' \<notin> set (k # ks) \<longrightarrow> legacy_get b k' = Some l')"
    if "legacy_get b' k' = Some l'" for k' l'
    using b'(2) [rule_format, OF that] b1(2,5,6) by (cases "k' = k"; cases "k' \<in> set ks") auto
  with b'(1) b1(1) show ?case by auto
qed simp

text \<open>C34: When any connection of a \<open>Broker\<close> ends, every hold of every connection is released: if nobody waits, no
  key has a holder afterwards, whoever held it. The forced unlock of each key names no uuid, so the
  check that a hold belongs to the connection that ended is without effect.\<close>

theorem legacy_disconnect_frees_every_key:
  assumes "linked_queue E contents" and "\<not> lb_lmxClosed b ws" and "all_quiet contents b"
  shows "\<exists>b'. legacy_on_socket_end E ws b = Some b' \<and> (\<forall>k l. legacy_get b' k = Some l \<longrightarrow> ll_lockholders l = [])"
proof -
  let ?us = "case lb_wsToUUIDs b ws of None \<Rightarrow> [] | Some us \<Rightarrow> us"
  let ?b = "b\<lparr>lb_lmxClosed := (lb_lmxClosed b)(ws := True), lb_connectedClients := removeAll ws (lb_connectedClients b),
     lb_wsToKeys := (lb_wsToKeys b)(ws := None), lb_wsToUUIDs := (lb_wsToUUIDs b)(ws := None),
     lb_registeredListeners := (\<lambda>k. filter (\<lambda>p. ls_ws p \<noteq> ws) (lb_registeredListeners b k))\<rparr>"
  have "all_quiet contents ?b" using assms(3) by (simp add: all_quiet_def)
  from cleanup_locks_quiet [OF assms(1) this, of "map fst (lb_locks b)" ws ?us] obtain b' where
    b': "legacy_cleanup_locks E ws ?us (map fst (lb_locks b)) ?b = Some b'"
    "\<forall>k l. legacy_get b' k = Some l \<longrightarrow>
      (k \<in> set (map fst (lb_locks b)) \<longrightarrow> ll_lockholders l = []) \<and>
      (k \<notin> set (map fst (lb_locks b)) \<longrightarrow> legacy_get b k = Some l)" by auto
  have "ll_lockholders l = []" if "legacy_get b' k = Some l" for k l
  proof (cases "k \<in> set (map fst (lb_locks b))")
    case False
    then have "legacy_get b k = None" by (simp add: map_of_eq_None_iff)
    with b'(2) [rule_format, OF that] False show ?thesis by simp
  qed (use b'(2) [rule_format, OF that] in simp)
  with b'(1) assms(2) show ?thesis
    by (auto simp: legacy_on_socket_end_def legacy_cleanupConnection_def Let_def legacy_destroy_socket_def)
qed

theorem legacy_disconnect_frees_every_key_witness:
  "legacy_holders ''k'' (legacy_after held_by_1) = [''a''] \<and>
   (\<exists>b'. legacy_on_socket_end legacy_demo 3 (legacy_after held_by_1) = Some b' \<and> legacy_holders ''k'' b' = [])"
proof
  let ?b = "legacy_after held_by_1"
  show "legacy_holders ''k'' ?b = [''a'']" by code_simp
  have "\<not> lb_lmxClosed ?b 3" "list_all (\<lambda>(k, l). ll_notify l = [] \<and> \<not> ll_isViaShell l) (lb_locks ?b)" by code_simp+
  moreover from this(2) have "all_quiet (\<lambda>q. q) ?b"
    by (auto simp: all_quiet_def list_all_iff dest: map_of_SomeD)
  ultimately obtain b' where "legacy_on_socket_end legacy_demo 3 ?b = Some b'"
    "\<forall>k l. legacy_get b' k = Some l \<longrightarrow> ll_lockholders l = []"
    using legacy_disconnect_frees_every_key [OF legacy_demo_queue] by blast
  then show "\<exists>b'. legacy_on_socket_end legacy_demo 3 ?b = Some b' \<and> legacy_holders ''k'' b' = []"
    by (auto simp: legacy_holders_def split: option.split)
qed

text \<open>With a waiter, the key is handed over while its holder still believes to have it.\<close>

lemma stranger_hands_over:
  "(case legacy_on_socket_end legacy_demo 3 (legacy_after awaited_by_2) of
      None \<Rightarrow> False
    | Some b' \<Rightarrow> legacy_holders ''k'' b' = [''b''] \<and> last (lb_out b') = Sent 2 (LockReply ''b'' ''k'' True 0 0 None None))"
  by code_simp

subsection \<open>Releases of the reader/writer protocol\<close>

lemma locks_update_object:
  "legacy_get (legacy_update_object i f b) k = map_option (\<lambda>l. if ll_id l = i then f l else l) (legacy_get b k)"
  by (simp add: legacy_update_object_def map_of_map comp_def)

text \<open>Holders and waiters, which broadcasts and counters leave alone.\<close>

definition same_people :: "'q legacy \<Rightarrow> 'q legacy \<Rightarrow> bool" where
  "same_people b b' \<longleftrightarrow> (\<forall>k l. legacy_get b k = Some l \<longrightarrow> (\<exists>l'. legacy_get b' k = Some l' \<and>
     ll_lockholders l' = ll_lockholders l \<and> ll_notify l' = ll_notify l))"

lemma same_people_locks: "lb_locks b' = lb_locks b \<Longrightarrow> same_people b b'"
  by (simp add: same_people_def)

lemma same_people_trans: "same_people a b \<Longrightarrow> same_people b c \<Longrightarrow> same_people a c"
  unfolding same_people_def by metis

lemma send_locks [simp]: "lb_locks (legacy_send ws r b) = lb_locks b"
  using locks_of_core [OF core_primitives(2) [of ws r b]] by simp

lemma same_people_run_fn: "same_people b (legacy_run_fn p b)"
  by (auto simp: same_people_def legacy_run_fn_def Let_def locks_update_object split: listener_fn.split)

lemma same_people_broadcast: "same_people b (legacy_broadcast k b)"
proof -
  have "same_people b (fold (\<lambda>p b. legacy_send (ls_ws p) (BroadcastResult (ls_uuid p) k) (legacy_run_fn p b)) ps b1)"
    if "same_people b b1" for ps b1
    using that
  proof (induction ps arbitrary: b1)
    case (Cons p ps)
    have "same_people b (legacy_run_fn p b1)" using same_people_trans [OF Cons.prems same_people_run_fn] .
    then have "same_people b (legacy_send (ls_ws p) (BroadcastResult (ls_uuid p) k) (legacy_run_fn p b1))"
      by (simp add: same_people_def)
    from Cons.IH [OF this] show ?case by simp
  qed simp
  then show ?thesis by (simp add: legacy_broadcast_def same_people_locks)
qed

lemma same_people_ensure_lock: "same_people b (legacy_ensure_lock E k b)"
  by (auto simp: same_people_def legacy_ensure_lock_def legacy_create_lock_def legacy_set_def split: option.split)

lemma same_people_set:
  "legacy_get b k = Some l \<Longrightarrow> ll_lockholders l' = ll_lockholders l \<Longrightarrow> ll_notify l' = ll_notify l \<Longrightarrow>
    same_people b (legacy_set k l' b)"
  by (auto simp: same_people_def)

lemma same_people_send: "same_people a b \<Longrightarrow> same_people a (legacy_send ws r b)"
  by (simp add: same_people_def)

lemma same_people_with_lock:
  assumes "same_people a b" and "\<And>l. legacy_get b k = Some l \<Longrightarrow> same_people b (f l b)"
  shows "same_people a (legacy_with_lock k f b)"
  using assms same_people_trans by (auto simp: legacy_with_lock_def split: option.split)

lemma same_people_then_broadcast: "same_people a b \<Longrightarrow> same_people a (legacy_broadcast k b)"
  using same_people_trans same_people_broadcast by blast

lemma same_people_followups:
  "same_people b (legacy_decrementReaders E q ws b)"
  "same_people b (legacy_setWriteFlagToFalseAndBroadcast E q ws b)"
  unfolding legacy_decrementReaders_def legacy_setWriteFlagToFalseAndBroadcast_def Let_def
  by (intro same_people_send same_people_then_broadcast same_people_with_lock same_people_ensure_lock,
      auto intro: same_people_set same_people_then_broadcast)+

lemma get_release:
  assumes "legacy_get b (u_key r) = Some l"
  shows "\<exists>l'. legacy_get (legacy_release r l b) (u_key r) = Some l' \<and> ll_notify l' = ll_notify l \<and>
    set (ll_lockholders l') \<subseteq> set (ll_lockholders l) \<and>
    (u_force r \<and> \<not> truthy_str (u__uuid r) \<longrightarrow> ll_lockholders l' = [])"
  using set_delete_subset [of "prop_name (u__uuid r)" "ll_lockholders l"]
  by (auto simp: legacy_release_def Let_def)

text \<open>C38: An \<open>unlock\<close> of \<open>Broker\<close> whose \<open>rwStatus\<close> is that of a reader or of the writer key, and which names a
  holder of the key or is forced, answers, and hands nothing over: whoever waits for the key keeps waiting, even if it has no holder left. The two requests
  that the code says will take care of it, \<open>decrementReaders\<close> and \<open>setWriteFlagToFalseAndBroadcast\<close>, change
  neither the holders nor the queue.\<close>

theorem legacy_rw_unlock_hands_nothing_over:
  assumes "legacy_get b (u_key r) = Some l" and "legacy_is_holder (u__uuid r) l \<or> u_force r"
    and "lu_rwStatus r = Some UnlockingWriteKey \<or> lu_rwStatus r = Some EndRead"
  shows "\<exists>b' l'. legacy_unlock E r (Some ws) b = Some b' \<and> legacy_get b' (u_key r) = Some l' \<and>
    ll_notify l' = ll_notify l \<and> set (ll_lockholders l') \<subseteq> set (ll_lockholders l) \<and>
    (u_force r \<and> \<not> truthy_str (u__uuid r) \<longrightarrow> ll_lockholders l' = []) \<and>
    same_people b' (legacy_decrementReaders E q ws b') \<and>
    same_people b' (legacy_setWriteFlagToFalseAndBroadcast E q ws b')"
proof -
  let ?b = "legacy_forget_ownership (Some ws) r b"
  let ?b' = "legacy_reply_unlock (Some ws) r (\<lambda>u. UnlockReply u (u_key r) (lq_length E (ll_notify l)) True None)
    (legacy_release r l ?b)"
  have "legacy_unlock E r (Some ws) b = Some ?b'"
    using assms(2,3) by (auto simp: legacy_unlock_def Let_def assms(1) legacy_unlock_matching_def)
  moreover have "legacy_get ?b (u_key r) = Some l" using assms(1) by simp
  from get_release [OF this] obtain l' where "legacy_get ?b' (u_key r) = Some l'" "ll_notify l' = ll_notify l"
    "set (ll_lockholders l') \<subseteq> set (ll_lockholders l)" "u_force r \<and> \<not> truthy_str (u__uuid r) \<longrightarrow> ll_lockholders l' = []"
    by auto
  ultimately show ?thesis using same_people_followups by blast
qed

definition reader_unlock :: legacy_unlock_req where
  "reader_unlock = \<lparr>u_uuid = Some ''x'', u_key = ''k'', u__uuid = Some ''a'', u_force = False, u_keep = False,
     lu_rwStatus = Some EndRead\<rparr>"

theorem legacy_rw_unlock_hands_nothing_over_witness:
  "\<exists>b' l'. legacy_unlock legacy_demo reader_unlock (Some 1) (legacy_after awaited_by_2) = Some b' \<and>
     legacy_get b' ''k'' = Some l' \<and> ll_notify l' \<noteq> [] \<and>
     same_people b' (legacy_decrementReaders legacy_demo \<lparr>k_uuid = ''y'', k_key = ''k''\<rparr> 1 b')"
proof -
  let ?b = "legacy_after awaited_by_2"
  have "case legacy_get ?b ''k'' of None \<Rightarrow> False
      | Some l \<Rightarrow> ll_notify l \<noteq> [] \<and> legacy_is_holder (u__uuid reader_unlock) l" by code_simp
  then obtain l where l: "legacy_get ?b (u_key reader_unlock) = Some l" "ll_notify l \<noteq> []"
    "legacy_is_holder (u__uuid reader_unlock) l" by (auto simp: reader_unlock_def split: option.splits)
  have "lu_rwStatus reader_unlock = Some EndRead" by (simp add: reader_unlock_def)
  with legacy_rw_unlock_hands_nothing_over [OF l(1)] l
  have "\<exists>b' l'. legacy_unlock legacy_demo reader_unlock (Some 1) ?b = Some b' \<and>
     legacy_get b' (u_key reader_unlock) = Some l' \<and> ll_notify l' = ll_notify l \<and>
     same_people b' (legacy_decrementReaders legacy_demo \<lparr>k_uuid = ''y'', k_key = ''k''\<rparr> 1 b')" by blast
  with l(2) show ?thesis by (auto simp: reader_unlock_def)
qed

end
