(* ===== verification/LegacyAgrees.thy ===== *)
theory LegacyAgrees
  imports LegacySafety Requests Demo
begin

text \<open>
  The two brokers that \<open>main.ts\<close> exports answer a \<open>lock\<close> request alike: \<open>Broker1\<close> (\<open>broker-1.ts\<close>) and
  \<open>Broker\<close> (\<open>broker.ts\<close>) on the same key, up to the fencing token that only one of them has.
\<close>

fun int_limit :: "jsval \<Rightarrow> int option" where
  "int_limit (Integer n) = Some n"
| "int_limit _ = None"

definition legacy_request :: "lock_req \<Rightarrow> legacy_lock_req" where
  "legacy_request r =
     \<lparr>lr_uuid = l_uuid r, lr_key = l_key r, lr_ttl = l_ttl r, lr_max = int_limit (l_max r),
      lr_maxRead = int_limit (l_maxRead r), lr_maxWrite = int_limit (l_maxWrite r), lr_force = l_force r,
      lr_pid = l_pid r, lr_keep = l_keep r, lr_retryCount = l_retryCount r, lr_rwStatus = l_rwStatus r\<rparr>"

lemma legacy_request_simps [simp]:
  "lr_uuid (legacy_request r) = l_uuid r" "lr_key (legacy_request r) = l_key r" "lr_ttl (legacy_request r) = l_ttl r"
  "lr_max (legacy_request r) = int_limit (l_max r)" "lr_maxRead (legacy_request r) = int_limit (l_maxRead r)"
  "lr_maxWrite (legacy_request r) = int_limit (l_maxWrite r)" "lr_force (legacy_request r) = l_force r"
  "lr_pid (legacy_request r) = l_pid r" "lr_keep (legacy_request r) = l_keep r"
  "lr_retryCount (legacy_request r) = l_retryCount r" "lr_rwStatus (legacy_request r) = l_rwStatus r"
  by (simp_all add: legacy_request_def)

text \<open>Lock objects with the same counts, limits, holders and waiters, by uuid.\<close>

definition twin ::
  "('q \<Rightarrow> (string \<times> notify_obj) list) \<Rightarrow> ('p \<Rightarrow> (string \<times> legacy_notify) list) \<Rightarrow> 'q lock_obj \<Rightarrow> 'p legacy_lock_obj \<Rightarrow> bool" where
  "twin c d l L \<longleftrightarrow> ll_readers L = readers l \<and> ll_max L = int (max_holders l) \<and>
     ll_maxRead L = map_option int (maxRead l) \<and> ll_maxWrite L = map_option int (maxWrite l) \<and>
     map fst (ll_lockholders L) = map fst (lockholders l) \<and> map fst (d (ll_notify L)) = map fst (c (notify l))"

subsection \<open>The decision\<close>

lemma int_limit_None: "int_limit v = None \<longleftrightarrow> \<not> is_integer v"
  by (cases v) simp_all

lemma valid_limits:
  assumes "validateMaxField r = None"
  shows "int_limit (l_max r) = (if is_integer (l_max r) then Some (int (limit (l_max r))) else None)"
    "int_limit (l_maxRead r) = (if is_integer (l_maxRead r) then Some (int (limit (l_maxRead r))) else None)"
    "int_limit (l_maxWrite r) = (if is_integer (l_maxWrite r) then Some (int (limit (l_maxWrite r))) else None)"
    "is_integer (l_max r) \<Longrightarrow> 0 < limit (l_max r)"
proof -
  have "\<not> bad_limit (l_max r)" "\<not> bad_limit (l_maxRead r)" "\<not> bad_limit (l_maxWrite r)"
    using assms by (auto simp: validateMaxField_def split: if_splits)
  moreover have "int_limit v = (if is_integer v then Some (int (limit v)) else None)" if "\<not> bad_limit v" for v
    using that by (cases v) (auto simp: bad_limit_def)
  moreover have "is_integer v \<Longrightarrow> 0 < limit v" if "\<not> bad_limit v" for v
    using that by (cases v) (auto simp: bad_limit_def)
  ultimately show "int_limit (l_max r) = (if is_integer (l_max r) then Some (int (limit (l_max r))) else None)"
    "int_limit (l_maxRead r) = (if is_integer (l_maxRead r) then Some (int (limit (l_maxRead r))) else None)"
    "int_limit (l_maxWrite r) = (if is_integer (l_maxWrite r) then Some (int (limit (l_maxWrite r))) else None)"
    "is_integer (l_max r) \<Longrightarrow> 0 < limit (l_max r)" by blast+
qed

lemma requested_agrees:
  "validateMaxField r = None \<Longrightarrow> legacy_requested (int_limit (l_maxRead r)) (int_limit (l_max r)) =
     map_option int (requested_limit (l_maxRead r) (l_max r))"
  "validateMaxField r = None \<Longrightarrow> legacy_requested (int_limit (l_maxWrite r)) (int_limit (l_max r)) =
     map_option int (requested_limit (l_maxWrite r) (l_max r))"
  by (simp_all add: legacy_requested_def requested_limit_def valid_limits)

lemma twin_update_limits:
  assumes "validateMaxField r = None" and "twin c d l L"
  shows "twin c d (update_limits r l) (legacy_update_limits (legacy_request r) L)"
proof -
  have max: "twin c d (set_legacy_max r l) (legacy_set_max (legacy_request r) L)" if "twin c d l L" for l L
    using that by (cases "is_integer (l_max r)")
      (simp_all add: twin_def set_legacy_max_def legacy_set_max_def valid_limits(1) [OF assms(1)] del: int_nat_eq)
  have reads: "twin c d
      (case x of Some m \<Rightarrow> l\<lparr>maxRead := Some m\<rparr> | None \<Rightarrow> if maxRead l = None then l\<lparr>maxRead := Some 10\<rparr> else l)
      (case map_option int x of Some m \<Rightarrow> L\<lparr>ll_maxRead := Some m\<rparr>
        | None \<Rightarrow> if ll_maxRead L = None then L\<lparr>ll_maxRead := Some 10\<rparr> else L)" for x
    using assms(2) by (cases x; cases "maxRead l") (simp_all add: twin_def)
  have writes: "twin c d
      (case x of Some m \<Rightarrow> l\<lparr>maxWrite := Some m\<rparr> | None \<Rightarrow> if maxWrite l = None then l\<lparr>maxWrite := Some 1\<rparr> else l)
      (case map_option int x of Some m \<Rightarrow> L\<lparr>ll_maxWrite := Some m\<rparr>
        | None \<Rightarrow> if ll_maxWrite L = None then L\<lparr>ll_maxWrite := Some 1\<rparr> else L)" for x
    using assms(2) by (cases x; cases "maxWrite l") (simp_all add: twin_def)
  show ?thesis
    unfolding update_limits_def legacy_update_limits_def
    using max [OF reads] max [OF writes] max [OF assms(2)]
    by (simp add: beginRead_def beginWrite_def requested_agrees [OF assms(1)])
qed

lemma twin_decision:
  assumes "validateMaxField r = None" and "twin c d l L"
  shows "legacy_limit (legacy_request r) L = int (effective_max r l)"
    and "legacy_count (legacy_request r) L = int (effective_count r l)"
proof -
  have "length (ll_lockholders L) = length (lockholders l)"
    using assms(2) by (metis twin_def length_map)
  then show "legacy_limit (legacy_request r) L = int (effective_max r l)"
    "legacy_count (legacy_request r) L = int (effective_count r l)"
    using assms(2)
    by (auto simp: twin_def legacy_limit_def effective_max_def legacy_count_def effective_count_def
        beginRead_def beginWrite_def valid_limits [OF assms(1)] split: option.split)
qed

lemma fst_image: "map fst xs = map fst ys \<Longrightarrow> fst ` set xs = fst ` set ys"
  by (metis set_map)

lemma filter_fst: "map fst (filter (\<lambda>p. fst p \<noteq> u) xs) = filter (\<lambda>v. v \<noteq> u) (map fst xs)"
  by (simp add: filter_map comp_def)

lemma twin_enqueue:
  assumes Q: "linked_queue E c" and R: "linked_queue E' d" and q: "map fst (d p) = map fst (c q)"
  shows "map fst (d (legacy_enqueue E' (legacy_request r) ws ttl' p)) = map fst (c (enqueue_request E r ws ttl q))"
proof -
  note absent = linked_queue.get_None_iff [OF Q] linked_queue.get_None_iff [OF R]
  note adds = linked_queue.contents_add_removed [OF Q] linked_queue.contents_add_removed [OF R]
    linked_queue.contents_addToFront [OF Q] linked_queue.contents_addToFront [OF R]
    linked_queue.contents_enqueue [OF Q] linked_queue.contents_enqueue [OF R]
  have "lq_get E' (l_uuid r) p = None \<longleftrightarrow> lq_get E (l_uuid r) q = None"
    using fst_image [OF q] by (simp add: absent)
  then show ?thesis
    using q fst_image [OF q]
    by (cases "lq_get E (l_uuid r) q")
      (simp_all add: legacy_enqueue_def enqueue_request_def Let_def adds absent filter_fst)
qed

subsection \<open>Broker\<close>

definition legacy_prelude :: "'q legacy_env \<Rightarrow> legacy_lock_req \<Rightarrow> sock \<Rightarrow> 'q legacy \<Rightarrow> 'q legacy" where
  "legacy_prelude E r ws b =
     (let b2 = legacy_count_request E (legacy_with_lock (lr_key r)
            (\<lambda>l b. legacy_set (lr_key r) (l\<lparr>ll_timestampEmptied := None\<rparr>) b) b)
      in legacy_ensure_ws_keys ws (if lr_uuid r \<noteq> [] then legacy_add_ws_uuid ws (lr_uuid r) b2 else b2))"

lemma legacy_lock_prelude:
  "legacy_lock E r ws b =
    (case legacy_get b (lr_key r) of
       Some l \<Rightarrow> legacy_existing E r ws (legacy_ttl E b r) (l\<lparr>ll_timestampEmptied := None\<rparr>) (legacy_prelude E r ws b)
     | None \<Rightarrow> legacy_new E r ws (legacy_ttl E b r) (legacy_prelude E r ws b))"
  by (auto simp: legacy_lock_def legacy_prelude_def Let_def legacy_with_lock_def split: option.split)

lemma writable_legacy [simp]:
  "lb_writable (legacy_ensure_ws_keys ws b) = lb_writable b" "lb_writable (legacy_add_ws_uuid ws u b) = lb_writable b"
  "lb_writable (legacy_add_ws_key ws k b) = lb_writable b" "lb_writable (legacy_set k l b) = lb_writable b"
  "lb_writable (legacy_count_request E b) = lb_writable b" "lb_writable (legacy_create_lock E k keep mx mr mw b) = lb_writable b"
  "lb_writable (legacy_install x k u ws pid ttl l b) = lb_writable b"
  by (simp_all add: legacy_ensure_ws_keys_def legacy_add_ws_uuid_def legacy_add_ws_key_def legacy_set_def
      legacy_count_request_def legacy_cleanUpLocks_def legacy_create_lock_def legacy_install_def set_holder_timer_def
      Let_def split: option.split)

lemma writable_legacy_prelude [simp]: "lb_writable (legacy_prelude E r ws b) = lb_writable b"
  by (simp add: legacy_prelude_def Let_def legacy_with_lock_def split: option.split)

lemma legacy_out_send: "lb_writable b ws \<Longrightarrow> lb_out (legacy_send ws r b) = lb_out b @ [Sent ws r]"
  by (simp add: legacy_send_def legacy_emit_def)

lemma get_install [simp]:
  "legacy_get (legacy_install x k u ws pid ttl l b) k = Some (l\<lparr>ll_lockholders := AList.update u
     \<lparr>lh_pid = pid, lh_ws = ws, lh_uuid = u, lh_timer = fst (set_holder_timer x k u ttl b)\<rparr> (ll_lockholders l)\<rparr>)"
  by (simp add: legacy_install_def Let_def case_prod_beta)

text \<open>What a request leaves of its key, and its answer.\<close>

definition legacy_outcome ::
  "'q legacy_env \<Rightarrow> legacy_lock_req \<Rightarrow> sock \<Rightarrow> 'q legacy \<Rightarrow> 'q legacy_lock_obj \<Rightarrow> bool \<Rightarrow> nat \<Rightarrow> bool" where
  "legacy_outcome E r ws b l acq n \<longleftrightarrow> legacy_get b (lr_key r) = Some l \<and>
     last (lb_out b) = Sent ws (LockReply (lr_uuid r) (lr_key r) acq n (ll_readers l) None None)"

lemma legacy_acquire_outcome:
  assumes "lb_writable b ws"
  shows "\<exists>h. legacy_outcome E r ws (legacy_acquire x r ws ttl n l b)
    (legacy_count_reader r l\<lparr>ll_lockholders := AList.update (lr_uuid r) h (ll_lockholders l)\<rparr>) True n"
proof -
  have "ll_lockholders (legacy_count_reader r l) = ll_lockholders l" by (simp add: legacy_count_reader_def)
  then show ?thesis
    using assms by (fastforce simp: legacy_outcome_def legacy_acquire_def Let_def legacy_out_send)
qed

lemma legacy_contended_outcome:
  assumes "lb_writable b ws"
  shows "legacy_outcome E r ws (legacy_contended E r ws ttl l b)
    (l\<lparr>ll_notify := legacy_enqueue E r ws ttl (ll_notify l)\<rparr>) False (lq_length E (ll_notify l))"
  using assms by (simp add: legacy_outcome_def legacy_contended_def legacy_out_send)

subsection \<open>Broker1\<close>

definition broker_outcome :: "lock_req \<Rightarrow> sock \<Rightarrow> 'q broker \<Rightarrow> 'q lock_obj \<Rightarrow> bool \<Rightarrow> nat \<Rightarrow> bool" where
  "broker_outcome r ws b l acq n \<longleftrightarrow> get_lock b (l_key r) = Some l \<and>
     (\<exists>t. last (out b) = Sent ws (LockReply (l_uuid r) (l_key r) acq n (readers l) t None))"

lemma get_grantLock:
  "\<exists>h. get_lock (snd (grantLock E k ws u pid ttl l b)) k =
     Some (l\<lparr>nextFencingToken := js_inc (nextFencingToken l), lockholders := AList.update u h (lockholders l)\<rparr>)"
  by (simp add: grantLock_def Let_def case_prod_beta) (rule exI, rule refl)

lemma lock_acquire_outcome:
  assumes "get_lock b (l_key r) = Some l" and "writable b ws"
  shows "\<exists>h. broker_outcome r ws (lock_acquire E r ws ttl n l b) (count_reader r l\<lparr>
    nextFencingToken := js_inc (nextFencingToken l), lockholders := AList.update (l_uuid r) h (lockholders l)\<rparr>) True n"
proof -
  have c: "nextFencingToken (count_reader r l) = nextFencingToken l" "lockholders (count_reader r l) = lockholders l"
    by (simp_all add: count_reader_def)
  obtain h where "get_lock (snd (grantLock E (l_key r) ws (l_uuid r) (l_pid r) ttl (count_reader r l) b)) (l_key r) =
      Some (count_reader r l\<lparr>nextFencingToken := js_inc (nextFencingToken l),
        lockholders := AList.update (l_uuid r) h (lockholders l)\<rparr>)"
    using get_grantLock [of E "l_key r" ws "l_uuid r" "l_pid r" ttl "count_reader r l" b] by (auto simp: c)
  then have "get_lock (lock_acquire E r ws ttl n l b) (l_key r) = Some (count_reader r l\<lparr>
      nextFencingToken := js_inc (nextFencingToken l), lockholders := AList.update (l_uuid r) h (lockholders l)\<rparr>)"
    by (simp add: lock_acquire_def Let_def case_prod_beta locks_send)
  with lock_acquire_grants(4) [OF assms] show ?thesis by (auto simp: broker_outcome_def)
qed

lemma lock_contended_outcome:
  assumes "get_lock b (l_key r) = Some l" and "writable b ws"
  shows "broker_outcome r ws (lock_contended E r ws ttl l b)
    (if l_wait r = Some False then l else l\<lparr>notify := enqueue_request E r ws ttl (notify l)\<rparr>)
    False (lq_length E (notify l))"
  using lock_contended_keeps(2) [OF assms] assms(1)
  by (simp add: broker_outcome_def) (simp add: lock_contended_def Let_def locks_send)

subsection \<open>Both\<close>

lemma twin_grant:
  assumes "twin c d l L"
  shows "twin c d (count_reader r l\<lparr>nextFencingToken := t, lockholders := AList.update u h (lockholders l)\<rparr>)
    (legacy_count_reader (legacy_request r) L\<lparr>ll_lockholders := AList.update u h' (ll_lockholders L)\<rparr>)"
  using assms fst_image [of "ll_lockholders L" "lockholders l"]
  by (simp add: twin_def update_keys count_reader_def legacy_count_reader_def beginRead_def endRead_def)

text \<open>A request refused with \<open>wait: false\<close> is not queued by \<open>Broker1\<close>; \<open>Broker\<close> queues it.\<close>

definition if_queued :: "'p ext \<Rightarrow> lock_req \<Rightarrow> sock \<Rightarrow> js_number \<Rightarrow> bool \<Rightarrow> 'p lock_obj \<Rightarrow> 'p lock_obj" where
  "if_queued E r ws ttl acq l =
     (if \<not> acq \<and> l_wait r = Some False then l\<lparr>notify := enqueue_request E r ws ttl (notify l)\<rparr> else l)"

definition alike_outcomes ::
  "'p ext \<Rightarrow> js_number \<Rightarrow> 'q legacy_env \<Rightarrow> ('p \<Rightarrow> (string \<times> notify_obj) list) \<Rightarrow> ('q \<Rightarrow> (string \<times> legacy_notify) list) \<Rightarrow> lock_req \<Rightarrow> sock \<Rightarrow>
    'p broker \<Rightarrow> 'q legacy \<Rightarrow> bool" where
  "alike_outcomes E ttl E' c d r ws b B \<longleftrightarrow> (\<exists>l L acq n. broker_outcome r ws b l acq n \<and>
     legacy_outcome E' (legacy_request r) ws B L acq n \<and> twin c d (if_queued E r ws ttl acq l) L)"

lemma acquire_alike:
  assumes "twin c d l L" and "get_lock b (l_key r) = Some l" and "writable b ws" and "lb_writable B ws"
  shows "alike_outcomes F t0 E' c d r ws (lock_acquire E r ws ttl n l b)
    (legacy_acquire x (legacy_request r) ws ttl' n L B)"
proof -
  obtain h where h: "broker_outcome r ws (lock_acquire E r ws ttl n l b) (count_reader r l\<lparr>
    nextFencingToken := js_inc (nextFencingToken l), lockholders := AList.update (l_uuid r) h (lockholders l)\<rparr>) True n"
    using lock_acquire_outcome [OF assms(2,3)] by blast
  obtain h' where h': "legacy_outcome E' (legacy_request r) ws (legacy_acquire x (legacy_request r) ws ttl' n L B)
    (legacy_count_reader (legacy_request r) L\<lparr>ll_lockholders := AList.update (l_uuid r) h' (ll_lockholders L)\<rparr>) True n"
    using legacy_acquire_outcome [OF assms(4), of E' "legacy_request r" x ttl' n L] by auto
  have "if_queued F r ws t0 True x = x" for x by (simp add: if_queued_def)
  then show ?thesis unfolding alike_outcomes_def using h h' twin_grant [OF assms(1)] by metis
qed

lemma existing_alike:
  assumes Q: "linked_queue E c" and R: "linked_queue E' d"
    and valid: "validateMaxField r = None"
    and tw: "twin c d l0 L0" and w: "writable b ws" "lb_writable B ws"
  shows "alike_outcomes E ttl E' c d r ws (lock_existing E r ws ttl l0 b) (legacy_existing E' (legacy_request r) ws ttl' L0 B)"
proof -
  let ?l = "update_limits r l0" and ?L = "legacy_update_limits (legacy_request r) L0"
  let ?b = "set_lock (l_key r) ?l b"
  have t: "twin c d ?l ?L" by (rule twin_update_limits [OF valid tw])
  have q: "map fst (d (ll_notify ?L)) = map fst (c (notify ?l))" using t by (simp add: twin_def)
  then have len: "lq_length E' (ll_notify ?L) = lq_length E (notify ?l)"
    by (metis length_map linked_queue.length_contents [OF Q] linked_queue.length_contents [OF R])
  have b: "get_lock ?b (l_key r) = Some ?l" "writable ?b ws" using w by simp_all
  note decision = twin_decision [OF valid t]
  show ?thesis
  proof (cases "effective_max r ?l \<le> effective_count r ?l")
    case True
    have "twin c d (?l\<lparr>notify := enqueue_request E r ws ttl (notify ?l)\<rparr>)
        (?L\<lparr>ll_notify := legacy_enqueue E' (legacy_request r) ws ttl' (ll_notify ?L)\<rparr>)"
      using t twin_enqueue [OF Q R q] by (simp add: twin_def)
    moreover have "if_queued E r ws ttl False (if l_wait r = Some False then ?l
        else ?l\<lparr>notify := enqueue_request E r ws ttl (notify ?l)\<rparr>) = ?l\<lparr>notify := enqueue_request E r ws ttl (notify ?l)\<rparr>"
      by (simp add: if_queued_def)
    ultimately have "alike_outcomes E ttl E' c d r ws (lock_contended E r ws ttl ?l ?b)
        (legacy_contended E' (legacy_request r) ws ttl' ?L B)"
      unfolding alike_outcomes_def
      using lock_contended_outcome [OF b] legacy_contended_outcome [OF w(2), of E' "legacy_request r" ttl' ?L] len
      by metis
    with True decision show ?thesis by (simp add: lock_existing_def legacy_existing_def Let_def)
  next
    case False
    with decision acquire_alike [OF t b w(2)] len show ?thesis
      by (simp add: lock_existing_def legacy_existing_def Let_def)
  qed
qed

lemma new_alike:
  assumes Q: "linked_queue E c" and R: "linked_queue E' d" and valid: "validateMaxField r = None"
    and w: "writable b ws" "lb_writable B ws"
  shows "alike_outcomes E ttl E' c d r ws (lock_new E r ws ttl b) (legacy_new E' (legacy_request r) ws ttl' B)"
proof -
  let ?mx = "if is_integer (l_max r) then Some (limit (l_max r)) else None"
  let ?mr = "if beginRead r then Some (case requested_limit (l_maxRead r) (l_max r) of None \<Rightarrow> 10 | Some m \<Rightarrow> m) else None"
  let ?mw = "if beginWrite r then Some (case requested_limit (l_maxWrite r) (l_max r) of None \<Rightarrow> 1 | Some m \<Rightarrow> m) else None"
  let ?b0 = "add_ws_key ws (l_key r) b"
  let ?l = "getDefaultLockObject E ?b0 (l_key r) (l_keep r) ?mx ?mr ?mw"
  let ?b = "create_lock E (l_key r) (l_keep r) ?mx ?mr ?mw ?b0"
  let ?L = "legacy_getDefaultLockObject E' B (l_keep r) (int_limit (l_max r)) (map_option int ?mr) (map_option int ?mw)"
  let ?B = "legacy_create_lock E' (l_key r) (l_keep r) (int_limit (l_max r)) (map_option int ?mr) (map_option int ?mw) B"
  have t: "twin c d ?l ?L"
    using valid_limits(1,4) [OF valid] by (auto simp: twin_def getDefaultLockObject_def legacy_getDefaultLockObject_def
        linked_queue.contents_new [OF Q] linked_queue.contents_new [OF R] or_one_def)
  have b: "get_lock ?b (l_key r) = Some ?l" "writable ?b ws" using w by (simp_all add: create_lock_def)
  have B: "legacy_get ?B (l_key r) = Some ?L" "lb_writable ?B ws" using w by (simp_all add: legacy_create_lock_def)
  have "lock_new E r ws ttl b = lock_acquire E r ws ttl 0 ?l ?b"
    by (simp only: lock_new_def Let_def with_lock_def b(1) option.case)
  moreover have "legacy_new E' (legacy_request r) ws ttl' B = legacy_acquire True (legacy_request r) ws ttl' 0 ?L ?B"
  proof -
    have "(if wants_read (legacy_request r) then Some (case legacy_requested (lr_maxRead (legacy_request r)) (lr_max (legacy_request r))
        of None \<Rightarrow> 10 | Some m \<Rightarrow> m) else None) = map_option int ?mr"
      "(if wants_write (legacy_request r) then Some (case legacy_requested (lr_maxWrite (legacy_request r)) (lr_max (legacy_request r))
        of None \<Rightarrow> 1 | Some m \<Rightarrow> m) else None) = map_option int ?mw"
      by (simp_all add: beginRead_def beginWrite_def requested_agrees [OF valid] split: option.split)
    with B(1) show ?thesis unfolding legacy_new_def Let_def by (simp add: legacy_with_lock_def)
  qed
  ultimately show ?thesis using acquire_alike [OF t b B(2)] by simp
qed

text \<open>C35: The two brokers answer a \<open>lock\<close> request alike. If their lock objects for its key have the same limits,
  counts, holders and waiters (or the key is new to both), a request \<open>Broker1\<close> finds valid gets the same
  answer from both, granted or refused, with the same counts, up to the fencing token, and their lock
  objects are alike again afterwards. The one exception is a request with \<open>wait: false\<close> that is refused:
  \<open>Broker1\<close> leaves its queue as it is, \<open>Broker\<close> has queued the request like any other.\<close>

theorem brokers_answer_alike:
  assumes "linked_queue E c" and "linked_queue E' d" and "validateMaxField r = None"
    and "writable b ws" and "lb_writable B ws"
    and "rel_option (twin c d) (get_lock b (l_key r)) (legacy_get B (l_key r))"
  shows "\<exists>l L acq n t. get_lock (lock E r ws b) (l_key r) = Some l \<and>
    legacy_get (legacy_lock E' (legacy_request r) ws B) (l_key r) = Some L \<and>
    twin c d (if \<not> acq \<and> l_wait r = Some False
      then l\<lparr>notify := enqueue_request E r ws (lock_ttl E b r) (notify l)\<rparr> else l) L \<and>
    last (out (lock E r ws b)) = Sent ws (LockReply (l_uuid r) (l_key r) acq n (readers l) t None) \<and>
    last (lb_out (legacy_lock E' (legacy_request r) ws B)) =
      Sent ws (LockReply (l_uuid r) (l_key r) acq n (readers l) None None)"
proof -
  have "alike_outcomes E (lock_ttl E b r) E' c d r ws (lock E r ws b) (legacy_lock E' (legacy_request r) ws B)"
  proof (cases "get_lock b (l_key r)")
    case None
    with assms(6) have "legacy_get B (l_key r) = None" by simp
    with None new_alike [OF assms(1-3), of "lock_prelude E r ws b" ws "legacy_prelude E' (legacy_request r) ws B"] assms(4,5)
    show ?thesis by (simp add: lock_prelude [OF assms(3)] legacy_lock_prelude)
  next
    case (Some l)
    with assms(6) obtain L where L: "legacy_get B (l_key r) = Some L" "twin c d l L" by (auto elim: option.rel_cases)
    then have "twin c d (l\<lparr>timestampEmptied := None\<rparr>) (L\<lparr>ll_timestampEmptied := None\<rparr>)" by (simp add: twin_def)
    from existing_alike [OF assms(1-3) this, of "lock_prelude E r ws b" ws "legacy_prelude E' (legacy_request r) ws B"]
    show ?thesis using Some L(1) assms(4,5) by (simp add: lock_prelude [OF assms(3)] legacy_lock_prelude)
  qed
  then obtain l L acq n where *: "broker_outcome r ws (lock E r ws b) l acq n"
    "legacy_outcome E' (legacy_request r) ws (legacy_lock E' (legacy_request r) ws B) L acq n" "twin c d (if_queued E r ws (lock_ttl E b r) acq l) L"
    unfolding alike_outcomes_def by blast
  then have "ll_readers L = readers l" by (simp add: twin_def if_queued_def split: if_splits)
  with * show ?thesis unfolding broker_outcome_def legacy_outcome_def if_queued_def by auto
qed

theorem brokers_answer_alike_witness:
  "\<exists>l L acq n t. get_lock (lock demo (ask ''b'' ''k'' (Integer 1)) 1 (after one_held)) ''k'' = Some l \<and>
    legacy_get (legacy_lock legacy_demo (legacy_request (ask ''b'' ''k'' (Integer 1))) 1 (legacy_after held_by_1)) ''k'' = Some L \<and>
    twin (\<lambda>q. q) (\<lambda>q. q) l L \<and>
    last (out (lock demo (ask ''b'' ''k'' (Integer 1)) 1 (after one_held))) =
      Sent 1 (LockReply ''b'' ''k'' acq n (readers l) t None) \<and>
    last (lb_out (legacy_lock legacy_demo (legacy_request (ask ''b'' ''k'' (Integer 1))) 1 (legacy_after held_by_1))) =
      Sent 1 (LockReply ''b'' ''k'' acq n (readers l) None None)"
proof -
  let ?r = "ask ''b'' ''k'' (Integer 1)"
  have r: "l_key ?r = ''k''" "l_uuid ?r = ''b''" "l_wait ?r \<noteq> Some False" by (simp_all add: ask_def)
  have *: "validateMaxField ?r = None" "writable (after one_held) 1" "lb_writable (legacy_after held_by_1) 1"
    "rel_option (twin (\<lambda>q. q) (\<lambda>q. q)) (get_lock (after one_held) ''k'') (legacy_get (legacy_after held_by_1) ''k'')"
    by code_simp+
  from brokers_answer_alike [OF demo_queue legacy_demo_queue *(1-3)] *(4) show ?thesis by (simp add: r)
qed

end
