(* ===== verification/Spec2Isabelle.thy ===== *)
theory Spec2Isabelle
  imports BrokerReach Safety Liveness Composite Requests Releases Departures JsonParser Authority
    Callbacks ClientFrames Dialogue Semaphore BridgeCalls SystemRuns HttpRules HardenedRuns
    HardenedSafety BrokerStart LegacyAgrees
begin

text \<open>
  live-mutex: a networked mutex and semaphore broker and its client, written in TypeScript. The
  models follow the sources under \<open>src/src/\<close>.

  \<^bold>\<open>The program.\<close> A broker (\<open>broker-1.ts\<close>) accepts connections and keeps, for each key, a lock object:
  its holders with their fencing tokens, a queue of waiters, the limits, the reader count and the
  writer flag. It answers requests that arrive as lines of JSON (\<open>json-parser.ts\<close>, \<open>protocol.ts\<close>),
  releases the holds of connections that end, and evicts holds whose deadline has passed. The
  hardened broker (\<open>broker-1-hardened.ts\<close>) puts the fencing counters under a watermark that it writes
  to disk. The client (\<open>client.ts\<close>) turns calls with callbacks into requests, keeps one resolution and
  one timer per request, retries, and recovers its connection.

  \<^bold>\<open>Shared theories.\<close> \<open>Prelude\<close> holds the lemmas on association lists (a JavaScript \<open>Map\<close> in insertion
  order) and the collections used by the proofs. \<open>JsTypes\<close> has the JavaScript values of unvalidated
  fields, numbers with \<open>Infinity\<close>, the increment that stops at \<open>2 ^ 53\<close>, and hashes made of plain
  objects. \<open>Protocol\<close> has the requests (\<open>protocol.ts\<close>) and the replies. \<open>LinkedQueue\<close> is the interface of
  the package \<open>@oresoftware/linked-queue\<close>, a third-party library: its operations are a parameter of
  the broker, its documented behaviour a locale, and a list implements it for the witnesses.

  \<^bold>\<open>The broker.\<close> \<open>BrokerState\<close> (the class, the lock object, \<open>send\<close>, \<open>getDefaultLockObject\<close>, tokens),
  \<open>BrokerGrant\<close> (\<open>grantLock\<close>, \<open>tryGrantAcquireManyFromQueue\<close>, \<open>ensureNewLockHolder\<close>, the re-election
  timer), \<open>BrokerMany\<close> (\<open>acquireMany\<close>, \<open>releaseMany\<close>), \<open>BrokerLock\<close> (\<open>lock\<close>), \<open>BrokerUnlock\<close> (\<open>unlock\<close>),
  \<open>BrokerTtl\<close> (the sweeper), \<open>BrokerRW\<close> (the reader/writer probes), \<open>BrokerConn\<close> (connections,
  \<open>onData\<close>, \<open>dispatchRequest\<close>, the other requests, \<open>close\<close>), \<open>BrokerStart\<close> (the options of the
  constructor, \<open>ensure\<close>), \<open>Versions\<close> (\<open>compare-versions.ts\<close>) and
  \<open>BrokerStep\<close> (one event handled to completion; reachable states). The state is one record; what is
  sent, warned about and minted is appended to the list \<open>out\<close>. The drain of a queue is a loop that
  need not end, so it is a partial function in the option monad: \<open>None\<close> is a handler that never
  returns, and the theorems that need a result prove that there is one.

  \<^bold>\<open>Proofs about the broker.\<close> \<open>BrokerInv\<close> and \<open>BrokerReach\<close> prove once that every handler keeps a
  property that survives the few ways lock objects change. The locale \<open>broker_frame\<close> has the changes that
  make no lock object and grant nothing, \<open>broker_invariant\<close> extends it by the two that do;
  \<open>BrokerFence\<close> (tokens), \<open>BrokerCapacity\<close> (permits) and \<open>Semaphore\<close> (the refinement of a
  numbered semaphore) interpret it. \<open>BrokerDrain\<close> has the total and partial correctness of the drain.
  \<open>Safety\<close>, \<open>Liveness\<close>, \<open>Requests\<close>, \<open>Composite\<close>, \<open>Releases\<close> and \<open>Departures\<close> hold the properties:
  exclusion, handing over, the decision of \<open>lock\<close>, atomicity of composites, and every way a hold ends.
  \<open>Demo\<close> has the concrete runs of the witnesses.

  \<^bold>\<open>Frames and tokens.\<close> \<open>JsonParser\<close> is the stream parser with its UTF-8 decoding; the frames do not
  depend on how the bytes are cut. \<open>Authority\<close> is the fencing watermark of the hardened broker with
  its file, its system calls, their failures and crashes between them.

  \<^bold>\<open>The hardened broker.\<close> \<open>Hardened\<close> has the methods \<open>broker-1-hardened.ts\<close> overrides. A counter that
  is raised or seeded can throw in the middle of a base handler, so those handlers are written out again
  with the exception as a result, and the state they leave; a list says which system calls fail.
  \<open>HardenedRuns\<close> shows what survives a failure (a lock fails closed) and what does not.
  \<open>HardenedStep\<close> adds every other handler over the overrides and makes a state machine of them: an event
  is handled, system calls are about to fail, or the process dies and a new one opens the state file.
  \<open>HardenedInv\<close> and \<open>HardenedReach\<close> are the counterpart of \<open>BrokerInv\<close> and \<open>BrokerReach\<close>, with a law for
  each way the authority is used (the locale \<open>hardened_invariant\<close>, whose other laws are those of
  \<open>broker_frame\<close>; \<open>hardened_runs\<close> adds restarts). \<open>HardenedSafety\<close> interprets them: the broker is
  a run of the abstract authority of \<open>Authority\<close>, so its tokens increase over restarts, and mutual
  exclusion holds with every failure.

  \<^bold>\<open>The earlier broker.\<close> \<open>main.ts\<close> still exports \<open>Broker\<close> (\<open>broker.ts\<close>), which has no tokens and no sweeper but a
  timer per hold. \<open>LegacyState\<close> (state, timers, hand-over, re-election), \<open>LegacyLock\<close> (\<open>lock\<close>, \<open>unlock\<close>, the
  timer of a hold) and \<open>LegacyConn\<close> (probes, connections, dispatch, events) model it; \<open>LegacyInv\<close> and
  \<open>LegacyReach\<close> prove its invariant, \<open>LegacySafety\<close> its properties: its handlers end, keys are exclusive,
  holds expire, and the end of any connection frees every key. \<open>LegacyAgrees\<close> compares its \<open>lock\<close> with
  that of \<open>Broker1\<close>.

  \<^bold>\<open>The client.\<close> \<open>ClientState\<close> (fields, closures as values, \<open>write\<close>, \<open>cleanUp\<close>), \<open>ClientLock\<close> (\<open>lock\<close>,
  \<open>lockInternal\<close>, \<open>unlock\<close> and their checks, timers and resolutions), \<open>ClientRun\<close> (the other requests,
  \<open>onData\<close>, recovery, the end of a connection; one event at a time), \<open>ClientConfig\<close> (the constructor).
  A callback is the number of the call it was given to. \<open>ClientInv\<close> and \<open>ClientSteps\<close> prove the
  bookkeeping invariant for every event, \<open>Callbacks\<close> what follows from it. \<open>ClientRules\<close> is the locale
  for properties of what a client keeps and writes; \<open>ClientFrames\<close> interprets it for the form of
  requests and the length of timers. \<open>Outcomes\<close> shows that requests end.

  \<^bold>\<open>The reader/writer clients.\<close> \<open>RWState\<close> (continuations, the calls of the base class) and \<open>RWClient\<close>
  (\<open>rw-client.ts\<close>, \<open>rw-write-preferred-client.ts\<close>): each method is a chain of callbacks, a callback is
  a continuation filed under the number of the call of the base client it was passed to. A callback the
  base client calls at once runs inside its loops (\<open>rw_each\<close>: the connection ends, recovers or is
  closed), one put off by \<open>process.nextTick\<close> after the event (\<open>run_ticks\<close>). \<open>RWCalls\<close> has
  what becomes of the callbacks and that without continuations the loops are those of the base client,
  \<open>RWTermination\<close> the measure under which running them ends, \<open>RWRuns\<close> the properties: no callback is
  called twice, and the two ways (\<open>close\<close>, the end of the connection during \<open>acquireReadLock\<close>) in which
  one is lost. The hardened subclasses are the same classes with the field \<open>rw_strict\<close>.

  \<^bold>\<open>Client and broker.\<close> \<open>Dialogue\<close> puts the two together: a lock and an unlock from the call to the
  callback, and what becomes of grants the client no longer wants. \<open>Network\<close> is a system of any number of
  clients, plain or reader/writer, and a broker, with every interleaving of calls, messages and timers
  as a sequence of steps; \<open>Answers\<close> and \<open>ClientGrants\<close> are the invariants of its two sides, and
  \<open>SystemRuns\<close> has the properties of the whole, among them the runs in which the reader/writer
  protocols admit a reader and a writer together.

  \<^bold>\<open>The in-process bridge.\<close> \<open>VirtualSocket\<close> is the stand-in for a socket, with the queue of
  \<open>process.nextTick\<close> in its state; \<open>Bridge\<close> (\<open>in-process-bridge.ts\<close>) puts broker, socket and promises
  together, one event at a time; \<open>BridgePromises\<close> shows that promises are settled once and
  \<open>BridgeCalls\<close> compares the calls with requests over a connection and ends the bridge.

  \<^bold>\<open>The HTTP server.\<close> \<open>HttpText\<close> has the text functions of \<open>http-server.ts\<close> and the log level
  (\<open>log-level.ts\<close>); \<open>HttpServer\<close> is the server over the bridge: routing, bodies in chunks, the handlers
  before and after their \<open>await\<close>, the admin routes, timeouts, \<open>stop\<close>. \<open>HttpExchanges\<close> is the
  invariant that ties requests to promises, \<open>HttpRuns\<close> follows single requests to their response,
  \<open>HttpRules\<close> has what holds in every run.

  \<^bold>\<open>Parameters and bounds.\<close> The UUID generator is a parameter, assumed injective where a proof needs
  it. The clock is a field of the broker that an event sets to any value. No model uses fuel: loops
  are structural, have a measure, or are partial functions. Numbers are integers; the places where a
  JavaScript number stops being exact are \<open>js_inc\<close> and the range checks of the watermark. Tables that are
  plain objects treat inherited names specially: \<open>hash_has\<close> reads them, \<open>settable\<close> and \<open>hash_set\<close> are
  assignment, which \<open>__proto__\<close> ignores (the uuids and tokens of an \<open>acquireMany\<close>, \<open>wsToKeys\<close>,
  \<open>wsToUUIDs\<close>).

  \<^bold>\<open>Not modelled.\<close> Telemetry, console logging and the process: pure output. The Unix socket file and
  the sockets' own buffering. \<open>broker-old.ts\<close>: a copy of \<open>broker.ts\<close> that nothing imports. HTTP
  parsing, and the status page around its table of keys. The command line tools:
  argument handling. A key or uuid of the name \<open>__proto__\<close> in the tables of timers and listeners and in
  the client's tables, which are modelled as maps; callbacks of users that throw or that call back into
  the client.
\<close>

end
